(* ===== verification/Prelude.thy ===== *)
theory Prelude
  imports Main "HOL-Library.Word" "HOL-Library.Signed_Division"
begin

text \<open>
  Shared vocabulary of the development: the integer types and constants of
  \<^verbatim>\<open>common/Common.hpp\<close>, the ways the program can stop
  abnormally, and a small state-and-fault calculus in which every C++ method
  is written as a function from a state to either a fault or a result with the
  new state.  The collections \<^verbatim>\<open>run\<close> (evaluation
  equations) and \<^verbatim>\<open>wp\<close> (postcondition equations) carry the
  component proofs.
\<close>

unbundle bit_operations_syntax

section \<open>Integer types and constants (common/Common.hpp)\<close>

type_synonym Byte = "8 word"

type_synonym Half = "16 word"

type_synonym Word = "32 word"

type_synonym Addr = "32 word"

definition MAX_PROCESS :: nat where
  "MAX_PROCESS = 8"

definition MAX_THREADS :: nat where
  "MAX_THREADS = 5"

definition KERNEL_PAGE_SIZE :: Addr where
  "KERNEL_PAGE_SIZE = 4096"

definition GUARD_PAGE_SIZE :: Addr where
  "GUARD_PAGE_SIZE = KERNEL_PAGE_SIZE"

definition MEMORY_SIZE :: Addr where
  "MEMORY_SIZE = 64 * 1024"

definition MEMORY_BASE :: Addr where
  "MEMORY_BASE = 0"

definition VIRTUAL_MEMORY_SIZE :: Addr where
  "VIRTUAL_MEMORY_SIZE = 64 * 1024 * 1024"

definition STACK_TOP :: Addr where
  "STACK_TOP = VIRTUAL_MEMORY_SIZE"

definition STACK_REGION_BOTTOM :: Addr where
  "STACK_REGION_BOTTOM = VIRTUAL_MEMORY_SIZE div 2"

definition MAIN_STACK_SIZE :: Addr where
  "MAIN_STACK_SIZE = VIRTUAL_MEMORY_SIZE div 4"

definition THREAD_STACK_SIZE :: Addr where
  "THREAD_STACK_SIZE =
     (VIRTUAL_MEMORY_SIZE div 4) div (of_nat MAX_THREADS - 1) - GUARD_PAGE_SIZE"

definition HEAP_START :: Addr where
  "HEAP_START = VIRTUAL_MEMORY_SIZE div 4"

definition HEAP_MAX_LIMIT :: Addr where
  "HEAP_MAX_LIMIT = STACK_REGION_BOTTOM"

definition SCHED_QUANTUM_INSTRUCTIONS :: nat where
  "SCHED_QUANTUM_INSTRUCTIONS = 100"

definition BLOCK_SIZE :: nat where
  "BLOCK_SIZE = 4096"

definition NUM_DISK_BLOCKS :: nat where
  "NUM_DISK_BLOCKS = 4096"

definition NUM_SWAP_BLOCKS :: nat where
  "NUM_SWAP_BLOCKS = 2048"

definition FD_TABLE_SIZE :: nat where
  "FD_TABLE_SIZE = 1024"

definition MAX_FILE_NAME_LENGTH :: nat where
  "MAX_FILE_NAME_LENGTH = 128"

lemmas layout_defs =
  KERNEL_PAGE_SIZE_def GUARD_PAGE_SIZE_def MEMORY_SIZE_def MEMORY_BASE_def
  VIRTUAL_MEMORY_SIZE_def STACK_TOP_def STACK_REGION_BOTTOM_def MAIN_STACK_SIZE_def
  THREAD_STACK_SIZE_def HEAP_START_def HEAP_MAX_LIMIT_def MAX_THREADS_def MAX_PROCESS_def

lemma unat_MEMORY_SIZE: "unat MEMORY_SIZE = 65536"
  by (simp add: MEMORY_SIZE_def)

section \<open>Abnormal ends\<close>

text \<open>
  The ways a run of the simulator can stop: a failed \<^verbatim>\<open>assert\<close>
  (\<^verbatim>\<open>CMakeLists.txt\<close> builds Debug by default), \<^verbatim>\<open>Utils::illegal\<close>
  with its reason, the unknown-opcode exit of \<^verbatim>\<open>Machine::execute\<close>,
  \<^verbatim>\<open>PANIC\<close>, and behaviour C++ leaves undefined (a vector
  access out of range, a null pointer dereferenced).
\<close>

datatype fault =
    AssertFailed
  | IllegalInstruction Word string
  | UnknownOpcode "8 word"
  | KernelPanic string
  | UndefinedBehaviour

section \<open>State and faults\<close>

type_synonym ('s, 'a) prog = "'s \<Rightarrow> fault + ('a \<times> 's)"

named_theorems run \<open>evaluation equations of programs\<close>
named_theorems wp \<open>postcondition equations of programs\<close>

definition ret :: "'a \<Rightarrow> ('s, 'a) prog" where
  "ret x = (\<lambda>s. Inr (x, s))"

definition fail :: "fault \<Rightarrow> ('s, 'a) prog" where
  "fail e = (\<lambda>s. Inl e)"

definition bind :: "('s, 'a) prog \<Rightarrow> ('a \<Rightarrow> ('s, 'b) prog) \<Rightarrow> ('s, 'b) prog" where
  "bind m k = (\<lambda>s. case m s of Inl e \<Rightarrow> Inl e | Inr (x, t) \<Rightarrow> k x t)"

definition andthen :: "('s, 'a) prog \<Rightarrow> ('s, 'b) prog \<Rightarrow> ('s, 'b) prog" where
  "andthen m n = bind m (\<lambda>_. n)"

definition gets :: "('s \<Rightarrow> 'a) \<Rightarrow> ('s, 'a) prog" where
  "gets f = (\<lambda>s. Inr (f s, s))"

definition modify :: "('s \<Rightarrow> 's) \<Rightarrow> ('s, unit) prog" where
  "modify f = (\<lambda>s. Inr ((), f s))"

definition require :: "bool \<Rightarrow> fault \<Rightarrow> ('s, unit) prog" where
  "require b e = (\<lambda>s. if b then Inr ((), s) else Inl e)"

text \<open>Running a method of a component on its part of a larger state.\<close>

definition zoom ::
  "('s \<Rightarrow> 't) \<Rightarrow> (('t \<Rightarrow> 't) \<Rightarrow> 's \<Rightarrow> 's) \<Rightarrow> ('t, 'a) prog \<Rightarrow> ('s, 'a) prog" where
  "zoom g u m =
     (\<lambda>s. case m (g s) of Inl e \<Rightarrow> Inl e | Inr (x, t) \<Rightarrow> Inr (x, u (\<lambda>_. t) s))"

text \<open>The loop \<^verbatim>\<open>for (x : xs) a = body(a, x)\<close>.\<close>

primrec foldM :: "('a \<Rightarrow> 'x \<Rightarrow> ('s, 'a) prog) \<Rightarrow> 'a \<Rightarrow> 'x list \<Rightarrow> ('s, 'a) prog" where
  "foldM body a [] = ret a"
| "foldM body a (x # xs) = bind (body a x) (\<lambda>b. foldM body b xs)"

lemma foldM_Nil [run]: "foldM body a [] = ret a"
  by (simp only: foldM.simps)

lemma foldM_Cons [run]: "foldM body a (x # xs) = bind (body a x) (\<lambda>b. foldM body b xs)"
  by (simp only: foldM.simps)

declare foldM.simps [simp del]

definition for_each :: "'x list \<Rightarrow> ('x \<Rightarrow> ('s, unit) prog) \<Rightarrow> ('s, unit) prog" where
  "for_each xs body = foldM (\<lambda>_ x. body x) () xs"

text \<open>Element access of a \<^verbatim>\<open>std::vector\<close>, undefined out of range.\<close>

definition vec_get :: "nat \<Rightarrow> ('x list, 'x) prog" where
  "vec_get i = (\<lambda>v. if i < length v then Inr (v ! i, v) else Inl UndefinedBehaviour)"

definition vec_set :: "nat \<Rightarrow> 'x \<Rightarrow> ('x list, unit) prog" where
  "vec_set i x = (\<lambda>v. if i < length v then Inr ((), v[i := x]) else Inl UndefinedBehaviour)"

lemma ret_run [run]: "ret x s = Inr (x, s)"
  by (simp add: ret_def)

lemma fail_run [run]: "fail e s = Inl e"
  by (simp add: fail_def)

lemma bind_run [run]:
  "bind m k s = (case m s of Inl e \<Rightarrow> Inl e | Inr (x, t) \<Rightarrow> k x t)"
  by (simp add: bind_def)

lemma bind_Inr [simp]: "m s = Inr (x, t) \<Longrightarrow> bind m k s = k x t"
  by (simp add: bind_def)

lemma bind_Inl [simp]: "m s = Inl e \<Longrightarrow> bind m k s = Inl e"
  by (simp add: bind_def)

lemma andthen_run [run]:
  "andthen m n s = (case m s of Inl e \<Rightarrow> Inl e | Inr (x, t) \<Rightarrow> n t)"
  by (simp add: andthen_def bind_def)

lemma andthen_Inr [simp]: "m s = Inr (x, t) \<Longrightarrow> andthen m n s = n t"
  by (simp add: andthen_def)

lemma andthen_Inl [simp]: "m s = Inl e \<Longrightarrow> andthen m n s = Inl e"
  by (simp add: andthen_def)

lemma gets_run [run]: "gets f s = Inr (f s, s)"
  by (simp add: gets_def)

lemma modify_run [run]: "modify f s = Inr ((), f s)"
  by (simp add: modify_def)

lemma require_run [run]: "require b e s = (if b then Inr ((), s) else Inl e)"
  by (simp add: require_def)

lemma require_True [simp]: "b \<Longrightarrow> require b e s = Inr ((), s)"
  by (simp add: require_def)

lemma require_False [simp]: "\<not> b \<Longrightarrow> require b e s = Inl e"
  by (simp add: require_def)

lemma zoom_run [run]:
  "zoom g u m s = (case m (g s) of Inl e \<Rightarrow> Inl e | Inr (x, t) \<Rightarrow> Inr (x, u (\<lambda>_. t) s))"
  by (simp add: zoom_def)

lemma zoom_Inr [simp]: "m (g s) = Inr (x, t) \<Longrightarrow> zoom g u m s = Inr (x, u (\<lambda>_. t) s)"
  by (simp add: zoom_def)

lemma zoom_Inl [simp]: "m (g s) = Inl e \<Longrightarrow> zoom g u m s = Inl e"
  by (simp add: zoom_def)

lemma for_each_Nil [run]: "for_each [] body = ret ()"
  by (simp add: for_each_def foldM_Nil)

lemma for_each_Cons [run]: "for_each (x # xs) body = andthen (body x) (for_each xs body)"
  by (simp add: for_each_def andthen_def foldM_Cons)

lemma vec_get_in [simp]: "i < length v \<Longrightarrow> vec_get i v = Inr (v ! i, v)"
  by (simp add: vec_get_def)

lemma vec_get_out [simp]: "\<not> i < length v \<Longrightarrow> vec_get i v = Inl UndefinedBehaviour"
  by (simp add: vec_get_def)

lemma vec_set_in [simp]: "i < length v \<Longrightarrow> vec_set i x v = Inr ((), v[i := x])"
  by (simp add: vec_set_def)

lemma vec_set_out [simp]: "\<not> i < length v \<Longrightarrow> vec_set i x v = Inl UndefinedBehaviour"
  by (simp add: vec_set_def)

lemmas vec_run [run] = vec_get_def vec_set_def

lemma foldM_append:
  "foldM body a (xs @ ys) = bind (foldM body a xs) (\<lambda>b. foldM body b ys)"
proof (induction xs arbitrary: a)
  case Nil
  show ?case by (simp add: fun_eq_iff run)
next
  case (Cons x xs)
  then show ?case by (simp add: fun_eq_iff run split: sum.split)
qed

lemma for_each_append:
  "for_each (xs @ ys) body = andthen (for_each xs body) (for_each ys body)"
  by (simp add: for_each_def foldM_append andthen_def)

section \<open>Postconditions\<close>

text \<open>
  \<^verbatim>\<open>post E Q m s\<close>: from \<^verbatim>\<open>s\<close> the program
  \<^verbatim>\<open>m\<close> stops with a fault in \<^verbatim>\<open>E\<close> or
  returns a result and state in \<^verbatim>\<open>Q\<close>.  With the empty
  \<^verbatim>\<open>E\<close> it says that the program returns.
\<close>

definition post ::
  "(fault \<Rightarrow> bool) \<Rightarrow> ('a \<Rightarrow> 's \<Rightarrow> bool) \<Rightarrow> ('s, 'a) prog \<Rightarrow> 's \<Rightarrow> bool" where
  "post E Q m s = (case m s of Inl e \<Rightarrow> E e | Inr (x, t) \<Rightarrow> Q x t)"

lemma post_ret [wp]: "post E Q (ret x) s = Q x s"
  by (simp add: post_def run)

lemma post_fail [wp]: "post E Q (fail e) s = E e"
  by (simp add: post_def run)

lemma post_bind [wp]: "post E Q (bind m k) s = post E (\<lambda>x. post E Q (k x)) m s"
  by (simp add: post_def run split: sum.split)

lemma post_andthen [wp]: "post E Q (andthen m n) s = post E (\<lambda>_. post E Q n) m s"
  by (simp add: andthen_def post_bind)

lemma post_gets [wp]: "post E Q (gets f) s = Q (f s) s"
  by (simp add: post_def run)

lemma post_modify [wp]: "post E Q (modify f) s = Q () (f s)"
  by (simp add: post_def run)

lemma post_require [wp]: "post E Q (require b e) s = (if b then Q () s else E e)"
  by (simp add: post_def run)

lemma post_zoom [wp]:
  "post E Q (zoom g u m) s = post E (\<lambda>x t. Q x (u (\<lambda>_. t) s)) m (g s)"
  by (simp add: post_def run split: sum.split)

lemma post_if [wp]:
  "post E Q (if b then m else n) s = (if b then post E Q m s else post E Q n s)"
  by simp

lemma post_vec_get [wp]:
  "post E Q (vec_get i) v = (if i < length v then Q (v ! i) v else E UndefinedBehaviour)"
  by (simp add: post_def run)

lemma post_vec_set [wp]:
  "post E Q (vec_set i x) v = (if i < length v then Q () (v[i := x]) else E UndefinedBehaviour)"
  by (simp add: post_def run)

lemma post_mono:
  "post E Q m s \<Longrightarrow> (\<And>e. E e \<Longrightarrow> E' e) \<Longrightarrow> (\<And>x t. Q x t \<Longrightarrow> Q' x t) \<Longrightarrow> post E' Q' m s"
  by (auto simp: post_def split: sum.splits)

lemma post_InrD: "post E Q m s \<Longrightarrow> m s = Inr (x, t) \<Longrightarrow> Q x t"
  by (simp add: post_def run)

lemma post_InlD: "post E Q m s \<Longrightarrow> m s = Inl e \<Longrightarrow> E e"
  by (simp add: post_def run)

lemma post_returns: "post (\<lambda>_. False) Q m s \<Longrightarrow> \<exists>x t. m s = Inr (x, t) \<and> Q x t"
  by (auto simp: post_def split: sum.splits)

lemma post_conj:
  "post E Q m s \<Longrightarrow> post E Q' m s \<Longrightarrow> post E (\<lambda>x t. Q x t \<and> Q' x t) m s"
  by (auto simp: post_def split: sum.splits)

text \<open>The loop rule: an invariant over the processed prefix.\<close>

lemma post_foldM:
  assumes "I a s"
    and "\<And>a x s. x \<in> set xs \<Longrightarrow> I a s \<Longrightarrow> post E I (body a x) s"
  shows "post E I (foldM body a xs) s"
  using assms
proof (induction xs arbitrary: a s)
  case Nil
  then show ?case by (simp add: foldM_Nil wp)
next
  case (Cons x xs)
  have "post E I (body a x) s"
    using Cons.prems by simp
  then have "post E (\<lambda>b. post E I (foldM body b xs)) (body a x) s"
    by (rule post_mono) (simp_all add: Cons.IH Cons.prems(2))
  then show ?case by (simp add: foldM_Cons wp)
qed

lemma post_for_each:
  assumes "I s"
    and "\<And>x s. x \<in> set xs \<Longrightarrow> I s \<Longrightarrow> post E (\<lambda>_. I) (body x) s"
  shows "post E (\<lambda>_. I) (for_each xs body) s"
  unfolding for_each_def by (rule post_foldM) (use assms in auto)

end
