(* ===== verification/Decoder.thy ===== *)
theory Decoder
  imports Prelude
begin

text \<open>
  Instruction decoding: \<^verbatim>\<open>common/Utils.hpp\<close> and
  \<^verbatim>\<open>rv32vm/Decoder.hpp/.cpp\<close>.  The scoped enums of the
  source are 8-bit words (\<^verbatim>\<open>enum class ... : uint8_t\<close>), since
  \<^verbatim>\<open>static_cast\<close> yields values that name no enumerator.  The
  lemmas give every field and immediate bit by bit.
\<close>

section \<open>Bit utilities (common/Utils.hpp)\<close>

definition signExtend :: "Word \<Rightarrow> nat \<Rightarrow> Word" where
  "signExtend val bits = (let m = push_bit (bits - 1) 1 in (val XOR m) - m)"

definition extractBits :: "Word \<Rightarrow> nat \<Rightarrow> nat \<Rightarrow> Word" where
  "extractBits value start stop =
     (let len = stop - start + 1;
          m = ucast (push_bit len (1 :: 64 word) - 1)
      in drop_bit start value AND m)"

section \<open>Opcodes and function codes (rv32vm/Decoder.hpp)\<close>

type_synonym Opcode = "8 word"

type_synonym Func3 = "8 word"

type_synonym Func7 = "8 word"

abbreviation Opcode_R_Type :: Opcode where "Opcode_R_Type \<equiv> 0x33"
abbreviation Opcode_I_Type :: Opcode where "Opcode_I_Type \<equiv> 0x13"
abbreviation Opcode_B_Type :: Opcode where "Opcode_B_Type \<equiv> 0x63"
abbreviation Opcode_STORE :: Opcode where "Opcode_STORE \<equiv> 0x23"
abbreviation Opcode_LOAD :: Opcode where "Opcode_LOAD \<equiv> 0x03"
abbreviation Opcode_AUIPC :: Opcode where "Opcode_AUIPC \<equiv> 0x17"
abbreviation Opcode_LUI :: Opcode where "Opcode_LUI \<equiv> 0x37"
abbreviation Opcode_JALR :: Opcode where "Opcode_JALR \<equiv> 0x67"
abbreviation Opcode_JAL :: Opcode where "Opcode_JAL \<equiv> 0x6F"
abbreviation Opcode_SYSTEM :: Opcode where "Opcode_SYSTEM \<equiv> 0x73"
abbreviation Opcode_MISC_MEM :: Opcode where "Opcode_MISC_MEM \<equiv> 0x0F"

abbreviation F3_ADD_SUB :: Func3 where "F3_ADD_SUB \<equiv> 0x0"
abbreviation F3_SLL :: Func3 where "F3_SLL \<equiv> 0x1"
abbreviation F3_SLT :: Func3 where "F3_SLT \<equiv> 0x2"
abbreviation F3_SLTU :: Func3 where "F3_SLTU \<equiv> 0x3"
abbreviation F3_XOR :: Func3 where "F3_XOR \<equiv> 0x4"
abbreviation F3_SRL_SRA :: Func3 where "F3_SRL_SRA \<equiv> 0x5"
abbreviation F3_OR :: Func3 where "F3_OR \<equiv> 0x6"
abbreviation F3_AND :: Func3 where "F3_AND \<equiv> 0x7"
abbreviation F3_BEQ :: Func3 where "F3_BEQ \<equiv> 0x0"
abbreviation F3_BNE :: Func3 where "F3_BNE \<equiv> 0x1"
abbreviation F3_BLT :: Func3 where "F3_BLT \<equiv> 0x4"
abbreviation F3_BGE :: Func3 where "F3_BGE \<equiv> 0x5"
abbreviation F3_BLTU :: Func3 where "F3_BLTU \<equiv> 0x6"
abbreviation F3_BGEU :: Func3 where "F3_BGEU \<equiv> 0x7"
abbreviation F3_LB :: Func3 where "F3_LB \<equiv> 0x0"
abbreviation F3_LH :: Func3 where "F3_LH \<equiv> 0x1"
abbreviation F3_LW :: Func3 where "F3_LW \<equiv> 0x2"
abbreviation F3_LBU :: Func3 where "F3_LBU \<equiv> 0x4"
abbreviation F3_LHU :: Func3 where "F3_LHU \<equiv> 0x5"
abbreviation F3_SB :: Func3 where "F3_SB \<equiv> 0x0"
abbreviation F3_SH :: Func3 where "F3_SH \<equiv> 0x1"
abbreviation F3_SW :: Func3 where "F3_SW \<equiv> 0x2"
abbreviation F3_ECALL_EBREAK :: Func3 where "F3_ECALL_EBREAK \<equiv> 0x0"
abbreviation F3_FENCE :: Func3 where "F3_FENCE \<equiv> 0x0"
abbreviation F3_FENCE_I :: Func3 where "F3_FENCE_I \<equiv> 0x1"
abbreviation F3_MUL :: Func3 where "F3_MUL \<equiv> 0x0"
abbreviation F3_MULH :: Func3 where "F3_MULH \<equiv> 0x1"
abbreviation F3_MULHSU :: Func3 where "F3_MULHSU \<equiv> 0x2"
abbreviation F3_MULHU :: Func3 where "F3_MULHU \<equiv> 0x3"
abbreviation F3_DIV :: Func3 where "F3_DIV \<equiv> 0x4"
abbreviation F3_DIVU :: Func3 where "F3_DIVU \<equiv> 0x5"
abbreviation F3_REM :: Func3 where "F3_REM \<equiv> 0x6"
abbreviation F3_REMU :: Func3 where "F3_REMU \<equiv> 0x7"

abbreviation F7_ADD_SRL :: Func7 where "F7_ADD_SRL \<equiv> 0x00"
abbreviation F7_SUB_SRA :: Func7 where "F7_SUB_SRA \<equiv> 0x20"
abbreviation F7_M_TYPE :: Func7 where "F7_M_TYPE \<equiv> 0x01"

section \<open>Field extraction (rv32vm/Decoder.cpp)\<close>

definition opcode :: "Word \<Rightarrow> Opcode" where
  "opcode instr = ucast (extractBits instr 0 6)"

definition rd :: "Word \<Rightarrow> Word" where
  "rd instr = extractBits instr 7 11"

definition func3 :: "Word \<Rightarrow> Func3" where
  "func3 instr = ucast (extractBits instr 12 14)"

definition rs1 :: "Word \<Rightarrow> Word" where
  "rs1 instr = extractBits instr 15 19"

definition rs2 :: "Word \<Rightarrow> Word" where
  "rs2 instr = extractBits instr 20 24"

definition func7 :: "Word \<Rightarrow> Func7" where
  "func7 instr = ucast (extractBits instr 25 31)"

definition immI :: "Word \<Rightarrow> Word" where
  "immI instr = (let imm = extractBits instr 20 31 in signExtend imm 12)"

definition immS :: "Word \<Rightarrow> Word" where
  "immS instr =
     (let imm_11_5 = extractBits instr 25 31;
          imm_4_0 = extractBits instr 7 11;
          imm = push_bit 5 imm_11_5 OR imm_4_0
      in signExtend imm 12)"

definition immB :: "Word \<Rightarrow> Word" where
  "immB instr =
     (let imm12 = extractBits instr 31 31;
          imm10_5 = extractBits instr 25 30;
          imm4_1 = extractBits instr 8 11;
          imm11 = extractBits instr 7 7;
          imm = push_bit 12 imm12 OR push_bit 11 imm11 OR push_bit 5 imm10_5 OR push_bit 1 imm4_1
      in signExtend imm 13)"

definition immU :: "Word \<Rightarrow> Word" where
  "immU instr = push_bit 12 (extractBits instr 12 31)"

definition immJ :: "Word \<Rightarrow> Word" where
  "immJ instr =
     (let imm20 = extractBits instr 31 31;
          imm10_1 = extractBits instr 21 30;
          imm11 = extractBits instr 20 20;
          imm19_12 = extractBits instr 12 19;
          imm = push_bit 20 imm20 OR push_bit 12 imm19_12 OR push_bit 11 imm11 OR push_bit 1 imm10_1
      in signExtend imm 21)"

definition shamtI :: "Word \<Rightarrow> Word" where
  "shamtI instr = extractBits instr 20 24"

definition shamtR :: "Word \<Rightarrow> Word" where
  "shamtR val = extractBits val 0 4"

section \<open>The fields bit by bit\<close>

lemma mask_cast: "n \<le> 32 \<Longrightarrow> (ucast (push_bit n (1 :: 64 word) - 1) :: Word) = mask n"
  by (rule bit_word_eqI)
    (simp add: bit_simps mask_eq_decr_exp [symmetric] flip: push_bit_eq_mult)

lemma extractBits_eq:
  "start \<le> stop \<Longrightarrow> stop < 32 \<Longrightarrow>
     extractBits v start stop = take_bit (stop - start + 1) (drop_bit start v)"
  by (simp only: extractBits_def mask_cast take_bit_eq_mask Let_def)

lemma bit_extractBits:
  "start \<le> stop \<Longrightarrow> stop < 32 \<Longrightarrow>
     bit (extractBits v start stop) n \<longleftrightarrow> n \<le> stop - start \<and> bit v (start + n)"
  by (auto simp: extractBits_eq bit_simps)

text \<open>The xor-and-subtract idiom is the library's sign extension.\<close>

lemma signExtend_eq:
  assumes small: "\<And>n. bit val n \<Longrightarrow> n < bits" and bits: "0 < bits" "bits \<le> 32"
  shows "signExtend val bits = signed_take_bit (bits - 1) val"
proof -
  define m where "m = (push_bit (bits - 1) 1 :: Word)"
  have bm: "bit m n \<longleftrightarrow> n = bits - 1 \<and> n < 32" for n
    by (auto simp: m_def bit_simps)
  have sx: "signExtend val bits = (val XOR m) - m"
    by (simp only: signExtend_def m_def Let_def)
  show ?thesis
  proof (cases "bit val (bits - 1)")
    case False
    have "val XOR m = val OR m"
      using False by (intro bit_word_eqI) (auto simp: bm bit_or_iff bit_xor_iff)
    also have "\<dots> = val + m"
      using False by (intro disjunctive_add [symmetric]) (auto simp: bm)
    finally have "signExtend val bits = val"
      by (simp add: sx)
    moreover have "signed_take_bit (bits - 1) val = val"
    proof (rule bit_word_eqI)
      fix n assume "n < LENGTH(32)"
      have "bit val n \<Longrightarrow> n < bits - 1"
        using small [of n] False by (cases "n = bits - 1") auto
      then show "bit (signed_take_bit (bits - 1) val) n \<longleftrightarrow> bit val n"
        using False \<open>n < LENGTH(32)\<close> by (auto simp: bit_signed_take_bit_iff min_def)
    qed
    ultimately show ?thesis by simp
  next
    case True
    define x where "x = val XOR m"
    have bx: "bit x n \<longleftrightarrow> bit val n \<and> n < bits - 1" for n
      using True small [of n] bits
      by (cases "n = bits - 1") (auto simp: x_def bm bit_xor_iff dest: bit_imp_le_length)
    have "- m = NOT (mask (bits - 1))"
      by (simp add: minus_eq_not_minus_1 mask_eq_decr_exp m_def)
    then have "x - m = x + NOT (mask (bits - 1))"
      by (metis diff_conv_add_uminus)
    also have "\<dots> = x OR NOT (mask (bits - 1))"
      by (intro disjunctive_add) (auto simp: bx bit_simps)
    also have "\<dots> = signed_take_bit (bits - 1) val"
      by (rule bit_word_eqI) (use True small bits in \<open>auto simp: bx bit_simps min_def\<close>)
    finally show ?thesis by (simp add: sx x_def)
  qed
qed


lemma bit_immI: "n < 32 \<Longrightarrow> bit (immI w) n \<longleftrightarrow> bit w (20 + min 11 n)"
proof -
  assume n: "n < 32"
  have "immI w = signed_take_bit (12 - 1) (extractBits w 20 31)"
    unfolding immI_def Let_def by (rule signExtend_eq) (auto simp: bit_extractBits)
  then show ?thesis
    using n by (auto simp: bit_signed_take_bit_iff bit_extractBits min_def)
qed

lemma bit_immS:
  "n < 32 \<Longrightarrow> bit (immS w) n \<longleftrightarrow> (if n < 5 then bit w (7 + n) else bit w (20 + min 11 n))"
proof -
  assume n: "n < 32"
  define imm where "imm = push_bit 5 (extractBits w 25 31) OR extractBits w 7 11"
  have b: "bit imm k \<longleftrightarrow> (if k < 5 then bit w (7 + k) else k < 12 \<and> bit w (20 + k))" for k
    by (auto simp: imm_def bit_or_iff bit_push_bit_iff bit_extractBits)
  have "immS w = signed_take_bit (12 - 1) imm"
    unfolding immS_def Let_def imm_def [symmetric]
    by (rule signExtend_eq) (auto simp: b split: if_splits)
  then show ?thesis
    using n by (auto simp: bit_signed_take_bit_iff b min_def)
qed

lemma bit_immB:
  "n < 32 \<Longrightarrow> bit (immB w) n \<longleftrightarrow>
     (if n = 0 then False else if n < 5 then bit w (7 + n) else if n < 11 then bit w (20 + n)
      else if n = 11 then bit w 7 else bit w 31)"
proof -
  assume n: "n < 32"
  define imm where "imm = push_bit 12 (extractBits w 31 31) OR push_bit 11 (extractBits w 7 7) OR
    push_bit 5 (extractBits w 25 30) OR push_bit 1 (extractBits w 8 11)"
  have b: "bit imm k \<longleftrightarrow>
     (if k = 0 then False else if k < 5 then bit w (7 + k) else if k < 11 then bit w (20 + k)
      else if k = 11 then bit w 7 else k = 12 \<and> bit w 31)" for k
    by (cases "k = 12") (auto simp: imm_def bit_or_iff bit_push_bit_iff bit_extractBits simp del: push_bit_Suc)
  have "immB w = signed_take_bit (13 - 1) imm"
    unfolding immB_def Let_def imm_def [symmetric]
    by (rule signExtend_eq) (auto simp: b split: if_splits)
  then show ?thesis
    using n by (auto simp: bit_signed_take_bit_iff b min_def)
qed

lemma bit_immU: "bit (immU w) n \<longleftrightarrow> 12 \<le> n \<and> bit w n"
  by (auto simp: immU_def bit_push_bit_iff bit_extractBits dest: bit_imp_le_length)

lemma bit_immJ:
  "n < 32 \<Longrightarrow> bit (immJ w) n \<longleftrightarrow>
     (if n = 0 then False else if n < 11 then bit w (20 + n) else if n = 11 then bit w 20
      else if n < 20 then bit w n else bit w 31)"
proof -
  assume n: "n < 32"
  define imm where "imm = push_bit 20 (extractBits w 31 31) OR push_bit 12 (extractBits w 12 19) OR
    push_bit 11 (extractBits w 20 20) OR push_bit 1 (extractBits w 21 30)"
  have b: "bit imm k \<longleftrightarrow>
     (if k = 0 then False else if k < 11 then bit w (20 + k) else if k = 11 then bit w 20
      else if k < 20 then bit w k else k = 20 \<and> bit w 31)" for k
    by (auto simp: imm_def bit_or_iff bit_push_bit_iff bit_extractBits simp del: push_bit_Suc)
  have "immJ w = signed_take_bit (21 - 1) imm"
    unfolding immJ_def Let_def imm_def [symmetric]
    by (rule signExtend_eq) (auto simp: b split: if_splits)
  then show ?thesis
    using n by (auto simp: bit_signed_take_bit_iff b min_def)
qed

text \<open>Register numbers and shift amounts are in range.\<close>

lemma extractBits_less: "start \<le> stop \<Longrightarrow> stop < 32 \<Longrightarrow> unat (extractBits v start stop) < 2 ^ (stop - start + 1)"
  by (simp only: extractBits_eq unsigned_take_bit_eq take_bit_nat_less_exp)

end
