(* ===== verification/Encoding.thy ===== *)
theory Encoding
  imports Decoder "HOL-Library.Numeral_Type"
begin

text \<open>
  The reference instruction set: the RV32IM instructions the machine accepts,
  as a datatype with typed fields, and their 32-bit encodings as the RISC-V
  manual lays them out.  Nothing here is a translation of the program; it is
  the contract against which the decoder (this theory) and the executor
  (theory Refinement) are proved.  Branch and jump offsets are
  given in half-words, as the encoding drops their lowest bit.
\<close>

type_synonym regno = "5 word"

datatype rop =
    R_ADD | R_SUB | R_SLL | R_SLT | R_SLTU | R_XOR | R_SRL | R_SRA | R_OR | R_AND
  | R_MUL | R_MULH | R_MULHSU | R_MULHU | R_DIV | R_DIVU | R_REM | R_REMU

datatype iop = I_ADDI | I_SLTI | I_SLTIU | I_XORI | I_ORI | I_ANDI

datatype shop = I_SLLI | I_SRLI | I_SRAI

datatype lop = L_LB | L_LH | L_LW | L_LBU | L_LHU

datatype sop = S_SB | S_SH | S_SW

datatype bop = B_BEQ | B_BNE | B_BLT | B_BGE | B_BLTU | B_BGEU

datatype instr =
    Op rop regno regno regno
  | OpImm iop regno regno "12 word"
  | Shift shop regno regno "5 word"
  | Load lop regno regno "12 word"
  | Store sop regno regno "12 word"
  | Branch bop regno regno "12 word"
  | Lui regno "20 word"
  | Auipc regno "20 word"
  | Jal regno "20 word"
  | Jalr regno regno "12 word"
  | Ecall
  | Fence
  | FenceI

section \<open>Encodings\<close>

definition at_bit :: "nat \<Rightarrow> 'a::len word \<Rightarrow> Word" where
  "at_bit lo w = push_bit lo (ucast w)"

definition encR :: "7 word \<Rightarrow> 3 word \<Rightarrow> 7 word \<Rightarrow> regno \<Rightarrow> regno \<Rightarrow> regno \<Rightarrow> Word" where
  "encR op f3 f7 d a b =
     at_bit 0 op OR at_bit 7 d OR at_bit 12 f3 OR at_bit 15 a OR at_bit 20 b OR at_bit 25 f7"

definition encI :: "7 word \<Rightarrow> 3 word \<Rightarrow> regno \<Rightarrow> regno \<Rightarrow> 12 word \<Rightarrow> Word" where
  "encI op f3 d a imm =
     at_bit 0 op OR at_bit 7 d OR at_bit 12 f3 OR at_bit 15 a OR at_bit 20 imm"

definition encS :: "7 word \<Rightarrow> 3 word \<Rightarrow> regno \<Rightarrow> regno \<Rightarrow> 12 word \<Rightarrow> Word" where
  "encS op f3 a b imm =
     at_bit 0 op OR at_bit 7 (ucast imm :: 5 word) OR at_bit 12 f3 OR at_bit 15 a OR
     at_bit 20 b OR at_bit 25 (ucast (drop_bit 5 imm) :: 7 word)"

definition encB :: "7 word \<Rightarrow> 3 word \<Rightarrow> regno \<Rightarrow> regno \<Rightarrow> 12 word \<Rightarrow> Word" where
  "encB op f3 a b off =
     at_bit 0 op OR at_bit 7 (ucast (drop_bit 10 off) :: 1 word) OR
     at_bit 8 (ucast off :: 4 word) OR at_bit 12 f3 OR at_bit 15 a OR at_bit 20 b OR
     at_bit 25 (ucast (drop_bit 4 off) :: 6 word) OR
     at_bit 31 (ucast (drop_bit 11 off) :: 1 word)"

definition encU :: "7 word \<Rightarrow> regno \<Rightarrow> 20 word \<Rightarrow> Word" where
  "encU op d imm = at_bit 0 op OR at_bit 7 d OR at_bit 12 imm"

definition encJ :: "7 word \<Rightarrow> regno \<Rightarrow> 20 word \<Rightarrow> Word" where
  "encJ op d off =
     at_bit 0 op OR at_bit 7 d OR at_bit 12 (ucast (drop_bit 11 off) :: 8 word) OR
     at_bit 20 (ucast (drop_bit 10 off) :: 1 word) OR at_bit 21 (ucast off :: 10 word) OR
     at_bit 31 (ucast (drop_bit 19 off) :: 1 word)"

fun rop_codes :: "rop \<Rightarrow> 3 word \<times> 7 word" where
  "rop_codes R_ADD = (0, 0)"
| "rop_codes R_SUB = (0, 0x20)"
| "rop_codes R_SLL = (1, 0)"
| "rop_codes R_SLT = (2, 0)"
| "rop_codes R_SLTU = (3, 0)"
| "rop_codes R_XOR = (4, 0)"
| "rop_codes R_SRL = (5, 0)"
| "rop_codes R_SRA = (5, 0x20)"
| "rop_codes R_OR = (6, 0)"
| "rop_codes R_AND = (7, 0)"
| "rop_codes R_MUL = (0, 1)"
| "rop_codes R_MULH = (1, 1)"
| "rop_codes R_MULHSU = (2, 1)"
| "rop_codes R_MULHU = (3, 1)"
| "rop_codes R_DIV = (4, 1)"
| "rop_codes R_DIVU = (5, 1)"
| "rop_codes R_REM = (6, 1)"
| "rop_codes R_REMU = (7, 1)"

fun iop_code :: "iop \<Rightarrow> 3 word" where
  "iop_code I_ADDI = 0"
| "iop_code I_SLTI = 2"
| "iop_code I_SLTIU = 3"
| "iop_code I_XORI = 4"
| "iop_code I_ORI = 6"
| "iop_code I_ANDI = 7"

fun shop_codes :: "shop \<Rightarrow> 3 word \<times> 7 word" where
  "shop_codes I_SLLI = (1, 0)"
| "shop_codes I_SRLI = (5, 0)"
| "shop_codes I_SRAI = (5, 0x20)"

fun lop_code :: "lop \<Rightarrow> 3 word" where
  "lop_code L_LB = 0"
| "lop_code L_LH = 1"
| "lop_code L_LW = 2"
| "lop_code L_LBU = 4"
| "lop_code L_LHU = 5"

fun sop_code :: "sop \<Rightarrow> 3 word" where
  "sop_code S_SB = 0"
| "sop_code S_SH = 1"
| "sop_code S_SW = 2"

fun bop_code :: "bop \<Rightarrow> 3 word" where
  "bop_code B_BEQ = 0"
| "bop_code B_BNE = 1"
| "bop_code B_BLT = 4"
| "bop_code B_BGE = 5"
| "bop_code B_BLTU = 6"
| "bop_code B_BGEU = 7"

fun encode :: "instr \<Rightarrow> Word" where
  "encode (Op r d a b) = encR 0x33 (fst (rop_codes r)) (snd (rop_codes r)) d a b"
| "encode (OpImm i d a imm) = encI 0x13 (iop_code i) d a imm"
| "encode (Shift sh d a k) = encR 0x13 (fst (shop_codes sh)) (snd (shop_codes sh)) d a k"
| "encode (Load l d a imm) = encI 0x03 (lop_code l) d a imm"
| "encode (Store s a b imm) = encS 0x23 (sop_code s) a b imm"
| "encode (Branch c a b off) = encB 0x63 (bop_code c) a b off"
| "encode (Lui d imm) = encU 0x37 d imm"
| "encode (Auipc d imm) = encU 0x17 d imm"
| "encode (Jal d off) = encJ 0x6F d off"
| "encode (Jalr d a imm) = encI 0x67 0 d a imm"
| "encode Ecall = encI 0x73 0 0 0 0"
| "encode Fence = encI 0x0F 0 0 0 0"
| "encode FenceI = encI 0x0F 1 0 0 0"

section \<open>The encodings bit by bit\<close>

lemma bit_at_bit:
  "bit (at_bit lo (w :: 'a::len word)) n \<longleftrightarrow>
     lo \<le> n \<and> n < lo + LENGTH('a) \<and> n < 32 \<and> bit w (n - lo)"
  by (auto simp: at_bit_def bit_push_bit_iff bit_ucast_iff dest: bit_imp_le_length)

lemma bit_narrow:
  "LENGTH('b) \<le> LENGTH('a) \<Longrightarrow> bit (ucast (w :: 'a::len word) :: 'b::len word) n \<longleftrightarrow> n < LENGTH('b) \<and> bit w n"
  by (auto simp: bit_ucast_iff dest: bit_imp_le_length)

lemma bit_scast32:
  "n < 32 \<Longrightarrow> bit (scast (w :: 'a::len word) :: Word) n \<longleftrightarrow> bit w (min (LENGTH('a) - 1) n)"
  by (simp add: bit_signed_iff)

lemmas enc_defs = encR_def encI_def encS_def encB_def encU_def encJ_def

lemmas enc_bits = bit_or_iff bit_at_bit bit_narrow bit_drop_bit_eq

lemma bit_beyond: "LENGTH('a) \<le> n \<Longrightarrow> \<not> bit (w :: 'a::len word) n"
  by (auto dest: bit_imp_le_length)

lemma bit_encR:
  "n < 32 \<Longrightarrow> bit (encR op f3 f7 d a b) n \<longleftrightarrow>
     (if n < 7 then bit op n else if n < 12 then bit d (n - 7) else if n < 15 then bit f3 (n - 12)
      else if n < 20 then bit a (n - 15) else if n < 25 then bit b (n - 20) else bit f7 (n - 25))"
  by (cases "n < 7"; cases "n < 12"; cases "n < 15"; cases "n < 20"; cases "n < 25";
      simp add: encR_def enc_bits)

lemma bit_encI:
  "n < 32 \<Longrightarrow> bit (encI op f3 d a imm) n \<longleftrightarrow>
     (if n < 7 then bit op n else if n < 12 then bit d (n - 7) else if n < 15 then bit f3 (n - 12)
      else if n < 20 then bit a (n - 15) else bit imm (n - 20))"
  by (cases "n < 7"; cases "n < 12"; cases "n < 15"; cases "n < 20"; simp add: encI_def enc_bits)

lemma bit_encS:
  "n < 32 \<Longrightarrow> bit (encS op f3 a b imm) n \<longleftrightarrow>
     (if n < 7 then bit op n else if n < 12 then bit imm (n - 7) else if n < 15 then bit f3 (n - 12)
      else if n < 20 then bit a (n - 15) else if n < 25 then bit b (n - 20) else bit imm (n - 20))"
  by (cases "n < 7"; cases "n < 12"; cases "n < 15"; cases "n < 20"; cases "n < 25";
      simp add: encS_def enc_bits less_diff_conv2)

lemma bit_encB:
  assumes n: "n < 32"
  shows "bit (encB op f3 a b off) n \<longleftrightarrow>
     (if n < 7 then bit op n else if n = 7 then bit off 10 else if n < 12 then bit off (n - 8)
      else if n < 15 then bit f3 (n - 12) else if n < 20 then bit a (n - 15)
      else if n < 25 then bit b (n - 20) else if n < 31 then bit off (n - 21) else bit off 11)"
proof -
  consider "n < 7" | "n = 7" | "8 \<le> n" "n < 12" | "12 \<le> n" "n < 15" | "15 \<le> n" "n < 20"
    | "20 \<le> n" "n < 25" | "25 \<le> n" "n < 31" | "n = 31"
    using n by linarith
  then show ?thesis
    by cases (simp_all add: encB_def enc_bits less_diff_conv2)
qed

lemma bit_encU:
  "n < 32 \<Longrightarrow> bit (encU op d up) n \<longleftrightarrow>
     (if n < 7 then bit op n else if n < 12 then bit d (n - 7) else bit up (n - 12))"
  by (cases "n < 7"; cases "n < 12"; simp add: encU_def enc_bits)

lemma bit_encJ:
  "n < 32 \<Longrightarrow> bit (encJ op d off) n \<longleftrightarrow>
     (if n < 7 then bit op n else if n < 12 then bit d (n - 7) else if n < 20 then bit off (n - 1)
      else if n = 20 then bit off 10 else if n < 31 then bit off (n - 21) else bit off 19)"
  by (cases "n < 7"; cases "n < 12"; cases "n < 20"; cases "n = 20"; cases "n < 31";
      simp add: encJ_def enc_bits less_diff_conv2)

lemmas bit_enc = bit_encR bit_encI bit_encS bit_encB bit_encU bit_encJ

lemma bit_cast:
  "bit (ucast (w :: 'a::len word) :: 'b::len word) n \<longleftrightarrow> n < LENGTH('a) \<and> n < LENGTH('b) \<and> bit w n"
  by (auto simp: bit_ucast_iff dest: bit_imp_le_length)

lemmas field_bits = bit_cast bit_extractBits bit_enc

section \<open>The decoder inverts the encodings\<close>

lemma field_opcode [simp]:
  "opcode (encR op f3 f7 d a b) = ucast op"
  "opcode (encI op f3 d a imm) = ucast op"
  "opcode (encS op f3 a b imm) = ucast op"
  "opcode (encB op f3 a b imm) = ucast op"
  "opcode (encU op d up) = ucast op"
  "opcode (encJ op d up) = ucast op"
  by (rule bit_word_eqI; auto simp: opcode_def field_bits)+

lemma field_rd [simp]:
  "rd (encR op f3 f7 d a b) = ucast d"
  "rd (encI op f3 d a imm) = ucast d"
  "rd (encU op d up) = ucast d"
  "rd (encJ op d up) = ucast d"
  by (rule bit_word_eqI; auto simp: rd_def field_bits)+

lemma field_func3 [simp]:
  "func3 (encR op f3 f7 d a b) = ucast f3"
  "func3 (encI op f3 d a imm) = ucast f3"
  "func3 (encS op f3 a b imm) = ucast f3"
  "func3 (encB op f3 a b imm) = ucast f3"
  by (rule bit_word_eqI; auto simp: func3_def field_bits)+

lemma field_rs1 [simp]:
  "rs1 (encR op f3 f7 d a b) = ucast a"
  "rs1 (encI op f3 d a imm) = ucast a"
  "rs1 (encS op f3 a b imm) = ucast a"
  "rs1 (encB op f3 a b imm) = ucast a"
  by (rule bit_word_eqI; auto simp: rs1_def field_bits)+

lemma field_rs2 [simp]:
  "rs2 (encR op f3 f7 d a b) = ucast b"
  "rs2 (encS op f3 a b imm) = ucast b"
  "rs2 (encB op f3 a b imm) = ucast b"
  by (rule bit_word_eqI; auto simp: rs2_def field_bits)+

lemma field_func7 [simp]: "func7 (encR op f3 f7 d a b) = ucast f7"
  by (rule bit_word_eqI; auto simp: func7_def field_bits)

lemma field_shamtI [simp]: "shamtI (encR op f3 f7 d a b) = ucast b"
  by (rule bit_word_eqI; auto simp: shamtI_def field_bits)

lemma field_immI [simp]: "immI (encI op f3 d a imm) = scast imm"
  by (rule bit_word_eqI; auto simp: bit_immI bit_scast32 bit_enc min_def)

lemma field_immS [simp]: "immS (encS op f3 a b imm) = scast imm"
  by (rule bit_word_eqI; auto simp: bit_immS bit_scast32 bit_enc min_def)

lemma field_immB [simp]: "immB (encB op f3 a b off) = push_bit 1 (scast off)"
proof (rule bit_word_eqI)
  fix n assume n: "n < LENGTH(32)"
  show "bit (immB (encB op f3 a b off)) n \<longleftrightarrow> bit (push_bit 1 (scast off :: Word)) n"
    using n by (cases n) (auto simp: bit_immB bit_scast32 bit_push_bit_iff bit_enc min_def
      simp del: push_bit_Suc)
qed

lemma field_immU [simp]: "immU (encU op d up) = push_bit 12 (ucast up)"
  by (rule bit_word_eqI; auto simp: bit_immU bit_push_bit_iff bit_cast bit_enc)

lemma field_immJ [simp]: "immJ (encJ op d off) = push_bit 1 (scast off)"
proof (rule bit_word_eqI)
  fix n assume n: "n < LENGTH(32)"
  show "bit (immJ (encJ op d off)) n \<longleftrightarrow> bit (push_bit 1 (scast off :: Word)) n"
    using n by (cases n) (auto simp: bit_immJ bit_scast32 bit_push_bit_iff bit_enc min_def
      simp del: push_bit_Suc)
qed

section \<open>No two instructions have the same encoding\<close>

lemma cast_inject:
  fixes x y :: "'a::len word"
  assumes "LENGTH('a) \<le> LENGTH('b::len)" shows "(ucast x :: 'b word) = ucast y \<longleftrightarrow> x = y"
proof -
  have "x = y" if e: "(ucast x :: 'b word) = ucast y"
  proof (rule bit_word_eqI)
    fix n assume "n < LENGTH('a)"
    then show "bit x n \<longleftrightarrow> bit y n"
      using e assms bit_ucast_iff [of x n, where 'a = 'b] bit_ucast_iff [of y n, where 'a = 'b] by (simp add: bit_ucast_iff)
  qed
  then show ?thesis
    by blast
qed

lemma signed_inject:
  fixes off off' :: "'a::len word"
  assumes "LENGTH('a) < 32"
  shows "(scast off :: Word) = scast off' \<longleftrightarrow> off = off'"
    "push_bit 1 (scast off :: Word) = push_bit 1 (scast off') \<longleftrightarrow> off = off'"
proof -
  have "off = off'" if e: "(scast off :: Word) = scast off'"
  proof (rule bit_word_eqI)
    fix n assume n: "n < LENGTH('a)"
    have "bit (scast off :: Word) n \<longleftrightarrow> bit (scast off' :: Word) n"
      using e by simp
    then show "bit off n \<longleftrightarrow> bit off' n"
      using n assms min_absorb1 [of n "LENGTH('a) - 1"] by (simp add: bit_scast32)
  qed
  then show "(scast off :: Word) = scast off' \<longleftrightarrow> off = off'"
    by blast
  have "off = off'" if e: "push_bit 1 (scast off :: Word) = push_bit 1 (scast off')"
  proof (rule bit_word_eqI)
    fix n assume n: "n < LENGTH('a)"
    have "bit (push_bit 1 (scast off :: Word)) (Suc n) \<longleftrightarrow> bit (push_bit 1 (scast off' :: Word)) (Suc n)"
      using e by simp
    then show "bit off n \<longleftrightarrow> bit off' n"
      using n assms min_absorb1 [of n "LENGTH('a) - 1"] by (simp add: bit_push_bit_iff bit_scast32 del: push_bit_Suc)
  qed
  then show "push_bit 1 (scast off :: Word) = push_bit 1 (scast off') \<longleftrightarrow> off = off'"
    by blast
qed

lemma upper_inject: "push_bit 12 (ucast up :: Word) = push_bit 12 (ucast up') \<longleftrightarrow> up = up'" for up up' :: "20 word"
proof -
  have "up = up'" if e: "push_bit 12 (ucast up :: Word) = push_bit 12 (ucast up')"
  proof (rule bit_word_eqI)
    fix n assume n: "n < LENGTH(20)"
    have "bit (push_bit 12 (ucast up :: Word)) (n + 12) \<longleftrightarrow> bit (push_bit 12 (ucast up' :: Word)) (n + 12)"
      using e by simp
    then show "bit up n \<longleftrightarrow> bit up' n"
      using n by (simp add: bit_push_bit_iff bit_ucast_iff)
  qed
  then show ?thesis
    by blast
qed

text \<open>The formats determine their fields.\<close>

lemma format_inject:
  "encR op f3 f7 d a b = encR op f3' f7' d' a' b' \<longleftrightarrow> f3 = f3' \<and> f7 = f7' \<and> d = d' \<and> a = a' \<and> b = b'"
  "encI op f3 d a imm = encI op f3' d' a' imm' \<longleftrightarrow> f3 = f3' \<and> d = d' \<and> a = a' \<and> imm = imm'"
  "encS op f3 a b imm = encS op f3' a' b' imm' \<longleftrightarrow> f3 = f3' \<and> a = a' \<and> b = b' \<and> imm = imm'"
  "encB op f3 a b off = encB op f3' a' b' off' \<longleftrightarrow> f3 = f3' \<and> a = a' \<and> b = b' \<and> off = off'"
  "encU op d up = encU op d' up' \<longleftrightarrow> d = d' \<and> up = up'"
  "encJ op d jmp = encJ op d' jmp' \<longleftrightarrow> d = d' \<and> jmp = jmp'"
proof -
  note inj = cast_inject [where 'a = 3 and 'b = 8] cast_inject [where 'a = 7 and 'b = 8] cast_inject [where 'a = 5 and 'b = 32]
    signed_inject [where 'a = 12] signed_inject(2) [where 'a = 12, simplified] signed_inject(2) [where 'a = 20, simplified]
    upper_inject upper_inject [simplified]
  have fields: "func3 v = func3 w" "func7 v = func7 w" "rd v = rd w" "rs1 v = rs1 w" "rs2 v = rs2 w"
    "immI v = immI w" "immS v = immS w" "immB v = immB w" "immU v = immU w" "immJ v = immJ w" if "v = w" for v w
    using that by simp_all
  show "encR op f3 f7 d a b = encR op f3' f7' d' a' b' \<longleftrightarrow> f3 = f3' \<and> f7 = f7' \<and> d = d' \<and> a = a' \<and> b = b'"
  proof
    assume e: "encR op f3 f7 d a b = encR op f3' f7' d' a' b'"
    show "f3 = f3' \<and> f7 = f7' \<and> d = d' \<and> a = a' \<and> b = b'"
      using fields [OF e] by (simp add: inj)
  qed simp
  show "encI op f3 d a imm = encI op f3' d' a' imm' \<longleftrightarrow> f3 = f3' \<and> d = d' \<and> a = a' \<and> imm = imm'"
  proof
    assume e: "encI op f3 d a imm = encI op f3' d' a' imm'"
    show "f3 = f3' \<and> d = d' \<and> a = a' \<and> imm = imm'"
      using fields [OF e] by (simp add: inj)
  qed simp
  show "encS op f3 a b imm = encS op f3' a' b' imm' \<longleftrightarrow> f3 = f3' \<and> a = a' \<and> b = b' \<and> imm = imm'"
  proof
    assume e: "encS op f3 a b imm = encS op f3' a' b' imm'"
    show "f3 = f3' \<and> a = a' \<and> b = b' \<and> imm = imm'"
      using fields [OF e] by (simp add: inj)
  qed simp
  show "encB op f3 a b off = encB op f3' a' b' off' \<longleftrightarrow> f3 = f3' \<and> a = a' \<and> b = b' \<and> off = off'"
  proof
    assume e: "encB op f3 a b off = encB op f3' a' b' off'"
    show "f3 = f3' \<and> a = a' \<and> b = b' \<and> off = off'"
      using fields [OF e] by (simp add: inj)
  qed simp
  show "encU op d up = encU op d' up' \<longleftrightarrow> d = d' \<and> up = up'"
  proof
    assume e: "encU op d up = encU op d' up'"
    show "d = d' \<and> up = up'"
      using fields [OF e] by (simp add: inj)
  qed simp
  show "encJ op d jmp = encJ op d' jmp' \<longleftrightarrow> d = d' \<and> jmp = jmp'"
  proof
    assume e: "encJ op d jmp = encJ op d' jmp'"
    show "d = d' \<and> jmp = jmp'"
      using fields [OF e] by (simp add: inj)
  qed simp
qed

text \<open>The operation codes of one format are different.\<close>

lemma code_inject:
  "rop_codes r = rop_codes r' \<longleftrightarrow> r = r'" "shop_codes h = shop_codes h' \<longleftrightarrow> h = h'"
  "iop_code i = iop_code i' \<longleftrightarrow> i = i'" "lop_code l = lop_code l' \<longleftrightarrow> l = l'" "sop_code s = sop_code s' \<longleftrightarrow> s = s'"
  "bop_code q = bop_code q' \<longleftrightarrow> q = q'" "iop_code i \<noteq> fst (shop_codes h)"
proof -
  show "rop_codes r = rop_codes r' \<longleftrightarrow> r = r'"
    by (cases r; cases r'; simp)
  show "shop_codes h = shop_codes h' \<longleftrightarrow> h = h'"
    by (cases h; cases h'; simp)
  show "iop_code i = iop_code i' \<longleftrightarrow> i = i'"
    by (cases i; cases i'; simp)
  show "lop_code l = lop_code l' \<longleftrightarrow> l = l'"
    by (cases l; cases l'; simp)
  show "sop_code s = sop_code s' \<longleftrightarrow> s = s'"
    by (cases s; cases s'; simp)
  show "bop_code q = bop_code q' \<longleftrightarrow> q = q'"
    by (cases q; cases q'; simp)
  show "iop_code i \<noteq> fst (shop_codes h)"
    by (cases i; cases h; simp)
qed

theorem encode_inject: "encode i = encode j \<longleftrightarrow> i = j"
proof -
  have "i = j" if e: "encode i = encode j"
  proof -
    note f = arg_cong [OF e, of opcode] arg_cong [OF e, of func3]
    have c: "(ucast x :: 8 word) = ucast y \<longleftrightarrow> x = y" for x y :: "3 word"
      by (rule cast_inject) simp
    show ?thesis
      using f e by (cases i; cases j; simp add: format_inject code_inject c; metis code_inject(1,2,7) prod.collapse)
  qed
  then show ?thesis
    by blast
qed

end
