(* ===== verification/RegFile.thy ===== *)
theory RegFile
  imports Prelude
begin

text \<open>
  The register file, \<^verbatim>\<open>rv32vm/RegFile.hpp/.cpp\<close>: an array of 32
  words whose access asserts the index, with register 0 wired to zero.  The locale
  states what its users (the executor, the thread contexts, the
  system-call layer) rely on; the interpretation discharges it for the code.
\<close>

type_synonym RegFile = "Word list"

definition RegFile_reset :: "(RegFile, unit) prog" where
  "RegFile_reset = modify (\<lambda>_. replicate 32 0)"

definition RegFile_read :: "nat \<Rightarrow> (RegFile, Word) prog" where
  "RegFile_read index =
     andthen (require (index < 32) AssertFailed) (vec_get index)"

definition RegFile_write :: "nat \<Rightarrow> Word \<Rightarrow> (RegFile, unit) prog" where
  "RegFile_write index value =
     andthen (require (index < 32) AssertFailed)
       (if index = 0 then ret () else vec_set index value)"

text \<open>A constructed register file: \<^verbatim>\<open>RegFile::RegFile\<close> resets the array.\<close>

definition RegFile_new :: RegFile where
  "RegFile_new = replicate 32 0"

definition rf_ok :: "RegFile \<Rightarrow> bool" where
  "rf_ok r \<longleftrightarrow> length r = 32 \<and> r ! 0 = 0"

section \<open>The register interface\<close>

locale registers =
  fixes rread :: "nat \<Rightarrow> ('r, Word) prog"
    and rwrite :: "nat \<Rightarrow> Word \<Rightarrow> ('r, unit) prog"
    and rval :: "'r \<Rightarrow> nat \<Rightarrow> Word"
    and rset :: "'r \<Rightarrow> nat \<Rightarrow> Word \<Rightarrow> 'r"
    and rok :: "'r \<Rightarrow> bool"
  assumes read_ok: "rok r \<Longrightarrow> i < 32 \<Longrightarrow> rread i r = Inr (rval r i, r)"
    and write_ok: "rok r \<Longrightarrow> i < 32 \<Longrightarrow> rwrite i v r = Inr ((), rset r i v)"
    and set_ok: "rok r \<Longrightarrow> i < 32 \<Longrightarrow> rok (rset r i v)"
    and val_set: "rok r \<Longrightarrow> i < 32 \<Longrightarrow> j < 32 \<Longrightarrow>
      rval (rset r i v) j = (if j = i \<and> i \<noteq> 0 then v else rval r j)"
    and val_zero: "rok r \<Longrightarrow> rval r 0 = 0"
begin

lemma write_read:
  "rok r \<Longrightarrow> i < 32 \<Longrightarrow> i \<noteq> 0 \<Longrightarrow> bind (rwrite i v) (\<lambda>_. rread i) r = Inr (v, rset r i v)"
  by (simp add: write_ok read_ok set_ok val_set)

lemma write_other:
  "rok r \<Longrightarrow> i < 32 \<Longrightarrow> j < 32 \<Longrightarrow> j \<noteq> i \<Longrightarrow>
     bind (rwrite i v) (\<lambda>_. rread j) r = Inr (rval r j, rset r i v)"
  by (simp add: write_ok read_ok set_ok val_set)

lemma zero_reads_zero:
  "rok r \<Longrightarrow> bind (rwrite 0 v) (\<lambda>_. rread 0) r = Inr (0, rset r 0 v)"
  by (simp add: write_ok read_ok set_ok val_zero)

text \<open>Reading the two sources of an instruction and writing its target.\<close>

lemma two_sources:
  "rok r \<Longrightarrow> a < 32 \<Longrightarrow> b < 32 \<Longrightarrow> d < 32 \<Longrightarrow>
     bind (rread a) (\<lambda>x. bind (rread b) (\<lambda>y. rwrite d (f x y))) r
       = Inr ((), rset r d (f (rval r a) (rval r b)))"
  by (simp add: read_ok write_ok)

end

definition rf_set :: "RegFile \<Rightarrow> nat \<Rightarrow> Word \<Rightarrow> RegFile" where
  "rf_set r i v = (if i = 0 then r else r[i := v])"

interpretation rf: registers RegFile_read RegFile_write "\<lambda>r i. r ! i" rf_set rf_ok
  by unfold_locales
    (auto simp: RegFile_read_def RegFile_write_def rf_set_def rf_ok_def nth_list_update run)

lemma rf_ok_new: "rf_ok RegFile_new"
  by (simp add: rf_ok_def RegFile_new_def)

lemma rf_ok_reset: "RegFile_reset r = Inr ((), RegFile_new)"
  by (simp add: RegFile_reset_def RegFile_new_def run)

lemma rf_ok_length: "rf_ok r \<Longrightarrow> length r = 32"
  by (simp add: rf_ok_def)

lemma rf_set_zero [simp]: "rf_set r 0 v = r"
  by (simp add: rf_set_def)

lemma length_rf_set [simp]: "length (rf_set r i v) = length r"
  by (simp add: rf_set_def)

end
