(* ===== verification/Memory.thy ===== *)
theory Memory
  imports Prelude
begin

text \<open>
  Physical memory, \<^verbatim>\<open>rv32vm/Memory.hpp/.cpp\<close>: a byte vector of
  \<^verbatim>\<open>MEMORY_SIZE\<close> bytes read and written little-endian, one to four
  bytes at a time.  The assertion covers the first byte only; an access that
  starts in range and runs past the end is undefined behaviour of the vector.
  \<^verbatim>\<open>loadBinary\<close> (host file input) is not modelled.
\<close>

type_synonym Memory = "Byte list"

definition Memory_new :: Memory where
  "Memory_new = replicate (unat MEMORY_SIZE) 0"

definition Memory_load :: "Addr \<Rightarrow> nat \<Rightarrow> (Memory, Word) prog" where
  "Memory_load addr sz =
     andthen (require (\<not> (addr < MEMORY_BASE \<or> addr \<ge> MEMORY_BASE + MEMORY_SIZE)) AssertFailed)
       (let index = addr - MEMORY_BASE in
        foldM (\<lambda>value i. bind (vec_get (unat index + i)) (\<lambda>b.
                 let word = push_bit (i * 8) (ucast b) in ret (value OR word)))
          0 [0..<sz])"

definition Memory_store :: "Addr \<Rightarrow> nat \<Rightarrow> Word \<Rightarrow> (Memory, unit) prog" where
  "Memory_store addr sz value =
     andthen (require (\<not> (addr < MEMORY_BASE \<or> addr \<ge> MEMORY_BASE + MEMORY_SIZE)) AssertFailed)
       (let index = addr - MEMORY_BASE in
        for_each [0..<sz] (\<lambda>i.
          let word = drop_bit (i * 8) value AND 0xFF in vec_set (unat index + i) (ucast word)))"

definition mem_ok :: "Memory \<Rightarrow> bool" where
  "mem_ok m \<longleftrightarrow> length m = unat MEMORY_SIZE"

section \<open>Little-endian words\<close>

text \<open>The reference meaning of an access: the word a byte string denotes, and back.\<close>

primrec bytes_word :: "Byte list \<Rightarrow> Word" where
  "bytes_word [] = 0"
| "bytes_word (b # bs) = ucast b OR push_bit 8 (bytes_word bs)"

definition word_bytes :: "nat \<Rightarrow> Word \<Rightarrow> Byte list" where
  "word_bytes n w = map (\<lambda>i. ucast (drop_bit (i * 8) w)) [0..<n]"

definition mem_splice :: "Memory \<Rightarrow> nat \<Rightarrow> Byte list \<Rightarrow> Memory" where
  "mem_splice m a bs = take a m @ bs @ drop (a + length bs) m"

lemma bit_bytes_word:
  "bit (bytes_word bs) n \<longleftrightarrow> n < 32 \<and> n div 8 < length bs \<and> bit (bs ! (n div 8)) (n mod 8)"
proof (induction bs arbitrary: n)
  case Nil
  show ?case by simp
next
  case (Cons b bs)
  show ?case
  proof (cases "n < 8")
    case True
    then show ?thesis by (simp add: bit_or_iff bit_ucast_iff bit_push_bit_iff)
  next
    case False
    then obtain k where n: "n = 8 + k"
      by (metis le_add_diff_inverse not_less)
    have "\<not> bit b n"
      using False by (auto dest: bit_imp_le_length)
    moreover have "(8 + k) div 8 = Suc (k div 8)"
      by simp
    ultimately show ?thesis
      by (auto simp: n bit_or_iff bit_ucast_iff bit_push_bit_iff Cons.IH)
  qed
qed

lemma length_word_bytes [simp]: "length (word_bytes n w) = n"
  by (simp add: word_bytes_def)

lemma nth_word_bytes [simp]: "i < n \<Longrightarrow> word_bytes n w ! i = ucast (drop_bit (i * 8) w)"
  by (simp add: word_bytes_def)

lemma bytes_word_bytes: "bytes_word (word_bytes n w) = take_bit (8 * n) w"
proof (rule bit_word_eqI)
  fix k assume "k < LENGTH(32)"
  moreover have "k div 8 < n \<longleftrightarrow> k < 8 * n" by auto
  ultimately show "bit (bytes_word (word_bytes n w)) k \<longleftrightarrow> bit (take_bit (8 * n) w) k"
    by (auto simp: bit_bytes_word bit_take_bit_iff bit_ucast_iff bit_drop_bit_eq)
qed

lemma length_mem_splice [simp]:
  "a + length bs \<le> length m \<Longrightarrow> length (mem_splice m a bs) = length m"
  by (simp add: mem_splice_def)

lemma nth_mem_splice:
  "a + length bs \<le> length m \<Longrightarrow> j < length m \<Longrightarrow>
     mem_splice m a bs ! j = (if a \<le> j \<and> j < a + length bs then bs ! (j - a) else m ! j)"
  by (auto simp: mem_splice_def nth_append min_def)

lemma mem_splice_ok: "mem_ok m \<Longrightarrow> a + length bs \<le> unat MEMORY_SIZE \<Longrightarrow> mem_ok (mem_splice m a bs)"
  by (simp add: mem_ok_def)

section \<open>Loads and stores in range\<close>

lemma in_range_iff: "(addr < MEMORY_BASE \<or> addr \<ge> MEMORY_BASE + MEMORY_SIZE) \<longleftrightarrow> \<not> unat addr < unat MEMORY_SIZE"
  by (simp add: MEMORY_BASE_def word_less_nat_alt not_less word_le_nat_alt)

lemma load_loop:
  "a + n \<le> length m \<Longrightarrow>
     foldM (\<lambda>value i. bind (vec_get (a + i)) (\<lambda>b. let word = push_bit (i * 8) (ucast b) in ret (value OR word)))
       0 [0..<n] m = Inr (bytes_word (take n (drop a m)), m)"
proof (induction n)
  case 0
  show ?case by (simp add: run)
next
  case (Suc n)
  have "take (Suc n) (drop a m) = take n (drop a m) @ [m ! (a + n)]"
    using Suc.prems by (simp add: take_Suc_conv_app_nth)
  moreover have "bytes_word (bs @ [b]) = bytes_word bs OR push_bit (length bs * 8) (ucast b)" for bs b
  proof (induction bs)
    case (Cons c cs)
    then show ?case
      by (simp add: push_bit_or add.commute or.assoc)
  qed simp
  ultimately show ?case
    using Suc by (simp add: foldM_append run)
qed

lemma low_byte: "(ucast (w AND 0xFF :: Word) :: Byte) = ucast w"
proof -
  have "w AND 0xFF = take_bit 8 w"
    by (simp add: take_bit_eq_mask mask_eq_decr_exp)
  then show ?thesis
    by (simp add: unsigned_take_bit_eq) (rule bit_word_eqI; simp add: bit_ucast_iff bit_take_bit_iff)
qed

lemma mem_splice_snoc:
  "a + Suc n \<le> length m \<Longrightarrow>
     mem_splice m a (word_bytes (Suc n) v)
       = (mem_splice m a (word_bytes n v))[a + n := ucast (drop_bit (n * 8) v)]"
  by (rule nth_equalityI) (auto simp: nth_mem_splice nth_list_update less_Suc_eq less_diff_conv2)

lemma store_loop:
  "a + n \<le> length m \<Longrightarrow>
     for_each [0..<n] (\<lambda>i. let word = drop_bit (i * 8) v AND 0xFF in vec_set (a + i) (ucast word)) m
       = Inr ((), mem_splice m a (word_bytes n v))"
proof (induction n)
  case 0
  show ?case by (simp add: run mem_splice_def word_bytes_def)
next
  case (Suc n)
  then show ?case
    by (simp add: for_each_append run low_byte mem_splice_snoc Let_def)
qed

lemma Memory_load_eq:
  "mem_ok m \<Longrightarrow> unat addr + n \<le> unat MEMORY_SIZE \<Longrightarrow> 0 < n \<Longrightarrow>
     Memory_load addr n m = Inr (bytes_word (take n (drop (unat addr) m)), m)"
  unfolding Memory_load_def in_range_iff
  using load_loop [of "unat addr" n m] by (simp add: mem_ok_def MEMORY_BASE_def)

lemma Memory_store_eq:
  "mem_ok m \<Longrightarrow> unat addr + n \<le> unat MEMORY_SIZE \<Longrightarrow> 0 < n \<Longrightarrow>
     Memory_store addr n v m = Inr ((), mem_splice m (unat addr) (word_bytes n v))"
  unfolding Memory_store_def in_range_iff
  using store_loop [of "unat addr" n m v] by (simp add: mem_ok_def MEMORY_BASE_def)

lemma Memory_out_of_range:
  "\<not> unat addr < unat MEMORY_SIZE \<Longrightarrow> Memory_load addr n m = Inl AssertFailed"
  "\<not> unat addr < unat MEMORY_SIZE \<Longrightarrow> Memory_store addr n v m = Inl AssertFailed"
  by (simp_all only: Memory_load_def Memory_store_def in_range_iff) simp_all

section \<open>Byte-wise copying\<close>

text \<open>
  The kernel moves pages one byte at a time.  The two loops below are the shape of
  its copies (a page written from a buffer, a buffer filled from a page); the locale
  states the byte-level contract they need and proves what they do.
\<close>

definition copy_in :: "(Addr \<Rightarrow> Word \<Rightarrow> ('m, unit) prog) \<Rightarrow> Addr \<Rightarrow> Word list \<Rightarrow> ('m, unit) prog" where
  "copy_in store1 base ws = for_each [0..<length ws] (\<lambda>i. store1 (base + of_nat i) (ws ! i))"

definition copy_out :: "(Addr \<Rightarrow> ('m, Word) prog) \<Rightarrow> Addr \<Rightarrow> nat \<Rightarrow> ('m, Byte list) prog" where
  "copy_out load1 base n =
     foldM (\<lambda>buf i. bind (load1 (base + of_nat i)) (\<lambda>w. ret (buf[i := ucast w])))
       (replicate n 0) [0..<n]"

locale byte_memory =
  fixes load1 :: "Addr \<Rightarrow> ('m, Word) prog"
    and store1 :: "Addr \<Rightarrow> Word \<Rightarrow> ('m, unit) prog"
    and byte :: "'m \<Rightarrow> nat \<Rightarrow> Byte"
    and put :: "'m \<Rightarrow> nat \<Rightarrow> Byte \<Rightarrow> 'm"
    and bsize :: nat
    and bok :: "'m \<Rightarrow> bool"
  assumes load1: "bok m \<Longrightarrow> unat a < bsize \<Longrightarrow> load1 a m = Inr (ucast (byte m (unat a)), m)"
    and store1: "bok m \<Longrightarrow> unat a < bsize \<Longrightarrow> store1 a v m = Inr ((), put m (unat a) (ucast v))"
    and put_ok: "bok m \<Longrightarrow> i < bsize \<Longrightarrow> bok (put m i b)"
    and byte_put: "bok m \<Longrightarrow> i < bsize \<Longrightarrow> byte (put m i b) = (byte m)(i := b)"
    and small: "bsize \<le> 2 ^ 32"
begin

lemma offset:
  "unat base + n \<le> bsize \<Longrightarrow> i < n \<Longrightarrow> unat (base + of_nat i :: Addr) = unat base + i"
  using small by (simp add: unat_word_ariths unat_of_nat)

lemma copy_in_upto:
  "bok m \<Longrightarrow> unat base + n \<le> bsize \<Longrightarrow>
     \<exists>m'. for_each [0..<n] (\<lambda>i. store1 (base + of_nat i) (f i)) m = Inr ((), m') \<and> bok m' \<and>
       byte m' = (\<lambda>j. if unat base \<le> j \<and> j < unat base + n then ucast (f (j - unat base)) else byte m j)"
proof (induction n)
  case 0
  then show ?case by (auto simp: run fun_eq_iff)
next
  case (Suc n)
  then obtain m' where m': "for_each [0..<n] (\<lambda>i. store1 (base + of_nat i) (f i)) m = Inr ((), m')" "bok m'"
    "byte m' = (\<lambda>j. if unat base \<le> j \<and> j < unat base + n then ucast (f (j - unat base)) else byte m j)"
    by auto
  have u: "unat (base + of_nat n) = unat base + n"
    using Suc.prems by (intro offset [of _ "Suc n"]) auto
  let ?m = "put m' (unat base + n) (ucast (f n))"
  have "store1 (base + of_nat n) (f n) m' = Inr ((), ?m)"
    using store1 [OF m'(2), of "base + of_nat n"] Suc.prems u by simp
  then have "for_each [0..<Suc n] (\<lambda>i. store1 (base + of_nat i) (f i)) m = Inr ((), ?m)"
    by (simp add: for_each_append run m'(1))
  moreover have "bok ?m"
    using m'(2) Suc.prems by (intro put_ok) auto
  moreover have "byte ?m = (\<lambda>j. if unat base \<le> j \<and> j < unat base + Suc n then ucast (f (j - unat base)) else byte m j)"
    using byte_put [OF m'(2), of "unat base + n"] Suc.prems by (auto simp: m'(3) fun_eq_iff)
  ultimately show ?case by blast
qed

lemma copy_in:
  "bok m \<Longrightarrow> unat base + length ws \<le> bsize \<Longrightarrow>
     \<exists>m'. copy_in store1 base ws m = Inr ((), m') \<and> bok m' \<and>
       byte m' = (\<lambda>j. if unat base \<le> j \<and> j < unat base + length ws then ucast (ws ! (j - unat base))
                      else byte m j)"
  unfolding copy_in_def by (rule copy_in_upto)

lemma copy_out_upto:
  "bok m \<Longrightarrow> unat base + n \<le> bsize \<Longrightarrow> k \<le> n \<Longrightarrow>
     foldM (\<lambda>buf i. bind (load1 (base + of_nat i)) (\<lambda>w. ret (buf[i := ucast w])))
       (replicate n 0) [0..<k] m
     = Inr (map (\<lambda>i. if i < k then byte m (unat base + i) else 0) [0..<n], m)"
proof (induction k)
  case 0
  have "map (\<lambda>i. 0 :: Byte) [0..<n] = replicate n 0"
    by (simp add: map_replicate_const)
  then show ?case by (simp add: run)
next
  case (Suc k)
  have u: "unat (base + of_nat k) = unat base + k"
    using Suc.prems by (intro offset [of _ n]) auto
  have "load1 (base + of_nat k) m = Inr (ucast (byte m (unat base + k)), m)"
    using load1 [of m "base + of_nat k"] Suc.prems u by simp
  moreover have "(ucast (ucast b :: Word) :: Byte) = b" for b :: Byte
    by (rule bit_word_eqI) (simp add: bit_ucast_iff)
  moreover have "(map (\<lambda>i. if i < k then byte m (unat base + i) else 0) [0..<n])[k := byte m (unat base + k)]
      = map (\<lambda>i. if i < Suc k then byte m (unat base + i) else 0) [0..<n]"
    by (rule nth_equalityI) (auto simp: nth_list_update less_Suc_eq)
  ultimately show ?case
    using Suc by (simp add: foldM_append run)
qed

lemma copy_out:
  "bok m \<Longrightarrow> unat base + n \<le> bsize \<Longrightarrow>
     copy_out load1 base n m = Inr (map (\<lambda>i. byte m (unat base + i)) [0..<n], m)"
  using copy_out_upto [of m base n n] by (simp add: copy_out_def cong: map_cong)

end

definition mem_byte :: "Memory \<Rightarrow> nat \<Rightarrow> Byte" where
  "mem_byte m i = (if i < length m then m ! i else 0)"

lemma bytes_word_one: "bytes_word [b] = ucast b"
  by simp

lemma word_bytes_one: "word_bytes (Suc 0) w = [ucast w]"
  by (simp add: word_bytes_def)

lemma mem_splice_one: "i < length m \<Longrightarrow> mem_splice m i [b] = m[i := b]"
  by (simp add: mem_splice_def upd_conv_take_nth_drop)

interpretation ram: byte_memory
  "\<lambda>a. Memory_load a 1" "\<lambda>a. Memory_store a 1" mem_byte "\<lambda>m i b. m[i := b]" "unat MEMORY_SIZE" mem_ok
proof unfold_locales
  fix m a v i b
  show "Memory_load a 1 m = Inr (ucast (mem_byte m (unat a)), m)"
    if "mem_ok m" "unat a < unat MEMORY_SIZE" for m :: Memory and a
    using that by (simp add: Memory_load_eq mem_byte_def mem_ok_def take_Suc_conv_app_nth)
  show "Memory_store a 1 v m = Inr ((), m[unat a := ucast v])"
    if "mem_ok m" "unat a < unat MEMORY_SIZE" for m :: Memory and a v
    using that by (simp add: Memory_store_eq word_bytes_one mem_splice_one mem_ok_def)
  show "mem_ok (m[i := b])" if "mem_ok m" for m :: Memory and i b
    using that by (simp add: mem_ok_def)
  show "mem_byte (m[i := b]) = (mem_byte m)(i := b)"
    if "mem_ok m" "i < unat MEMORY_SIZE" for m :: Memory and i b
    using that by (auto simp: mem_byte_def mem_ok_def fun_eq_iff)
  show "unat MEMORY_SIZE \<le> 2 ^ 32"
    by (simp add: unat_MEMORY_SIZE)
qed

end
