(* ===== verification/MMU.thy ===== *)
theory MMU
  imports Memory
begin

text \<open>
  Address translation: \<^verbatim>\<open>memory/PTE.hpp\<close> and
  \<^verbatim>\<open>rv32vm/MMU.hpp/.cpp\<close>.  The MMU holds two pointers, to the one
  \<^verbatim>\<open>Memory\<close> device and to the page table of the running process, which the
  kernel also reads and writes.  The record owns the pointed-to objects instead: the
  memory, and every page table by its address (the kernel model uses the process id),
  so a change made through one path is seen by the other.  Log output is not modelled.
\<close>

section \<open>Page table entries (memory/PTE.hpp)\<close>

record PTE =
  ppn :: Addr
  valid :: bool
  referenced :: bool
  dirty :: bool
  swapped :: bool
  canRead :: bool
  canWrite :: bool
  canExecute :: bool

definition PTE_new :: PTE where
  "PTE_new = \<lparr>ppn = 0, valid = False, referenced = False, dirty = False, swapped = False,
     canRead = False, canWrite = False, canExecute = False\<rparr>"

text \<open>The segment flags of the ELF format (\<^verbatim>\<open>PF_X, PF_W, PF_R\<close> of \<^verbatim>\<open>elf.h\<close>).\<close>

abbreviation PF_X :: Word where "PF_X \<equiv> 1"
abbreviation PF_W :: Word where "PF_W \<equiv> 2"
abbreviation PF_R :: Word where "PF_R \<equiv> 4"

definition setPTEFlagsFromElf :: "PTE \<Rightarrow> Word \<Rightarrow> PTE" where
  "setPTEFlagsFromElf pte flags =
     pte\<lparr>canRead := flags AND PF_R \<noteq> 0, canWrite := flags AND PF_W \<noteq> 0,
         canExecute := flags AND PF_X \<noteq> 0\<rparr>"

type_synonym PageTable = "Addr \<rightharpoonup> PTE"

section \<open>The MMU (rv32vm/MMU.cpp)\<close>

record MMU =
  memory :: Memory
  tables :: "nat \<Rightarrow> PageTable"
  currentTable :: "nat option"
  vmEnabled :: bool
  mmu_fault :: bool
  faultAddr :: Addr

definition MMU_reset :: "(MMU, unit) prog" where
  "MMU_reset = modify (\<lambda>u. u\<lparr>vmEnabled := False, currentTable := None\<rparr>)"

definition MMU_setPageTable :: "nat \<Rightarrow> (MMU, unit) prog" where
  "MMU_setPageTable table = modify (\<lambda>u. u\<lparr>currentTable := Some table\<rparr>)"

definition MMU_enableVM :: "bool \<Rightarrow> (MMU, unit) prog" where
  "MMU_enableVM enabled = modify (\<lambda>u. u\<lparr>vmEnabled := enabled\<rparr>)"

definition MMU_clearFault :: "(MMU, unit) prog" where
  "MMU_clearFault = modify (\<lambda>u. u\<lparr>mmu_fault := False, faultAddr := 0\<rparr>)"

definition raise_fault :: "Addr \<Rightarrow> (MMU, Addr) prog" where
  "raise_fault vaddr = (\<lambda>u. Inr (0, u\<lparr>mmu_fault := True, faultAddr := vaddr\<rparr>))"

definition translate :: "Addr \<Rightarrow> bool \<Rightarrow> bool \<Rightarrow> (MMU, Addr) prog" where
  "translate vaddr isWrite isExec = (\<lambda>u.
     if \<not> vmEnabled u then Inr (vaddr, u)
     else
       let vpn = drop_bit 12 vaddr; offset = vaddr AND 0xFFF in
       case currentTable u of
         None \<Rightarrow> raise_fault vaddr u
       | Some table \<Rightarrow>
           (case tables u table vpn of
              None \<Rightarrow> raise_fault vaddr u
            | Some pte \<Rightarrow>
                if \<not> valid pte then raise_fault vaddr u
                else if isExec \<and> \<not> canExecute pte then raise_fault vaddr u
                else if isWrite \<and> \<not> canWrite pte then raise_fault vaddr u
                else if \<not> isWrite \<and> \<not> isExec \<and> \<not> canRead pte then raise_fault vaddr u
                else
                  let pte1 = pte\<lparr>referenced := True\<rparr>;
                      pte2 = (if isWrite then pte1\<lparr>dirty := True\<rparr> else pte1)
                  in Inr (push_bit 12 (ppn pte) OR offset,
                          u\<lparr>tables := (tables u)(table := (tables u table)(vpn \<mapsto> pte2))\<rparr>)))"

definition MMU_loadPhysicalMemory :: "Addr \<Rightarrow> nat \<Rightarrow> (MMU, Word) prog" where
  "MMU_loadPhysicalMemory paddr sz = zoom memory memory_update (Memory_load paddr sz)"

definition MMU_storePhysicalMemory :: "Addr \<Rightarrow> nat \<Rightarrow> Word \<Rightarrow> (MMU, unit) prog" where
  "MMU_storePhysicalMemory paddr sz value = zoom memory memory_update (Memory_store paddr sz value)"

definition MMU_loadVirtualMemory :: "Addr \<Rightarrow> nat \<Rightarrow> (MMU, Word) prog" where
  "MMU_loadVirtualMemory vaddr sz =
     bind (translate vaddr False False) (\<lambda>paddr.
     bind (gets mmu_fault) (\<lambda>f.
     if f then ret 0 else zoom memory memory_update (Memory_load paddr sz)))"

definition MMU_storeVirtualMemory :: "Addr \<Rightarrow> nat \<Rightarrow> Word \<Rightarrow> (MMU, unit) prog" where
  "MMU_storeVirtualMemory vaddr sz value =
     bind (translate vaddr True False) (\<lambda>paddr.
     bind (gets mmu_fault) (\<lambda>f.
     if f then ret () else zoom memory memory_update (Memory_store paddr sz value)))"

definition MMU_fetch :: "Addr \<Rightarrow> (MMU, Word) prog" where
  "MMU_fetch vaddr =
     bind (translate vaddr False True) (\<lambda>paddr.
     bind (gets mmu_fault) (\<lambda>f.
     if f then ret 0 else zoom memory memory_update (Memory_load paddr 4)))"

section \<open>What translation computes\<close>

text \<open>The page number and offset of an address, and the entry the current table has for it.\<close>

definition vpn_of :: "Addr \<Rightarrow> Addr" where
  "vpn_of vaddr = drop_bit 12 vaddr"

definition page_offset :: "Addr \<Rightarrow> nat" where
  "page_offset vaddr = unat vaddr mod 4096"

definition current_pte :: "MMU \<Rightarrow> Addr \<Rightarrow> PTE option" where
  "current_pte u vaddr =
     (case currentTable u of None \<Rightarrow> None | Some t \<Rightarrow> tables u t (vpn_of vaddr))"

text \<open>The rights an access needs: execute for a fetch, write for a store, else read.\<close>

definition allows :: "PTE \<Rightarrow> bool \<Rightarrow> bool \<Rightarrow> bool" where
  "allows pte w x \<longleftrightarrow>
     valid pte \<and> (x \<longrightarrow> canExecute pte) \<and> (w \<longrightarrow> canWrite pte) \<and> (\<not> w \<and> \<not> x \<longrightarrow> canRead pte)"

definition touch :: "MMU \<Rightarrow> Addr \<Rightarrow> bool \<Rightarrow> MMU" where
  "touch u vaddr w =
     (case currentTable u of None \<Rightarrow> u | Some t \<Rightarrow>
       (case tables u t (vpn_of vaddr) of None \<Rightarrow> u | Some pte \<Rightarrow>
         u\<lparr>tables := (tables u)(t := (tables u t)(vpn_of vaddr \<mapsto>
             pte\<lparr>referenced := True, dirty := dirty pte \<or> w\<rparr>))\<rparr>))"

definition phys :: "PTE \<Rightarrow> Addr \<Rightarrow> Addr" where
  "phys pte vaddr = push_bit 12 (ppn pte) OR (vaddr AND 0xFFF)"

lemma translate_off: "\<not> vmEnabled u \<Longrightarrow> translate vaddr w x u = Inr (vaddr, u)"
  by (simp add: translate_def)

lemma translate_hit:
  "vmEnabled u \<Longrightarrow> current_pte u vaddr = Some pte \<Longrightarrow> allows pte w x \<Longrightarrow>
     translate vaddr w x u = Inr (phys pte vaddr, touch u vaddr w)"
  by (auto simp: translate_def current_pte_def touch_def phys_def allows_def vpn_of_def Let_def
      split: option.splits)

lemma translate_miss:
  "vmEnabled u \<Longrightarrow> (\<And>pte. current_pte u vaddr = Some pte \<Longrightarrow> \<not> allows pte w x) \<Longrightarrow>
     translate vaddr w x u = Inr (0, u\<lparr>mmu_fault := True, faultAddr := vaddr\<rparr>)"
  by (auto simp: translate_def current_pte_def allows_def vpn_of_def raise_fault_def Let_def
      split: option.splits)

lemma touch_simps [simp]:
  "memory (touch u a w) = memory u" "vmEnabled (touch u a w) = vmEnabled u"
  "currentTable (touch u a w) = currentTable u" "mmu_fault (touch u a w) = mmu_fault u"
  "faultAddr (touch u a w) = faultAddr u"
  by (simp_all add: touch_def split: option.split)

text \<open>A marked entry keeps its frame and its rights.\<close>

lemma current_pte_touch:
  "current_pte u b = Some pte \<Longrightarrow>
     \<exists>pte'. current_pte (touch u a w) b = Some pte' \<and> ppn pte' = ppn pte \<and> swapped pte' = swapped pte \<and>
       (\<forall>w' x. allows pte' w' x = allows pte w' x)"
  by (auto simp: current_pte_def touch_def allows_def split: option.splits)

lemma vaddr_split: "unat (vaddr AND 0xFFF :: Addr) = page_offset vaddr"
proof -
  have "vaddr AND 0xFFF = take_bit 12 vaddr"
    by (simp add: take_bit_eq_mask mask_eq_decr_exp)
  then show ?thesis
    by (simp only: page_offset_def unsigned_take_bit_eq) (simp add: take_bit_eq_mod)
qed

lemma unat_phys:
  assumes "unat (ppn pte) < 2 ^ 20"
  shows "unat (phys pte vaddr) = unat (ppn pte) * 4096 + page_offset vaddr"
proof -
  have o: "vaddr AND 0xFFF = take_bit 12 vaddr"
    by (simp add: take_bit_eq_mask mask_eq_decr_exp)
  have "phys pte vaddr = push_bit 12 (ppn pte) + (vaddr AND 0xFFF)"
    unfolding phys_def o
    by (intro disjunctive_add [symmetric]) (auto simp: bit_push_bit_iff bit_take_bit_iff)
  moreover have "unat (push_bit 12 (ppn pte)) = unat (ppn pte) * 4096"
    using assms by (simp add: push_bit_eq_mult unat_word_ariths)
  moreover have "page_offset vaddr < 4096"
    by (simp add: page_offset_def)
  ultimately show ?thesis
    using assms by (simp add: unat_word_ariths vaddr_split)
qed

section \<open>Virtual accesses\<close>

definition frames_ok :: "MMU \<Rightarrow> bool" where
  "frames_ok u \<longleftrightarrow>
     (\<forall>t v pte. tables u t v = Some pte \<and> valid pte \<longrightarrow> unat (ppn pte) < unat MEMORY_SIZE div 4096)"

definition mmu_ok :: "MMU \<Rightarrow> bool" where
  "mmu_ok u \<longleftrightarrow> mem_ok (memory u) \<and> \<not> mmu_fault u \<and> faultAddr u = 0 \<and> frames_ok u"

lemma current_pte_frame:
  "frames_ok u \<Longrightarrow> current_pte u vaddr = Some pte \<Longrightarrow> valid pte \<Longrightarrow> unat (ppn pte) < 16"
  by (auto simp: frames_ok_def current_pte_def unat_MEMORY_SIZE split: option.splits)

lemma mmu_ok_touch: "mmu_ok u \<Longrightarrow> mmu_ok (touch u a w)"
  by (auto simp: mmu_ok_def frames_ok_def touch_def split: option.splits if_splits)

text \<open>The physical address of an in-page access, as a number.\<close>

definition phys_at :: "PTE \<Rightarrow> Addr \<Rightarrow> nat" where
  "phys_at pte vaddr = unat (ppn pte) * 4096 + page_offset vaddr"

lemma phys_at_phys: "unat (ppn pte) < 16 \<Longrightarrow> unat (phys pte vaddr) = phys_at pte vaddr"
  by (simp add: unat_phys phys_at_def)

lemma phys_at_bound:
  "unat (ppn pte) < 16 \<Longrightarrow> page_offset vaddr + n \<le> 4096 \<Longrightarrow> phys_at pte vaddr + n \<le> unat MEMORY_SIZE"
  by (simp add: phys_at_def unat_MEMORY_SIZE)

lemma virtual_load:
  assumes "vmEnabled u" "mmu_ok u" "current_pte u vaddr = Some pte" "allows pte False False"
    and "0 < n" "phys_at pte vaddr + n \<le> unat MEMORY_SIZE"
  shows "MMU_loadVirtualMemory vaddr n u =
    Inr (bytes_word (take n (drop (phys_at pte vaddr) (memory u))), touch u vaddr False)"
proof -
  have p: "unat (phys pte vaddr) = phys_at pte vaddr"
    using assms by (auto intro!: phys_at_phys current_pte_frame simp: mmu_ok_def allows_def)
  have "Memory_load (phys pte vaddr) n (memory u) =
      Inr (bytes_word (take n (drop (phys_at pte vaddr) (memory u))), memory u)"
    using assms Memory_load_eq [of "memory u" "phys pte vaddr" n] by (simp add: p mmu_ok_def)
  moreover have "memory_update (\<lambda>_. memory u) (touch u vaddr False) = touch u vaddr False"
    by (metis (no_types) MMU.surjective MMU.update_convs(1) touch_simps(1))
  ultimately show ?thesis
    using assms translate_hit [of u vaddr pte False False]
    by (simp add: MMU_loadVirtualMemory_def run mmu_ok_def)
qed

lemma virtual_store:
  assumes "vmEnabled u" "mmu_ok u" "current_pte u vaddr = Some pte" "allows pte True False"
    and "0 < n" "phys_at pte vaddr + n \<le> unat MEMORY_SIZE"
  shows "MMU_storeVirtualMemory vaddr n v u =
    Inr ((), (touch u vaddr True)\<lparr>memory := mem_splice (memory u) (phys_at pte vaddr) (word_bytes n v)\<rparr>)"
proof -
  have p: "unat (phys pte vaddr) = phys_at pte vaddr"
    using assms by (auto intro!: phys_at_phys current_pte_frame simp: mmu_ok_def allows_def)
  have "Memory_store (phys pte vaddr) n v (memory u) =
      Inr ((), mem_splice (memory u) (phys_at pte vaddr) (word_bytes n v))"
    using assms Memory_store_eq [of "memory u" "phys pte vaddr" n] by (simp add: p mmu_ok_def)
  then show ?thesis
    using assms translate_hit [of u vaddr pte True False]
    by (simp add: MMU_storeVirtualMemory_def run mmu_ok_def)
qed

lemma virtual_miss:
  assumes "vmEnabled u" "\<And>pte. current_pte u vaddr = Some pte \<Longrightarrow> \<not> allows pte w False"
  shows "w = False \<Longrightarrow> MMU_loadVirtualMemory vaddr n u = Inr (0, u\<lparr>mmu_fault := True, faultAddr := vaddr\<rparr>)"
    and "w = True \<Longrightarrow> MMU_storeVirtualMemory vaddr n v u = Inr ((), u\<lparr>mmu_fault := True, faultAddr := vaddr\<rparr>)"
  using assms by (auto simp: MMU_loadVirtualMemory_def MMU_storeVirtualMemory_def translate_miss run)

end
