(* ===== verification/Cpu.thy ===== *)
theory Cpu
  imports RegFile MMU
begin

text \<open>
  The processor state and the inline operations of
  \<^verbatim>\<open>rv32vm/Machine.hpp\<close>: registers, MMU, program counter and
  the pending trap.  \<^verbatim>\<open>Machine::reset\<close> and the register dump's
  counterpart belong to this layer; execution is in theories Executor
  and Machine.
\<close>

datatype TrapType = NoTrap | SyscallTrap | PageFaultTrap

record Trap =
  trap_type :: TrapType
  trap_value :: Word

record Machine =
  regs :: RegFile
  mmu :: MMU
  pc :: Addr
  trap :: Trap

definition no_trap :: Trap where
  "no_trap = \<lparr>trap_type = NoTrap, trap_value = 0\<rparr>"

definition cpu_getPC :: "(Machine, Addr) prog" where
  "cpu_getPC = gets pc"

definition cpu_setPC :: "Addr \<Rightarrow> (Machine, unit) prog" where
  "cpu_setPC newPc = modify (\<lambda>c. c\<lparr>pc := newPc\<rparr>)"

definition cpu_advancePC :: "(Machine, unit) prog" where
  "cpu_advancePC = modify (\<lambda>c. c\<lparr>pc := pc c + 4\<rparr>)"

definition cpu_setTrap :: "TrapType \<Rightarrow> Word \<Rightarrow> (Machine, unit) prog" where
  "cpu_setTrap ty value = modify (\<lambda>c. c\<lparr>trap := \<lparr>trap_type = ty, trap_value = value\<rparr>\<rparr>)"

definition cpu_hasTrap :: "(Machine, bool) prog" where
  "cpu_hasTrap = gets (\<lambda>c. trap_type (trap c) \<noteq> NoTrap)"

definition cpu_clearTrap :: "(Machine, unit) prog" where
  "cpu_clearTrap = modify (\<lambda>c. c\<lparr>trap := no_trap\<rparr>)"

text \<open>The fault hand-over that follows every access through the MMU.\<close>

definition cpu_takeFault :: "(Machine, unit) prog" where
  "cpu_takeFault =
     bind (gets (\<lambda>c. mmu_fault (mmu c))) (\<lambda>f.
     if f then
       bind (gets (\<lambda>c. faultAddr (mmu c))) (\<lambda>a.
       andthen (cpu_setTrap PageFaultTrap a) (zoom mmu mmu_update MMU_clearFault))
     else ret ())"

definition cpu_loadVirtualMemory :: "Addr \<Rightarrow> nat \<Rightarrow> (Machine, Word) prog" where
  "cpu_loadVirtualMemory vaddr sz =
     bind (zoom mmu mmu_update (MMU_loadVirtualMemory vaddr sz)) (\<lambda>val.
     andthen cpu_takeFault (ret val))"

definition cpu_storeVirtualMemory :: "Addr \<Rightarrow> nat \<Rightarrow> Word \<Rightarrow> (Machine, unit) prog" where
  "cpu_storeVirtualMemory vaddr sz value =
     andthen (zoom mmu mmu_update (MMU_storeVirtualMemory vaddr sz value)) cpu_takeFault"

definition cpu_loadPhysicalMemory :: "Addr \<Rightarrow> nat \<Rightarrow> (Machine, Word) prog" where
  "cpu_loadPhysicalMemory paddr sz = zoom mmu mmu_update (MMU_loadPhysicalMemory paddr sz)"

definition cpu_storePhysicalMemory :: "Addr \<Rightarrow> nat \<Rightarrow> Word \<Rightarrow> (Machine, unit) prog" where
  "cpu_storePhysicalMemory paddr sz value = zoom mmu mmu_update (MMU_storePhysicalMemory paddr sz value)"

definition cpu_readReg :: "Word \<Rightarrow> (Machine, Word) prog" where
  "cpu_readReg index = zoom regs regs_update (RegFile_read (unat index))"

definition cpu_writeReg :: "Word \<Rightarrow> Word \<Rightarrow> (Machine, unit) prog" where
  "cpu_writeReg index value = zoom regs regs_update (RegFile_write (unat index) value)"

definition cpu_setPageTable :: "nat \<Rightarrow> (Machine, unit) prog" where
  "cpu_setPageTable table = zoom mmu mmu_update (MMU_setPageTable table)"

definition cpu_enableVM :: "bool \<Rightarrow> (Machine, unit) prog" where
  "cpu_enableVM enabled = zoom mmu mmu_update (MMU_enableVM enabled)"

definition Machine_reset :: "(Machine, unit) prog" where
  "Machine_reset =
     andthen (zoom mmu mmu_update MMU_reset)
    (andthen (cpu_setPC MEMORY_BASE)
    (andthen (zoom regs regs_update RegFile_reset)
      (cpu_writeReg 2 STACK_TOP)))"

section \<open>Well-formed processors\<close>

definition cpu_ok :: "Machine \<Rightarrow> bool" where
  "cpu_ok c \<longleftrightarrow> rf_ok (regs c) \<and> mmu_ok (mmu c)"

definition reg_val :: "Machine \<Rightarrow> Word \<Rightarrow> Word" where
  "reg_val c i = regs c ! unat i"

definition set_reg :: "Machine \<Rightarrow> Word \<Rightarrow> Word \<Rightarrow> Machine" where
  "set_reg c i v = c\<lparr>regs := rf_set (regs c) (unat i) v\<rparr>"

lemma set_reg_simps [simp]:
  "mmu (set_reg c i v) = mmu c" "pc (set_reg c i v) = pc c" "trap (set_reg c i v) = trap c"
  "regs (set_reg c i v) = rf_set (regs c) (unat i) v"
  by (simp_all add: set_reg_def)

lemma set_reg_zero [simp]: "set_reg c 0 v = c"
  by (simp add: set_reg_def)

lemma reg_val_cong [simp]:
  "reg_val (c\<lparr>mmu := u\<rparr>) i = reg_val c i" "reg_val (c\<lparr>pc := p\<rparr>) i = reg_val c i"
  "reg_val (c\<lparr>trap := t\<rparr>) i = reg_val c i"
  by (simp_all add: reg_val_def)

lemma cpu_ok_cong [simp]:
  "cpu_ok (c\<lparr>pc := p\<rparr>) = cpu_ok c" "cpu_ok (c\<lparr>trap := t\<rparr>) = cpu_ok c"
  by (simp_all add: cpu_ok_def)

lemma cpu_ok_set_reg: "cpu_ok c \<Longrightarrow> unat i < 32 \<Longrightarrow> cpu_ok (set_reg c i v)"
  by (simp add: cpu_ok_def rf.set_ok)

lemma cpu_readReg_eq: "cpu_ok c \<Longrightarrow> unat i < 32 \<Longrightarrow> cpu_readReg i c = Inr (reg_val c i, c)"
  by (simp add: cpu_readReg_def cpu_ok_def reg_val_def rf.read_ok)

lemma cpu_writeReg_eq: "cpu_ok c \<Longrightarrow> unat i < 32 \<Longrightarrow> cpu_writeReg i v c = Inr ((), set_reg c i v)"
  by (simp add: cpu_writeReg_def cpu_ok_def set_reg_def rf.write_ok)

lemma reg_val_set_reg:
  "cpu_ok c \<Longrightarrow> unat i < 32 \<Longrightarrow> unat j < 32 \<Longrightarrow>
     reg_val (set_reg c i v) j = (if j = i \<and> i \<noteq> 0 then v else reg_val c j)"
  by (simp add: cpu_ok_def reg_val_def rf.val_set unat_eq_zero word_unat_eq_iff [of j i])

lemma reg_val_zero: "cpu_ok c \<Longrightarrow> reg_val c 0 = 0"
  by (simp add: cpu_ok_def reg_val_def rf_ok_def)

end
