(* ===== verification/ISA.thy ===== *)
theory ISA
  imports Encoding Cpu
begin

text \<open>
  The meaning of the reference instructions, written from the RISC-V manual's
  prose over integers: arithmetic modulo two to the 32, division that truncates with
  the architecture's results for a zero divisor, products in full, shifts as
  multiplication and division by powers of two, branch targets relative to the
  instruction's own address.  A step of the reference machine includes the move to
  the next instruction.
\<close>

section \<open>Arithmetic\<close>

definition shift_amount :: "Word \<Rightarrow> nat" where
  "shift_amount y = nat (uint y mod 32)"

definition quot :: "int \<Rightarrow> int \<Rightarrow> int" where
  "quot x y = (if y = 0 then -1 else sgn x * sgn y * (\<bar>x\<bar> div \<bar>y\<bar>))"

definition remainder :: "int \<Rightarrow> int \<Rightarrow> int" where
  "remainder x y = (if y = 0 then x else x - y * quot x y)"

fun isa_alu :: "rop \<Rightarrow> Word \<Rightarrow> Word \<Rightarrow> int" where
  "isa_alu R_ADD x y = uint x + uint y"
| "isa_alu R_SUB x y = uint x - uint y"
| "isa_alu R_SLL x y = uint x * 2 ^ shift_amount y"
| "isa_alu R_SLT x y = (if sint x < sint y then 1 else 0)"
| "isa_alu R_SLTU x y = (if uint x < uint y then 1 else 0)"
| "isa_alu R_XOR x y = uint x XOR uint y"
| "isa_alu R_SRL x y = uint x div 2 ^ shift_amount y"
| "isa_alu R_SRA x y = sint x div 2 ^ shift_amount y"
| "isa_alu R_OR x y = uint x OR uint y"
| "isa_alu R_AND x y = uint x AND uint y"
| "isa_alu R_MUL x y = sint x * sint y"
| "isa_alu R_MULH x y = (sint x * sint y) div 2 ^ 32"
| "isa_alu R_MULHSU x y = (sint x * uint y) div 2 ^ 32"
| "isa_alu R_MULHU x y = (uint x * uint y) div 2 ^ 32"
| "isa_alu R_DIV x y = quot (sint x) (sint y)"
| "isa_alu R_DIVU x y = quot (uint x) (uint y)"
| "isa_alu R_REM x y = remainder (sint x) (sint y)"
| "isa_alu R_REMU x y = remainder (uint x) (uint y)"

fun isa_iop :: "iop \<Rightarrow> rop" where
  "isa_iop I_ADDI = R_ADD"
| "isa_iop I_SLTI = R_SLT"
| "isa_iop I_SLTIU = R_SLTU"
| "isa_iop I_XORI = R_XOR"
| "isa_iop I_ORI = R_OR"
| "isa_iop I_ANDI = R_AND"

fun isa_shop :: "shop \<Rightarrow> rop" where
  "isa_shop I_SLLI = R_SLL"
| "isa_shop I_SRLI = R_SRL"
| "isa_shop I_SRAI = R_SRA"

fun isa_cond :: "bop \<Rightarrow> Word \<Rightarrow> Word \<Rightarrow> bool" where
  "isa_cond B_BEQ x y \<longleftrightarrow> x = y"
| "isa_cond B_BNE x y \<longleftrightarrow> x \<noteq> y"
| "isa_cond B_BLT x y \<longleftrightarrow> sint x < sint y"
| "isa_cond B_BGE x y \<longleftrightarrow> sint y \<le> sint x"
| "isa_cond B_BLTU x y \<longleftrightarrow> uint x < uint y"
| "isa_cond B_BGEU x y \<longleftrightarrow> uint y \<le> uint x"

fun load_width :: "lop \<Rightarrow> nat" where
  "load_width L_LB = 1"
| "load_width L_LH = 2"
| "load_width L_LW = 4"
| "load_width L_LBU = 1"
| "load_width L_LHU = 2"

text \<open>Extension of a loaded value: by sign for LB and LH, by zero for LBU and LHU.\<close>

fun load_extend :: "lop \<Rightarrow> Word \<Rightarrow> int" where
  "load_extend L_LB v = sint (word_of_int (uint v) :: 8 word)"
| "load_extend L_LH v = sint (word_of_int (uint v) :: 16 word)"
| "load_extend L_LW v = uint v"
| "load_extend L_LBU v = uint v mod 2 ^ 8"
| "load_extend L_LHU v = uint v mod 2 ^ 16"

fun store_width :: "sop \<Rightarrow> nat" where
  "store_width S_SB = 1"
| "store_width S_SH = 2"
| "store_width S_SW = 4"

section \<open>Instructions\<close>

text \<open>
  Register numbers as 32-bit words, immediates as integers.
\<close>

abbreviation R :: "regno \<Rightarrow> Word" where "R r \<equiv> ucast r"

definition isa_set :: "Machine \<Rightarrow> regno \<Rightarrow> int \<Rightarrow> Machine" where
  "isa_set c d v = set_reg c (R d) (word_of_int v)"

definition next_pc :: "Machine \<Rightarrow> Machine" where
  "next_pc c = c\<lparr>pc := pc c + 4\<rparr>"

definition goto :: "Machine \<Rightarrow> int \<Rightarrow> Machine" where
  "goto c a = c\<lparr>pc := word_of_int a\<rparr>"

text \<open>
  A memory access of \<^verbatim>\<open>n\<close> bytes with the paging unit on: the entry that
  permits it, if there is one.
\<close>

definition granted :: "Machine \<Rightarrow> Addr \<Rightarrow> bool \<Rightarrow> PTE option" where
  "granted c a w =
     (case current_pte (mmu c) a of None \<Rightarrow> None
      | Some pte \<Rightarrow> if allows pte w False then Some pte else None)"

definition page_fault :: "Machine \<Rightarrow> Addr \<Rightarrow> Machine" where
  "page_fault c a = c\<lparr>trap := \<lparr>trap_type = PageFaultTrap, trap_value = a\<rparr>\<rparr>"

definition isa_load :: "lop \<Rightarrow> regno \<Rightarrow> Addr \<Rightarrow> Machine \<Rightarrow> Machine" where
  "isa_load l d a c =
     (case granted c a False of
        None \<Rightarrow> page_fault c a
      | Some pte \<Rightarrow>
          let v = bytes_word (take (load_width l) (drop (phys_at pte a) (memory (mmu c)))) in
          next_pc (isa_set (c\<lparr>mmu := touch (mmu c) a False\<rparr>) d (load_extend l v)))"

definition isa_store :: "sop \<Rightarrow> Addr \<Rightarrow> Word \<Rightarrow> Machine \<Rightarrow> Machine" where
  "isa_store s a v c =
     (case granted c a True of
        None \<Rightarrow> page_fault c a
      | Some pte \<Rightarrow>
          next_pc (c\<lparr>mmu := (touch (mmu c) a True)\<lparr>memory :=
            mem_splice (memory (mmu c)) (phys_at pte a) (word_bytes (store_width s) v)\<rparr>\<rparr>))"

text \<open>
  One instruction.  Jumps and taken branches go to any even address, as the manual allows where
  instructions may lie at every second byte; a system call stops with the number of register a7, or -1
  for one that the simulator's table of calls does not list.
\<close>

fun isa_step :: "instr \<Rightarrow> Machine \<Rightarrow> Machine" where
  "isa_step (Op r d a b) c = next_pc (isa_set c d (isa_alu r (reg_val c (R a)) (reg_val c (R b))))"
| "isa_step (OpImm i d a imm) c =
     next_pc (isa_set c d (isa_alu (isa_iop i) (reg_val c (R a)) (scast imm)))"
| "isa_step (Shift s d a k) c =
     next_pc (isa_set c d (isa_alu (isa_shop s) (reg_val c (R a)) (ucast k)))"
| "isa_step (Load l d a imm) c =
     isa_load l d (reg_val c (R a) + scast imm) c"
| "isa_step (Store s a b imm) c = isa_store s (reg_val c (R a) + scast imm) (reg_val c (R b)) c"
| "isa_step (Branch k a b off) c =
     (if isa_cond k (reg_val c (R a)) (reg_val c (R b)) then goto c (uint (pc c) + 2 * sint off)
      else next_pc c)"
| "isa_step (Lui d up) c = next_pc (isa_set c d (uint up * 2 ^ 12))"
| "isa_step (Auipc d up) c = next_pc (isa_set c d (uint (pc c) + uint up * 2 ^ 12))"
| "isa_step (Jal d off) c = goto (isa_set c d (uint (pc c) + 4)) (uint (pc c) + 2 * sint off)"
| "isa_step (Jalr d a imm) c =
     (let t = uint (reg_val c (R a)) + sint imm in
      goto (isa_set c d (uint (pc c) + 4)) (t - t mod 2))"
| "isa_step Ecall c =
     (let k = reg_val c 17 in
      c\<lparr>trap := \<lparr>trap_type = SyscallTrap, trap_value = if k < 15 then k else -1\<rparr>\<rparr>)"
| "isa_step Fence c = next_pc c"
| "isa_step FenceI c = next_pc c"

text \<open>A load for its access alone: the target is register 0.\<close>

definition idle_load :: "instr \<Rightarrow> bool" where
  "idle_load i \<longleftrightarrow> (case i of Load l d a imm \<Rightarrow> d = 0 | _ \<Rightarrow> False)"

lemma idle_load_simps [simp]:
  "idle_load (Load l d a imm) \<longleftrightarrow> d = 0" "\<not> idle_load (Store s a b imm)" "\<not> idle_load (Op r d a b)"
  "\<not> idle_load (OpImm j d a imm)" "\<not> idle_load (Shift h d a k)" "\<not> idle_load (Branch q a b off)" "\<not> idle_load (Lui d up)"
  "\<not> idle_load (Auipc d up)" "\<not> idle_load (Jal d jmp)" "\<not> idle_load (Jalr d a imm)" "\<not> idle_load Ecall" "\<not> idle_load Fence"
  "\<not> idle_load FenceI"
  by (simp_all add: idle_load_def)

text \<open>The access an instruction makes stays inside one page.\<close>

fun access_in_page :: "instr \<Rightarrow> Machine \<Rightarrow> bool" where
  "access_in_page (Load l d a imm) c \<longleftrightarrow>
     page_offset (reg_val c (R a) + scast imm) + load_width l \<le> 4096"
| "access_in_page (Store s a b imm) c \<longleftrightarrow>
     page_offset (reg_val c (R a) + scast imm) + store_width s \<le> 4096"
| "access_in_page _ c \<longleftrightarrow> True"

end
