(* ===== verification/SyscallDefinition.thy ===== *)
theory SyscallDefinition
  imports Prelude
begin

text \<open>
  System-call numbers and records, \<^verbatim>\<open>syscall/SyscallDefinition.hpp\<close>.
  The scoped enum has underlying type \<^verbatim>\<open>int\<close>; a number is kept as the
  32-bit word it is read from register a7 as.
\<close>

type_synonym SyscallID = Word

abbreviation SYS_EXIT :: SyscallID where "SYS_EXIT \<equiv> 0"
abbreviation SYS_WRITE :: SyscallID where "SYS_WRITE \<equiv> 1"
abbreviation SYS_READ :: SyscallID where "SYS_READ \<equiv> 2"
abbreviation SYS_THREAD_CREATE :: SyscallID where "SYS_THREAD_CREATE \<equiv> 3"
abbreviation SYS_THREAD_EXIT :: SyscallID where "SYS_THREAD_EXIT \<equiv> 4"
abbreviation SYS_THREAD_JOIN :: SyscallID where "SYS_THREAD_JOIN \<equiv> 5"
abbreviation SYS_MUTEX_CREATE :: SyscallID where "SYS_MUTEX_CREATE \<equiv> 6"
abbreviation SYS_MUTEX_LOCK :: SyscallID where "SYS_MUTEX_LOCK \<equiv> 7"
abbreviation SYS_MUTEX_UNLOCK :: SyscallID where "SYS_MUTEX_UNLOCK \<equiv> 8"
abbreviation SYS_OPEN :: SyscallID where "SYS_OPEN \<equiv> 9"
abbreviation SYS_CLOSE :: SyscallID where "SYS_CLOSE \<equiv> 10"
abbreviation SYS_CREATE :: SyscallID where "SYS_CREATE \<equiv> 11"
abbreviation SYS_SBRK :: SyscallID where "SYS_SBRK \<equiv> 12"
abbreviation SYS_CREATE_PROCESS :: SyscallID where "SYS_CREATE_PROCESS \<equiv> 13"
abbreviation SYS_JOIN_PROCESS :: SyscallID where "SYS_JOIN_PROCESS \<equiv> 14"
abbreviation SYS_UNKNOWN :: SyscallID where "SYS_UNKNOWN \<equiv> -1"

definition sysCallNameMap :: "(SyscallID \<times> string) list" where
  "sysCallNameMap =
    [(SYS_EXIT, ''exit syscall''),
     (SYS_WRITE, ''write syscall''),
     (SYS_READ, ''read syscall''),
     (SYS_THREAD_CREATE, ''create thread syscall''),
     (SYS_THREAD_EXIT, ''exit thread syscall''),
     (SYS_THREAD_JOIN, ''join thread syscall''),
     (SYS_MUTEX_CREATE, ''mutex create syscall''),
     (SYS_MUTEX_LOCK, ''mutex lock syscall''),
     (SYS_MUTEX_UNLOCK, ''mutex unlock syscall''),
     (SYS_OPEN, ''open yscall''),
     (SYS_CLOSE, ''close syscall''),
     (SYS_CREATE, ''create syscall''),
     (SYS_SBRK, ''sbrk syscall''),
     (SYS_CREATE_PROCESS, ''create process syscall''),
     (SYS_JOIN_PROCESS, ''join process syscall'')]"

lemma known_syscalls:
  "map_of sysCallNameMap i \<noteq> None \<longleftrightarrow> i < 15"
proof
  assume "map_of sysCallNameMap i \<noteq> None"
  then show "i < 15"
    by (auto simp: sysCallNameMap_def split: if_splits)
next
  assume "i < 15"
  then obtain k where i: "i = of_nat k" and k: "k < 15"
    by (intro that [of "unat i"]) (simp_all add: word_less_nat_alt)
  have "k = 0 \<or> k = 1 \<or> k = 2 \<or> k = 3 \<or> k = 4 \<or> k = 5 \<or> k = 6 \<or> k = 7 \<or> k = 8 \<or> k = 9 \<or>
    k = 10 \<or> k = 11 \<or> k = 12 \<or> k = 13 \<or> k = 14"
    using k by arith
  then show "map_of sysCallNameMap i \<noteq> None"
    by (elim disjE) (simp_all add: i sysCallNameMap_def)
qed

record SyscallContext =
  ctx_id :: SyscallID
  arg0 :: Word
  arg1 :: Word
  arg2 :: Word
  arg3 :: Word
  arg4 :: Word
  arg5 :: Word

record SyscallResult =
  returnValue :: Word
  hasReturnValue :: bool
  error :: bool
  needReschedule :: bool
  advancePC :: bool

definition SyscallResult_new :: SyscallResult where
  "SyscallResult_new = \<lparr>returnValue = 0, hasReturnValue = True, error = False,
     needReschedule = False, advancePC = True\<rparr>"

end
