(* ===== verification/Executor.thy ===== *)
theory Executor
  imports Cpu Decoder SyscallDefinition
begin

text \<open>
  Instruction execution, \<^verbatim>\<open>rv32vm/Executor.cpp\<close>: one definition per
  static method, its early returns and the order of its reads kept.  A cast to
  \<^verbatim>\<open>int32_t\<close> is \<^verbatim>\<open>sint\<close>, a cast back \<^verbatim>\<open>word_of_int\<close>;
  right shift of a signed value is arithmetic, as the supported compilers define
  it; \<^verbatim>\<open>sdiv\<close> and \<^verbatim>\<open>smod\<close> on integers truncate towards zero as C++ does.
\<close>

section \<open>Upper immediates\<close>

definition execLUI :: "Word \<Rightarrow> (Machine, unit) prog" where
  "execLUI instr =
     (let d = rd instr in
      if d = 0 then ret ()
      else
        let imm = immU instr in
        cpu_writeReg d imm)"

definition execAUIPC :: "Word \<Rightarrow> (Machine, unit) prog" where
  "execAUIPC instr =
     (let d = rd instr in
      if d = 0 then ret ()
      else
        let imm = immU instr in
        bind cpu_getPC (\<lambda>currentPC.
        cpu_writeReg d (currentPC + imm)))"

section \<open>Register-immediate instructions\<close>

definition execADDI :: "Word \<Rightarrow> (Machine, unit) prog" where
  "execADDI instr =
     (let d = rd instr in
      if d = 0 then ret ()
      else
        let s1 = rs1 instr;
            imm = immI instr in
        bind (cpu_readReg s1) (\<lambda>val1.
        let result = val1 + imm in
        cpu_writeReg d result))"

definition execSLTI :: "Word \<Rightarrow> (Machine, unit) prog" where
  "execSLTI instr =
     (let d = rd instr in
      if d = 0 then ret ()
      else
        let s1 = rs1 instr;
            imm = immI instr in
        bind (cpu_readReg s1) (\<lambda>val1.
        let result = (if sint val1 < sint imm then 1 else 0) in
        cpu_writeReg d result))"

definition execSLTIU :: "Word \<Rightarrow> (Machine, unit) prog" where
  "execSLTIU instr =
     (let d = rd instr in
      if d = 0 then ret ()
      else
        let s1 = rs1 instr;
            imm = immI instr in
        bind (cpu_readReg s1) (\<lambda>val1.
        let result = (if val1 < imm then 1 else 0) in
        cpu_writeReg d result))"

definition execXORI :: "Word \<Rightarrow> (Machine, unit) prog" where
  "execXORI instr =
     (let d = rd instr in
      if d = 0 then ret ()
      else
        let s1 = rs1 instr;
            imm = immI instr in
        bind (cpu_readReg s1) (\<lambda>val1.
        let result = val1 XOR imm in
        cpu_writeReg d result))"

definition execORI :: "Word \<Rightarrow> (Machine, unit) prog" where
  "execORI instr =
     (let d = rd instr in
      if d = 0 then ret ()
      else
        let s1 = rs1 instr;
            imm = immI instr in
        bind (cpu_readReg s1) (\<lambda>val1.
        let result = val1 OR imm in
        cpu_writeReg d result))"

definition execANDI :: "Word \<Rightarrow> (Machine, unit) prog" where
  "execANDI instr =
     (let d = rd instr in
      if d = 0 then ret ()
      else
        let s1 = rs1 instr;
            imm = immI instr in
        bind (cpu_readReg s1) (\<lambda>val1.
        let result = val1 AND imm in
        cpu_writeReg d result))"

definition execSLLI :: "Word \<Rightarrow> (Machine, unit) prog" where
  "execSLLI instr =
     (let d = rd instr in
      if d = 0 then ret ()
      else
        let s1 = rs1 instr in
        bind (cpu_readReg s1) (\<lambda>val1.
        let shamt = shamtI instr;
            result = push_bit (unat shamt) val1 in
        cpu_writeReg d result))"

definition execSRLI :: "Word \<Rightarrow> (Machine, unit) prog" where
  "execSRLI instr =
     (let d = rd instr in
      if d = 0 then ret ()
      else
        let s1 = rs1 instr in
        bind (cpu_readReg s1) (\<lambda>val1.
        let shamt = shamtI instr;
            result = drop_bit (unat shamt) val1 in
        cpu_writeReg d result))"

definition execSRAI :: "Word \<Rightarrow> (Machine, unit) prog" where
  "execSRAI instr =
     (let d = rd instr in
      if d = 0 then ret ()
      else
        let s1 = rs1 instr in
        bind (cpu_readReg s1) (\<lambda>val1.
        let shamt = shamtI instr;
            result = signed_drop_bit (unat shamt) val1 in
        cpu_writeReg d result))"

section \<open>Register-register instructions\<close>

definition execADD :: "Word \<Rightarrow> (Machine, unit) prog" where
  "execADD instr =
     (let d = rd instr in
      if d = 0 then ret ()
      else
        let s1 = rs1 instr;
            s2 = rs2 instr in
        bind (cpu_readReg s1) (\<lambda>val1.
        bind (cpu_readReg s2) (\<lambda>val2.
        let result = val1 + val2 in
        cpu_writeReg d result)))"

definition execSUB :: "Word \<Rightarrow> (Machine, unit) prog" where
  "execSUB instr =
     (let d = rd instr in
      if d = 0 then ret ()
      else
        let s1 = rs1 instr;
            s2 = rs2 instr in
        bind (cpu_readReg s1) (\<lambda>val1.
        bind (cpu_readReg s2) (\<lambda>val2.
        let result = val1 - val2 in
        cpu_writeReg d result)))"

definition execSLL :: "Word \<Rightarrow> (Machine, unit) prog" where
  "execSLL instr =
     (let d = rd instr in
      if d = 0 then ret ()
      else
        let s1 = rs1 instr;
            s2 = rs2 instr in
        bind (cpu_readReg s1) (\<lambda>val1.
        bind (cpu_readReg s2) (\<lambda>val2.
        let shamt = shamtR val2;
            result = push_bit (unat shamt) val1 in
        cpu_writeReg d result)))"

definition execSLT :: "Word \<Rightarrow> (Machine, unit) prog" where
  "execSLT instr =
     (let d = rd instr in
      if d = 0 then ret ()
      else
        let s1 = rs1 instr;
            s2 = rs2 instr in
        bind (cpu_readReg s1) (\<lambda>val1.
        bind (cpu_readReg s2) (\<lambda>val2.
        let result = (if sint val1 < sint val2 then 1 else 0) in
        cpu_writeReg d result)))"

definition execSLTU :: "Word \<Rightarrow> (Machine, unit) prog" where
  "execSLTU instr =
     (let d = rd instr in
      if d = 0 then ret ()
      else
        let s1 = rs1 instr;
            s2 = rs2 instr in
        bind (cpu_readReg s1) (\<lambda>val1.
        bind (cpu_readReg s2) (\<lambda>val2.
        let result = (if val1 < val2 then 1 else 0) in
        cpu_writeReg d result)))"

definition execXOR :: "Word \<Rightarrow> (Machine, unit) prog" where
  "execXOR instr =
     (let d = rd instr in
      if d = 0 then ret ()
      else
        let s1 = rs1 instr;
            s2 = rs2 instr in
        bind (cpu_readReg s1) (\<lambda>val1.
        bind (cpu_readReg s2) (\<lambda>val2.
        let result = val1 XOR val2 in
        cpu_writeReg d result)))"

definition execSRL :: "Word \<Rightarrow> (Machine, unit) prog" where
  "execSRL instr =
     (let d = rd instr in
      if d = 0 then ret ()
      else
        let s1 = rs1 instr;
            s2 = rs2 instr in
        bind (cpu_readReg s1) (\<lambda>val1.
        bind (cpu_readReg s2) (\<lambda>val2.
        let shamt = shamtR val2;
            result = drop_bit (unat shamt) val1 in
        cpu_writeReg d result)))"

definition execSRA :: "Word \<Rightarrow> (Machine, unit) prog" where
  "execSRA instr =
     (let d = rd instr in
      if d = 0 then ret ()
      else
        let s1 = rs1 instr;
            s2 = rs2 instr in
        bind (cpu_readReg s1) (\<lambda>val1.
        bind (cpu_readReg s2) (\<lambda>val2.
        let shamt = shamtR val2;
            result = signed_drop_bit (unat shamt) val1 in
        cpu_writeReg d result)))"

definition execOR :: "Word \<Rightarrow> (Machine, unit) prog" where
  "execOR instr =
     (let d = rd instr in
      if d = 0 then ret ()
      else
        let s1 = rs1 instr;
            s2 = rs2 instr in
        bind (cpu_readReg s1) (\<lambda>val1.
        bind (cpu_readReg s2) (\<lambda>val2.
        let result = val1 OR val2 in
        cpu_writeReg d result)))"

definition execAND :: "Word \<Rightarrow> (Machine, unit) prog" where
  "execAND instr =
     (let d = rd instr in
      if d = 0 then ret ()
      else
        let s1 = rs1 instr;
            s2 = rs2 instr in
        bind (cpu_readReg s1) (\<lambda>val1.
        bind (cpu_readReg s2) (\<lambda>val2.
        let result = val1 AND val2 in
        cpu_writeReg d result)))"

section \<open>System calls\<close>

definition execECALL :: "(Machine, unit) prog" where
  "execECALL =
     bind (cpu_readReg 17) (\<lambda>syscallID.
     let exist = (map_of sysCallNameMap syscallID \<noteq> None) in
     if \<not> exist then cpu_setTrap SyscallTrap SYS_UNKNOWN
     else cpu_setTrap SyscallTrap syscallID)"

section \<open>Loads\<close>

definition execLB :: "Word \<Rightarrow> (Machine, unit) prog" where
  "execLB instr =
     (let d = rd instr in
      if d = 0 then ret ()
      else
        let s1 = rs1 instr;
            imm = immI instr in
        bind (cpu_readReg s1) (\<lambda>val1.
        let addr = val1 + imm in
        bind (cpu_loadVirtualMemory addr 1) (\<lambda>val.
        bind cpu_hasTrap (\<lambda>t.
        if t then ret ()
        else cpu_writeReg d (scast (ucast val :: 8 word))))))"

definition execLH :: "Word \<Rightarrow> (Machine, unit) prog" where
  "execLH instr =
     (let d = rd instr in
      if d = 0 then ret ()
      else
        let s1 = rs1 instr;
            imm = immI instr in
        bind (cpu_readReg s1) (\<lambda>val1.
        let addr = val1 + imm in
        bind (cpu_loadVirtualMemory addr 2) (\<lambda>val.
        bind cpu_hasTrap (\<lambda>t.
        if t then ret ()
        else cpu_writeReg d (scast (ucast val :: 16 word))))))"

definition execLW :: "Word \<Rightarrow> (Machine, unit) prog" where
  "execLW instr =
     (let d = rd instr in
      if d = 0 then ret ()
      else
        let s1 = rs1 instr;
            imm = immI instr in
        bind (cpu_readReg s1) (\<lambda>val1.
        let addr = val1 + imm in
        bind (cpu_loadVirtualMemory addr 4) (\<lambda>val.
        bind cpu_hasTrap (\<lambda>t.
        if t then ret ()
        else cpu_writeReg d (val)))))"

definition execLBU :: "Word \<Rightarrow> (Machine, unit) prog" where
  "execLBU instr =
     (let d = rd instr in
      if d = 0 then ret ()
      else
        let s1 = rs1 instr;
            imm = immI instr in
        bind (cpu_readReg s1) (\<lambda>val1.
        let addr = val1 + imm in
        bind (cpu_loadVirtualMemory addr 1) (\<lambda>val.
        bind cpu_hasTrap (\<lambda>t.
        if t then ret ()
        else cpu_writeReg d (val AND 0xFF)))))"

definition execLHU :: "Word \<Rightarrow> (Machine, unit) prog" where
  "execLHU instr =
     (let d = rd instr in
      if d = 0 then ret ()
      else
        let s1 = rs1 instr;
            imm = immI instr in
        bind (cpu_readReg s1) (\<lambda>val1.
        let addr = val1 + imm in
        bind (cpu_loadVirtualMemory addr 2) (\<lambda>val.
        bind cpu_hasTrap (\<lambda>t.
        if t then ret ()
        else cpu_writeReg d (val AND 0xFFFF)))))"

section \<open>Stores\<close>

definition execSB :: "Word \<Rightarrow> (Machine, unit) prog" where
  "execSB instr =
     (let s1 = rs1 instr;
          s2 = rs2 instr;
          imm = immS instr in
      bind (cpu_readReg s1) (\<lambda>val1.
      let addr = val1 + imm in
      bind (cpu_readReg s2) (\<lambda>val.
      cpu_storeVirtualMemory addr 1 val)))"

definition execSH :: "Word \<Rightarrow> (Machine, unit) prog" where
  "execSH instr =
     (let s1 = rs1 instr;
          s2 = rs2 instr;
          imm = immS instr in
      bind (cpu_readReg s1) (\<lambda>val1.
      let addr = val1 + imm in
      bind (cpu_readReg s2) (\<lambda>val.
      cpu_storeVirtualMemory addr 2 val)))"

definition execSW :: "Word \<Rightarrow> (Machine, unit) prog" where
  "execSW instr =
     (let s1 = rs1 instr;
          s2 = rs2 instr;
          imm = immS instr in
      bind (cpu_readReg s1) (\<lambda>val1.
      let addr = val1 + imm in
      bind (cpu_readReg s2) (\<lambda>val.
      cpu_storeVirtualMemory addr 4 val)))"

section \<open>Jumps and branches\<close>

text \<open>
  The program counter still holds the address of the current instruction when a
  method runs; the main loop adds 4 afterwards, which the targets anticipate.
\<close>

definition execJAL :: "Word \<Rightarrow> (Machine, unit) prog" where
  "execJAL instr =
     (let d = rd instr;
          imm = immJ instr in
      bind (gets (\<lambda>c. pc c + 4)) (\<lambda>returnAddrPC.
      bind (gets pc) (\<lambda>currentPC.
      andthen (if d \<noteq> 0 then cpu_writeReg d returnAddrPC else ret ())
        (let nextPC = currentPC + imm - 4 in cpu_setPC nextPC))))"

definition execJALR :: "Word \<Rightarrow> (Machine, unit) prog" where
  "execJALR instr =
     (let d = rd instr;
          s1 = rs1 instr;
          imm = immI instr in
      bind (cpu_readReg s1) (\<lambda>val1.
      bind (gets (\<lambda>c. pc c + 4)) (\<lambda>returnAddrPC.
      andthen (if d \<noteq> 0 then cpu_writeReg d returnAddrPC else ret ())
        (let nextPC = ((val1 + imm) AND NOT 1) - 4 in cpu_setPC nextPC))))"

definition execBEQ :: "Word \<Rightarrow> (Machine, unit) prog" where
  "execBEQ instr =
     (let s1 = rs1 instr;
          s2 = rs2 instr;
          imm = immB instr in
      bind (cpu_readReg s1) (\<lambda>val1.
      bind (cpu_readReg s2) (\<lambda>val2.
      if val1 = val2 then
        bind (gets (\<lambda>c. (pc c - 4) + imm)) (\<lambda>nextPC. cpu_setPC nextPC)
      else ret ())))"

definition execBNE :: "Word \<Rightarrow> (Machine, unit) prog" where
  "execBNE instr =
     (let s1 = rs1 instr;
          s2 = rs2 instr;
          imm = immB instr in
      bind (cpu_readReg s1) (\<lambda>val1.
      bind (cpu_readReg s2) (\<lambda>val2.
      if val1 \<noteq> val2 then
        bind (gets (\<lambda>c. (pc c - 4) + imm)) (\<lambda>nextPC. cpu_setPC nextPC)
      else ret ())))"

definition execBLT :: "Word \<Rightarrow> (Machine, unit) prog" where
  "execBLT instr =
     (let s1 = rs1 instr;
          s2 = rs2 instr;
          imm = immB instr in
      bind (cpu_readReg s1) (\<lambda>val1.
      bind (cpu_readReg s2) (\<lambda>val2.
      if sint val1 < sint val2 then
        bind (gets (\<lambda>c. (pc c - 4) + imm)) (\<lambda>nextPC. cpu_setPC nextPC)
      else ret ())))"

definition execBGE :: "Word \<Rightarrow> (Machine, unit) prog" where
  "execBGE instr =
     (let s1 = rs1 instr;
          s2 = rs2 instr;
          imm = immB instr in
      bind (cpu_readReg s1) (\<lambda>val1.
      bind (cpu_readReg s2) (\<lambda>val2.
      if sint val1 \<ge> sint val2 then
        bind (gets (\<lambda>c. (pc c - 4) + imm)) (\<lambda>nextPC. cpu_setPC nextPC)
      else ret ())))"

definition execBLTU :: "Word \<Rightarrow> (Machine, unit) prog" where
  "execBLTU instr =
     (let s1 = rs1 instr;
          s2 = rs2 instr;
          imm = immB instr in
      bind (cpu_readReg s1) (\<lambda>val1.
      bind (cpu_readReg s2) (\<lambda>val2.
      if val1 < val2 then
        bind (gets (\<lambda>c. (pc c - 4) + imm)) (\<lambda>nextPC. cpu_setPC nextPC)
      else ret ())))"

definition execBGEU :: "Word \<Rightarrow> (Machine, unit) prog" where
  "execBGEU instr =
     (let s1 = rs1 instr;
          s2 = rs2 instr;
          imm = immB instr in
      bind (cpu_readReg s1) (\<lambda>val1.
      bind (cpu_readReg s2) (\<lambda>val2.
      if val1 \<ge> val2 then
        bind (gets (\<lambda>c. (pc c - 4) + imm)) (\<lambda>nextPC. cpu_setPC nextPC)
      else ret ())))"

section \<open>The M extension\<close>

definition execMUL :: "Word \<Rightarrow> (Machine, unit) prog" where
  "execMUL instr =
     (let d = rd instr in
      if d = 0 then ret ()
      else
        let s1 = rs1 instr;
            s2 = rs2 instr in
        bind (cpu_readReg s1) (\<lambda>val1.
        bind (cpu_readReg s2) (\<lambda>val2.
        let result = val1 * val2 in
        cpu_writeReg d result)))"

definition execMULH :: "Word \<Rightarrow> (Machine, unit) prog" where
  "execMULH instr =
     (let d = rd instr in
      if d = 0 then ret ()
      else
        let s1 = rs1 instr;
            s2 = rs2 instr in
        bind (cpu_readReg s1) (\<lambda>val1.
        bind (cpu_readReg s2) (\<lambda>val2.
        let op1 = (scast val1 :: 64 word);
            op2 = (scast val2 :: 64 word);
            result = op1 * op2 in
        cpu_writeReg d (ucast (signed_drop_bit 32 result)))))"

definition execMULHSU :: "Word \<Rightarrow> (Machine, unit) prog" where
  "execMULHSU instr =
     (let d = rd instr in
      if d = 0 then ret ()
      else
        let s1 = rs1 instr;
            s2 = rs2 instr in
        bind (cpu_readReg s1) (\<lambda>val1.
        bind (cpu_readReg s2) (\<lambda>val2.
        let op1 = (scast val1 :: 64 word);
            op2 = (ucast val2 :: 64 word);
            result = op1 * op2 in
        cpu_writeReg d (ucast (signed_drop_bit 32 result)))))"

definition execMULHU :: "Word \<Rightarrow> (Machine, unit) prog" where
  "execMULHU instr =
     (let d = rd instr in
      if d = 0 then ret ()
      else
        let s1 = rs1 instr;
            s2 = rs2 instr in
        bind (cpu_readReg s1) (\<lambda>val1.
        bind (cpu_readReg s2) (\<lambda>val2.
        let op1 = (ucast val1 :: 64 word);
            op2 = (ucast val2 :: 64 word);
            result = op1 * op2 in
        cpu_writeReg d (ucast (drop_bit 32 result)))))"

definition execDIV :: "Word \<Rightarrow> (Machine, unit) prog" where
  "execDIV instr =
     (let d = rd instr in
      if d = 0 then ret ()
      else
        let s1 = rs1 instr;
            s2 = rs2 instr in
        bind (cpu_readReg s1) (\<lambda>val1.
        bind (cpu_readReg s2) (\<lambda>val2.
        let dividend = sint val1;
            divisor = sint val2 in
        if divisor = 0 then cpu_writeReg d (-1)
        else if dividend = - (2 ^ 31) \<and> divisor = -1 then cpu_writeReg d (word_of_int dividend)
        else cpu_writeReg d (word_of_int (dividend sdiv divisor)))))"

definition execDIVU :: "Word \<Rightarrow> (Machine, unit) prog" where
  "execDIVU instr =
     (let d = rd instr in
      if d = 0 then ret ()
      else
        let s1 = rs1 instr;
            s2 = rs2 instr in
        bind (cpu_readReg s1) (\<lambda>val1.
        bind (cpu_readReg s2) (\<lambda>val2.
        let dividend = val1;
            divisor = val2 in
        if divisor = 0 then cpu_writeReg d 0xFFFFFFFF
        else cpu_writeReg d (dividend div divisor))))"

definition execREM :: "Word \<Rightarrow> (Machine, unit) prog" where
  "execREM instr =
     (let d = rd instr in
      if d = 0 then ret ()
      else
        let s1 = rs1 instr;
            s2 = rs2 instr in
        bind (cpu_readReg s1) (\<lambda>val1.
        bind (cpu_readReg s2) (\<lambda>val2.
        let dividend = sint val1;
            divisor = sint val2 in
        if divisor = 0 then cpu_writeReg d (word_of_int dividend)
        else if dividend = - (2 ^ 31) \<and> divisor = -1 then cpu_writeReg d 0
        else cpu_writeReg d (word_of_int (dividend smod divisor)))))"

definition execREMU :: "Word \<Rightarrow> (Machine, unit) prog" where
  "execREMU instr =
     (let d = rd instr in
      if d = 0 then ret ()
      else
        let s1 = rs1 instr;
            s2 = rs2 instr in
        bind (cpu_readReg s1) (\<lambda>val1.
        bind (cpu_readReg s2) (\<lambda>val2.
        let dividend = val1;
            divisor = val2 in
        if divisor = 0 then cpu_writeReg d dividend
        else cpu_writeReg d (dividend mod divisor))))"

end
