(* ===== verification/Alu.thy ===== *)
theory Alu
  imports ISA Executor
begin

text \<open>
  The arithmetic core of the executor agrees with the reference arithmetic:
  each word operation of \<^verbatim>\<open>rv32vm/Executor.cpp\<close> is the reference
  integer result modulo two to the 32.
\<close>

lemma unat_shamtR: "unat (shamtR y) = shift_amount y"
proof -
  have "shamtR y = take_bit 5 y"
    by (simp add: shamtR_def extractBits_eq)
  then have "unat (shamtR y) = take_bit 5 (unat y)"
    by (simp only: unsigned_take_bit_eq)
  then show ?thesis
    by (simp add: shift_amount_def take_bit_eq_mod nat_mod_distrib)
qed

lemma alu_add: "x + y = word_of_int (isa_alu R_ADD x y)" for x y :: Word
  by simp

lemma alu_sub: "x - y = word_of_int (isa_alu R_SUB x y)" for x y :: Word
  by simp

lemma alu_xor: "x XOR y = word_of_int (isa_alu R_XOR x y)" for x y :: Word
  by (simp flip: unsigned_xor_eq)

lemma alu_or: "x OR y = word_of_int (isa_alu R_OR x y)" for x y :: Word
  by (simp flip: unsigned_or_eq)

lemma alu_and: "x AND y = word_of_int (isa_alu R_AND x y)" for x y :: Word
  by (simp flip: unsigned_and_eq)

lemma alu_slt: "(if sint x < sint y then 1 else 0) = word_of_int (isa_alu R_SLT x y)" for x y :: Word
  by simp

lemma alu_sltu: "(if x < y then 1 else 0) = (word_of_int (isa_alu R_SLTU x y) :: Word)" for x y :: Word
  by (simp add: word_less_def)

lemma alu_sll: "push_bit (shift_amount y) x = word_of_int (isa_alu R_SLL x y)" for x y :: Word
  by (simp add: push_bit_eq_mult)

lemma uint_drop: "uint (drop_bit n w) = uint w div 2 ^ n"
proof -
  have "uint (drop_bit n w) = drop_bit n (uint w)"
    by (simp only: unsigned_drop_bit_eq) (simp only: bintr_uint [OF order_refl])
  then show ?thesis
    by (simp add: drop_bit_eq_div)
qed

lemma alu_srl: "drop_bit (shift_amount y) x = word_of_int (isa_alu R_SRL x y)" for x y :: Word
proof -
  have "uint (drop_bit (shift_amount y) x) = uint x div 2 ^ shift_amount y"
    by (rule uint_drop)
  then have "word_of_int (uint (drop_bit (shift_amount y) x)) = (word_of_int (isa_alu R_SRL x y) :: Word)"
    by (simp only: isa_alu.simps)
  then show ?thesis by (simp only: of_int_uint ucast_id)
qed

lemma alu_sra: "signed_drop_bit (shift_amount y) x = word_of_int (isa_alu R_SRA x y)" for x y :: Word
proof -
  have "sint (signed_drop_bit (shift_amount y) x) = sint x div 2 ^ shift_amount y"
    by (simp add: sint_signed_drop_bit_eq drop_bit_eq_div)
  then have "word_of_int (sint (signed_drop_bit (shift_amount y) x)) = (word_of_int (isa_alu R_SRA x y) :: Word)"
    by simp
  then show ?thesis by simp
qed

lemma alu_mul: "x * y = word_of_int (isa_alu R_MUL x y)" for x y :: Word
  by simp

lemma sint_range: "- (2 ^ 31) \<le> sint x" "sint x < 2 ^ 31" for x :: Word
  using sint_greater_eq [of x] sint_less [of x] by simp_all

lemma narrow_signed: "(ucast w :: Word) = word_of_int (sint w)" for w :: "64 word"
  by (rule bit_word_eqI) (simp add: bit_simps min_def)

lemma sint_64: "- (2 ^ 63) \<le> p \<Longrightarrow> p < 2 ^ 63 \<Longrightarrow> sint (word_of_int p :: 64 word) = p"
  by (simp add: sint_sbintrunc' signed_take_bit_int_eq_self)

lemma high_signed:
  assumes "- (2 ^ 63) \<le> p" "p < 2 ^ 63"
  shows "(ucast (signed_drop_bit 32 (word_of_int p :: 64 word)) :: Word) = word_of_int (p div 2 ^ 32)"
  using assms by (simp add: narrow_signed sint_signed_drop_bit_eq drop_bit_eq_div sint_64)

lemma product_range:
  fixes x y :: int
  assumes "- (2 ^ 31) \<le> x" "x < 2 ^ 31" "- (2 ^ 31) \<le> y" "y < 2 ^ 32"
  shows "- (2 ^ 63) \<le> x * y" "x * y < 2 ^ 63"
proof -
  have "\<bar>x\<bar> \<le> 2 ^ 31" "\<bar>y\<bar> < 2 ^ 32"
    using assms by (auto simp: abs_if)
  then have "\<bar>x\<bar> * \<bar>y\<bar> \<le> 2 ^ 31 * \<bar>y\<bar>" "2 ^ 31 * \<bar>y\<bar> < 2 ^ 31 * 2 ^ 32"
    by (auto intro: mult_right_mono)
  then have "\<bar>x * y\<bar> < 2 ^ 63"
    by (simp add: abs_mult)
  then show "- (2 ^ 63) \<le> x * y" "x * y < 2 ^ 63"
    by (simp_all add: abs_less_iff)
qed

lemma alu_mulh:
  "(ucast (signed_drop_bit 32 ((scast x :: 64 word) * scast y)) :: Word) = word_of_int (isa_alu R_MULH x y)"
  for x y :: Word
proof -
  have "(scast x :: 64 word) * scast y = word_of_int (sint x * sint y)"
    by simp
  moreover have "- (2 ^ 63) \<le> sint x * sint y" "sint x * sint y < 2 ^ 63"
    using product_range [of "sint x" "sint y"] sint_range [of x] sint_range [of y] by auto
  ultimately show ?thesis
    by (simp only: high_signed isa_alu.simps)
qed

lemma alu_mulhsu:
  "(ucast (signed_drop_bit 32 ((scast x :: 64 word) * ucast y)) :: Word) = word_of_int (isa_alu R_MULHSU x y)"
  for x y :: Word
proof -
  have "(scast x :: 64 word) * ucast y = word_of_int (sint x * uint y)"
    by simp
  moreover have "- (2 ^ 63) \<le> sint x * uint y" "sint x * uint y < 2 ^ 63"
    using product_range [of "sint x" "uint y"] sint_range [of x] uint_lt2p [of y] uint_ge_0 [of y]
    by auto
  ultimately show ?thesis
    by (simp only: high_signed isa_alu.simps)
qed

lemma alu_mulhu:
  "(ucast (drop_bit 32 ((ucast x :: 64 word) * ucast y)) :: Word) = word_of_int (isa_alu R_MULHU x y)"
  for x y :: Word
proof -
  have "uint x * uint y < 2 ^ 32 * 2 ^ 32"
    using uint_lt2p [of x] uint_lt2p [of y] by (intro mult_strict_mono) auto
  moreover have "uint (ucast w :: 64 word) = uint w" for w :: Word
    by (simp add: unsigned_ucast_eq take_bit_eq_mod uint_lt2p [THEN less_trans])
  ultimately have "uint ((ucast x :: 64 word) * ucast y) = uint x * uint y"
    by (simp add: uint_word_ariths)
  then have "uint (drop_bit 32 ((ucast x :: 64 word) * ucast y)) = uint x * uint y div 2 ^ 32"
    by (simp only: uint_drop)
  then show ?thesis
    by (metis isa_alu.simps(14) unsigned_of_int ucast_eq)
qed

section \<open>Division\<close>

lemma quot_sdiv: "y \<noteq> 0 \<Longrightarrow> quot x y = x sdiv y"
  by (simp add: quot_def signed_divide_int_def)

lemma remainder_smod: "y \<noteq> 0 \<Longrightarrow> remainder x y = x smod y"
  by (simp add: remainder_def quot_sdiv minus_mult_sdiv_eq_smod)

lemma quot_nonneg: "0 \<le> x \<Longrightarrow> 0 < y \<Longrightarrow> quot x y = x div y"
  by (cases "x = 0") (simp_all add: quot_def)

lemma remainder_nonneg: "0 \<le> x \<Longrightarrow> 0 < y \<Longrightarrow> remainder x y = x mod y"
  by (simp add: remainder_def quot_nonneg minus_mult_div_eq_mod)

lemma alu_div:
  "(if sint y = 0 then -1
    else if sint x = - (2 ^ 31) \<and> sint y = -1 then word_of_int (sint x)
    else word_of_int (sint x sdiv sint y)) = (word_of_int (isa_alu R_DIV x y) :: Word)"
  for x y :: Word
proof (cases "sint y = 0")
  case True
  then show ?thesis by (simp add: quot_def)
next
  case False
  then show ?thesis by (simp add: quot_sdiv signed_divide_int_def)
qed

lemma alu_rem:
  "(if sint y = 0 then word_of_int (sint x)
    else if sint x = - (2 ^ 31) \<and> sint y = -1 then 0
    else word_of_int (sint x smod sint y)) = (word_of_int (isa_alu R_REM x y) :: Word)"
  for x y :: Word
proof (cases "sint y = 0")
  case True
  then show ?thesis by (simp add: remainder_def)
next
  case False
  then show ?thesis by (simp add: remainder_smod) (auto simp: signed_modulo_int_def signed_divide_int_def)
qed

lemma alu_divu:
  "(if y = 0 then 0xFFFFFFFF else x div y) = (word_of_int (isa_alu R_DIVU x y) :: Word)"
  for x y :: Word
proof (cases "y = 0")
  case True
  then show ?thesis by (simp add: quot_def)
next
  case False
  then have "0 < uint y"
    using uint_ge_0 [of y] uint_0_iff [of y] by linarith
  then show ?thesis
    using False by (simp add: quot_nonneg word_div_def)
qed

lemma alu_remu:
  "(if y = 0 then x else x mod y) = (word_of_int (isa_alu R_REMU x y) :: Word)"
  for x y :: Word
proof (cases "y = 0")
  case True
  then show ?thesis by (simp add: remainder_def)
next
  case False
  then have "0 < uint y"
    using uint_ge_0 [of y] uint_0_iff [of y] by linarith
  then show ?thesis
    using False by (simp add: remainder_nonneg word_mod_def)
qed

text \<open>Quotient and remainder in words, for every divisor.\<close>

lemma quot_remainder_int: "y \<noteq> 0 \<Longrightarrow> quot x y * y + remainder x y = x"
  by (simp add: remainder_def)

lemma quot_remainder_signed:
  "word_of_int (quot (sint x) (sint y)) * y + word_of_int (remainder (sint x) (sint y)) = x" for x y :: Word
proof (cases "y = 0")
  case True
  then show ?thesis by (simp add: quot_def remainder_def)
next
  case False
  then have z: "sint y \<noteq> 0"
    by (simp add: signed_eq_0_iff)
  have "word_of_int (quot (sint x) (sint y) * sint y + remainder (sint x) (sint y)) = x"
    using quot_remainder_int [OF z] by simp
  then show ?thesis by simp
qed

lemma quot_remainder_unsigned:
  "word_of_int (quot (uint x) (uint y)) * y + word_of_int (remainder (uint x) (uint y)) = x" for x y :: Word
proof (cases "y = 0")
  case True
  then show ?thesis by (simp add: quot_def remainder_def)
next
  case False
  then have z: "uint y \<noteq> 0"
    by (simp add: unsigned_eq_0_iff)
  have "word_of_int (quot (uint x) (uint y) * uint y + remainder (uint x) (uint y)) = x"
    using quot_remainder_int [OF z] by simp
  then show ?thesis by simp
qed

end
