(* ===== verification/MachineStep.thy ===== *)
theory MachineStep
  imports Executor
begin

text \<open>
  Fetch, dispatch and step, \<^verbatim>\<open>rv32vm/Machine.cpp\<close>.  Each switch of
  \<^verbatim>\<open>Machine::execute\<close> is an if chain in the order of its cases, with
  \<^verbatim>\<open>Utils::illegal\<close> and the unknown-opcode exit as faults.
  \<^verbatim>\<open>dumpRegisters\<close> (console output) is not modelled.
\<close>

definition illegal :: "Word \<Rightarrow> string \<Rightarrow> (Machine, unit) prog" where
  "illegal instr why = fail (IllegalInstruction instr why)"

definition fetch :: "(Machine, Word) prog" where
  "fetch =
     bind (gets pc) (\<lambda>p.
     bind (zoom mmu mmu_update (MMU_fetch p)) (\<lambda>val.
     andthen cpu_takeFault (ret val)))"

definition execute_M :: "Word \<Rightarrow> (Machine, unit) prog" where
  "execute_M instr =
     (let f3 = func3 instr in
      if f3 = F3_MUL then execMUL instr
      else if f3 = F3_MULH then execMULH instr
      else if f3 = F3_MULHSU then execMULHSU instr
      else if f3 = F3_MULHU then execMULHU instr
      else if f3 = F3_DIV then execDIV instr
      else if f3 = F3_DIVU then execDIVU instr
      else if f3 = F3_REM then execREM instr
      else if f3 = F3_REMU then execREMU instr
      else illegal instr ''unknown funct3 for <opcode>'')"

definition execute_R :: "Word \<Rightarrow> (Machine, unit) prog" where
  "execute_R instr =
     (let f3 = func3 instr; f7 = func7 instr in
      if f7 = F7_M_TYPE then execute_M instr
      else if f3 = F3_ADD_SUB then
        (if f7 = F7_ADD_SRL then execADD instr
         else if f7 = F7_SUB_SRA then execSUB instr
         else illegal instr ''ADD/SUB requires funct7=0 or 0b0100000'')
      else if f3 = F3_SLL then
        (if f7 \<noteq> F7_ADD_SRL then illegal instr ''R-type SLL requires funct7=0'' else execSLL instr)
      else if f3 = F3_SLT then
        (if f7 \<noteq> F7_ADD_SRL then illegal instr ''R-type SLT requires funct7=0'' else execSLT instr)
      else if f3 = F3_SLTU then
        (if f7 \<noteq> F7_ADD_SRL then illegal instr ''R-type SLTU requires funct7=0'' else execSLTU instr)
      else if f3 = F3_XOR then
        (if f7 \<noteq> F7_ADD_SRL then illegal instr ''R-type XOR requires funct7=0'' else execXOR instr)
      else if f3 = F3_SRL_SRA then
        (if f7 = F7_ADD_SRL then execSRL instr
         else if f7 = F7_SUB_SRA then execSRA instr
         else illegal instr ''SRL/SRA requires funct7=0 or 0b0100000'')
      else if f3 = F3_OR then
        (if f7 \<noteq> F7_ADD_SRL then illegal instr ''R-type OR requires funct7=0'' else execOR instr)
      else if f3 = F3_AND then
        (if f7 \<noteq> F7_ADD_SRL then illegal instr ''R-type AND requires funct7=0'' else execAND instr)
      else illegal instr ''unknown funct3 for <opcode>'')"

definition execute_I :: "Word \<Rightarrow> (Machine, unit) prog" where
  "execute_I instr =
     (let f3 = func3 instr; f7 = func7 instr in
      if f3 = F3_ADD_SUB then execADDI instr
      else if f3 = F3_SLL then
        (if f7 \<noteq> F7_ADD_SRL then illegal instr ''SLLI requires imm[11:5]=0'' else execSLLI instr)
      else if f3 = F3_SLT then execSLTI instr
      else if f3 = F3_SLTU then execSLTIU instr
      else if f3 = F3_XOR then execXORI instr
      else if f3 = F3_SRL_SRA then
        (if f7 = F7_ADD_SRL then execSRLI instr
         else if f7 = F7_SUB_SRA then execSRAI instr
         else illegal instr ''SRLI/SRAI requires imm[11:5]=0 or 0b0100000'')
      else if f3 = F3_OR then execORI instr
      else if f3 = F3_AND then execANDI instr
      else illegal instr ''unknown funct3 for I-type'')"

definition execute_STORE :: "Word \<Rightarrow> (Machine, unit) prog" where
  "execute_STORE instr =
     (let f3 = func3 instr in
      if f3 = F3_SB then execSB instr
      else if f3 = F3_SH then execSH instr
      else if f3 = F3_SW then execSW instr
      else illegal instr ''unknown funct3 for STORE'')"

definition execute_B :: "Word \<Rightarrow> (Machine, unit) prog" where
  "execute_B instr =
     (let f3 = func3 instr in
      if f3 = F3_BEQ then execBEQ instr
      else if f3 = F3_BNE then execBNE instr
      else if f3 = F3_BLT then execBLT instr
      else if f3 = F3_BGE then execBGE instr
      else if f3 = F3_BLTU then execBLTU instr
      else if f3 = F3_BGEU then execBGEU instr
      else illegal instr ''unknown funct3 for BRANCH'')"

definition execute_LOAD :: "Word \<Rightarrow> (Machine, unit) prog" where
  "execute_LOAD instr =
     (let f3 = func3 instr in
      if f3 = F3_LB then execLB instr
      else if f3 = F3_LH then execLH instr
      else if f3 = F3_LW then execLW instr
      else if f3 = F3_LBU then execLBU instr
      else if f3 = F3_LHU then execLHU instr
      else illegal instr ''unknown funct3 for LOAD'')"

definition execute_SYSTEM :: "Word \<Rightarrow> (Machine, unit) prog" where
  "execute_SYSTEM instr =
     (let f3 = func3 instr in
      if f3 = F3_ECALL_EBREAK then
        (let imm = immI instr in
         if imm = 0 then execECALL
         else illegal instr ''SYSTEM imm must be 0 (ECALL)'')
      else illegal instr ''CSR instruction not implemented'')"

definition execute_MISC_MEM :: "Word \<Rightarrow> (Machine, unit) prog" where
  "execute_MISC_MEM instr =
     (let f3 = func3 instr in
      if f3 = F3_FENCE then ret ()
      else if f3 = F3_FENCE_I then ret ()
      else illegal instr ''unknown funct3 for MISC_MEM'')"

definition execute :: "Word \<Rightarrow> (Machine, unit) prog" where
  "execute instr =
     (let op = opcode instr in
      if op = Opcode_R_Type then execute_R instr
      else if op = Opcode_I_Type then execute_I instr
      else if op = Opcode_STORE then execute_STORE instr
      else if op = Opcode_B_Type then execute_B instr
      else if op = Opcode_LOAD then execute_LOAD instr
      else if op = Opcode_LUI then execLUI instr
      else if op = Opcode_AUIPC then execAUIPC instr
      else if op = Opcode_JAL then execJAL instr
      else if op = Opcode_JALR then execJALR instr
      else if op = Opcode_SYSTEM then execute_SYSTEM instr
      else if op = Opcode_MISC_MEM then execute_MISC_MEM instr
      else fail (UnknownOpcode op))"

definition step :: "(Machine, unit) prog" where
  "step =
     andthen cpu_clearTrap
       (bind fetch (\<lambda>instr.
        bind cpu_hasTrap (\<lambda>t.
        if t then ret () else execute instr)))"

end
