(* ===== verification/Refinement.thy ===== *)
theory Refinement
  imports Alu ISA MachineStep
begin

text \<open>
  The executor implements the reference instructions: every encoded instruction,
  decoded, dispatched and executed by the machine, does exactly the reference step, but for a load
  into register 0, which the machine passes over.
  The methods of \<^verbatim>\<open>rv32vm/Executor.cpp\<close> fall into a few shapes
  (one source and an immediate, two sources, load, store, branch); each shape is
  proved once and each method is shown to be an instance.
\<close>

section \<open>The shapes of the executor's methods\<close>

lemma reg_fields [simp]: "unat (rd w) < 32" "unat (rs1 w) < 32" "unat (rs2 w) < 32"
  using extractBits_less [of 7 11 w] extractBits_less [of 15 19 w] extractBits_less [of 20 24 w]
  by (simp_all add: rd_def rs1_def rs2_def)

definition one_source :: "Word \<Rightarrow> (Word \<Rightarrow> Word) \<Rightarrow> (Machine, unit) prog" where
  "one_source instr f =
     (if rd instr = 0 then ret () else bind (cpu_readReg (rs1 instr)) (\<lambda>x. cpu_writeReg (rd instr) (f x)))"

definition two_source :: "Word \<Rightarrow> (Word \<Rightarrow> Word \<Rightarrow> Word) \<Rightarrow> (Machine, unit) prog" where
  "two_source instr f =
     (if rd instr = 0 then ret () else bind (cpu_readReg (rs1 instr)) (\<lambda>x.
       bind (cpu_readReg (rs2 instr)) (\<lambda>y. cpu_writeReg (rd instr) (f x y))))"

definition load_shape :: "Word \<Rightarrow> nat \<Rightarrow> (Word \<Rightarrow> Word) \<Rightarrow> (Machine, unit) prog" where
  "load_shape instr n ext =
     (if rd instr = 0 then ret () else bind (cpu_readReg (rs1 instr)) (\<lambda>x.
       bind (cpu_loadVirtualMemory (x + immI instr) n) (\<lambda>v.
       bind cpu_hasTrap (\<lambda>t. if t then ret () else cpu_writeReg (rd instr) (ext v)))))"

definition store_shape :: "Word \<Rightarrow> nat \<Rightarrow> (Machine, unit) prog" where
  "store_shape instr n =
     bind (cpu_readReg (rs1 instr)) (\<lambda>x. bind (cpu_readReg (rs2 instr)) (\<lambda>v.
       cpu_storeVirtualMemory (x + immS instr) n v))"

definition branch_shape :: "Word \<Rightarrow> (Word \<Rightarrow> Word \<Rightarrow> bool) \<Rightarrow> (Machine, unit) prog" where
  "branch_shape instr p =
     bind (cpu_readReg (rs1 instr)) (\<lambda>x. bind (cpu_readReg (rs2 instr)) (\<lambda>y.
       if p x y then modify (\<lambda>c. c\<lparr>pc := pc c - 4 + immB instr\<rparr>) else ret ()))"

lemma one_source_run:
  "cpu_ok c \<Longrightarrow> one_source w f c = Inr ((), set_reg c (rd w) (f (reg_val c (rs1 w))))"
  by (simp add: one_source_def cpu_readReg_eq cpu_writeReg_eq ret_run)

lemma two_source_run:
  "cpu_ok c \<Longrightarrow>
     two_source w f c = Inr ((), set_reg c (rd w) (f (reg_val c (rs1 w)) (reg_val c (rs2 w))))"
  by (simp add: two_source_def cpu_readReg_eq cpu_writeReg_eq ret_run)

lemma branch_shape_run:
  "cpu_ok c \<Longrightarrow> branch_shape w p c =
     Inr ((), if p (reg_val c (rs1 w)) (reg_val c (rs2 w)) then c\<lparr>pc := pc c - 4 + immB w\<rparr> else c)"
  by (simp add: branch_shape_def cpu_readReg_eq ret_run modify_run)

lemmas shape_defs = one_source_def two_source_def load_shape_def store_shape_def branch_shape_def

lemma take_branch: "bind (gets (\<lambda>c. pc c - 4 + k)) cpu_setPC = modify (\<lambda>c. c\<lparr>pc := pc c - 4 + k\<rparr>)"
  by (simp add: fun_eq_iff run cpu_setPC_def)

text \<open>Immediate instructions.\<close>

lemma exec_imm:
  "execADDI w = one_source w (\<lambda>x. x + immI w)"
  "execSLTI w = one_source w (\<lambda>x. if sint x < sint (immI w) then 1 else 0)"
  "execSLTIU w = one_source w (\<lambda>x. if x < immI w then 1 else 0)"
  "execXORI w = one_source w (\<lambda>x. x XOR immI w)"
  "execORI w = one_source w (\<lambda>x. x OR immI w)"
  "execANDI w = one_source w (\<lambda>x. x AND immI w)"
  "execSLLI w = one_source w (push_bit (unat (shamtI w)))"
  "execSRLI w = one_source w (drop_bit (unat (shamtI w)))"
  "execSRAI w = one_source w (signed_drop_bit (unat (shamtI w)))"
  by (simp_all only: one_source_def Let_def execADDI_def execSLTI_def execSLTIU_def execXORI_def
      execORI_def execANDI_def execSLLI_def execSRLI_def execSRAI_def)

text \<open>Register instructions.\<close>

lemma exec_reg:
  "execADD w = two_source w (\<lambda>x y. x + y)"
  "execSUB w = two_source w (\<lambda>x y. x - y)"
  "execSLL w = two_source w (\<lambda>x y. push_bit (unat (shamtR y)) x)"
  "execSLT w = two_source w (\<lambda>x y. if sint x < sint y then 1 else 0)"
  "execSLTU w = two_source w (\<lambda>x y. if x < y then 1 else 0)"
  "execXOR w = two_source w (\<lambda>x y. x XOR y)"
  "execSRL w = two_source w (\<lambda>x y. drop_bit (unat (shamtR y)) x)"
  "execSRA w = two_source w (\<lambda>x y. signed_drop_bit (unat (shamtR y)) x)"
  "execOR w = two_source w (\<lambda>x y. x OR y)"
  "execAND w = two_source w (\<lambda>x y. x AND y)"
  "execMUL w = two_source w (\<lambda>x y. x * y)"
  "execMULH w = two_source w (\<lambda>x y. ucast (signed_drop_bit 32 ((scast x :: 64 word) * scast y)))"
  "execMULHSU w = two_source w (\<lambda>x y. ucast (signed_drop_bit 32 ((scast x :: 64 word) * ucast y)))"
  "execMULHU w = two_source w (\<lambda>x y. ucast (drop_bit 32 ((ucast x :: 64 word) * ucast y)))"
  by (simp_all only: two_source_def Let_def execADD_def execSUB_def execSLL_def execSLT_def execSLTU_def
      execXOR_def execSRL_def execSRA_def execOR_def execAND_def execMUL_def execMULH_def
      execMULHSU_def execMULHU_def)

lemma exec_div:
  "execDIV w = two_source w (\<lambda>x y. if sint y = 0 then -1
     else if sint x = - (2 ^ 31) \<and> sint y = -1 then word_of_int (sint x) else word_of_int (sint x sdiv sint y))"
  "execDIVU w = two_source w (\<lambda>x y. if y = 0 then 0xFFFFFFFF else x div y)"
  "execREM w = two_source w (\<lambda>x y. if sint y = 0 then word_of_int (sint x)
     else if sint x = - (2 ^ 31) \<and> sint y = -1 then 0 else word_of_int (sint x smod sint y))"
  "execREMU w = two_source w (\<lambda>x y. if y = 0 then x else x mod y)"
  by (simp_all only: two_source_def Let_def execDIV_def execDIVU_def execREM_def execREMU_def
      if_distrib [of "cpu_writeReg d" for d])

lemma exec_mem:
  "execLB w = load_shape w 1 (\<lambda>v. scast (ucast v :: 8 word))"
  "execLH w = load_shape w 2 (\<lambda>v. scast (ucast v :: 16 word))"
  "execLW w = load_shape w 4 (\<lambda>v. v)"
  "execLBU w = load_shape w 1 (\<lambda>v. v AND 0xFF)"
  "execLHU w = load_shape w 2 (\<lambda>v. v AND 0xFFFF)"
  "execSB w = store_shape w 1"
  "execSH w = store_shape w 2"
  "execSW w = store_shape w 4"
  by (simp_all only: load_shape_def store_shape_def Let_def execLB_def execLH_def execLW_def execLBU_def
      execLHU_def execSB_def execSH_def execSW_def)

lemma exec_branch:
  "execBEQ w = branch_shape w (=)"
  "execBNE w = branch_shape w (\<noteq>)"
  "execBLT w = branch_shape w (\<lambda>x y. sint x < sint y)"
  "execBGE w = branch_shape w (\<lambda>x y. sint y \<le> sint x)"
  "execBLTU w = branch_shape w (<)"
  "execBGEU w = branch_shape w (\<lambda>x y. y \<le> x)"
  by (simp_all only: branch_shape_def Let_def take_branch execBEQ_def execBNE_def execBLT_def execBGE_def
      execBLTU_def execBGEU_def)

lemmas exec_shapes = exec_imm exec_reg exec_div exec_mem exec_branch

section \<open>Memory accesses\<close>

lemma granted_Some:
  "granted c a w = Some pte \<Longrightarrow> current_pte (mmu c) a = Some pte \<and> allows pte w False"
  by (auto simp: granted_def split: option.splits if_splits)

lemma granted_None:
  "granted c a w = None \<Longrightarrow> current_pte (mmu c) a = Some pte \<Longrightarrow> \<not> allows pte w False"
  by (auto simp: granted_def split: option.splits if_splits)

lemma takeFault_none: "\<not> mmu_fault (mmu c) \<Longrightarrow> cpu_takeFault c = Inr ((), c)"
  by (simp add: cpu_takeFault_def run)

text \<open>A fault is handed over to the trap and leaves the rest of the machine as it was.\<close>

lemma takeFault_some:
  assumes "mmu_ok (mmu c)"
  shows "cpu_takeFault (c\<lparr>mmu := (mmu c)\<lparr>mmu_fault := True, faultAddr := a\<rparr>\<rparr>) = Inr ((), page_fault c a)"
proof -
  have "(mmu c)\<lparr>mmu_fault := False, faultAddr := 0\<rparr> = mmu c"
    using assms by (simp add: mmu_ok_def)
  then show ?thesis
    by (simp add: cpu_takeFault_def cpu_setTrap_def MMU_clearFault_def page_fault_def run)
qed

lemma granted_frame:
  "cpu_ok c \<Longrightarrow> granted c a w = Some pte \<Longrightarrow> unat (ppn pte) < 16"
  using granted_Some [of c a w pte] current_pte_frame [of "mmu c" a pte]
  by (auto simp: cpu_ok_def mmu_ok_def allows_def)

lemma load_granted:
  assumes "cpu_ok c" "vmEnabled (mmu c)" "granted c a False = Some pte" "0 < n"
    "page_offset a + n \<le> 4096"
  shows "cpu_loadVirtualMemory a n c =
    Inr (bytes_word (take n (drop (phys_at pte a) (memory (mmu c)))), c\<lparr>mmu := touch (mmu c) a False\<rparr>)"
proof -
  have "phys_at pte a + n \<le> unat MEMORY_SIZE"
    using phys_at_bound granted_frame assms by blast
  then have "MMU_loadVirtualMemory a n (mmu c) =
      Inr (bytes_word (take n (drop (phys_at pte a) (memory (mmu c)))), touch (mmu c) a False)"
    using assms granted_Some virtual_load cpu_ok_def by blast
  then show ?thesis
    using assms by (simp add: cpu_loadVirtualMemory_def takeFault_none ret_run cpu_ok_def mmu_ok_def)
qed

lemma store_granted:
  assumes "cpu_ok c" "vmEnabled (mmu c)" "granted c a True = Some pte" "0 < n"
    "page_offset a + n \<le> 4096"
  shows "cpu_storeVirtualMemory a n v c = Inr ((), c\<lparr>mmu := (touch (mmu c) a True)\<lparr>memory :=
      mem_splice (memory (mmu c)) (phys_at pte a) (word_bytes n v)\<rparr>\<rparr>)"
proof -
  have "phys_at pte a + n \<le> unat MEMORY_SIZE"
    using phys_at_bound granted_frame assms by blast
  then have "MMU_storeVirtualMemory a n v (mmu c) = Inr ((), (touch (mmu c) a True)\<lparr>memory :=
      mem_splice (memory (mmu c)) (phys_at pte a) (word_bytes n v)\<rparr>)"
    using assms granted_Some virtual_store cpu_ok_def by blast
  then show ?thesis
    using assms by (simp add: cpu_storeVirtualMemory_def takeFault_none ret_run cpu_ok_def mmu_ok_def)
qed

lemma load_refused:
  assumes "cpu_ok c" "vmEnabled (mmu c)" "granted c a False = None"
  shows "cpu_loadVirtualMemory a n c = Inr (0, page_fault c a)"
proof -
  have "MMU_loadVirtualMemory a n (mmu c) = Inr (0, (mmu c)\<lparr>mmu_fault := True, faultAddr := a\<rparr>)"
    using virtual_miss(1) [OF assms(2) granted_None [OF assms(3)]] by simp
  then show ?thesis
    using assms takeFault_some [of c a] by (simp add: cpu_loadVirtualMemory_def ret_run cpu_ok_def)
qed

lemma store_refused:
  assumes "cpu_ok c" "vmEnabled (mmu c)" "granted c a True = None"
  shows "cpu_storeVirtualMemory a n v c = Inr ((), page_fault c a)"
proof -
  have "MMU_storeVirtualMemory a n v (mmu c) = Inr ((), (mmu c)\<lparr>mmu_fault := True, faultAddr := a\<rparr>)"
    using virtual_miss(2) [OF assms(2) granted_None [OF assms(3)]] by simp
  then show ?thesis
    using assms takeFault_some [of c a] by (simp add: cpu_storeVirtualMemory_def ret_run cpu_ok_def)
qed

section \<open>Dispatch\<close>

lemmas dispatch = execute_def execute_R_def execute_M_def execute_I_def execute_STORE_def execute_B_def
  execute_LOAD_def execute_SYSTEM_def execute_MISC_MEM_def

lemmas alu_reference = alu_add alu_sub alu_sll alu_slt alu_sltu alu_xor alu_srl alu_sra alu_or alu_and
  alu_mul alu_mulh alu_mulhsu alu_mulhu alu_div alu_divu alu_rem alu_remu

lemma execute_Op:
  "execute (encode (Op r d a b)) =
     two_source (encode (Op r d a b)) (\<lambda>x y. word_of_int (isa_alu r x y))"
  by (cases r; simp add: dispatch exec_reg exec_div unat_shamtR flip: alu_reference del: isa_alu.simps)

lemma execute_OpImm:
  "execute (encode (OpImm i d a imm)) =
     one_source (encode (OpImm i d a imm)) (\<lambda>x. word_of_int (isa_alu (isa_iop i) x (scast imm)))"
  by (cases i; simp add: dispatch exec_imm flip: alu_reference del: isa_alu.simps)

lemma uint_R: "uint (R k) = uint k"
  by (rule uint_up_ucast) (simp add: is_up)

lemma unat_R: "unat (R k) = unat k"
  by (simp only: unat_eq_nat_uint uint_R)

lemma unat_R_less [simp]: "unat (R k) < 32"
  using unsigned_less [of k, where 'a = nat] by (simp add: unat_R)

lemma shift_amount_5: "shift_amount (R k) = unat k"
proof -
  have "uint k < 32"
    using uint_lt2p [of k] by simp
  then show ?thesis
    by (simp add: shift_amount_def uint_R flip: unat_eq_nat_uint)
qed

lemma execute_Shift:
  "execute (encode (Shift s d a k)) =
     one_source (encode (Shift s d a k)) (\<lambda>x. word_of_int (isa_alu (isa_shop s) x (ucast k)))"
  by (cases s; simp add: dispatch exec_imm shift_amount_5 unat_R flip: alu_reference del: isa_alu.simps)

lemma load_extend_word:
  "(scast (ucast v :: 8 word) :: Word) = word_of_int (load_extend L_LB v)"
  "(scast (ucast v :: 16 word) :: Word) = word_of_int (load_extend L_LH v)"
  "v = word_of_int (load_extend L_LW v)"
  "v AND 0xFF = word_of_int (load_extend L_LBU v)"
  "v AND 0xFFFF = word_of_int (load_extend L_LHU v)"
proof -
  show "(scast (ucast v :: 8 word) :: Word) = word_of_int (load_extend L_LB v)"
    by (simp flip: ucast_eq)
  show "(scast (ucast v :: 16 word) :: Word) = word_of_int (load_extend L_LH v)"
    by (simp flip: ucast_eq)
  show "v = word_of_int (load_extend L_LW v)"
    by simp
  have m: "0xFF = (mask 8 :: Word)" "0xFFFF = (mask 16 :: Word)"
    by (simp_all add: mask_eq_decr_exp)
  show "v AND 0xFF = word_of_int (load_extend L_LBU v)" "v AND 0xFFFF = word_of_int (load_extend L_LHU v)"
    by (simp_all only: m and_mask_bintr load_extend.simps take_bit_eq_mod)
qed

lemma execute_Load:
  "execute (encode (Load l d a imm)) =
     load_shape (encode (Load l d a imm)) (load_width l) (\<lambda>v. word_of_int (load_extend l v))"
  by (cases l; simp add: dispatch exec_mem flip: load_extend_word del: load_extend.simps)

lemma execute_Store:
  "execute (encode (Store s a b imm)) = store_shape (encode (Store s a b imm)) (store_width s)"
  by (cases s; simp add: dispatch exec_mem)

lemma isa_cond_word:
  "isa_cond B_BLTU x y \<longleftrightarrow> x < y" "isa_cond B_BGEU x y \<longleftrightarrow> y \<le> x"
  by (simp_all add: word_less_def word_le_def)

lemma execute_Branch:
  "execute (encode (Branch k a b off)) = branch_shape (encode (Branch k a b off)) (isa_cond k)"
  by (cases k; simp add: dispatch exec_branch fun_eq_iff branch_shape_def isa_cond_word
      del: isa_cond.simps(5,6))

section \<open>The refinement\<close>

text \<open>
  What the main loop does with the machine after a step (\<^verbatim>\<open>RV32UMOS::start\<close>):
  without a trap it moves to the next instruction.
\<close>

definition retire :: "(Machine, unit) prog" where
  "retire = bind cpu_hasTrap (\<lambda>t. if t then ret () else cpu_advancePC)"

lemma retire_run:
  "retire c = Inr ((), if trap_type (trap c) = NoTrap then next_pc c else c)"
  by (simp add: retire_def cpu_hasTrap_def cpu_advancePC_def next_pc_def run)

lemma hasTrap_run: "cpu_hasTrap c = Inr (trap_type (trap c) \<noteq> NoTrap, c)"
  by (simp add: cpu_hasTrap_def run)

lemma retire_page_fault [simp]: "retire (page_fault c a) = Inr ((), page_fault c a)"
  by (simp add: retire_run page_fault_def)

lemma retire_no_trap: "trap c = no_trap \<Longrightarrow> retire c = Inr ((), next_pc c)"
  by (simp add: retire_run no_trap_def)

lemma page_fault_simps [simp]: "trap_type (trap (page_fault c a)) = PageFaultTrap"
  by (simp add: page_fault_def)

lemma load_width_pos [simp]: "0 < load_width l"
  by (cases l) simp_all

lemma store_width_pos [simp]: "0 < store_width s"
  by (cases s) simp_all

lemma step_Load:
  assumes "cpu_ok c" "vmEnabled (mmu c)" "trap c = no_trap" "access_in_page (Load l d a imm) c"
  shows "andthen (execute (encode (Load l d a imm))) retire c =
    Inr ((), if d = 0 then next_pc c else isa_step (Load l d a imm) c)"
proof (cases "d = 0")
  case True
  then show ?thesis
    using assms by (simp only: execute_Load) (simp add: load_shape_def run retire_no_trap)
next
  case False
  have d: "R d \<noteq> 0"
    using False by (metis unat_R unat_eq_zero)
  let ?a = "reg_val c (R a) + scast imm"
  show ?thesis
  proof (cases "granted c ?a False")
    case None
    then show ?thesis
      using assms False d load_refused [of c ?a "load_width l"]
      by (simp only: execute_Load andthen_run)
         (simp add: load_shape_def cpu_readReg_eq hasTrap_run ret_run isa_load_def)
  next
    case (Some pte)
    let ?c = "c\<lparr>mmu := touch (mmu c) ?a False\<rparr>"
    have ok: "cpu_ok ?c"
      using assms(1) by (simp add: cpu_ok_def mmu_ok_touch)
    show ?thesis
      using assms False d Some ok load_granted [of c ?a pte "load_width l"]
      by (simp only: execute_Load andthen_run)
         (simp add: load_shape_def cpu_readReg_eq hasTrap_run isa_load_def no_trap_def
           cpu_writeReg_eq retire_no_trap isa_set_def Let_def)
  qed
qed

lemma step_Store:
  assumes "cpu_ok c" "vmEnabled (mmu c)" "trap c = no_trap" "access_in_page (Store s a b imm) c"
  shows "andthen (execute (encode (Store s a b imm))) retire c = Inr ((), isa_step (Store s a b imm) c)"
proof -
  let ?a = "reg_val c (R a) + scast imm"
  show ?thesis
  proof (cases "granted c ?a True")
    case None
    then show ?thesis
      using assms store_refused [of c ?a "store_width s"]
      by (simp only: execute_Store andthen_run)
         (simp add: store_shape_def cpu_readReg_eq isa_store_def)
  next
    case (Some pte)
    then show ?thesis
      using assms store_granted [of c ?a pte "store_width s"]
      by (simp only: execute_Store andthen_run)
         (simp add: store_shape_def cpu_readReg_eq isa_store_def retire_no_trap)
  qed
qed

text \<open>Targets of jumps and branches.\<close>

lemma target_relative:
  "p + push_bit 1 (scast off) = word_of_int (uint p + 2 * sint off)"
  for p :: Word and off :: "'a::len word"
  by (simp add: push_bit_eq_mult)

lemma target_even:
  "(x + scast imm) AND NOT 1 = (word_of_int (let t = uint x + sint imm in t - t mod 2) :: Word)"
  for x :: Word and imm :: "12 word"
proof -
  have "t AND NOT 1 = t - t mod 2" for t :: int
  proof -
    have "t - (t AND 1) = t AND NOT (t AND 1)"
      by (rule disjunctive_diff) (simp add: bit_and_iff)
    also have "\<dots> = t AND NOT 1"
      by (rule bit_eqI) (auto simp: bit_simps)
    finally show ?thesis
      by (simp add: and_one_eq)
  qed
  then have "word_of_int (let t = uint x + sint imm in t - t mod 2) =
      (word_of_int ((uint x + sint imm) AND NOT 1) :: Word)"
    by (simp add: Let_def)
  also have "\<dots> = (x + scast imm) AND NOT 1"
    by (simp add: of_int_and_eq of_int_not_eq)
  finally show ?thesis by simp
qed

lemma step_Branch:
  assumes "cpu_ok c" "trap c = no_trap"
  shows "andthen (execute (encode (Branch k a b off))) retire c = Inr ((), isa_step (Branch k a b off) c)"
  using assms target_relative [of "pc c" off]
  by (simp only: execute_Branch andthen_run branch_shape_run)
     (simp add: retire_no_trap goto_def next_pc_def add.commute)

lemma step_Jal:
  assumes "cpu_ok c" "trap c = no_trap"
  shows "andthen (execute (encode (Jal d off))) retire c = Inr ((), isa_step (Jal d off) c)"
proof -
  have e: "execute (encode (Jal d off)) = execJAL (encJ 0x6F d off)"
    by (simp add: execute_def)
  have "execJAL (encJ 0x6F d off) c =
      Inr ((), (set_reg c (R d) (pc c + 4))\<lparr>pc := pc c + push_bit 1 (scast off) - 4\<rparr>)"
    using assms(1) by (simp add: execJAL_def Let_def run cpu_setPC_def cpu_writeReg_eq)
  then show ?thesis
    using assms target_relative [of "pc c" off]
    by (simp only: e andthen_run)
       (simp add: retire_no_trap goto_def next_pc_def isa_set_def add.commute)
qed

lemma step_Jalr:
  assumes "cpu_ok c" "trap c = no_trap"
  shows "andthen (execute (encode (Jalr d a imm))) retire c = Inr ((), isa_step (Jalr d a imm) c)"
proof -
  have e: "execute (encode (Jalr d a imm)) = execJALR (encI 0x67 0 d a imm)"
    by (simp add: execute_def)
  have "execJALR (encI 0x67 0 d a imm) c =
      Inr ((), (set_reg c (R d) (pc c + 4))\<lparr>pc := ((reg_val c (R a) + scast imm) AND NOT 1) - 4\<rparr>)"
    using assms(1) by (simp add: execJALR_def Let_def run cpu_setPC_def cpu_readReg_eq cpu_writeReg_eq)
  then show ?thesis
    using assms target_even [of "reg_val c (R a)" imm]
    by (simp only: e andthen_run)
       (simp add: retire_no_trap goto_def next_pc_def isa_set_def add.commute Let_def)
qed

lemma step_upper:
  assumes "cpu_ok c" "trap c = no_trap"
  shows "andthen (execute (encode (Lui d up))) retire c = Inr ((), isa_step (Lui d up) c)"
    and "andthen (execute (encode (Auipc d up))) retire c = Inr ((), isa_step (Auipc d up) c)"
proof -
  have e: "execute (encode (Lui d up)) = execLUI (encU 0x37 d up)"
    "execute (encode (Auipc d up)) = execAUIPC (encU 0x17 d up)"
    by (simp_all add: execute_def)
  have u: "push_bit 12 (ucast up) = (word_of_int (uint up * 2 ^ 12) :: Word)"
    by (simp add: push_bit_eq_mult)
  have "execLUI (encU 0x37 d up) c = Inr ((), set_reg c (R d) (push_bit 12 (ucast up)))"
    "execAUIPC (encU 0x17 d up) c = Inr ((), set_reg c (R d) (pc c + push_bit 12 (ucast up)))"
    using assms(1) by (simp_all add: execLUI_def execAUIPC_def Let_def run cpu_getPC_def cpu_writeReg_eq)
  then show "andthen (execute (encode (Lui d up))) retire c = Inr ((), isa_step (Lui d up) c)"
    "andthen (execute (encode (Auipc d up))) retire c = Inr ((), isa_step (Auipc d up) c)"
    using assms by (simp_all only: e andthen_run) (simp_all add: u retire_no_trap isa_set_def)
qed

lemma step_Ecall:
  assumes "cpu_ok c" "trap c = no_trap"
  shows "andthen (execute (encode Ecall)) retire c = Inr ((), isa_step Ecall c)"
proof -
  have "execute (encode Ecall) = execECALL"
    by (simp add: execute_def execute_SYSTEM_def)
  then show ?thesis
    using assms(1)
    by (simp only: andthen_run)
       (simp add: execECALL_def cpu_readReg_eq known_syscalls cpu_setTrap_def modify_run
         retire_run Let_def del: not_None_eq)
qed

lemma step_Fence:
  assumes "trap c = no_trap"
  shows "andthen (execute (encode Fence)) retire c = Inr ((), isa_step Fence c)"
    and "andthen (execute (encode FenceI)) retire c = Inr ((), isa_step FenceI c)"
  using assms
  by (simp_all only: andthen_run)
     (simp_all add: execute_def execute_MISC_MEM_def run retire_no_trap)

lemma step_alu:
  assumes "cpu_ok c" "trap c = no_trap"
  shows "andthen (execute (encode (Op r d a b))) retire c = Inr ((), isa_step (Op r d a b) c)"
    and "andthen (execute (encode (OpImm i d a imm))) retire c = Inr ((), isa_step (OpImm i d a imm) c)"
    and "andthen (execute (encode (Shift s d a k))) retire c = Inr ((), isa_step (Shift s d a k) c)"
  using assms
  by (simp_all only: andthen_run execute_Op execute_OpImm execute_Shift one_source_run two_source_run)
     (simp_all add: retire_no_trap isa_set_def)

lemma instruction_step:
  assumes "cpu_ok c" "vmEnabled (mmu c)" "trap c = no_trap" "access_in_page i c"
  shows "andthen (execute (encode i)) retire c = Inr ((), if idle_load i then next_pc c else isa_step i c)"
  using assms by (cases i) (simp_all only: step_alu step_Load step_Store step_Branch step_upper
      step_Jal step_Jalr step_Ecall step_Fence idle_load_simps if_False)

section \<open>Fetch\<close>

definition fetchable :: "Machine \<Rightarrow> PTE option" where
  "fetchable c =
     (case current_pte (mmu c) (pc c) of None \<Rightarrow> None
      | Some pte \<Rightarrow> if allows pte False True then Some pte else None)"

text \<open>The machine after a successful fetch: no trap pending, the page marked referenced.\<close>

definition fetched :: "Machine \<Rightarrow> Machine" where
  "fetched c = c\<lparr>trap := no_trap, mmu := touch (mmu c) (pc c) False\<rparr>"

lemma fetched_simps [simp]:
  "pc (fetched c) = pc c" "regs (fetched c) = regs c" "trap (fetched c) = no_trap"
  "mmu (fetched c) = touch (mmu c) (pc c) False" "reg_val (fetched c) i = reg_val c i"
  by (simp_all add: fetched_def reg_val_def)

lemma cpu_ok_fetched: "cpu_ok c \<Longrightarrow> cpu_ok (fetched c)"
  by (simp add: cpu_ok_def mmu_ok_touch)

lemma fetchable_Some:
  "fetchable c = Some pte \<longleftrightarrow> current_pte (mmu c) (pc c) = Some pte \<and> allows pte False True"
  by (auto simp: fetchable_def split: option.splits if_splits)

lemma fetch_granted:
  assumes "cpu_ok c" "vmEnabled (mmu c)" "fetchable c = Some pte" "page_offset (pc c) + 4 \<le> 4096"
    and "trap c = no_trap"
  shows "fetch c = Inr (bytes_word (take 4 (drop (phys_at pte (pc c)) (memory (mmu c)))), fetched c)"
proof -
  have pte: "current_pte (mmu c) (pc c) = Some pte" "allows pte False True"
    using assms(3) by (simp_all add: fetchable_Some)
  then have frame: "unat (ppn pte) < 16"
    using assms(1) current_pte_frame [of "mmu c" "pc c" pte] by (auto simp: cpu_ok_def mmu_ok_def allows_def)
  have "Memory_load (phys pte (pc c)) 4 (memory (mmu c)) =
      Inr (bytes_word (take 4 (drop (phys_at pte (pc c)) (memory (mmu c)))), memory (mmu c))"
    using assms(1) phys_at_bound [OF frame assms(4)]
      Memory_load_eq [of "memory (mmu c)" "phys pte (pc c)" 4]
    by (simp add: phys_at_phys [OF frame] cpu_ok_def mmu_ok_def)
  moreover have "memory_update (\<lambda>_. memory (mmu c)) (touch (mmu c) (pc c) False) = touch (mmu c) (pc c) False"
    by (metis (no_types) MMU.surjective MMU.update_convs(1) touch_simps(1))
  ultimately have "MMU_fetch (pc c) (mmu c) =
      Inr (bytes_word (take 4 (drop (phys_at pte (pc c)) (memory (mmu c)))), touch (mmu c) (pc c) False)"
    using assms pte translate_hit [of "mmu c" "pc c" pte False True]
    by (simp add: MMU_fetch_def run cpu_ok_def mmu_ok_def)
  moreover have "c\<lparr>mmu := touch (mmu c) (pc c) False\<rparr> = fetched c"
    using assms(5) by (simp add: fetched_def)
  ultimately show ?thesis
    using assms(1) takeFault_none [of "fetched c"]
    by (simp add: fetch_def run cpu_ok_def mmu_ok_def)
qed

lemma fetch_refused:
  assumes "cpu_ok c" "vmEnabled (mmu c)" "fetchable c = None"
  shows "fetch c = Inr (0, page_fault c (pc c))"
proof -
  have "\<not> allows pte False True" if "current_pte (mmu c) (pc c) = Some pte" for pte
    using that assms(3) by (auto simp: fetchable_def split: if_splits)
  then have "MMU_fetch (pc c) (mmu c) = Inr (0, (mmu c)\<lparr>mmu_fault := True, faultAddr := pc c\<rparr>)"
    using assms translate_miss [of "mmu c" "pc c" False True] by (simp add: MMU_fetch_def run)
  then show ?thesis
    using assms(1) takeFault_some [of c "pc c"] by (simp add: fetch_def run cpu_ok_def)
qed

lemma clearTrap_run: "cpu_clearTrap c = Inr ((), c\<lparr>trap := no_trap\<rparr>)"
  by (simp add: cpu_clearTrap_def run)

lemma fetchable_trap [simp]: "fetchable (c\<lparr>trap := t\<rparr>) = fetchable c"
  by (simp add: fetchable_def)

lemma fetched_trap [simp]: "fetched (c\<lparr>trap := t\<rparr>) = fetched c"
  by (simp add: fetched_def)

lemma bytes_of_word: "bytes_word (word_bytes 4 w) = w"
  using take_bit_length_eq [of w] by (simp add: bytes_word_bytes)

text \<open>A step on memory that holds an encoded instruction.\<close>

lemma step_instruction:
  assumes "cpu_ok c" "vmEnabled (mmu c)" "fetchable c = Some pte" "page_offset (pc c) + 4 \<le> 4096"
    and "take 4 (drop (phys_at pte (pc c)) (memory (mmu c))) = word_bytes 4 (encode i)"
    and "access_in_page i c"
  shows "andthen step retire c = Inr ((), if idle_load i then next_pc (fetched c) else isa_step i (fetched c))"
proof -
  let ?c = "c\<lparr>trap := no_trap\<rparr>"
  have "fetch ?c = Inr (encode i, fetched c)"
    using fetch_granted [of ?c pte] assms by (simp add: bytes_of_word)
  then have "step c = execute (encode i) (fetched c)"
    by (simp add: step_def andthen_run bind_run clearTrap_run hasTrap_run no_trap_def)
  moreover have "access_in_page i (fetched c)"
    using assms(6) by (cases i) simp_all
  then have "andthen (execute (encode i)) retire (fetched c) =
      Inr ((), if idle_load i then next_pc (fetched c) else isa_step i (fetched c))"
    using assms(1,2) by (intro instruction_step) (simp_all add: cpu_ok_fetched)
  ultimately show ?thesis
    by (simp add: andthen_run)
qed

text \<open>A step on an address that may not be executed.\<close>

lemma step_fetch_fault:
  assumes "cpu_ok c" "vmEnabled (mmu c)" "fetchable c = None"
  shows "andthen step retire c = Inr ((), page_fault c (pc c))"
proof -
  let ?c = "c\<lparr>trap := no_trap\<rparr>"
  have "fetch ?c = Inr (0, page_fault c (pc c))"
    using fetch_refused [of ?c] assms by (simp add: page_fault_def)
  then have "step c = Inr ((), page_fault c (pc c))"
    by (simp add: step_def andthen_run bind_run clearTrap_run hasTrap_run ret_run)
  then show ?thesis
    by (simp add: andthen_run)
qed

end
