(* ===== verification/Safety.thy ===== *)
theory Safety
  imports Refinement
begin

text \<open>
  What every step of the machine preserves, whatever word it executes: the machine
  stays well formed, no assertion fails, only memory the running process may write
  changes, page tables change in nothing but the referenced and dirty marks of the
  running process, and a page fault leaves registers, program counter and memory as
  they were.  An access may begin at the end of a page and run on into the bytes that
  follow the page's frame, which the confinement statement has to grant.
\<close>

section \<open>Confinement\<close>

definition same_entry :: "PTE \<Rightarrow> PTE \<Rightarrow> bool" where
  "same_entry p q \<longleftrightarrow>
     p\<lparr>referenced := False, dirty := False\<rparr> = q\<lparr>referenced := False, dirty := False\<rparr>"

definition writable_frame :: "MMU \<Rightarrow> nat \<Rightarrow> bool" where
  "writable_frame u f \<longleftrightarrow>
     (\<exists>t v pte. currentTable u = Some t \<and> tables u t v = Some pte \<and> valid pte \<and> canWrite pte \<and>
        unat (ppn pte) = f)"

text \<open>The bytes a store of the running process can reach: its writable frames and the first
  three bytes after each.\<close>

definition reachable_byte :: "MMU \<Rightarrow> nat \<Rightarrow> bool" where
  "reachable_byte u i \<longleftrightarrow>
     (\<exists>f. writable_frame u f \<and> f * 4096 \<le> i \<and> i < f * 4096 + 4096 + 3)"

definition confined :: "MMU \<Rightarrow> MMU \<Rightarrow> bool" where
  "confined u u' \<longleftrightarrow>
     vmEnabled u' = vmEnabled u \<and> currentTable u' = currentTable u \<and>
     (\<forall>t. currentTable u \<noteq> Some t \<longrightarrow> tables u' t = tables u t) \<and>
     (\<forall>t v. rel_option same_entry (tables u t v) (tables u' t v)) \<and>
     (\<forall>i. \<not> reachable_byte u i \<longrightarrow> memory u' ! i = memory u ! i)"

lemma same_entry_refl [simp]: "same_entry p p"
  by (simp add: same_entry_def)

lemma same_entry_trans: "same_entry p q \<Longrightarrow> same_entry q r \<Longrightarrow> same_entry p r"
  by (simp add: same_entry_def)

lemma same_entry_fields:
  "same_entry p q \<Longrightarrow> ppn p = ppn q \<and> valid p = valid q \<and> canWrite p = canWrite q \<and>
     canRead p = canRead q \<and> canExecute p = canExecute q \<and> swapped p = swapped q"
  by (cases p; cases q) (simp add: same_entry_def)

lemma confined_refl: "confined u u"
  by (simp add: confined_def option.rel_refl)

lemma confined_touch: "confined u (touch u a w)"
  by (auto simp: confined_def touch_def same_entry_def option.rel_refl split: option.splits)

lemma confined_writable:
  assumes "confined u u'" "writable_frame u' f" shows "writable_frame u f"
proof -
  obtain t v pte where p: "currentTable u = Some t" "tables u' t v = Some pte" "valid pte" "canWrite pte"
    "unat (ppn pte) = f"
    using assms by (auto simp: writable_frame_def confined_def)
  have "rel_option same_entry (tables u t v) (tables u' t v)"
    using assms(1) by (simp add: confined_def)
  then obtain pte0 where "tables u t v = Some pte0" "same_entry pte0 pte"
    using p(2) by (auto simp: option_rel_Some2)
  then show ?thesis
    using p same_entry_fields [of pte0 pte] unfolding writable_frame_def by metis
qed

lemma confined_trans:
  assumes "confined u v" "confined v w" shows "confined u w"
proof -
  have r: "reachable_byte u i" if "reachable_byte v i" for i
    using that confined_writable [OF assms(1)] by (auto simp: reachable_byte_def)
  have "memory w ! i = memory u ! i" if "\<not> reachable_byte u i" for i
  proof -
    have "\<not> reachable_byte v i"
      using that r by blast
    then have "memory w ! i = memory v ! i" "memory v ! i = memory u ! i"
      using that assms by (simp_all add: confined_def)
    then show ?thesis by simp
  qed
  moreover have "rel_option same_entry (tables u t a) (tables w t a)" for t a
  proof -
    have "rel_option same_entry (tables u t a) (tables v t a)"
      "rel_option same_entry (tables v t a) (tables w t a)"
      using assms by (simp_all add: confined_def)
    then show ?thesis
      by (cases "tables u t a"; cases "tables v t a"; cases "tables w t a")
         (auto intro: same_entry_trans)
  qed
  ultimately show ?thesis
    using assms by (auto simp: confined_def)
qed

section \<open>Memory accesses of any alignment\<close>

lemma post_vec_loop:
  "post (\<lambda>e. e = UndefinedBehaviour)
     (\<lambda>_ m'. length m' = length m \<and> (\<forall>i. i < a \<or> a + n \<le> i \<longrightarrow> m' ! i = m ! i))
     (for_each [0..<n] (\<lambda>i. vec_set (a + i) (f i))) m"
  by (rule post_for_each) (auto simp: wp nth_list_update)

lemma Memory_store_post:
  "mem_ok m \<Longrightarrow> unat addr < unat MEMORY_SIZE \<Longrightarrow>
     post (\<lambda>e. e = UndefinedBehaviour)
       (\<lambda>_ m'. mem_ok m' \<and> (\<forall>i. i < unat addr \<or> unat addr + n \<le> i \<longrightarrow> m' ! i = m ! i))
       (Memory_store addr n v) m"
  unfolding Memory_store_def in_range_iff
  using post_vec_loop [of m "unat addr" n] by (simp add: wp mem_ok_def MEMORY_BASE_def Let_def)

lemma Memory_load_post:
  "unat addr < unat MEMORY_SIZE \<Longrightarrow>
     post (\<lambda>e. e = UndefinedBehaviour) (\<lambda>_ m'. m' = m) (Memory_load addr n) m"
  unfolding Memory_load_def in_range_iff
  by (simp add: wp MEMORY_BASE_def Let_def) (rule post_foldM; simp add: wp Let_def)

section \<open>Virtual accesses of any alignment\<close>

definition machine_fault :: "fault \<Rightarrow> bool" where
  "machine_fault e \<longleftrightarrow>
     (case e of IllegalInstruction _ _ \<Rightarrow> True | UnknownOpcode _ \<Rightarrow> True
      | UndefinedBehaviour \<Rightarrow> True | _ \<Rightarrow> False)"

text \<open>The relation between the machine before and after an instruction.\<close>

definition sound_step :: "Machine \<Rightarrow> Machine \<Rightarrow> bool" where
  "sound_step c c' \<longleftrightarrow>
     cpu_ok c' \<and> confined (mmu c) (mmu c') \<and>
     (trap_type (trap c') = PageFaultTrap \<longrightarrow>
        regs c' = regs c \<and> pc c' = pc c \<and> memory (mmu c') = memory (mmu c))"

abbreviation sound :: "(Machine, 'a) prog \<Rightarrow> Machine \<Rightarrow> bool" where
  "sound m c \<equiv> post machine_fault (\<lambda>_. sound_step c) m c"

lemma sound_fault [simp]: "machine_fault UndefinedBehaviour" "machine_fault (IllegalInstruction w s)"
  "machine_fault (UnknownOpcode k)"
  by (simp_all add: machine_fault_def)

lemma sound_page_fault: "cpu_ok c \<Longrightarrow> sound_step c (page_fault c a)"
  by (simp add: sound_step_def page_fault_def confined_refl)

lemma granted_post:
  assumes "cpu_ok c" "granted c a w = Some pte"
  shows "unat (phys pte a) < unat MEMORY_SIZE" "phys_at pte a = unat (phys pte a)"
proof -
  have "page_offset a + 1 \<le> 4096"
    by (simp add: page_offset_def Suc_le_eq)
  then show "unat (phys pte a) < unat MEMORY_SIZE" "phys_at pte a = unat (phys pte a)"
    using granted_frame [OF assms] phys_at_bound [of pte a 1] phys_at_phys [of pte a] by simp_all
qed

lemma mmu_ok_memory:
  "mmu_ok u \<Longrightarrow> mem_ok m \<Longrightarrow> mmu_ok (u\<lparr>memory := m\<rparr>)"
  unfolding mmu_ok_def frames_ok_def by simp metis

lemma post_takeFault_none:
  "\<not> mmu_fault (mmu c) \<Longrightarrow> post E Q cpu_takeFault c = Q () c"
  by (simp add: post_def takeFault_none)

lemma confined_store:
  assumes c: "cpu_ok c" "granted c a True = Some pte" and n: "n \<le> 4"
    and m: "\<forall>i. i < unat (phys pte a) \<or> unat (phys pte a) + n \<le> i \<longrightarrow> m ! i = memory (mmu c) ! i"
  shows "confined (mmu c) ((touch (mmu c) a True)\<lparr>memory := m\<rparr>)"
proof -
  have pte: "current_pte (mmu c) a = Some pte" "allows pte True False"
    using granted_Some [OF c(2)] by simp_all
  have "writable_frame (mmu c) (unat (ppn pte))"
    using pte by (auto simp: writable_frame_def current_pte_def allows_def split: option.splits)
  moreover have "phys_at pte a = unat (ppn pte) * 4096 + page_offset a" "page_offset a < 4096"
    by (simp_all add: phys_at_def page_offset_def)
  ultimately have "reachable_byte (mmu c) i"
    if "unat (phys pte a) \<le> i" "i < unat (phys pte a) + n" for i
    using that n granted_post [OF c] unfolding reachable_byte_def by (intro exI [of _ "unat (ppn pte)"]) auto
  then have "m ! i = memory (mmu c) ! i" if "\<not> reachable_byte (mmu c) i" for i
    using m that by (meson not_le)
  then show ?thesis
    using confined_touch [of "mmu c" a True] by (simp add: confined_def)
qed

lemma sound_store:
  assumes "cpu_ok c" "vmEnabled (mmu c)" "trap c = no_trap" "n \<le> 4"
  shows "post (\<lambda>e. e = UndefinedBehaviour) (\<lambda>_. sound_step c) (cpu_storeVirtualMemory a n v) c"
proof (cases "granted c a True")
  case None
  then show ?thesis
    using assms by (simp add: post_def store_refused sound_page_fault)
next
  case (Some pte)
  note pte = granted_Some [OF Some]
  have u: "translate a True False (mmu c) = Inr (phys pte a, touch (mmu c) a True)"
    using pte assms(2) by (simp add: translate_hit)
  have "post (\<lambda>e. e = UndefinedBehaviour)
      (\<lambda>_ m. mem_ok m \<and> (\<forall>i. i < unat (phys pte a) \<or> unat (phys pte a) + n \<le> i \<longrightarrow> m ! i = memory (mmu c) ! i))
      (Memory_store (phys pte a) n v) (memory (mmu c))"
    using assms(1) granted_post [OF assms(1) Some] by (intro Memory_store_post) (auto simp: cpu_ok_def mmu_ok_def)
  then have "post (\<lambda>e. e = UndefinedBehaviour) (\<lambda>_ u'. mmu_ok u' \<and> confined (mmu c) u')
      (MMU_storeVirtualMemory a n v) (mmu c)"
    using assms(1) u
    by (auto simp: MMU_storeVirtualMemory_def post_def run cpu_ok_def mmu_ok_touch mmu_ok_memory
        confined_store [OF assms(1) Some assms(4)] mmu_ok_def [of "mmu c"] split: sum.splits)
  then show ?thesis
    unfolding cpu_storeVirtualMemory_def wp
    by (rule post_mono)
       (use assms(1,3) in \<open>auto simp: post_takeFault_none mmu_ok_def sound_step_def cpu_ok_def no_trap_def\<close>)
qed

lemma sound_load:
  assumes "cpu_ok c" "vmEnabled (mmu c)" "trap c = no_trap"
  shows "post (\<lambda>e. e = UndefinedBehaviour)
     (\<lambda>_ c'. c' = c\<lparr>mmu := touch (mmu c) a False\<rparr> \<or> c' = page_fault c a)
     (cpu_loadVirtualMemory a n) c"
proof (cases "granted c a False")
  case None
  then show ?thesis
    using assms by (simp add: post_def load_refused)
next
  case (Some pte)
  note pte = granted_Some [OF Some]
  have u: "translate a False False (mmu c) = Inr (phys pte a, touch (mmu c) a False)"
    using pte assms(2) by (simp add: translate_hit)
  have e: "memory_update (\<lambda>_. memory (mmu c)) (touch (mmu c) a False) = touch (mmu c) a False"
    by (metis (no_types) MMU.surjective MMU.update_convs(1) touch_simps(1))
  have "post (\<lambda>e. e = UndefinedBehaviour) (\<lambda>_ m. m = memory (mmu c))
      (Memory_load (phys pte a) n) (memory (mmu c))"
    using granted_post [OF assms(1) Some] by (intro Memory_load_post) auto
  then have "post (\<lambda>e. e = UndefinedBehaviour) (\<lambda>_ u'. u' = touch (mmu c) a False) (MMU_loadVirtualMemory a n) (mmu c)"
    using assms(1) u e
    by (auto simp: MMU_loadVirtualMemory_def post_def run cpu_ok_def mmu_ok_def split: sum.splits)
  then show ?thesis
    unfolding cpu_loadVirtualMemory_def wp
    by (rule post_mono)
       (use assms(1,3) in \<open>auto simp: post_takeFault_none mmu_ok_def cpu_ok_def wp\<close>)
qed

section \<open>Every instruction word\<close>

lemma sound_ret: "cpu_ok c \<Longrightarrow> trap c = no_trap \<Longrightarrow> sound (ret ()) c"
  by (simp add: wp sound_step_def confined_refl no_trap_def)

lemma sound_set_reg:
  "cpu_ok c \<Longrightarrow> trap c = no_trap \<Longrightarrow> unat i < 32 \<Longrightarrow> sound_step c (set_reg c i v)"
  by (simp add: sound_step_def cpu_ok_set_reg confined_refl no_trap_def)

lemma sound_jump:
  "cpu_ok c \<Longrightarrow> trap c = no_trap \<Longrightarrow> sound_step c (c\<lparr>pc := p\<rparr>)"
  by (simp add: sound_step_def confined_refl no_trap_def)

lemma post_reg:
  "cpu_ok c \<Longrightarrow> unat i < 32 \<Longrightarrow> post E Q (cpu_readReg i) c = Q (reg_val c i) c"
  "cpu_ok c \<Longrightarrow> unat i < 32 \<Longrightarrow> post E Q' (cpu_writeReg i v) c = Q' () (set_reg c i v)"
  by (simp_all add: post_def cpu_readReg_eq cpu_writeReg_eq)

lemma sound_sources:
  assumes "cpu_ok c" "trap c = no_trap"
  shows "sound (one_source w f) c" "sound (two_source w g) c" "sound (branch_shape w p) c"
  using assms
  by (simp_all add: post_def one_source_run two_source_run branch_shape_run sound_set_reg sound_jump
      sound_step_def [of c c] confined_refl no_trap_def)

lemma sound_upper:
  assumes "cpu_ok c" "trap c = no_trap"
  shows "sound (execLUI w) c" "sound (execAUIPC w) c"
  using assms
  by (simp_all add: execLUI_def execAUIPC_def Let_def cpu_getPC_def wp post_reg sound_set_reg
      sound_step_def [of c c] confined_refl no_trap_def)

lemma sound_jumps:
  assumes "cpu_ok c" "trap c = no_trap"
  shows "sound (execJAL w) c" "sound (execJALR w) c"
proof -
  have "sound_step c ((set_reg c (rd w) v)\<lparr>pc := p\<rparr>)" for v p
    using assms by (simp add: sound_step_def cpu_ok_set_reg confined_refl no_trap_def)
  then show "sound (execJAL w) c" "sound (execJALR w) c"
    using assms
    by (simp_all add: execJAL_def execJALR_def Let_def cpu_setPC_def wp post_reg sound_jump)
qed

lemma sound_ecall:
  assumes "cpu_ok c" "trap c = no_trap" shows "sound execECALL c"
  using assms
  by (simp add: execECALL_def Let_def wp post_reg cpu_setTrap_def sound_step_def confined_refl)

lemma post_loads:
  assumes "cpu_ok c" "vmEnabled (mmu c)" "trap c = no_trap"
  shows "post (\<lambda>e. e = UndefinedBehaviour) (\<lambda>_. sound_step c) (load_shape w n ext) c"
proof (cases "rd w = 0")
  case True
  then show ?thesis
    using assms by (simp add: load_shape_def wp sound_step_def confined_refl no_trap_def)
next
  case False
  let ?a = "reg_val c (rs1 w) + immI w" and ?d = "rd w"
  let ?k = "\<lambda>v. bind cpu_hasTrap (\<lambda>t. if t then ret () else cpu_writeReg ?d (ext v))"
  have t: "sound_step c (c\<lparr>mmu := touch (mmu c) ?a False\<rparr>)"
    "sound_step c (set_reg (c\<lparr>mmu := touch (mmu c) ?a False\<rparr>) ?d v)"
    "cpu_ok (c\<lparr>mmu := touch (mmu c) ?a False\<rparr>)" for v
    using assms by (simp_all add: sound_step_def cpu_ok_def mmu_ok_touch confined_touch no_trap_def rf.set_ok)
  have "post (\<lambda>e. e = UndefinedBehaviour) (\<lambda>v. post (\<lambda>e. e = UndefinedBehaviour) (\<lambda>_. sound_step c) (?k v))
      (cpu_loadVirtualMemory ?a n) c"
    by (rule post_mono [OF sound_load [OF assms]])
       (auto simp: wp cpu_hasTrap_def post_reg t sound_page_fault assms)
  then show ?thesis
    using False assms(1) by (simp add: load_shape_def wp post_reg)
qed

lemma post_stores:
  assumes "cpu_ok c" "vmEnabled (mmu c)" "trap c = no_trap" "n \<le> 4"
  shows "post (\<lambda>e. e = UndefinedBehaviour) (\<lambda>_. sound_step c) (store_shape w n) c"
  using assms by (simp add: store_shape_def wp post_reg sound_store)

lemma sound_weaken: "post (\<lambda>e. e = UndefinedBehaviour) Q m c \<Longrightarrow> post machine_fault Q m c"
  by (erule post_mono) simp_all

lemmas sound_loads = sound_weaken [OF post_loads]

lemmas sound_stores = sound_weaken [OF post_stores]

lemma sound_execute:
  assumes "cpu_ok c" "vmEnabled (mmu c)" "trap c = no_trap"
  shows "sound (execute w) c"
proof -
  have "sound (illegal w s) c" for s
    by (simp add: illegal_def wp)
  moreover have "sound (fail (UnknownOpcode k) :: (Machine, unit) prog) c" for k
    by (simp add: wp)
  ultimately show ?thesis
    using sound_sources [OF assms(1,3)] sound_upper [OF assms(1,3)] sound_jumps [OF assms(1,3)]
      sound_ecall [OF assms(1,3)] sound_loads [OF assms] sound_stores [OF assms] sound_ret [OF assms(1,3)]
    unfolding dispatch Let_def exec_shapes by simp
qed

lemma sound_step_from:
  assumes "sound_step d c'" "confined (mmu c) (mmu d)" "regs d = regs c" "pc d = pc c"
    "memory (mmu d) = memory (mmu c)"
  shows "sound_step c c'"
  using assms confined_trans [of "mmu c" "mmu d" "mmu c'"] by (simp add: sound_step_def)

lemma sound_fetch:
  assumes "cpu_ok c" "vmEnabled (mmu c)" "trap c = no_trap"
  shows "post machine_fault (\<lambda>_ c'. c' = fetched c \<or> c' = page_fault c (pc c)) fetch c"
proof (cases "fetchable c")
  case None
  then show ?thesis
    using assms by (simp add: post_def fetch_refused)
next
  case (Some pte)
  then have pte: "current_pte (mmu c) (pc c) = Some pte" "allows pte False True"
    by (simp_all add: fetchable_Some)
  then have f: "unat (ppn pte) < 16"
    using assms(1) current_pte_frame [of "mmu c" "pc c" pte] by (auto simp: cpu_ok_def mmu_ok_def allows_def)
  have "unat (phys pte (pc c)) < unat MEMORY_SIZE"
    using phys_at_bound [OF f, of "pc c" 1] phys_at_phys [OF f, of "pc c"]
    by (simp add: page_offset_def Suc_le_eq)
  then have "post (\<lambda>e. e = UndefinedBehaviour) (\<lambda>_ m. m = memory (mmu c))
      (Memory_load (phys pte (pc c)) 4) (memory (mmu c))"
    by (rule Memory_load_post)
  moreover have "memory_update (\<lambda>_. memory (mmu c)) (touch (mmu c) (pc c) False) = touch (mmu c) (pc c) False"
    by (metis (no_types) MMU.surjective MMU.update_convs(1) touch_simps(1))
  ultimately have "post machine_fault (\<lambda>_ u'. u' = touch (mmu c) (pc c) False) (MMU_fetch (pc c)) (mmu c)"
    using assms(1) translate_hit [OF assms(2) pte]
    by (auto simp: MMU_fetch_def post_def run cpu_ok_def mmu_ok_def split: sum.splits)
  then show ?thesis
    unfolding fetch_def wp
    by (rule post_mono)
       (use assms(1,3) in \<open>auto simp: post_takeFault_none mmu_ok_def cpu_ok_def wp fetched_def\<close>)
qed

lemma sound_machine_step:
  assumes "cpu_ok c" "vmEnabled (mmu c)"
  shows "sound step c"
proof -
  let ?c = "c\<lparr>trap := no_trap\<rparr>"
  have "post machine_fault (\<lambda>w. post machine_fault (\<lambda>_. sound_step c)
      (bind cpu_hasTrap (\<lambda>t. if t then ret () else execute w))) fetch ?c"
  proof (rule post_mono [OF sound_fetch])
    fix w c' assume "c' = fetched ?c \<or> c' = page_fault ?c (pc ?c)"
    then show "post machine_fault (\<lambda>_. sound_step c)
        (bind cpu_hasTrap (\<lambda>t. if t then ret () else execute w)) c'"
    proof
      assume c': "c' = fetched ?c"
      have "sound (execute w) (fetched c)"
        using assms by (intro sound_execute) (simp_all add: cpu_ok_fetched)
      then have "post machine_fault (\<lambda>_. sound_step c) (execute w) (fetched c)"
        by (rule post_mono) (auto intro: sound_step_from simp: confined_touch)
      then show ?thesis
        by (simp add: c' wp cpu_hasTrap_def no_trap_def)
    next
      assume "c' = page_fault ?c (pc ?c)"
      then show ?thesis
        using assms(1) sound_page_fault [of c "pc c"]
        by (simp add: wp cpu_hasTrap_def page_fault_def)
    qed
  qed (use assms in simp_all)
  then show ?thesis
    by (simp add: step_def wp cpu_clearTrap_def)
qed

end
