(* ===== verification/Access.thy ===== *)
theory Access
  imports Safety
begin

unbundle bit_operations_syntax

text \<open>
  What virtual accesses do to one another, and which words the machine refuses.
  An access is described by the entry that grants it; two addresses alias when their
  entries name the same frame.
\<close>

section \<open>Stores seen by loads\<close>

lemma current_pte_memory [simp]: "current_pte (u\<lparr>memory := m\<rparr>) b = current_pte u b"
  by (simp add: current_pte_def split: option.split)

lemma current_pte_after:
  assumes "current_pte u b = Some q" "allows q w' x"
  obtains q' where "current_pte ((touch u a w)\<lparr>memory := m\<rparr>) b = Some q'" "allows q' w' x"
    "ppn q' = ppn q"
proof -
  obtain q' where "current_pte (touch u a w) b = Some q'" "ppn q' = ppn q" "allows q' w' x"
    using assms current_pte_touch [of u b q a w] by metis
  then show ?thesis
    using that by simp
qed

lemma phys_at_cong: "ppn p = ppn q \<Longrightarrow> phys_at p a = phys_at q a"
  by (simp add: phys_at_def)

lemma splice_same:
  assumes "mem_ok m" "a + n \<le> unat MEMORY_SIZE"
  shows "take n (drop a (mem_splice m a (word_bytes n v))) = word_bytes n v"
  using assms by (simp add: mem_splice_def mem_ok_def)

lemma splice_apart:
  assumes "mem_ok m" "a + length bs \<le> unat MEMORY_SIZE" "b + n \<le> a \<or> a + length bs \<le> b"
    and "b + n \<le> unat MEMORY_SIZE"
  shows "take n (drop b (mem_splice m a bs)) = take n (drop b m)"
  using assms by (intro nth_equalityI) (auto simp: nth_mem_splice mem_ok_def)

text \<open>
  A load through any address of the same process after a store: the stored bytes when
  both addresses fall on the same physical place, the old contents when they are apart.
\<close>

lemma store_then_load:
  assumes u: "vmEnabled u" "mmu_ok u" "0 < n" "0 < k"
    and a: "current_pte u a = Some p" "allows p True False" "phys_at p a + n \<le> unat MEMORY_SIZE"
    and b: "current_pte u b = Some q" "allows q False False" "phys_at q b + k \<le> unat MEMORY_SIZE"
  shows "\<exists>u'. bind (MMU_storeVirtualMemory a n v) (\<lambda>_. MMU_loadVirtualMemory b k) u =
      Inr (bytes_word (take k (drop (phys_at q b) (mem_splice (memory u) (phys_at p a) (word_bytes n v)))), u')"
proof -
  let ?m = "mem_splice (memory u) (phys_at p a) (word_bytes n v)"
  let ?u = "(touch u a True)\<lparr>memory := ?m\<rparr>"
  have s: "MMU_storeVirtualMemory a n v u = Inr ((), ?u)"
    using u a by (intro virtual_store)
  obtain q' where q': "current_pte ?u b = Some q'" "allows q' False False" "ppn q' = ppn q"
    using b(1,2) by (rule current_pte_after)
  have "mem_ok ?m"
    using u(2) a(3) by (simp add: mem_splice_ok mmu_ok_def)
  then have "mmu_ok ?u"
    using u(2) by (simp add: mmu_ok_memory mmu_ok_touch)
  then have "MMU_loadVirtualMemory b k ?u =
      Inr (bytes_word (take k (drop (phys_at q b) ?m)), touch ?u b False)"
    using u q' b(3) virtual_load [of ?u b q' k] phys_at_cong [OF q'(3)] by simp
  then show ?thesis
    using s by simp
qed

section \<open>Illegal words\<close>

text \<open>
  The listing of RV32IM in the manual: for every instruction the bits that tell it from the others, as a
  mask, and their values.  The bits outside the mask are operands.
\<close>

definition rv32im_listing :: "(string \<times> Word \<times> Word) list" where
  "rv32im_listing =
    [(''LUI'', 0x0000007F, 0x00000037), (''AUIPC'', 0x0000007F, 0x00000017), (''JAL'', 0x0000007F, 0x0000006F),
     (''JALR'', 0x0000707F, 0x00000067),
     (''BEQ'', 0x0000707F, 0x00000063), (''BNE'', 0x0000707F, 0x00001063), (''BLT'', 0x0000707F, 0x00004063),
     (''BGE'', 0x0000707F, 0x00005063), (''BLTU'', 0x0000707F, 0x00006063), (''BGEU'', 0x0000707F, 0x00007063),
     (''LB'', 0x0000707F, 0x00000003), (''LH'', 0x0000707F, 0x00001003), (''LW'', 0x0000707F, 0x00002003),
     (''LBU'', 0x0000707F, 0x00004003), (''LHU'', 0x0000707F, 0x00005003),
     (''SB'', 0x0000707F, 0x00000023), (''SH'', 0x0000707F, 0x00001023), (''SW'', 0x0000707F, 0x00002023),
     (''ADDI'', 0x0000707F, 0x00000013), (''SLTI'', 0x0000707F, 0x00002013), (''SLTIU'', 0x0000707F, 0x00003013),
     (''XORI'', 0x0000707F, 0x00004013), (''ORI'', 0x0000707F, 0x00006013), (''ANDI'', 0x0000707F, 0x00007013),
     (''SLLI'', 0xFE00707F, 0x00001013), (''SRLI'', 0xFE00707F, 0x00005013), (''SRAI'', 0xFE00707F, 0x40005013),
     (''ADD'', 0xFE00707F, 0x00000033), (''SUB'', 0xFE00707F, 0x40000033), (''SLL'', 0xFE00707F, 0x00001033),
     (''SLT'', 0xFE00707F, 0x00002033), (''SLTU'', 0xFE00707F, 0x00003033), (''XOR'', 0xFE00707F, 0x00004033),
     (''SRL'', 0xFE00707F, 0x00005033), (''SRA'', 0xFE00707F, 0x40005033), (''OR'', 0xFE00707F, 0x00006033),
     (''AND'', 0xFE00707F, 0x00007033),
     (''MUL'', 0xFE00707F, 0x02000033), (''MULH'', 0xFE00707F, 0x02001033), (''MULHSU'', 0xFE00707F, 0x02002033),
     (''MULHU'', 0xFE00707F, 0x02003033), (''DIV'', 0xFE00707F, 0x02004033), (''DIVU'', 0xFE00707F, 0x02005033),
     (''REM'', 0xFE00707F, 0x02006033), (''REMU'', 0xFE00707F, 0x02007033),
     (''FENCE'', 0x0000707F, 0x0000000F), (''FENCE.I'', 0x0000707F, 0x0000100F),
     (''ECALL'', 0xFFFFFFFF, 0x00000073), (''EBREAK'', 0xFFFFFFFF, 0x00100073)]"

definition matches :: "Word \<Rightarrow> Word \<times> Word \<Rightarrow> bool" where
  "matches w x \<longleftrightarrow> w AND fst x = snd x"

definition rv32im_word :: "Word \<Rightarrow> bool" where
  "rv32im_word w \<longleftrightarrow> list_ex (\<lambda>(name, x). matches w x) rv32im_listing"

text \<open>Words outside the listing: the opcode of JALR with any function code, and ECALL with register
  fields that are not zero.\<close>

definition loose_word :: "Word \<Rightarrow> bool" where
  "loose_word w \<longleftrightarrow> matches w (0x0000007F, 0x00000067) \<or> matches w (0xFFF0707F, 0x00000073)"

definition ebreak :: Word where
  "ebreak = 0x00100073"

text \<open>The words the dispatcher accepts, by opcode and function codes.\<close>

definition dispatched :: "Word \<Rightarrow> bool" where
  "dispatched w \<longleftrightarrow>
     (let op = opcode w; f3 = func3 w; f7 = func7 w in
      (op = 0x33 \<and> (f7 = 1 \<or> f7 = 0 \<or> f7 = 0x20 \<and> (f3 = 0 \<or> f3 = 5)))
    \<or> (op = 0x13 \<and> (f3 = 1 \<longrightarrow> f7 = 0) \<and> (f3 = 5 \<longrightarrow> f7 = 0 \<or> f7 = 0x20))
    \<or> (op = 0x23 \<and> (f3 = 0 \<or> f3 = 1 \<or> f3 = 2))
    \<or> (op = 0x63 \<and> f3 \<noteq> 2 \<and> f3 \<noteq> 3)
    \<or> (op = 0x03 \<and> f3 \<noteq> 3 \<and> f3 \<noteq> 6 \<and> f3 \<noteq> 7)
    \<or> op = 0x37 \<or> op = 0x17 \<or> op = 0x6F \<or> op = 0x67
    \<or> (op = 0x73 \<and> f3 = 0 \<and> immI w = 0)
    \<or> (op = 0x0F \<and> (f3 = 0 \<or> f3 = 1)))"

lemma func3_range: "func3 w \<in> {0, 1, 2, 3, 4, 5, 6, 7}"
proof -
  have "unat (extractBits w 12 14) < 8"
    using extractBits_less [of 12 14 w] by simp
  moreover have "func3 w = of_nat (unat (extractBits w 12 14))"
    by (simp add: func3_def)
  ultimately obtain k where f: "func3 w = of_nat k" and "k < 8"
    by blast
  then have "k = 0 \<or> k = 1 \<or> k = 2 \<or> k = 3 \<or> k = 4 \<or> k = 5 \<or> k = 6 \<or> k = 7"
    by arith
  then show ?thesis
    by (elim disjE) (simp_all add: f)
qed

text \<open>The patterns against the fields the decoder takes.\<close>

lemma bit_patterns: "bit (0x7F :: Word) n \<longleftrightarrow> n < 7"
  "bit (0x707F :: Word) n \<longleftrightarrow> n < 7 \<or> 12 \<le> n \<and> n < 15"
  "bit (0xFE00707F :: Word) n \<longleftrightarrow> n < 7 \<or> 12 \<le> n \<and> n < 15 \<or> 25 \<le> n \<and> n < 32"
  "bit (0xFFF0707F :: Word) n \<longleftrightarrow> n < 7 \<or> 12 \<le> n \<and> n < 15 \<or> 20 \<le> n \<and> n < 32"
proof -
  have a: "(0x7F :: Word) = mask 7" "(0x707F :: Word) = mask 7 OR push_bit 12 (mask 3)"
    "(0xFE00707F :: Word) = mask 7 OR push_bit 12 (mask 3) OR push_bit 25 (mask 7)"
    "(0xFFF0707F :: Word) = mask 7 OR push_bit 12 (mask 3) OR push_bit 20 (mask 12)"
    by (simp_all add: mask_eq_exp_minus_1)
  show "bit (0x7F :: Word) n \<longleftrightarrow> n < 7"
  "bit (0x707F :: Word) n \<longleftrightarrow> n < 7 \<or> 12 \<le> n \<and> n < 15"
  "bit (0xFE00707F :: Word) n \<longleftrightarrow> n < 7 \<or> 12 \<le> n \<and> n < 15 \<or> 25 \<le> n \<and> n < 32"
  "bit (0xFFF0707F :: Word) n \<longleftrightarrow> n < 7 \<or> 12 \<le> n \<and> n < 15 \<or> 20 \<le> n \<and> n < 32"
    unfolding a by (auto simp: bit_simps)
qed

lemma bit_fields: "bit (opcode w) n \<longleftrightarrow> n < 7 \<and> bit w n" "bit (func3 w) n \<longleftrightarrow> n < 3 \<and> bit w (12 + n)"
  "bit (func7 w) n \<longleftrightarrow> n < 7 \<and> bit w (25 + n)"
  by (auto simp: opcode_def func3_def func7_def bit_ucast_iff bit_extractBits)

lemma word_bits: "x = y \<longleftrightarrow> (\<forall>n. bit x n \<longleftrightarrow> bit y n)" for x y :: "'a::len word"
  by (auto intro: bit_eqI)

lemma field_agree:
  fixes x y :: "'a::len word"
  assumes "\<And>n. bit x n \<longleftrightarrow> n < l \<and> bit w (s + n)" "\<And>n. bit y n \<longleftrightarrow> n < l \<and> bit m (s + n)"
  shows "x = y \<longleftrightarrow> (\<forall>n. s \<le> n \<and> n < s + l \<longrightarrow> (bit w n \<longleftrightarrow> bit m n))"
proof
  assume "x = y"
  then have e: "n < l \<Longrightarrow> bit w (s + n) \<longleftrightarrow> bit m (s + n)" for n
    using assms by metis
  show "\<forall>n. s \<le> n \<and> n < s + l \<longrightarrow> (bit w n \<longleftrightarrow> bit m n)"
  proof (intro allI impI)
    fix n assume "s \<le> n \<and> n < s + l"
    then show "bit w n \<longleftrightarrow> bit m n"
      using e [of "n - s"] by auto
  qed
next
  assume a: "\<forall>n. s \<le> n \<and> n < s + l \<longrightarrow> (bit w n \<longleftrightarrow> bit m n)"
  show "x = y"
    unfolding word_bits assms using a by auto
qed

lemmas fields_agree =
  field_agree [where s = 0, of "opcode w" 7 w "opcode m" m for w m, simplified, OF bit_fields(1,1)]
  field_agree [OF bit_fields(2,2)] field_agree [OF bit_fields(3,3)]

lemma masked_equal: "x AND k = y AND k \<longleftrightarrow> (\<forall>n. bit k n \<longrightarrow> (bit x n \<longleftrightarrow> bit y n))" for x y k :: Word
  unfolding word_bits bit_and_iff by blast

lemma masked:
  "w AND 0x7F = m AND 0x7F \<longleftrightarrow> opcode w = opcode m"
  "w AND 0x707F = m AND 0x707F \<longleftrightarrow> opcode w = opcode m \<and> func3 w = func3 m"
  "w AND 0xFE00707F = m AND 0xFE00707F \<longleftrightarrow> opcode w = opcode m \<and> func3 w = func3 m \<and> func7 w = func7 m"
proof -
  show "w AND 0x7F = m AND 0x7F \<longleftrightarrow> opcode w = opcode m"
    unfolding masked_equal bit_patterns fields_agree by simp
  show "w AND 0x707F = m AND 0x707F \<longleftrightarrow> opcode w = opcode m \<and> func3 w = func3 m"
    unfolding masked_equal bit_patterns fields_agree by (simp add: disj_imp all_conj_distrib) blast
  show "w AND 0xFE00707F = m AND 0xFE00707F \<longleftrightarrow> opcode w = opcode m \<and> func3 w = func3 m \<and> func7 w = func7 m"
    unfolding masked_equal bit_patterns fields_agree by simp blast
qed

lemma immI_zero: "immI w = 0 \<longleftrightarrow> (\<forall>n. 20 \<le> n \<and> n < 32 \<longrightarrow> \<not> bit w n)"
proof
  assume z: "immI w = 0"
  show "\<forall>n. 20 \<le> n \<and> n < 32 \<longrightarrow> \<not> bit w n"
  proof (intro allI impI)
    fix n assume "20 \<le> n \<and> n < (32 :: nat)"
    then obtain j where j: "n = 20 + j"
      using le_iff_add by blast
    then have "j < 12"
      using \<open>20 \<le> n \<and> n < 32\<close> by simp
    then show "\<not> bit w n"
      using bit_immI [of j w] z j by simp
  qed
next
  assume "\<forall>n. 20 \<le> n \<and> n < 32 \<longrightarrow> \<not> bit w n"
  then show "immI w = 0"
    by (intro bit_word_eqI) (simp add: bit_immI min_def)
qed

lemma masked_system: "w AND 0xFFF0707F = 0x73 \<longleftrightarrow> opcode w = opcode 0x73 \<and> func3 w = func3 0x73 \<and> immI w = 0"
proof -
  have "\<not> bit (0x73 :: Word) n" if "20 \<le> n" for n
    using that bit_take_bit_iff [of 7 "0x73 :: Word" n] by simp
  moreover have "w AND 0xFFF0707F = 0x73 \<longleftrightarrow> w AND 0xFFF0707F = 0x73 AND 0xFFF0707F"
    by simp
  ultimately show ?thesis
    unfolding masked_equal bit_patterns fields_agree immI_zero by (simp, blast)
qed

text \<open>The fields of a constant, and the patterns of the listing by fields.\<close>

lemma field_numeral:
  "opcode (numeral k) = ucast (extractBits (numeral k) 0 6)" "func3 (numeral k) = ucast (extractBits (numeral k) 12 14)"
  "func7 (numeral k) = ucast (extractBits (numeral k) 25 31)"
  "extractBits (numeral k) a b = drop_bit a (numeral k) AND ucast (push_bit (b - a + 1) (1 :: 64 word) - 1)"
  by (simp_all add: opcode_def func3_def func7_def extractBits_def Let_def)

lemma matches_fields:
  "m AND 0x7F = m \<Longrightarrow> matches w (0x7F, m) \<longleftrightarrow> opcode w = opcode m"
  "m AND 0x707F = m \<Longrightarrow> matches w (0x707F, m) \<longleftrightarrow> opcode w = opcode m \<and> func3 w = func3 m"
  "m AND 0xFE00707F = m \<Longrightarrow> matches w (0xFE00707F, m) \<longleftrightarrow> opcode w = opcode m \<and> func3 w = func3 m \<and> func7 w = func7 m"
  "matches w (0xFFFFFFFF, m) \<longleftrightarrow> w = m"
proof -
  have "(0xFFFFFFFF :: Word) = -1"
    by simp
  then show "matches w (0xFFFFFFFF, m) \<longleftrightarrow> w = m"
    unfolding matches_def fst_conv snd_conv by (simp only: and.right_neutral)
qed (use masked [of w m] in \<open>simp_all add: matches_def\<close>)

lemma matches_system: "matches w (0xFFF0707F, 0x73) \<longleftrightarrow> opcode w = 0x73 \<and> func3 w = 0 \<and> immI w = 0"
  using masked_system [of w] by (simp add: matches_def field_numeral)

lemma system_words: "opcode 0x73 = 0x73" "func3 0x73 = 0" "immI 0x73 = 0" "opcode ebreak = 0x73" "func3 ebreak = 0" "immI ebreak \<noteq> 0"
  using masked_system [of "0x73"] masked_system [of ebreak] by (simp_all add: field_numeral ebreak_def)

lemma dispatched_listing: "dispatched w \<longleftrightarrow> w \<noteq> ebreak \<and> (rv32im_word w \<or> loose_word w)"
proof -
  have l: "rv32im_word w \<longleftrightarrow> w = 0x73 \<or> w = ebreak \<or> dispatched w \<and> opcode w \<noteq> 0x73 \<and> (opcode w = 0x67 \<longrightarrow> func3 w = 0)"
    using func3_range [of w] 
    unfolding rv32im_word_def rv32im_listing_def dispatched_def Let_def ebreak_def
    by (elim insertE emptyE) (simp_all add: matches_fields field_numeral, auto)
  have "loose_word w \<longleftrightarrow> opcode w = 0x67 \<or> opcode w = 0x73 \<and> func3 w = 0 \<and> immI w = 0"
    by (simp add: loose_word_def matches_system matches_fields field_numeral)
  then show ?thesis
    using l system_words by (auto simp: dispatched_def)
qed

text \<open>The fault of a refused word, and of an accepted one.\<close>

definition refused :: "(Machine, unit) prog \<Rightarrow> Machine \<Rightarrow> Word \<Rightarrow> bool" where
  "refused m c w \<longleftrightarrow> (case m c of Inl (IllegalInstruction x why) \<Rightarrow> x = w | Inl (UnknownOpcode k) \<Rightarrow> k = opcode w | _ \<Rightarrow> False)"

lemma refused_fail [simp]:
  "refused (illegal w s) c w" "refused (fail (UnknownOpcode (opcode w))) c w"
  by (simp_all add: refused_def illegal_def fail_run)

lemma not_refused: "post (\<lambda>e. e = UndefinedBehaviour) Q m c \<Longrightarrow> \<not> refused m c w"
  by (auto simp: refused_def post_def split: sum.splits)

lemma not_refused_plain:
  assumes "cpu_ok c"
  shows "\<not> refused (one_source w f) c w" "\<not> refused (two_source w g) c w"
    "\<not> refused (branch_shape w p) c w" "\<not> refused (ret ()) c w" "\<not> refused execECALL c w"
    "\<not> refused (execLUI w) c w" "\<not> refused (execAUIPC w) c w"
    "\<not> refused (execJAL w) c w" "\<not> refused (execJALR w) c w"
  using assms
  by (simp_all add: refused_def one_source_run two_source_run branch_shape_run ret_run execECALL_def
      cpu_readReg_eq cpu_writeReg_eq cpu_setTrap_def cpu_setPC_def cpu_getPC_def modify_run gets_run
      bind_run andthen_run Let_def execLUI_def execAUIPC_def execJAL_def execJALR_def)

lemma refused_iff_illegal:
  assumes "cpu_ok c" "vmEnabled (mmu c)" "trap c = no_trap"
  shows "refused (execute w) c w \<longleftrightarrow> \<not> dispatched w"
  using func3_range [of w] not_refused_plain [OF assms(1), of w]
    not_refused [OF post_loads [OF assms]] not_refused [OF post_stores [OF assms]]
  unfolding dispatch Let_def exec_shapes dispatched_def
  by (elim insertE emptyE) (simp_all split: if_split)

end
