(* ===== verification/Demo.thy ===== *)
theory Demo
  imports Access
begin

text \<open>
  Concrete states for the witnesses: a processor with two mapped pages and code of choice.
\<close>

section \<open>A concrete machine\<close>

text \<open>
  The witnesses run on this machine: virtual paging is on, virtual page 0 is frame 3 with
  every right, virtual page 1 is frame 5 without the right to execute, and
  \<^verbatim>\<open>code\<close> is at the start of frame 3.
\<close>

definition demo_table :: PageTable where
  "demo_table =
     [0 \<mapsto> PTE_new\<lparr>ppn := 3, valid := True, canRead := True, canWrite := True, canExecute := True\<rparr>,
      1 \<mapsto> PTE_new\<lparr>ppn := 5, valid := True, canRead := True, canWrite := True\<rparr>]"

definition demo_mmu :: "Byte list \<Rightarrow> MMU" where
  "demo_mmu code =
     \<lparr>memory = mem_splice Memory_new 12288 code, tables = (\<lambda>_. demo_table), currentTable = Some 0,
      vmEnabled = True, mmu_fault = False, faultAddr = 0\<rparr>"

definition demo_cpu :: "Byte list \<Rightarrow> Machine" where
  "demo_cpu code = \<lparr>regs = RegFile_new, mmu = demo_mmu code, pc = 0, trap = no_trap\<rparr>"

lemma Memory_new_ok: "mem_ok Memory_new"
  by (simp add: mem_ok_def Memory_new_def)

lemma demo_frames: "demo_table v = Some pte \<Longrightarrow> unat (ppn pte) < 16"
  by (auto simp: demo_table_def split: if_splits)

lemma demo_mmu_ok: "length code \<le> 4096 \<Longrightarrow> mmu_ok (demo_mmu code)"
  by (auto simp: mmu_ok_def demo_mmu_def frames_ok_def unat_MEMORY_SIZE demo_frames
      intro!: mem_splice_ok Memory_new_ok)

lemma demo_cpu_ok: "length code \<le> 4096 \<Longrightarrow> cpu_ok (demo_cpu code)"
  by (simp add: cpu_ok_def demo_cpu_def demo_mmu_ok rf_ok_new)

lemma demo_simps [simp]:
  "vmEnabled (demo_mmu code)" "mmu (demo_cpu code) = demo_mmu code" "pc (demo_cpu code) = 0"
  "trap (demo_cpu code) = no_trap" "regs (demo_cpu code) = RegFile_new"
  "memory (demo_mmu code) = mem_splice Memory_new 12288 code"
  by (simp_all add: demo_mmu_def demo_cpu_def)

lemma demo_code:
  "length code = n \<Longrightarrow> n \<le> 4096 \<Longrightarrow> take n (drop 12288 (mem_splice Memory_new 12288 code)) = code"
  by (simp add: mem_splice_def Memory_new_def unat_MEMORY_SIZE)

end
