(* ===== verification/Machine_Properties.thy ===== *)
theory Machine_Properties
  imports Demo
begin

text \<open>
  What the simulated processor promises, from theories Refinement, Safety, Access and Alu,
  each property with a run on the machine of theory Demo.
\<close>

text \<open>C1: The machine executes RV32IM: where the page table lets it fetch, inside one page, the four bytes
  of an encoded instruction, and the access of that instruction, if it makes one, stays inside a page too,
  one turn (fetch, decode, dispatch, execute, move on) gives the registers, memory, page marks, program
  counter and trap of the manual.  The one exception, which the conclusion names, is a load into register 0:
  the manual has the access and its fault, the machine goes on to the next instruction without.  Jumps are
  the manual's where instructions may lie at every even address: no target raises an alignment exception.\<close>

theorem machine_refines_isa:
  assumes "cpu_ok c" "vmEnabled (mmu c)" "fetchable c = Some pte" "page_offset (pc c) + 4 \<le> 4096"
    and "take 4 (drop (phys_at pte (pc c)) (memory (mmu c))) = word_bytes 4 (encode i)"
    and "access_in_page i c"
  shows "andthen step retire c = Inr ((), if idle_load i then next_pc (fetched c) else isa_step i (fetched c))"
  using assms by (rule step_instruction)

definition demo_instr :: instr where
  "demo_instr = Op R_DIV 5 0 0"

lemma demo_fetchable:
  "fetchable (demo_cpu code) = Some (PTE_new\<lparr>ppn := 3, valid := True, canRead := True, canWrite := True, canExecute := True\<rparr>)"
  by (simp add: fetchable_def current_pte_def demo_mmu_def vpn_of_def demo_table_def allows_def)

theorem machine_refines_isa_witness:
  "andthen step retire (demo_cpu (word_bytes 4 (encode demo_instr))) =
     Inr ((), isa_step demo_instr (fetched (demo_cpu (word_bytes 4 (encode demo_instr)))))
   \<and> reg_val (isa_step demo_instr (fetched (demo_cpu (word_bytes 4 (encode demo_instr))))) 5 = -1"
proof
  let ?c = "demo_cpu (word_bytes 4 (encode demo_instr))"
  have "andthen step retire ?c = Inr ((), if idle_load demo_instr then next_pc (fetched ?c) else isa_step demo_instr (fetched ?c))"
    by (rule machine_refines_isa [OF _ _ demo_fetchable])
       (simp_all add: demo_cpu_ok demo_code phys_at_def page_offset_def PTE_new_def demo_instr_def)
  then show "andthen step retire ?c = Inr ((), isa_step demo_instr (fetched ?c))"
    by (simp add: demo_instr_def del: isa_step.simps)
  show "reg_val (isa_step demo_instr (fetched ?c)) 5 = -1"
    by (simp add: demo_instr_def isa_set_def next_pc_def reg_val_def rf_set_def RegFile_new_def quot_def)
qed


text \<open>C11: An instruction on a well-formed machine ends in one of the documented ways: the
  simulator's exit on an illegal word or an unknown opcode, the undefined behaviour of an access
  that runs off the end of memory, or a well-formed machine; and a page fault is precise, with
  registers, program counter and memory as they were.\<close>

theorem step_is_precise:
  assumes "cpu_ok c" "vmEnabled (mmu c)"
  shows "case step c of Inl e \<Rightarrow> machine_fault e
    | Inr (_, c') \<Rightarrow> cpu_ok c' \<and> (trap_type (trap c') = PageFaultTrap \<longrightarrow>
        regs c' = regs c \<and> pc c' = pc c \<and> memory (mmu c') = memory (mmu c))"
  using sound_machine_step [OF assms] by (auto simp: post_def sound_step_def split: sum.splits)

definition load_hole :: "Byte list" where
  "load_hole = word_bytes 4 (encode (Load L_LW 5 0 (-4)))"

lemma load_hole_length [simp]: "length load_hole = 4"
  by (simp add: load_hole_def)

theorem step_is_precise_witness:
  "case step (demo_cpu load_hole) of Inl e \<Rightarrow> machine_fault e
    | Inr (_, c') \<Rightarrow> cpu_ok c' \<and> (trap_type (trap c') = PageFaultTrap \<longrightarrow>
        regs c' = regs (demo_cpu load_hole) \<and> pc c' = pc (demo_cpu load_hole) \<and>
        memory (mmu c') = memory (mmu (demo_cpu load_hole)))"
  by (rule step_is_precise) (simp_all add: demo_cpu_ok)

text \<open>C12: No instruction reaches outside its process: it keeps paging on and the table in force,
  leaves the other tables alone, changes of its own table only the referenced and dirty marks,
  and writes no byte outside its writable frames and the three bytes after each.\<close>

theorem step_is_confined:
  assumes "cpu_ok c" "vmEnabled (mmu c)" "step c = Inr ((), c')"
  shows "vmEnabled (mmu c') \<and> currentTable (mmu c') = currentTable (mmu c) \<and>
    (\<forall>t. currentTable (mmu c) \<noteq> Some t \<longrightarrow> tables (mmu c') t = tables (mmu c) t) \<and>
    (\<forall>t v. rel_option same_entry (tables (mmu c) t v) (tables (mmu c') t v)) \<and>
    (\<forall>i. (\<nexists>f. writable_frame (mmu c) f \<and> f * 4096 \<le> i \<and> i < f * 4096 + 4096 + 3) \<longrightarrow>
       memory (mmu c') ! i = memory (mmu c) ! i)"
  using sound_machine_step [OF assms(1,2)] assms
  by (simp add: post_def sound_step_def confined_def reachable_byte_def)

definition store_code :: "Byte list" where
  "store_code = word_bytes 4 (encode (Store S_SW 0 0 64))"

lemma demo_turn:
  assumes "code = word_bytes 4 (encode i)" "access_in_page i (demo_cpu code)"
  shows "andthen step retire (demo_cpu code) =
    Inr ((), if idle_load i then next_pc (fetched (demo_cpu code)) else isa_step i (fetched (demo_cpu code)))"
  using assms by (intro step_instruction [OF _ _ demo_fetchable])
    (simp_all add: demo_cpu_ok demo_code phys_at_def page_offset_def PTE_new_def)

lemma andthen_returns: "andthen m n s = Inr (x, t) \<Longrightarrow> \<exists>y u. m s = Inr (y, u)"
  by (auto simp: andthen_run split: sum.splits)

theorem step_is_confined_witness:
  "\<exists>c'. step (demo_cpu store_code) = Inr ((), c') \<and> vmEnabled (mmu c') \<and>
    (\<forall>i. (\<nexists>f. writable_frame (demo_mmu store_code) f \<and> f * 4096 \<le> i \<and> i < f * 4096 + 4096 + 3) \<longrightarrow>
       memory (mmu c') ! i = mem_splice Memory_new 12288 store_code ! i)"
proof -
  have "access_in_page (Store S_SW 0 0 64) (demo_cpu store_code)"
    by (simp add: page_offset_def reg_val_def RegFile_new_def)
  then obtain c' where "step (demo_cpu store_code) = Inr ((), c')"
    using andthen_returns [OF demo_turn [OF store_code_def]] by auto
  then show ?thesis
    using step_is_confined [of "demo_cpu store_code" c'] by (auto simp: demo_cpu_ok store_code_def)
qed

text \<open>C37: The machine refuses EBREAK and every word that matches no line of the manual's listing of
  RV32IM, and nothing else, with two exceptions it lets through: the opcode of JALR with a function code
  other than 0, and ECALL with register fields other than 0.\<close>

theorem refuses_exactly_the_illegal:
  assumes "cpu_ok c" "vmEnabled (mmu c)" "trap c = no_trap"
  shows "refused (execute w) c w \<longleftrightarrow> w = ebreak \<or> \<not> rv32im_word w \<and> \<not> loose_word w"
  using refused_iff_illegal [OF assms] dispatched_listing [of w] by blast

theorem refuses_exactly_the_illegal_witness:
  "\<not> refused (execute 0x02004033) (demo_cpu []) 0x02004033 \<and> refused (execute 0x04004033) (demo_cpu []) 0x04004033"
proof -
  have "rv32im_word 0x02004033" "\<not> rv32im_word 0x04004033" "\<not> loose_word 0x04004033"
    by (simp_all add: rv32im_word_def rv32im_listing_def loose_word_def matches_def)
  then show ?thesis
    using refuses_exactly_the_illegal [of "demo_cpu []" "0x02004033"] refuses_exactly_the_illegal [of "demo_cpu []" "0x04004033"]
    by (simp add: demo_cpu_ok ebreak_def)
qed

text \<open>Division and remainder of the same operands, signed and unsigned, fit together for all
  operands: quotient times divisor plus remainder is the dividend, also when the divisor is zero or
  the quotient overflows.\<close>

theorem division_identity:
  assumes "cpu_ok c"
  shows "(\<exists>q r. execute (encode (Op R_DIV d a b)) c = Inr ((), set_reg c (R d) q) \<and>
      execute (encode (Op R_REM e a b)) c = Inr ((), set_reg c (R e) r) \<and>
      q * reg_val c (R b) + r = reg_val c (R a)) \<and>
    (\<exists>q r. execute (encode (Op R_DIVU d a b)) c = Inr ((), set_reg c (R d) q) \<and>
      execute (encode (Op R_REMU e a b)) c = Inr ((), set_reg c (R e) r) \<and>
      q * reg_val c (R b) + r = reg_val c (R a))"
proof -
  have alu: "execute (encode (Op r d a b)) c =
      Inr ((), set_reg c (R d) (word_of_int (isa_alu r (reg_val c (R a)) (reg_val c (R b)))))" for r d
    using assms by (simp only: execute_Op two_source_run) simp
  show ?thesis
    using quot_remainder_signed [of "reg_val c (R a)" "reg_val c (R b)"]
      quot_remainder_unsigned [of "reg_val c (R a)" "reg_val c (R b)"]
    unfolding alu isa_alu.simps by blast
qed

definition divisor_cpu :: Machine where
  "divisor_cpu = set_reg (demo_cpu []) 6 (-2147483648)"

theorem division_identity_witness:
  "\<exists>q r. execute (encode (Op R_DIV 5 6 7)) divisor_cpu = Inr ((), set_reg divisor_cpu 5 q) \<and>
      execute (encode (Op R_REM 8 6 7)) divisor_cpu = Inr ((), set_reg divisor_cpu 8 r) \<and>
      q * reg_val divisor_cpu 7 + r = reg_val divisor_cpu 6"
  using division_identity [of divisor_cpu 5 6 7 8]
  by (simp add: divisor_cpu_def cpu_ok_set_reg demo_cpu_ok)

text \<open>The decoder undoes the encoding of the scattered offset of branches and jumps: the
  operands, and the offset as twice the sign-extended field.\<close>

theorem decode_branch_and_jump:
  "opcode (encB op f3 a b off) = ucast op \<and> func3 (encB op f3 a b off) = ucast f3 \<and>
   rs1 (encB op f3 a b off) = ucast a \<and> rs2 (encB op f3 a b off) = ucast b \<and>
   immB (encB op f3 a b off) = word_of_int (2 * sint off) \<and>
   opcode (encJ op d jmp) = ucast op \<and> rd (encJ op d jmp) = ucast d \<and>
   immJ (encJ op d jmp) = word_of_int (2 * sint jmp)"
  using target_relative [of 0 off] target_relative [of 0 jmp] by simp

text \<open>C38: A store to a virtual address followed by a load of any width from any virtual address,
  both allowed by the page table, reads the bytes of memory with the stored value in place,
  little end first: the value back at the same place, the old bytes elsewhere.\<close>

theorem store_load:
  assumes "vmEnabled u" "mmu_ok u" "0 < n" "0 < k"
    and "current_pte u a = Some p" "allows p True False" "phys_at p a + n \<le> unat MEMORY_SIZE"
    and "current_pte u b = Some q" "allows q False False" "phys_at q b + k \<le> unat MEMORY_SIZE"
  shows "\<exists>u'. bind (MMU_storeVirtualMemory a n v) (\<lambda>_. MMU_loadVirtualMemory b k) u =
      Inr (bytes_word (take k (drop (phys_at q b) (mem_splice (memory u) (phys_at p a) (word_bytes n v)))), u')"
  using assms by (rule store_then_load)

lemma demo_current:
  "current_pte (demo_mmu code) 16 = Some (PTE_new\<lparr>ppn := 3, valid := True, canRead := True, canWrite := True, canExecute := True\<rparr>)"
  "current_pte (demo_mmu code) 4094 = Some (PTE_new\<lparr>ppn := 3, valid := True, canRead := True, canWrite := True, canExecute := True\<rparr>)"
  by (simp_all add: current_pte_def demo_mmu_def vpn_of_def demo_table_def)

theorem store_load_witness:
  "\<exists>u'. bind (MMU_storeVirtualMemory 16 4 0xCAFEF00D) (\<lambda>_. MMU_loadVirtualMemory 16 4) (demo_mmu []) =
      Inr (0xCAFEF00D, u')"
proof -
  have "take 4 (drop 12304 (mem_splice Memory_new 12304 (word_bytes 4 0xCAFEF00D))) = word_bytes 4 0xCAFEF00D"
    by (rule splice_same) (simp_all add: Memory_new_ok unat_MEMORY_SIZE)
  moreover have "\<exists>u'. bind (MMU_storeVirtualMemory 16 4 0xCAFEF00D) (\<lambda>_. MMU_loadVirtualMemory 16 4) (demo_mmu []) =
      Inr (bytes_word (take 4 (drop 12304 (mem_splice (memory (demo_mmu [])) 12304 (word_bytes 4 0xCAFEF00D)))), u')"
    using store_load [OF _ _ _ _ demo_current(1) _ _ demo_current(1), of "[]" 4 4 "0xCAFEF00D"]
    by (simp add: demo_mmu_ok allows_def phys_at_def page_offset_def PTE_new_def unat_MEMORY_SIZE)
  moreover have "mem_splice Memory_new 12288 [] = Memory_new"
    by (simp add: mem_splice_def)
  ultimately show ?thesis
    by (simp add: bytes_of_word)
qed

text \<open>An access that crosses the end of a page is translated once: its last bytes come from the
  next physical frame, whatever the page table says of the next virtual page.\<close>

theorem crossing_reads_next_frame:
  assumes "vmEnabled u" "mmu_ok u" "current_pte u a = Some p" "allows p False False"
    and "page_offset a = 4094" "unat (ppn p) < 15"
  shows "\<exists>u'. MMU_loadVirtualMemory a 4 u = Inr (bytes_word
      [memory u ! (unat (ppn p) * 4096 + 4094), memory u ! (unat (ppn p) * 4096 + 4095),
       memory u ! ((unat (ppn p) + 1) * 4096), memory u ! ((unat (ppn p) + 1) * 4096 + 1)], u')"
proof -
  have l: "length (memory u) = 65536"
    using assms(2) by (simp add: mmu_ok_def mem_ok_def unat_MEMORY_SIZE)
  have four: "take 4 (drop i xs) = [xs ! i, xs ! (i + 1), xs ! (i + 2), xs ! (i + 3)]" if "i + 4 \<le> length xs" for i and xs :: "Byte list"
    using that by (intro nth_equalityI) (auto simp: nth_Cons' numeral_eq_Suc less_Suc_eq)
  let ?i = "unat (ppn p) * 4096 + 4094"
  have b: "?i + 4 \<le> 65536"
    using assms(6) by simp
  have "MMU_loadVirtualMemory a 4 u = Inr (bytes_word (take 4 (drop ?i (memory u))), touch u a False)"
    using virtual_load [OF assms(1-4), of 4] assms(5) b by (simp add: phys_at_def unat_MEMORY_SIZE)
  then show ?thesis
    using four [of ?i "memory u"] b l by (simp add: algebra_simps)
qed

theorem crossing_reads_next_frame_witness:
  "\<exists>u'. MMU_loadVirtualMemory 4094 4 (demo_mmu (replicate 4096 7)) = Inr (bytes_word [7, 7, 0, 0], u')"
proof -
  have m: "mem_splice Memory_new 12288 (replicate 4096 7) ! j = (if 12288 \<le> j \<and> j < 16384 then 7 else 0)"
    if "j < 65536" for j
    using that by (subst nth_mem_splice) (auto simp: Memory_new_def unat_MEMORY_SIZE)
  show ?thesis
    using crossing_reads_next_frame [OF _ _ demo_current(2), of "replicate 4096 7"]
    by (simp add: demo_mmu_ok allows_def page_offset_def PTE_new_def m)
qed

end
