(* ===== verification/Disk.thy ===== *)
theory Disk
  imports Prelude
begin

text \<open>
  The disk, \<^verbatim>\<open>disk/DiskInterface\<close> and \<^verbatim>\<open>disk/InMemoryDisk\<close>,
  with the statistics counters of \<^verbatim>\<open>common/Stats.hpp\<close> that its
  operations advance.  A request for a block that does not exist, or with a buffer
  that is not one block long, is ignored.  The kernel's state extends the record
  \<^verbatim>\<open>IO\<close>, so the operations are stated for every extension of it.  The
  locale states the block-level contract on which the swap area and the files rest.
  Byte counts of type \<^verbatim>\<open>size_t\<close> are natural numbers here and in the
  theories that follow: they stay far below two to the 64.
\<close>

record ProcessStat =
  ps_pid :: int
  ps_name :: string
  ps_instr :: nat

record Stats =
  totalInstructions :: "64 word"
  totalContextSwitches :: "64 word"
  totalPageFaults :: "64 word"
  totalSyscalls :: "64 word"
  totalDiskReads :: "64 word"
  totalDiskWrites :: "64 word"
  totalAllocatedFrames :: "64 word"
  totalSwapIns :: "64 word"
  totalSwapOuts :: "64 word"
  processStats :: "ProcessStat list"

record InMemoryDisk =
  data :: "Byte list"
  totalBlocks :: nat

record IO =
  disk :: InMemoryDisk
  stats :: Stats

definition Stats_new :: Stats where
  "Stats_new = \<lparr>totalInstructions = 0, totalContextSwitches = 0, totalPageFaults = 0, totalSyscalls = 0,
     totalDiskReads = 0, totalDiskWrites = 0, totalAllocatedFrames = 0, totalSwapIns = 0,
     totalSwapOuts = 0, processStats = []\<rparr>"

definition incInstructions :: "Stats \<Rightarrow> Stats" where
  "incInstructions s = s\<lparr>totalInstructions := totalInstructions s + 1\<rparr>"

definition incContextSwitches :: "Stats \<Rightarrow> Stats" where
  "incContextSwitches s = s\<lparr>totalContextSwitches := totalContextSwitches s + 1\<rparr>"

definition incPageFaults :: "Stats \<Rightarrow> Stats" where
  "incPageFaults s = s\<lparr>totalPageFaults := totalPageFaults s + 1\<rparr>"

definition incSyscalls :: "Stats \<Rightarrow> Stats" where
  "incSyscalls s = s\<lparr>totalSyscalls := totalSyscalls s + 1\<rparr>"

definition incDiskReads :: "Stats \<Rightarrow> Stats" where
  "incDiskReads s = s\<lparr>totalDiskReads := totalDiskReads s + 1\<rparr>"

definition incDiskWrites :: "Stats \<Rightarrow> Stats" where
  "incDiskWrites s = s\<lparr>totalDiskWrites := totalDiskWrites s + 1\<rparr>"

definition incAllocatedFrames :: "Stats \<Rightarrow> Stats" where
  "incAllocatedFrames s = s\<lparr>totalAllocatedFrames := totalAllocatedFrames s + 1\<rparr>"

definition incSwapIns :: "Stats \<Rightarrow> Stats" where
  "incSwapIns s = s\<lparr>totalSwapIns := totalSwapIns s + 1\<rparr>"

definition incSwapOuts :: "Stats \<Rightarrow> Stats" where
  "incSwapOuts s = s\<lparr>totalSwapOuts := totalSwapOuts s + 1\<rparr>"

definition recordProcessStats :: "int \<Rightarrow> string \<Rightarrow> nat \<Rightarrow> Stats \<Rightarrow> Stats" where
  "recordProcessStats pid name instr s =
     s\<lparr>processStats := processStats s @ [\<lparr>ps_pid = pid, ps_name = name, ps_instr = instr\<rparr>]\<rparr>"

section \<open>Blocks (disk/InMemoryDisk.cpp)\<close>

definition InMemoryDisk_new :: "nat \<Rightarrow> InMemoryDisk" where
  "InMemoryDisk_new sz = \<lparr>data = replicate (sz * BLOCK_SIZE) 0, totalBlocks = sz\<rparr>"

text \<open>
  The block's offset is computed in the 32-bit \<^verbatim>\<open>Addr\<close>; a range that does not
  lie in the data is undefined behaviour of \<^verbatim>\<open>std::copy\<close>.
\<close>

definition readBlock :: "nat \<Rightarrow> Byte list \<Rightarrow> ('a IO_scheme, Byte list) prog" where
  "readBlock blockIndex buffer = (\<lambda>s.
     if blockIndex \<ge> totalBlocks (disk s) then Inr (buffer, s)
     else if length buffer \<noteq> BLOCK_SIZE then Inr (buffer, s)
     else
       let startOffset = (of_nat (blockIndex * BLOCK_SIZE) :: Addr);
           endOffset = startOffset + of_nat BLOCK_SIZE in
       if unat startOffset \<le> unat endOffset \<and> unat endOffset \<le> length (data (disk s)) then
         Inr (take (unat endOffset - unat startOffset) (drop (unat startOffset) (data (disk s))),
              s\<lparr>stats := incDiskReads (stats s)\<rparr>)
       else Inl UndefinedBehaviour)"

definition writeBlock :: "nat \<Rightarrow> Byte list \<Rightarrow> ('a IO_scheme, unit) prog" where
  "writeBlock blockIndex buffer = (\<lambda>s.
     if blockIndex \<ge> totalBlocks (disk s) then Inr ((), s)
     else if length buffer \<noteq> BLOCK_SIZE then Inr ((), s)
     else
       let offset = unat (of_nat (blockIndex * BLOCK_SIZE) :: Addr) in
       if offset + length buffer \<le> length (data (disk s)) then
         Inr ((), s\<lparr>stats := incDiskWrites (stats s),
                    disk := (disk s)\<lparr>data := take offset (data (disk s)) @ buffer @
                                            drop (offset + length buffer) (data (disk s))\<rparr>\<rparr>)
       else Inl UndefinedBehaviour)"

definition numBlocks :: "'a IO_scheme \<Rightarrow> nat" where
  "numBlocks s = totalBlocks (disk s)"

section \<open>The block contract\<close>

definition disk_ok :: "'a IO_scheme \<Rightarrow> bool" where
  "disk_ok s \<longleftrightarrow> length (data (disk s)) = totalBlocks (disk s) * BLOCK_SIZE \<and> totalBlocks (disk s) < 2 ^ 20"

definition block :: "'a IO_scheme \<Rightarrow> nat \<Rightarrow> Byte list" where
  "block s i = take BLOCK_SIZE (drop (i * BLOCK_SIZE) (data (disk s)))"

locale block_device =
  fixes rd_block :: "nat \<Rightarrow> Byte list \<Rightarrow> ('s, Byte list) prog"
    and wr_block :: "nat \<Rightarrow> Byte list \<Rightarrow> ('s, unit) prog"
    and contents :: "'s \<Rightarrow> nat \<Rightarrow> Byte list"
    and nblocks :: "'s \<Rightarrow> nat"
    and dok :: "'s \<Rightarrow> bool"
  assumes rd_block: "dok s \<Longrightarrow> i < nblocks s \<Longrightarrow> length b = BLOCK_SIZE \<Longrightarrow>
      \<exists>s'. rd_block i b s = Inr (contents s i, s') \<and> dok s' \<and> nblocks s' = nblocks s \<and> contents s' = contents s"
    and wr_block: "dok s \<Longrightarrow> i < nblocks s \<Longrightarrow> length b = BLOCK_SIZE \<Longrightarrow>
      \<exists>s'. wr_block i b s = Inr ((), s') \<and> dok s' \<and> nblocks s' = nblocks s \<and>
        (\<forall>j < nblocks s. contents s' j = (if j = i then b else contents s j))"
    and block_length: "dok s \<Longrightarrow> i < nblocks s \<Longrightarrow> length (contents s i) = BLOCK_SIZE"
begin

lemma write_then_read:
  assumes "dok s" "i < nblocks s" "j < nblocks s" "length b = BLOCK_SIZE" "length b' = BLOCK_SIZE"
  shows "\<exists>s'. bind (wr_block i b) (\<lambda>_. rd_block j b') s =
    Inr (if j = i then b else contents s j, s')"
proof -
  obtain s1 where s1: "wr_block i b s = Inr ((), s1)" "dok s1" "nblocks s1 = nblocks s"
    "contents s1 j = (if j = i then b else contents s j)"
    using wr_block [OF assms(1,2,4)] assms(3) by blast
  then show ?thesis
    using rd_block [of s1 j b'] assms by auto
qed

text \<open>Read a block, change it, write it back: only that block changes.\<close>

lemma update_block:
  assumes "dok s" "i < nblocks s" "length b = BLOCK_SIZE" "\<And>c. length c = BLOCK_SIZE \<Longrightarrow> length (f c) = BLOCK_SIZE"
  shows "\<exists>s'. bind (rd_block i b) (\<lambda>c. wr_block i (f c)) s = Inr ((), s') \<and> dok s' \<and>
    nblocks s' = nblocks s \<and>
    (\<forall>j < nblocks s. contents s' j = (if j = i then f (contents s i) else contents s j))"
proof -
  obtain s1 where s1: "rd_block i b s = Inr (contents s i, s1)" "dok s1" "nblocks s1 = nblocks s"
    "contents s1 = contents s"
    using rd_block assms by blast
  moreover obtain s2 where "wr_block i (f (contents s i)) s1 = Inr ((), s2)" "dok s2" "nblocks s2 = nblocks s1"
    "\<forall>j < nblocks s1. contents s2 j = (if j = i then f (contents s i) else contents s1 j)"
    using wr_block [of s1 i "f (contents s i)"] s1 assms block_length by auto
  ultimately show ?thesis by (intro exI [of _ s2]) simp
qed

end

lemma block_offset:
  assumes "disk_ok s" "i < totalBlocks (disk s)"
  shows "unat (of_nat (i * BLOCK_SIZE) :: Addr) = i * BLOCK_SIZE"
    "unat (of_nat (i * BLOCK_SIZE) + of_nat BLOCK_SIZE :: Addr) = i * BLOCK_SIZE + BLOCK_SIZE"
    "i * BLOCK_SIZE + BLOCK_SIZE \<le> length (data (disk s))"
  using assms by (auto simp: disk_ok_def BLOCK_SIZE_def unat_word_ariths unat_of_nat)

lemma readBlock_in:
  assumes "disk_ok s" "i < totalBlocks (disk s)" "length b = BLOCK_SIZE"
  shows "readBlock i b s = Inr (block s i, s\<lparr>stats := incDiskReads (stats s)\<rparr>)"
  using assms block_offset [OF assms(1,2)] by (simp add: readBlock_def Let_def block_def)

lemma writeBlock_in:
  assumes "disk_ok s" "i < totalBlocks (disk s)" "length b = BLOCK_SIZE"
  shows "writeBlock i b s = Inr ((), s\<lparr>stats := incDiskWrites (stats s),
      disk := (disk s)\<lparr>data := take (i * BLOCK_SIZE) (data (disk s)) @ b @
        drop (i * BLOCK_SIZE + BLOCK_SIZE) (data (disk s))\<rparr>\<rparr>)"
  using assms block_offset [OF assms(1,2)] by (simp add: writeBlock_def Let_def)

lemma block_splice:
  assumes "disk_ok s" "i < totalBlocks (disk s)" "j < totalBlocks (disk s)" "length b = BLOCK_SIZE"
  shows "take BLOCK_SIZE (drop (j * BLOCK_SIZE) (take (i * BLOCK_SIZE) (data (disk s)) @ b @
      drop (i * BLOCK_SIZE + BLOCK_SIZE) (data (disk s)))) = (if j = i then b else block s j)"
proof -
  have l: "length (data (disk s)) = totalBlocks (disk s) * 4096" "length b = 4096"
    using assms by (simp_all add: disk_ok_def BLOCK_SIZE_def)
  show ?thesis
  proof (cases i j rule: linorder_cases)
    case less
    then have "j * 4096 = (i * 4096 + 4096) + (j - Suc i) * 4096"
      by (metis (no_types, lifting) Suc_leI add.commute add_mult_distrib le_add_diff_inverse mult_Suc)
    then show ?thesis
      using less assms l by (simp add: block_def BLOCK_SIZE_def add.commute)
  next
    case equal
    then show ?thesis
      using assms l by (simp add: block_def BLOCK_SIZE_def)
  next
    case greater
    then have "j * 4096 + 4096 \<le> i * 4096"
      by simp
    then show ?thesis
      using greater assms l by (simp add: block_def BLOCK_SIZE_def take_drop)
  qed
qed

interpretation blocks: block_device readBlock writeBlock block "\<lambda>s. totalBlocks (disk s)" disk_ok
proof
  fix s :: "'a IO_scheme" and i and b :: "Byte list"
  assume s: "disk_ok s" "i < totalBlocks (disk s)"
  show "length (block s i) = BLOCK_SIZE"
    using s block_offset [OF s] by (simp add: block_def)
  assume b: "length b = BLOCK_SIZE"
  have "block (s\<lparr>stats := x\<rparr>) = block s" for x
    by (simp add: block_def fun_eq_iff)
  then show "\<exists>s'. readBlock i b s = Inr (block s i, s') \<and> disk_ok s' \<and>
      totalBlocks (disk s') = totalBlocks (disk s) \<and> block s' = block s"
    using s b by (simp add: readBlock_in) (simp add: disk_ok_def)
  show "\<exists>s'. writeBlock i b s = Inr ((), s') \<and> disk_ok s' \<and>
      totalBlocks (disk s') = totalBlocks (disk s) \<and>
      (\<forall>j < totalBlocks (disk s). block s' j = (if j = i then b else block s j))"
    using s b block_splice [OF s] block_offset [OF s]
    by (simp add: writeBlock_in) (simp add: disk_ok_def block_def)
qed

end
