(* ===== verification/Files.thy ===== *)
theory Files
  imports Disk
begin

text \<open>
  Disk files and the file table: \<^verbatim>\<open>filesystem/DiskFileHandle\<close> and
  \<^verbatim>\<open>filesystem/StubFileSystem\<close> (behind \<^verbatim>\<open>VFSInterface\<close>,
  whose methods forward to it).  A file is a run of consecutive blocks; reads and writes
  go through one block-sized buffer at a time.  The lemmas show that the block-wise loops
  compute the byte-wise meaning: a read returns the file's bytes at the cursor, a write
  replaces them and nothing else on the disk.
\<close>

section \<open>Replacing part of a list\<close>

definition put_at :: "nat \<Rightarrow> 'x list \<Rightarrow> 'x list \<Rightarrow> 'x list" where
  "put_at i ys xs = take i xs @ ys @ drop (i + length ys) xs"

lemma length_put_at [simp]: "i + length ys \<le> length xs \<Longrightarrow> length (put_at i ys xs) = length xs"
  by (simp add: put_at_def)

lemma put_at_Nil [simp]: "put_at i [] xs = xs"
  by (simp add: put_at_def)

lemma nth_put_at:
  "i + length ys \<le> length xs \<Longrightarrow> j < length xs \<Longrightarrow>
     put_at i ys xs ! j = (if i \<le> j \<and> j < i + length ys then ys ! (j - i) else xs ! j)"
  by (auto simp: put_at_def nth_append min_def)

lemma put_at_put_at:
  assumes "i + length (ys @ zs) \<le> length xs"
  shows "put_at (i + length ys) zs (put_at i ys xs) = put_at i (ys @ zs) xs"
  using assms by (intro nth_equalityI) (auto simp: nth_put_at nth_append)

lemma put_at_inside:
  assumes "a + n \<le> length xs" "i + length ys \<le> n"
  shows "put_at a (put_at i ys (take n (drop a xs))) xs = put_at (a + i) ys xs"
  using assms by (intro nth_equalityI) (auto simp: nth_put_at)

lemma take_drop_put_at:
  assumes "a + n \<le> length xs" "i + length ys \<le> n"
  shows "take n (drop a (put_at (a + i) ys xs)) = put_at i ys (take n (drop a xs))"
  using assms by (intro nth_equalityI) (auto simp: nth_put_at)

section \<open>File handles (filesystem/DiskFileHandle.cpp)\<close>

record DiskFileHandle =
  startBlockIndex :: nat
  fileSize :: nat
  cursor :: Addr

definition DiskFileHandle_new :: "nat \<Rightarrow> nat \<Rightarrow> DiskFileHandle" where
  "DiskFileHandle_new start sz = \<lparr>startBlockIndex = start, fileSize = sz, cursor = 0\<rparr>"

definition DiskFileHandle_eof :: "DiskFileHandle \<Rightarrow> bool" where
  "DiskFileHandle_eof h \<longleftrightarrow> unat (cursor h) \<ge> fileSize h"

definition DiskFileHandle_seek :: "DiskFileHandle \<Rightarrow> Word \<Rightarrow> Word \<times> DiskFileHandle" where
  "DiskFileHandle_seek h offset = (cursor h + offset, h\<lparr>cursor := cursor h + offset\<rparr>)"

definition DiskFileHandle_reset :: "DiskFileHandle \<Rightarrow> Word \<times> DiskFileHandle" where
  "DiskFileHandle_reset h = (0, h\<lparr>cursor := 0\<rparr>)"

text \<open>The block under the cursor, in the 32-bit arithmetic of the source.\<close>

definition absoluteBlock :: "DiskFileHandle \<Rightarrow> nat" where
  "absoluteBlock h =
     unat (of_nat (startBlockIndex h) + of_nat (unat (cursor h) div BLOCK_SIZE) :: Addr)"

definition offsetInBlock :: "DiskFileHandle \<Rightarrow> nat" where
  "offsetInBlock h = unat (cursor h) mod BLOCK_SIZE"

lemma offset_less: "offsetInBlock h < BLOCK_SIZE"
  by (simp add: offsetInBlock_def BLOCK_SIZE_def)

lemma chunk_progress: "b < n \<Longrightarrow> n - (b + min (BLOCK_SIZE - offsetInBlock h) (n - b)) < n - b"
  using offset_less [of h] by (simp add: min_def, arith)

function read_loop ::
  "nat \<Rightarrow> nat \<Rightarrow> Byte list \<Rightarrow> Byte list \<Rightarrow> DiskFileHandle \<Rightarrow>
     ('a IO_scheme, nat \<times> Byte list \<times> DiskFileHandle) prog" where
  "read_loop toRead bytesRead buffer temp h s =
     (if bytesRead < toRead then
        (case readBlock (absoluteBlock h) temp s of
           Inl e \<Rightarrow> Inl e
         | Inr (temp', s') \<Rightarrow>
             let chunk = min (BLOCK_SIZE - offsetInBlock h) (toRead - bytesRead) in
             read_loop toRead (bytesRead + chunk)
               (put_at bytesRead (take chunk (drop (offsetInBlock h) temp')) buffer) temp'
               (h\<lparr>cursor := cursor h + of_nat chunk\<rparr>) s')
      else Inr ((bytesRead, buffer, h), s))"
  by pat_completeness auto

termination
  by (relation "measure (\<lambda>(toRead, bytesRead, _). toRead - bytesRead)")
     (simp_all add: chunk_progress)

text \<open>
  \<^verbatim>\<open>buffer.resize(toRead)\<close> keeps the bytes it has and pads with zeros.
\<close>

definition DiskFileHandle_read ::
  "DiskFileHandle \<Rightarrow> Byte list \<Rightarrow> nat \<Rightarrow> ('a IO_scheme, nat \<times> Byte list \<times> DiskFileHandle) prog" where
  "DiskFileHandle_read h buffer sz =
     (if DiskFileHandle_eof h then ret (0, buffer, h)
      else
        let toRead = (if unat (cursor h) + sz > fileSize h then fileSize h - unat (cursor h) else sz);
            buffer' = take toRead buffer @ replicate (toRead - length buffer) 0 in
        read_loop toRead 0 buffer' (replicate BLOCK_SIZE 0) h)"

function write_loop ::
  "nat \<Rightarrow> nat \<Rightarrow> Byte list \<Rightarrow> Byte list \<Rightarrow> DiskFileHandle \<Rightarrow>
     ('a IO_scheme, nat \<times> DiskFileHandle) prog" where
  "write_loop toWrite bytesWritten buffer temp h s =
     (if bytesWritten < toWrite then
        (case readBlock (absoluteBlock h) temp s of
           Inl e \<Rightarrow> Inl e
         | Inr (temp', s') \<Rightarrow>
             let chunk = min (BLOCK_SIZE - offsetInBlock h) (toWrite - bytesWritten) in
             if bytesWritten + chunk \<le> length buffer then
               let temp'' = put_at (offsetInBlock h) (take chunk (drop bytesWritten buffer)) temp' in
               (case writeBlock (absoluteBlock h) temp'' s' of
                  Inl e \<Rightarrow> Inl e
                | Inr (_, s'') \<Rightarrow>
                    write_loop toWrite (bytesWritten + chunk) buffer temp''
                      (h\<lparr>cursor := cursor h + of_nat chunk\<rparr>) s'')
             else Inl UndefinedBehaviour)
      else Inr ((bytesWritten, h), s))"
  by pat_completeness auto

termination
  by (relation "measure (\<lambda>(toWrite, bytesWritten, _). toWrite - bytesWritten)")
     (simp_all add: chunk_progress)

definition DiskFileHandle_write ::
  "DiskFileHandle \<Rightarrow> Byte list \<Rightarrow> nat \<Rightarrow> ('a IO_scheme, nat \<times> DiskFileHandle) prog" where
  "DiskFileHandle_write h buffer sz =
     (if DiskFileHandle_eof h then ret (0, h)
      else
        let toWrite = (if unat (cursor h) + sz > fileSize h then fileSize h - unat (cursor h) else sz) in
        write_loop toWrite 0 buffer (replicate BLOCK_SIZE 0) h)"

declare read_loop.simps [simp del] write_loop.simps [simp del]

section \<open>The loops byte by byte\<close>

text \<open>The position on the disk of the byte under the cursor.\<close>

definition file_pos :: "DiskFileHandle \<Rightarrow> nat" where
  "file_pos h = startBlockIndex h * BLOCK_SIZE + unat (cursor h)"

definition file_ok :: "'a IO_scheme \<Rightarrow> DiskFileHandle \<Rightarrow> bool" where
  "file_ok s h \<longleftrightarrow> disk_ok s \<and> startBlockIndex h * BLOCK_SIZE + fileSize h \<le> length (data (disk s))"

definition file_bytes :: "'a IO_scheme \<Rightarrow> DiskFileHandle \<Rightarrow> Byte list" where
  "file_bytes s h = take (fileSize h) (drop (startBlockIndex h * BLOCK_SIZE) (data (disk s)))"

lemma disk_ok_bytes: "disk_ok s \<Longrightarrow> length (data (disk s)) < 2 ^ 32"
  by (simp add: disk_ok_def BLOCK_SIZE_def)

lemma cursor_block:
  assumes "disk_ok s" "file_pos h < length (data (disk s))"
  shows "absoluteBlock h < totalBlocks (disk s)"
    "absoluteBlock h * BLOCK_SIZE + offsetInBlock h = file_pos h"
proof -
  let ?b = "startBlockIndex h + unat (cursor h) div BLOCK_SIZE"
  have p: "?b * BLOCK_SIZE + offsetInBlock h = file_pos h"
    by (simp add: offsetInBlock_def file_pos_def add_mult_distrib)
  then have "?b * BLOCK_SIZE < totalBlocks (disk s) * BLOCK_SIZE"
    using assms unfolding disk_ok_def by linarith
  moreover have "totalBlocks (disk s) * BLOCK_SIZE \<le> ?b * BLOCK_SIZE" if "totalBlocks (disk s) \<le> ?b"
    using that by (rule mult_le_mono1)
  ultimately have b: "?b < totalBlocks (disk s)"
    by (meson not_le)
  then have "absoluteBlock h = ?b"
    using assms(1) by (simp add: absoluteBlock_def disk_ok_def unat_of_nat unat_word_ariths)
  then show "absoluteBlock h < totalBlocks (disk s)"
    "absoluteBlock h * BLOCK_SIZE + offsetInBlock h = file_pos h"
    using b p by simp_all
qed

lemma file_pos_advance:
  "unat (cursor h) + n < 2 ^ 32 \<Longrightarrow> file_pos (h\<lparr>cursor := cursor h + of_nat n\<rparr>) = file_pos h + n"
  by (simp add: file_pos_def unat_word_ariths unat_of_nat)

lemma disk_ok_stats [simp]:
  "disk_ok (s\<lparr>stats := x\<rparr>) = disk_ok s"
  "file_ok (s\<lparr>stats := x\<rparr>) h = file_ok s h"
  "file_bytes (s\<lparr>stats := x\<rparr>) h = file_bytes s h"
  "block (s\<lparr>stats := x\<rparr>) = block s"
  by (simp_all add: disk_ok_def file_ok_def file_bytes_def block_def fun_eq_iff)

text \<open>One turn of a loop: the bytes of a chunk are those at the cursor's position.\<close>

lemma chunk_bytes:
  assumes "disk_ok s" "file_pos h < length (data (disk s))" "n \<le> BLOCK_SIZE - offsetInBlock h"
  shows "take n (drop (offsetInBlock h) (block s (absoluteBlock h))) = take n (drop (file_pos h) (data (disk s)))"
proof -
  have "take n (drop (offsetInBlock h) (block s (absoluteBlock h))) =
      take (min n (BLOCK_SIZE - offsetInBlock h))
        (drop (absoluteBlock h * BLOCK_SIZE + offsetInBlock h) (data (disk s)))"
    by (simp add: block_def drop_take add.commute min.commute)
  then show ?thesis
    using assms(3) cursor_block [OF assms(1,2)] by (simp add: min_def)
qed

lemma chunk_write:
  assumes "disk_ok s" "file_pos h < length (data (disk s))"
    and "length bs \<le> BLOCK_SIZE - offsetInBlock h"
  shows "writeBlock (absoluteBlock h) (put_at (offsetInBlock h) bs (block s (absoluteBlock h))) s =
    Inr ((), s\<lparr>stats := incDiskWrites (stats s),
      disk := (disk s)\<lparr>data := put_at (file_pos h) bs (data (disk s))\<rparr>\<rparr>)"
proof -
  note c = cursor_block [OF assms(1,2)] and o = block_offset [OF assms(1) cursor_block(1) [OF assms(1,2)]]
  have l: "length (block s (absoluteBlock h)) = BLOCK_SIZE"
    using blocks.block_length [OF assms(1) c(1)] .
  then have l': "length (put_at (offsetInBlock h) bs (block s (absoluteBlock h))) = BLOCK_SIZE"
    using assms(3) offset_less [of h] by simp
  have "put_at (absoluteBlock h * BLOCK_SIZE) (put_at (offsetInBlock h) bs (block s (absoluteBlock h))) (data (disk s))
      = put_at (file_pos h) bs (data (disk s))"
    using put_at_inside [of "absoluteBlock h * BLOCK_SIZE" BLOCK_SIZE "data (disk s)" "offsetInBlock h" bs]
      assms(3) offset_less [of h] o(3) c(2) by (simp add: block_def)
  then show ?thesis
    using writeBlock_in [OF assms(1) c(1) l'] l' by (simp add: put_at_def)
qed

lemma cursor_advance:
  "b + n \<le> r \<Longrightarrow> c + of_nat n + of_nat (r - (b + n)) = c + (of_nat (r - b) :: Addr)"
  by (simp add: of_nat_diff)

lemma read_chunk:
  assumes "length buffer = r" "b + n \<le> r" "p + (r - b) \<le> length xs"
  shows "take (b + n) (put_at b (take n (drop p xs)) buffer) @ take (r - (b + n)) (drop (p + n) xs) =
    take b buffer @ take (r - b) (drop p xs)"
proof -
  have "take (b + n) (put_at b (take n (drop p xs)) buffer) = take b buffer @ take n (drop p xs)"
    using assms by (simp add: put_at_def)
  moreover have "take (n + (r - (b + n))) (drop p xs) =
      take n (drop p xs) @ take (r - (b + n)) (drop n (drop p xs))"
    by (rule take_add)
  ultimately show ?thesis
    using assms(2) by (simp add: add.commute)
qed

lemma write_chunk:
  assumes "w \<le> length buffer" "b + n \<le> w" "p + (w - b) \<le> length xs"
  shows "put_at (p + n) (drop (b + n) (take w buffer)) (put_at p (take n (drop b buffer)) xs) =
    put_at p (drop b (take w buffer)) xs"
proof -
  let ?ys = "take n (drop b buffer)" and ?zs = "drop (b + n) (take w buffer)"
  have "?ys @ ?zs = drop b (take w buffer)"
    using assms(2) take_add [of n "w - (b + n)" "drop b buffer"]
    by (simp add: drop_take add.commute)
  moreover have "put_at (p + length ?ys) ?zs (put_at p ?ys xs) = put_at p (?ys @ ?zs) xs"
    using assms by (intro put_at_put_at) simp
  ultimately show ?thesis
    using assms by simp
qed

lemma read_loop_eq:
  assumes "disk_ok s" "length temp = BLOCK_SIZE" "length buffer = toRead" "bytesRead \<le> toRead"
    and "file_pos h + (toRead - bytesRead) \<le> length (data (disk s))"
  shows "\<exists>st. read_loop toRead bytesRead buffer temp h s =
    Inr ((toRead, take bytesRead buffer @ take (toRead - bytesRead) (drop (file_pos h) (data (disk s))),
          h\<lparr>cursor := cursor h + of_nat (toRead - bytesRead)\<rparr>), s\<lparr>stats := st\<rparr>)"
  using assms
proof (induction toRead bytesRead buffer temp h s rule: read_loop.induct)
  case (1 toRead bytesRead buffer temp h s)
  show ?case
  proof (cases "bytesRead < toRead")
    case False
    then show ?thesis
      using 1(2-) by (subst read_loop.simps) (intro exI [of _ "stats s"], simp)
  next
    case True
    obtain n where n: "n = min (BLOCK_SIZE - offsetInBlock h) (toRead - bytesRead)"
      by simp
    then have n_le: "n \<le> BLOCK_SIZE - offsetInBlock h" "bytesRead + n \<le> toRead"
      using True by auto
    let ?bs = "take n (drop (file_pos h) (data (disk s)))"
    let ?s = "s\<lparr>stats := incDiskReads (stats s)\<rparr>"
    let ?h = "h\<lparr>cursor := cursor h + of_nat n\<rparr>"
    let ?blk = "block s (absoluteBlock h)"
    have p: "file_pos h < length (data (disk s))"
      using True 1(6) by linarith
    note c = cursor_block [OF 1(2) p]
    have r: "readBlock (absoluteBlock h) temp s = Inr (?blk, ?s)"
      by (rule readBlock_in [OF 1(2) c(1) 1(3)])
    have bs: "take n (drop (offsetInBlock h) ?blk) = ?bs"
      by (rule chunk_bytes [OF 1(2) p n_le(1)])
    have l: "length ?bs = n"
      using 1(6) n_le by simp
    have "unat (cursor h) + n < 2 ^ 32"
      using disk_ok_bytes [OF 1(2)] 1(6) n_le unfolding file_pos_def by linarith
    then have pos: "file_pos ?h = file_pos h + n"
      by (rule file_pos_advance)
    have "\<exists>st. read_loop toRead (bytesRead + n) (put_at bytesRead ?bs buffer) ?blk ?h ?s =
        Inr ((toRead, take (bytesRead + n) (put_at bytesRead ?bs buffer) @
             take (toRead - (bytesRead + n)) (drop (file_pos ?h) (data (disk ?s))),
          ?h\<lparr>cursor := cursor ?h + of_nat (toRead - (bytesRead + n))\<rparr>), ?s\<lparr>stats := st\<rparr>)"
    proof (rule 1(1) [OF True r refl n, unfolded bs])
      show "length (put_at bytesRead ?bs buffer) = toRead"
        using 1(4) l n_le by simp
      show "file_pos ?h + (toRead - (bytesRead + n)) \<le> length (data (disk ?s))"
        using 1(6) n_le pos by simp
    qed (use 1(2) n_le blocks.block_length [OF 1(2) c(1)] in simp_all)
    then obtain st where st: "read_loop toRead (bytesRead + n) (put_at bytesRead ?bs buffer) ?blk ?h ?s =
        Inr ((toRead, take (bytesRead + n) (put_at bytesRead ?bs buffer) @
             take (toRead - (bytesRead + n)) (drop (file_pos h + n) (data (disk s))),
          ?h\<lparr>cursor := cursor ?h + of_nat (toRead - (bytesRead + n))\<rparr>), ?s\<lparr>stats := st\<rparr>)"
      by (auto simp: pos)
    have "read_loop toRead bytesRead buffer temp h s =
        read_loop toRead (bytesRead + n) (put_at bytesRead ?bs buffer) ?blk ?h ?s"
      using True by (subst read_loop.simps) (simp add: r bs Let_def flip: n)
    moreover have "take (bytesRead + n) (put_at bytesRead ?bs buffer) @
        take (toRead - (bytesRead + n)) (drop (file_pos h + n) (data (disk s))) =
        take bytesRead buffer @ take (toRead - bytesRead) (drop (file_pos h) (data (disk s)))"
      using 1(4,6) n_le by (intro read_chunk) auto
    moreover have "?h\<lparr>cursor := cursor ?h + of_nat (toRead - (bytesRead + n))\<rparr> =
        h\<lparr>cursor := cursor h + of_nat (toRead - bytesRead)\<rparr>"
      using n_le(2) by (simp add: cursor_advance)
    ultimately have "read_loop toRead bytesRead buffer temp h s =
      Inr ((toRead, take bytesRead buffer @ take (toRead - bytesRead) (drop (file_pos h) (data (disk s))),
          h\<lparr>cursor := cursor h + of_nat (toRead - bytesRead)\<rparr>), ?s\<lparr>stats := st\<rparr>)"
      using st by (simp only:)
    then show ?thesis
      by (intro exI [of _ st]) simp
  qed
qed

lemma write_loop_eq:
  assumes "disk_ok s" "length temp = BLOCK_SIZE" "toWrite \<le> length buffer" "bytesWritten \<le> toWrite"
    and "file_pos h + (toWrite - bytesWritten) \<le> length (data (disk s))"
  shows "\<exists>st. write_loop toWrite bytesWritten buffer temp h s =
    Inr ((toWrite, h\<lparr>cursor := cursor h + of_nat (toWrite - bytesWritten)\<rparr>),
      s\<lparr>stats := st, disk := (disk s)\<lparr>data :=
          put_at (file_pos h) (drop bytesWritten (take toWrite buffer)) (data (disk s))\<rparr>\<rparr>)"
  using assms
proof (induction toWrite bytesWritten buffer temp h s rule: write_loop.induct)
  case (1 toWrite bytesWritten buffer temp h s)
  show ?case
  proof (cases "bytesWritten < toWrite")
    case False
    then show ?thesis
      using 1(2-) by (subst write_loop.simps) (intro exI [of _ "stats s"], simp)
  next
    case True
    obtain n where n: "n = min (BLOCK_SIZE - offsetInBlock h) (toWrite - bytesWritten)"
      by simp
    then have n_le: "n \<le> BLOCK_SIZE - offsetInBlock h" "bytesWritten + n \<le> toWrite"
      using True by auto
    let ?bs = "take n (drop bytesWritten buffer)"
    let ?blk = "block s (absoluteBlock h)"
    let ?s = "s\<lparr>stats := incDiskReads (stats s)\<rparr>"
    let ?d = "put_at (file_pos h) ?bs (data (disk s))"
    let ?s' = "s\<lparr>stats := incDiskWrites (incDiskReads (stats s)), disk := (disk s)\<lparr>data := ?d\<rparr>\<rparr>"
    let ?h = "h\<lparr>cursor := cursor h + of_nat n\<rparr>"
    have p: "file_pos h < length (data (disk s))"
      using True 1(6) by linarith
    note c = cursor_block [OF 1(2) p]
    have l: "length ?bs = n" "length ?d = length (data (disk s))"
      using 1(4,6) n_le by simp_all
    have r: "readBlock (absoluteBlock h) temp s = Inr (?blk, ?s)"
      by (rule readBlock_in [OF 1(2) c(1) 1(3)])
    have w: "writeBlock (absoluteBlock h) (put_at (offsetInBlock h) ?bs ?blk) ?s = Inr ((), ?s')"
      using chunk_write [of ?s h ?bs] 1(2) p l n_le by simp
    have "unat (cursor h) + n < 2 ^ 32"
      using disk_ok_bytes [OF 1(2)] 1(6) n_le unfolding file_pos_def by linarith
    then have pos: "file_pos ?h = file_pos h + n"
      by (rule file_pos_advance)
    have b: "bytesWritten + n \<le> length buffer"
      using 1(4) n_le by simp
    have "\<exists>st. write_loop toWrite (bytesWritten + n) buffer (put_at (offsetInBlock h) ?bs ?blk) ?h ?s' =
        Inr ((toWrite, ?h\<lparr>cursor := cursor ?h + of_nat (toWrite - (bytesWritten + n))\<rparr>),
          ?s'\<lparr>stats := st, disk := (disk ?s')\<lparr>data :=
            put_at (file_pos ?h) (drop (bytesWritten + n) (take toWrite buffer)) (data (disk ?s'))\<rparr>\<rparr>)"
    proof (rule 1(1) [OF True r refl n b refl w refl])
      show "disk_ok ?s'"
        using 1(2) l by (simp add: disk_ok_def)
      show "file_pos ?h + (toWrite - (bytesWritten + n)) \<le> length (data (disk ?s'))"
        using 1(6) n_le pos l by simp
      show "length (put_at (offsetInBlock h) ?bs ?blk) = BLOCK_SIZE"
        using blocks.block_length [OF 1(2) c(1)] l n_le offset_less [of h] by simp
    qed (use 1(4) n_le in simp_all)
    moreover have "put_at (file_pos h + n) (drop (bytesWritten + n) (take toWrite buffer)) ?d =
        put_at (file_pos h) (drop bytesWritten (take toWrite buffer)) (data (disk s))"
      using 1(4,6) n_le by (intro write_chunk) auto
    moreover have "?h\<lparr>cursor := cursor ?h + of_nat (toWrite - (bytesWritten + n))\<rparr> =
        h\<lparr>cursor := cursor h + of_nat (toWrite - bytesWritten)\<rparr>"
      using n_le(2) by (simp add: cursor_advance)
    moreover have "write_loop toWrite bytesWritten buffer temp h s =
        write_loop toWrite (bytesWritten + n) buffer (put_at (offsetInBlock h) ?bs ?blk) ?h ?s'"
      using True b by (subst write_loop.simps) (simp add: r w Let_def flip: n)
    ultimately show ?thesis
      by (simp add: pos)
  qed
qed

section \<open>Files as byte sequences\<close>

text \<open>The abstract file: its bytes and a position.\<close>

type_synonym afile = "Byte list \<times> nat"

definition afile_read :: "nat \<Rightarrow> afile \<Rightarrow> Byte list \<times> afile" where
  "afile_read n f = (let bs = take n (drop (snd f) (fst f)) in (bs, fst f, snd f + length bs))"

definition afile_write :: "Byte list \<Rightarrow> afile \<Rightarrow> nat \<times> afile" where
  "afile_write bs f =
     (let k = min (length bs) (length (fst f) - snd f) in
      (k, put_at (snd f) (take k bs) (fst f), snd f + k))"

definition file_abs :: "'a IO_scheme \<Rightarrow> DiskFileHandle \<Rightarrow> afile" where
  "file_abs s h = (file_bytes s h, unat (cursor h))"

lemma length_file_bytes: "file_ok s h \<Longrightarrow> length (file_bytes s h) = fileSize h"
  by (auto simp: file_ok_def file_bytes_def)

lemma file_ok_bytes:
  "file_ok s h \<Longrightarrow> unat (cursor h) + n \<le> fileSize h \<Longrightarrow> file_pos h + n \<le> length (data (disk s))"
  by (simp add: file_ok_def file_pos_def)

lemma file_ok_cursor:
  "file_ok s h \<Longrightarrow> unat (cursor h) + n \<le> fileSize h \<Longrightarrow> unat (cursor h + of_nat n) = unat (cursor h) + n"
  using disk_ok_bytes [of s] by (auto simp: file_ok_def unat_word_ariths unat_of_nat)

lemma file_slice:
  "unat (cursor h) + n \<le> fileSize h \<Longrightarrow>
     take n (drop (file_pos h) (data (disk s))) = take n (drop (unat (cursor h)) (file_bytes s h))"
  by (simp add: file_pos_def file_bytes_def drop_take add.commute min_def)

lemma read_run:
  assumes "file_ok s h" "\<not> DiskFileHandle_eof h" "k = min n (fileSize h - unat (cursor h))"
  shows "\<exists>st. DiskFileHandle_read h buffer n s =
    Inr ((k, take k (drop (unat (cursor h)) (file_bytes s h)), h\<lparr>cursor := cursor h + of_nat k\<rparr>),
         s\<lparr>stats := st\<rparr>)"
proof -
  have k: "(if unat (cursor h) + n > fileSize h then fileSize h - unat (cursor h) else n) = k"
    using assms(2,3) by (auto simp: DiskFileHandle_eof_def)
  have b: "unat (cursor h) + k \<le> fileSize h"
    using assms(2,3) by (auto simp: DiskFileHandle_eof_def)
  let ?buf = "take k buffer @ replicate (k - length buffer) 0"
  have "\<exists>st. read_loop k 0 ?buf (replicate BLOCK_SIZE 0) h s =
      Inr ((k, take 0 ?buf @ take (k - 0) (drop (file_pos h) (data (disk s))),
            h\<lparr>cursor := cursor h + of_nat (k - 0)\<rparr>), s\<lparr>stats := st\<rparr>)"
    using assms(1) file_ok_bytes [OF assms(1) b] by (intro read_loop_eq) (auto simp: file_ok_def)
  then show ?thesis
    using assms(2) by (simp add: DiskFileHandle_read_def k Let_def file_slice [OF b])
qed

lemma write_run:
  assumes "file_ok s h" "\<not> DiskFileHandle_eof h" "k = min n (fileSize h - unat (cursor h))"
    and "n \<le> length buffer"
  shows "\<exists>st. DiskFileHandle_write h buffer n s =
    Inr ((k, h\<lparr>cursor := cursor h + of_nat k\<rparr>),
         s\<lparr>stats := st, disk := (disk s)\<lparr>data := put_at (file_pos h) (take k buffer) (data (disk s))\<rparr>\<rparr>)"
proof -
  have k: "(if unat (cursor h) + n > fileSize h then fileSize h - unat (cursor h) else n) = k"
    using assms(2,3) by (auto simp: DiskFileHandle_eof_def)
  have b: "unat (cursor h) + k \<le> fileSize h"
    using assms(2,3) by (auto simp: DiskFileHandle_eof_def)
  have "\<exists>st. write_loop k 0 buffer (replicate BLOCK_SIZE 0) h s =
      Inr ((k, h\<lparr>cursor := cursor h + of_nat (k - 0)\<rparr>), s\<lparr>stats := st, disk := (disk s)\<lparr>data :=
        put_at (file_pos h) (drop 0 (take k buffer)) (data (disk s))\<rparr>\<rparr>)"
    using assms file_ok_bytes [OF assms(1) b] by (intro write_loop_eq) (auto simp: file_ok_def)
  then show ?thesis
    using assms(2) by (simp add: DiskFileHandle_write_def k Let_def)
qed

text \<open>The handle operations implement the abstract ones.\<close>

lemma read_refines_afile:
  assumes "file_ok s h" "n \<le> length buffer"
  shows "\<exists>k buffer' h' s'. DiskFileHandle_read h buffer n s = Inr ((k, buffer', h'), s') \<and>
    disk s' = disk s \<and> file_ok s' h' \<and> k = length (take k buffer') \<and>
    afile_read n (file_abs s h) = (take k buffer', file_abs s' h')"
proof (cases "DiskFileHandle_eof h")
  case True
  then have "drop (unat (cursor h)) (file_bytes s h) = []"
    by (simp add: DiskFileHandle_eof_def length_file_bytes [OF assms(1)])
  then show ?thesis
    using True assms(1)
    by (simp add: DiskFileHandle_read_def ret_run afile_read_def file_abs_def)
next
  case False
  let ?k = "min n (fileSize h - unat (cursor h))"
  obtain st where st: "DiskFileHandle_read h buffer n s =
      Inr ((?k, take ?k (drop (unat (cursor h)) (file_bytes s h)), h\<lparr>cursor := cursor h + of_nat ?k\<rparr>),
           s\<lparr>stats := st\<rparr>)"
    using read_run [OF assms(1) False refl] by blast
  have b: "unat (cursor h) + ?k \<le> fileSize h"
    using False by (auto simp: DiskFileHandle_eof_def)
  have "take n (drop (unat (cursor h)) (file_bytes s h)) = take ?k (drop (unat (cursor h)) (file_bytes s h))"
    by (simp add: length_file_bytes [OF assms(1)] min_def)
  moreover have "file_ok s (h\<lparr>cursor := c\<rparr>)" "file_bytes s (h\<lparr>cursor := c\<rparr>) = file_bytes s h" for c
    using assms(1) by (simp_all add: file_ok_def file_bytes_def)
  ultimately show ?thesis
    using st b length_file_bytes [OF assms(1)] file_ok_cursor [OF assms(1) b]
    by (simp add: afile_read_def file_abs_def Let_def)
qed

definition outside :: "DiskFileHandle \<Rightarrow> nat \<Rightarrow> bool" where
  "outside h i \<longleftrightarrow> i < startBlockIndex h * BLOCK_SIZE \<or> startBlockIndex h * BLOCK_SIZE + fileSize h \<le> i"

lemma write_refines_afile:
  assumes "file_ok s h" "n \<le> length buffer"
  shows "\<exists>k h' s'. DiskFileHandle_write h buffer n s = Inr ((k, h'), s') \<and> file_ok s' h' \<and>
    startBlockIndex h' = startBlockIndex h \<and> fileSize h' = fileSize h \<and>
    totalBlocks (disk s') = totalBlocks (disk s) \<and>
    afile_write (take n buffer) (file_abs s h) = (k, file_abs s' h') \<and>
    (\<forall>i < length (data (disk s)). outside h i \<longrightarrow> data (disk s') ! i = data (disk s) ! i)"
proof (cases "DiskFileHandle_eof h")
  case True
  then show ?thesis
    using assms(1) length_file_bytes [OF assms(1)]
    by (simp add: DiskFileHandle_write_def ret_run afile_write_def file_abs_def DiskFileHandle_eof_def Let_def)
next
  case False
  let ?k = "min n (fileSize h - unat (cursor h))"
  let ?d = "put_at (file_pos h) (take ?k buffer) (data (disk s))"
  let ?h = "h\<lparr>cursor := cursor h + of_nat ?k\<rparr>"
  obtain st where st: "DiskFileHandle_write h buffer n s =
      Inr ((?k, ?h), s\<lparr>stats := st, disk := (disk s)\<lparr>data := ?d\<rparr>\<rparr>)" (is "_ = Inr (_, ?s)")
    using write_run [OF assms(1) False refl assms(2)] by blast
  have b: "unat (cursor h) + ?k \<le> fileSize h"
    using False by (auto simp: DiskFileHandle_eof_def)
  have l: "length (take ?k buffer) = ?k" "file_pos h + ?k \<le> length (data (disk s))"
    using assms(2) file_ok_bytes [OF assms(1) b] by auto
  have "file_bytes ?s h = put_at (unat (cursor h)) (take ?k buffer) (file_bytes s h)"
    using take_drop_put_at [of "startBlockIndex h * BLOCK_SIZE" "fileSize h" "data (disk s)"
        "unat (cursor h)" "take ?k buffer"] assms(1) b l
    by (simp add: file_bytes_def file_pos_def file_ok_def)
  moreover have "file_bytes ?s ?h = file_bytes ?s h"
    by (simp add: file_bytes_def)
  moreover have "file_ok ?s ?h"
    using assms(1) l by (simp add: file_ok_def disk_ok_def)
  moreover have "?d ! i = data (disk s) ! i" if "i < length (data (disk s))" "outside h i" for i
    using that l b by (auto simp: nth_put_at outside_def file_pos_def)
  moreover have "take ?k (take n buffer) = take ?k buffer" "min (length (take n buffer)) (fileSize h - unat (cursor h)) = ?k"
    using assms(2) by (simp_all add: min_def)
  ultimately show ?thesis
    using st length_file_bytes [OF assms(1)] file_ok_cursor [OF assms(1) b]
    by (simp add: afile_write_def file_abs_def Let_def)
qed

section \<open>The file table (filesystem/StubFileSystem.cpp)\<close>

record FileMetadata =
  fm_name :: string
  startBlock :: Addr
  sizeBytes :: nat

record StubFileSystem =
  fileTable :: "string \<rightharpoonup> FileMetadata"
  freeBlockPointer :: Addr

record FileIO = IO +
  vfs :: StubFileSystem

definition StubFileSystem_new :: StubFileSystem where
  "StubFileSystem_new = \<lparr>fileTable = (\<lambda>_. None), freeBlockPointer = 0\<rparr>"

definition VFS_open :: "string \<Rightarrow> ('a FileIO_scheme, DiskFileHandle option) prog" where
  "VFS_open filename = (\<lambda>s.
     case fileTable (vfs s) filename of
       None \<Rightarrow> Inr (None, s)
     | Some meta \<Rightarrow> Inr (Some (DiskFileHandle_new (unat (startBlock meta)) (sizeBytes meta)), s))"

definition VFS_createFile :: "string \<Rightarrow> nat \<Rightarrow> ('a FileIO_scheme, bool) prog" where
  "VFS_createFile filename sz = (\<lambda>s.
     if fileTable (vfs s) filename \<noteq> None then Inr (False, s)
     else
       let blocksNeeded = (sz + BLOCK_SIZE - 1) div BLOCK_SIZE in
       if unat (freeBlockPointer (vfs s)) + blocksNeeded > numBlocks s then Inr (False, s)
       else
         let meta = \<lparr>fm_name = filename, startBlock = freeBlockPointer (vfs s), sizeBytes = sz\<rparr> in
         Inr (True, s\<lparr>vfs := \<lparr>fileTable = (fileTable (vfs s))(filename \<mapsto> meta),
                             freeBlockPointer = freeBlockPointer (vfs s) + of_nat blocksNeeded\<rparr>\<rparr>))"

definition VFS_removeFile :: "string \<Rightarrow> ('a FileIO_scheme, bool) prog" where
  "VFS_removeFile filename = (\<lambda>s.
     if fileTable (vfs s) filename = None then Inr (False, s)
     else Inr (True, s\<lparr>vfs := (vfs s)\<lparr>fileTable := (fileTable (vfs s))(filename := None)\<rparr>\<rparr>))"

section \<open>Extents\<close>

definition blocks_for :: "nat \<Rightarrow> nat" where
  "blocks_for sz = (sz + BLOCK_SIZE - 1) div BLOCK_SIZE"

definition extent :: "FileMetadata \<Rightarrow> nat set" where
  "extent m = {unat (startBlock m) ..< unat (startBlock m) + blocks_for (sizeBytes m)}"

text \<open>
  The files' extents lie below the allocation pointer, which stays on the disk, and
  no two of them meet.
\<close>

definition fs_ok :: "'a FileIO_scheme \<Rightarrow> bool" where
  "fs_ok s \<longleftrightarrow> disk_ok s \<and> unat (freeBlockPointer (vfs s)) \<le> totalBlocks (disk s) \<and>
     (\<forall>f m. fileTable (vfs s) f = Some m \<longrightarrow>
        unat (startBlock m) + blocks_for (sizeBytes m) \<le> unat (freeBlockPointer (vfs s))) \<and>
     (\<forall>f g m n. fileTable (vfs s) f = Some m \<and> fileTable (vfs s) g = Some n \<and> f \<noteq> g \<longrightarrow>
        extent m \<inter> extent n = {})"

lemma blocks_for_enough: "sz \<le> blocks_for sz * BLOCK_SIZE"
proof -
  have "sz + 4095 = (sz + 4095) div 4096 * 4096 + (sz + 4095) mod 4096"
    by simp
  moreover have "(sz + 4095) mod 4096 < 4096"
    by simp
  ultimately show ?thesis
    unfolding blocks_for_def BLOCK_SIZE_def by linarith
qed

lemma createFile_ok:
  assumes "fs_ok s" "VFS_createFile f sz s = Inr (True, s')"
  shows "fs_ok s' \<and> disk s' = disk s \<and>
    fileTable (vfs s') f = Some \<lparr>fm_name = f, startBlock = freeBlockPointer (vfs s), sizeBytes = sz\<rparr> \<and>
    (\<forall>g. g \<noteq> f \<longrightarrow> fileTable (vfs s') g = fileTable (vfs s) g)"
proof -
  let ?b = "blocks_for sz" and ?p = "freeBlockPointer (vfs s)"
  let ?m = "\<lparr>fm_name = f, startBlock = ?p, sizeBytes = sz\<rparr>"
  have free: "unat ?p + ?b \<le> totalBlocks (disk s)" "fileTable (vfs s) f = None"
    and s': "s' = s\<lparr>vfs := \<lparr>fileTable = (fileTable (vfs s))(f \<mapsto> ?m), freeBlockPointer = ?p + of_nat ?b\<rparr>\<rparr>"
    using assms(2) by (auto simp: VFS_createFile_def Let_def numBlocks_def blocks_for_def split: if_splits)
  have "totalBlocks (disk s) < 2 ^ 20"
    using assms(1) by (simp add: fs_ok_def disk_ok_def)
  then have p: "unat (?p + of_nat ?b) = unat ?p + ?b"
    using free(1) by (simp add: unat_word_ariths unat_of_nat)
  have old: "unat (startBlock m) + blocks_for (sizeBytes m) \<le> unat ?p" if "fileTable (vfs s) g = Some m" for g m
    using assms(1) that by (auto simp: fs_ok_def)
  have new: "extent ?m \<inter> extent n = {}" "extent n \<inter> extent ?m = {}" if "fileTable (vfs s) g = Some n" for g n
    using old [OF that] by (auto simp: extent_def)
  have "disk_ok s'"
    using assms(1) by (simp add: fs_ok_def s' disk_ok_def)
  moreover have "unat (freeBlockPointer (vfs s')) \<le> totalBlocks (disk s')"
    using p free(1) by (simp add: s')
  moreover have "unat (startBlock m) + blocks_for (sizeBytes m) \<le> unat (freeBlockPointer (vfs s'))"
    if "fileTable (vfs s') g = Some m" for g m
    using that p by (auto simp: s' split: if_splits dest!: old)
  moreover have "extent m \<inter> extent n = {}"
    if "fileTable (vfs s') g = Some m" "fileTable (vfs s') h = Some n" "g \<noteq> h" for g h m n
  proof -
    have "extent m \<inter> extent n = {}" if "fileTable (vfs s) g = Some m" "fileTable (vfs s) h = Some n"
      using assms(1) that \<open>g \<noteq> h\<close> unfolding fs_ok_def by blast
    then show ?thesis
      using that new by (auto simp: s' split: if_splits)
  qed
  ultimately have "fs_ok s'"
    unfolding fs_ok_def by blast
  then show ?thesis
    by (simp add: s')
qed

lemma createFile_fails:
  "VFS_createFile f sz s = Inr (False, s') \<Longrightarrow> s' = s"
  by (auto simp: VFS_createFile_def Let_def split: if_splits)

lemma removeFile_ok:
  assumes "fs_ok s" "VFS_removeFile f s = Inr (b, s')"
  shows "fs_ok s'"
proof (cases "fileTable (vfs s) f")
  case None
  then show ?thesis
    using assms by (simp add: VFS_removeFile_def)
next
  case (Some m)
  then have "s' = s\<lparr>vfs := (vfs s)\<lparr>fileTable := (fileTable (vfs s))(f := None)\<rparr>\<rparr>"
    using assms(2) by (simp add: VFS_removeFile_def)
  then show ?thesis
    using assms(1) by (simp add: fs_ok_def disk_ok_def)
qed

lemma open_file_ok:
  assumes "fs_ok s" "fileTable (vfs s) f = Some m"
  shows "VFS_open f s = Inr (Some (DiskFileHandle_new (unat (startBlock m)) (sizeBytes m)), s)"
    and "file_ok s (DiskFileHandle_new (unat (startBlock m)) (sizeBytes m))"
proof -
  have "(unat (startBlock m) + blocks_for (sizeBytes m)) * BLOCK_SIZE \<le> totalBlocks (disk s) * BLOCK_SIZE"
    using assms by (intro mult_le_mono1) (auto simp: fs_ok_def intro: order_trans)
  then have "unat (startBlock m) * BLOCK_SIZE + sizeBytes m \<le> totalBlocks (disk s) * BLOCK_SIZE"
    using blocks_for_enough [of "sizeBytes m"] by (simp add: add_mult_distrib)
  then show "file_ok s (DiskFileHandle_new (unat (startBlock m)) (sizeBytes m))"
    using assms(1) by (simp add: file_ok_def fs_ok_def disk_ok_def DiskFileHandle_new_def)
qed (use assms(2) in \<open>simp add: VFS_open_def\<close>)

section \<open>Files do not disturb one another\<close>

definition handle_of :: "DiskFileHandle \<Rightarrow> FileMetadata \<Rightarrow> bool" where
  "handle_of h m \<longleftrightarrow> startBlockIndex h = unat (startBlock m) \<and> fileSize h = sizeBytes m"

lemma handle_of_file_ok:
  "fs_ok s \<Longrightarrow> fileTable (vfs s) f = Some m \<Longrightarrow> handle_of h m \<Longrightarrow> file_ok s h"
  using open_file_ok(2) [of s f m] by (simp add: file_ok_def handle_of_def DiskFileHandle_new_def)

lemma extents_apart:
  assumes "extent m \<inter> extent n = {}" "handle_of h m" "handle_of k n"
    and "startBlockIndex k * BLOCK_SIZE \<le> i" "i < startBlockIndex k * BLOCK_SIZE + fileSize k"
  shows "outside h i"
proof (rule ccontr)
  assume "\<not> outside h i"
  then have "startBlockIndex h * BLOCK_SIZE \<le> i" "i < startBlockIndex h * BLOCK_SIZE + fileSize h"
    by (auto simp: outside_def)
  moreover have "x \<le> i div BLOCK_SIZE \<and> i div BLOCK_SIZE < x + blocks_for sz"
    if "x * BLOCK_SIZE \<le> i" "i < x * BLOCK_SIZE + sz" for x sz
  proof -
    have "i < (x + blocks_for sz) * BLOCK_SIZE"
      using that(2) blocks_for_enough [of sz] by (simp add: add_mult_distrib)
    then show ?thesis
      using that(1) by (simp add: BLOCK_SIZE_def less_eq_div_iff_mult_less_eq div_less_iff_less_mult)
  qed
  ultimately have "i div BLOCK_SIZE \<in> extent m" "i div BLOCK_SIZE \<in> extent n"
    using assms by (auto simp: extent_def handle_of_def)
  then show False
    using assms(1) by blast
qed

lemma other_file_kept:
  assumes "fs_ok s" "fileTable (vfs s) f = Some m" "fileTable (vfs s) g = Some n" "f \<noteq> g"
    and "handle_of h m" "handle_of k n" "sz \<le> length buffer"
    and "DiskFileHandle_write h buffer sz s = Inr (r, s')"
  shows "file_bytes s' k = file_bytes s k"
proof -
  have ok: "file_ok s h" "file_ok s k"
    using assms handle_of_file_ok by blast+
  have apart: "extent m \<inter> extent n = {}"
    using assms(1-4) unfolding fs_ok_def by metis
  have "file_ok s' (snd r)" "totalBlocks (disk s') = totalBlocks (disk s)"
    and keep: "\<forall>i < length (data (disk s)). outside h i \<longrightarrow> data (disk s') ! i = data (disk s) ! i"
    using write_refines_afile [OF ok(1) assms(7)] assms(8) by auto
  then have l: "length (data (disk s')) = length (data (disk s))"
    using ok(1) by (simp add: file_ok_def disk_ok_def)
  show ?thesis
    using ok(2) l keep extents_apart [OF apart assms(5,6)]
    by (intro nth_equalityI) (auto simp: file_bytes_def file_ok_def)
qed

end
