(* ===== verification/Swap.thy ===== *)
theory Swap
  imports Files
begin

text \<open>
  The swap area, \<^verbatim>\<open>memory/SwapManager\<close>: the last blocks of the disk,
  one page to a block, with a bit for each slot.  The locale states what the virtual
  memory manager relies on (a page swapped out comes back unchanged, however many
  other pages move meanwhile); its interpretation rests on the block contract of
  theory Disk.
\<close>

record SwapManager =
  swapStartBlock :: nat
  swapSize :: nat
  allocationMap :: "bool list"

record Storage = FileIO +
  swapM :: SwapManager

definition SwapManager_new :: "nat \<Rightarrow> nat \<Rightarrow> SwapManager" where
  "SwapManager_new diskNumBlocks swapNumBlocks =
     \<lparr>swapStartBlock = diskNumBlocks - swapNumBlocks, swapSize = swapNumBlocks,
      allocationMap = replicate swapNumBlocks False\<rparr>"

definition free_slot :: "bool list \<Rightarrow> nat option" where
  "free_slot m = List.find (\<lambda>i. \<not> m ! i) [0..<length m]"

definition swapOut :: "Byte list \<Rightarrow> ('a Storage_scheme, int) prog" where
  "swapOut buffer = (\<lambda>s.
     case free_slot (allocationMap (swapM s)) of
       None \<Rightarrow> Inr (-1, s)
     | Some i \<Rightarrow>
         let realBlockIndex = swapStartBlock (swapM s) + i in
         (case writeBlock realBlockIndex buffer s of
            Inl e \<Rightarrow> Inl e
          | Inr (_, s') \<Rightarrow>
              Inr (int i, s'\<lparr>swapM := (swapM s')\<lparr>allocationMap := (allocationMap (swapM s'))[i := True]\<rparr>\<rparr>)))"

definition swapIn :: "Byte list \<Rightarrow> int \<Rightarrow> ('a Storage_scheme, Byte list) prog" where
  "swapIn buffer slot = (\<lambda>s.
     if slot < 0 \<or> nat slot \<ge> swapSize (swapM s) then Inr (buffer, s)
     else
       let realBlockIndex = swapStartBlock (swapM s) + nat slot in
       (case readBlock realBlockIndex buffer s of
          Inl e \<Rightarrow> Inl e
        | Inr (buffer', s') \<Rightarrow>
            Inr (buffer', s'\<lparr>swapM := (swapM s')\<lparr>allocationMap := (allocationMap (swapM s'))[nat slot := False]\<rparr>\<rparr>)))"

section \<open>The contract of a page store\<close>

datatype swap_op = Out "Byte list" | In nat

locale page_store =
  fixes sout :: "Byte list \<Rightarrow> ('s, int) prog"
    and sin :: "Byte list \<Rightarrow> int \<Rightarrow> ('s, Byte list) prog"
    and stored :: "'s \<Rightarrow> nat \<Rightarrow> Byte list option"
    and sok :: "'s \<Rightarrow> bool"
  assumes out_free: "sok s \<Longrightarrow> length b = BLOCK_SIZE \<Longrightarrow> sout b s = Inr (r, s') \<Longrightarrow> r \<noteq> -1 \<Longrightarrow>
      0 \<le> r \<and> stored s (nat r) = None \<and> stored s' = (stored s)(nat r \<mapsto> b) \<and> sok s'"
    and out_full: "sok s \<Longrightarrow> sout b s = Inr (-1, s') \<Longrightarrow> s' = s"
    and in_stored: "sok s \<Longrightarrow> stored s i = Some b \<Longrightarrow> length b' = BLOCK_SIZE \<Longrightarrow>
      \<exists>s'. sin b' (int i) s = Inr (b, s') \<and> stored s' = (stored s)(i := None) \<and> sok s'"
    and in_other: "sok s \<Longrightarrow> stored s i = None \<Longrightarrow> length b' = BLOCK_SIZE \<Longrightarrow>
      \<exists>b s'. sin b' (int i) s = Inr (b, s') \<and> stored s' = stored s \<and> sok s'"
    and out_returns: "sok s \<Longrightarrow> length b = BLOCK_SIZE \<Longrightarrow> \<exists>r s'. sout b s = Inr (r, s')"
begin

fun run_op :: "swap_op \<Rightarrow> ('s, unit) prog" where
  "run_op (Out b) = bind (sout b) (\<lambda>_. ret ())"
| "run_op (In i) = bind (sin (replicate BLOCK_SIZE 0) (int i)) (\<lambda>_. ret ())"

fun op_ok :: "nat \<Rightarrow> swap_op \<Rightarrow> bool" where
  "op_ok i (Out b) = (length b = BLOCK_SIZE)"
| "op_ok i (In j) = (j \<noteq> i)"

lemma run_op_keeps:
  assumes "sok s" "stored s i = Some b" "op_ok i x"
  shows "\<exists>s'. run_op x s = Inr ((), s') \<and> sok s' \<and> stored s' i = Some b"
proof (cases x)
  case (Out c)
  then obtain r s' where o: "sout c s = Inr (r, s')" "length c = BLOCK_SIZE"
    using out_returns assms by fastforce
  show ?thesis
  proof (cases "r = -1")
    case True
    then show ?thesis
      using Out o out_full [of s c s'] assms by (simp add: run)
  next
    case False
    then have "stored s (nat r) = None" "stored s' = (stored s)(nat r \<mapsto> c)" "sok s'"
      using out_free [OF assms(1) o(2,1)] by simp_all
    then show ?thesis
      using Out o assms by (auto simp: run)
  qed
next
  case (In j)
  then have j: "j \<noteq> i"
    using assms by simp
  show ?thesis
  proof (cases "stored s j")
    case None
    then show ?thesis
      using In in_other [of s j "replicate BLOCK_SIZE 0"] assms by (auto simp: run)
  next
    case (Some c)
    then show ?thesis
      using In j in_stored [of s j c "replicate BLOCK_SIZE 0"] assms by (auto simp: run)
  qed
qed

lemma page_survives:
  assumes "sok s" "stored s i = Some b" "\<forall>x \<in> set ops. op_ok i x" "length b' = BLOCK_SIZE"
  shows "\<exists>s'. andthen (for_each ops run_op) (sin b' (int i)) s = Inr (b, s')"
  using assms
proof (induction ops arbitrary: s)
  case Nil
  then show ?case using in_stored [of s i b b'] by (auto simp: run)
next
  case (Cons x xs)
  then obtain s1 where "run_op x s = Inr ((), s1)" "sok s1" "stored s1 i = Some b"
    using run_op_keeps [of s i b x] by auto
  then show ?case
    using Cons.IH [of s1] Cons.prems by (simp add: for_each_Cons run)
qed

lemma out_then_in:
  assumes "sok s" "length b = BLOCK_SIZE" "sout b s = Inr (r, s1)" "r \<noteq> -1"
    and "\<forall>x \<in> set ops. op_ok (nat r) x" "length b' = BLOCK_SIZE"
  shows "\<exists>s'. andthen (for_each ops run_op) (sin b' r) s1 = Inr (b, s')"
  using out_free [OF assms(1-4)] page_survives [of s1 "nat r" b ops b'] assms(5,6) by auto

end

section \<open>The swap area keeps the contract\<close>

definition swap_ok :: "'a Storage_scheme \<Rightarrow> bool" where
  "swap_ok s \<longleftrightarrow> disk_ok s \<and> length (allocationMap (swapM s)) = swapSize (swapM s) \<and>
     swapStartBlock (swapM s) + swapSize (swapM s) \<le> totalBlocks (disk s)"

definition stored_page :: "'a Storage_scheme \<Rightarrow> nat \<Rightarrow> Byte list option" where
  "stored_page s i =
     (if i < swapSize (swapM s) \<and> allocationMap (swapM s) ! i
      then Some (block s (swapStartBlock (swapM s) + i)) else None)"

lemma free_slot_Some: "free_slot m = Some i \<Longrightarrow> i < length m \<and> \<not> m ! i"
  by (auto simp: free_slot_def find_Some_iff)

lemma free_slot_None: "free_slot m = None \<longleftrightarrow> (\<forall>i < length m. m ! i)"
  by (auto simp: free_slot_def find_None_iff)

lemma free_slot_fresh: "0 < n \<Longrightarrow> free_slot (replicate n False) = Some 0"
  by (simp add: free_slot_def upt_conv_Cons del: upt_Suc)

lemma block_stats_swap [simp]:
  "block (s\<lparr>swapM := x\<rparr>) = block s" "disk_ok (s\<lparr>swapM := x\<rparr>) = disk_ok s"
  by (simp_all add: block_def fun_eq_iff disk_ok_def)

text \<open>Writing a page to a free slot.\<close>

lemma swapOut_slot:
  assumes "swap_ok s" "length b = BLOCK_SIZE" "free_slot (allocationMap (swapM s)) = Some i"
  shows "\<exists>s'. swapOut b s = Inr (int i, s') \<and> swap_ok s' \<and> vfs s' = vfs s \<and>
    swapStartBlock (swapM s') = swapStartBlock (swapM s) \<and> swapSize (swapM s') = swapSize (swapM s) \<and>
    totalBlocks (disk s') = totalBlocks (disk s) \<and>
    allocationMap (swapM s') = (allocationMap (swapM s))[i := True] \<and>
    (\<forall>j < totalBlocks (disk s). block s' j = (if j = swapStartBlock (swapM s) + i then b else block s j))"
proof -
  let ?k = "swapStartBlock (swapM s) + i"
  have i: "i < swapSize (swapM s)" "?k < totalBlocks (disk s)"
    using assms(1) free_slot_Some [OF assms(3)] by (auto simp: swap_ok_def)
  note w = writeBlock_in [of s ?k b] block_splice [of s ?k _ b] block_offset [of s ?k]
  show ?thesis
    using assms i w by (simp add: swapOut_def swap_ok_def Let_def) (simp add: disk_ok_def block_def)
qed

lemma swapIn_slot:
  assumes "swap_ok s" "i < swapSize (swapM s)" "length b = BLOCK_SIZE"
  shows "\<exists>s'. swapIn b (int i) s = Inr (block s (swapStartBlock (swapM s) + i), s') \<and> swap_ok s' \<and>
    swapStartBlock (swapM s') = swapStartBlock (swapM s) \<and> swapSize (swapM s') = swapSize (swapM s) \<and>
    allocationMap (swapM s') = (allocationMap (swapM s))[i := False] \<and> disk s' = disk s \<and> vfs s' = vfs s"
  using assms readBlock_in [of s "swapStartBlock (swapM s) + i" b]
  by (simp add: swapIn_def swap_ok_def Let_def)

lemma block_disk_cong: "disk s' = disk s \<Longrightarrow> block s' i = block s i"
  by (simp add: block_def)

lemma stored_after_out:
  assumes "swap_ok s" "length b = BLOCK_SIZE" "free_slot (allocationMap (swapM s)) = Some i"
    and "swapOut b s = Inr (r, s')"
  shows "r = int i \<and> stored_page s i = None \<and> stored_page s' = (stored_page s)(i \<mapsto> b) \<and> swap_ok s'"
proof -
  let ?m = "swapM s"
  have i: "i < swapSize ?m" "\<not> allocationMap ?m ! i"
    using assms(1) free_slot_Some [OF assms(3)] by (auto simp: swap_ok_def)
  have s': "r = int i" "swap_ok s'" "swapStartBlock (swapM s') = swapStartBlock ?m"
    "swapSize (swapM s') = swapSize ?m" "allocationMap (swapM s') = (allocationMap ?m)[i := True]"
    "\<forall>j < totalBlocks (disk s). block s' j = (if j = swapStartBlock ?m + i then b else block s j)"
    using swapOut_slot [OF assms(1-3)] assms(4) by auto
  have "stored_page s' j = ((stored_page s)(i \<mapsto> b)) j" for j
    using s' assms(1) i(1) by (auto simp: stored_page_def swap_ok_def nth_list_update)
  then show ?thesis
    using s' i by (auto simp: stored_page_def)
qed

lemma stored_after_in:
  assumes "swap_ok s" "i < swapSize (swapM s)" "length b = BLOCK_SIZE"
  shows "\<exists>s'. swapIn b (int i) s = Inr (block s (swapStartBlock (swapM s) + i), s') \<and>
    stored_page s' = (stored_page s)(i := None) \<and> swap_ok s'"
proof -
  obtain s' where s': "swapIn b (int i) s = Inr (block s (swapStartBlock (swapM s) + i), s')" "swap_ok s'"
    "swapStartBlock (swapM s') = swapStartBlock (swapM s)" "swapSize (swapM s') = swapSize (swapM s)"
    "allocationMap (swapM s') = (allocationMap (swapM s))[i := False]" "disk s' = disk s"
    using swapIn_slot [OF assms] by blast
  have "stored_page s' j = ((stored_page s)(i := None)) j" for j
    using s' assms by (auto simp: stored_page_def swap_ok_def nth_list_update block_disk_cong [OF s'(6)])
  then show ?thesis
    using s' by blast
qed

interpretation swapping: page_store swapOut swapIn stored_page swap_ok
proof
  fix s s' :: "'a Storage_scheme" and b b' :: "Byte list" and r :: int and i :: nat
  assume ok: "swap_ok s"
  show "s' = s" if "swapOut b s = Inr (-1, s')"
    using that by (auto simp: swapOut_def Let_def split: option.splits sum.splits)
  show "0 \<le> r \<and> stored_page s (nat r) = None \<and> stored_page s' = (stored_page s)(nat r \<mapsto> b) \<and> swap_ok s'"
    if "length b = BLOCK_SIZE" "swapOut b s = Inr (r, s')" "r \<noteq> -1"
  proof (cases "free_slot (allocationMap (swapM s))")
    case None
    then show ?thesis using that by (simp add: swapOut_def)
  next
    case (Some k)
    then show ?thesis using stored_after_out [OF ok that(1) Some that(2)] by simp
  qed
  show "\<exists>r s'. swapOut b s = Inr (r, s')" if "length b = BLOCK_SIZE"
  proof (cases "free_slot (allocationMap (swapM s))")
    case None
    then show ?thesis by (simp add: swapOut_def)
  next
    case (Some k)
    then show ?thesis using swapOut_slot [OF ok that Some] by blast
  qed
  show "\<exists>s'. swapIn b' (int i) s = Inr (b, s') \<and> stored_page s' = (stored_page s)(i := None) \<and> swap_ok s'"
    if "stored_page s i = Some b" "length b' = BLOCK_SIZE"
    using that stored_after_in [OF ok, of i b'] by (auto simp: stored_page_def split: if_splits)
  show "\<exists>b s'. swapIn b' (int i) s = Inr (b, s') \<and> stored_page s' = stored_page s \<and> swap_ok s'"
    if "stored_page s i = None" "length b' = BLOCK_SIZE"
  proof (cases "i < swapSize (swapM s)")
    case True
    then show ?thesis
      using stored_after_in [OF ok True that(2)] that(1) by (auto simp: fun_upd_idem)
  next
    case False
    then show ?thesis
      using ok by (simp add: swapIn_def)
  qed
qed

section \<open>Swap and files on one disk\<close>

text \<open>A page written to swap leaves every file that ends below the swap area alone.\<close>

lemma swapOut_keeps_file:
  assumes "swap_ok s" "length b = BLOCK_SIZE" "swapOut b s = Inr (r, s')"
    and "startBlockIndex h * BLOCK_SIZE + fileSize h \<le> swapStartBlock (swapM s) * BLOCK_SIZE"
  shows "file_bytes s' h = file_bytes s h"
proof (cases "free_slot (allocationMap (swapM s))")
  case None
  then show ?thesis using assms(3) by (simp add: swapOut_def)
next
  case (Some i)
  let ?k = "swapStartBlock (swapM s) + i"
  have k: "disk_ok s" "?k < totalBlocks (disk s)"
    using assms(1) free_slot_Some [OF Some] by (auto simp: swap_ok_def)
  have "data (disk s') = take (?k * BLOCK_SIZE) (data (disk s)) @ b @ drop (?k * BLOCK_SIZE + BLOCK_SIZE) (data (disk s))"
    using assms(3) Some writeBlock_in [OF k assms(2)] by (auto simp: swapOut_def Let_def)
  moreover have "startBlockIndex h * BLOCK_SIZE + fileSize h \<le> ?k * BLOCK_SIZE"
    using assms(4) by (simp add: add_mult_distrib)
  moreover have "?k * BLOCK_SIZE \<le> length (data (disk s))"
    using block_offset(3) [OF k] by simp
  ultimately show ?thesis
    by (simp add: file_bytes_def drop_take)
qed

text \<open>
  The file system hands out every block of the disk, those of the swap area included:
  once a file owns the first swap block, a page swapped out replaces its contents.
\<close>

lemma swap_replaces_file:
  assumes "swap_ok s" "swapM s = SwapManager_new NUM_DISK_BLOCKS NUM_SWAP_BLOCKS"
    and "startBlockIndex h = 2048" "fileSize h = BLOCK_SIZE" "length b = BLOCK_SIZE"
  shows "\<exists>s'. swapOut b s = Inr (0, s') \<and> file_bytes s' h = b"
proof -
  have "free_slot (allocationMap (swapM s)) = Some 0"
    by (simp add: assms(2) SwapManager_new_def free_slot_fresh NUM_SWAP_BLOCKS_def)
  moreover have "swapStartBlock (swapM s) = 2048"
    by (simp add: assms(2) SwapManager_new_def NUM_DISK_BLOCKS_def NUM_SWAP_BLOCKS_def)
  moreover have "2048 < totalBlocks (disk s)"
    using assms(1,2) by (simp add: swap_ok_def SwapManager_new_def NUM_DISK_BLOCKS_def NUM_SWAP_BLOCKS_def)
  moreover obtain s' where "swapOut b s = Inr (int 0, s')"
    "\<forall>j < totalBlocks (disk s). block s' j = (if j = swapStartBlock (swapM s) + 0 then b else block s j)"
    using swapOut_slot [OF assms(1,5) calculation(1)] by blast
  ultimately have "swapOut b s = Inr (0, s')" "block s' 2048 = b"
    by simp_all
  then show ?thesis
    using assms(3,4) by (auto simp: file_bytes_def block_def)
qed

end
