(* ===== verification/Frames.thy ===== *)
theory Frames
  imports Prelude
begin

text \<open>
  Physical frames: \<^verbatim>\<open>memory/PhysicalMemoryManager\<close> (the free list and the
  frame table) and \<^verbatim>\<open>memory/PageReplacementPolicy\<close> (the first-in
  first-out policy).  One locale states the laws a frame allocator promises, another those
  of a replacement policy; each is interpreted on the code's own definitions.
  \<^verbatim>\<open>load\<close> and \<^verbatim>\<open>store\<close> of the manager forward to the memory
  and are modelled with the kernel.
\<close>

record FrameInfo =
  ownerPid :: int
  fi_vpn :: Addr
  allocated :: bool

definition FrameInfo_clear :: "FrameInfo \<Rightarrow> FrameInfo" where
  "FrameInfo_clear f = f\<lparr>ownerPid := -1, fi_vpn := 0, allocated := False\<rparr>"

record PMM =
  freeFrames :: "Addr list"
  frameTable :: "FrameInfo list"

text \<open>
  \<^verbatim>\<open>init\<close> on a new manager; the elements \<^verbatim>\<open>resize\<close> adds are
  value-initialised, all fields zero.
\<close>

definition PMM_init :: PMM where
  "PMM_init =
     \<lparr>freeFrames = map (\<lambda>i. MEMORY_BASE + of_nat i * KERNEL_PAGE_SIZE)
         [0..<unat (MEMORY_SIZE div KERNEL_PAGE_SIZE)],
      frameTable = replicate (unat (MEMORY_SIZE div KERNEL_PAGE_SIZE))
         \<lparr>ownerPid = 0, fi_vpn = 0, allocated = False\<rparr>\<rparr>"

text \<open>The frame's address, or nothing when the list is empty (\<^verbatim>\<open>status\<close> false).\<close>

definition PMM_allocateFrame :: "(PMM, Addr option) prog" where
  "PMM_allocateFrame = (\<lambda>p.
     if freeFrames p = [] then Inr (None, p)
     else Inr (Some (last (freeFrames p)), p\<lparr>freeFrames := butlast (freeFrames p)\<rparr>))"

definition PMM_freeFrame :: "Addr \<Rightarrow> (PMM, unit) prog" where
  "PMM_freeFrame frame =
     andthen (modify (\<lambda>p. p\<lparr>freeFrames := freeFrames p @ [frame]\<rparr>))
       (let ppn = drop_bit 12 frame in
        (\<lambda>p. if unat ppn \<ge> length (frameTable p) then Inl (KernelPanic ''PPN Out of Bound!'')
             else Inr ((), p\<lparr>frameTable := (frameTable p)[unat ppn :=
                      FrameInfo_clear (frameTable p ! unat ppn)]\<rparr>)))"

definition PMM_registerFrameOwner :: "Addr \<Rightarrow> Addr \<Rightarrow> int \<Rightarrow> (PMM, unit) prog" where
  "PMM_registerFrameOwner ppn vpn pid = (\<lambda>p.
     if unat ppn \<ge> length (frameTable p) then Inl (KernelPanic ''PPN Out of Bound!'')
     else Inr ((), p\<lparr>frameTable := (frameTable p)[unat ppn :=
              \<lparr>ownerPid = pid, fi_vpn = vpn, allocated = True\<rparr>]\<rparr>))"

definition PMM_getTotalFrames :: "PMM \<Rightarrow> nat" where
  "PMM_getTotalFrames p = length (frameTable p)"

section \<open>The laws of a frame allocator\<close>

text \<open>
  The set of frames on offer, and the owner of a frame.  Allocation takes a frame from
  the set, registration records its owner, release puts it back.
\<close>

locale frame_allocator =
  fixes alloc :: "('s, Addr option) prog"
    and release :: "Addr \<Rightarrow> ('s, unit) prog"
    and register :: "Addr \<Rightarrow> Addr \<Rightarrow> int \<Rightarrow> ('s, unit) prog"
    and avail :: "'s \<Rightarrow> nat set"
    and owner :: "'s \<Rightarrow> nat \<Rightarrow> (int \<times> Addr) option"
    and nframes :: nat
    and fok :: "'s \<Rightarrow> bool"
  assumes alloc_some: "fok s \<Longrightarrow> avail s \<noteq> {} \<Longrightarrow>
      \<exists>f s'. alloc s = Inr (Some f, s') \<and> f AND 0xFFF = 0 \<and> unat (drop_bit 12 f) \<in> avail s \<and> fok s' \<and>
        avail s' = avail s - {unat (drop_bit 12 f)} \<and> owner s' = owner s"
    and alloc_none: "fok s \<Longrightarrow> avail s = {} \<Longrightarrow> alloc s = Inr (None, s)"
    and release: "fok s \<Longrightarrow> unat (drop_bit 12 f) < nframes \<Longrightarrow> unat (drop_bit 12 f) \<notin> avail s \<Longrightarrow>
      f AND 0xFFF = 0 \<Longrightarrow>
      \<exists>s'. release f s = Inr ((), s') \<and> fok s' \<and> avail s' = insert (unat (drop_bit 12 f)) (avail s) \<and>
        owner s' = (owner s)(unat (drop_bit 12 f) := None)"
    and register: "fok s \<Longrightarrow> unat p < nframes \<Longrightarrow> unat p \<notin> avail s \<Longrightarrow>
      \<exists>s'. register p v pid s = Inr ((), s') \<and> fok s' \<and> avail s' = avail s \<and>
        owner s' = (owner s)(unat p \<mapsto> (pid, v))"
    and avail_free: "fok s \<Longrightarrow> i \<in> avail s \<Longrightarrow> i < nframes \<and> owner s i = None"
begin

text \<open>The page a new frame is given to owns that frame alone, and no other frame changes hands.\<close>

definition take_frame :: "Addr \<Rightarrow> int \<Rightarrow> ('s, Addr option) prog" where
  "take_frame v pid = bind alloc (\<lambda>r. case r of None \<Rightarrow> ret None
     | Some f \<Rightarrow> andthen (register (drop_bit 12 f) v pid) (ret (Some f)))"

lemma take_frame:
  assumes "fok s" "avail s \<noteq> {}"
  shows "\<exists>f s'. take_frame v pid s = Inr (Some f, s') \<and> fok s' \<and> unat (drop_bit 12 f) \<in> avail s \<and>
    owner s (unat (drop_bit 12 f)) = None \<and> avail s' = avail s - {unat (drop_bit 12 f)} \<and>
    owner s' = (owner s)(unat (drop_bit 12 f) \<mapsto> (pid, v))"
proof -
  obtain f s1 where f: "alloc s = Inr (Some f, s1)" "unat (drop_bit 12 f) \<in> avail s" "fok s1"
    "avail s1 = avail s - {unat (drop_bit 12 f)}" "owner s1 = owner s"
    using alloc_some [OF assms] by blast
  moreover obtain s2 where "register (drop_bit 12 f) v pid s1 = Inr ((), s2)" "fok s2" "avail s2 = avail s1"
    "owner s2 = (owner s1)(unat (drop_bit 12 f) \<mapsto> (pid, v))"
    using register [of s1 "drop_bit 12 f" v pid] f avail_free [OF assms(1) f(2)] by auto
  ultimately show ?thesis
    using avail_free [OF assms(1) f(2)] by (simp add: take_frame_def run)
qed

text \<open>A frame released after use is on offer again and belongs to nobody.\<close>

lemma take_release:
  assumes "fok s" "avail s \<noteq> {}"
  shows "\<exists>f s'. bind (take_frame v pid) (\<lambda>r. case r of None \<Rightarrow> ret () | Some f \<Rightarrow> release f) s = Inr ((), s') \<and>
    f \<in> avail s \<and> fok s' \<and> avail s' = avail s \<and> owner s' = owner s"
proof -
  obtain f s1 where f: "alloc s = Inr (Some f, s1)" "f AND 0xFFF = 0" "unat (drop_bit 12 f) \<in> avail s" "fok s1"
    "avail s1 = avail s - {unat (drop_bit 12 f)}" "owner s1 = owner s"
    using alloc_some [OF assms] by blast
  let ?i = "unat (drop_bit 12 f)"
  note i = avail_free [OF assms(1) f(3)]
  obtain s2 where s2: "register (drop_bit 12 f) v pid s1 = Inr ((), s2)" "fok s2" "avail s2 = avail s1"
    "owner s2 = (owner s1)(?i \<mapsto> (pid, v))"
    using register [of s1 "drop_bit 12 f" v pid] f i by auto
  obtain s3 where "release f s2 = Inr ((), s3)" "fok s3" "avail s3 = insert ?i (avail s2)"
    "owner s3 = (owner s2)(?i := None)"
    using release [of s2 f] f s2 i by auto
  then show ?thesis
    using f s2 i by (intro exI [of _ ?i] exI [of _ s3]) (auto simp: take_frame_def run fun_upd_idem)
qed

end

section \<open>The free list keeps the laws\<close>

definition pmm_ok :: "PMM \<Rightarrow> bool" where
  "pmm_ok p \<longleftrightarrow> length (frameTable p) = 16 \<and> distinct (freeFrames p) \<and>
     (\<forall>f \<in> set (freeFrames p). f AND 0xFFF = 0 \<and> unat (drop_bit 12 f) < 16 \<and>
        \<not> allocated (frameTable p ! unat (drop_bit 12 f)))"

definition pmm_avail :: "PMM \<Rightarrow> nat set" where
  "pmm_avail p = (\<lambda>f. unat (drop_bit 12 f)) ` set (freeFrames p)"

definition pmm_owner :: "PMM \<Rightarrow> nat \<Rightarrow> (int \<times> Addr) option" where
  "pmm_owner p i =
     (if i < length (frameTable p) \<and> allocated (frameTable p ! i)
      then Some (ownerPid (frameTable p ! i), fi_vpn (frameTable p ! i)) else None)"

lemma unat_page_number: "unat (drop_bit 12 a) = unat a div 4096" for a :: Addr
  by (simp only: unat_drop_bit_eq) (simp add: drop_bit_eq_div)

lemma page_aligned_iff: "a AND 0xFFF = 0 \<longleftrightarrow> unat a mod 4096 = 0" for a :: Addr
proof -
  have "a AND 0xFFF = take_bit 12 a"
    by (simp add: take_bit_eq_mask mask_eq_decr_exp)
  moreover have "unat (take_bit 12 a) = unat a mod 4096"
    by (simp only: unsigned_take_bit_eq) (simp add: take_bit_eq_mod)
  ultimately show ?thesis
    by (metis unat_eq_zero)
qed

lemma frame_of_page: "f AND 0xFFF = 0 \<Longrightarrow> push_bit 12 (drop_bit 12 f) = f" for f :: Addr
proof -
  assume "f AND 0xFFF = 0"
  moreover have "f AND 0xFFF = take_bit 12 f"
    by (simp add: take_bit_eq_mask mask_eq_decr_exp)
  moreover have "push_bit 12 (drop_bit 12 f) + take_bit 12 f = f"
    by (rule bits_ident)
  ultimately show ?thesis by simp
qed

lemma frame_index_inj:
  "f AND 0xFFF = 0 \<Longrightarrow> g AND 0xFFF = 0 \<Longrightarrow> unat (drop_bit 12 f) = unat (drop_bit 12 g) \<Longrightarrow> f = g" for f g :: Addr
  using frame_of_page [of f] frame_of_page [of g] by (metis word_unat_eq_iff)

lemma avail_alloc:
  assumes "pmm_ok p" "freeFrames p \<noteq> []"
  shows "pmm_avail (p\<lparr>freeFrames := butlast (freeFrames p)\<rparr>) =
    pmm_avail p - {unat (drop_bit 12 (last (freeFrames p)))}"
proof -
  have f: "freeFrames p = butlast (freeFrames p) @ [last (freeFrames p)]"
    using assms(2) by simp
  have "distinct (butlast (freeFrames p) @ [last (freeFrames p)])"
    using assms by (simp add: pmm_ok_def)
  then have last_apart: "last (freeFrames p) \<notin> set (butlast (freeFrames p))"
    unfolding distinct_append by simp
  have "unat (drop_bit 12 g) \<noteq> unat (drop_bit 12 (last (freeFrames p)))" if "g \<in> set (butlast (freeFrames p))" for g
  proof
    assume "unat (drop_bit 12 g) = unat (drop_bit 12 (last (freeFrames p)))"
    moreover have "g AND 0xFFF = 0" "last (freeFrames p) AND 0xFFF = 0"
      using assms(1) in_set_butlastD [OF that] last_in_set [OF assms(2)] unfolding pmm_ok_def by blast+
    ultimately have "g = last (freeFrames p)"
      by (metis frame_index_inj)
    then show False
      using that last_apart by simp
  qed
  moreover have "set (freeFrames p) = insert (last (freeFrames p)) (set (butlast (freeFrames p)))"
    by (subst f) auto
  ultimately show ?thesis
    by (auto simp: pmm_avail_def)
qed

lemma pmm_ok_butlast: "pmm_ok p \<Longrightarrow> pmm_ok (p\<lparr>freeFrames := butlast (freeFrames p)\<rparr>)"
  by (auto simp: pmm_ok_def distinct_butlast dest: in_set_butlastD)

lemma pmm_owner_free [simp]: "pmm_owner (p\<lparr>freeFrames := fs\<rparr>) = pmm_owner p"
  by (simp add: pmm_owner_def fun_eq_iff)

lemma freeFrame_eq:
  assumes "pmm_ok p" "unat (drop_bit 12 f) < 16"
  shows "PMM_freeFrame f p = Inr ((), p\<lparr>freeFrames := freeFrames p @ [f],
    frameTable := (frameTable p)[unat (drop_bit 12 f) := FrameInfo_clear (frameTable p ! unat (drop_bit 12 f))]\<rparr>)"
  using assms by (simp add: PMM_freeFrame_def run pmm_ok_def Let_def)

lemma registerFrameOwner_eq:
  "pmm_ok p \<Longrightarrow> unat i < 16 \<Longrightarrow> PMM_registerFrameOwner i v pid p =
     Inr ((), p\<lparr>frameTable := (frameTable p)[unat i := \<lparr>ownerPid = pid, fi_vpn = v, allocated = True\<rparr>]\<rparr>)"
  by (simp add: PMM_registerFrameOwner_def pmm_ok_def)

interpretation frames: frame_allocator PMM_allocateFrame PMM_freeFrame PMM_registerFrameOwner
  pmm_avail pmm_owner 16 pmm_ok
proof
  fix p :: PMM and f i v :: Addr and pid :: int and k :: nat
  assume ok: "pmm_ok p"
  show "\<exists>f p'. PMM_allocateFrame p = Inr (Some f, p') \<and> f AND 0xFFF = 0 \<and> unat (drop_bit 12 f) \<in> pmm_avail p \<and>
      pmm_ok p' \<and> pmm_avail p' = pmm_avail p - {unat (drop_bit 12 f)} \<and> pmm_owner p' = pmm_owner p"
    if "pmm_avail p \<noteq> {}"
  proof -
    have ne: "freeFrames p \<noteq> []"
      using that by (auto simp: pmm_avail_def)
    then show ?thesis
      using ok avail_alloc [OF ok ne] pmm_ok_butlast [OF ok]
      by (simp add: PMM_allocateFrame_def) (simp add: pmm_ok_def pmm_avail_def)
  qed
  show "PMM_allocateFrame p = Inr (None, p)" if "pmm_avail p = {}"
    using that by (simp add: PMM_allocateFrame_def pmm_avail_def)
  show "\<exists>p'. PMM_freeFrame f p = Inr ((), p') \<and> pmm_ok p' \<and>
      pmm_avail p' = insert (unat (drop_bit 12 f)) (pmm_avail p) \<and>
      pmm_owner p' = (pmm_owner p)(unat (drop_bit 12 f) := None)"
    if "unat (drop_bit 12 f) < 16" "unat (drop_bit 12 f) \<notin> pmm_avail p" "f AND 0xFFF = 0"
    using ok that
    by (auto simp: freeFrame_eq pmm_ok_def pmm_avail_def pmm_owner_def fun_eq_iff nth_list_update
        FrameInfo_clear_def)
  show "\<exists>p'. PMM_registerFrameOwner i v pid p = Inr ((), p') \<and> pmm_ok p' \<and> pmm_avail p' = pmm_avail p \<and>
      pmm_owner p' = (pmm_owner p)(unat i \<mapsto> (pid, v))"
    if "unat i < 16" "unat i \<notin> pmm_avail p"
    using ok that
    by (auto simp: registerFrameOwner_eq pmm_ok_def pmm_avail_def pmm_owner_def fun_eq_iff nth_list_update)
  show "k < 16 \<and> pmm_owner p k = None" if "k \<in> pmm_avail p"
    using ok that by (auto simp: pmm_ok_def pmm_avail_def pmm_owner_def)
qed

lemma PMM_init_ok: "pmm_ok PMM_init" "pmm_avail PMM_init = {..<16}" "pmm_owner PMM_init = (\<lambda>_. None)"
proof -
  have n: "unat (MEMORY_SIZE div KERNEL_PAGE_SIZE) = 16"
    by (simp add: MEMORY_SIZE_def KERNEL_PAGE_SIZE_def)
  let ?f = "\<lambda>i. of_nat i * KERNEL_PAGE_SIZE :: Addr"
  have f: "?f i AND 0xFFF = 0 \<and> unat (drop_bit 12 (?f i)) = i" if "i < 16" for i
  proof -
    have "unat (?f i) = i * 4096"
      using that by (simp add: KERNEL_PAGE_SIZE_def unat_word_ariths unat_of_nat)
    then show ?thesis
      by (simp add: unat_page_number page_aligned_iff)
  qed
  have "inj_on ?f {0..<16}"
  proof (rule inj_onI)
    fix i j :: nat assume ij: "i \<in> {0..<16}" "j \<in> {0..<16}" "?f i = ?f j"
    have "i = unat (drop_bit 12 (?f i))"
      using ij(1) f [of i] by simp
    also have "\<dots> = unat (drop_bit 12 (?f j))"
      by (simp only: ij(3))
    also have "\<dots> = j"
      using ij(2) f [of j] by simp
    finally show "i = j" .
  qed
  then show "pmm_ok PMM_init"
    using f by (auto simp: pmm_ok_def PMM_init_def n MEMORY_BASE_def distinct_map)
  show "pmm_avail PMM_init = {..<16}"
    using f by (force simp: pmm_avail_def PMM_init_def n MEMORY_BASE_def)
  show "pmm_owner PMM_init = (\<lambda>_. None)"
    by (simp add: pmm_owner_def PMM_init_def fun_eq_iff)
qed

section \<open>Double release\<close>

text \<open>
  Releasing a frame that is already on offer is not refused: the frame is listed twice and
  the next two allocations return the same frame.
\<close>

lemma double_free:
  assumes "pmm_ok p" "unat (drop_bit 12 f) < 16"
  shows "\<exists>p'. andthen (PMM_freeFrame f) (andthen (PMM_freeFrame f)
      (bind PMM_allocateFrame (\<lambda>a. bind PMM_allocateFrame (\<lambda>b. ret (a, b))))) p = Inr ((Some f, Some f), p')"
  using assms by (simp add: PMM_freeFrame_def PMM_allocateFrame_def run pmm_ok_def Let_def butlast_append)

end
