(* ===== verification/Replacement.thy ===== *)
theory Replacement
  imports Frames
begin

text \<open>
  The page replacement policy, \<^verbatim>\<open>memory/PageReplacementPolicy\<close>:
  the first-in first-out queue chosen by \<^verbatim>\<open>common/SystemConfig.hpp\<close>.
  \<^verbatim>\<open>init\<close> and \<^verbatim>\<open>onFree\<close> are empty in the base class
  and not overridden, so entries of released frames stay in the queue and are skipped only
  if the frame is still free when they reach the front.  The process list argument of
  \<^verbatim>\<open>findVictim\<close> is unused by the source.
\<close>

type_synonym FIFOPolicy = "nat list"

definition FIFO_onAllocate :: "nat \<Rightarrow> (FIFOPolicy, unit) prog" where
  "FIFO_onAllocate ppn = modify (\<lambda>q. q @ [ppn])"

definition PRP_onFree :: "nat \<Rightarrow> (FIFOPolicy, unit) prog" where
  "PRP_onFree ppn = ret ()"

text \<open>The result is the frame, or -1 when the queue runs empty.\<close>

fun FIFO_findVictim :: "FrameInfo list \<Rightarrow> (FIFOPolicy, int) prog" where
  "FIFO_findVictim table [] = Inr (-1, [])"
| "FIFO_findVictim table (victim # q) =
     (if victim < length table then
        (if allocated (table ! victim) then Inr (int victim, q) else FIFO_findVictim table q)
      else Inl UndefinedBehaviour)"

section \<open>The contract of a policy\<close>

text \<open>
  \<^verbatim>\<open>tracked\<close>: the frames the policy knows.  As long as it knows every
  allocated frame, memory pressure always finds a victim.
\<close>

locale replacement_policy =
  fixes on_alloc :: "nat \<Rightarrow> ('q, unit) prog"
    and on_free :: "nat \<Rightarrow> ('q, unit) prog"
    and victim :: "FrameInfo list \<Rightarrow> ('q, int) prog"
    and tracked :: "'q \<Rightarrow> nat set"
  assumes on_alloc: "\<exists>q'. on_alloc f q = Inr ((), q') \<and> tracked q' = insert f (tracked q)"
    and on_free: "\<exists>q'. on_free f q = Inr ((), q') \<and> tracked q - {f} \<subseteq> tracked q' \<and> tracked q' \<subseteq> tracked q"
    and victim_found: "tracked q \<subseteq> {..<length t} \<Longrightarrow> f \<in> tracked q \<Longrightarrow> allocated (t ! f) \<Longrightarrow>
      \<exists>v q'. victim t q = Inr (int v, q') \<and> v \<in> tracked q \<and> allocated (t ! v) \<and>
        tracked q' \<subseteq> tracked q \<and> (\<forall>g \<in> tracked q. allocated (t ! g) \<and> g \<noteq> v \<longrightarrow> g \<in> tracked q')"
    and victim_none: "tracked q \<subseteq> {..<length t} \<Longrightarrow> (\<forall>f \<in> tracked q. \<not> allocated (t ! f)) \<Longrightarrow>
      \<exists>q'. victim t q = Inr (-1, q') \<and> tracked q' \<subseteq> tracked q"
begin

definition covers :: "'q \<Rightarrow> FrameInfo list \<Rightarrow> bool" where
  "covers q t \<longleftrightarrow> tracked q \<subseteq> {..<length t} \<and> (\<forall>f < length t. allocated (t ! f) \<longrightarrow> f \<in> tracked q)"

text \<open>Eviction: find a victim, release it, tell the policy.  The policy still covers the table.\<close>

lemma evict:
  assumes "covers q t" "f < length t" "allocated (t ! f)"
  shows "\<exists>v q'. bind (victim t) (\<lambda>r. andthen (on_free (nat r)) (ret r)) q = Inr (int v, q') \<and>
    v < length t \<and> allocated (t ! v) \<and> covers q' (t[v := FrameInfo_clear (t ! v)])"
proof -
  have t: "tracked q \<subseteq> {..<length t}" "f \<in> tracked q"
    using assms by (auto simp: covers_def)
  obtain v q1 where v: "victim t q = Inr (int v, q1)" "v \<in> tracked q" "allocated (t ! v)"
    "tracked q1 \<subseteq> tracked q" "\<forall>g \<in> tracked q. allocated (t ! g) \<and> g \<noteq> v \<longrightarrow> g \<in> tracked q1"
    using victim_found [OF t assms(3)] by blast
  obtain q2 where q2: "on_free v q1 = Inr ((), q2)" "tracked q1 - {v} \<subseteq> tracked q2" "tracked q2 \<subseteq> tracked q1"
    using on_free by blast
  have "covers q2 (t[v := FrameInfo_clear (t ! v)])"
    unfolding covers_def
  proof (intro conjI allI impI)
    show "tracked q2 \<subseteq> {..<length (t[v := FrameInfo_clear (t ! v)])}"
      using t v q2 by auto
    fix g assume g: "g < length (t[v := FrameInfo_clear (t ! v)])"
      and a: "allocated (t[v := FrameInfo_clear (t ! v)] ! g)"
    then have "g \<noteq> v"
      by (auto simp: FrameInfo_clear_def)
    moreover from this g a have "g \<in> tracked q"
      using assms(1) by (simp add: covers_def)
    ultimately show "g \<in> tracked q2"
      using g a v q2 by auto
  qed
  then show ?thesis
    using v q2 t by (intro exI [of _ v] exI [of _ q2]) (auto simp: run)
qed

text \<open>Allocation keeps the cover.\<close>

lemma allocate_covers:
  assumes "covers q t" "f < length t"
  shows "\<exists>q'. on_alloc f q = Inr ((), q') \<and> covers q' (t[f := x])"
proof -
  obtain q' where "on_alloc f q = Inr ((), q')" "tracked q' = insert f (tracked q)"
    using on_alloc by blast
  then show ?thesis
    using assms by (auto simp: covers_def nth_list_update)
qed

end

section \<open>The queue keeps the contract\<close>

lemma findVictim_found:
  assumes "set q \<subseteq> {..<length t}" "f \<in> set q" "allocated (t ! f)"
  shows "\<exists>v q'. FIFO_findVictim t q = Inr (int v, q') \<and> v \<in> set q \<and> allocated (t ! v) \<and>
    set q' \<subseteq> set q \<and> (\<forall>g \<in> set q. allocated (t ! g) \<and> g \<noteq> v \<longrightarrow> g \<in> set q')"
  using assms
proof (induction q)
  case Nil
  then show ?case by simp
next
  case (Cons a q)
  show ?case
  proof (cases "allocated (t ! a)")
    case True
    then show ?thesis
      using Cons.prems by (intro exI [of _ a] exI [of _ q]) auto
  next
    case False
    then have "f \<in> set q"
      using Cons.prems by auto
    then obtain v q' where "FIFO_findVictim t q = Inr (int v, q')" "v \<in> set q" "allocated (t ! v)"
      "set q' \<subseteq> set q" "\<forall>g \<in> set q. allocated (t ! g) \<and> g \<noteq> v \<longrightarrow> g \<in> set q'"
      using Cons.IH Cons.prems by auto
    then show ?thesis
      using False Cons.prems by (intro exI [of _ v] exI [of _ q']) auto
  qed
qed

lemma findVictim_none:
  "set q \<subseteq> {..<length t} \<Longrightarrow> (\<forall>f \<in> set q. \<not> allocated (t ! f)) \<Longrightarrow> FIFO_findVictim t q = Inr (-1, [])"
  by (induction q) auto

interpretation fifo: replacement_policy FIFO_onAllocate PRP_onFree FIFO_findVictim set
proof
  fix f :: nat and q :: FIFOPolicy and t :: "FrameInfo list"
  show "\<exists>q'. FIFO_onAllocate f q = Inr ((), q') \<and> set q' = insert f (set q)"
    by (simp add: FIFO_onAllocate_def run)
  show "\<exists>q'. PRP_onFree f q = Inr ((), q') \<and> set q - {f} \<subseteq> set q' \<and> set q' \<subseteq> set q"
    by (auto simp: PRP_onFree_def run)
  show "\<exists>v q'. FIFO_findVictim t q = Inr (int v, q') \<and> v \<in> set q \<and> allocated (t ! v) \<and>
      set q' \<subseteq> set q \<and> (\<forall>g \<in> set q. allocated (t ! g) \<and> g \<noteq> v \<longrightarrow> g \<in> set q')"
    if "set q \<subseteq> {..<length t}" "f \<in> set q" "allocated (t ! f)"
    by (rule findVictim_found [OF that])
  show "\<exists>q'. FIFO_findVictim t q = Inr (-1, q') \<and> set q' \<subseteq> set q"
    if "set q \<subseteq> {..<length t}" "\<forall>f \<in> set q. \<not> allocated (t ! f)"
    using findVictim_none [OF that] by simp
qed

text \<open>In the order of allocation: of two queued frames both in use, the earlier goes first.\<close>

lemma findVictim_oldest:
  assumes "set (p @ v # q) \<subseteq> {..<length t}" "\<forall>f \<in> set p. \<not> allocated (t ! f)" "allocated (t ! v)"
  shows "FIFO_findVictim t (p @ v # q) = Inr (int v, q)"
  using assms by (induction p) auto

text \<open>
  The released frame's stale entry: a frame that was allocated, released and allocated again
  after another one is still evicted before it.
\<close>

lemma stale_entry:
  assumes "f < length t" "g < length t" "allocated (t ! f)" "allocated (t ! g)"
  shows "andthen (FIFO_onAllocate f) (andthen (PRP_onFree f) (andthen (FIFO_onAllocate g)
    (andthen (FIFO_onAllocate f) (FIFO_findVictim t)))) [] = Inr (int f, [g, f])"
  using assms by (simp add: FIFO_onAllocate_def PRP_onFree_def run)

end
