(* ===== verification/Storage_Properties.thy ===== *)
theory Storage_Properties
  imports Demo Swap Replacement
begin

text \<open>
  What the disk, the file system, the swap area, the frame allocator and the replacement
  policy promise, from theories Disk, Files, Swap, Frames and Replacement.
\<close>

section \<open>A small disk\<close>

definition demo_storage :: Storage where
  "demo_storage =
     \<lparr>disk = InMemoryDisk_new 8, stats = Stats_new,
      vfs = \<lparr>fileTable = [''a'' \<mapsto> \<lparr>fm_name = ''a'', startBlock = 0, sizeBytes = 100\<rparr>,
                          ''b'' \<mapsto> \<lparr>fm_name = ''b'', startBlock = 1, sizeBytes = 5000\<rparr>],
             freeBlockPointer = 3\<rparr>,
      swapM = SwapManager_new 8 4\<rparr>"

definition handle_a :: DiskFileHandle where
  "handle_a = DiskFileHandle_new 0 100"

definition handle_b :: DiskFileHandle where
  "handle_b = DiskFileHandle_new 1 5000"

lemma demo_disk_ok: "disk_ok demo_storage"
  by (simp add: demo_storage_def disk_ok_def InMemoryDisk_new_def BLOCK_SIZE_def)

lemma demo_fs_ok: "fs_ok demo_storage"
proof -
  have "extent \<lparr>fm_name = ''a'', startBlock = 0, sizeBytes = 100\<rparr> = {0}"
    "extent \<lparr>fm_name = ''b'', startBlock = 1, sizeBytes = 5000\<rparr> = {1, 2}"
    by (auto simp: extent_def blocks_for_def BLOCK_SIZE_def)
  then show ?thesis
    using demo_disk_ok
    by (auto simp: fs_ok_def demo_storage_def InMemoryDisk_new_def blocks_for_def BLOCK_SIZE_def
        split: if_splits)
qed

lemma demo_swap_ok: "swap_ok demo_storage"
  using demo_disk_ok by (simp add: swap_ok_def demo_storage_def SwapManager_new_def InMemoryDisk_new_def)

lemma demo_file_ok: "file_ok demo_storage handle_a" "file_ok demo_storage handle_b"
  using demo_disk_ok
  by (simp_all add: file_ok_def demo_storage_def InMemoryDisk_new_def handle_a_def handle_b_def
      DiskFileHandle_new_def BLOCK_SIZE_def)

section \<open>Files\<close>

text \<open>C24: Reading from a file on the disk is reading from a byte sequence with a position: the block
  by block copy returns exactly the bytes between the position and the end of the file, at most as
  many as asked for, and moves the position by as many; the disk does not change.\<close>

theorem file_read_refines:
  assumes "file_ok s h" "n \<le> length buffer"
  shows "\<exists>k buffer' h' s'. DiskFileHandle_read h buffer n s = Inr ((k, buffer', h'), s') \<and>
    disk s' = disk s \<and> file_ok s' h' \<and> k = length (take k buffer') \<and>
    afile_read n (file_abs s h) = (take k buffer', file_abs s' h')"
  using assms by (rule read_refines_afile)

theorem file_read_refines_witness:
  "\<exists>k buffer' h' s'. DiskFileHandle_read handle_b (replicate 4500 7) 4500 demo_storage = Inr ((k, buffer', h'), s') \<and>
    afile_read 4500 (file_abs demo_storage handle_b) = (take k buffer', file_abs s' h')"
  using file_read_refines [OF demo_file_ok(2), of 4500 "replicate 4500 7"] by auto

text \<open>C25: Writing to a file on the disk is writing to a byte sequence of fixed size: the block by
  block read, change and write back replaces exactly the bytes that fit, reports how many, and
  leaves every byte of the disk outside the file as it was.\<close>

theorem file_write_refines:
  assumes "file_ok s h" "n \<le> length buffer"
  shows "\<exists>k h' s'. DiskFileHandle_write h buffer n s = Inr ((k, h'), s') \<and> file_ok s' h' \<and>
    startBlockIndex h' = startBlockIndex h \<and> fileSize h' = fileSize h \<and>
    totalBlocks (disk s') = totalBlocks (disk s) \<and>
    afile_write (take n buffer) (file_abs s h) = (k, file_abs s' h') \<and>
    (\<forall>i < length (data (disk s)). outside h i \<longrightarrow> data (disk s') ! i = data (disk s) ! i)"
  using assms by (rule write_refines_afile)

theorem file_write_refines_witness:
  "\<exists>k h' s'. DiskFileHandle_write handle_b (replicate 6000 7) 6000 demo_storage = Inr ((k, h'), s') \<and>
    afile_write (take 6000 (replicate 6000 7)) (file_abs demo_storage handle_b) = (k, file_abs s' h')"
proof -
  have "6000 \<le> length (replicate 6000 (7 :: Byte))"
    by simp
  from file_write_refines [OF demo_file_ok(2) this] show ?thesis
    by blast
qed

text \<open>C26: Writing through a handle of one file leaves the contents of every other file alone.\<close>

theorem files_are_isolated:
  assumes "fs_ok s" "fileTable (vfs s) f = Some m" "fileTable (vfs s) g = Some n" "f \<noteq> g"
    and "handle_of h m" "handle_of k n" "sz \<le> length buffer"
    and "DiskFileHandle_write h buffer sz s = Inr (r, s')"
  shows "file_bytes s' k = file_bytes s k"
  using assms by (rule other_file_kept)

theorem files_are_isolated_witness:
  "\<exists>r s'. DiskFileHandle_write handle_a (replicate 200 7) 200 demo_storage = Inr (r, s') \<and>
    file_bytes s' handle_b = file_bytes demo_storage handle_b"
proof -
  obtain r s' where w: "DiskFileHandle_write handle_a (replicate 200 7) 200 demo_storage = Inr (r, s')"
    using write_refines_afile [OF demo_file_ok(1), of 200 "replicate 200 7"] by auto
  have t: "fileTable (vfs demo_storage) ''a'' = Some \<lparr>fm_name = ''a'', startBlock = 0, sizeBytes = 100\<rparr>"
    "fileTable (vfs demo_storage) ''b'' = Some \<lparr>fm_name = ''b'', startBlock = 1, sizeBytes = 5000\<rparr>"
    by (simp_all add: demo_storage_def)
  have "file_bytes s' handle_b = file_bytes demo_storage handle_b"
    by (rule files_are_isolated [OF demo_fs_ok t _ _ _ _ w])
       (simp_all add: handle_of_def handle_a_def handle_b_def DiskFileHandle_new_def)
  then show ?thesis using w by blast
qed

text \<open>C36: Creating a file keeps the file system well formed: the new file gets blocks of its own,
  behind all others and on the disk, the rest of the table and the disk stay, and a refused
  creation (name taken, no room) changes nothing.\<close>

theorem create_keeps_files_apart:
  assumes "fs_ok s" "VFS_createFile f sz s = Inr (b, s')"
  shows "fs_ok s' \<and> disk s' = disk s \<and>
    (if b then fileTable (vfs s') f =
         Some \<lparr>fm_name = f, startBlock = freeBlockPointer (vfs s), sizeBytes = sz\<rparr> \<and>
       (\<forall>g. g \<noteq> f \<longrightarrow> fileTable (vfs s') g = fileTable (vfs s) g)
     else s' = s)"
  using createFile_ok [OF assms(1), of f sz s'] createFile_fails [of f sz s s'] assms by (cases b) simp_all

theorem create_keeps_files_apart_witness:
  "\<exists>s'. VFS_createFile ''c'' 9000 demo_storage = Inr (True, s') \<and> fs_ok s' \<and>
    fileTable (vfs s') ''c'' = Some \<lparr>fm_name = ''c'', startBlock = 3, sizeBytes = 9000\<rparr>"
proof -
  have "\<exists>s'. VFS_createFile ''c'' 9000 demo_storage = Inr (True, s')" and
    p: "freeBlockPointer (vfs demo_storage) = 3"
    by (simp_all add: VFS_createFile_def demo_storage_def numBlocks_def InMemoryDisk_new_def BLOCK_SIZE_def)
  then obtain s' where c: "VFS_createFile ''c'' 9000 demo_storage = Inr (True, s')"
    by blast
  then show ?thesis
    using create_keeps_files_apart [OF demo_fs_ok c] p by simp
qed

section \<open>The swap area\<close>

text \<open>C23: A page swapped out comes back byte for byte, whatever other pages are swapped out and in
  meanwhile.\<close>

theorem swap_round_trip:
  assumes "swap_ok s" "length b = BLOCK_SIZE" "swapOut b s = Inr (r, s1)" "r \<noteq> -1"
    and "\<forall>x \<in> set ops. swapping.op_ok (nat r) x" "length b' = BLOCK_SIZE"
  shows "\<exists>s'. andthen (for_each ops swapping.run_op) (swapIn b' r) s1 = Inr (b, s')"
  using assms by (rule swapping.out_then_in)

theorem swap_round_trip_witness:
  "\<exists>s1 s'. swapOut (replicate BLOCK_SIZE 7) demo_storage = Inr (0, s1) \<and>
    andthen (for_each [Out (replicate BLOCK_SIZE 9), In 1] swapping.run_op) (swapIn (replicate BLOCK_SIZE 0) 0) s1 =
      Inr (replicate BLOCK_SIZE 7, s')"
proof -
  obtain s1 where o: "swapOut (replicate BLOCK_SIZE 7) demo_storage = Inr (0, s1)"
    using swapOut_slot [OF demo_swap_ok, of "replicate BLOCK_SIZE 7" 0]
    by (auto simp: demo_storage_def SwapManager_new_def free_slot_fresh)
  then show ?thesis
    using swap_round_trip [OF demo_swap_ok _ o, of "[Out (replicate BLOCK_SIZE 9), In 1]" "replicate BLOCK_SIZE 0"]
    by simp
qed

text \<open>The file system does not know of the swap area: on the disk of the simulator, a file that
  was given block 2048 is replaced by the first page swapped out.\<close>

theorem swap_overwrites_file:
  assumes "swap_ok s" "swapM s = SwapManager_new NUM_DISK_BLOCKS NUM_SWAP_BLOCKS"
    and "startBlockIndex h = 2048" "fileSize h = BLOCK_SIZE" "length b = BLOCK_SIZE"
  shows "\<exists>s'. swapOut b s = Inr (0, s') \<and> file_bytes s' h = b"
  using assms by (rule swap_replaces_file)

definition full_disk :: Storage where
  "full_disk =
     \<lparr>disk = InMemoryDisk_new NUM_DISK_BLOCKS, stats = Stats_new, vfs = StubFileSystem_new,
      swapM = SwapManager_new NUM_DISK_BLOCKS NUM_SWAP_BLOCKS\<rparr>"

lemma full_disk_ok: "swap_ok full_disk"
  by (simp add: swap_ok_def disk_ok_def full_disk_def InMemoryDisk_new_def SwapManager_new_def
      NUM_DISK_BLOCKS_def NUM_SWAP_BLOCKS_def)

theorem swap_overwrites_file_witness:
  "\<exists>s'. swapOut (replicate BLOCK_SIZE 7) full_disk = Inr (0, s') \<and>
    file_bytes s' (DiskFileHandle_new 2048 BLOCK_SIZE) = replicate BLOCK_SIZE 7"
  by (rule swap_overwrites_file) (simp_all add: full_disk_ok, simp_all add: full_disk_def DiskFileHandle_new_def)

section \<open>Frames and their replacement\<close>

text \<open>Physical memory is handed out one owner at a time: as long as frames are on offer, the
  frame given out and registered was free and unowned, leaves the offer, belongs to the page it
  was registered for, and no other frame changes hands.\<close>

theorem frames_are_exclusive:
  assumes "pmm_ok p" "pmm_avail p \<noteq> {}"
  shows "\<exists>f p'. bind PMM_allocateFrame (\<lambda>r. case r of None \<Rightarrow> ret None
       | Some f \<Rightarrow> andthen (PMM_registerFrameOwner (drop_bit 12 f) v pid) (ret (Some f))) p = Inr (Some f, p') \<and>
    pmm_ok p' \<and> unat (drop_bit 12 f) \<in> pmm_avail p \<and> pmm_owner p (unat (drop_bit 12 f)) = None \<and>
    pmm_avail p' = pmm_avail p - {unat (drop_bit 12 f)} \<and>
    pmm_owner p' = (pmm_owner p)(unat (drop_bit 12 f) \<mapsto> (pid, v))"
  using frames.take_frame [OF assms, of v pid] by (simp only: frames.take_frame_def)

theorem frames_are_exclusive_witness:
  "\<exists>f p'. bind PMM_allocateFrame (\<lambda>r. case r of None \<Rightarrow> ret None
       | Some f \<Rightarrow> andthen (PMM_registerFrameOwner (drop_bit 12 f) 5 1) (ret (Some f))) PMM_init = Inr (Some f, p') \<and>
    pmm_owner p' = [unat (drop_bit 12 f) \<mapsto> (1, 5)]"
proof -
  have "pmm_avail PMM_init \<noteq> {}"
    by (simp add: PMM_init_ok(2) lessThan_empty_iff)
  then show ?thesis
    using frames_are_exclusive [OF PMM_init_ok(1), of 5 1] by (auto simp: PMM_init_ok(3))
qed

text \<open>Under memory pressure there is always a victim: while the queue knows every frame in use,
  the search returns a frame in use, and after its release the queue still knows every frame in use.\<close>

theorem victim_found:
  assumes "fifo.covers q t" "f < length t" "allocated (t ! f)"
  shows "\<exists>v q'. FIFO_findVictim t q = Inr (int v, q') \<and> v < length t \<and> allocated (t ! v) \<and>
    fifo.covers q' (t[v := FrameInfo_clear (t ! v)])"
  using fifo.evict [OF assms] by (auto simp: run PRP_onFree_def split: sum.splits)

definition two_frames :: "FrameInfo list" where
  "two_frames = [\<lparr>ownerPid = 0, fi_vpn = 7, allocated = True\<rparr>, \<lparr>ownerPid = 1, fi_vpn = 9, allocated = True\<rparr>]"

lemma two_frames_all: "f < length two_frames \<longleftrightarrow> f = 0 \<or> f = 1"
  by (auto simp: two_frames_def)

theorem victim_found_witness:
  "\<exists>v q'. FIFO_findVictim two_frames [1, 0] = Inr (int v, q') \<and> allocated (two_frames ! v) \<and>
    fifo.covers q' (two_frames[v := FrameInfo_clear (two_frames ! v)])"
proof -
  have "fifo.covers [1, 0] two_frames"
    by (auto simp: fifo.covers_def two_frames_all)
  then show ?thesis
    using victim_found [of "[1, 0]" two_frames 0] by (auto simp: two_frames_def)
qed

text \<open>The queue is not strictly first in, first out: a released frame keeps its old entry, so a
  frame allocated, released and allocated again after another one is evicted before it.\<close>

theorem stale_entry_evicted_first:
  assumes "f < length t" "g < length t" "allocated (t ! f)" "allocated (t ! g)"
  shows "andthen (FIFO_onAllocate f) (andthen (PRP_onFree f) (andthen (FIFO_onAllocate g)
    (andthen (FIFO_onAllocate f) (FIFO_findVictim t)))) [] = Inr (int f, [g, f])"
  using assms by (rule stale_entry)

theorem stale_entry_evicted_first_witness:
  "andthen (FIFO_onAllocate 0) (andthen (PRP_onFree 0) (andthen (FIFO_onAllocate 1)
    (andthen (FIFO_onAllocate 0) (FIFO_findVictim two_frames)))) [] = Inr (0, [1, 0])"
  using stale_entry_evicted_first [of 0 two_frames 1] by (simp add: two_frames_def)

end
