(* ===== verification/KernelState.thy ===== *)
theory KernelState
  imports Swap Replacement Cpu SyscallDefinition
begin

text \<open>
  The state of the kernel: the objects behind the service registry
  (\<^verbatim>\<open>kernel/KernelService\<close>, \<^verbatim>\<open>common/KernelAlias.hpp\<close>)
  in one record, with the data of \<^verbatim>\<open>thread/Thread.hpp\<close>,
  \<^verbatim>\<open>sync/Mutex.hpp\<close>, \<^verbatim>\<open>memory/Segment.hpp\<close>,
  \<^verbatim>\<open>process/Process.hpp\<close> and \<^verbatim>\<open>process/ProcessManager.hpp\<close>.
  Threads are never deleted before the shutdown, so a \<^verbatim>\<open>Thread*\<close> is
  an index into the list of all threads created; a \<^verbatim>\<open>Process*\<close> is an
  index into the process list; the page table object of a process is the MMU's table of
  that index.  A mutex and a file handle are owned by one process and stored in it.
\<close>

section \<open>Threads, mutexes, segments\<close>

datatype ThreadState = NEW | READY | RUNNING | BLOCKED | TERMINATED

record Thread =
  joiner :: "nat option"
  hasBeenJoined :: bool
  tid :: int
  exitCode :: Word
  t_state :: ThreadState
  t_pc :: Addr
  t_regs :: RegFile
  parent :: nat
  stackTop :: Addr

record Mutex =
  mx_owner :: "nat option"
  waitQueue :: "nat list"
  locked :: bool

definition Mutex_new :: Mutex where
  "Mutex_new = \<lparr>mx_owner = None, waitQueue = [], locked = False\<rparr>"

record Segment =
  seg_vaddr :: Addr
  seg_memSize :: nat
  seg_fileSize :: nat
  seg_fileOffset :: nat
  seg_flags :: Word

datatype FileHandle = ConsoleHandle int | DiskHandle DiskFileHandle

section \<open>Processes\<close>

record Process =
  p_pid :: int
  p_name :: string
  active :: bool
  segments :: "Segment list"
  threads :: "nat list"
  mutexList :: "Mutex list"
  fdTable :: "FileHandle option list"
  programBreak :: Addr
  nextStackBase :: Addr
  instructionsExecuted :: nat

definition PCB_new :: "int \<Rightarrow> string \<Rightarrow> Process" where
  "PCB_new pid n =
     \<lparr>p_pid = pid, p_name = n, active = False, segments = [], threads = [], mutexList = [],
      fdTable = [Some (ConsoleHandle 0), Some (ConsoleHandle 1), Some (ConsoleHandle 2)] @
                replicate (FD_TABLE_SIZE - 3) None,
      programBreak = HEAP_START, nextStackBase = STACK_TOP, instructionsExecuted = 0\<rparr>"

section \<open>The kernel\<close>

text \<open>
  \<^verbatim>\<open>world\<close> is the host outside the program; it is read and changed only by
  the operations of \<^verbatim>\<open>Env\<close>, parameters of the model: the host's
  \<^verbatim>\<open>read\<close> on descriptor 0 (at most so many bytes; the result and the bytes
  placed in the buffer) and \<^verbatim>\<open>write\<close>, the contents of the host's files,
  and the order in which the standard library's \<^verbatim>\<open>unordered_map\<close> runs through
  a page table.
\<close>

record 'w Kernel = Storage +
  cpu :: Machine
  pmm :: PMM
  prp :: FIFOPolicy
  processList :: "Process list"
  activeThreads :: "nat list"
  currentThreadIndex :: int
  exitCodes :: "int \<rightharpoonup> Word"
  processWaiters :: "int \<rightharpoonup> nat list"
  allThreads :: "Thread list"
  world :: 'w

record 'w Env =
  host_read :: "nat \<Rightarrow> 'w \<Rightarrow> (int \<times> Byte list) \<times> 'w"
  host_write :: "int \<Rightarrow> Byte list \<Rightarrow> 'w \<Rightarrow> int \<times> 'w"
  host_file :: "string \<Rightarrow> Byte list option"
  table_order :: "PageTable \<Rightarrow> Addr list"

definition env_ok :: "'w Env \<Rightarrow> bool" where
  "env_ok env \<longleftrightarrow>
     (\<forall>t. finite (dom t) \<longrightarrow> set (table_order env t) = dom t \<and> distinct (table_order env t)) \<and>
     (\<forall>n w r bs w'. host_read env n w = ((r, bs), w') \<longrightarrow> r \<le> int n \<and> (0 < r \<longrightarrow> length bs = nat r))"

section \<open>Access to the parts\<close>

definition the_thread :: "nat \<Rightarrow> ('w Kernel, Thread) prog" where
  "the_thread i = (\<lambda>k. if i < length (allThreads k) then Inr (allThreads k ! i, k) else Inl UndefinedBehaviour)"

definition upd_thread :: "nat \<Rightarrow> (Thread \<Rightarrow> Thread) \<Rightarrow> ('w Kernel, unit) prog" where
  "upd_thread i f = (\<lambda>k.
     if i < length (allThreads k)
     then Inr ((), k\<lparr>allThreads := (allThreads k)[i := f (allThreads k ! i)]\<rparr>)
     else Inl UndefinedBehaviour)"

definition the_process :: "nat \<Rightarrow> ('w Kernel, Process) prog" where
  "the_process p = (\<lambda>k. if p < length (processList k) then Inr (processList k ! p, k) else Inl UndefinedBehaviour)"

definition upd_process :: "nat \<Rightarrow> (Process \<Rightarrow> Process) \<Rightarrow> ('w Kernel, unit) prog" where
  "upd_process p f = (\<lambda>k.
     if p < length (processList k)
     then Inr ((), k\<lparr>processList := (processList k)[p := f (processList k ! p)]\<rparr>)
     else Inl UndefinedBehaviour)"

definition setState :: "nat \<Rightarrow> ThreadState \<Rightarrow> ('w Kernel, unit) prog" where
  "setState i s = upd_thread i (\<lambda>t. t\<lparr>t_state := s\<rparr>)"

definition on_cpu :: "(Machine, 'a) prog \<Rightarrow> ('w Kernel, 'a) prog" where
  "on_cpu m = zoom cpu cpu_update m"

definition on_pmm :: "(PMM, 'a) prog \<Rightarrow> ('w Kernel, 'a) prog" where
  "on_pmm m = zoom pmm pmm_update m"

definition on_prp :: "(FIFOPolicy, 'a) prog \<Rightarrow> ('w Kernel, 'a) prog" where
  "on_prp m = zoom prp prp_update m"

definition on_stats :: "(Stats \<Rightarrow> Stats) \<Rightarrow> ('w Kernel, unit) prog" where
  "on_stats f = modify (\<lambda>k. k\<lparr>stats := f (stats k)\<rparr>)"

text \<open>The page table object of a process, and its entry for a page
  (\<^verbatim>\<open>operator[]\<close> inserts a default entry).\<close>

definition page_table :: "'w Kernel \<Rightarrow> nat \<Rightarrow> PageTable" where
  "page_table k p = tables (mmu (cpu k)) p"

definition set_page_table :: "nat \<Rightarrow> PageTable \<Rightarrow> 'w Kernel \<Rightarrow> 'w Kernel" where
  "set_page_table p t k =
     k\<lparr>cpu := (cpu k)\<lparr>mmu := (mmu (cpu k))\<lparr>tables := (tables (mmu (cpu k)))(p := t)\<rparr>\<rparr>\<rparr>"

definition get_pte :: "nat \<Rightarrow> Addr \<Rightarrow> ('w Kernel, PTE) prog" where
  "get_pte p vpn = (\<lambda>k.
     case page_table k p vpn of
       Some pte \<Rightarrow> Inr (pte, k)
     | None \<Rightarrow> Inr (PTE_new, set_page_table p ((page_table k p)(vpn \<mapsto> PTE_new)) k))"

definition set_pte :: "nat \<Rightarrow> Addr \<Rightarrow> (PTE \<Rightarrow> PTE) \<Rightarrow> ('w Kernel, unit) prog" where
  "set_pte p vpn f =
     bind (get_pte p vpn) (\<lambda>pte. modify (\<lambda>k. set_page_table p ((page_table k p)(vpn \<mapsto> f pte)) k))"

text \<open>Direct access to memory, \<^verbatim>\<open>PhysicalMemoryManager::load\<close> and \<^verbatim>\<open>store\<close>.\<close>

definition on_memory :: "(Memory, 'a) prog \<Rightarrow> ('w Kernel, 'a) prog" where
  "on_memory m = on_cpu (zoom mmu mmu_update (zoom memory memory_update m))"

definition PMM_load :: "Addr \<Rightarrow> nat \<Rightarrow> ('w Kernel, Word) prog" where
  "PMM_load paddr sz = on_memory (Memory_load paddr sz)"

definition PMM_store :: "Addr \<Rightarrow> nat \<Rightarrow> Word \<Rightarrow> ('w Kernel, unit) prog" where
  "PMM_store paddr sz value = on_memory (Memory_store paddr sz value)"

text \<open>\<^verbatim>\<open>ProcessManager::getCurrentThread\<close>.\<close>

definition getCurrentThread :: "('w Kernel, nat) prog" where
  "getCurrentThread = (\<lambda>k.
     if currentThreadIndex k = -1 then Inl (KernelPanic ''Current thread index is -1'')
     else if currentThreadIndex k < 0 \<or> nat (currentThreadIndex k) \<ge> length (activeThreads k)
       then Inl (KernelPanic ''Current thread index out of bound'')
     else Inr (activeThreads k ! nat (currentThreadIndex k), k))"

definition getProcess :: "nat \<Rightarrow> ('w Kernel, nat) prog" where
  "getProcess i = bind (the_thread i) (\<lambda>t. ret (parent t))"

definition current_process :: "('w Kernel, nat) prog" where
  "current_process = bind getCurrentThread getProcess"

section \<open>Start\<close>

text \<open>
  \<^verbatim>\<open>RV32UMOS::init\<close>: the devices, the subsystems of
  \<^verbatim>\<open>Kernel::initKernelSubsystem\<close>, and the process manager's eight empty slots.
  \<^verbatim>\<open>pc\<close>, \<^verbatim>\<open>regs\<close> and the MMU are as \<^verbatim>\<open>Machine::reset\<close> leaves them.
\<close>

definition MMU_new :: MMU where
  "MMU_new = \<lparr>memory = Memory_new, tables = (\<lambda>_. Map.empty), currentTable = None, vmEnabled = False,
     mmu_fault = False, faultAddr = 0\<rparr>"

definition Machine_new :: "fault + unit \<times> Machine" where
  "Machine_new = Machine_reset \<lparr>regs = RegFile_new, mmu = MMU_new, pc = 0, trap = no_trap\<rparr>"

definition ProcessManager_new :: "Process list" where
  "ProcessManager_new = map (\<lambda>i. PCB_new (int i) '''') [0..<MAX_PROCESS]"

definition RV32UMOS_init :: "Stats \<Rightarrow> 'w \<Rightarrow> fault + 'w Kernel" where
  "RV32UMOS_init st w =
     (case Machine_new of
        Inl e \<Rightarrow> Inl e
      | Inr (_, m) \<Rightarrow> Inr
          \<lparr>disk = InMemoryDisk_new NUM_DISK_BLOCKS, stats = st, vfs = StubFileSystem_new,
           swapM = SwapManager_new NUM_DISK_BLOCKS NUM_SWAP_BLOCKS, cpu = m, pmm = PMM_init, prp = [],
           processList = ProcessManager_new, activeThreads = [], currentThreadIndex = -1,
           exitCodes = Map.empty, processWaiters = Map.empty, allThreads = [], world = w\<rparr>)"

end
