(* ===== verification/Processes.thy ===== *)
theory Processes
  imports KernelState
begin

text \<open>
  Processes and what they own: \<^verbatim>\<open>thread/Thread\<close>,
  \<^verbatim>\<open>sync/Mutex.cpp\<close>, \<^verbatim>\<open>process/Process.cpp\<close> and
  \<^verbatim>\<open>process/ProcessManager.cpp\<close>.
\<close>

section \<open>Threads (thread/Thread.hpp)\<close>

definition Thread_new :: "int \<Rightarrow> nat \<Rightarrow> Addr \<Rightarrow> Addr \<Rightarrow> ('w Kernel, Thread) prog" where
  "Thread_new newTid p entryPC stackPtr = (\<lambda>k.
     case andthen RegFile_reset (RegFile_write 2 stackPtr) RegFile_new of
       Inl e \<Rightarrow> Inl e
     | Inr (_, r) \<Rightarrow> Inr (\<lparr>joiner = None, hasBeenJoined = False, tid = newTid, exitCode = 0, t_state = NEW,
         t_pc = entryPC, t_regs = r, parent = p, stackTop = stackPtr\<rparr>, k))"

definition write_thread_reg :: "nat \<Rightarrow> nat \<Rightarrow> Word \<Rightarrow> ('w Kernel, unit) prog" where
  "write_thread_reg i r v =
     bind (the_thread i) (\<lambda>t. \<lambda>k.
       case RegFile_write r v (t_regs t) of
         Inl e \<Rightarrow> Inl e
       | Inr (_, rs) \<Rightarrow> upd_thread i (\<lambda>t. t\<lparr>t_regs := rs\<rparr>) k)"

section \<open>Mutexes (sync/Mutex.cpp)\<close>

text \<open>The mutex is the \<^verbatim>\<open>m\<close>-th of process \<^verbatim>\<open>p\<close>.\<close>

definition the_mutex :: "nat \<Rightarrow> nat \<Rightarrow> ('w Kernel, Mutex) prog" where
  "the_mutex p m = bind (the_process p) (\<lambda>pr. \<lambda>k.
     if m < length (mutexList pr) then Inr (mutexList pr ! m, k) else Inl UndefinedBehaviour)"

definition set_mutex :: "nat \<Rightarrow> nat \<Rightarrow> Mutex \<Rightarrow> ('w Kernel, unit) prog" where
  "set_mutex p m x = upd_process p (\<lambda>pr. pr\<lparr>mutexList := (mutexList pr)[m := x]\<rparr>)"

definition Mutex_acquire :: "nat \<Rightarrow> nat \<Rightarrow> nat \<Rightarrow> ('w Kernel, bool) prog" where
  "Mutex_acquire p m thread =
     bind (the_mutex p m) (\<lambda>x.
     if locked x then
       andthen (setState thread BLOCKED)
      (andthen (set_mutex p m (x\<lparr>waitQueue := waitQueue x @ [thread]\<rparr>))
        (ret False))
     else
       andthen (set_mutex p m (x\<lparr>locked := True, mx_owner := Some thread\<rparr>))
        (ret True))"

definition Mutex_release :: "nat \<Rightarrow> nat \<Rightarrow> nat \<Rightarrow> ('w Kernel, bool) prog" where
  "Mutex_release p m thread =
     bind (the_mutex p m) (\<lambda>x.
     if Some thread \<noteq> mx_owner x then ret False
     else if waitQueue x = [] then
       andthen (set_mutex p m (x\<lparr>mx_owner := None, locked := False\<rparr>)) (ret True)
     else
       andthen (set_mutex p m (x\<lparr>locked := False, mx_owner := None\<rparr>))
      (andthen (for_each (waitQueue x) (\<lambda>t. setState t READY))
      (andthen (set_mutex p m (x\<lparr>locked := False, mx_owner := None, waitQueue := []\<rparr>))
        (ret True))))"

section \<open>Process operations (process/Process.cpp)\<close>

definition executable_at :: "Segment list \<Rightarrow> Addr \<Rightarrow> bool" where
  "executable_at segs entryPC \<longleftrightarrow>
     list_ex (\<lambda>seg. seg_vaddr seg \<le> entryPC \<and> unat entryPC < unat (seg_vaddr seg) + seg_memSize seg \<and>
       seg_flags seg AND PF_X \<noteq> 0) segs"

text \<open>The thread created, or nothing (\<^verbatim>\<open>nullptr\<close>).\<close>

definition createThread :: "nat \<Rightarrow> Addr \<Rightarrow> Word \<Rightarrow> ('w Kernel, nat option) prog" where
  "createThread p entryPC arg =
     bind (the_process p) (\<lambda>pr.
     if length (threads pr) \<ge> MAX_THREADS then ret None
     else if \<not> executable_at (segments pr) entryPC then ret None
     else
       let stackSize = (if threads pr = [] then MAIN_STACK_SIZE else THREAD_STACK_SIZE);
           top = nextStackBase pr;
           newTid = int (length (threads pr)) in
       andthen (upd_process p (\<lambda>pr. pr\<lparr>nextStackBase := top - stackSize - GUARD_PAGE_SIZE\<rparr>))
      (bind (Thread_new newTid p entryPC top) (\<lambda>t.
       bind (gets (\<lambda>k. length (allThreads k))) (\<lambda>i.
       andthen (modify (\<lambda>k. k\<lparr>allThreads := allThreads k @ [t]\<rparr>))
      (andthen (write_thread_reg i 10 arg)
      (andthen (upd_process p (\<lambda>pr. pr\<lparr>threads := threads pr @ [i]\<rparr>))
        (ret (Some i))))))))"

definition createMutex :: "nat \<Rightarrow> ('w Kernel, nat) prog" where
  "createMutex p =
     bind (the_process p) (\<lambda>pr.
     andthen (upd_process p (\<lambda>pr. pr\<lparr>mutexList := mutexList pr @ [Mutex_new]\<rparr>))
       (ret (length (mutexList pr))))"

text \<open>A mutex id is a signed 32-bit integer.\<close>

definition getMutex :: "nat \<Rightarrow> int \<Rightarrow> ('w Kernel, nat option) prog" where
  "getMutex p mid =
     bind (the_process p) (\<lambda>pr.
     if mid < 0 \<or> nat mid \<ge> length (mutexList pr) then ret None else ret (Some (nat mid)))"

definition free_fd :: "FileHandle option list \<Rightarrow> nat option" where
  "free_fd t = List.find (\<lambda>i. t ! i = None) [0..<length t]"

definition addFileHandle :: "nat \<Rightarrow> FileHandle option \<Rightarrow> ('w Kernel, int) prog" where
  "addFileHandle p handle =
     (case handle of None \<Rightarrow> ret (-1) | Some h \<Rightarrow>
        bind (the_process p) (\<lambda>pr.
        case free_fd (fdTable pr) of
          None \<Rightarrow> ret (-1)
        | Some fd \<Rightarrow> andthen (upd_process p (\<lambda>pr. pr\<lparr>fdTable := (fdTable pr)[fd := Some h]\<rparr>)) (ret (int fd))))"

definition getFileHandle :: "nat \<Rightarrow> int \<Rightarrow> ('w Kernel, FileHandle option) prog" where
  "getFileHandle p fd =
     bind (the_process p) (\<lambda>pr.
     if fd < 0 \<or> fd \<ge> int (length (fdTable pr)) then ret None else ret (fdTable pr ! nat fd))"

definition closeFileHandle :: "nat \<Rightarrow> int \<Rightarrow> ('w Kernel, bool) prog" where
  "closeFileHandle p fd =
     bind (the_process p) (\<lambda>pr.
     if fd < 0 \<or> fd \<ge> int (length (fdTable pr)) then ret False
     else if fdTable pr ! nat fd = None then ret False
     else andthen (upd_process p (\<lambda>pr. pr\<lparr>fdTable := (fdTable pr)[nat fd := None]\<rparr>)) (ret True))"

definition Process_sbrk :: "nat \<Rightarrow> Word \<Rightarrow> ('w Kernel, Addr) prog" where
  "Process_sbrk p increment =
     bind (the_process p) (\<lambda>pr.
     let oldBreak = programBreak pr;
         newBreak = programBreak pr + increment in
     if newBreak < HEAP_START \<or> newBreak > HEAP_MAX_LIMIT then ret 0
     else andthen (upd_process p (\<lambda>pr. pr\<lparr>programBreak := newBreak\<rparr>)) (ret oldBreak))"

definition wipeMemory :: "'w Env \<Rightarrow> nat \<Rightarrow> ('w Kernel, unit) prog" where
  "wipeMemory env p =
     bind (gets (\<lambda>k. page_table k p)) (\<lambda>t.
     for_each (table_order env t) (\<lambda>vpn.
       case t vpn of
         None \<Rightarrow> ret ()
       | Some pte \<Rightarrow>
           if valid pte then
             let paddr = ppn pte * KERNEL_PAGE_SIZE in
             on_pmm (PMM_freeFrame paddr)
           else ret ()))"

definition recycle :: "'w Env \<Rightarrow> nat \<Rightarrow> string \<Rightarrow> ('w Kernel, unit) prog" where
  "recycle env p newName =
     andthen (wipeMemory env p)
    (andthen (upd_process p (\<lambda>pr. pr\<lparr>instructionsExecuted := 0\<rparr>))
    (andthen (modify (set_page_table p Map.empty))
     (upd_process p (\<lambda>pr. pr\<lparr>threads := [], segments := [], mutexList := [],
        fdTable := take 3 (fdTable pr) @ replicate (length (fdTable pr) - 3) None,
        programBreak := HEAP_START, nextStackBase := STACK_TOP, p_name := newName, active := True\<rparr>))))"

text \<open>\<^verbatim>\<open>Process::terminate\<close>; the log lines at its end are not modelled.\<close>

definition terminate :: "'w Env \<Rightarrow> int \<Rightarrow> Word \<Rightarrow> ('w Kernel, bool) prog" where
  "terminate env pid code =
     bind (gets (\<lambda>k. length (processList k))) (\<lambda>n.
     if pid < 0 \<or> nat pid \<ge> n then ret False
     else
       let p = nat pid in
       bind (the_process p) (\<lambda>pr.
       if \<not> active pr then ret False
       else
         andthen (wipeMemory env p)
        (andthen (for_each (threads pr) (\<lambda>t. setState t TERMINATED))
        (andthen (modify (\<lambda>k. k\<lparr>exitCodes := (exitCodes k)(pid \<mapsto> code)\<rparr>))
        (andthen
          (bind (gets processWaiters) (\<lambda>w.
           case w pid of
             None \<Rightarrow> ret ()
           | Some waiters \<Rightarrow>
               andthen (for_each waiters (\<lambda>t. setState t READY))
                 (modify (\<lambda>k. k\<lparr>processWaiters := (processWaiters k)(pid := None)\<rparr>))))
        (andthen (on_stats (recordProcessStats pid (p_name pr) (instructionsExecuted pr)))
        (andthen (upd_process p (\<lambda>pr. pr\<lparr>active := False\<rparr>))
          (ret True))))))))"

definition killProcess :: "'w Env \<Rightarrow> int \<Rightarrow> ('w Kernel, bool) prog" where
  "killProcess env pid = terminate env pid (-1)"

end
