(* ===== verification/VirtualMemory.thy ===== *)
theory VirtualMemory
  imports Processes
begin

text \<open>
  The virtual memory manager, \<^verbatim>\<open>memory/VirtualMemoryManager.cpp\<close>: the page
  fault handler and its four ways to supply a page, frame allocation and eviction.
  A \<^verbatim>\<open>PTE&\<close> is a place in a page table and is read again after a call
  that may have changed it; a page is moved between memory and a buffer byte by byte.
\<close>

definition PAGE :: nat where
  "PAGE = unat KERNEL_PAGE_SIZE"

text \<open>\<^verbatim>\<open>evictPage\<close>.\<close>

definition drop_page :: "nat \<Rightarrow> Addr \<Rightarrow> Addr \<Rightarrow> ('w Kernel, unit) prog" where
  "drop_page p vpn victimPPN =
     andthen (set_pte p vpn (\<lambda>pte. pte\<lparr>valid := False, swapped := False, ppn := 0\<rparr>))
    (andthen (on_pmm (PMM_freeFrame (victimPPN * KERNEL_PAGE_SIZE)))
      (on_prp (PRP_onFree (unat victimPPN))))"

definition swap_page :: "nat \<Rightarrow> Addr \<Rightarrow> Addr \<Rightarrow> ('w Kernel, unit) prog" where
  "swap_page p vpn victimPPN =
     bind (copy_out (\<lambda>a. PMM_load a 1) (victimPPN * KERNEL_PAGE_SIZE) PAGE) (\<lambda>buffer.
     bind (swapOut buffer) (\<lambda>slot.
     andthen (on_stats incSwapOuts)
       (if slot = -1 then fail (KernelPanic ''Swap Full!'')
        else
          andthen (set_pte p vpn (\<lambda>pte. pte\<lparr>valid := False, swapped := True, ppn := word_of_int slot, dirty := False\<rparr>))
         (andthen (on_pmm (PMM_freeFrame (victimPPN * KERNEL_PAGE_SIZE)))
           (on_prp (PRP_onFree (unat victimPPN)))))))"

definition evictPage :: "('w Kernel, unit) prog" where
  "evictPage =
     bind (gets (\<lambda>k. frameTable (pmm k))) (\<lambda>table.
     bind (on_prp (FIFO_findVictim table)) (\<lambda>found.
     if found = -1 then fail (KernelPanic ''OOM and no victim frame found!'')
     else
       let victimPPN = (word_of_int found :: Addr);
           info = table ! unat victimPPN in
       if ownerPid info < 0 then fail UndefinedBehaviour
       else
         bind (the_process (nat (ownerPid info))) (\<lambda>_.
         let p = nat (ownerPid info); vpn = fi_vpn info in
         bind (get_pte p vpn) (\<lambda>pte.
         if \<not> canWrite pte \<or> (\<not> dirty pte \<and> \<not> swapped pte) then drop_page p vpn victimPPN
         else swap_page p vpn victimPPN))))"

definition VMM_allocateFrame :: "int \<Rightarrow> Addr \<Rightarrow> ('w Kernel, Addr) prog" where
  "VMM_allocateFrame pid vpn =
     bind (on_pmm PMM_allocateFrame) (\<lambda>info.
     bind (case info of
             Some f \<Rightarrow> ret f
           | None \<Rightarrow>
               andthen evictPage
                 (bind (on_pmm PMM_allocateFrame) (\<lambda>again.
                  case again of None \<Rightarrow> fail (KernelPanic ''Out of memory after eviction!'')
                  | Some f \<Rightarrow> ret f))) (\<lambda>paddr.
     let n = drop_bit 12 paddr in
     andthen (on_pmm (PMM_registerFrameOwner n vpn pid))
    (andthen (on_prp (FIFO_onAllocate (unat n)))
    (andthen (on_stats incAllocatedFrames)
      (ret paddr)))))"

text \<open>The process id a frame is registered under.\<close>

definition getPid :: "nat \<Rightarrow> ('w Kernel, int) prog" where
  "getPid p = bind (the_process p) (\<lambda>pr. ret (p_pid pr))"

definition handleSwapIn :: "nat \<Rightarrow> Addr \<Rightarrow> ('w Kernel, bool) prog" where
  "handleSwapIn p vpn =
     bind (get_pte p vpn) (\<lambda>pte.
     if swapped pte \<and> \<not> valid pte then
       bind (getPid p) (\<lambda>pid.
       bind (VMM_allocateFrame pid vpn) (\<lambda>newPAddr.
       bind (get_pte p vpn) (\<lambda>pte.
       let slot = sint (ppn pte) in
       bind (swapIn (replicate PAGE 0) slot) (\<lambda>buffer.
       andthen (copy_in (\<lambda>a. PMM_store a 1) newPAddr (map ucast buffer))
      (andthen (on_stats incSwapIns)
      (andthen (set_pte p vpn (\<lambda>pte. pte\<lparr>ppn := drop_bit 12 newPAddr, valid := True,
          referenced := True, dirty := False\<rparr>))
        (ret True)))))))
     else ret False)"

definition stack_size :: "Thread \<Rightarrow> Addr" where
  "stack_size t = (if tid t = 0 then MAIN_STACK_SIZE else THREAD_STACK_SIZE)"

definition map_stack_page :: "nat \<Rightarrow> Addr \<Rightarrow> ('w Kernel, bool) prog" where
  "map_stack_page p vpn =
     bind (getPid p) (\<lambda>pid.
     bind (VMM_allocateFrame pid vpn) (\<lambda>paddr.
     andthen (set_pte p vpn (\<lambda>pte. pte\<lparr>ppn := drop_bit 12 paddr, valid := True, canRead := True,
        canWrite := True, referenced := True\<rparr>))
       (ret True)))"

fun stack_loop :: "nat list \<Rightarrow> nat \<Rightarrow> Addr \<Rightarrow> Addr \<Rightarrow> ('w Kernel, bool) prog" where
  "stack_loop [] p addr vpn = ret False"
| "stack_loop (i # is) p addr vpn =
     bind (the_thread i) (\<lambda>t.
     let stackBottom = stackTop t - stack_size t in
     if stackBottom \<le> addr \<and> addr < stackTop t then map_stack_page p vpn
     else stack_loop is p addr vpn)"

definition handleStackGrowth :: "nat \<Rightarrow> Addr \<Rightarrow> Addr \<Rightarrow> ('w Kernel, bool) prog" where
  "handleStackGrowth p addr vpn =
     (if addr < STACK_REGION_BOTTOM \<or> addr \<ge> STACK_TOP then ret False
      else bind (the_process p) (\<lambda>pr. stack_loop (threads pr) p addr vpn))"

definition handleHeapGrowth :: "nat \<Rightarrow> Addr \<Rightarrow> Addr \<Rightarrow> ('w Kernel, bool) prog" where
  "handleHeapGrowth p addr vpn =
     bind (the_process p) (\<lambda>pr.
     if HEAP_START \<le> addr \<and> addr < programBreak pr then
       bind (VMM_allocateFrame (p_pid pr) vpn) (\<lambda>paddr.
       andthen (copy_in (\<lambda>a. PMM_store a 1) paddr (replicate PAGE 0))
      (andthen (set_pte p vpn (\<lambda>pte. pte\<lparr>ppn := drop_bit 12 paddr, valid := True, canRead := True,
          canWrite := True, referenced := True\<rparr>))
        (ret True)))
     else ret False)"

text \<open>
  The page image of a segment: the offset is a 32-bit difference, the file is read from
  there as far as it goes, and the rest is zero.
\<close>

definition offsetInSegment :: "Segment \<Rightarrow> Addr \<Rightarrow> nat" where
  "offsetInSegment seg vpn = unat (vpn * KERNEL_PAGE_SIZE - seg_vaddr seg)"

definition segment_page :: "'w Env \<Rightarrow> string \<Rightarrow> Segment \<Rightarrow> Addr \<Rightarrow> Byte list" where
  "segment_page env name seg vpn =
     (let off = offsetInSegment seg vpn in
      if off < seg_fileSize seg then
        let bytesToRead = min PAGE (seg_fileSize seg - off);
            content = (case host_file env name of None \<Rightarrow> [] | Some c \<Rightarrow> c);
            got = take bytesToRead (drop (seg_fileOffset seg + off) content) in
        got @ replicate (PAGE - length got) 0
      else replicate PAGE 0)"

definition in_segment :: "Segment \<Rightarrow> Addr \<Rightarrow> bool" where
  "in_segment seg addr \<longleftrightarrow> seg_vaddr seg \<le> addr \<and> unat addr < unat (seg_vaddr seg) + seg_memSize seg"

definition load_segment_page :: "'w Env \<Rightarrow> nat \<Rightarrow> Segment \<Rightarrow> Addr \<Rightarrow> ('w Kernel, bool) prog" where
  "load_segment_page env p seg vpn =
     bind (the_process p) (\<lambda>pr.
     bind (VMM_allocateFrame (p_pid pr) vpn) (\<lambda>paddr.
     andthen (if offsetInSegment seg vpn < seg_fileSize seg then on_stats incDiskReads else ret ())
    (andthen (copy_in (\<lambda>a. PMM_store a 1) paddr (map scast (segment_page env (p_name pr) seg vpn)))
    (andthen (set_pte p vpn (\<lambda>pte. setPTEFlagsFromElf
        (pte\<lparr>ppn := drop_bit 12 paddr, valid := True, referenced := True\<rparr>) (seg_flags seg)))
      (ret True)))))"

definition handleLazyLoading :: "'w Env \<Rightarrow> nat \<Rightarrow> Addr \<Rightarrow> Addr \<Rightarrow> ('w Kernel, bool) prog" where
  "handleLazyLoading env p addr vpn =
     bind (the_process p) (\<lambda>pr.
     case List.find (\<lambda>seg. in_segment seg addr) (segments pr) of
       None \<Rightarrow> ret False
     | Some seg \<Rightarrow> load_segment_page env p seg vpn)"

definition VMM_handlePageFault :: "'w Env \<Rightarrow> Addr \<Rightarrow> ('w Kernel, bool) prog" where
  "VMM_handlePageFault env addr =
     andthen (on_stats incPageFaults)
    (bind current_process (\<lambda>p.
     let vpn = drop_bit 12 addr in
     bind (get_pte p vpn) (\<lambda>pte.
     if valid pte then ret False
     else
       bind (handleSwapIn p vpn) (\<lambda>done1.
       if done1 then ret True
       else bind (handleStackGrowth p addr vpn) (\<lambda>done2.
       if done2 then ret True
       else bind (handleLazyLoading env p addr vpn) (\<lambda>done3.
       if done3 then ret True
       else bind (handleHeapGrowth p addr vpn) (\<lambda>done4.
       ret done4)))))))"

end
