(* ===== verification/Paging.thy ===== *)
theory Paging
  imports VirtualMemory Safety
begin

text \<open>
  What the virtual memory manager keeps.  The invariant \<^verbatim>\<open>vm_inv\<close> ties the page
  tables of all processes to the frame table, the replacement queue and the swap area: a valid
  entry owns its frame, an allocated frame is mapped by its owner, a swapped entry has its own
  slot.  Every path of the page fault handler keeps it and keeps the contents of every page that
  cannot be rebuilt.
\<close>

section \<open>Pages of memory as lists of bytes\<close>

definition k_mem :: "'w Kernel \<Rightarrow> Memory" where
  "k_mem k = memory (mmu (cpu k))"

definition put_mem :: "Memory \<Rightarrow> 'w Kernel \<Rightarrow> 'w Kernel" where
  "put_mem m k = k\<lparr>cpu := (cpu k)\<lparr>mmu := (mmu (cpu k))\<lparr>memory := m\<rparr>\<rparr>\<rparr>"

lemma put_mem_simps [simp]:
  "k_mem (put_mem m k) = m" "put_mem m (put_mem m' k) = put_mem m k" "put_mem (k_mem k) k = k"
  "page_table (put_mem m k) = page_table k" "pmm (put_mem m k) = pmm k" "prp (put_mem m k) = prp k"
  "processList (put_mem m k) = processList k" "swapM (put_mem m k) = swapM k" "disk (put_mem m k) = disk k"
  by (simp_all add: k_mem_def put_mem_def page_table_def fun_eq_iff)

lemma on_memory_run:
  "on_memory m k = (case m (k_mem k) of Inl e \<Rightarrow> Inl e | Inr (x, t) \<Rightarrow> Inr (x, put_mem t k))"
  by (simp add: on_memory_def on_cpu_def zoom_run k_mem_def put_mem_def split: sum.split)

lemma on_memory_bind: "bind (on_memory m) (\<lambda>x. on_memory (n x)) = on_memory (bind m n)"
  by (simp add: fun_eq_iff on_memory_run bind_run split: sum.split)

lemma on_memory_ret: "on_memory (ret x) = ret x"
  by (simp add: fun_eq_iff on_memory_run ret_run)

lemma on_memory_foldM: "foldM (\<lambda>a x. on_memory (b a x)) a xs = on_memory (foldM b a xs)"
  by (induction xs arbitrary: a) (simp_all add: foldM_Nil foldM_Cons on_memory_ret on_memory_bind)

lemma PMM_copy_in: "copy_in (\<lambda>a. PMM_store a 1) base ws = on_memory (copy_in (\<lambda>a. Memory_store a 1) base ws)"
  by (simp only: copy_in_def for_each_def PMM_store_def on_memory_foldM)

lemma on_memory_map: "bind (on_memory m) (\<lambda>x. ret (f x)) = on_memory (bind m (\<lambda>x. ret (f x)))"
  using on_memory_bind [of m "\<lambda>x. ret (f x)"] by (simp only: on_memory_ret)

lemma PMM_copy_out: "copy_out (\<lambda>a. PMM_load a 1) base n = on_memory (copy_out (\<lambda>a. Memory_load a 1) base n)"
  by (simp only: copy_out_def PMM_load_def on_memory_map on_memory_foldM)

lemma mem_byte_ext:
  assumes "length m' = length m" "\<And>j. j < length m \<Longrightarrow> mem_byte m' j = mem_byte m j"
  shows "m' = m"
  using assms by (intro nth_equalityI) (auto simp: mem_byte_def)

lemma page_in:
  assumes "mem_ok m" "unat a + length ws \<le> unat MEMORY_SIZE"
  shows "copy_in (\<lambda>a. Memory_store a 1) a ws m = Inr ((), mem_splice m (unat a) (map ucast ws))"
proof -
  obtain m' where m': "copy_in (\<lambda>a. Memory_store a 1) a ws m = Inr ((), m')" "mem_ok m'"
    "mem_byte m' = (\<lambda>j. if unat a \<le> j \<and> j < unat a + length ws then ucast (ws ! (j - unat a))
                    else mem_byte m j)"
    using ram.copy_in [OF assms] by auto
  have "m' = mem_splice m (unat a) (map ucast ws)"
  proof (rule mem_byte_ext)
    show "length m' = length (mem_splice m (unat a) (map ucast ws))"
      using m'(2) assms by (simp add: mem_ok_def)
    fix j assume "j < length (mem_splice m (unat a) (map ucast ws))"
    then show "mem_byte m' j = mem_byte (mem_splice m (unat a) (map ucast ws)) j"
      using m'(3) assms by (auto simp: mem_byte_def mem_ok_def nth_mem_splice)
  qed
  then show ?thesis
    using m'(1) by simp
qed

lemma byte_back:
  "(ucast (ucast b :: Word) :: Byte) = b" "(ucast (scast b :: Word) :: Byte) = b" for b :: Byte
  by (rule bit_word_eqI; simp add: bit_simps min_absorb2)+

lemma byte_there_and_back:
  "map ucast (map (ucast :: Byte \<Rightarrow> Word) bs) = (bs :: Byte list)"
  "map ucast (map (scast :: Byte \<Rightarrow> Word) bs) = (bs :: Byte list)"
  by (simp_all only: map_map comp_def byte_back map_ident)

lemma page_out:
  assumes "mem_ok m" "unat a + n \<le> unat MEMORY_SIZE"
  shows "copy_out (\<lambda>a. Memory_load a 1) a n m = Inr (take n (drop (unat a) m), m)"
proof -
  have "map (\<lambda>i. mem_byte m (unat a + i)) [0..<n] = take n (drop (unat a) m)"
    using assms by (intro nth_equalityI) (auto simp: mem_byte_def mem_ok_def)
  then show ?thesis
    using ram.copy_out [OF assms] by simp
qed

section \<open>Swapping touches only the disk\<close>

lemma swapOut_frame:
  "swapOut b s = Inr (r, s') \<Longrightarrow> s' = s\<lparr>disk := disk s', stats := stats s', swapM := swapM s'\<rparr>"
  by (auto simp: swapOut_def writeBlock_def Let_def split: option.splits if_splits)

lemma swapIn_frame:
  "swapIn b i s = Inr (r, s') \<Longrightarrow> s' = s\<lparr>disk := disk s', stats := stats s', swapM := swapM s'\<rparr>"
  by (auto simp: swapIn_def readBlock_def Let_def split: option.splits if_splits)

lemma PAGE_eq: "PAGE = 4096" "BLOCK_SIZE = 4096"
  by (simp_all add: PAGE_def KERNEL_PAGE_SIZE_def BLOCK_SIZE_def)

section \<open>The bookkeeping\<close>

text \<open>
  The page tables \<^verbatim>\<open>T\<close> of \<^verbatim>\<open>n\<close> processes, the owners of the frames, the pages in
  the swap area, and at most one frame taken and registered but not mapped yet.
\<close>

definition book_ok ::
  "nat \<Rightarrow> (nat \<Rightarrow> PageTable) \<Rightarrow> (nat \<Rightarrow> (int \<times> Addr) option) \<Rightarrow> (nat \<Rightarrow> Byte list option) \<Rightarrow> nat option \<Rightarrow> bool" where
  "book_ok n T own st X \<longleftrightarrow>
     (\<forall>f q v. own f = Some (q, v) \<and> X \<noteq> Some f \<longrightarrow>
        0 \<le> q \<and> nat q < n \<and> (\<exists>pte. T (nat q) v = Some pte \<and> valid pte \<and> unat (ppn pte) = f)) \<and>
     (\<forall>p v pte. T p v = Some pte \<and> valid pte \<longrightarrow>
        own (unat (ppn pte)) = Some (int p, v) \<and> X \<noteq> Some (unat (ppn pte))) \<and>
     (\<forall>p v pte. T p v = Some pte \<and> \<not> valid pte \<and> swapped pte \<longrightarrow> st (unat (ppn pte)) \<noteq> None) \<and>
     (\<forall>p v pte q u pte'. T p v = Some pte \<and> \<not> valid pte \<and> swapped pte \<and>
        T q u = Some pte' \<and> \<not> valid pte' \<and> swapped pte' \<and> ppn pte = ppn pte' \<longrightarrow> p = q \<and> v = u) \<and>
     (\<forall>p v pte. T p v = Some pte \<and> swapped pte \<longrightarrow> canWrite pte)"

lemma book_owner:
  "book_ok n T own st X \<Longrightarrow> own f = Some (q, v) \<Longrightarrow> X \<noteq> Some f \<Longrightarrow>
     0 \<le> q \<and> nat q < n \<and> (\<exists>pte. T (nat q) v = Some pte \<and> valid pte \<and> unat (ppn pte) = f)"
  unfolding book_ok_def by blast

lemma book_valid:
  "book_ok n T own st X \<Longrightarrow> T p v = Some pte \<Longrightarrow> valid pte \<Longrightarrow>
     own (unat (ppn pte)) = Some (int p, v) \<and> X \<noteq> Some (unat (ppn pte))"
  unfolding book_ok_def by blast

lemma book_swapped:
  "book_ok n T own st X \<Longrightarrow> T p v = Some pte \<Longrightarrow> \<not> valid pte \<Longrightarrow> swapped pte \<Longrightarrow> st (unat (ppn pte)) \<noteq> None"
  unfolding book_ok_def by blast

lemma book_slots:
  "book_ok n T own st X \<Longrightarrow> T p v = Some pte \<Longrightarrow> \<not> valid pte \<Longrightarrow> swapped pte \<Longrightarrow>
     T q u = Some pte' \<Longrightarrow> \<not> valid pte' \<Longrightarrow> swapped pte' \<Longrightarrow> ppn pte = ppn pte' \<Longrightarrow> p = q \<and> v = u"
  unfolding book_ok_def by blast

lemma book_writable: "book_ok n T own st X \<Longrightarrow> T p v = Some pte \<Longrightarrow> swapped pte \<Longrightarrow> canWrite pte"
  unfolding book_ok_def by blast

lemma book_okI:
  assumes "\<And>f q v. own f = Some (q, v) \<Longrightarrow> X \<noteq> Some f \<Longrightarrow>
      0 \<le> q \<and> nat q < n \<and> (\<exists>pte. T (nat q) v = Some pte \<and> valid pte \<and> unat (ppn pte) = f)"
    and "\<And>p v pte. T p v = Some pte \<Longrightarrow> valid pte \<Longrightarrow>
      own (unat (ppn pte)) = Some (int p, v) \<and> X \<noteq> Some (unat (ppn pte))"
    and "\<And>p v pte. T p v = Some pte \<Longrightarrow> \<not> valid pte \<Longrightarrow> swapped pte \<Longrightarrow> st (unat (ppn pte)) \<noteq> None"
    and "\<And>p v pte q u pte'. T p v = Some pte \<Longrightarrow> \<not> valid pte \<Longrightarrow> swapped pte \<Longrightarrow>
      T q u = Some pte' \<Longrightarrow> \<not> valid pte' \<Longrightarrow> swapped pte' \<Longrightarrow> ppn pte = ppn pte' \<Longrightarrow> p = q \<and> v = u"
    and "\<And>p v pte. T p v = Some pte \<Longrightarrow> swapped pte \<Longrightarrow> canWrite pte"
  shows "book_ok n T own st X"
  using assms unfolding book_ok_def by blast

text \<open>No two pages share a frame.\<close>

lemma book_exclusive:
  assumes "book_ok n T own st X" "T p v = Some pte" "valid pte" "T q u = Some pte'" "valid pte'"
    and "unat (ppn pte) = unat (ppn pte')"
  shows "p = q \<and> v = u"
  using book_valid [OF assms(1-3)] book_valid [OF assms(1,4,5)] assms(6) by simp

text \<open>One entry replaced.\<close>

definition put_entry :: "(nat \<Rightarrow> PageTable) \<Rightarrow> nat \<Rightarrow> Addr \<Rightarrow> PTE \<Rightarrow> nat \<Rightarrow> PageTable" where
  "put_entry T p v e = T(p := (T p)(v \<mapsto> e))"

lemma put_entry_at: "put_entry T p v e q u = (if q = p \<and> u = v then Some e else T q u)"
  by (simp add: put_entry_def)

lemma put_entry_Some:
  "put_entry T p v e q u = Some x \<longleftrightarrow> (if q = p \<and> u = v then x = e else T q u = Some x)"
  by (auto simp: put_entry_at)

text \<open>The changes: unmap a page (dropped, or to a fresh slot), take a frame, map it.\<close>

lemma book_unmap:
  assumes b: "book_ok n T own st None" and pte: "T p v = Some pte" "valid pte"
    and new: "\<not> valid e" "\<And>j. st j \<noteq> None \<Longrightarrow> st' j \<noteq> None"
      "swapped e \<Longrightarrow> canWrite e \<and> st (unat (ppn e)) = None \<and> st' (unat (ppn e)) \<noteq> None"
  shows "book_ok n (put_entry T p v e) (own(unat (ppn pte) := None)) st' None"
proof (rule book_okI)
  fix f q u assume o: "(own(unat (ppn pte) := None)) f = Some (q, u)"
  then have f: "f \<noteq> unat (ppn pte)" "own f = Some (q, u)"
    by (auto split: if_splits)
  then obtain x where x: "0 \<le> q" "nat q < n" "T (nat q) u = Some x" "valid x" "unat (ppn x) = f"
    using book_owner [OF b f(2)] by auto
  then have "\<not> (nat q = p \<and> u = v)"
    using f pte by auto
  then show "0 \<le> q \<and> nat q < n \<and> (\<exists>y. put_entry T p v e (nat q) u = Some y \<and> valid y \<and> unat (ppn y) = f)"
    using x by (auto simp: put_entry_at)
next
  fix q u x assume t: "put_entry T p v e q u = Some x" and "valid x"
  then have x: "T q u = Some x" "valid x" "\<not> (q = p \<and> u = v)"
    using new by (auto simp: put_entry_Some split: if_splits)
  then have "unat (ppn x) \<noteq> unat (ppn pte)"
    using book_exclusive [OF b x(1,2) pte] by blast
  then show "(own(unat (ppn pte) := None)) (unat (ppn x)) = Some (int q, u) \<and> None \<noteq> Some (unat (ppn x))"
    using book_valid [OF b x(1,2)] by simp
next
  fix q u x assume "put_entry T p v e q u = Some x" "\<not> valid x" "swapped x"
  then show "st' (unat (ppn x)) \<noteq> None"
    using book_swapped [OF b, of q u x] new by (auto simp: put_entry_Some split: if_splits)
next
  have split: "q = p \<and> u = v \<and> x = e \<or> T q u = Some x \<and> st (unat (ppn x)) \<noteq> None"
    if "put_entry T p v e q u = Some x" "\<not> valid x" "swapped x" for q u x
    using that book_swapped [OF b, of q u x] by (auto simp: put_entry_Some split: if_splits)
  fix q u x q' u' x' assume x: "put_entry T p v e q u = Some x" "\<not> valid x" "swapped x"
    and x': "put_entry T p v e q' u' = Some x'" "\<not> valid x'" "swapped x'" and same: "ppn x = ppn x'"
  show "q = q' \<and> u = u'"
  proof (cases "swapped e \<and> ppn x = ppn e")
    case True
    then have "st (unat (ppn x)) = None" "st (unat (ppn x')) = None"
      using new(3) same by simp_all
    then show ?thesis
      using split [OF x] split [OF x'] by blast
  next
    case False
    then have "T q u = Some x" "T q' u' = Some x'"
      using split [OF x] split [OF x'] x x' same by auto
    then show ?thesis
      using book_slots [OF b _ x(2,3) _ x'(2,3) same] by blast
  qed
next
  fix q u x assume "put_entry T p v e q u = Some x" "swapped x"
  then show "canWrite x"
    using book_writable [OF b, of q u x] new by (auto simp: put_entry_Some split: if_splits)
qed

lemma book_take:
  assumes b: "book_ok n T own st None" and "own f = None"
  shows "book_ok n T (own(f \<mapsto> x)) st (Some f)"
proof (rule book_okI)
  fix g q v assume "(own(f \<mapsto> x)) g = Some (q, v)" "Some f \<noteq> Some g"
  then show "0 \<le> q \<and> nat q < n \<and> (\<exists>pte. T (nat q) v = Some pte \<and> valid pte \<and> unat (ppn pte) = g)"
    using book_owner [OF b, of g q v] by auto
next
  fix p v pte assume "T p v = Some pte" "valid pte"
  then show "(own(f \<mapsto> x)) (unat (ppn pte)) = Some (int p, v) \<and> Some f \<noteq> Some (unat (ppn pte))"
    using book_valid [OF b, of p v pte] assms(2) by auto
qed (use b in \<open>auto dest: book_swapped book_slots book_writable\<close>)

lemma book_map:
  assumes b: "book_ok n T own st (Some f)" and f: "own f = Some (int p, v)" and p: "p < n"
    and old: "\<And>x. T p v = Some x \<Longrightarrow> \<not> valid x"
    and new: "valid e" "unat (ppn e) = f" "swapped e \<Longrightarrow> canWrite e"
    and st: "\<And>j. st j \<noteq> None \<Longrightarrow> st' j = None \<Longrightarrow> \<exists>x. T p v = Some x \<and> swapped x \<and> unat (ppn x) = j"
  shows "book_ok n (put_entry T p v e) own st' None"
proof (rule book_okI)
  fix g q u assume o: "own g = Some (q, u)"
  show "0 \<le> q \<and> nat q < n \<and> (\<exists>y. put_entry T p v e (nat q) u = Some y \<and> valid y \<and> unat (ppn y) = g)"
  proof (cases "g = f")
    case True
    then show ?thesis using o f p new by (auto simp: put_entry_at)
  next
    case False
    then show ?thesis
      using book_owner [OF b o] old by (auto simp: put_entry_at)
  qed
next
  fix q u x assume "put_entry T p v e q u = Some x" "valid x"
  then show "own (unat (ppn x)) = Some (int q, u) \<and> None \<noteq> Some (unat (ppn x))"
    using book_valid [OF b, of q u x] f new by (auto simp: put_entry_Some split: if_splits)
next
  fix q u x assume x: "put_entry T p v e q u = Some x" "\<not> valid x" "swapped x"
  then have t: "T q u = Some x" "\<not> (q = p \<and> u = v)"
    using new by (auto simp: put_entry_Some split: if_splits)
  show "st' (unat (ppn x)) \<noteq> None"
  proof
    assume "st' (unat (ppn x)) = None"
    then obtain y where y: "T p v = Some y" "swapped y" "unat (ppn y) = unat (ppn x)"
      using st book_swapped [OF b t(1) x(2,3)] by blast
    from y(3) have "ppn x = ppn y"
      by (simp add: word_unat_eq_iff)
    then show False
      using book_slots [OF b t(1) x(2,3) y(1) old [OF y(1)] y(2)] t(2) by blast
  qed
next
  fix q u x q' u' x' assume "put_entry T p v e q u = Some x" "\<not> valid x" "swapped x"
    "put_entry T p v e q' u' = Some x'" "\<not> valid x'" "swapped x'" "ppn x = ppn x'"
  then show "q = q' \<and> u = u'"
    using book_slots [OF b, of q u x q' u' x'] new by (auto simp: put_entry_Some split: if_splits)
next
  fix q u x assume "put_entry T p v e q u = Some x" "swapped x"
  then show "canWrite x"
    using book_writable [OF b, of q u x] new by (auto simp: put_entry_Some split: if_splits)
qed

section \<open>The invariant of the virtual memory manager\<close>

definition vm_inv :: "'w Kernel \<Rightarrow> nat option \<Rightarrow> bool" where
  "vm_inv k X \<longleftrightarrow>
     pmm_ok (pmm k) \<and> fifo.covers (prp k) (frameTable (pmm k)) \<and>
     (\<forall>f < 16. f \<in> pmm_avail (pmm k) \<or> pmm_owner (pmm k) f \<noteq> None) \<and>
     (\<forall>p < length (processList k). p_pid (processList k ! p) = int p) \<and>
     mem_ok (k_mem k) \<and> swap_ok k \<and>
     book_ok (length (processList k)) (page_table k) (pmm_owner (pmm k)) (stored_page k) X"

abbreviation vm_ok :: "'w Kernel \<Rightarrow> bool" where
  "vm_ok k \<equiv> vm_inv k None"

definition frame_bytes :: "'w Kernel \<Rightarrow> nat \<Rightarrow> Byte list" where
  "frame_bytes k f = take PAGE (drop (f * PAGE) (k_mem k))"

text \<open>The contents of a page, wherever it is, and the pages that exist only there.\<close>

definition page_data :: "'w Kernel \<Rightarrow> nat \<Rightarrow> Addr \<Rightarrow> Byte list option" where
  "page_data k p v =
     (case page_table k p v of
        None \<Rightarrow> None
      | Some pte \<Rightarrow>
          if valid pte then Some (frame_bytes k (unat (ppn pte)))
          else if swapped pte then stored_page k (unat (ppn pte)) else None)"

definition saved :: "'w Kernel \<Rightarrow> nat \<Rightarrow> Addr \<Rightarrow> bool" where
  "saved k p v =
     (case page_table k p v of
        None \<Rightarrow> False
      | Some pte \<Rightarrow> if valid pte then canWrite pte \<and> (dirty pte \<or> swapped pte) else swapped pte)"

definition resident :: "'w Kernel \<Rightarrow> nat \<Rightarrow> Addr \<Rightarrow> bool" where
  "resident k p v = (case page_table k p v of None \<Rightarrow> False | Some pte \<Rightarrow> valid pte)"

text \<open>A page that need not be kept stays one, and if it is still in memory it has not changed.\<close>

definition rebuildable :: "'w Kernel \<Rightarrow> 'w Kernel \<Rightarrow> nat \<Rightarrow> Addr \<Rightarrow> bool" where
  "rebuildable k k' q u \<longleftrightarrow>
     \<not> saved k' q u \<and> (resident k' q u \<longrightarrow> resident k q u \<and> page_data k' q u = page_data k q u)"

text \<open>What frame allocation may change: the tables, the frame lists, the queue and the disk;
  never a page that must be kept, never the entry of a page that is not in memory.\<close>

definition evolves :: "'w Kernel \<Rightarrow> 'w Kernel \<Rightarrow> bool" where
  "evolves k k' \<longleftrightarrow>
     (\<exists>T P q st d s. k' = k\<lparr>cpu := (cpu k)\<lparr>mmu := (mmu (cpu k))\<lparr>tables := T\<rparr>\<rparr>, pmm := P, prp := q,
        stats := st, disk := d, swapM := s\<rparr>) \<and>
     (\<forall>q u. saved k q u \<longrightarrow> saved k' q u \<and> page_data k' q u = page_data k q u) \<and>
     (\<forall>q u. \<not> saved k q u \<longrightarrow> rebuildable k k' q u) \<and>
     (\<forall>q u. \<not> resident k q u \<longrightarrow> page_table k' q u = page_table k q u)"

lemma evolves_refl: "evolves k k"
  unfolding evolves_def
  by (intro conjI exI [of _ "tables (mmu (cpu k))"] exI [of _ "pmm k"] exI [of _ "prp k"] exI [of _ "stats k"]
      exI [of _ "disk k"] exI [of _ "swapM k"]) (simp_all add: rebuildable_def)

lemma evolves_fields:
  assumes "evolves k k'"
  shows "processList k' = processList k" "allThreads k' = allThreads k" "activeThreads k' = activeThreads k"
    "currentThreadIndex k' = currentThreadIndex k" "k_mem k' = k_mem k"
    "currentTable (mmu (cpu k')) = currentTable (mmu (cpu k))" "vfs k' = vfs k"
    "regs (cpu k') = regs (cpu k)" "pc (cpu k') = pc (cpu k)" "vmEnabled (mmu (cpu k')) = vmEnabled (mmu (cpu k))"
  using assms by (auto simp: evolves_def k_mem_def)

lemma evolves_trans:
  assumes "evolves k l" "evolves l m" shows "evolves k m"
proof -
  have r: "\<not> resident l q u" if "\<not> resident k q u" for q u
    using assms(1) that by (simp add: evolves_def resident_def)
  obtain T P q st d s where "l = k\<lparr>cpu := (cpu k)\<lparr>mmu := (mmu (cpu k))\<lparr>tables := T\<rparr>\<rparr>, pmm := P, prp := q,
        stats := st, disk := d, swapM := s\<rparr>"
    using assms(1) unfolding evolves_def by blast
  moreover obtain T' P' q' st' d' s' where "m = l\<lparr>cpu := (cpu l)\<lparr>mmu := (mmu (cpu l))\<lparr>tables := T'\<rparr>\<rparr>, pmm := P', prp := q',
        stats := st', disk := d', swapM := s'\<rparr>"
    using assms(2) unfolding evolves_def by blast
  ultimately have "m = k\<lparr>cpu := (cpu k)\<lparr>mmu := (mmu (cpu k))\<lparr>tables := T'\<rparr>\<rparr>, pmm := P', prp := q',
        stats := st', disk := d', swapM := s'\<rparr>"
    by simp
  moreover have "saved m q u \<and> page_data m q u = page_data k q u" if "saved k q u" for q u
    using assms that by (simp add: evolves_def)
  moreover have "page_table m q u = page_table k q u" if "\<not> resident k q u" for q u
    using assms that r [OF that] by (simp add: evolves_def)
  moreover have "rebuildable k m q u" if "\<not> saved k q u" for q u
  proof -
    have "rebuildable k l q u" "\<not> saved l q u \<Longrightarrow> rebuildable l m q u"
      using assms that by (simp_all add: evolves_def)
    then show ?thesis
      by (auto simp: rebuildable_def)
  qed
  ultimately show ?thesis
    unfolding evolves_def by blast
qed

lemma set_page_table_simps [simp]:
  "page_table (set_page_table p t k) = (page_table k)(p := t)" "pmm (set_page_table p t k) = pmm k"
  "prp (set_page_table p t k) = prp k" "processList (set_page_table p t k) = processList k"
  "k_mem (set_page_table p t k) = k_mem k" "swap_ok (set_page_table p t k) = swap_ok k"
  "stored_page (set_page_table p t k) = stored_page k"
  by (simp_all add: set_page_table_def page_table_def k_mem_def fun_eq_iff swap_ok_def disk_ok_def
      stored_page_def block_def)

lemma get_pte_some: "page_table k p v = Some pte \<Longrightarrow> get_pte p v k = Inr (pte, k)"
  by (simp add: get_pte_def)

lemma set_pte_some:
  "page_table k p v = Some pte \<Longrightarrow> set_pte p v f k = Inr ((), set_page_table p ((page_table k p)(v \<mapsto> f pte)) k)"
  by (simp add: set_pte_def get_pte_some modify_run)

section \<open>Eviction\<close>

lemma vm_inv_parts:
  assumes "vm_inv k X"
  shows "pmm_ok (pmm k)" "fifo.covers (prp k) (frameTable (pmm k))"
    "\<And>f. f < 16 \<Longrightarrow> f \<in> pmm_avail (pmm k) \<or> pmm_owner (pmm k) f \<noteq> None"
    "\<And>p. p < length (processList k) \<Longrightarrow> p_pid (processList k ! p) = int p"
    "mem_ok (k_mem k)" "swap_ok k"
    "book_ok (length (processList k)) (page_table k) (pmm_owner (pmm k)) (stored_page k) X"
  using assms by (auto simp: vm_inv_def)

lemma owned_frame: "pmm_ok p \<Longrightarrow> pmm_owner p f \<noteq> None \<Longrightarrow> f < 16 \<and> allocated (frameTable p ! f)"
  by (auto simp: pmm_ok_def pmm_owner_def split: if_splits)

lemma frame_address:
  assumes "f < 16"
  shows "unat (word_of_nat f * KERNEL_PAGE_SIZE :: Addr) = f * PAGE"
    "unat (drop_bit 12 (word_of_nat f * KERNEL_PAGE_SIZE :: Addr)) = f"
    "(word_of_nat f * KERNEL_PAGE_SIZE :: Addr) AND 0xFFF = 0"
proof -
  show a: "unat (word_of_nat f * KERNEL_PAGE_SIZE :: Addr) = f * PAGE"
    using assms by (simp add: KERNEL_PAGE_SIZE_def PAGE_eq unat_word_ariths unat_of_nat)
  show "unat (drop_bit 12 (word_of_nat f * KERNEL_PAGE_SIZE :: Addr)) = f"
    by (simp only: unat_page_number a) (simp add: PAGE_eq)
  show "(word_of_nat f * KERNEL_PAGE_SIZE :: Addr) AND 0xFFF = 0"
    by (simp only: page_aligned_iff a) (simp add: PAGE_eq)
qed

lemma free_frame:
  assumes "pmm_ok p" "pmm_owner p f \<noteq> None"
  shows "\<exists>P. PMM_freeFrame (word_of_nat f * KERNEL_PAGE_SIZE) p = Inr ((), P) \<and> pmm_ok P \<and>
    pmm_avail P = insert f (pmm_avail p) \<and> pmm_owner P = (pmm_owner p)(f := None) \<and>
    frameTable P = (frameTable p)[f := FrameInfo_clear (frameTable p ! f)]"
proof -
  have f: "f < 16"
    using owned_frame [OF assms] by simp
  note a = frame_address [OF f]
  have "f \<notin> pmm_avail p"
    using frames.avail_free [OF assms(1), of f] assms(2) by auto
  then show ?thesis
    using frames.release [OF assms(1), of "word_of_nat f * KERNEL_PAGE_SIZE"] a f
      freeFrame_eq [OF assms(1), of "word_of_nat f * KERNEL_PAGE_SIZE"] by auto
qed

lemma page_table_put [simp]:
  "page_table (k\<lparr>cpu := (cpu k)\<lparr>mmu := (mmu (cpu k))\<lparr>tables := T\<rparr>\<rparr>, pmm := P, prp := q, stats := st,
     disk := d, swapM := s\<rparr>) = T"
  by (simp add: page_table_def fun_eq_iff)

lemma evicted:
  assumes inv: "vm_ok k" and pte: "page_table k p v = Some pte" "valid pte"
    and P: "pmm_ok P" "pmm_avail P = insert (unat (ppn pte)) (pmm_avail (pmm k))"
      "pmm_owner P = (pmm_owner (pmm k))(unat (ppn pte) := None)" "fifo.covers q (frameTable P)"
    and k': "k' = k\<lparr>cpu := (cpu k)\<lparr>mmu := (mmu (cpu k))\<lparr>tables := put_entry (page_table k) p v e\<rparr>\<rparr>,
        pmm := P, prp := q, stats := st, disk := d, swapM := s\<rparr>"
    and e: "\<not> valid e" "swap_ok k'" "\<And>j. stored_page k j \<noteq> None \<Longrightarrow> stored_page k' j = stored_page k j"
      "swapped e \<Longrightarrow> canWrite e \<and> stored_page k (unat (ppn e)) = None \<and>
         stored_page k' (unat (ppn e)) = Some (frame_bytes k (unat (ppn pte)))"
      "saved k p v \<longleftrightarrow> swapped e"
  shows "vm_ok k' \<and> evolves k k' \<and> pmm_avail (pmm k') \<noteq> {}"
proof -
  note i = vm_inv_parts [OF inv]
  have t: "page_table k' = put_entry (page_table k) p v e" "pmm k' = P" "prp k' = q"
    "processList k' = processList k" "k_mem k' = k_mem k"
    by (simp_all add: k' k_mem_def)
  have b: "book_ok (length (processList k')) (page_table k') (pmm_owner (pmm k')) (stored_page k') None"
    unfolding t P(3) using e(1,3,4) by (intro book_unmap [OF i(7) pte]) auto
  have fb: "frame_bytes k' = frame_bytes k"
    by (simp add: frame_bytes_def t fun_eq_iff)
  have keep: "saved k' x u \<and> page_data k' x u = page_data k x u" if sv: "saved k x u" for x u
  proof (cases "x = p \<and> u = v")
    case True
    then show ?thesis
      using sv e pte by (simp add: saved_def page_data_def t put_entry_at)
  next
    case False
    then have pt: "page_table k' x u = page_table k x u"
      by (auto simp: t put_entry_at)
    have "stored_page k' (unat (ppn y)) = stored_page k (unat (ppn y))"
      if "page_table k x u = Some y" "\<not> valid y" "swapped y" for y
      using book_swapped [OF i(7) that] e(3) by blast
    then show ?thesis
      using sv by (auto simp: saved_def page_data_def pt fb split: option.splits)
  qed
  have new: "rebuildable k k' x u" if sv: "\<not> saved k x u" for x u
  proof (cases "x = p \<and> u = v")
    case True
    then show ?thesis
      using sv e(1,5) by (simp add: rebuildable_def saved_def resident_def t put_entry_at)
  next
    case False
    then have "page_table k' x u = page_table k x u"
      by (auto simp: t put_entry_at)
    then show ?thesis
      using sv by (auto simp: rebuildable_def saved_def resident_def page_data_def fb split: option.splits)
  qed
  have "page_table k' x u = page_table k x u" if "\<not> resident k x u" for x u
    using that pte by (auto simp: t put_entry_at resident_def)
  then have "evolves k k'"
    unfolding evolves_def using keep new k' by blast
  moreover have "vm_ok k'"
    unfolding vm_inv_def using b e(2) i P t by auto
  ultimately show ?thesis
    using P(2) t by auto
qed

lemma on_parts_run:
  "on_pmm m k = (case m (pmm k) of Inl e \<Rightarrow> Inl e | Inr (x, t) \<Rightarrow> Inr (x, k\<lparr>pmm := t\<rparr>))"
  "on_prp n k = (case n (prp k) of Inl e \<Rightarrow> Inl e | Inr (y, q) \<Rightarrow> Inr (y, k\<lparr>prp := q\<rparr>))"
  "on_stats f k = Inr ((), k\<lparr>stats := f (stats k)\<rparr>)"
  by (simp_all add: on_pmm_def on_prp_def on_stats_def zoom_run modify_run split: sum.split)

lemma other_fields [simp]:
  "page_table (k\<lparr>prp := q\<rparr>) = page_table k" "page_table (k\<lparr>pmm := P\<rparr>) = page_table k"
  "page_table (k\<lparr>stats := st\<rparr>) = page_table k"
  "k_mem (k\<lparr>prp := q\<rparr>) = k_mem k" "k_mem (k\<lparr>pmm := P\<rparr>) = k_mem k" "k_mem (k\<lparr>stats := st\<rparr>) = k_mem k"
  "swap_ok (k\<lparr>prp := q\<rparr>) = swap_ok k" "swap_ok (k\<lparr>pmm := P\<rparr>) = swap_ok k"
  "swap_ok (k\<lparr>stats := st\<rparr>) = swap_ok k" "stored_page (k\<lparr>prp := q\<rparr>) = stored_page k"
  "stored_page (k\<lparr>pmm := P\<rparr>) = stored_page k" "stored_page (k\<lparr>stats := st\<rparr>) = stored_page k"
  by (simp_all add: page_table_def k_mem_def swap_ok_def disk_ok_def stored_page_def block_def fun_eq_iff)

lemma the_victim:
  assumes "fifo.covers q t" "f < length t" "allocated (t ! f)"
  shows "\<exists>v q'. FIFO_findVictim t q = Inr (int v, q') \<and> v < length t \<and> allocated (t ! v) \<and>
    fifo.covers q' (t[v := FrameInfo_clear (t ! v)])"
  using fifo.evict [OF assms] by (auto simp: run PRP_onFree_def split: sum.splits)

lemma drop_page_run:
  assumes "page_table k p v = Some pte" "PMM_freeFrame (w * KERNEL_PAGE_SIZE) (pmm k) = Inr ((), P)"
  shows "drop_page p v w k = Inr ((), k\<lparr>cpu := (cpu k)\<lparr>mmu := (mmu (cpu k))\<lparr>tables :=
      put_entry (page_table k) p v (pte\<lparr>valid := False, swapped := False, ppn := 0\<rparr>)\<rparr>\<rparr>, pmm := P\<rparr>)"
proof -
  have "(tables (mmu (cpu k)))(p := e) = (page_table k)(p := e)" for e
    by (simp add: page_table_def fun_eq_iff)
  then show ?thesis
    using assms by (simp add: drop_page_def andthen_run set_pte_some on_parts_run PRP_onFree_def ret_run
        set_page_table_def put_entry_def)
qed

lemma stored_slot:
  assumes "swap_ok s" "stored_page s i \<noteq> None"
  shows "i < swapSize (swapM s)" "i < 2 ^ 20"
  using assms by (auto simp: stored_page_def swap_ok_def disk_ok_def split: if_splits)

lemma swap_page_run:
  assumes inv: "mem_ok (k_mem k)" "swap_ok k" "f < 16" and pte: "page_table k p v = Some pte"
    and free: "PMM_freeFrame (word_of_nat f * KERNEL_PAGE_SIZE) (pmm k) = Inr ((), P)"
  shows "swap_page p v (word_of_nat f) k = Inl (KernelPanic ''Swap Full!'') \<or>
    (\<exists>i st d s k'. swap_page p v (word_of_nat f) k = Inr ((), k') \<and> i < 2 ^ 20 \<and>
      k' = k\<lparr>cpu := (cpu k)\<lparr>mmu := (mmu (cpu k))\<lparr>tables :=
        put_entry (page_table k) p v (pte\<lparr>valid := False, swapped := True, ppn := word_of_nat i, dirty := False\<rparr>)\<rparr>\<rparr>,
        pmm := P, stats := st, disk := d, swapM := s\<rparr> \<and> swap_ok k' \<and> stored_page k i = None \<and>
      stored_page k' = (stored_page k)(i \<mapsto> frame_bytes k f))"
proof -
  have room: "unat (word_of_nat f * KERNEL_PAGE_SIZE :: Addr) + PAGE \<le> unat MEMORY_SIZE"
    using inv(3) by (simp add: frame_address unat_MEMORY_SIZE PAGE_eq)
  have out: "copy_out (\<lambda>a. PMM_load a 1) (word_of_nat f * KERNEL_PAGE_SIZE) PAGE k = Inr (frame_bytes k f, k)"
    unfolding PMM_copy_out on_memory_run page_out [OF inv(1) room]
    using inv(3) by (simp add: frame_bytes_def frame_address)
  have len: "length (frame_bytes k f) = BLOCK_SIZE"
    using inv by (simp add: frame_bytes_def mem_ok_def unat_MEMORY_SIZE PAGE_eq)
  obtain r s1 where so: "swapOut (frame_bytes k f) k = Inr (r, s1)"
    using swapping.out_returns [OF inv(2) len] by blast
  note s1 = swapOut_frame [OF so]
  show ?thesis
  proof (cases "r = -1")
    case True
    then show ?thesis
      using so out by (simp add: swap_page_def bind_run andthen_run on_parts_run fail_run)
  next
    case False
    have sl: "0 \<le> r" "stored_page k (nat r) = None" "stored_page s1 = (stored_page k)(nat r \<mapsto> frame_bytes k f)"
      "swap_ok s1"
      using swapping.out_free [OF inv(2) len so False] by simp_all
    have i: "nat r < 2 ^ 20"
      using stored_slot(2) [OF sl(4), of "nat r"] sl(3) by simp
    let ?e = "pte\<lparr>valid := False, swapped := True, ppn := word_of_nat (nat r), dirty := False\<rparr>"
    let ?s2 = "s1\<lparr>stats := incSwapOuts (stats s1)\<rparr>"
    let ?k' = "k\<lparr>cpu := (cpu k)\<lparr>mmu := (mmu (cpu k))\<lparr>tables := put_entry (page_table k) p v ?e\<rparr>\<rparr>,
        pmm := P, stats := incSwapOuts (stats s1), disk := disk s1, swapM := swapM s1\<rparr>"
    have same: "page_table s1 = page_table k" "pmm s1 = pmm k" "cpu s1 = cpu k"
      by (subst s1; simp add: page_table_def fun_eq_iff)+
    have "(tables (mmu (cpu k)))(p := x) = (page_table k)(p := x)" for x
      by (simp add: page_table_def fun_eq_iff)
    then have k2: "(set_page_table p ((page_table k p)(v \<mapsto> ?e)) ?s2)\<lparr>pmm := P\<rparr> = ?k'"
      by (subst s1) (simp add: set_page_table_def put_entry_def)
    have "swap_page p v (word_of_nat f) k = Inr ((), ?k')"
      using so out False free pte sl(1) k2
      by (simp add: swap_page_def bind_run andthen_run on_parts_run set_pte_some same PRP_onFree_def ret_run)
    moreover have "stored_page ?k' = stored_page s1" "swap_ok ?k' = swap_ok s1"
      by (simp_all add: stored_page_def swap_ok_def disk_ok_def block_def fun_eq_iff)
    ultimately show ?thesis
      using sl i by (intro disjI2 exI [of _ "nat r"] exI [of _ "incSwapOuts (stats s1)"] exI [of _ "disk s1"]
          exI [of _ "swapM s1"] exI [of _ ?k'] conjI) simp_all
  qed
qed

text \<open>With no frame on offer there is always a victim; the only way out is a full swap area.\<close>

abbreviation only_swap_full :: "fault \<Rightarrow> bool" where
  "only_swap_full e \<equiv> e = KernelPanic ''Swap Full!''"

lemma evictPage_ok:
  assumes inv: "vm_ok k" and full: "pmm_avail (pmm k) = {}"
  shows "post only_swap_full (\<lambda>_ k'. vm_ok k' \<and> evolves k k' \<and> pmm_avail (pmm k') \<noteq> {}) evictPage k"
proof -
  note i = vm_inv_parts [OF inv]
  let ?t = "frameTable (pmm k)"
  have len: "length ?t = 16"
    using i(1) by (simp add: pmm_ok_def)
  have "pmm_owner (pmm k) 0 \<noteq> None"
    using i(3) [of 0] full by simp
  then have "allocated (?t ! 0)"
    using owned_frame [OF i(1)] by blast
  then obtain f q where v: "FIFO_findVictim ?t (prp k) = Inr (int f, q)" "f < 16" "allocated (?t ! f)"
    "fifo.covers q (?t[f := FrameInfo_clear (?t ! f)])"
    using the_victim [OF i(2), of 0] len by auto
  define p where "p = nat (ownerPid (?t ! f))"
  define u where "u = fi_vpn (?t ! f)"
  have own: "pmm_owner (pmm k) f = Some (ownerPid (?t ! f), u)"
    using v len by (simp add: pmm_owner_def u_def)
  then obtain pte where pte: "0 \<le> ownerPid (?t ! f)" "p < length (processList k)"
    "page_table k p u = Some pte" "valid pte" "unat (ppn pte) = f"
    using book_owner [OF i(7) own] by (auto simp: p_def)
  obtain P where P: "PMM_freeFrame (word_of_nat f * KERNEL_PAGE_SIZE) (pmm k) = Inr ((), P)" "pmm_ok P"
    "pmm_avail P = insert f (pmm_avail (pmm k))" "pmm_owner P = (pmm_owner (pmm k))(f := None)"
    "frameTable P = ?t[f := FrameInfo_clear (?t ! f)]"
    using free_frame [OF i(1)] own by blast
  let ?k = "k\<lparr>prp := q\<rparr>"
  have f: "unat (word_of_nat f :: Addr) = f"
    using v(2) by (simp add: unat_of_nat)
  have run: "evictPage k =
      (if \<not> canWrite pte \<or> \<not> dirty pte \<and> \<not> swapped pte then drop_page p u (word_of_nat f) ?k
       else swap_page p u (word_of_nat f) ?k)"
    using v(1) pte(1-3) f by (simp add: evictPage_def bind_run gets_run on_parts_run the_process_def
        get_pte_some Let_def p_def [symmetric] u_def [symmetric] not_less)
  show ?thesis
  proof (cases "\<not> canWrite pte \<or> \<not> dirty pte \<and> \<not> swapped pte")
    case True
    let ?e = "pte\<lparr>valid := False, swapped := False, ppn := 0\<rparr>"
    let ?k' = "k\<lparr>cpu := (cpu k)\<lparr>mmu := (mmu (cpu k))\<lparr>tables := put_entry (page_table k) p u ?e\<rparr>\<rparr>,
        pmm := P, prp := q, stats := stats k, disk := disk k, swapM := swapM k\<rparr>"
    have k': "evictPage k = Inr ((), ?k')"
      using run True drop_page_run [of ?k p u pte "word_of_nat f" P] pte(3) P(1) by simp
    have "swap_ok ?k' = swap_ok k" "stored_page ?k' = stored_page k"
      by (simp_all add: stored_page_def swap_ok_def disk_ok_def block_def fun_eq_iff)
    then have "vm_ok ?k' \<and> evolves k ?k' \<and> pmm_avail (pmm ?k') \<noteq> {}"
      using P v(4) pte(3-5) i(6) True by (intro evicted [where e = ?e and st = "stats k" and d = "disk k" and s = "swapM k", OF inv pte(3,4)])
          (simp_all add: saved_def)
    then show ?thesis
      by (simp add: post_def k')
  next
    case False
    then have sw: "evictPage k = swap_page p u (word_of_nat f) ?k"
      using run by auto
    have "swap_page p u (word_of_nat f) ?k = Inl (KernelPanic ''Swap Full!'') \<or>
      (\<exists>j st d s k'. swap_page p u (word_of_nat f) ?k = Inr ((), k') \<and> j < 2 ^ 20 \<and>
        k' = ?k\<lparr>cpu := (cpu ?k)\<lparr>mmu := (mmu (cpu ?k))\<lparr>tables := put_entry (page_table ?k) p u
          (pte\<lparr>valid := False, swapped := True, ppn := word_of_nat j, dirty := False\<rparr>)\<rparr>\<rparr>,
          pmm := P, stats := st, disk := d, swapM := s\<rparr> \<and> swap_ok k' \<and> stored_page ?k j = None \<and>
        stored_page k' = (stored_page ?k)(j \<mapsto> frame_bytes ?k f))"
      using i(5,6) v(2) pte(3) P(1) by (intro swap_page_run) simp_all
    then show ?thesis
    proof (elim disjE exE conjE)
      assume "swap_page p u (word_of_nat f) ?k = Inl (KernelPanic ''Swap Full!'')"
      then show ?thesis
        by (simp add: post_def sw)
    next
      fix j st d s k'
      let ?e = "pte\<lparr>valid := False, swapped := True, ppn := word_of_nat j, dirty := False\<rparr>"
      assume k': "swap_page p u (word_of_nat f) ?k = Inr ((), k')" "j < 2 ^ 20"
        "k' = ?k\<lparr>cpu := (cpu ?k)\<lparr>mmu := (mmu (cpu ?k))\<lparr>tables := put_entry (page_table ?k) p u ?e\<rparr>\<rparr>,
          pmm := P, stats := st, disk := d, swapM := s\<rparr>" "swap_ok k'" "stored_page ?k j = None"
        "stored_page k' = (stored_page ?k)(j \<mapsto> frame_bytes ?k f)"
      have "unat (word_of_nat j :: Addr) = j"
        using k'(2) by (simp add: unat_of_nat)
      moreover have "frame_bytes ?k f = frame_bytes k f"
        by (simp add: frame_bytes_def)
      ultimately have "vm_ok k' \<and> evolves k k' \<and> pmm_avail (pmm k') \<noteq> {}"
        using P v(4) pte(3-5) False k' by (intro evicted [where e = ?e and st = st and d = d and s = s, OF inv pte(3,4)]) (auto simp: saved_def)
      then show ?thesis
        using k'(1) by (simp add: post_def sw)
    qed
  qed
qed

section \<open>Allocation\<close>

lemma evolves_take: "evolves k (k\<lparr>pmm := P, prp := q, stats := st\<rparr>)"
proof -
  let ?k' = "k\<lparr>pmm := P, prp := q, stats := st\<rparr>"
  have "?k' = k\<lparr>cpu := (cpu k)\<lparr>mmu := (mmu (cpu k))\<lparr>tables := tables (mmu (cpu k))\<rparr>\<rparr>, pmm := P, prp := q,
      stats := st, disk := disk k, swapM := swapM k\<rparr>"
    by simp
  then have "\<exists>T P q st d s. ?k' = k\<lparr>cpu := (cpu k)\<lparr>mmu := (mmu (cpu k))\<lparr>tables := T\<rparr>\<rparr>, pmm := P, prp := q,
      stats := st, disk := d, swapM := s\<rparr>"
    by (intro exI)
  moreover have "saved ?k' x u = saved k x u" "page_data ?k' x u = page_data k x u" "resident ?k' x u = resident k x u" for x u
    by (simp_all add: saved_def page_data_def resident_def frame_bytes_def split: option.split)
  ultimately show ?thesis
    unfolding evolves_def rebuildable_def by simp
qed

definition taken :: "nat \<Rightarrow> Addr \<Rightarrow> 'w Kernel \<Rightarrow> Addr \<Rightarrow> 'w Kernel \<Rightarrow> bool" where
  "taken p v k a k' \<longleftrightarrow>
     (\<exists>f < 16. a = word_of_nat f * KERNEL_PAGE_SIZE \<and> vm_inv k' (Some f) \<and>
        pmm_owner (pmm k') f = Some (int p, v) \<and> evolves k k')"

lemma take_and_register:
  assumes inv: "vm_ok k" and room: "pmm_avail (pmm k) \<noteq> {}"
  shows "\<exists>a P. PMM_allocateFrame (pmm k) = Inr (Some a, P) \<and>
    (\<exists>k'. andthen (on_pmm (PMM_registerFrameOwner (drop_bit 12 a) v (int p)))
        (andthen (on_prp (FIFO_onAllocate (unat (drop_bit 12 a))))
        (andthen (on_stats incAllocatedFrames) (ret a))) (k\<lparr>pmm := P\<rparr>) = Inr (a, k') \<and> taken p v k a k')"
proof -
  note i = vm_inv_parts [OF inv]
  obtain a P where a: "PMM_allocateFrame (pmm k) = Inr (Some a, P)" "a AND 0xFFF = 0"
    "unat (drop_bit 12 a) \<in> pmm_avail (pmm k)" "pmm_ok P" "pmm_avail P = pmm_avail (pmm k) - {unat (drop_bit 12 a)}"
    "pmm_owner P = pmm_owner (pmm k)"
    using frames.alloc_some [OF i(1) room] by blast
  define f where "f = unat (drop_bit 12 a)"
  have f: "f < 16" "pmm_owner (pmm k) f = None" "f \<notin> pmm_avail P"
    using frames.avail_free [OF i(1) a(3)] a(5) by (simp_all add: f_def)
  have addr: "a = word_of_nat f * KERNEL_PAGE_SIZE"
    using frame_of_page [OF a(2)] by (simp add: f_def push_bit_eq_mult KERNEL_PAGE_SIZE_def)
  let ?x = "\<lparr>ownerPid = int p, fi_vpn = v, allocated = True\<rparr>"
  let ?Q = "P\<lparr>frameTable := (frameTable P)[f := ?x]\<rparr>"
  have reg: "PMM_registerFrameOwner (drop_bit 12 a) v (int p) P = Inr ((), ?Q)"
    using registerFrameOwner_eq [OF a(4), of "drop_bit 12 a"] f by (simp add: f_def)
  obtain Q' where "PMM_registerFrameOwner (drop_bit 12 a) v (int p) P = Inr ((), Q')" "pmm_ok Q'"
    "pmm_avail Q' = pmm_avail P" "pmm_owner Q' = (pmm_owner P)(f \<mapsto> (int p, v))"
    using frames.register [OF a(4), of "drop_bit 12 a" v "int p"] f by (auto simp: f_def)
  then have Q: "pmm_ok ?Q" "pmm_avail ?Q = pmm_avail P" "pmm_owner ?Q = (pmm_owner P)(f \<mapsto> (int p, v))"
    using reg by auto
  have ft: "frameTable P = frameTable (pmm k)"
    using a(1) by (auto simp: PMM_allocateFrame_def split: if_splits)
  have cov: "fifo.covers (prp k @ [f]) (frameTable ?Q)"
    using fifo.allocate_covers [OF i(2), of f ?x] f i(1) ft by (simp add: pmm_ok_def FIFO_onAllocate_def run)
  let ?k' = "k\<lparr>pmm := ?Q, prp := prp k @ [f], stats := incAllocatedFrames (stats k)\<rparr>"
  have "book_ok (length (processList k)) (page_table k) (pmm_owner ?Q) (stored_page k) (Some f)"
    using book_take [OF i(7) f(2)] Q(3) a(6) by simp
  moreover have "g \<in> pmm_avail ?Q \<or> pmm_owner ?Q g \<noteq> None" if "g < 16" for g
    using i(3) [OF that] Q a(5,6) by (auto simp: f_def)
  ultimately have "vm_inv ?k' (Some f)"
    unfolding vm_inv_def using Q cov i by simp
  then have "taken p v k a ?k'"
    unfolding taken_def using f addr Q(3) evolves_take by (intro exI [of _ f]) simp
  moreover have "andthen (on_pmm (PMM_registerFrameOwner (drop_bit 12 a) v (int p)))
        (andthen (on_prp (FIFO_onAllocate (unat (drop_bit 12 a))))
        (andthen (on_stats incAllocatedFrames) (ret a))) (k\<lparr>pmm := P\<rparr>) = Inr (a, ?k')"
    by (simp add: andthen_run on_parts_run reg FIFO_onAllocate_def modify_run ret_run f_def [symmetric])
  ultimately show ?thesis
    using a(1) by blast
qed

lemma allocateFrame_ok:
  assumes inv: "vm_ok k"
  shows "post only_swap_full (taken p v k) (VMM_allocateFrame (int p) v) k"
proof (cases "pmm_avail (pmm k) = {}")
  case False
  then show ?thesis
    using take_and_register [OF inv False, where v = v and p = p]
    by (auto simp: VMM_allocateFrame_def post_def bind_run on_parts_run(1) ret_run Let_def)
next
  case True
  have "PMM_allocateFrame (pmm k) = Inr (None, pmm k)"
    using frames.alloc_none vm_inv_parts(1) [OF inv] True by blast
  then have run: "VMM_allocateFrame (int p) v k = bind (andthen evictPage
      (bind (on_pmm PMM_allocateFrame) (\<lambda>again. case again of
         None \<Rightarrow> fail (KernelPanic ''Out of memory after eviction!'') | Some f \<Rightarrow> ret f)))
    (\<lambda>a. andthen (on_pmm (PMM_registerFrameOwner (drop_bit 12 a) v (int p)))
        (andthen (on_prp (FIFO_onAllocate (unat (drop_bit 12 a))))
        (andthen (on_stats incAllocatedFrames) (ret a)))) k"
    by (simp add: VMM_allocateFrame_def bind_run on_parts_run(1) Let_def)
  show ?thesis
  proof (cases "evictPage k")
    case (Inl e)
    then show ?thesis
      using evictPage_ok [OF inv True] run by (simp add: post_def bind_run andthen_run)
  next
    case (Inr r)
    then obtain l where l: "evictPage k = Inr ((), l)" "vm_ok l" "evolves k l" "pmm_avail (pmm l) \<noteq> {}"
      using evictPage_ok [OF inv True] by (cases r) (simp add: post_def)
    then have "post only_swap_full (taken p v l) (VMM_allocateFrame (int p) v) k"
      using take_and_register [OF l(2,4), where v = v and p = p] run
      by (auto simp: post_def bind_run andthen_run on_parts_run(1) ret_run)
    then show ?thesis
      by (rule post_mono) (auto simp: taken_def intro: evolves_trans [OF l(3)])
  qed
qed

end
