(* ===== verification/PageFaults.thy ===== *)
theory PageFaults
  imports Paging Access
begin

text \<open>
  The page fault handler as a whole: which faults it resolves, with what contents, and that it
  keeps the invariant of theory Paging and every page that exists only in memory or in the
  swap area.
\<close>

section \<open>Supplying a page\<close>

definition keeps :: "nat \<Rightarrow> Addr \<Rightarrow> 'w Kernel \<Rightarrow> 'w Kernel \<Rightarrow> bool" where
  "keeps p v k k' \<longleftrightarrow>
     (\<exists>m T P q st d s. k' = k\<lparr>cpu := (cpu k)\<lparr>mmu := (mmu (cpu k))\<lparr>memory := m, tables := T\<rparr>\<rparr>, pmm := P,
        prp := q, stats := st, disk := d, swapM := s\<rparr>) \<and>
     (\<forall>q u. (q \<noteq> p \<or> u \<noteq> v) \<longrightarrow> saved k q u \<longrightarrow> saved k' q u \<and> page_data k' q u = page_data k q u) \<and>
     (\<forall>q u. (q \<noteq> p \<or> u \<noteq> v) \<longrightarrow> \<not> saved k q u \<longrightarrow> rebuildable k k' q u)"

definition swapped_out :: "'w Kernel \<Rightarrow> nat \<Rightarrow> Addr \<Rightarrow> bool" where
  "swapped_out k p v = (case page_table k p v of None \<Rightarrow> False | Some x \<Rightarrow> \<not> valid x \<and> swapped x)"

definition faulting :: "'w Kernel \<Rightarrow> nat \<Rightarrow> Addr \<Rightarrow> bool" where
  "faulting k p v \<longleftrightarrow> vm_ok k \<and> p < length (processList k) \<and>
     (\<exists>x. page_table k p v = Some x \<and> \<not> valid x)"

definition serviced :: "nat \<Rightarrow> Addr \<Rightarrow> Byte list \<Rightarrow> 'w Kernel \<Rightarrow> 'w Kernel \<Rightarrow> bool" where
  "serviced p v bs k k' \<longleftrightarrow>
     vm_ok k' \<and> keeps p v k k' \<and> resident k' p v \<and> page_data k' p v = Some bs \<and>
     (swapped_out k p v \<longrightarrow> saved k' p v)"

lemma splice_page:
  assumes "mem_ok m" "f < 16" "g < 16" "length bs = PAGE"
  shows "take PAGE (drop (g * PAGE) (mem_splice m (f * PAGE) bs)) =
    (if g = f then bs else take PAGE (drop (g * PAGE) m))"
proof (cases "g = f")
  case True
  then show ?thesis
    using assms by (simp add: mem_splice_def mem_ok_def unat_MEMORY_SIZE PAGE_eq)
next
  case False
  have "g * PAGE + PAGE \<le> f * PAGE \<or> f * PAGE + PAGE \<le> g * PAGE"
    using False by (simp add: PAGE_eq) arith
  then show ?thesis
    using assms False splice_apart [of m "f * PAGE" bs "g * PAGE" PAGE]
    by (simp add: unat_MEMORY_SIZE PAGE_eq)
qed

text \<open>The end of every path: the frame taken is filled and mapped.\<close>

lemma mapped:
  assumes inv: "vm_inv k (Some f)" and f: "pmm_owner (pmm k) f = Some (int p, v)"
    and p: "p < length (processList k)" and old: "\<And>x. page_table k p v = Some x \<Longrightarrow> \<not> valid x"
    and new: "valid e" "unat (ppn e) = f" "swapped e \<Longrightarrow> canWrite e"
    and k': "page_table k' = put_entry (page_table k) p v e" "pmm k' = pmm k" "prp k' = prp k"
      "processList k' = processList k" "k_mem k' = mem_splice (k_mem k) (f * PAGE) bs" "length bs = PAGE"
      "swap_ok k'"
    and st: "\<And>j. stored_page k' j \<noteq> stored_page k j \<Longrightarrow>
      \<exists>x. page_table k p v = Some x \<and> swapped x \<and> unat (ppn x) = j"
  shows "vm_ok k' \<and> resident k' p v \<and> page_data k' p v = Some bs \<and> (swapped e \<longrightarrow> saved k' p v) \<and>
    (\<forall>q u. (q \<noteq> p \<or> u \<noteq> v) \<longrightarrow> saved k q u \<longrightarrow> saved k' q u \<and> page_data k' q u = page_data k q u) \<and>
    (\<forall>q u. (q \<noteq> p \<or> u \<noteq> v) \<longrightarrow> \<not> saved k q u \<longrightarrow> rebuildable k k' q u)"
proof -
  note i = vm_inv_parts [OF inv]
  have f16: "f < 16"
    using owned_frame [OF i(1), of f] f by simp
  have mem: "mem_ok (k_mem k')"
    using i(5) f16 k'(5,6) mem_splice_ok [of "k_mem k" "f * PAGE" bs] by (simp add: unat_MEMORY_SIZE PAGE_eq)
  have "book_ok (length (processList k')) (page_table k') (pmm_owner (pmm k')) (stored_page k') None"
    unfolding k' using st by (intro book_map [OF i(7) f p old new]) auto
  then have ok: "vm_ok k'"
    using i mem k' by (simp add: vm_inv_def)
  have bytes: "frame_bytes k' g = (if g = f then bs else frame_bytes k g)" if "g < 16" for g
    unfolding frame_bytes_def k'(5) by (rule splice_page [OF i(5) f16 that k'(6)])
  have "saved k' q u \<and> page_data k' q u = page_data k q u" if d: "q \<noteq> p \<or> u \<noteq> v" and s: "saved k q u" for q u
  proof -
    have t: "page_table k' q u = page_table k q u"
      using d by (auto simp: k'(1) put_entry_at)
    obtain y where y: "page_table k q u = Some y"
      using s by (auto simp: saved_def split: option.splits)
    show ?thesis
    proof (cases "valid y")
      case True
      have "pmm_owner (pmm k) (unat (ppn y)) \<noteq> None" "unat (ppn y) \<noteq> f"
        using book_valid [OF i(7) y True] by auto
      then have "frame_bytes k' (unat (ppn y)) = frame_bytes k (unat (ppn y))"
        using bytes owned_frame [OF i(1)] by simp
      then show ?thesis
        using s y t True by (simp add: saved_def page_data_def)
    next
      case False
      then have sw: "swapped y"
        using s y by (simp add: saved_def)
      have "stored_page k' (unat (ppn y)) = stored_page k (unat (ppn y))"
      proof (rule ccontr)
        assume "stored_page k' (unat (ppn y)) \<noteq> stored_page k (unat (ppn y))"
        then obtain x where x: "page_table k p v = Some x" "swapped x" "unat (ppn x) = unat (ppn y)"
          using st by blast
        from x(3) have "ppn x = ppn y"
          by (simp add: word_unat_eq_iff)
        then show False
          using book_slots [OF i(7) x(1) old [OF x(1)] x(2) y False sw] d by blast
      qed
      then show ?thesis
        using s y t False sw by (simp add: saved_def page_data_def)
    qed
  qed
  moreover have "rebuildable k k' q u" if d: "q \<noteq> p \<or> u \<noteq> v" and s: "\<not> saved k q u" for q u
  proof -
    have t: "page_table k' q u = page_table k q u"
      using d by (auto simp: k'(1) put_entry_at)
    have "frame_bytes k' (unat (ppn y)) = frame_bytes k (unat (ppn y))" if "page_table k q u = Some y" "valid y" for y
      using book_valid [OF i(7) that] bytes owned_frame [OF i(1)] by auto
    then show ?thesis
      using s by (auto simp: rebuildable_def saved_def resident_def page_data_def t split: option.splits)
  qed
  moreover have "page_data k' p v = Some bs" "resident k' p v" "swapped e \<longrightarrow> saved k' p v"
    using new bytes [OF f16] by (simp_all add: page_data_def resident_def saved_def k'(1) put_entry_at)
  ultimately show ?thesis
    using ok by blast
qed

definition frame_of :: "Addr \<Rightarrow> nat" where
  "frame_of a = unat (drop_bit 12 a)"

lemma takenE:
  assumes "taken p v k a k1"
  obtains f where "f < 16" "a = word_of_nat f * KERNEL_PAGE_SIZE" "frame_of a = f" "unat a = f * PAGE"
    "vm_inv k1 (Some f)" "pmm_owner (pmm k1) f = Some (int p, v)" "evolves k k1"
proof -
  obtain f where "f < 16" "a = word_of_nat f * KERNEL_PAGE_SIZE" "vm_inv k1 (Some f)"
    "pmm_owner (pmm k1) f = Some (int p, v)" "evolves k k1"
    using assms unfolding taken_def by blast
  then show ?thesis
    using that [of f] by (simp add: frame_of_def frame_address)
qed

lemma faulting_kept:
  assumes "faulting k p v" "evolves k k1"
  shows "page_table k1 p v = page_table k p v" "p < length (processList k1)"
  using assms by (auto simp: faulting_def evolves_def resident_def)

lemma settle:
  assumes fault: "faulting k p v" and tk: "taken p v k a k1"
    and new: "valid e" "unat (ppn e) = frame_of a" "swapped e \<Longrightarrow> canWrite e" "swapped_out k p v \<Longrightarrow> swapped e"
    and k': "k' = k1\<lparr>cpu := (cpu k1)\<lparr>mmu := (mmu (cpu k1))\<lparr>memory := mem_splice (k_mem k1) (unat a) bs,
        tables := put_entry (page_table k1) p v e\<rparr>\<rparr>, stats := st, disk := d, swapM := s\<rparr>"
      "length bs = PAGE" "swap_ok k'"
    and st: "\<And>j. stored_page k' j \<noteq> stored_page k1 j \<Longrightarrow>
      \<exists>x. page_table k p v = Some x \<and> swapped x \<and> unat (ppn x) = j"
  shows "serviced p v bs k k'"
proof -
  obtain f where f: "frame_of a = f" "unat a = f * PAGE" "vm_inv k1 (Some f)"
    "pmm_owner (pmm k1) f = Some (int p, v)" "evolves k k1"
    using tk by (rule takenE)
  note same = faulting_kept [OF fault f(5)]
  have parts: "page_table k' = put_entry (page_table k1) p v e" "pmm k' = pmm k1" "prp k' = prp k1"
    "processList k' = processList k1" "k_mem k' = mem_splice (k_mem k1) (f * PAGE) bs"
    by (simp_all add: k'(1) page_table_def k_mem_def fun_eq_iff f(2))
  have old: "\<not> valid x" if "page_table k1 p v = Some x" for x
    using that fault same(1) by (auto simp: faulting_def)
  have m: "vm_ok k' \<and> resident k' p v \<and> page_data k' p v = Some bs \<and> (swapped e \<longrightarrow> saved k' p v) \<and>
    (\<forall>q u. (q \<noteq> p \<or> u \<noteq> v) \<longrightarrow> saved k1 q u \<longrightarrow> saved k' q u \<and> page_data k' q u = page_data k1 q u) \<and>
    (\<forall>q u. (q \<noteq> p \<or> u \<noteq> v) \<longrightarrow> \<not> saved k1 q u \<longrightarrow> rebuildable k1 k' q u)"
    using new f(1) st same(1)
    by (intro mapped [OF f(3,4) same(2) old _ _ _ parts k'(2,3)]) simp_all
  obtain T P q st' d' s' where k1: "k1 = k\<lparr>cpu := (cpu k)\<lparr>mmu := (mmu (cpu k))\<lparr>tables := T\<rparr>\<rparr>, pmm := P, prp := q,
      stats := st', disk := d', swapM := s'\<rparr>"
    using f(5) unfolding evolves_def by blast
  have "k' = k\<lparr>cpu := (cpu k)\<lparr>mmu := (mmu (cpu k))\<lparr>memory := mem_splice (k_mem k1) (unat a) bs,
      tables := put_entry (page_table k1) p v e\<rparr>\<rparr>, pmm := P, prp := q, stats := st, disk := d, swapM := s\<rparr>"
    unfolding k'(1) by (subst (1 2 3) k1) simp
  then have "\<exists>m T P q st d s. k' = k\<lparr>cpu := (cpu k)\<lparr>mmu := (mmu (cpu k))\<lparr>memory := m, tables := T\<rparr>\<rparr>,
      pmm := P, prp := q, stats := st, disk := d, swapM := s\<rparr>"
    by (intro exI)
  moreover have "saved k1 q u \<and> page_data k1 q u = page_data k q u" if "saved k q u" for q u
    using f(5) that by (simp add: evolves_def)
  moreover have "rebuildable k k' q u" if "\<not> saved k q u" "q \<noteq> p \<or> u \<noteq> v" for q u
  proof -
    have "rebuildable k k1 q u"
      using f(5) that by (simp add: evolves_def)
    moreover have "rebuildable k1 k' q u"
      using m that(2) calculation by (simp add: rebuildable_def)
    ultimately show ?thesis
      by (auto simp: rebuildable_def)
  qed
  ultimately have "keeps p v k k'"
    unfolding keeps_def using m by simp
  then show ?thesis
    using m new(4) by (simp add: serviced_def)
qed

lemma supply_page:
  assumes "faulting k p v"
    and "\<And>a k1. taken p v k a k1 \<Longrightarrow> \<exists>k'. body a k1 = Inr (True, k') \<and> Q k'"
  shows "post only_swap_full (\<lambda>b k'. b \<and> Q k') (bind (VMM_allocateFrame (int p) v) body) k"
proof -
  have "post only_swap_full (taken p v k) (VMM_allocateFrame (int p) v) k"
    using assms(1) by (intro allocateFrame_ok) (simp add: faulting_def)
  then show ?thesis
    unfolding post_bind by (rule post_mono) (use assms(2) in \<open>auto simp: post_def dest!: assms(2)\<close>)
qed

lemma the_process_run: "p < length (processList k) \<Longrightarrow> the_process p k = Inr (processList k ! p, k)"
  by (simp add: the_process_def)

lemma pid_run: "faulting k p v \<Longrightarrow> getPid p k = Inr (int p, k)"
  by (auto simp: getPid_def bind_run the_process_run ret_run faulting_def dest: vm_inv_parts(4))

text \<open>Writing an entry in place.\<close>

lemma enter_page:
  assumes "page_table k p v = Some x"
  shows "set_pte p v g k = Inr ((), k\<lparr>cpu := (cpu k)\<lparr>mmu := (mmu (cpu k))\<lparr>tables := put_entry (page_table k) p v (g x)\<rparr>\<rparr>\<rparr>)"
proof -
  have "(tables (mmu (cpu k)))(p := y) = (page_table k)(p := y)" for y
    by (simp add: page_table_def fun_eq_iff)
  then show ?thesis
    using assms by (simp add: set_pte_some set_page_table_def put_entry_def)
qed

section \<open>The four ways\<close>

lemma fill_frame:
  assumes "vm_inv k (Some f)" "f < 16" "unat a = f * PAGE" "length ws = PAGE"
  shows "copy_in (\<lambda>a. PMM_store a 1) a ws k = Inr ((), put_mem (mem_splice (k_mem k) (unat a) (map ucast ws)) k)"
proof -
  have "unat a + length ws \<le> unat MEMORY_SIZE"
    using assms(2-4) by (simp add: PAGE_eq unat_MEMORY_SIZE)
  then show ?thesis
    unfolding PMM_copy_in on_memory_run using page_in [OF vm_inv_parts(5) [OF assms(1)]] by simp
qed

lemma taken_frame: "taken p v k a k1 \<Longrightarrow> unat (drop_bit 12 a) = frame_of a"
  by (simp add: frame_of_def)

lemma frame_bytes_length: "mem_ok (k_mem k) \<Longrightarrow> f < 16 \<Longrightarrow> length (frame_bytes k f) = PAGE"
  by (simp add: frame_bytes_def mem_ok_def unat_MEMORY_SIZE PAGE_eq)

lemma splice_self:
  assumes "a + n \<le> length m" shows "mem_splice m a (take n (drop a m)) = m"
proof -
  have "take a m @ take n (drop a m) = take (a + n) m"
    by (simp add: take_add)
  then show ?thesis
    using assms by (simp add: mem_splice_def flip: append_assoc)
qed

text \<open>The end of a path that does not touch the swap area.\<close>

lemma settle_memory:
  assumes "faulting k p v" "taken p v k a k1"
    and "valid e" "unat (ppn e) = frame_of a" "swapped e \<Longrightarrow> canWrite e" "swapped_out k p v \<Longrightarrow> swapped e" "length bs = PAGE"
  shows "serviced p v bs k (k1\<lparr>cpu := (cpu k1)\<lparr>mmu := (mmu (cpu k1))\<lparr>memory := mem_splice (k_mem k1) (unat a) bs,
      tables := put_entry (page_table k1) p v e\<rparr>\<rparr>, stats := st\<rparr>)"
proof -
  let ?k' = "k1\<lparr>cpu := (cpu k1)\<lparr>mmu := (mmu (cpu k1))\<lparr>memory := mem_splice (k_mem k1) (unat a) bs,
      tables := put_entry (page_table k1) p v e\<rparr>\<rparr>, stats := st\<rparr>"
  obtain f where "vm_inv k1 (Some f)"
    using assms(2) by (rule takenE)
  moreover have "swap_ok ?k' = swap_ok k1" "stored_page ?k' = stored_page k1"
    by (simp_all add: stored_page_def swap_ok_def disk_ok_def block_def fun_eq_iff)
  ultimately show ?thesis
    using assms(3-7) vm_inv_parts(6)
    by (intro settle [OF assms(1,2), where e = e and st = st and d = "disk k1" and s = "swapM k1"]) auto
qed

lemma stack_page_ok:
  assumes "faulting k p v"
  shows "post only_swap_full (\<lambda>b k'. b \<and> (\<exists>f < 16. serviced p v (frame_bytes k f) k k')) (map_stack_page p v) k"
proof -
  let ?body = "\<lambda>paddr. andthen (set_pte p v (\<lambda>pte. pte\<lparr>ppn := drop_bit 12 paddr, valid := True, canRead := True,
        canWrite := True, referenced := True\<rparr>)) (ret True)"
  have "\<exists>k'. ?body a k1 = Inr (True, k') \<and> (\<exists>f < 16. serviced p v (frame_bytes k f) k k')"
    if tk: "taken p v k a k1" for a k1
  proof -
    obtain f where f: "f < 16" "frame_of a = f" "unat a = f * PAGE" "vm_inv k1 (Some f)" "evolves k k1"
      using tk by (rule takenE)
    obtain x where x: "page_table k1 p v = Some x" "page_table k p v = Some x"
      using assms faulting_kept(1) [OF assms f(5)] by (auto simp: faulting_def)
    let ?e = "x\<lparr>ppn := drop_bit 12 a, valid := True, canRead := True, canWrite := True, referenced := True\<rparr>"
    have fb: "frame_bytes k1 f = frame_bytes k f"
      using evolves_fields(5) [OF f(5)] by (simp add: frame_bytes_def)
    have m: "mem_ok (k_mem k1)"
      using vm_inv_parts(5) [OF f(4)] .
    have "mem_splice (k_mem k1) (unat a) (frame_bytes k1 f) = memory (mmu (cpu k1))"
      using m f(1) by (simp add: frame_bytes_def f(3) splice_self k_mem_def mem_ok_def unat_MEMORY_SIZE PAGE_eq)
    then have "?body a k1 = Inr (True, k1\<lparr>cpu := (cpu k1)\<lparr>mmu := (mmu (cpu k1))\<lparr>memory :=
        mem_splice (k_mem k1) (unat a) (frame_bytes k1 f), tables := put_entry (page_table k1) p v ?e\<rparr>\<rparr>,
        stats := stats k1\<rparr>)"
      using enter_page [OF x(1)] by (simp add: andthen_run ret_run)
    moreover have "serviced p v (frame_bytes k1 f) k (k1\<lparr>cpu := (cpu k1)\<lparr>mmu := (mmu (cpu k1))\<lparr>memory :=
        mem_splice (k_mem k1) (unat a) (frame_bytes k1 f), tables := put_entry (page_table k1) p v ?e\<rparr>\<rparr>,
        stats := stats k1\<rparr>)"
      using f(1,2) x(2) taken_frame [OF tk] frame_bytes_length [OF m] by (intro settle_memory [OF assms tk]) (simp_all add: swapped_out_def)
    ultimately show ?thesis
      using f(1) fb by auto
  qed
  then have "post only_swap_full (\<lambda>b k'. b \<and> (\<exists>f < 16. serviced p v (frame_bytes k f) k k'))
      (bind (VMM_allocateFrame (int p) v) ?body) k"
    by (rule supply_page [OF assms])
  then show ?thesis
    using pid_run [OF assms] by (simp add: map_stack_page_def post_def bind_run)
qed

text \<open>A page whose contents are written into the frame before it is mapped.\<close>

lemma written_page_ok:
  assumes fault: "faulting k p v" and ws: "length ws = PAGE"
    and g: "\<And>x pa. valid (g pa x) \<and> ppn (g pa x) = drop_bit 12 pa"
      "\<And>x pa. page_table k p v = Some x \<Longrightarrow> swapped (g pa x) \<Longrightarrow> canWrite (g pa x)"
      "\<And>x pa. page_table k p v = Some x \<Longrightarrow> swapped x \<Longrightarrow> swapped (g pa x)"
  shows "post only_swap_full (\<lambda>b k'. b \<and> serviced p v (map ucast ws) k k')
    (bind (VMM_allocateFrame (int p) v) (\<lambda>pa.
      andthen (on_stats h) (andthen (copy_in (\<lambda>a. PMM_store a 1) pa ws) (andthen (set_pte p v (g pa)) (ret True))))) k"
proof (rule supply_page [OF fault])
  fix a k1 assume tk: "taken p v k a k1"
  obtain f where f: "f < 16" "frame_of a = f" "unat a = f * PAGE" "vm_inv k1 (Some f)" "evolves k k1"
    using tk by (rule takenE)
  obtain x where x: "page_table k1 p v = Some x" "page_table k p v = Some x"
    using fault faulting_kept(1) [OF fault f(5)] by (auto simp: faulting_def)
  let ?m = "mem_splice (k_mem k1) (unat a) (map ucast ws)"
  let ?k2 = "k1\<lparr>stats := h (stats k1)\<rparr>"
  let ?k' = "k1\<lparr>cpu := (cpu k1)\<lparr>mmu := (mmu (cpu k1))\<lparr>memory := ?m,
      tables := put_entry (page_table k1) p v (g a x)\<rparr>\<rparr>, stats := h (stats k1)\<rparr>"
  have "vm_inv ?k2 (Some f)"
    using f(4) by (simp add: vm_inv_def)
  then have c: "copy_in (\<lambda>a. PMM_store a 1) a ws ?k2 = Inr ((), put_mem ?m ?k2)"
    using fill_frame [of ?k2 f a ws] f(1,3) ws by simp
  have pt: "page_table (put_mem ?m ?k2) = page_table k1"
    by simp
  have "set_pte p v (g a) (put_mem ?m ?k2) = Inr ((), (put_mem ?m ?k2)\<lparr>cpu := (cpu (put_mem ?m ?k2))\<lparr>mmu :=
      (mmu (cpu (put_mem ?m ?k2)))\<lparr>tables := put_entry (page_table k1) p v (g a x)\<rparr>\<rparr>\<rparr>)"
    using enter_page [of "put_mem ?m ?k2" p v x "g a"] x(1) unfolding pt by simp
  also have "(put_mem ?m ?k2)\<lparr>cpu := (cpu (put_mem ?m ?k2))\<lparr>mmu :=
      (mmu (cpu (put_mem ?m ?k2)))\<lparr>tables := put_entry (page_table k1) p v (g a x)\<rparr>\<rparr>\<rparr> = ?k'"
    by (simp add: put_mem_def)
  finally have "set_pte p v (g a) (put_mem ?m ?k2) = Inr ((), ?k')" .
  then have "andthen (on_stats h) (andthen (copy_in (\<lambda>a. PMM_store a 1) a ws) (andthen (set_pte p v (g a)) (ret True))) k1
      = Inr (True, ?k')"
    by (simp add: andthen_run on_parts_run c ret_run del: One_nat_def)
  moreover have "serviced p v (map ucast ws) k ?k'"
    using g(1) g(2,3) [OF x(2)] x(2) ws by (intro settle_memory [OF fault tk]) (simp_all add: frame_of_def swapped_out_def)
  ultimately show "\<exists>k'. andthen (on_stats h) (andthen (copy_in (\<lambda>a. PMM_store a 1) a ws)
      (andthen (set_pte p v (g a)) (ret True))) k1 = Inr (True, k') \<and> serviced p v (map ucast ws) k k'"
    by blast
qed

lemma no_stats: "andthen (on_stats (\<lambda>s. s)) m = m"
  by (simp add: fun_eq_iff andthen_run on_parts_run)

lemma heap_page_ok:
  assumes "faulting k p v"
  shows "post only_swap_full (\<lambda>b k'. b \<and> serviced p v (replicate PAGE 0) k k')
    (bind (VMM_allocateFrame (int p) v) (\<lambda>paddr.
       andthen (copy_in (\<lambda>a. PMM_store a 1) paddr (replicate PAGE 0))
      (andthen (set_pte p v (\<lambda>pte. pte\<lparr>ppn := drop_bit 12 paddr, valid := True, canRead := True,
          canWrite := True, referenced := True\<rparr>))
        (ret True)))) k"
  using written_page_ok [OF assms, of "replicate PAGE 0" "\<lambda>paddr pte. pte\<lparr>ppn := drop_bit 12 paddr, valid := True,
      canRead := True, canWrite := True, referenced := True\<rparr>" "\<lambda>s. s"]
  unfolding no_stats by simp

lemma length_segment_page: "length (segment_page env name seg v) = PAGE"
  by (simp add: segment_page_def Let_def)

lemma segment_page_ok:
  assumes fault: "faulting k p v" and plain: "\<And>x. page_table k p v = Some x \<Longrightarrow> \<not> swapped x"
  shows "post only_swap_full
    (\<lambda>b k'. b \<and> serviced p v (segment_page env (p_name (processList k ! p)) seg v) k k')
    (load_segment_page env p seg v) k"
proof -
  let ?pr = "processList k ! p"
  let ?ws = "map scast (segment_page env (p_name ?pr) seg v) :: Word list"
  let ?h = "\<lambda>st. if offsetInSegment seg v < seg_fileSize seg then incDiskReads st else st"
  let ?g = "\<lambda>pa pte. setPTEFlagsFromElf (pte\<lparr>ppn := drop_bit 12 pa, valid := True, referenced := True\<rparr>) (seg_flags seg)"
  have p: "the_process p k = Inr (?pr, k)" "p_pid ?pr = int p"
    using fault by (auto simp: faulting_def the_process_run dest: vm_inv_parts(4))
  have h: "(if offsetInSegment seg v < seg_fileSize seg then on_stats incDiskReads else ret ()) = on_stats ?h"
    by (auto simp: fun_eq_iff on_parts_run ret_run)
  have "post only_swap_full (\<lambda>b k'. b \<and> serviced p v (map ucast ?ws) k k')
    (bind (VMM_allocateFrame (int p) v) (\<lambda>pa.
      andthen (on_stats ?h) (andthen (copy_in (\<lambda>a. PMM_store a 1) pa ?ws) (andthen (set_pte p v (?g pa)) (ret True))))) k"
    by (rule written_page_ok [OF fault]) (use plain in \<open>auto simp: length_segment_page setPTEFlagsFromElf_def\<close>)
  then show ?thesis
    unfolding byte_there_and_back load_segment_page_def post_bind h by (simp add: post_def p)
qed

lemma evolves_data:
  assumes "evolves k k1" "saved k q u"
  shows "page_data k1 q u = page_data k q u"
  using assms by (simp add: evolves_def)

lemma slot_number:
  assumes "i < 2 ^ 20" "unat w = i" shows "sint (w :: Addr) = int i"
proof -
  have "uint w = int i"
    using assms(2) by (simp add: uint_nat)
  then show ?thesis
    using assms(1) by (simp add: sint_uint signed_take_bit_int_eq_self)
qed

lemma stored_length: "stored_page s i = Some b \<Longrightarrow> swap_ok s \<Longrightarrow> length b = BLOCK_SIZE"
  using block_offset(3) [of s "swapStartBlock (swapM s) + i"]
  by (auto simp: stored_page_def swap_ok_def block_def split: if_splits)

lemma swapIn_ok:
  assumes fault: "faulting k p v" and x: "page_table k p v = Some x" "swapped x"
  shows "post only_swap_full (\<lambda>b k'. b \<and> (\<exists>bs. page_data k p v = Some bs \<and> serviced p v bs k k')) (handleSwapIn p v) k"
proof -
  let ?body = "\<lambda>newPAddr. bind (get_pte p v) (\<lambda>pte.
       let slot = sint (ppn pte) in
       bind (swapIn (replicate PAGE 0) slot) (\<lambda>buffer.
       andthen (copy_in (\<lambda>a. PMM_store a 1) newPAddr (map ucast buffer))
      (andthen (on_stats incSwapIns)
      (andthen (set_pte p v (\<lambda>pte. pte\<lparr>ppn := drop_bit 12 newPAddr, valid := True,
          referenced := True, dirty := False\<rparr>))
        (ret True)))))"
  have nv: "\<not> valid x"
    using fault x by (auto simp: faulting_def)
  have inv: "vm_ok k"
    using fault by (simp add: faulting_def)
  have wr: "canWrite x"
    using book_writable [OF vm_inv_parts(7) [OF inv] x] .
  obtain bs where bs: "stored_page k (unat (ppn x)) = Some bs"
    using book_swapped [OF vm_inv_parts(7) [OF inv] x(1) nv x(2)] by blast
  have pd: "page_data k p v = Some bs"
    using x nv bs by (simp add: page_data_def)
  have sv: "saved k p v"
    using x nv by (simp add: saved_def)
  have "\<exists>k'. ?body a k1 = Inr (True, k') \<and> serviced p v bs k k'"
    if tk: "taken p v k a k1" for a k1
  proof -
    obtain f where f: "f < 16" "frame_of a = f" "unat a = f * PAGE" "vm_inv k1 (Some f)" "evolves k k1"
      using tk by (rule takenE)
    have x1: "page_table k1 p v = Some x"
      using x faulting_kept(1) [OF fault f(5)] by simp
    obtain i where i: "unat (ppn x) = i"
      by blast
    have st1: "stored_page k1 i = Some bs"
      using evolves_data [OF f(5) sv] pd x1 x nv i by (simp add: page_data_def)
    have ok1: "swap_ok k1"
      using vm_inv_parts(6) [OF f(4)] .
    have num: "sint (ppn x) = int i"
      using stored_slot(2) [OF ok1, of i] st1 i by (intro slot_number) simp_all
    obtain s1 where si: "swapIn (replicate PAGE 0) (int i) k1 = Inr (bs, s1)"
      "stored_page s1 = (stored_page k1)(i := None)" "swap_ok s1"
      using swapping.in_stored [OF ok1 st1, of "replicate PAGE 0"] by (auto simp: PAGE_eq)
    note s1 = swapIn_frame [OF si(1)]
    have len: "length bs = PAGE"
      using st1 ok1 by (auto simp: PAGE_eq dest: stored_length)
    let ?m = "mem_splice (k_mem k1) (unat a) bs"
    let ?e = "x\<lparr>ppn := drop_bit 12 a, valid := True, referenced := True, dirty := False\<rparr>"
    let ?k' = "k1\<lparr>cpu := (cpu k1)\<lparr>mmu := (mmu (cpu k1))\<lparr>memory := ?m,
        tables := put_entry (page_table k1) p v ?e\<rparr>\<rparr>, stats := incSwapIns (stats s1), disk := disk s1, swapM := swapM s1\<rparr>"
    have same: "page_table s1 = page_table k1" "pmm s1 = pmm k1" "prp s1 = prp k1" "cpu s1 = cpu k1" "k_mem s1 = k_mem k1"
      "processList s1 = processList k1"
      by (subst s1; simp add: page_table_def k_mem_def fun_eq_iff)+
    have c: "copy_in (\<lambda>a. PMM_store a 1) a (map ucast bs) s1 = Inr ((), put_mem ?m s1)"
    proof -
      have "mem_ok (k_mem s1)" "unat a + length (map ucast bs :: Word list) \<le> unat MEMORY_SIZE"
        using vm_inv_parts(5) [OF f(4)] f(1,3) len by (simp_all add: same PAGE_eq unat_MEMORY_SIZE)
      then show ?thesis
        unfolding PMM_copy_in on_memory_run using page_in [of "k_mem s1" a "map ucast bs"] same(5)
        by (simp add: byte_there_and_back del: map_map)
    qed
    let ?k2 = "(put_mem ?m s1)\<lparr>stats := incSwapIns (stats (put_mem ?m s1))\<rparr>"
    have pt2: "page_table ?k2 = page_table k1"
      by (simp add: same)
    have "set_pte p v (\<lambda>pte. pte\<lparr>ppn := drop_bit 12 a, valid := True, referenced := True, dirty := False\<rparr>) ?k2
        = Inr ((), ?k2\<lparr>cpu := (cpu ?k2)\<lparr>mmu := (mmu (cpu ?k2))\<lparr>tables := put_entry (page_table k1) p v ?e\<rparr>\<rparr>\<rparr>)"
      using enter_page [of ?k2 p v x] x1 unfolding pt2 by simp
    also have "?k2\<lparr>cpu := (cpu ?k2)\<lparr>mmu := (mmu (cpu ?k2))\<lparr>tables := put_entry (page_table k1) p v ?e\<rparr>\<rparr>\<rparr> = ?k'"
      by (subst (1 2 3 4) s1) (simp add: put_mem_def)
    finally have se: "set_pte p v (\<lambda>pte. pte\<lparr>ppn := drop_bit 12 a, valid := True, referenced := True, dirty := False\<rparr>) ?k2
        = Inr ((), ?k')" .
    have "?body a k1 = Inr (True, ?k')"
      by (simp add: bind_run andthen_run get_pte_some [OF x1] num si(1) c on_parts_run se ret_run Let_def del: One_nat_def)
    moreover have "serviced p v bs k ?k'"
    proof (rule settle [OF fault tk])
      show "unat (ppn ?e) = frame_of a" by (simp add: frame_of_def)
      show "length bs = PAGE" by (fact len)
      have q: "swap_ok ?k' = swap_ok s1" "stored_page ?k' = stored_page s1"
        by (simp_all add: stored_page_def swap_ok_def disk_ok_def block_def fun_eq_iff)
      then show "swap_ok ?k'" using si(3) by simp
      show "\<exists>y. page_table k p v = Some y \<and> swapped y \<and> unat (ppn y) = j"
        if "stored_page ?k' j \<noteq> stored_page k1 j" for j
        using that x i unfolding q si(2) by (auto split: if_splits)
    qed (use wr x(2) in simp_all)
    ultimately show ?thesis by blast
  qed
  then have "post only_swap_full (\<lambda>b k'. b \<and> serviced p v bs k k') (bind (VMM_allocateFrame (int p) v) ?body) k"
    by (rule supply_page [OF fault])
  then have "post only_swap_full (\<lambda>b k'. b \<and> serviced p v bs k k') (handleSwapIn p v) k"
    using x nv pid_run [OF fault] by (simp add: handleSwapIn_def post_def bind_run get_pte_some Let_def)
  then show ?thesis
    by (rule post_mono) (use pd in auto)
qed

section \<open>Where a page comes from\<close>

text \<open>The specification of the handler: the source of the missing page, and the contents it promises.\<close>

datatype page_source = FromSwap | FreshStack | FromImage Segment | FreshHeap

definition in_stack :: "Thread \<Rightarrow> Addr \<Rightarrow> bool" where
  "in_stack t addr \<longleftrightarrow> stackTop t - stack_size t \<le> addr \<and> addr < stackTop t"

definition stack_region :: "'w Kernel \<Rightarrow> nat \<Rightarrow> Addr \<Rightarrow> bool" where
  "stack_region k p addr \<longleftrightarrow> STACK_REGION_BOTTOM \<le> addr \<and> addr < STACK_TOP \<and>
     (\<exists>i \<in> set (threads (processList k ! p)). in_stack (allThreads k ! i) addr)"

definition source_of :: "'w Kernel \<Rightarrow> nat \<Rightarrow> Addr \<Rightarrow> page_source option" where
  "source_of k p addr =
     (let pr = processList k ! p in
      if resident k p (drop_bit 12 addr) then None
      else if swapped_out k p (drop_bit 12 addr) then Some FromSwap
      else if stack_region k p addr then Some FreshStack
      else case List.find (\<lambda>seg. in_segment seg addr) (segments pr) of
        Some seg \<Rightarrow> Some (FromImage seg)
      | None \<Rightarrow> if HEAP_START \<le> addr \<and> addr < programBreak pr then Some FreshHeap else None)"

fun promised :: "'w Env \<Rightarrow> 'w Kernel \<Rightarrow> nat \<Rightarrow> Addr \<Rightarrow> page_source \<Rightarrow> Byte list \<Rightarrow> bool" where
  "promised env k p v FromSwap bs = (page_data k p v = Some bs)"
| "promised env k p v FreshStack bs = (\<exists>f < 16. bs = frame_bytes k f)"
| "promised env k p v (FromImage seg) bs = (bs = segment_page env (p_name (processList k ! p)) seg v)"
| "promised env k p v FreshHeap bs = (bs = replicate PAGE 0)"

definition threads_ok :: "'w Kernel \<Rightarrow> bool" where
  "threads_ok k \<longleftrightarrow> (\<forall>pr \<in> set (processList k). \<forall>i \<in> set (threads pr). i < length (allThreads k))"

lemma source_swapped: "source_of k p addr = Some FromSwap \<Longrightarrow> swapped_out k p (drop_bit 12 addr)"
  by (auto simp: source_of_def Let_def split: if_splits option.splits)

section \<open>The handler\<close>

text \<open>Looking at an entry creates it.\<close>

definition touched :: "nat \<Rightarrow> Addr \<Rightarrow> 'w Kernel \<Rightarrow> 'w Kernel" where
  "touched p v k = (case page_table k p v of
     None \<Rightarrow> set_page_table p ((page_table k p)(v \<mapsto> PTE_new)) k | Some _ \<Rightarrow> k)"

lemma get_pte_touched: "get_pte p v k = Inr (the (page_table (touched p v k) p v), touched p v k)"
  by (simp add: get_pte_def touched_def split: option.split)

lemma touched_simps [simp]:
  "processList (touched p v k) = processList k" "allThreads (touched p v k) = allThreads k"
  "k_mem (touched p v k) = k_mem k" "pmm (touched p v k) = pmm k" "prp (touched p v k) = prp k"
  "swap_ok (touched p v k) = swap_ok k" "stored_page (touched p v k) = stored_page k"
  "frame_bytes (touched p v k) = frame_bytes k"
  "page_table (touched p v k) q u =
    (if q = p \<and> u = v \<and> page_table k p v = None then Some PTE_new else page_table k q u)"
  by (simp_all add: touched_def set_page_table_def frame_bytes_def k_mem_def page_table_def fun_eq_iff
      swap_ok_def disk_ok_def stored_page_def block_def split: option.split)

lemma blank_entry [simp]: "\<not> valid PTE_new" "\<not> swapped PTE_new"
  by (simp_all add: PTE_new_def)

lemma touched_pages:
  "saved (touched p v k) q u = saved k q u" "page_data (touched p v k) q u = page_data k q u"
  "resident (touched p v k) q u = resident k q u" "swapped_out (touched p v k) q u = swapped_out k q u"
  by (auto simp: saved_def page_data_def resident_def swapped_out_def split: option.splits)

lemma book_blank:
  assumes b: "book_ok n T own st None" and T': "\<And>q u. T' q u = (if q = p \<and> u = v \<and> T p v = None then Some PTE_new else T q u)"
  shows "book_ok n T' own st None"
proof (rule book_okI)
  fix f q u assume "own f = Some (q, u)"
  then show "0 \<le> q \<and> nat q < n \<and> (\<exists>pte. T' (nat q) u = Some pte \<and> valid pte \<and> unat (ppn pte) = f)"
    using book_owner [OF b] by (fastforce simp: T')
next
  fix q u x assume "T' q u = Some x" "valid x"
  then show "own (unat (ppn x)) = Some (int q, u) \<and> None \<noteq> Some (unat (ppn x))"
    using book_valid [OF b, of q u x] by (auto simp: T' split: if_splits)
next
  fix q u x assume "T' q u = Some x" "\<not> valid x" "swapped x"
  then show "st (unat (ppn x)) \<noteq> None"
    using book_swapped [OF b, of q u x] by (auto simp: T' split: if_splits)
next
  fix q u x q' u' x' assume "T' q u = Some x" "\<not> valid x" "swapped x" "T' q' u' = Some x'" "\<not> valid x'"
    "swapped x'" "ppn x = ppn x'"
  then show "q = q' \<and> u = u'"
    using book_slots [OF b, of q u x q' u' x'] by (auto simp: T' split: if_splits)
next
  fix q u x assume "T' q u = Some x" "swapped x"
  then show "canWrite x"
    using book_writable [OF b, of q u x] by (auto simp: T' split: if_splits)
qed

lemma touched_ok: "vm_ok k \<Longrightarrow> vm_ok (touched p v k)"
  by (simp add: vm_inv_def) (elim conjE, rule book_blank, assumption, simp)

lemma stack_loop_run:
  "\<forall>i \<in> set is. i < length (allThreads k) \<Longrightarrow> stack_loop is p addr v k =
     (if \<exists>i \<in> set is. in_stack (allThreads k ! i) addr then map_stack_page p v k else Inr (False, k))"
  by (induction "is") (auto simp: bind_run the_thread_def ret_run in_stack_def Let_def)

lemma stackGrowth_run:
  assumes "threads_ok k" "p < length (processList k)"
  shows "handleStackGrowth p addr v k = (if stack_region k p addr then map_stack_page p v k else Inr (False, k))"
proof -
  have "\<forall>i \<in> set (threads (processList k ! p)). i < length (allThreads k)"
    using assms nth_mem by (fastforce simp: threads_ok_def)
  then show ?thesis
    using assms(2) by (auto simp: handleStackGrowth_def stack_region_def bind_run the_process_run stack_loop_run ret_run)
qed

lemma orelse_done:
  "post E (\<lambda>b s'. b \<and> Q s') m s \<Longrightarrow> post E (\<lambda>b s'. b \<and> Q s') (bind m (\<lambda>d. if d then ret True else n)) s"
  unfolding post_bind by (erule post_mono) (simp_all add: post_ret)

lemma orelse_next: "m s = Inr (False, s) \<Longrightarrow> bind m (\<lambda>d. if d then ret True else n) s = n s"
  by (simp add: bind_run)

lemma keeps_touched:
  assumes "keeps p v (touched p v (k\<lparr>stats := st\<rparr>)) k'"
  shows "keeps p v k k'"
proof -
  let ?l = "touched p v (k\<lparr>stats := st\<rparr>)"
  obtain m T P q st' d s where k': "k' = ?l\<lparr>cpu := (cpu ?l)\<lparr>mmu := (mmu (cpu ?l))\<lparr>memory := m, tables := T\<rparr>\<rparr>,
      pmm := P, prp := q, stats := st', disk := d, swapM := s\<rparr>"
    using assms unfolding keeps_def by blast
  have "k' = k\<lparr>cpu := (cpu k)\<lparr>mmu := (mmu (cpu k))\<lparr>memory := m, tables := T\<rparr>\<rparr>, pmm := P,
      prp := q, stats := st', disk := d, swapM := s\<rparr>"
    unfolding k' by (simp add: touched_def set_page_table_def split: option.split)
  then have "\<exists>m T P q st d s. k' = k\<lparr>cpu := (cpu k)\<lparr>mmu := (mmu (cpu k))\<lparr>memory := m, tables := T\<rparr>\<rparr>, pmm := P,
      prp := q, stats := st, disk := d, swapM := s\<rparr>"
    by (intro exI)
  moreover have "saved (k\<lparr>stats := st\<rparr>) q u = saved k q u" "page_data (k\<lparr>stats := st\<rparr>) q u = page_data k q u" for q u
    by (simp_all add: saved_def page_data_def frame_bytes_def split: option.split)
  moreover have "resident (k\<lparr>stats := st\<rparr>) q u = resident k q u" for q u
    by (simp add: resident_def)
  moreover have "saved ?l q u \<longrightarrow> saved k' q u \<and> page_data k' q u = page_data ?l q u"
    "\<not> saved ?l q u \<longrightarrow> rebuildable ?l k' q u" if "q \<noteq> p \<or> u \<noteq> v" for q u
    using assms that unfolding keeps_def by simp_all
  ultimately show ?thesis
    unfolding keeps_def rebuildable_def by (simp add: touched_pages)
qed

lemma keeps_self: "keeps p v k (touched p v (k\<lparr>stats := st\<rparr>))"
proof (rule keeps_touched)
  let ?l = "touched p v (k\<lparr>stats := st\<rparr>)"
  have "?l = ?l\<lparr>cpu := (cpu ?l)\<lparr>mmu := (mmu (cpu ?l))\<lparr>memory := memory (mmu (cpu ?l)), tables := tables (mmu (cpu ?l))\<rparr>\<rparr>,
      pmm := pmm ?l, prp := prp ?l, stats := stats ?l, disk := disk ?l, swapM := swapM ?l\<rparr>"
    by simp
  then have "\<exists>m T P q st d s. ?l = ?l\<lparr>cpu := (cpu ?l)\<lparr>mmu := (mmu (cpu ?l))\<lparr>memory := m, tables := T\<rparr>\<rparr>,
      pmm := P, prp := q, stats := st, disk := d, swapM := s\<rparr>"
    by (intro exI)
  then show "keeps p v ?l ?l"
    by (simp add: keeps_def rebuildable_def)
qed

text \<open>What the handler does with an entry that is not in memory.\<close>

definition resolve :: "'w Env \<Rightarrow> nat \<Rightarrow> Addr \<Rightarrow> ('w Kernel, bool) prog" where
  "resolve env p addr =
     (let v = drop_bit 12 addr in
      bind (handleSwapIn p v) (\<lambda>d. if d then ret True
      else bind (handleStackGrowth p addr v) (\<lambda>d. if d then ret True
      else bind (handleLazyLoading env p addr v) (\<lambda>d. if d then ret True
      else handleHeapGrowth p addr v))))"

lemma handler_run:
  assumes "current_process k = Inr (p, k)"
  shows "VMM_handlePageFault env addr k =
    (let l = touched p (drop_bit 12 addr) (k\<lparr>stats := incPageFaults (stats k)\<rparr>) in
     if resident k p (drop_bit 12 addr) then Inr (False, l) else resolve env p addr l)"
proof -
  have ret_id: "bind m (\<lambda>d. ret d) = m" for m :: "('a Kernel, bool) prog"
    by (simp add: fun_eq_iff bind_run ret_run split: sum.split)
  let ?k = "k\<lparr>stats := incPageFaults (stats k)\<rparr>"
  have "current_process ?k = Inr (p, ?k)"
    using assms by (auto simp: current_process_def getCurrentThread_def getProcess_def the_thread_def bind_run ret_run
        split: if_splits)
  moreover have "valid (the (page_table (touched p v ?k) p v)) \<longleftrightarrow> resident k p v" for v
    by (auto simp: resident_def split: option.split)
  ultimately show ?thesis
    by (simp add: VMM_handlePageFault_def resolve_def andthen_run on_parts_run bind_run get_pte_touched ret_run ret_id Let_def
        cong: if_cong sum.case_cong)
qed

text \<open>The four ways in their order, from a state whose entry is there but not valid.\<close>

lemma resolve_ok:
  assumes fault: "faulting k p v" and v: "v = drop_bit 12 addr" and t: "threads_ok k"
  shows "case source_of k p addr of
      None \<Rightarrow> resolve env p addr k = Inr (False, k)
    | Some src \<Rightarrow> post only_swap_full (\<lambda>b k'. b \<and> (\<exists>bs. promised env k p v src bs \<and> serviced p v bs k k'))
        (resolve env p addr) k"
proof -
  let ?pr = "processList k ! p"
  let ?seg = "List.find (\<lambda>seg. in_segment seg addr) (segments ?pr)"
  obtain x where x: "page_table k p v = Some x" "\<not> valid x"
    using fault by (auto simp: faulting_def)
  have p: "p < length (processList k)" "p_pid ?pr = int p"
    using fault by (auto simp: faulting_def dest: vm_inv_parts(4))
  have no_swap: "handleSwapIn p v k = Inr (False, k)" if "\<not> swapped x"
    using that x by (simp add: handleSwapIn_def bind_run get_pte_some ret_run)
  have lazy: "handleLazyLoading env p addr v k = (case ?seg of None \<Rightarrow> Inr (False, k) | Some seg \<Rightarrow> load_segment_page env p seg v k)"
    using p by (simp add: handleLazyLoading_def bind_run the_process_run ret_run split: option.split)
  note res = resolve_def [of env p addr, folded v, unfolded Let_def]
  have src: "source_of k p addr = (if swapped x then Some FromSwap else if stack_region k p addr then Some FreshStack
      else case ?seg of Some seg \<Rightarrow> Some (FromImage seg)
      | None \<Rightarrow> if HEAP_START \<le> addr \<and> addr < programBreak ?pr then Some FreshHeap else None)"
    using x by (simp add: source_of_def resident_def swapped_out_def Let_def flip: v split: option.split)
  consider (swap) "swapped x" | (stack) "\<not> swapped x" "stack_region k p addr"
    | (image) seg where "\<not> swapped x" "\<not> stack_region k p addr" "?seg = Some seg"
    | (heap) "\<not> swapped x" "\<not> stack_region k p addr" "?seg = None"
    by (cases ?seg) auto
  then show ?thesis
  proof cases
    case swap
    then show ?thesis
      using src swapIn_ok [OF fault x(1)] unfolding res by (simp add: orelse_done)
  next
    case stack
    have "post only_swap_full (\<lambda>b k'. b \<and> (\<exists>bs. promised env k p v FreshStack bs \<and> serviced p v bs k k'))
        (handleStackGrowth p addr v) k"
      using stack_page_ok [OF fault] stackGrowth_run [OF t p(1)] stack(2) by (auto simp: post_def split: sum.splits)
    then show ?thesis
      using src stack no_swap unfolding res by (simp add: post_def orelse_next) (simp add: orelse_done flip: post_def)
  next
    case image
    have "post only_swap_full (\<lambda>b k'. b \<and> (\<exists>bs. promised env k p v (FromImage seg) bs \<and> serviced p v bs k k'))
        (handleLazyLoading env p addr v) k"
      using segment_page_ok [OF fault, of env seg] lazy image x(1) by (simp add: post_def)
    then show ?thesis
      using src image no_swap stackGrowth_run [OF t p(1)] unfolding res
      by (simp add: post_def orelse_next) (simp add: orelse_done flip: post_def)
  next
    case heap
    show ?thesis
      using src heap no_swap stackGrowth_run [OF t p(1)] lazy heap_page_ok [OF fault] p
      unfolding res by (simp add: post_def orelse_next handleHeapGrowth_def bind_run the_process_run ret_run
          del: One_nat_def split: option.split)
  qed
qed

lemma fault_serviced:
  assumes "vm_ok k" "threads_ok k" "current_process k = Inr (p, k)" "p < length (processList k)"
  shows "post only_swap_full (\<lambda>b k'. vm_ok k' \<and> keeps p (drop_bit 12 addr) k k' \<and>
      (case source_of k p addr of
         None \<Rightarrow> \<not> b
       | Some src \<Rightarrow> b \<and> resident k' p (drop_bit 12 addr) \<and> (src = FromSwap \<longrightarrow> saved k' p (drop_bit 12 addr)) \<and>
           (\<exists>bs. promised env k p (drop_bit 12 addr) src bs \<and> page_data k' p (drop_bit 12 addr) = Some bs)))
    (VMM_handlePageFault env addr) k"
proof -
  define v where "v = drop_bit 12 addr"
  let ?s = "k\<lparr>stats := incPageFaults (stats k)\<rparr>"
  let ?l = "touched p v ?s"
  have s: "saved ?s q u = saved k q u" "page_data ?s q u = page_data k q u" "resident ?s q u = resident k q u"
    "swapped_out ?s q u = swapped_out k q u" "frame_bytes ?s = frame_bytes k" for q u
    by (simp_all add: saved_def page_data_def resident_def swapped_out_def frame_bytes_def fun_eq_iff split: option.split)
  have vm: "vm_ok ?l"
    using assms(1) by (intro touched_ok) (simp add: vm_inv_def)
  have t: "threads_ok ?l"
    using assms(2) by (simp add: threads_ok_def)
  have sr: "stack_region ?l p addr = stack_region k p addr"
    by (simp add: stack_region_def)
  have src: "source_of ?l p addr = source_of k p addr"
    unfolding source_of_def touched_pages s sr by simp
  have pr: "promised env ?l p v x bs = promised env k p v x bs" for x bs
    by (cases x) (simp_all add: touched_pages s)
  have run: "VMM_handlePageFault env addr k = (if resident k p v then Inr (False, ?l) else resolve env p addr ?l)"
    using handler_run [OF assms(3)] by (simp add: v_def Let_def)
  show ?thesis
  proof (cases "resident k p v")
    case True
    then show ?thesis
      using run vm keeps_self [where k = k and p = p and v = v] by (simp add: post_def source_of_def Let_def flip: v_def)
  next
    case False
    then have "faulting ?l p v"
      using vm assms(4) by (auto simp: faulting_def resident_def split: option.splits)
    moreover have "source_of k p addr = Some FromSwap \<Longrightarrow> swapped_out ?l p v"
      using source_swapped [of ?l p addr] src by (simp flip: v_def)
    ultimately show ?thesis
      using resolve_ok [of ?l p v, OF _ v_def t, of env] unfolding src pr
      using run False vm keeps_self [where k = k and p = p and v = v] keeps_touched [where k = k and p = p and v = v]
      by (auto simp: post_def serviced_def simp flip: v_def split: option.splits sum.splits)
  qed
qed

end
