(* ===== verification/Scheduling.thy ===== *)
theory Scheduling
  imports KernelState
begin

text \<open>
  The scheduler, \<^verbatim>\<open>scheduler/Scheduler.cpp\<close>: round robin over the active
  threads, with the context switch between the processor and the thread records.  Log
  output is not modelled, so the branches of \<^verbatim>\<open>preempt\<close> that only report
  (nothing to run, deadlock) return without a change.
\<close>

text \<open>\<^verbatim>\<open>activeThreads[i]\<close>.\<close>

definition active_thread :: "int \<Rightarrow> ('w Kernel, nat) prog" where
  "active_thread i = (\<lambda>k.
     if 0 \<le> i \<and> nat i < length (activeThreads k) then Inr (activeThreads k ! nat i, k)
     else Inl UndefinedBehaviour)"

definition checkCurrentThreadRunnable :: "('w Kernel, bool) prog" where
  "checkCurrentThreadRunnable =
     bind (gets currentThreadIndex) (\<lambda>i.
     if i = -1 then ret False
     else bind getCurrentThread (\<lambda>c.
          bind (the_thread c) (\<lambda>t. ret (t_state t = RUNNING))))"

fun all_terminated :: "nat list \<Rightarrow> ('w Kernel, bool) prog" where
  "all_terminated [] = ret True"
| "all_terminated (i # is) =
     bind (the_thread i) (\<lambda>t. if t_state t \<noteq> TERMINATED then ret False else all_terminated is)"

definition checkAllTerminated :: "('w Kernel, bool) prog" where
  "checkAllTerminated = bind (gets activeThreads) all_terminated"

text \<open>Saving the context of the thread that leaves the processor, if it still lives.\<close>

definition save_context :: "nat \<Rightarrow> ('w Kernel, unit) prog" where
  "save_context p =
     bind (the_thread p) (\<lambda>t.
     if t_state t \<noteq> TERMINATED then
       bind (gets cpu) (\<lambda>c.
       andthen (upd_thread p (\<lambda>t. t\<lparr>t_regs := regs c, t_pc := pc c\<rparr>))
         (if t_state t = RUNNING then setState p READY else ret ()))
     else ret ())"

definition contextSwitch :: "int \<Rightarrow> ('w Kernel, unit) prog" where
  "contextSwitch nextIndex =
     andthen (on_stats incContextSwitches)
    (bind (gets currentThreadIndex) (\<lambda>prevIndex.
     bind (if prevIndex \<noteq> -1 then bind (active_thread prevIndex) (\<lambda>i. ret (Some i)) else ret None) (\<lambda>prevThread.
     bind (active_thread nextIndex) (\<lambda>nextThread.
     andthen (case prevThread of None \<Rightarrow> ret () | Some p \<Rightarrow> save_context p)
    (bind (the_thread nextThread) (\<lambda>t.
     andthen (on_cpu (modify (\<lambda>c. c\<lparr>regs := t_regs t, pc := t_pc t\<rparr>)))
    (andthen (setState nextThread RUNNING)
    (bind (case prevThread of None \<Rightarrow> ret True
           | Some p \<Rightarrow> bind (getProcess p) (\<lambda>pp. bind (the_process pp) (\<lambda>prevProc.
               bind (the_process (parent t)) (\<lambda>nextProc. ret (p_pid prevProc \<noteq> p_pid nextProc)))))
     (\<lambda>change.
     andthen (if change then on_cpu (cpu_setPageTable (parent t)) else ret ())
       (modify (\<lambda>k. k\<lparr>currentThreadIndex := nextIndex\<rparr>)))))))))))"

text \<open>The search of \<^verbatim>\<open>preempt\<close>: the remaining attempts, the index reached.\<close>

fun ready_loop :: "nat \<Rightarrow> nat \<Rightarrow> int \<Rightarrow> ('w Kernel, int \<times> bool) prog" where
  "ready_loop count 0 nextIndex = ret (nextIndex, False)"
| "ready_loop count (Suc attempts) nextIndex =
     (let next' = (nextIndex + 1) mod int count in
      bind (active_thread next') (\<lambda>i.
      bind (the_thread i) (\<lambda>t.
      if t_state t = READY then ret (next', True) else ready_loop count attempts next')))"

definition preempt :: "('w Kernel, unit) prog" where
  "preempt =
     bind (gets activeThreads) (\<lambda>ts.
     if ts = [] then ret ()
     else
       bind (gets currentThreadIndex) (\<lambda>prevIndex.
       bind (ready_loop (length ts) (length ts) prevIndex) (\<lambda>(nextIndex, found).
       if \<not> found then
         bind checkCurrentThreadRunnable (\<lambda>r.
         if r then ret () else bind checkAllTerminated (\<lambda>_. ret ()))
       else if nextIndex \<noteq> prevIndex then contextSwitch nextIndex
       else ret ())))"

section \<open>Well-formed thread structures\<close>

definition sched_ok :: "'w Kernel \<Rightarrow> bool" where
  "sched_ok k \<longleftrightarrow>
     (\<forall>i \<in> set (activeThreads k). i < length (allThreads k)) \<and>
     (\<forall>t \<in> set (allThreads k). parent t < length (processList k)) \<and>
     -1 \<le> currentThreadIndex k \<and> currentThreadIndex k < int (length (activeThreads k)) \<and>
     distinct (activeThreads k)"

text \<open>The thread at a position of the active list.\<close>

definition at :: "'w Kernel \<Rightarrow> nat \<Rightarrow> Thread" where
  "at k j = allThreads k ! (activeThreads k ! j)"

lemma sched_ok_at:
  "sched_ok k \<Longrightarrow> j < length (activeThreads k) \<Longrightarrow>
     activeThreads k ! j < length (allThreads k) \<and> parent (at k j) < length (processList k)"
  by (auto simp: sched_ok_def at_def)

lemma active_thread_eq:
  "j < length (activeThreads k) \<Longrightarrow> active_thread (int j) k = Inr (activeThreads k ! j, k)"
  by (simp add: active_thread_def)

lemma the_thread_active:
  "sched_ok k \<Longrightarrow> j < length (activeThreads k) \<Longrightarrow> the_thread (activeThreads k ! j) k = Inr (at k j, k)"
  using sched_ok_at [of k j] by (simp add: the_thread_def at_def)

section \<open>What the search finds\<close>

text \<open>The position \<^verbatim>\<open>d\<close> steps after index \<^verbatim>\<open>i\<close>, in the circle of \<^verbatim>\<open>n\<close>.\<close>

definition after :: "nat \<Rightarrow> int \<Rightarrow> nat \<Rightarrow> nat" where
  "after n i d = nat ((i + int d) mod int n)"

lemma after_less: "0 < n \<Longrightarrow> after n i d < n"
  by (simp add: after_def nat_less_iff)

lemma after_int: "0 < n \<Longrightarrow> int (after n i d) = (i + int d) mod int n"
  by (simp add: after_def)

lemma after_after: "0 < n \<Longrightarrow> after n (int (after n i d)) e = after n i (d + e)"
  by (simp add: after_def mod_add_left_eq add.assoc)

lemma ready_loop_Suc:
  assumes "sched_ok k" "n = length (activeThreads k)" "0 < n"
  shows "ready_loop n (Suc a) i k =
      (if t_state (at k (after n i 1)) = READY then Inr ((int (after n i 1), True), k)
       else ready_loop n a (int (after n i 1)) k)"
proof -
  have f: "(i + 1) mod int n = int (after n i 1)"
    using assms(3) by (simp add: after_int)
  have "after n i 1 < length (activeThreads k)"
    using assms(2,3) after_less [of n i 1] by simp
  then show ?thesis
    using assms(1) by (simp add: f Let_def active_thread_eq the_thread_active ret_run del: One_nat_def)
qed

lemma ready_loop_found:
  assumes "sched_ok k" "n = length (activeThreads k)" "0 < n" "0 < d" "d \<le> a"
    and "t_state (at k (after n i d)) = READY"
    and "\<And>e. 0 < e \<Longrightarrow> e < d \<Longrightarrow> t_state (at k (after n i e)) \<noteq> READY"
  shows "ready_loop n a i k = Inr ((int (after n i d), True), k)"
  using assms(4-)
proof (induction a arbitrary: i d)
  case 0
  then show ?case by simp
next
  case (Suc a)
  note one = ready_loop_Suc [OF assms(1-3), of a i]
  show ?case
  proof (cases "d = 1")
    case True
    then show ?thesis using Suc.prems(3) one by simp
  next
    case False
    then have d: "1 < d" "t_state (at k (after n i 1)) \<noteq> READY"
      using Suc.prems by auto
    let ?i = "int (after n i 1)"
    have "ready_loop n a ?i k = Inr ((int (after n ?i (d - 1)), True), k)"
    proof (rule Suc.IH)
      show "t_state (at k (after n ?i (d - 1))) = READY"
        using Suc.prems(3) d assms(3) by (simp add: after_after)
      show "t_state (at k (after n ?i e)) \<noteq> READY" if "0 < e" "e < d - 1" for e
        using Suc.prems(4) [of "1 + e"] that assms(3) by (simp add: after_after)
    qed (use Suc.prems d in auto)
    then show ?thesis
      using d one assms(3) by (simp add: after_after)
  qed
qed

lemma ready_loop_none:
  assumes "sched_ok k" "n = length (activeThreads k)" "0 < n"
    and "\<forall>j < n. t_state (at k j) \<noteq> READY"
  shows "\<exists>j. ready_loop n a i k = Inr ((j, False), k)"
proof (induction a arbitrary: i)
  case 0
  then show ?case by (simp add: run)
next
  case (Suc a)
  then show ?case
    using assms(4) after_less [OF assms(3), of i 1] ready_loop_Suc [OF assms(1-3), of a i] by simp
qed

section \<open>The context switch\<close>

text \<open>
  What a switch does to the kernel: the processor's registers and program counter go to the
  thread that leaves (unless it is dead), those of the next thread to the processor.
\<close>

definition leave :: "Machine \<Rightarrow> Thread \<Rightarrow> Thread" where
  "leave c t =
     (if t_state t = TERMINATED then t
      else t\<lparr>t_regs := regs c, t_pc := pc c, t_state := (if t_state t = RUNNING then READY else t_state t)\<rparr>)"

definition parked :: "'w Kernel \<Rightarrow> Thread list" where
  "parked k =
     (if currentThreadIndex k = -1 then allThreads k
      else let p = activeThreads k ! nat (currentThreadIndex k) in
           (allThreads k)[p := leave (cpu k) (allThreads k ! p)])"

definition new_table :: "'w Kernel \<Rightarrow> nat \<Rightarrow> nat option" where
  "new_table k j =
     (if currentThreadIndex k = -1 \<or>
         p_pid (processList k ! parent (at k (nat (currentThreadIndex k)))) \<noteq> p_pid (processList k ! parent (at k j))
      then Some (parent (at k j)) else currentTable (mmu (cpu k)))"

definition switched :: "nat \<Rightarrow> 'w Kernel \<Rightarrow> 'w Kernel" where
  "switched j k =
     (let n = activeThreads k ! j; t = parked k ! n in
      k\<lparr>stats := incContextSwitches (stats k),
        allThreads := (parked k)[n := t\<lparr>t_state := RUNNING\<rparr>],
        cpu := (cpu k)\<lparr>regs := t_regs t, pc := t_pc t,
                      mmu := (mmu (cpu k))\<lparr>currentTable := new_table k j\<rparr>\<rparr>,
        currentThreadIndex := int j\<rparr>)"

lemma save_context_eq:
  "p < length (allThreads k) \<Longrightarrow>
     save_context p k = Inr ((), k\<lparr>allThreads := (allThreads k)[p := leave (cpu k) (allThreads k ! p)]\<rparr>)"
  by (simp add: save_context_def the_thread_def upd_thread_def setState_def run leave_def)

lemma parent_leave [simp]: "parent (leave c t) = parent t"
  by (simp add: leave_def)

lemma current_cases:
  assumes "sched_ok k"
  obtains "currentThreadIndex k = -1"
  | i where "currentThreadIndex k = int i" "i < length (activeThreads k)"
proof (cases "currentThreadIndex k = -1")
  case False
  then have "0 \<le> currentThreadIndex k" "currentThreadIndex k < int (length (activeThreads k))"
    using assms by (auto simp: sched_ok_def)
  then show ?thesis
    by (intro that(2) [of "nat (currentThreadIndex k)"]) auto
qed

lemmas switch_run = contextSwitch_def on_stats_def active_thread_def the_thread_def setState_def
  upd_thread_def the_process_def getProcess_def on_cpu_def cpu_setPageTable_def MMU_setPageTable_def run

lemma contextSwitch_eq:
  assumes "sched_ok k" "j < length (activeThreads k)"
  shows "contextSwitch (int j) k = Inr ((), switched j k)"
proof -
  have j: "activeThreads k ! j < length (allThreads k)" "parent (at k j) < length (processList k)"
    using sched_ok_at [OF assms] by simp_all
  from assms(1) show ?thesis
  proof (cases rule: current_cases)
    case 1
    then show ?thesis
      using assms j by (simp add: switch_run switched_def parked_def new_table_def at_def Let_def)
  next
    case (2 i)
    have i: "activeThreads k ! i < length (allThreads k)" "parent (at k i) < length (processList k)"
      using sched_ok_at [OF assms(1) 2(2)] by simp_all
    define p where "p = activeThreads k ! i"
    define t where "t = (allThreads k)[p := leave (cpu k) (allThreads k ! p)]"
    let ?k = "k\<lparr>stats := incContextSwitches (stats k), allThreads := t\<rparr>"
    have s: "save_context p (k\<lparr>stats := incContextSwitches (stats k)\<rparr>) = Inr ((), ?k)"
      using save_context_eq [of p "k\<lparr>stats := incContextSwitches (stats k)\<rparr>"] i by (simp add: p_def t_def)
    have t: "length t = length (allThreads k)" "parked k = t" "\<And>n. n < length t \<Longrightarrow> parent (t ! n) = parent (allThreads k ! n)"
      using 2 i by (auto simp: t_def parked_def p_def Let_def nth_list_update)
    have u: "parent (t[m := (t ! m)\<lparr>t_state := RUNNING\<rparr>] ! n) = parent (allThreads k ! n)"
      if "n < length (allThreads k)" "m < length (allThreads k)" for m n
      using that t by (auto simp: nth_list_update)
    show ?thesis
      using assms 2 i j t s u
      by (simp add: switch_run switched_def new_table_def at_def Let_def flip: p_def)
  qed
qed

section \<open>Preemption\<close>

definition cyclic_next :: "'w Kernel \<Rightarrow> nat \<Rightarrow> bool" where
  "cyclic_next k d \<longleftrightarrow>
     (let n = length (activeThreads k); i = currentThreadIndex k in
      0 < d \<and> d \<le> n \<and> t_state (at k (after n i d)) = READY \<and>
      (\<forall>e. 0 < e \<and> e < d \<longrightarrow> t_state (at k (after n i e)) \<noteq> READY))"

lemma preempt_switches:
  assumes "sched_ok k" "activeThreads k \<noteq> []" "cyclic_next k d"
    and "j = after (length (activeThreads k)) (currentThreadIndex k) d"
  shows "preempt k = (if int j = currentThreadIndex k then Inr ((), k) else Inr ((), switched j k))"
proof -
  let ?n = "length (activeThreads k)"
  have n: "0 < ?n" using assms(2) by simp
  have "ready_loop ?n ?n (currentThreadIndex k) k = Inr ((int j, True), k)"
    unfolding assms(4) using assms(3)
    by (intro ready_loop_found [OF assms(1) refl n]) (auto simp: cyclic_next_def Let_def)
  moreover have "j < ?n"
    using assms(4) after_less [OF n] by simp
  ultimately show ?thesis
    using assms(2) contextSwitch_eq [OF assms(1)] by (simp add: preempt_def run)
qed

lemma all_terminated_returns:
  "\<forall>i \<in> set is. i < length (allThreads k) \<Longrightarrow>
     all_terminated is k = Inr (\<forall>i \<in> set is. t_state (allThreads k ! i) = TERMINATED, k)"
  by (induction "is") (auto simp: run the_thread_def)

lemma checkAllTerminated_eq:
  "sched_ok k \<Longrightarrow> checkAllTerminated k =
     Inr (\<forall>i \<in> set (activeThreads k). t_state (allThreads k ! i) = TERMINATED, k)"
  by (simp add: checkAllTerminated_def run all_terminated_returns sched_ok_def)

lemma checkCurrentThreadRunnable_returns:
  assumes "sched_ok k"
  shows "\<exists>b. checkCurrentThreadRunnable k = Inr (b, k)"
  using assms
proof (cases rule: current_cases)
  case 1
  then show ?thesis by (intro exI [of _ False]) (simp add: checkCurrentThreadRunnable_def run)
next
  case (2 i)
  then have "activeThreads k ! i < length (allThreads k)"
    using sched_ok_at [OF assms] by simp
  then show ?thesis
    using 2 by (simp add: checkCurrentThreadRunnable_def run getCurrentThread_def the_thread_def)
qed

lemma preempt_idle:
  assumes "sched_ok k" "\<forall>j < length (activeThreads k). t_state (at k j) \<noteq> READY"
  shows "preempt k = Inr ((), k)"
proof (cases "activeThreads k = []")
  case True
  then show ?thesis by (simp add: preempt_def run)
next
  case False
  then obtain j where "ready_loop (length (activeThreads k)) (length (activeThreads k)) (currentThreadIndex k) k
      = Inr ((j, False), k)"
    using ready_loop_none [OF assms(1) refl _ assms(2)] by auto
  moreover obtain b where "checkCurrentThreadRunnable k = Inr (b, k)"
    using checkCurrentThreadRunnable_returns [OF assms(1)] by blast
  ultimately show ?thesis
    using False checkAllTerminated_eq [OF assms(1)] by (simp add: preempt_def run)
qed

text \<open>Every position is some number of steps ahead in the circle.\<close>

lemma reach:
  assumes "j < n" "-1 \<le> i" "i < int n"
  obtains d where "0 < d" "d \<le> n" "after n i d = j"
proof -
  let ?d = "nat ((int j - i - 1) mod int n) + 1"
  have "(i + int ?d) mod int n = int j"
  proof -
    have "int ?d = (int j - i - 1) mod int n + 1"
      using assms(1) by simp
    then have "(i + int ?d) mod int n = (i + ((int j - i - 1) mod int n + 1)) mod int n"
      by (simp only:)
    also have "\<dots> = (i + (int j - i - 1) + 1) mod int n"
      by (metis (no_types, lifting) add.assoc add.commute mod_add_left_eq)
    finally show ?thesis
      using assms(1) by simp
  qed
  moreover have "nat ((int j - i - 1) mod int n) < n"
    using assms(1) by (simp add: nat_less_iff)
  ultimately show ?thesis
    using that [of ?d] by (simp add: after_def)
qed

lemma some_ready:
  assumes "sched_ok k" "j < length (activeThreads k)" "t_state (at k j) = READY"
  obtains d where "cyclic_next k d"
proof -
  let ?n = "length (activeThreads k)"
  define P where "P d \<longleftrightarrow> 0 < d \<and> d \<le> ?n \<and> t_state (at k (after ?n (currentThreadIndex k) d)) = READY" for d
  obtain d0 where "0 < d0" "d0 \<le> ?n" "after ?n (currentThreadIndex k) d0 = j"
    using assms by (auto simp: sched_ok_def intro: reach)
  then have "P d0"
    using assms(3) by (simp add: P_def)
  then have "P (LEAST d. P d)" "\<And>e. e < (LEAST d. P d) \<Longrightarrow> \<not> P e"
    by (auto intro: LeastI dest: not_less_Least)
  then have "cyclic_next k (LEAST d. P d)"
    unfolding cyclic_next_def Let_def P_def by (meson less_imp_le_nat order_trans less_le_trans)
  then show ?thesis by (rule that)
qed

section \<open>What a switch preserves\<close>

lemma switched_simps [simp]:
  "activeThreads (switched j k) = activeThreads k" "currentThreadIndex (switched j k) = int j"
  "processList (switched j k) = processList k" "length (allThreads (switched j k)) = length (allThreads k)"
  "memory (mmu (cpu (switched j k))) = memory (mmu (cpu k))" "page_table (switched j k) = page_table k"
  by (simp_all add: switched_def parked_def Let_def page_table_def fun_eq_iff)

lemma active_distinct:
  "sched_ok k \<Longrightarrow> i < length (activeThreads k) \<Longrightarrow> j < length (activeThreads k) \<Longrightarrow>
     activeThreads k ! i = activeThreads k ! j \<longleftrightarrow> i = j"
  by (simp add: sched_ok_def nth_eq_iff_index_eq)

lemma parked_at:
  assumes "sched_ok k" "m < length (activeThreads k)"
  shows "parked k ! (activeThreads k ! m) =
    (if int m = currentThreadIndex k then leave (cpu k) (at k m) else at k m)"
  using assms(1)
proof (cases rule: current_cases)
  case 1
  then show ?thesis by (simp add: parked_def at_def)
next
  case (2 i)
  then show ?thesis
    using assms sched_ok_at [OF assms] active_distinct [OF assms(1) 2(2) assms(2)]
    by (auto simp: parked_def at_def Let_def nth_list_update)
qed

lemma at_switched:
  assumes "sched_ok k" "j < length (activeThreads k)" "m < length (activeThreads k)"
  shows "at (switched j k) m =
    (let t = (if int m = currentThreadIndex k then leave (cpu k) (at k m) else at k m) in
     if m = j then t\<lparr>t_state := RUNNING\<rparr> else t)"
proof -
  have "at (switched j k) m = (parked k)[activeThreads k ! j :=
      (parked k ! (activeThreads k ! j))\<lparr>t_state := RUNNING\<rparr>] ! (activeThreads k ! m)"
    by (simp add: at_def switched_def Let_def)
  moreover have "length (parked k) = length (allThreads k)"
    by (simp add: parked_def Let_def)
  ultimately show ?thesis
    using assms sched_ok_at [OF assms(1,2)] parked_at [OF assms(1,3)] active_distinct [OF assms(1,2,3)]
    by (auto simp: Let_def nth_list_update)
qed

lemma parents_parked:
  assumes "n < length (allThreads k)" shows "parent (parked k ! n) = parent (allThreads k ! n)"
  using assms
  by (cases "n = activeThreads k ! nat (currentThreadIndex k)") (simp_all add: parked_def Let_def)

lemma parents_switched:
  assumes "n < length (allThreads k)" shows "parent (allThreads (switched j k) ! n) = parent (allThreads k ! n)"
proof -
  have "allThreads (switched j k) = (parked k)[activeThreads k ! j :=
      (parked k ! (activeThreads k ! j))\<lparr>t_state := RUNNING\<rparr>]"
    by (simp add: switched_def Let_def)
  moreover have "length (parked k) = length (allThreads k)"
    by (simp add: parked_def Let_def)
  ultimately show ?thesis
    using assms parents_parked [OF assms] by (cases "n = activeThreads k ! j") simp_all
qed

lemma sched_ok_switched:
  assumes "sched_ok k" "j < length (activeThreads k)"
  shows "sched_ok (switched j k)"
proof -
  have "parent t < length (processList k)" if mem: "t \<in> set (allThreads (switched j k))" for t
  proof -
    obtain n where n: "n < length (allThreads k)" "t = allThreads (switched j k) ! n"
      using mem unfolding in_set_conv_nth switched_simps(4) by blast
    then show ?thesis
      using parents_switched [OF n(1), of j] assms(1) by (simp add: sched_ok_def)
  qed
  then show ?thesis
    using assms by (simp add: sched_ok_def)
qed

text \<open>At most one thread is running, the one the kernel calls current.\<close>

definition one_running :: "'w Kernel \<Rightarrow> bool" where
  "one_running k \<longleftrightarrow>
     (\<forall>m < length (activeThreads k). t_state (at k m) = RUNNING \<longrightarrow> int m = currentThreadIndex k)"

lemma one_running_switched:
  assumes "sched_ok k" "j < length (activeThreads k)" "one_running k"
  shows "one_running (switched j k)"
  using assms by (auto simp: one_running_def at_switched Let_def leave_def split: if_splits)

text \<open>The page table in force is that of the current thread's process.\<close>

definition table_in_force :: "'w Kernel \<Rightarrow> bool" where
  "table_in_force k \<longleftrightarrow>
     (\<forall>p < length (processList k). p_pid (processList k ! p) = int p) \<and>
     (currentThreadIndex k \<noteq> -1 \<longrightarrow>
        currentTable (mmu (cpu k)) = Some (parent (at k (nat (currentThreadIndex k)))))"

lemma parent_at_switched:
  "sched_ok k \<Longrightarrow> j < length (activeThreads k) \<Longrightarrow> parent (at (switched j k) j) = parent (at k j)"
  by (simp add: at_switched Let_def)

lemma table_in_force_switched:
  assumes "sched_ok k" "j < length (activeThreads k)" "table_in_force k"
  shows "table_in_force (switched j k)"
proof -
  have "currentTable (mmu (cpu (switched j k))) = new_table k j"
    by (simp add: switched_def Let_def)
  moreover have "new_table k j = Some (parent (at k j))"
    using assms(1)
  proof (cases rule: current_cases)
    case 1
    then show ?thesis by (simp add: new_table_def)
  next
    case (2 i)
    then have "currentTable (mmu (cpu k)) = Some (parent (at k i))"
      using assms(3) by (simp add: table_in_force_def)
    moreover have "p_pid (processList k ! parent (at k i)) = int (parent (at k i))"
      "p_pid (processList k ! parent (at k j)) = int (parent (at k j))"
      using assms sched_ok_at [OF assms(1)] 2 by (auto simp: table_in_force_def)
    ultimately show ?thesis
      using 2 by (simp add: new_table_def)
  qed
  ultimately show ?thesis
    using assms parent_at_switched [OF assms(1,2)] by (simp add: table_in_force_def)
qed

text \<open>A thread that leaves the processor and comes back finds its registers and program counter.\<close>

lemma context_restored:
  assumes "sched_ok k" "i < length (activeThreads k)" "j < length (activeThreads k)"
    and "currentThreadIndex k = int i" "i \<noteq> j" "t_state (at k i) \<noteq> TERMINATED"
  shows "regs (cpu (switched i (switched j k))) = regs (cpu k) \<and>
    pc (cpu (switched i (switched j k))) = pc (cpu k)"
proof -
  let ?k = "switched j k"
  have "parked ?k ! (activeThreads ?k ! i) = at ?k i"
    using assms sched_ok_switched [OF assms(1,3)] parked_at [of ?k i] by simp
  moreover have "at ?k i = leave (cpu k) (at k i)"
    using assms by (simp add: at_switched Let_def)
  moreover have "regs (cpu (switched i ?k)) = t_regs (parked ?k ! (activeThreads ?k ! i))"
    "pc (cpu (switched i ?k)) = t_pc (parked ?k ! (activeThreads ?k ! i))"
    by (simp_all only: switched_def [of i ?k] Let_def) simp_all
  ultimately show ?thesis
    using assms(6) by (simp add: leave_def)
qed

section \<open>Fairness\<close>

fun preempts :: "nat \<Rightarrow> ('w Kernel, unit) prog" where
  "preempts 0 = ret ()"
| "preempts (Suc n) = andthen preempt (preempts n)"

lemma fair_from:
  assumes "sched_ok k" "j < length (activeThreads k)" "t_state (at k j) = READY"
    and "0 < d" "d \<le> length (activeThreads k)" "d = length (activeThreads k) \<longrightarrow> currentThreadIndex k = -1"
    and "after (length (activeThreads k)) (currentThreadIndex k) d = j"
  shows "\<exists>m k'. 0 < m \<and> m \<le> d \<and> preempts m k = Inr ((), k') \<and> currentThreadIndex k' = int j \<and>
    t_state (at k' j) = RUNNING"
  using assms
proof (induction d arbitrary: k rule: less_induct)
  case (less d)
  let ?n = "length (activeThreads k)"
  obtain e where e: "cyclic_next k e"
    using some_ready [OF less.prems(1-3)] by blast
  have ed: "0 < e" "e \<le> d"
    using e less.prems by (auto simp: cyclic_next_def Let_def not_less)
  define i where "i = after ?n (currentThreadIndex k) e"
  have i: "i < ?n"
    using less.prems(2) by (auto simp: i_def intro: after_less)
  have ne: "0 < ?n"
    using i by (cases ?n) simp_all
  have "int i \<noteq> currentThreadIndex k"
  proof
    assume c: "int i = currentThreadIndex k"
    have "int i = (currentThreadIndex k + int e) mod int ?n"
      using ne by (simp only: i_def after_int)
    moreover have "int i mod int ?n = int i"
      using i by simp
    ultimately have "(int i + int e) mod int ?n = int i mod int ?n"
      by (simp only: c)
    then have "int ?n dvd int e"
      by (metis add_diff_cancel_left' mod_eq_dvd_iff)
    moreover have "d < ?n"
      using c less.prems(5,6) by (auto simp: le_less)
    ultimately show False
      using ed zdvd_imp_le [of "int ?n" "int e"] by simp
  qed
  then have p: "preempt k = Inr ((), switched i k)"
    using preempt_switches [OF less.prems(1) _ e i_def] less.prems(2) by (cases "activeThreads k") simp_all
  let ?k = "switched i k"
  show ?case
  proof (cases "i = j")
    case True
    then show ?thesis
      using p less.prems(2,4) at_switched [OF less.prems(1,2,2)]
      by (intro exI [of _ 1] exI [of _ ?k]) (simp add: run Let_def)
  next
    case False
    then have "e < d"
      using ed less.prems(7) by (auto simp: i_def le_less)
    moreover have "after ?n (int i) (d - e) = j"
      using less.prems(7) ed after_after [OF ne, of "currentThreadIndex k" e "d - e"] by (simp add: i_def)
    moreover have "t_state (at ?k j) = READY"
      using less.prems(3) False at_switched [OF less.prems(1) i less.prems(2)] by (simp add: Let_def leave_def)
    moreover have "d - e \<le> ?n" "d - e \<noteq> ?n"
      using less.prems(5) ed by simp_all
    ultimately obtain m k' where "0 < m" "m \<le> d - e" "preempts m ?k = Inr ((), k')"
      "currentThreadIndex k' = int j" "t_state (at k' j) = RUNNING"
      using less.IH [of "d - e" ?k] sched_ok_switched [OF less.prems(1) i] less.prems(2,5) ed by auto
    then show ?thesis
      using p ed \<open>e < d\<close> by (intro exI [of _ "Suc m"] exI [of _ k']) (simp add: run)
  qed
qed

text \<open>A ready thread that is not already current is running after at most one round.\<close>

lemma fair:
  assumes "sched_ok k" "j < length (activeThreads k)" "t_state (at k j) = READY" "int j \<noteq> currentThreadIndex k"
  shows "\<exists>m k'. m \<le> length (activeThreads k) \<and> preempts m k = Inr ((), k') \<and>
    currentThreadIndex k' = int j \<and> t_state (at k' j) = RUNNING"
proof -
  let ?n = "length (activeThreads k)"
  have c: "-1 \<le> currentThreadIndex k" "currentThreadIndex k < int ?n"
    using assms(1) by (simp_all add: sched_ok_def)
  obtain d where d: "0 < d" "d \<le> ?n" "after ?n (currentThreadIndex k) d = j"
    using reach [OF assms(2) c] by blast
  have "currentThreadIndex k = -1" if "d = ?n"
  proof -
    have "int j = currentThreadIndex k mod int ?n"
      using d that assms(2) after_int [of ?n "currentThreadIndex k" d] by auto
    then show ?thesis
      using c assms(4) by (cases "currentThreadIndex k = -1") auto
  qed
  then show ?thesis
    using fair_from [OF assms(1-3) d(1,2) _ d(3)] d(2) by (meson order_trans)
qed

lemma switch_back:
  assumes "sched_ok k" "i < length (activeThreads k)" "j < length (activeThreads k)"
    and "currentThreadIndex k = int i" "i \<noteq> j" "t_state (at k i) \<noteq> TERMINATED"
  shows "\<exists>k'. andthen (contextSwitch (int j)) (contextSwitch (int i)) k = Inr ((), k') \<and>
    regs (cpu k') = regs (cpu k) \<and> pc (cpu k') = pc (cpu k)"
  using context_restored [OF assms] contextSwitch_eq [OF assms(1,3)]
    contextSwitch_eq [OF sched_ok_switched [OF assms(1,3)], of i] assms(2) by simp

lemma preempt_outcomes:
  assumes "sched_ok k"
  obtains "preempt k = Inr ((), k)"
  | j where "j < length (activeThreads k)" "preempt k = Inr ((), switched j k)"
proof (cases "\<forall>j < length (activeThreads k). t_state (at k j) \<noteq> READY")
  case True
  then show ?thesis
    using preempt_idle [OF assms] that(1) by blast
next
  case False
  then obtain i where "i < length (activeThreads k)" "t_state (at k i) = READY"
    by auto
  then obtain d where d: "cyclic_next k d"
    using some_ready assms by blast
  have ne: "activeThreads k \<noteq> []"
    using \<open>i < length (activeThreads k)\<close> by auto
  let ?j = "after (length (activeThreads k)) (currentThreadIndex k) d"
  have "?j < length (activeThreads k)"
    using ne by (simp add: after_less)
  moreover have "preempt k = (if int ?j = currentThreadIndex k then Inr ((), k) else Inr ((), switched ?j k))"
    by (rule preempt_switches [OF assms ne d refl])
  ultimately show ?thesis
    using that by (cases "int ?j = currentThreadIndex k") auto
qed

lemma preempt_keeps:
  assumes "sched_ok k" "one_running k" "table_in_force k"
  shows "\<exists>k'. preempt k = Inr ((), k') \<and> sched_ok k' \<and> one_running k' \<and> table_in_force k'"
  using assms(1)
proof (cases rule: preempt_outcomes)
  case (2 j)
  then show ?thesis
    using assms sched_ok_switched one_running_switched table_in_force_switched by blast
qed (use assms in blast)

text \<open>Registers and program counter of a thread: the processor's while it is current, else the ones saved
  in its record.\<close>

definition live_context :: "'w Kernel \<Rightarrow> nat \<Rightarrow> RegFile \<times> Addr" where
  "live_context k m =
     (if int m = currentThreadIndex k then (regs (cpu k), pc (cpu k)) else (t_regs (at k m), t_pc (at k m)))"

lemma live_context_switched:
  assumes "sched_ok k" "j < length (activeThreads k)" "m < length (activeThreads k)" "t_state (at k m) \<noteq> TERMINATED"
  shows "live_context (switched j k) m = live_context k m" "t_state (at (switched j k) m) \<noteq> TERMINATED"
proof -
  have "parked k ! (activeThreads k ! m) = (if int m = currentThreadIndex k then leave (cpu k) (at k m) else at k m)"
    by (rule parked_at [OF assms(1,3)])
  moreover have "regs (cpu (switched j k)) = t_regs (parked k ! (activeThreads k ! j))"
    "pc (cpu (switched j k)) = t_pc (parked k ! (activeThreads k ! j))"
    by (simp_all only: switched_def Let_def) simp_all
  ultimately show "live_context (switched j k) m = live_context k m"
    using assms(4) at_switched [OF assms(1-3)] by (auto simp: live_context_def leave_def Let_def)
  show "t_state (at (switched j k) m) \<noteq> TERMINATED"
    using assms(4) at_switched [OF assms(1-3)] by (auto simp: leave_def Let_def)
qed

text \<open>Any number of preemptions.\<close>

lemma preempts_keep:
  assumes "sched_ok k" "one_running k" "table_in_force k"
  shows "\<exists>k'. preempts n k = Inr ((), k') \<and> sched_ok k' \<and> one_running k' \<and> table_in_force k' \<and>
    activeThreads k' = activeThreads k \<and>
    (\<forall>m < length (activeThreads k). t_state (at k m) \<noteq> TERMINATED \<longrightarrow>
       t_state (at k' m) \<noteq> TERMINATED \<and> live_context k' m = live_context k m)"
  using assms
proof (induction n arbitrary: k)
  case 0
  then show ?case
    by (simp add: run)
next
  case (Suc n)
  show ?case
    using Suc.prems(1)
  proof (cases rule: preempt_outcomes)
    case 1
    then show ?thesis
      using Suc.IH [OF Suc.prems] by (simp add: run)
  next
    case (2 j)
    note s = sched_ok_switched [OF Suc.prems(1) 2(1)] one_running_switched [OF Suc.prems(1) 2(1) Suc.prems(2)]
      table_in_force_switched [OF Suc.prems(1) 2(1) Suc.prems(3)]
    show ?thesis
      using Suc.IH [OF s] live_context_switched [OF Suc.prems(1) 2(1)] 2(2) by (auto simp: run)
  qed
qed

end
