(* ===== verification/Loading.thy ===== *)
theory Loading
  imports Processes
begin

text \<open>
  The ELF loader, \<^verbatim>\<open>process/Loader.cpp\<close>, on the contents of a host file.
  The layout of the headers is that of \<^verbatim>\<open>elf.h\<close>: 52 bytes of file header with
  the entry at 24, the program headers' offset at 28 and their number at 44; 32 bytes for
  a program header.  A program header cut short by the end of the file would be read
  uninitialised, which is undefined behaviour.
\<close>

definition le32 :: "Byte list \<Rightarrow> nat \<Rightarrow> Word" where
  "le32 bs off = bytes_word (take 4 (drop off bs))"

definition le16 :: "Byte list \<Rightarrow> nat \<Rightarrow> Word" where
  "le16 bs off = bytes_word (take 2 (drop off bs))"

definition elf_magic :: "Byte list" where
  "elf_magic = [0x7F, 0x45, 0x4C, 0x46]"

definition segment_of :: "Byte list \<Rightarrow> nat \<Rightarrow> Segment" where
  "segment_of bs at =
     \<lparr>seg_vaddr = le32 bs (at + 8), seg_memSize = unat (le32 bs (at + 20)),
      seg_fileSize = unat (le32 bs (at + 16)), seg_fileOffset = unat (le32 bs (at + 4)),
      seg_flags = le32 bs (at + 24)\<rparr>"

definition read_header :: "nat \<Rightarrow> Byte list \<Rightarrow> nat \<Rightarrow> ('w Kernel, unit) prog" where
  "read_header p bs at =
     (if at + 32 > length bs then fail UndefinedBehaviour
      else if le32 bs at \<noteq> 1 then ret ()
      else upd_process p (\<lambda>pr. pr\<lparr>segments := segments pr @ [segment_of bs at]\<rparr>))"

definition inactive_slot :: "Process list \<Rightarrow> nat option" where
  "inactive_slot ps = List.find (\<lambda>i. \<not> active (ps ! i)) [0..<length ps]"

definition loadELF :: "'w Env \<Rightarrow> string \<Rightarrow> ('w Kernel, int) prog" where
  "loadELF env filename =
     (case host_file env filename of
        None \<Rightarrow> ret (-1)
      | Some bs \<Rightarrow>
          if length bs < 52 then ret (-1)
          else if take 4 bs \<noteq> elf_magic then ret (-1)
          else
            bind (gets processList) (\<lambda>ps.
            case inactive_slot ps of
              None \<Rightarrow> ret (-1)
            | Some p \<Rightarrow>
                andthen (recycle env p filename)
               (andthen (for_each [0..<unat (le16 bs 44)]
                  (\<lambda>i. read_header p bs (unat (le32 bs 28) + 32 * i)))
               (bind (createThread p (le32 bs 24) 0) (\<lambda>mainThread.
                case mainThread of
                  None \<Rightarrow> andthen (upd_process p (\<lambda>pr. pr\<lparr>active := False\<rparr>)) (ret (-1))
                | Some t \<Rightarrow>
                    andthen (setState t READY)
                   (andthen (modify (\<lambda>k. k\<lparr>activeThreads := activeThreads k @ [t]\<rparr>))
                     (ret (int p))))))))"

definition createProcess :: "'w Env \<Rightarrow> string \<Rightarrow> ('w Kernel, bool) prog" where
  "createProcess env filename = bind (loadELF env filename) (\<lambda>r. ret (r \<noteq> -1))"

end
