(* ===== verification/Syscalls.thy ===== *)
theory Syscalls
  imports VirtualMemory Loading
begin

text \<open>
  The system calls, \<^verbatim>\<open>syscall/SyscallHandler.cpp\<close>, and the file handles
  behind a descriptor (\<^verbatim>\<open>filesystem/ConsoleHandle\<close>, and
  \<^verbatim>\<open>DiskFileHandle\<close> of theory Files).  User memory is read and written through
  the processor's virtual accesses.  Words are read as C++ \<^verbatim>\<open>int\<close> with
  \<^verbatim>\<open>sint\<close>; a default \<^verbatim>\<open>SyscallResult\<close> is updated field by field.
\<close>

section \<open>Results\<close>

abbreviation done_with :: "Word \<Rightarrow> SyscallResult" where
  "done_with v \<equiv> SyscallResult_new\<lparr>returnValue := v\<rparr>"

abbreviation failed_with :: "Word \<Rightarrow> SyscallResult" where
  "failed_with v \<equiv> SyscallResult_new\<lparr>error := True, returnValue := v\<rparr>"

abbreviation wait_result :: SyscallResult where
  "wait_result \<equiv> SyscallResult_new\<lparr>needReschedule := True, advancePC := False, hasReturnValue := False\<rparr>"

section \<open>Threads\<close>

fun find_tid :: "nat list \<Rightarrow> int \<Rightarrow> ('w Kernel, nat option) prog" where
  "find_tid [] target = ret None"
| "find_tid (i # is) target =
     bind (the_thread i) (\<lambda>t. if tid t = target then ret (Some i) else find_tid is target)"

definition handleThreadJoin :: "SyscallContext \<Rightarrow> ('w Kernel, SyscallResult) prog" where
  "handleThreadJoin ctx =
     (let targetTid = sint (arg0 ctx) in
      bind getCurrentThread (\<lambda>current.
      bind (getProcess current) (\<lambda>p.
      bind (the_process p) (\<lambda>pr.
      bind (find_tid (threads pr) targetTid) (\<lambda>target.
      case target of
        None \<Rightarrow> ret (done_with (-1))
      | Some i \<Rightarrow>
          bind (the_thread i) (\<lambda>t.
          bind (the_thread current) (\<lambda>c.
          if tid t = tid c then ret (done_with (-1))
          else if hasBeenJoined t then ret (done_with (-1))
          else
            andthen (upd_thread i (\<lambda>t. t\<lparr>hasBeenJoined := True\<rparr>))
              (if t_state t = TERMINATED then ret (done_with (exitCode t))
               else
                 andthen (upd_thread i (\<lambda>t. t\<lparr>joiner := Some current\<rparr>))
                (andthen (setState current BLOCKED)
                  (ret wait_result))))))))))"

definition handleThreadExit :: "SyscallContext \<Rightarrow> ('w Kernel, SyscallResult) prog" where
  "handleThreadExit ctx =
     (let code = arg0 ctx in
      bind getCurrentThread (\<lambda>current.
      andthen (setState current TERMINATED)
     (andthen (upd_thread current (\<lambda>t. t\<lparr>exitCode := code\<rparr>))
     (bind (the_thread current) (\<lambda>c.
      andthen
        (case joiner c of
           None \<Rightarrow> ret ()
         | Some j \<Rightarrow>
             andthen (setState j READY)
            (andthen (write_thread_reg j 10 code)
              (upd_thread j (\<lambda>t. t\<lparr>t_pc := t_pc t + 4\<rparr>))))
        (ret wait_result))))))"

definition handleThreadCreate :: "SyscallContext \<Rightarrow> ('w Kernel, SyscallResult) prog" where
  "handleThreadCreate ctx =
     bind current_process (\<lambda>p.
     bind (createThread p (arg0 ctx) (arg1 ctx)) (\<lambda>newThread.
     case newThread of
       None \<Rightarrow> ret (done_with (-1))
     | Some i \<Rightarrow>
         andthen (setState i READY)
        (andthen (modify (\<lambda>k. k\<lparr>activeThreads := activeThreads k @ [i]\<rparr>))
        (bind (the_thread i) (\<lambda>t. ret (done_with (word_of_int (tid t))))))))"

section \<open>Files\<close>

text \<open>\<^verbatim>\<open>handle->write(buffer, count)\<close>; a disk handle's cursor moves.\<close>

definition handle_write :: "'w Env \<Rightarrow> nat \<Rightarrow> nat \<Rightarrow> FileHandle \<Rightarrow> Byte list \<Rightarrow> nat \<Rightarrow> ('w Kernel, Word) prog" where
  "handle_write env p fd h buffer count =
     (case h of
        ConsoleHandle hostFD \<Rightarrow>
          if hostFD = 1 \<or> hostFD = 2 then
            (\<lambda>k. let (r, w) = host_write env hostFD (take count buffer) (world k) in
                 Inr (word_of_int r, k\<lparr>world := w\<rparr>))
          else ret (-1)
      | DiskHandle d \<Rightarrow>
          bind (DiskFileHandle_write d buffer count) (\<lambda>(n, d').
          andthen (upd_process p (\<lambda>pr. pr\<lparr>fdTable := (fdTable pr)[fd := Some (DiskHandle d')]\<rparr>))
            (ret (of_nat n))))"

definition handle_read :: "'w Env \<Rightarrow> nat \<Rightarrow> nat \<Rightarrow> FileHandle \<Rightarrow> Byte list \<Rightarrow> nat \<Rightarrow> ('w Kernel, int \<times> Byte list) prog" where
  "handle_read env p fd h buffer count =
     (case h of
        ConsoleHandle hostFD \<Rightarrow>
          if hostFD = 0 then
            (\<lambda>k. let ((r, bs), w) = host_read env count (world k) in
                 Inr ((r, put_at 0 bs buffer), k\<lparr>world := w\<rparr>))
          else ret (-1, buffer)
      | DiskHandle d \<Rightarrow>
          bind (DiskFileHandle_read d buffer count) (\<lambda>(n, buffer', d').
          andthen (upd_process p (\<lambda>pr. pr\<lparr>fdTable := (fdTable pr)[fd := Some (DiskHandle d')]\<rparr>))
            (ret (int n, buffer'))))"

definition handleWrite :: "'w Env \<Rightarrow> SyscallContext \<Rightarrow> ('w Kernel, SyscallResult) prog" where
  "handleWrite env ctx =
     bind current_process (\<lambda>p.
     let fd = sint (arg0 ctx); addr = arg1 ctx; count = unat (arg2 ctx) in
     bind (getFileHandle p fd) (\<lambda>handle.
     case handle of
       None \<Rightarrow> ret (done_with (-1))
     | Some h \<Rightarrow>
         bind (copy_out (\<lambda>a. on_cpu (cpu_loadVirtualMemory a 1)) addr count) (\<lambda>buffer.
         bind (handle_write env p (nat fd) h buffer count) (\<lambda>written.
         ret (done_with written)))))"

definition handleRead :: "'w Env \<Rightarrow> SyscallContext \<Rightarrow> ('w Kernel, SyscallResult) prog" where
  "handleRead env ctx =
     bind current_process (\<lambda>p.
     let fd = sint (arg0 ctx); addr = arg1 ctx; count = unat (arg2 ctx) in
     bind (getFileHandle p fd) (\<lambda>handle.
     case handle of
       None \<Rightarrow> ret (done_with (-1))
     | Some h \<Rightarrow>
         bind (handle_read env p (nat fd) h (replicate count 0) count) (\<lambda>(bytesRead, buffer).
         andthen
           (if bytesRead > 0 then
              if nat bytesRead \<le> length buffer then
                copy_in (\<lambda>a. on_cpu \<circ> cpu_storeVirtualMemory a 1) addr (map ucast (take (nat bytesRead) buffer))
              else fail UndefinedBehaviour
            else ret ())
           (ret (done_with (word_of_int bytesRead))))))"

text \<open>
  A name in user memory: up to its zero byte, at most one byte more than the maximum
  (the length is compared after the byte is appended).
\<close>

fun read_name :: "nat \<Rightarrow> Addr \<Rightarrow> string \<Rightarrow> ('w Kernel, string) prog" where
  "read_name 0 a acc = ret acc"
| "read_name (Suc n) a acc =
     bind (on_cpu (cpu_loadVirtualMemory a 1)) (\<lambda>w.
     let c = (ucast w :: Byte) in
     if c = 0 then ret acc else read_name n (a + 1) (acc @ [char_of (unat c)]))"

definition read_filename :: "Addr \<Rightarrow> ('w Kernel, string) prog" where
  "read_filename pathAddr = read_name (MAX_FILE_NAME_LENGTH + 1) pathAddr []"

definition handleOpen :: "SyscallContext \<Rightarrow> ('w Kernel, SyscallResult) prog" where
  "handleOpen ctx =
     bind (read_filename (arg0 ctx)) (\<lambda>filename.
     bind (VFS_open filename) (\<lambda>handle.
     case handle of
       None \<Rightarrow> ret (done_with (-1))
     | Some h \<Rightarrow>
         bind current_process (\<lambda>p.
         bind (addFileHandle p (Some (DiskHandle h))) (\<lambda>fd.
         if fd = -1 then ret (done_with (-1)) else ret (done_with (word_of_int fd))))))"

definition handleClose :: "SyscallContext \<Rightarrow> ('w Kernel, SyscallResult) prog" where
  "handleClose ctx =
     bind current_process (\<lambda>p.
     bind (closeFileHandle p (sint (arg0 ctx))) (\<lambda>ok.
     ret (done_with (if ok then 0 else 1))))"

definition handleCreate :: "SyscallContext \<Rightarrow> ('w Kernel, SyscallResult) prog" where
  "handleCreate ctx =
     bind (read_filename (arg0 ctx)) (\<lambda>filename.
     bind (VFS_createFile filename (unat (arg1 ctx))) (\<lambda>success.
     if \<not> success then ret (done_with (-1)) else ret (done_with 0)))"

section \<open>Heap, mutexes, processes\<close>

definition handleSbrk :: "SyscallContext \<Rightarrow> ('w Kernel, SyscallResult) prog" where
  "handleSbrk ctx =
     bind current_process (\<lambda>p.
     bind (Process_sbrk p (arg0 ctx)) (\<lambda>oldBreak.
     if oldBreak = 0 then ret (done_with (-1)) else ret (done_with oldBreak)))"

definition handleMutexCreate :: "('w Kernel, SyscallResult) prog" where
  "handleMutexCreate =
     bind current_process (\<lambda>p. bind (createMutex p) (\<lambda>mid. ret (done_with (of_nat mid))))"

definition handleMutexLock :: "SyscallContext \<Rightarrow> ('w Kernel, SyscallResult) prog" where
  "handleMutexLock ctx =
     bind getCurrentThread (\<lambda>current.
     bind (getProcess current) (\<lambda>p.
     bind (getMutex p (sint (arg0 ctx))) (\<lambda>m.
     case m of
       None \<Rightarrow> ret (failed_with (-1))
     | Some m \<Rightarrow>
         bind (Mutex_acquire p m current) (\<lambda>acquired.
         if \<not> acquired then ret wait_result else ret (done_with 0)))))"

definition handleMutexUnlock :: "SyscallContext \<Rightarrow> ('w Kernel, SyscallResult) prog" where
  "handleMutexUnlock ctx =
     bind getCurrentThread (\<lambda>current.
     bind (getProcess current) (\<lambda>p.
     bind (getMutex p (sint (arg0 ctx))) (\<lambda>m.
     case m of
       None \<Rightarrow> ret (failed_with (-1))
     | Some m \<Rightarrow>
         bind (Mutex_release p m current) (\<lambda>success.
         if \<not> success then ret (failed_with (-1)) else ret (done_with 0)))))"

definition handleCreateProcess :: "'w Env \<Rightarrow> SyscallContext \<Rightarrow> ('w Kernel, SyscallResult) prog" where
  "handleCreateProcess env ctx =
     bind (read_filename (arg0 ctx)) (\<lambda>filename.
     bind (loadELF env filename) (\<lambda>createdPid.
     if createdPid = -1 then ret (done_with (-1)) else ret (done_with (word_of_int createdPid))))"

definition handleJoinProcess :: "SyscallContext \<Rightarrow> ('w Kernel, SyscallResult) prog" where
  "handleJoinProcess ctx =
     (let targetPid = sint (arg0 ctx); statusPtr = arg1 ctx in
      bind (gets exitCodes) (\<lambda>codes.
      case codes targetPid of
        Some code \<Rightarrow>
          andthen (if statusPtr \<noteq> 0 then on_cpu (cpu_storeVirtualMemory statusPtr 4 code) else ret ())
         (andthen (modify (\<lambda>k. k\<lparr>exitCodes := (exitCodes k)(targetPid := None)\<rparr>))
           (ret (done_with 1)))
      | None \<Rightarrow>
          bind (if 0 \<le> targetPid \<and> targetPid < int MAX_PROCESS
                then bind (the_process (nat targetPid)) (\<lambda>pr. ret (active pr)) else ret False) (\<lambda>validPID.
          if \<not> validPID then ret (done_with (-1))
          else
            bind getCurrentThread (\<lambda>current.
            andthen (modify (\<lambda>k. k\<lparr>processWaiters := (processWaiters k)(targetPid \<mapsto>
               (case processWaiters k targetPid of None \<Rightarrow> [] | Some ws \<Rightarrow> ws) @ [current])\<rparr>))
           (andthen (setState current BLOCKED)
             (ret wait_result))))))"

definition handleExit :: "'w Env \<Rightarrow> SyscallContext \<Rightarrow> ('w Kernel, SyscallResult) prog" where
  "handleExit env ctx =
     (let code = arg0 ctx in
      bind current_process (\<lambda>p.
      bind (getPid p) (\<lambda>currentPid.
      bind (terminate env currentPid code) (\<lambda>ok.
      if \<not> ok then fail (KernelPanic ''KERNEL PANIC: Failed to terminate process '')
      else ret wait_result))))"

section \<open>Dispatch\<close>

definition dispatch_syscall :: "'w Env \<Rightarrow> SyscallContext \<Rightarrow> ('w Kernel, SyscallResult) prog" where
  "dispatch_syscall env ctx =
     andthen (on_stats incSyscalls)
       (let i = ctx_id ctx in
        if i = SYS_EXIT then handleExit env ctx
        else if i = SYS_WRITE then handleWrite env ctx
        else if i = SYS_READ then handleRead env ctx
        else if i = SYS_THREAD_CREATE then handleThreadCreate ctx
        else if i = SYS_THREAD_EXIT then handleThreadExit ctx
        else if i = SYS_THREAD_JOIN then handleThreadJoin ctx
        else if i = SYS_MUTEX_CREATE then handleMutexCreate
        else if i = SYS_MUTEX_LOCK then handleMutexLock ctx
        else if i = SYS_MUTEX_UNLOCK then handleMutexUnlock ctx
        else if i = SYS_OPEN then handleOpen ctx
        else if i = SYS_CLOSE then handleClose ctx
        else if i = SYS_CREATE then handleCreate ctx
        else if i = SYS_SBRK then handleSbrk ctx
        else if i = SYS_CREATE_PROCESS then handleCreateProcess env ctx
        else if i = SYS_JOIN_PROCESS then handleJoinProcess ctx
        else fail (KernelPanic ''Unimplemented syscall id: ''))"

end
