(* ===== verification/MainLoop.thy ===== *)
theory MainLoop
  imports Scheduling Syscalls MachineStep
begin

text \<open>
  The kernel's entry points, \<^verbatim>\<open>kernel/Kernel.cpp\<close>, and the main loop of the
  simulator, \<^verbatim>\<open>RV32UMOS.cpp\<close>.  One execution of the loop's body is
  \<^verbatim>\<open>turn\<close>; it says whether the loop goes on and counts the ticks.  The loop
  itself may run for ever, so it takes fuel, a bound on its iterations.
\<close>

section \<open>Entry points of the kernel (kernel/Kernel.cpp)\<close>

definition kill_current :: "'w Env \<Rightarrow> string \<Rightarrow> ('w Kernel, unit) prog" where
  "kill_current env why =
     bind current_process (\<lambda>p.
     bind (getPid p) (\<lambda>pid.
     bind (killProcess env pid) (\<lambda>killed.
     if \<not> killed then fail (KernelPanic why) else ret ())))"

definition read_context :: "SyscallID \<Rightarrow> ('w Kernel, SyscallContext) prog" where
  "read_context i =
     bind (on_cpu (cpu_readReg 10)) (\<lambda>a0.
     bind (on_cpu (cpu_readReg 11)) (\<lambda>a1.
     bind (on_cpu (cpu_readReg 12)) (\<lambda>a2.
     bind (on_cpu (cpu_readReg 13)) (\<lambda>a3.
     bind (on_cpu (cpu_readReg 14)) (\<lambda>a4.
     bind (on_cpu (cpu_readReg 15)) (\<lambda>a5.
     ret \<lparr>ctx_id = i, arg0 = a0, arg1 = a1, arg2 = a2, arg3 = a3, arg4 = a4, arg5 = a5\<rparr>))))))"

definition handleSyscall :: "'w Env \<Rightarrow> SyscallID \<Rightarrow> ('w Kernel, unit) prog" where
  "handleSyscall env i =
     bind (read_context i) (\<lambda>ctx.
     bind (dispatch_syscall env ctx) (\<lambda>result.
     andthen (if hasReturnValue result then on_cpu (cpu_writeReg 10 (returnValue result)) else ret ())
    (andthen (if advancePC result then on_cpu cpu_advancePC else ret ())
      (if error result then kill_current env ''Failed to kill process after Syscall Error!''
       else ret ()))))"

definition handlePageFault :: "'w Env \<Rightarrow> Addr \<Rightarrow> ('w Kernel, unit) prog" where
  "handlePageFault env addr =
     bind (VMM_handlePageFault env addr) (\<lambda>handled.
     if \<not> handled then kill_current env ''KERNEL PANIC: Failed to kill process after Segfault!''
     else ret ())"

section \<open>The main loop (RV32UMOS.cpp)\<close>

definition loadApplication :: "'w Env \<Rightarrow> string \<Rightarrow> ('w Kernel, bool) prog" where
  "loadApplication env filename = createProcess env filename"

text \<open>\<^verbatim>\<open>currentThreadIndex == -1 || getCurrentThread()->getState() != RUNNING\<close>.\<close>

definition no_running_thread :: "('w Kernel, bool) prog" where
  "no_running_thread =
     bind (gets currentThreadIndex) (\<lambda>i.
     if i = -1 then ret True
     else bind getCurrentThread (\<lambda>c. bind (the_thread c) (\<lambda>t. ret (t_state t \<noteq> RUNNING))))"

definition handle_trap :: "'w Env \<Rightarrow> Trap \<Rightarrow> ('w Kernel, unit) prog" where
  "handle_trap env tr =
     (if trap_type tr = SyscallTrap then handleSyscall env (trap_value tr)
      else if trap_type tr = PageFaultTrap then handlePageFault env (trap_value tr)
      else ret ())"

definition quantum_over :: "nat \<Rightarrow> ('w Kernel, unit) prog" where
  "quantum_over ticks = (if ticks mod SCHED_QUANTUM_INSTRUCTIONS = 0 then preempt else ret ())"

text \<open>The part of the body that runs one instruction of the current thread.\<close>

definition run_instruction :: "'w Env \<Rightarrow> nat \<Rightarrow> ('w Kernel, nat) prog" where
  "run_instruction env ticks =
     bind getCurrentThread (\<lambda>self.
     bind (getProcess self) (\<lambda>p.
     andthen (upd_process p (\<lambda>pr. pr\<lparr>instructionsExecuted := instructionsExecuted pr + 1\<rparr>))
    (andthen (on_stats incInstructions)
    (andthen (on_cpu step)
    (bind (on_cpu cpu_hasTrap) (\<lambda>trapped.
     let ticks' = ticks + 1 in
     if trapped then
       bind (gets (\<lambda>k. trap (cpu k))) (\<lambda>tr.
       andthen (on_cpu cpu_clearTrap)
      (andthen (handle_trap env tr)
      (bind (the_thread self) (\<lambda>t.
       andthen (if t_state t \<noteq> RUNNING then preempt else quantum_over ticks')
         (ret ticks')))))
     else
       andthen (on_cpu cpu_advancePC)
      (andthen (quantum_over ticks')
        (ret ticks'))))))))"

definition turn :: "'w Env \<Rightarrow> nat \<Rightarrow> ('w Kernel, bool \<times> nat) prog" where
  "turn env ticks =
     bind checkAllTerminated (\<lambda>finished.
     if finished then ret (False, ticks)
     else
       bind no_running_thread (\<lambda>idle.
       if idle then
         andthen preempt
        (bind checkAllTerminated (\<lambda>finished.
         if finished then ret (False, ticks)
         else bind no_running_thread (\<lambda>idle. ret (\<not> idle, ticks))))
       else bind (run_instruction env ticks) (\<lambda>ticks'. ret (True, ticks'))))"

text \<open>\<^verbatim>\<open>None\<close>: the fuel is used up and the loop still runs.\<close>

fun loop :: "'w Env \<Rightarrow> nat \<Rightarrow> nat \<Rightarrow> ('w Kernel, nat option) prog" where
  "loop env 0 ticks = ret None"
| "loop env (Suc fuel) ticks =
     bind (turn env ticks) (\<lambda>(go_on, ticks').
     if go_on then loop env fuel ticks' else ret (Some ticks'))"

definition start :: "'w Env \<Rightarrow> nat \<Rightarrow> ('w Kernel, nat option) prog" where
  "start env fuel =
     bind (gets activeThreads) (\<lambda>ts.
     if ts = [] then ret (Some 0)
     else
       andthen (on_cpu (cpu_enableVM True))
      (andthen preempt
        (loop env fuel 0)))"

end
