(* ===== verification/Isolation.thy ===== *)
theory Isolation
  imports PageFaults MainLoop
begin

text \<open>
  User code under the bookkeeping of theory Paging: an instruction keeps the invariant, and
  what it can change of the pages of other processes.
\<close>

section \<open>The processor under the invariant\<close>

definition calm :: "'w Kernel \<Rightarrow> bool" where
  "calm k \<longleftrightarrow> rf_ok (regs (cpu k)) \<and> \<not> mmu_fault (mmu (cpu k)) \<and> faultAddr (mmu (cpu k)) = 0"

lemma vm_cpu_ok:
  assumes "vm_ok k" "calm k" shows "cpu_ok (cpu k)"
proof -
  note i = vm_inv_parts [OF assms(1)]
  have "unat (ppn x) < 16" if t: "tables (mmu (cpu k)) p v = Some x" "valid x" for p v x
  proof -
    have "pmm_owner (pmm k) (unat (ppn x)) \<noteq> None"
      using book_valid [OF i(7), of p v x] t by (simp add: page_table_def)
    then show ?thesis
      using owned_frame [OF i(1)] by blast
  qed
  then show ?thesis
    using assms(2) i(5) by (auto simp: cpu_ok_def mmu_ok_def frames_ok_def calm_def k_mem_def unat_MEMORY_SIZE)
qed

lemma same_table:
  assumes "rel_option same_entry x y"
  shows "y = Some e' \<Longrightarrow> \<exists>e. x = Some e \<and> same_entry e e'" "x = Some e \<Longrightarrow> \<exists>e'. y = Some e' \<and> same_entry e e'"
  using assms by (auto simp: option_rel_Some1 option_rel_Some2)

lemma book_marks:
  assumes b: "book_ok n T own st X" and r: "\<And>p v. rel_option same_entry (T p v) (T' p v)"
  shows "book_ok n T' own st X"
proof -
  have older: "\<exists>e. T p v = Some e \<and> ppn e' = ppn e \<and> valid e' = valid e \<and> swapped e' = swapped e \<and> canWrite e' = canWrite e"
    if "T' p v = Some e'" for p v e'
    using same_table(1) [OF r that] by (auto dest: same_entry_fields)
  have newer: "\<exists>e'. T' p v = Some e' \<and> ppn e' = ppn e \<and> valid e' = valid e" if "T p v = Some e" for p v e
    using same_table(2) [OF r that] by (auto dest: same_entry_fields)
  show ?thesis
  proof (rule book_okI)
    fix f q v assume o: "own f = Some (q, v)" "X \<noteq> Some f"
    show "0 \<le> q \<and> nat q < n \<and> (\<exists>x. T' (nat q) v = Some x \<and> valid x \<and> unat (ppn x) = f)"
      using book_owner [OF b o] newer by metis
  next
    fix p v x assume "T' p v = Some x" "valid x"
    then show "own (unat (ppn x)) = Some (int p, v) \<and> X \<noteq> Some (unat (ppn x))"
      using older book_valid [OF b] by metis
  next
    fix p v x assume "T' p v = Some x" "\<not> valid x" "swapped x"
    then show "st (unat (ppn x)) \<noteq> None"
      using older book_swapped [OF b] by metis
  next
    fix p v x q u y assume "T' p v = Some x" "\<not> valid x" "swapped x" "T' q u = Some y" "\<not> valid y" "swapped y" "ppn x = ppn y"
    then show "p = q \<and> v = u"
      using older [of p v x] older [of q u y] book_slots [OF b] by metis
  next
    fix p v x assume "T' p v = Some x" "swapped x"
    then show "canWrite x"
      using older book_writable [OF b] by metis
  qed
qed

section \<open>One instruction\<close>

lemma step_vm:
  assumes vm: "vm_ok k" and c: "confined (mmu (cpu k)) (mmu c)" "cpu_ok c"
  shows "vm_ok (k\<lparr>cpu := c\<rparr>)"
proof -
  note i = vm_inv_parts [OF vm]
  let ?k = "k\<lparr>cpu := c\<rparr>"
  have s: "swap_ok ?k = swap_ok k" "stored_page ?k = stored_page k"
    by (simp_all add: swap_ok_def disk_ok_def stored_page_def block_def fun_eq_iff)
  have "book_ok (length (processList ?k)) (page_table ?k) (pmm_owner (pmm ?k)) (stored_page ?k) None"
    unfolding s using c(1) by (simp add: book_marks [OF i(7)] confined_def page_table_def)
  then show ?thesis
    unfolding vm_inv_def s using i c(2) by (simp add: cpu_ok_def mmu_ok_def k_mem_def)
qed

text \<open>A byte the running process can reach is in a frame of its own, or among the first three
  of the frame behind one.\<close>

lemma reached:
  assumes vm: "vm_ok k" and t: "currentTable (mmu (cpu k)) = Some p" and other: "q \<noteq> p"
    and x: "page_table k q u = Some x" "valid x" and i: "3 \<le> i" "i < PAGE"
  shows "\<not> reachable_byte (mmu (cpu k)) (unat (ppn x) * PAGE + i)"
proof
  assume "reachable_byte (mmu (cpu k)) (unat (ppn x) * PAGE + i)"
  then obtain f where f: "writable_frame (mmu (cpu k)) f" "f * 4096 \<le> unat (ppn x) * PAGE + i"
    "unat (ppn x) * PAGE + i < f * 4096 + 4096 + 3"
    unfolding reachable_byte_def by blast
  then have "f = unat (ppn x)"
    using i by (simp add: PAGE_eq)
  moreover obtain v y where "page_table k p v = Some y" "valid y" "unat (ppn y) = f"
    using f(1) t by (auto simp: writable_frame_def page_table_def)
  ultimately show False
    using book_exclusive [OF vm_inv_parts(7) [OF vm] x, of p v y] other by simp
qed

definition nearly_same :: "Byte list \<Rightarrow> Byte list \<Rightarrow> bool" where
  "nearly_same bs bs' \<longleftrightarrow> length bs' = length bs \<and> drop 3 bs' = drop 3 bs"

lemma others_pages:
  assumes vm: "vm_ok k" and t: "currentTable (mmu (cpu k)) = Some p" and other: "q \<noteq> p"
    and c: "confined (mmu (cpu k)) (mmu c)" "cpu_ok c" and bs: "page_data k q u = Some bs"
  shows "\<exists>bs'. page_data (k\<lparr>cpu := c\<rparr>) q u = Some bs' \<and> nearly_same bs bs' \<and> (\<not> resident k q u \<longrightarrow> bs' = bs)"
proof -
  let ?k = "k\<lparr>cpu := c\<rparr>"
  have s: "stored_page ?k = stored_page k"
    by (simp add: stored_page_def block_def fun_eq_iff)
  have tab: "page_table ?k q u = page_table k q u"
    using c(1) t other by (simp add: confined_def page_table_def)
  obtain x where x: "page_table k q u = Some x"
    using bs by (auto simp: page_data_def split: option.splits)
  show ?thesis
  proof (cases "valid x")
    case False
    then show ?thesis
      using bs x tab s by (auto simp: page_data_def resident_def nearly_same_def split: if_splits)
  next
    case True
    let ?f = "unat (ppn x)"
    note i = vm_inv_parts [OF vm]
    have f: "?f < 16"
      using book_valid [OF i(7) x True] owned_frame [OF i(1), of ?f] by simp
    have m: "mem_ok (k_mem k)" "mem_ok (k_mem ?k)"
      using i(5) c(2) by (simp_all add: cpu_ok_def mmu_ok_def k_mem_def)
    have len: "length (frame_bytes k ?f) = PAGE" "length (frame_bytes ?k ?f) = PAGE"
      using m f by (simp_all add: frame_bytes_length)
    have "frame_bytes ?k ?f ! j = frame_bytes k ?f ! j" if j: "3 \<le> j" "j < PAGE" for j
    proof -
      have "memory (mmu c) ! (?f * PAGE + j) = memory (mmu (cpu k)) ! (?f * PAGE + j)"
        using c(1) reached [OF vm t other x True j] by (simp add: confined_def)
      moreover have "?f * PAGE + j < length (k_mem k)" "?f * PAGE + j < length (k_mem ?k)"
        using m f j by (simp_all add: mem_ok_def unat_MEMORY_SIZE PAGE_eq)
      ultimately show ?thesis
        using j by (simp add: frame_bytes_def k_mem_def)
    qed
    then have "drop 3 (frame_bytes ?k ?f) = drop 3 (frame_bytes k ?f)"
      using len by (intro nth_equalityI) simp_all
    then show ?thesis
      using bs x tab True len by (auto simp: page_data_def resident_def nearly_same_def)
  qed
qed

lemma on_cpu_run: "on_cpu m k = (case m (cpu k) of Inl e \<Rightarrow> Inl e | Inr (x, c) \<Rightarrow> Inr (x, k\<lparr>cpu := c\<rparr>))"
  by (simp add: on_cpu_def zoom_run split: sum.split)

lemma instruction_keeps:
  assumes vm: "vm_ok k" "calm k" "vmEnabled (mmu (cpu k))" and t: "currentTable (mmu (cpu k)) = Some p"
    and s: "on_cpu step k = Inr ((), k')"
  shows "vm_ok k' \<and> calm k' \<and> (\<forall>q u bs. q \<noteq> p \<longrightarrow> page_data k q u = Some bs \<longrightarrow>
     (\<exists>bs'. page_data k' q u = Some bs' \<and> nearly_same bs bs' \<and> (\<not> resident k q u \<longrightarrow> bs' = bs)))"
proof -
  obtain c where c: "step (cpu k) = Inr ((), c)" "k' = k\<lparr>cpu := c\<rparr>"
    using s by (auto simp: on_cpu_run split: sum.splits)
  have "sound_step (cpu k) c"
    using sound_machine_step [OF vm_cpu_ok [OF vm(1,2)] vm(3)] c(1) by (simp add: post_def)
  then have c': "confined (mmu (cpu k)) (mmu c)" "cpu_ok c"
    by (simp_all add: sound_step_def)
  moreover have "calm k'"
    using c'(2) c(2) by (simp add: calm_def cpu_ok_def mmu_ok_def)
  ultimately show ?thesis
    using step_vm [OF vm(1)] others_pages [OF vm(1) t] c(2) by auto
qed

section \<open>A fault and its service\<close>

lemma keeps_user:
  assumes "keeps p v k k'"
  shows "regs (cpu k') = regs (cpu k)" "pc (cpu k') = pc (cpu k)" "processList k' = processList k"
    "allThreads k' = allThreads k"
  using assms by (auto simp: keeps_def)

lemma trap_cleared:
  fixes k :: "'w Kernel"
  defines "l \<equiv> k\<lparr>cpu := (cpu k)\<lparr>trap := no_trap\<rparr>\<rparr>"
  shows "on_cpu cpu_clearTrap k = Inr ((), l)" "vm_ok l = vm_ok k" "threads_ok l = threads_ok k"
    "source_of l p a = source_of k p a" "processList l = processList k" "regs (cpu l) = regs (cpu k)"
    "pc (cpu l) = pc (cpu k)" "current_process k = Inr (p, k) \<Longrightarrow> current_process l = Inr (p, l)"
proof -
  have pt: "page_table l = page_table k" "swap_ok l = swap_ok k" "stored_page l = stored_page k" "k_mem l = k_mem k"
    by (simp_all add: l_def page_table_def fun_eq_iff swap_ok_def disk_ok_def stored_page_def block_def k_mem_def)
  show "vm_ok l = vm_ok k"
    unfolding vm_inv_def pt by (simp add: l_def)
  have r: "stack_region l p a = stack_region k p a" "resident l p v = resident k p v" "swapped_out l p v = swapped_out k p v" for v
    unfolding stack_region_def resident_def swapped_out_def pt by (simp_all add: l_def)
  have pl: "processList l = processList k"
    by (simp add: l_def)
  show "source_of l p a = source_of k p a"
    by (simp only: source_of_def r pl)
  show "current_process k = Inr (p, k) \<Longrightarrow> current_process l = Inr (p, l)"
    by (auto simp: l_def current_process_def getCurrentThread_def getProcess_def the_thread_def bind_run ret_run split: if_splits)
qed (simp_all add: l_def on_cpu_run cpu_clearTrap_def modify_run threads_ok_def)

lemma fault_restarts:
  assumes vm: "vm_ok k" "calm k" "vmEnabled (mmu (cpu k))" and th: "threads_ok k" "current_process k = Inr (p, k)"
    and t: "currentTable (mmu (cpu k)) = Some p" "p < length (processList k)"
    and s: "on_cpu step k = Inr ((), k1)" "trap (cpu k1) = \<lparr>trap_type = PageFaultTrap, trap_value = a\<rparr>"
    and src: "source_of k1 p a = Some src"
  shows "post only_swap_full (\<lambda>_ k'. vm_ok k' \<and> regs (cpu k') = regs (cpu k) \<and> pc (cpu k') = pc (cpu k) \<and>
      resident k' p (drop_bit 12 a)) (andthen (on_cpu cpu_clearTrap) (handle_trap env (trap (cpu k1)))) k1"
proof -
  let ?l = "k1\<lparr>cpu := (cpu k1)\<lparr>trap := no_trap\<rparr>\<rparr>"
  let ?Q = "\<lambda>k'. vm_ok k' \<and> regs (cpu k') = regs (cpu k) \<and> pc (cpu k') = pc (cpu k) \<and> resident k' p (drop_bit 12 a)"
  obtain c where c: "step (cpu k) = Inr ((), c)" "k1 = k\<lparr>cpu := c\<rparr>"
    using s(1) by (auto simp: on_cpu_run split: sum.splits)
  have "sound_step (cpu k) c"
    using sound_machine_step [OF vm_cpu_ok [OF vm(1,2)] vm(3)] c(1) by (simp add: post_def)
  then have same: "regs (cpu ?l) = regs (cpu k)" "pc (cpu ?l) = pc (cpu k)" "p < length (processList ?l)"
    using s(2) c(2) t(2) by (simp_all add: sound_step_def)
  have vm1: "vm_ok ?l"
    using instruction_keeps [OF vm t(1) s(1)] trap_cleared(2) by blast
  have th1: "threads_ok ?l" "current_process ?l = Inr (p, ?l)"
    using th c(2) by (auto simp: threads_ok_def current_process_def getCurrentThread_def getProcess_def the_thread_def
        bind_run ret_run split: if_splits)
  have src1: "source_of ?l p a = Some src"
    using src trap_cleared(4) by metis
  have "post only_swap_full (\<lambda>b k'. b \<and> ?Q k') (VMM_handlePageFault env a) ?l"
    by (rule post_mono [OF fault_serviced [OF vm1 th1 same(3)]])
      (simp_all only: src1 option.case keeps_user [of p "drop_bit 12 a" ?l] same)
  then have "post only_swap_full (\<lambda>_. ?Q) (handlePageFault env a) ?l"
    by (auto simp: handlePageFault_def post_bind post_ret elim: post_mono)
  then show ?thesis
    using trap_cleared(1) [of k1] s(2) by (simp add: post_def handle_trap_def)
qed

end
