(* ===== verification/Boot.thy ===== *)
theory Boot
  imports Isolation Demo
begin

text \<open>
  The state after \<^verbatim>\<open>RV32UMOS::init\<close> meets the invariants of the kernel, and a
  small kernel with two processes and three threads on which the witnesses run.
\<close>

section \<open>Start-up\<close>

definition reset_machine :: Machine where
  "reset_machine =
     \<lparr>regs = RegFile_new[2 := STACK_TOP], mmu = MMU_new, pc = MEMORY_BASE, trap = no_trap\<rparr>"

definition booted :: "Stats \<Rightarrow> 'w \<Rightarrow> 'w Kernel" where
  "booted st w =
     \<lparr>disk = InMemoryDisk_new NUM_DISK_BLOCKS, stats = st, vfs = StubFileSystem_new,
      swapM = SwapManager_new NUM_DISK_BLOCKS NUM_SWAP_BLOCKS, cpu = reset_machine, pmm = PMM_init, prp = [],
      processList = ProcessManager_new, activeThreads = [], currentThreadIndex = -1,
      exitCodes = Map.empty, processWaiters = Map.empty, allThreads = [], world = w\<rparr>"

lemma Machine_new_eq: "Machine_new = Inr ((), reset_machine)"
  by (simp add: Machine_new_def Machine_reset_def reset_machine_def MMU_reset_def MMU_new_def cpu_setPC_def
      cpu_writeReg_def rf_ok_reset RegFile_write_def RegFile_new_def run)

lemma init_eq: "RV32UMOS_init st w = Inr (booted st w)"
  by (simp add: RV32UMOS_init_def Machine_new_eq booted_def)

text \<open>The invariants hold, page tables and frame table apart, of every kernel whose
  memory side is the one of the start.\<close>

definition fresh_memory :: "'w Kernel \<Rightarrow> bool" where
  "fresh_memory k \<longleftrightarrow> pmm k = PMM_init \<and> prp k = [] \<and> page_table k = (\<lambda>_. Map.empty) \<and> k_mem k = Memory_new \<and>
     disk k = InMemoryDisk_new NUM_DISK_BLOCKS \<and> swapM k = SwapManager_new NUM_DISK_BLOCKS NUM_SWAP_BLOCKS"

lemma fresh_vm_ok:
  assumes "fresh_memory k" "\<And>p. p < length (processList k) \<Longrightarrow> p_pid (processList k ! p) = int p"
  shows "vm_ok k"
proof -
  have t: "\<not> allocated (frameTable PMM_init ! f)" if "f < 16" for f
    using that PMM_init_ok(1,3) by (auto simp: pmm_ok_def pmm_owner_def fun_eq_iff split: if_splits)
  then have "fifo.covers [] (frameTable PMM_init)"
    using PMM_init_ok(1) by (auto simp: fifo.covers_def pmm_ok_def)
  moreover have "swap_ok k"
    using assms(1) by (simp add: fresh_memory_def swap_ok_def disk_ok_def InMemoryDisk_new_def SwapManager_new_def
        NUM_DISK_BLOCKS_def NUM_SWAP_BLOCKS_def)
  moreover have "book_ok (length (processList k)) (page_table k) (pmm_owner (pmm k)) (stored_page k) None"
    using assms(1) PMM_init_ok(3) by (simp add: fresh_memory_def book_ok_def)
  ultimately show ?thesis
    using assms PMM_init_ok Memory_new_ok unfolding vm_inv_def fresh_memory_def by auto
qed

lemma manager_new: "length ProcessManager_new = 8" "p < 8 \<Longrightarrow> ProcessManager_new ! p = PCB_new (int p) ''''"
  by (simp_all add: ProcessManager_new_def MAX_PROCESS_def)

lemma booted_ok: "vm_ok (booted st w) \<and> sched_ok (booted st w) \<and> threads_ok (booted st w) \<and>
    one_running (booted st w) \<and> table_in_force (booted st w) \<and> cpu_ok (cpu (booted st w))"
proof -
  have m: "mmu_ok MMU_new"
    using Memory_new_ok by (auto simp: mmu_ok_def MMU_new_def frames_ok_def)
  have "vm_ok (booted st w)"
    by (rule fresh_vm_ok) (simp_all add: fresh_memory_def booted_def reset_machine_def MMU_new_def k_mem_def
        page_table_def fun_eq_iff manager_new PCB_new_def)
  moreover have "cpu_ok (cpu (booted st w))"
    using m rf_ok_new by (simp add: cpu_ok_def booted_def reset_machine_def rf_ok_def nth_list_update)
  moreover have "threads_ok (booted st w)"
    by (auto simp: threads_ok_def booted_def ProcessManager_new_def PCB_new_def)
  ultimately show ?thesis
    by (simp add: sched_ok_def one_running_def table_in_force_def booted_def manager_new PCB_new_def)
qed

section \<open>A kernel with two processes\<close>

definition thread_at :: "int \<Rightarrow> nat \<Rightarrow> ThreadState \<Rightarrow> Addr \<Rightarrow> Thread" where
  "thread_at i p s base =
     \<lparr>joiner = None, hasBeenJoined = False, tid = i, exitCode = 0, t_state = s, t_pc = 4096, t_regs = RegFile_new,
      parent = p, stackTop = base\<rparr>"

definition code_segment :: Segment where
  "code_segment = \<lparr>seg_vaddr = 4096, seg_memSize = 8192, seg_fileSize = 100, seg_fileOffset = 0, seg_flags = 5\<rparr>"

definition demo_process :: "int \<Rightarrow> nat list \<Rightarrow> Addr \<Rightarrow> Process" where
  "demo_process pid ts base =
     (PCB_new pid ''demo'')\<lparr>active := True, segments := [code_segment], threads := ts, mutexList := [Mutex_new],
        programBreak := HEAP_START + 8192, nextStackBase := base\<rparr>"

definition two_processes :: "unit Kernel" where
  "two_processes =
     (booted Stats_new ())\<lparr>
       processList := ProcessManager_new[0 := demo_process 0 [0, 1] 0x2BFF000, 1 := demo_process 1 [2] 0x2FFF000],
       allThreads := [thread_at 0 0 RUNNING STACK_TOP, thread_at 1 0 READY 0x2FFF000, thread_at 0 1 READY STACK_TOP],
       activeThreads := [0, 1, 2], currentThreadIndex := 0,
       cpu := reset_machine\<lparr>pc := 4096, mmu := MMU_new\<lparr>currentTable := Some 0, vmEnabled := True\<rparr>\<rparr>\<rparr>"

lemma two_processes_pids: "p < 8 \<Longrightarrow> p_pid (processList two_processes ! p) = int p"
  by (auto simp: two_processes_def demo_process_def nth_list_update manager_new PCB_new_def)

lemma two_processes_length: "length (processList two_processes) = 8"
  by (simp add: two_processes_def manager_new)

lemma two_processes_vm: "vm_ok two_processes"
  by (rule fresh_vm_ok) (simp_all add: two_processes_length two_processes_pids fresh_memory_def, simp_all add: two_processes_def
      booted_def reset_machine_def MMU_new_def k_mem_def page_table_def fun_eq_iff)

lemma two_processes_threads: "threads_ok two_processes"
proof -
  have "set (processList two_processes) \<subseteq> {demo_process 0 [0, 1] 0x2BFF000, demo_process 1 [2] 0x2FFF000} \<union> range (\<lambda>i. PCB_new i '''')"
    by (auto simp: two_processes_def ProcessManager_new_def dest!: set_update_subset_insert [THEN subsetD])
  then have "i < 3" if "pr \<in> set (processList two_processes)" "i \<in> set (threads pr)" for pr i
    using that by (fastforce simp: demo_process_def PCB_new_def)
  moreover have "length (allThreads two_processes) = 3"
    by (simp add: two_processes_def)
  ultimately show ?thesis
    unfolding threads_ok_def by simp
qed

lemma two_processes_sched: "sched_ok two_processes" "one_running two_processes" "table_in_force two_processes"
proof -
  have l: "length (activeThreads two_processes) = 3" "length (allThreads two_processes) = 3"
    by (simp_all add: two_processes_def)
  show "sched_ok two_processes"
    by (auto simp: sched_ok_def two_processes_length) (auto simp: two_processes_def thread_at_def)
  show "one_running two_processes"
    by (auto simp: one_running_def less_Suc_eq numeral_3_eq_3 two_processes_def at_def thread_at_def)
  show "table_in_force two_processes"
    by (simp add: table_in_force_def two_processes_length two_processes_pids)
       (simp add: two_processes_def at_def thread_at_def)
qed

lemma two_processes_current: "current_process two_processes = Inr (0, two_processes)"
  by (simp add: current_process_def getCurrentThread_def getProcess_def the_thread_def run two_processes_def thread_at_def)

lemma two_processes_first: "processList two_processes ! 0 = demo_process 0 [0, 1] 0x2BFF000"
  by (simp add: two_processes_def manager_new)

lemma two_processes_empty: "page_table two_processes p v = None"
  by (simp add: two_processes_def page_table_def reset_machine_def MMU_new_def)

lemma two_processes_heap:
  "source_of two_processes 0 (HEAP_START + 5) = Some FreshHeap"
  by (simp add: source_of_def resident_def swapped_out_def two_processes_empty stack_region_def two_processes_first
      demo_process_def in_segment_def code_segment_def PCB_new_def layout_defs)

lemma first_page_source:
  "source_of (two_processes\<lparr>cpu := page_fault ((cpu two_processes)\<lparr>trap := no_trap\<rparr>) 4096\<rparr>) 0 4096 =
     Some (FromImage code_segment)"
proof -
  let ?k = "two_processes\<lparr>cpu := page_fault ((cpu two_processes)\<lparr>trap := no_trap\<rparr>) 4096\<rparr>"
  have "page_table ?k = page_table two_processes"
    by (simp add: page_table_def page_fault_def fun_eq_iff)
  then show ?thesis
    by (simp add: source_of_def resident_def swapped_out_def two_processes_empty stack_region_def two_processes_first
        demo_process_def in_segment_def code_segment_def PCB_new_def layout_defs)
qed

text \<open>Its current thread is about to fetch its first instruction, which is not loaded yet.\<close>

lemma two_processes_calm: "calm two_processes" "vmEnabled (mmu (cpu two_processes))"
  "currentTable (mmu (cpu two_processes)) = Some 0" "pc (cpu two_processes) = 4096"
  using rf_ok_new by (simp_all add: calm_def two_processes_def reset_machine_def MMU_new_def rf_ok_def nth_list_update)

lemma first_fetch:
  assumes "vm_ok k" "calm k" "vmEnabled (mmu (cpu k))" "fetchable (cpu k) = None"
  shows "on_cpu step k = Inr ((), k\<lparr>cpu := page_fault ((cpu k)\<lparr>trap := no_trap\<rparr>) (pc (cpu k))\<rparr>)"
proof -
  let ?c = "(cpu k)\<lparr>trap := no_trap\<rparr>"
  have "cpu_ok ?c" "vmEnabled (mmu ?c)" "fetchable ?c = None"
    using vm_cpu_ok [OF assms(1,2)] assms(3,4) by (simp_all add: cpu_ok_def fetchable_def)
  then show ?thesis
    using fetch_refused [of ?c]
    by (simp add: on_cpu_run step_def andthen_run bind_run cpu_clearTrap_def modify_run cpu_hasTrap_def gets_run
        ret_run page_fault_def)
qed

lemma nothing_to_fetch:
  assumes "currentTable (mmu (cpu k)) = Some p" "page_table k p (vpn_of (pc (cpu k))) = None"
  shows "fetchable (cpu k) = None"
  using assms by (simp add: fetchable_def current_pte_def page_table_def)

section \<open>A kernel in which a page is mapped\<close>

lemma give_page:
  assumes "faulting k p v" "pmm_avail (pmm k) \<noteq> {}" "length bs = PAGE" "\<not> swapped_out k p v"
  shows "\<exists>k'. serviced p v bs k k' \<and>
    (\<forall>q u. (q \<noteq> p \<or> u \<noteq> v) \<longrightarrow> page_table k q u = None \<longrightarrow> page_table k' q u = None)"
proof -
  have vm: "vm_ok k"
    using assms(1) by (simp add: faulting_def)
  obtain a k1 where tk: "taken p v k a k1"
    using take_and_register [OF vm assms(2), where v = v and p = p] by blast
  obtain f where f: "frame_of a = f" "evolves k k1"
    using tk by (rule takenE)
  let ?e = "PTE_new\<lparr>ppn := drop_bit 12 a, valid := True, canRead := True\<rparr>"
  let ?k' = "k1\<lparr>cpu := (cpu k1)\<lparr>mmu := (mmu (cpu k1))\<lparr>memory := mem_splice (k_mem k1) (unat a) bs,
      tables := put_entry (page_table k1) p v ?e\<rparr>\<rparr>, stats := stats k1\<rparr>"
  have "serviced p v bs k ?k'"
    using assms(3,4) by (intro settle_memory [OF assms(1) tk]) (simp_all add: frame_of_def PTE_new_def)
  moreover have "page_table ?k' q u = None" if "q \<noteq> p \<or> u \<noteq> v" "page_table k q u = None" for q u
    using that f(2) by (auto simp: page_table_def put_entry_at evolves_def resident_def)
  ultimately show ?thesis
    by blast
qed

lemma keeps_machine:
  assumes "keeps p v k k'"
  shows "currentTable (mmu (cpu k')) = currentTable (mmu (cpu k))" "vmEnabled (mmu (cpu k')) = vmEnabled (mmu (cpu k))"
    "calm k' = calm k" "currentThreadIndex k' = currentThreadIndex k" "activeThreads k' = activeThreads k"
  using assms by (auto simp: keeps_def calm_def)

lemma touched_machine:
  "currentTable (mmu (cpu (touched p v k))) = currentTable (mmu (cpu k))"
  "vmEnabled (mmu (cpu (touched p v k))) = vmEnabled (mmu (cpu k))"
  "pc (cpu (touched p v k)) = pc (cpu k)" "calm (touched p v k) = calm k"
  by (simp_all add: touched_def set_page_table_def calm_def split: option.split)

lemma two_processes_avail: "pmm_avail (pmm two_processes) = {..<16}"
  by (simp add: two_processes_def booted_def PMM_init_ok)

lemma neighbour_kernel:
  "\<exists>k :: unit Kernel. vm_ok k \<and> calm k \<and> vmEnabled (mmu (cpu k)) \<and> currentTable (mmu (cpu k)) = Some 0 \<and>
    page_data k 1 0x1000 = Some (replicate PAGE 7) \<and> resident k 1 0x1000 \<and> fetchable (cpu k) = None \<and>
    processList k = processList two_processes \<and> allThreads k = allThreads two_processes \<and>
    processWaiters k = Map.empty \<and> (\<forall>u. u \<noteq> 0x1000 \<longrightarrow> page_table k 1 u = None)"
proof -
  let ?l = "touched 1 0x1000 two_processes"
  have l: "vm_ok ?l" "calm ?l = calm two_processes" "currentTable (mmu (cpu ?l)) = Some 0"
    "vmEnabled (mmu (cpu ?l))" "pc (cpu ?l) = 4096" "pmm_avail (pmm ?l) = {..<16}"
    using two_processes_calm by (simp_all add: touched_ok two_processes_vm touched_machine two_processes_avail)
  have ft: "faulting ?l 1 0x1000"
    using l(1) by (simp add: faulting_def two_processes_length two_processes_empty)
  have ne: "pmm_avail (pmm ?l) \<noteq> {}"
    by (simp add: two_processes_avail lessThan_empty_iff)
  obtain k where k: "serviced 1 0x1000 (replicate PAGE 7) ?l k"
    "\<forall>q u. (q \<noteq> 1 \<or> u \<noteq> 0x1000) \<longrightarrow> page_table ?l q u = None \<longrightarrow> page_table k q u = None"
    using give_page [OF ft ne, of "replicate PAGE 7"] by (auto simp: touched_pages swapped_out_def two_processes_empty)
  have kp: "keeps 1 0x1000 ?l k"
    using k(1) by (simp add: serviced_def)
  have ct: "currentTable (mmu (cpu k)) = Some 0"
    using keeps_machine(1) [OF kp] l(3) by simp
  have "page_table k 0 (vpn_of (pc (cpu k))) = None"
    using k(2) by (simp add: two_processes_empty)
  then have "fetchable (cpu k) = None"
    using ct by (rule_tac nothing_to_fetch)
  moreover have "processWaiters k = Map.empty"
    using kp by (auto simp: keeps_def touched_def set_page_table_def two_processes_def booted_def split: option.splits)
  moreover have "\<forall>u. u \<noteq> 0x1000 \<longrightarrow> page_table k 1 u = None"
    using k(2) by (simp add: two_processes_empty)
  ultimately show ?thesis
    using k(1) ct keeps_machine(2,3) [OF kp] keeps_user(3,4) [OF kp] l two_processes_calm(1) unfolding serviced_def
    by (intro exI [of _ k]) simp
qed

section \<open>The host of the witnesses\<close>

definition demo_env :: "unit Env" where
  "demo_env =
     \<lparr>host_read = (\<lambda>n w. ((0, []), w)), host_write = (\<lambda>fd bs w. (int (length bs), w)),
      host_file = (\<lambda>n. Some (replicate 100 7)), table_order = (\<lambda>t. sorted_list_of_set (dom t))\<rparr>"

end
