(* ===== verification/Images.thy ===== *)
theory Images
  imports Isolation
begin

text \<open>
  The contents of a page loaded on demand from the file of a program
  (\<^verbatim>\<open>handleLazyLoading\<close> in \<^verbatim>\<open>memory/VirtualMemoryManager.cpp\<close>).
\<close>

text \<open>The byte of a segment at a distance from its start: from the file, or zero behind its part of it.\<close>

definition file_byte :: "'w Env \<Rightarrow> string \<Rightarrow> Segment \<Rightarrow> nat \<Rightarrow> Byte" where
  "file_byte env f seg d =
     (case host_file env f of None \<Rightarrow> 0 | Some c \<Rightarrow>
        if d < seg_fileSize seg \<and> seg_fileOffset seg + d < length c then c ! (seg_fileOffset seg + d) else 0)"

lemma segment_page_nth:
  assumes "i < PAGE"
  shows "segment_page env f seg v ! i = file_byte env f seg (offsetInSegment seg v + i)"
proof -
  let ?o = "offsetInSegment seg v"
  let ?c = "case host_file env f of None \<Rightarrow> [] | Some c \<Rightarrow> c"
  have b: "file_byte env f seg (?o + i) = (if ?o + i < seg_fileSize seg \<and> seg_fileOffset seg + ?o + i < length ?c
      then ?c ! (seg_fileOffset seg + ?o + i) else 0)"
    by (simp add: file_byte_def add.assoc split: option.split)
  show ?thesis
  proof (cases "?o < seg_fileSize seg")
    case False
    then show ?thesis
      using assms by (simp add: segment_page_def Let_def b)
  next
    case True
    let ?n = "min PAGE (seg_fileSize seg - ?o)"
    define g where "g = take ?n (drop (seg_fileOffset seg + ?o) ?c)"
    have l: "length g = min ?n (length ?c - (seg_fileOffset seg + ?o))"
      by (simp add: g_def)
    have page: "segment_page env f seg v = g @ replicate (PAGE - length g) 0"
      using True by (simp add: segment_page_def Let_def g_def)
    have inside: "i < length g \<longleftrightarrow> ?o + i < seg_fileSize seg \<and> seg_fileOffset seg + ?o + i < length ?c"
      unfolding l using True assms by (simp add: min_less_iff_conj) linarith
    show ?thesis
    proof (cases "i < length g")
      case True
      then have "seg_fileOffset seg + ?o \<le> length ?c"
        unfolding l by linarith
      then have "g ! i = ?c ! (seg_fileOffset seg + ?o + i)"
        using True by (simp add: g_def nth_drop)
      then show ?thesis
        unfolding b page inside [symmetric] using True by (simp add: nth_append)
    next
      case False
      then show ?thesis
        unfolding b page inside [symmetric] using assms by (simp add: nth_append)
    qed
  qed
qed

lemma word_bound: "unat (a :: Addr) < 2 ^ 32"
proof -
  have "unat a < 2 ^ LENGTH(32)"
    by (rule unsigned_less)
  then show ?thesis
    by simp
qed

lemma page_start: "unat (drop_bit 12 a * KERNEL_PAGE_SIZE :: Addr) = unat a div 4096 * 4096"
proof -
  have "unat (drop_bit 12 a) = unat a div 4096"
    by (simp add: unat_page_number)
  moreover have "unat a div 4096 * 4096 < 2 ^ 32"
    using word_bound [of a] div_times_less_eq_dividend [of "unat a" 4096] by linarith
  ultimately show ?thesis
    by (simp add: KERNEL_PAGE_SIZE_def unat_word_ariths)
qed

lemma aligned_offset:
  assumes "seg_vaddr seg \<le> a" "unat (seg_vaddr seg) mod 4096 = 0"
  shows "unat (seg_vaddr seg) + offsetInSegment seg (drop_bit 12 a) = unat a div 4096 * 4096"
proof -
  have "unat (seg_vaddr seg) = unat (seg_vaddr seg) div 4096 * 4096"
    using assms(2) div_mult_mod_eq [of "unat (seg_vaddr seg)" 4096] by linarith
  moreover have "unat (seg_vaddr seg) div 4096 \<le> unat a div 4096"
    using assms(1) by (intro div_le_mono) (simp add: word_le_nat_alt)
  ultimately have "unat (seg_vaddr seg) \<le> unat a div 4096 * 4096"
    by (metis mult_le_mono1)
  then show ?thesis
    by (simp add: offsetInSegment_def unat_sub word_le_nat_alt page_start)
qed

lemma unaligned_offset:
  assumes "unat a div 4096 = unat (seg_vaddr seg) div 4096" "unat (seg_vaddr seg) mod 4096 \<noteq> 0"
  shows "2 ^ 32 - 4096 < offsetInSegment seg (drop_bit 12 a)"
proof -
  let ?s = "drop_bit 12 a * KERNEL_PAGE_SIZE :: Addr"
  have s: "unat ?s + unat (seg_vaddr seg) mod 4096 = unat (seg_vaddr seg)"
    using assms(1) by (simp add: page_start)
  then have "unat ?s < unat (seg_vaddr seg)"
    using assms(2) by simp
  then have "unat (?s - seg_vaddr seg) = unat ?s + 2 ^ 32 - unat (seg_vaddr seg)"
    by (simp add: unat_sub_if')
  moreover have "unat (seg_vaddr seg) mod 4096 < 4096"
    by simp
  ultimately show ?thesis
    using s word_bound [of "seg_vaddr seg"] by (simp add: offsetInSegment_def)
qed

lemma lost_page:
  assumes "unat a div 4096 = unat (seg_vaddr seg) div 4096" "unat (seg_vaddr seg) mod 4096 \<noteq> 0"
    and "seg_fileSize seg \<le> 2 ^ 32 - 4096"
  shows "segment_page env f seg (drop_bit 12 a) = replicate PAGE 0"
  using unaligned_offset [OF assms(1,2)] assms(3) by (simp add: segment_page_def Let_def)

end
