(* ===== verification/Kernel_Properties.thy ===== *)
theory Kernel_Properties
  imports Boot Images
begin

text \<open>
  What the kernel promises about memory and processor time, from theories PageFaults,
  Isolation and Scheduling, each property with a run on the kernels of theory Boot.
\<close>

section \<open>Start-up\<close>

text \<open>After start-up every invariant of the kernel holds: the bookkeeping of frames, page
  tables and swap slots, the scheduler's lists, the processor.\<close>

theorem boot_establishes_invariants:
  "\<exists>k. RV32UMOS_init st w = Inr k \<and> vm_ok k \<and> sched_ok k \<and> threads_ok k \<and> one_running k \<and>
    table_in_force k \<and> cpu_ok (cpu k)"
  using booted_ok [of st w] by (simp add: init_eq)

section \<open>Page faults\<close>

text \<open>C9: The page fault handler does what its specification says: it resolves the fault exactly when
  the page is not in memory and lies in the swap area, a stack, a segment of the program or the heap;
  the page is then in memory with the contents the source promises, and one that came from the swap
  area is still kept; the bookkeeping holds, every other page that cannot be rebuilt keeps its contents,
  every other one is gone or as it was, nothing but memory, tables, frame lists and disk has changed; and the only other outcome is the panic on a full swap area.\<close>

theorem page_fault_service:
  assumes "vm_ok k" "threads_ok k" "current_process k = Inr (p, k)" "p < length (processList k)"
  shows "post only_swap_full (\<lambda>b k'. vm_ok k' \<and> keeps p (drop_bit 12 addr) k k' \<and>
      (case source_of k p addr of
         None \<Rightarrow> \<not> b
       | Some src \<Rightarrow> b \<and> resident k' p (drop_bit 12 addr) \<and> (src = FromSwap \<longrightarrow> saved k' p (drop_bit 12 addr)) \<and>
           (\<exists>bs. promised env k p (drop_bit 12 addr) src bs \<and> page_data k' p (drop_bit 12 addr) = Some bs)))
    (VMM_handlePageFault env addr) k"
  using fault_serviced [OF assms] .

theorem page_fault_service_witness:
  "post only_swap_full (\<lambda>b k'. vm_ok k' \<and> keeps 0 0x1000 two_processes k' \<and> b \<and> resident k' 0 0x1000 \<and>
      page_data k' 0 0x1000 = Some (replicate PAGE 0))
    (VMM_handlePageFault demo_env (HEAP_START + 5)) two_processes"
proof -
  have v: "drop_bit 12 (HEAP_START + 5) = 0x1000"
    by (simp add: layout_defs)
  show ?thesis
    using two_processes_heap page_fault_service [OF two_processes_vm two_processes_threads two_processes_current, of "HEAP_START + 5" demo_env]
    by (simp add: v two_processes_length)
qed

text \<open>C35: Demand loading is faithful exactly for segments that start at a page boundary: each byte of the
  page image is the byte of the file that belongs there, or zero behind the file's part; of a segment
  that starts inside a page the whole first page is zero, because the offset wraps around.\<close>

theorem demand_loaded_image:
  assumes "seg_vaddr seg \<le> a"
  shows "if unat (seg_vaddr seg) mod 4096 = 0
    then \<forall>i < PAGE. segment_page env f seg (drop_bit 12 a) ! i =
      file_byte env f seg (unat a div 4096 * 4096 + i - unat (seg_vaddr seg))
    else unat a div 4096 = unat (seg_vaddr seg) div 4096 \<and> seg_fileSize seg \<le> 2 ^ 32 - 4096 \<longrightarrow>
      segment_page env f seg (drop_bit 12 a) = replicate PAGE 0"
proof (cases "unat (seg_vaddr seg) mod 4096 = 0")
  case True
  note o = aligned_offset [OF assms True]
  have d: "offsetInSegment seg (drop_bit 12 a) + i = unat a div 4096 * 4096 + i - unat (seg_vaddr seg)" for i
    unfolding o [symmetric] by simp
  have "segment_page env f seg (drop_bit 12 a) ! i =
      file_byte env f seg (unat a div 4096 * 4096 + i - unat (seg_vaddr seg))" if "i < PAGE" for i
    unfolding segment_page_nth [OF that] d by (rule refl)
  then show ?thesis
    using True by simp
next
  case False
  then show ?thesis
    using lost_page [of a seg env f] by simp
qed

theorem demand_loaded_image_witness:
  "segment_page demo_env ''x'' code_segment 1 ! 99 = 7 \<and> segment_page demo_env ''x'' code_segment 1 ! 100 = 0 \<and>
    segment_page demo_env ''x'' (code_segment\<lparr>seg_vaddr := 4100\<rparr>) 1 = replicate PAGE 0"
proof -
  have v: "drop_bit 12 (5000 :: Addr) = 1"
    by simp
  have "seg_vaddr code_segment \<le> 5000" "seg_vaddr (code_segment\<lparr>seg_vaddr := 4100\<rparr>) \<le> 5000"
    by (simp_all add: code_segment_def)
  from this [THEN demand_loaded_image, of demo_env "''x''"] show ?thesis
    by (simp add: v code_segment_def file_byte_def demo_env_def PAGE_eq)
qed

text \<open>C10: A page fault is transparent to the program: when an instruction faults on a page that can be
  supplied, the kernel's handler either returns, with registers and program counter as before the instruction
  and the page in memory, so that the instruction runs again, or stops the simulator because the page to be
  evicted for it finds the swap area full; no other outcome is possible.\<close>

theorem fault_is_transparent:
  assumes "vm_ok k" "calm k" "vmEnabled (mmu (cpu k))" "threads_ok k" "current_process k = Inr (p, k)"
    and "currentTable (mmu (cpu k)) = Some p" "p < length (processList k)"
    and "on_cpu step k = Inr ((), k1)" "trap (cpu k1) = \<lparr>trap_type = PageFaultTrap, trap_value = a\<rparr>"
    and "source_of k1 p a = Some src"
  shows "post only_swap_full (\<lambda>_ k'. vm_ok k' \<and> regs (cpu k') = regs (cpu k) \<and> pc (cpu k') = pc (cpu k) \<and>
      resident k' p (drop_bit 12 a)) (andthen (on_cpu cpu_clearTrap) (handle_trap env (trap (cpu k1)))) k1"
  using fault_restarts [OF assms] .

theorem fault_is_transparent_witness:
  "\<exists>k1. on_cpu step two_processes = Inr ((), k1) \<and>
    post only_swap_full (\<lambda>_ k'. vm_ok k' \<and> pc (cpu k') = 4096 \<and> resident k' 0 1)
      (andthen (on_cpu cpu_clearTrap) (handle_trap demo_env (trap (cpu k1)))) k1"
proof -
  let ?k1 = "two_processes\<lparr>cpu := page_fault ((cpu two_processes)\<lparr>trap := no_trap\<rparr>) 4096\<rparr>"
  have "fetchable (cpu two_processes) = None"
    by (rule nothing_to_fetch [OF two_processes_calm(3)]) (simp add: two_processes_empty)
  then have s: "on_cpu step two_processes = Inr ((), ?k1)"
    using first_fetch [OF two_processes_vm two_processes_calm(1,2)] by (simp add: two_processes_calm)
  have "trap (cpu ?k1) = \<lparr>trap_type = PageFaultTrap, trap_value = 4096\<rparr>"
    by (simp add: page_fault_def)
  moreover have "source_of ?k1 0 4096 = Some (FromImage code_segment)"
    by (rule first_page_source)
  ultimately have "post only_swap_full (\<lambda>_ k'. vm_ok k' \<and> regs (cpu k') = regs (cpu two_processes) \<and>
      pc (cpu k') = pc (cpu two_processes) \<and> resident k' 0 (drop_bit 12 4096))
      (andthen (on_cpu cpu_clearTrap) (handle_trap demo_env (trap (cpu ?k1)))) ?k1"
    by (rule_tac fault_is_transparent [OF two_processes_vm two_processes_calm(1,2) two_processes_threads
        two_processes_current two_processes_calm(3) _ s]) (simp_all add: two_processes_length)
  then have "post only_swap_full (\<lambda>_ k'. vm_ok k' \<and> pc (cpu k') = 4096 \<and> resident k' 0 1)
      (andthen (on_cpu cpu_clearTrap) (handle_trap demo_env (trap (cpu ?k1)))) ?k1"
    by (rule post_mono) (simp_all add: two_processes_calm)
  then show ?thesis
    using s by blast
qed

text \<open>Processes are isolated from each other: whatever instruction the running process executes,
  the bookkeeping stays intact, the pages of every other process keep their contents, in the swap
  area entirely and in memory from the fourth byte on, the first three being within reach of a store
  that runs over the end of the frame before.\<close>

theorem processes_are_isolated:
  assumes "vm_ok k" "calm k" "vmEnabled (mmu (cpu k))" "currentTable (mmu (cpu k)) = Some p"
    and "on_cpu step k = Inr ((), k')"
  shows "vm_ok k' \<and> calm k' \<and> (\<forall>q u bs. q \<noteq> p \<longrightarrow> page_data k q u = Some bs \<longrightarrow>
     (\<exists>bs'. page_data k' q u = Some bs' \<and> nearly_same bs bs' \<and> (\<not> resident k q u \<longrightarrow> bs' = bs)))"
  using instruction_keeps [OF assms] .

theorem processes_are_isolated_witness:
  "\<exists>(k :: unit Kernel) k' bs'. currentTable (mmu (cpu k)) = Some 0 \<and> on_cpu step k = Inr ((), k') \<and>
    page_data k 1 0x1000 = Some (replicate PAGE 7) \<and> page_data k' 1 0x1000 = Some bs' \<and>
    nearly_same (replicate PAGE 7) bs' \<and> vm_ok k'"
proof -
  obtain k :: "unit Kernel" where k: "vm_ok k" "calm k" "vmEnabled (mmu (cpu k))" "currentTable (mmu (cpu k)) = Some 0"
    "page_data k 1 0x1000 = Some (replicate PAGE 7)" "fetchable (cpu k) = None"
    using neighbour_kernel by blast
  note s = first_fetch [OF k(1-3,6)]
  then show ?thesis
    using processes_are_isolated [OF k(1-4) s] k(4,5) by (metis one_neq_zero)
qed

section \<open>Processor time\<close>

text \<open>C21: The scheduler is fair: a thread that is ready runs after at most as many preemptions as there
  are threads on the list.\<close>

theorem every_ready_thread_runs:
  assumes "sched_ok k" "j < length (activeThreads k)" "t_state (at k j) = READY" "int j \<noteq> currentThreadIndex k"
  shows "\<exists>m k'. m \<le> length (activeThreads k) \<and> preempts m k = Inr ((), k') \<and>
    currentThreadIndex k' = int j \<and> t_state (at k' j) = RUNNING"
  using fair [OF assms] .

theorem every_ready_thread_runs_witness:
  "\<exists>m k'. m \<le> 3 \<and> preempts m two_processes = Inr ((), k') \<and> currentThreadIndex k' = 2 \<and> t_state (at k' 2) = RUNNING"
proof -
  have "2 < length (activeThreads two_processes)" "t_state (at two_processes 2) = READY"
    "int 2 \<noteq> currentThreadIndex two_processes" "length (activeThreads two_processes) = 3"
    by (simp_all add: two_processes_def at_def thread_at_def)
  then show ?thesis
    using every_ready_thread_runs [OF two_processes_sched(1), of 2] by simp
qed

text \<open>C14: Preemption never loses a thread's context: however often the scheduler preempts from a well formed
  state, it returns, the list of threads is the same, every thread of it that has not ended has the registers
  and the program counter it had, in the processor while it is the current thread and in its record while it
  is not, no other thread than the current one is running, and the page table in force is that of the current
  thread's process.\<close>

theorem preemptions_keep_contexts:
  assumes "sched_ok k" "one_running k" "table_in_force k"
  shows "\<exists>k'. preempts n k = Inr ((), k') \<and> sched_ok k' \<and> one_running k' \<and> table_in_force k' \<and>
    activeThreads k' = activeThreads k \<and>
    (\<forall>m < length (activeThreads k). t_state (at k m) \<noteq> TERMINATED \<longrightarrow>
       t_state (at k' m) \<noteq> TERMINATED \<and> live_context k' m = live_context k m)"
  using preempts_keep [OF assms] .

theorem preemptions_keep_contexts_witness:
  "\<exists>k'. preempts 5 two_processes = Inr ((), k') \<and> one_running k' \<and> table_in_force k' \<and>
    live_context k' 0 = live_context two_processes 0 \<and> live_context k' 2 = live_context two_processes 2"
proof -
  have "length (activeThreads two_processes) = 3" "t_state (at two_processes 0) = RUNNING" "t_state (at two_processes 2) = READY"
    by (simp_all add: two_processes_def at_def thread_at_def)
  then show ?thesis
    using preemptions_keep_contexts [OF two_processes_sched, of 5] by auto
qed

text \<open>A context switch away from a thread and back to it is invisible to it: registers and program
  counter are restored.\<close>

theorem switch_and_back:
  assumes "sched_ok k" "i < length (activeThreads k)" "j < length (activeThreads k)"
    and "currentThreadIndex k = int i" "i \<noteq> j" "t_state (at k i) \<noteq> TERMINATED"
  shows "\<exists>k'. andthen (contextSwitch (int j)) (contextSwitch (int i)) k = Inr ((), k') \<and>
    regs (cpu k') = regs (cpu k) \<and> pc (cpu k') = pc (cpu k)"
  using switch_back [OF assms] .

theorem switch_and_back_witness:
  "\<exists>k'. andthen (contextSwitch (int 2)) (contextSwitch (int 0)) two_processes = Inr ((), k') \<and>
    regs (cpu k') = regs reset_machine \<and> pc (cpu k') = 4096"
proof -
  have "0 < length (activeThreads two_processes)" "2 < length (activeThreads two_processes)"
    "currentThreadIndex two_processes = int 0" "t_state (at two_processes 0) \<noteq> TERMINATED"
    "regs (cpu two_processes) = regs reset_machine" "pc (cpu two_processes) = 4096"
    by (simp_all add: two_processes_def at_def thread_at_def reset_machine_def)
  then show ?thesis
    using switch_and_back [OF two_processes_sched(1), of 0 2] by simp
qed

end
