(* ===== verification/Locks.thy ===== *)
theory Locks
  imports Processes
begin

text \<open>
  Mutual exclusion.  The locale states what user threads rely on (a lock held is not granted
  again before its holder releases it, a release wakes everyone who waits); the mutexes of
  \<^verbatim>\<open>sync/Mutex.cpp\<close> meet it, each mutex of each process being a lock of its own.
\<close>

section \<open>The contract of a lock\<close>

datatype 't lock_op = Acquire 't | Release 't

locale lock =
  fixes acquire :: "'t \<Rightarrow> ('s, bool) prog"
    and release :: "'t \<Rightarrow> ('s, bool) prog"
    and holder :: "'s \<Rightarrow> 't option"
    and waiting :: "'s \<Rightarrow> 't set"
    and awake :: "'s \<Rightarrow> 't \<Rightarrow> bool"
    and known :: "'s \<Rightarrow> 't set"
    and lok :: "'s \<Rightarrow> bool"
  assumes grant: "lok s \<Longrightarrow> t \<in> known s \<Longrightarrow> holder s = None \<Longrightarrow>
      \<exists>s'. acquire t s = Inr (True, s') \<and> lok s' \<and> known s' = known s \<and> holder s' = Some t \<and> waiting s' = waiting s"
    and refuse: "lok s \<Longrightarrow> t \<in> known s \<Longrightarrow> holder s \<noteq> None \<Longrightarrow>
      \<exists>s'. acquire t s = Inr (False, s') \<and> lok s' \<and> known s' = known s \<and> holder s' = holder s \<and>
        waiting s' = insert t (waiting s) \<and> \<not> awake s' t"
    and release_own: "lok s \<Longrightarrow> holder s = Some t \<Longrightarrow>
      \<exists>s'. release t s = Inr (True, s') \<and> lok s' \<and> known s' = known s \<and> holder s' = None \<and> waiting s' = {} \<and>
        (\<forall>u \<in> waiting s. awake s' u)"
    and release_other: "lok s \<Longrightarrow> holder s \<noteq> Some t \<Longrightarrow> release t s = Inr (False, s)"
begin

fun run_lock :: "'t lock_op \<Rightarrow> ('s, bool) prog" where
  "run_lock (Acquire t) = acquire t"
| "run_lock (Release t) = release t"

fun granted_in :: "'t lock_op list \<Rightarrow> ('s, 't list) prog" where
  "granted_in [] = ret []"
| "granted_in (x # xs) =
     bind (run_lock x) (\<lambda>b. bind (granted_in xs) (\<lambda>ts.
       ret (case x of Acquire t \<Rightarrow> if b then t # ts else ts | Release t \<Rightarrow> ts)))"

fun op_known :: "'s \<Rightarrow> 't lock_op \<Rightarrow> bool" where
  "op_known s (Acquire t) = (t \<in> known s)"
| "op_known s (Release t) = True"

text \<open>While the holder does not release it, the lock is granted to nobody.\<close>

lemma exclusion:
  assumes "lok s" "holder s = Some t" "\<forall>x \<in> set xs. op_known s x \<and> x \<noteq> Release t"
  shows "\<exists>s'. granted_in xs s = Inr ([], s') \<and> lok s' \<and> holder s' = Some t"
  using assms
proof (induction xs arbitrary: s)
  case Nil
  then show ?case by (simp add: ret_run)
next
  case (Cons x xs)
  obtain s1 where s1: "run_lock x s = Inr (False, s1)" "lok s1" "holder s1 = Some t" "known s1 = known s"
  proof (cases x)
    case (Acquire u)
    then show ?thesis
      using refuse [of s u] Cons.prems that by auto
  next
    case (Release u)
    then show ?thesis
      using release_other [of s u] Cons.prems that by auto
  qed
  have "op_known s1 y = op_known s y" for y
    using s1(4) by (cases y) simp_all
  then show ?case
    using Cons.IH [OF s1(2,3)] Cons.prems s1(1) by (auto simp: bind_run ret_run split: lock_op.split)
qed

text \<open>From an acquisition on.\<close>

lemma exclusive_after:
  assumes "lok s" "t \<in> known s" "holder s = None" "\<forall>x \<in> set xs. op_known s x \<and> x \<noteq> Release t"
  shows "\<exists>s'. granted_in (Acquire t # xs) s = Inr ([t], s') \<and> holder s' = Some t"
proof -
  obtain s1 where s1: "acquire t s = Inr (True, s1)" "lok s1" "holder s1 = Some t" "known s1 = known s"
    using grant [OF assms(1-3)] by blast
  have "op_known s1 y = op_known s y" for y
    using s1(4) by (cases y) simp_all
  then show ?thesis
    using exclusion [OF s1(2,3), of xs] assms(4) s1(1) by (auto simp: bind_run ret_run)
qed

text \<open>A thread that had to wait is awake once the holder has released the lock, and may take it.\<close>

lemma handover:
  assumes "lok s" "holder s = Some t" "u \<in> waiting s" "u \<in> known s"
  shows "\<exists>s' s''. release t s = Inr (True, s') \<and> awake s' u \<and> acquire u s' = Inr (True, s'') \<and> holder s'' = Some u"
proof -
  obtain s' where "release t s = Inr (True, s')" "lok s'" "known s' = known s" "holder s' = None" "\<forall>v \<in> waiting s. awake s' v"
    using release_own [OF assms(1,2)] by blast
  then show ?thesis
    using grant [of s' u] assms(3,4) by auto
qed

end

section \<open>The mutexes of a process\<close>

definition mutex_at :: "nat \<Rightarrow> nat \<Rightarrow> 'w Kernel \<Rightarrow> Mutex" where
  "mutex_at p m k = mutexList (processList k ! p) ! m"

definition mutex_ok :: "nat \<Rightarrow> nat \<Rightarrow> 'w Kernel \<Rightarrow> bool" where
  "mutex_ok p m k \<longleftrightarrow>
     p < length (processList k) \<and> m < length (mutexList (processList k ! p)) \<and>
     (locked (mutex_at p m k) \<longleftrightarrow> mx_owner (mutex_at p m k) \<noteq> None) \<and>
     (\<forall>t \<in> set (waitQueue (mutex_at p m k)). t < length (allThreads k))"

lemma the_mutex_run: "mutex_ok p m k \<Longrightarrow> the_mutex p m k = Inr (mutex_at p m k, k)"
  by (simp add: the_mutex_def mutex_ok_def mutex_at_def bind_run the_process_def)

definition put_mutex :: "nat \<Rightarrow> nat \<Rightarrow> Mutex \<Rightarrow> 'w Kernel \<Rightarrow> 'w Kernel" where
  "put_mutex p m x k =
     k\<lparr>processList := (processList k)[p := (processList k ! p)\<lparr>mutexList := (mutexList (processList k ! p))[m := x]\<rparr>]\<rparr>"

lemma set_mutex_run: "p < length (processList k) \<Longrightarrow> set_mutex p m x k = Inr ((), put_mutex p m x k)"
  by (simp add: set_mutex_def upd_process_def put_mutex_def)

lemma mutex_at_put:
  "p < length (processList k) \<Longrightarrow> m < length (mutexList (processList k ! p)) \<Longrightarrow> mutex_at p m (put_mutex p m x k) = x"
  by (simp add: mutex_at_def put_mutex_def)

lemma put_mutex_simps [simp]:
  "allThreads (put_mutex p m x k) = allThreads k" "length (processList (put_mutex p m x k)) = length (processList k)"
  "p < length (processList k) \<Longrightarrow> length (mutexList (processList (put_mutex p m x k) ! p)) = length (mutexList (processList k ! p))"
  by (simp_all add: put_mutex_def)

definition with_state :: "nat \<Rightarrow> ThreadState \<Rightarrow> 'w Kernel \<Rightarrow> 'w Kernel" where
  "with_state i s k = k\<lparr>allThreads := (allThreads k)[i := (allThreads k ! i)\<lparr>t_state := s\<rparr>]\<rparr>"

lemma setState_run: "i < length (allThreads k) \<Longrightarrow> setState i s k = Inr ((), with_state i s k)"
  by (simp add: setState_def upd_thread_def with_state_def)

lemma with_state_simps [simp]:
  "processList (with_state i s k) = processList k" "mutex_at p m (with_state i s k) = mutex_at p m k"
  "length (allThreads (with_state i s k)) = length (allThreads k)"
  by (simp_all add: with_state_def mutex_at_def)

lemma wake_all:
  assumes "\<forall>i \<in> set is. i < length (allThreads k)"
  shows "\<exists>k'. for_each is (\<lambda>t. setState t s) k = Inr ((), k') \<and> k' = k\<lparr>allThreads := allThreads k'\<rparr> \<and>
    length (allThreads k') = length (allThreads k) \<and>
    (\<forall>j < length (allThreads k). allThreads k' ! j = (if j \<in> set is then (allThreads k ! j)\<lparr>t_state := s\<rparr> else allThreads k ! j))"
  using assms
proof (induction "is" arbitrary: k)
  case Nil
  then show ?case by (simp add: for_each_Nil ret_run)
next
  case (Cons i xs)
  let ?k = "with_state i s k"
  obtain k' where k': "for_each xs (\<lambda>t. setState t s) ?k = Inr ((), k')" "k' = ?k\<lparr>allThreads := allThreads k'\<rparr>"
    "length (allThreads k') = length (allThreads k)"
    "\<forall>j < length (allThreads k). allThreads k' ! j = (if j \<in> set xs then (allThreads ?k ! j)\<lparr>t_state := s\<rparr> else allThreads ?k ! j)"
    using Cons.IH [of ?k] Cons.prems by auto
  have "for_each (i # xs) (\<lambda>t. setState t s) k = Inr ((), k')"
    using Cons.prems k'(1) by (simp add: for_each_Cons andthen_run setState_run)
  moreover have "k' = k\<lparr>allThreads := allThreads k'\<rparr>"
    by (subst k'(2)) (simp add: with_state_def)
  ultimately show ?case
    using k'(3,4) Cons.prems by (auto simp: with_state_def nth_list_update)
qed

lemma put_put: "p < length (processList k) \<Longrightarrow> put_mutex p m x (put_mutex p m y k) = put_mutex p m x k"
  by (simp add: put_mutex_def)

lemma mutex_release_run:
  assumes "mutex_ok p m k" "mx_owner (mutex_at p m k) = Some t"
  shows "\<exists>k'. Mutex_release p m t k = Inr (True, k') \<and> mutex_ok p m k' \<and> mutex_at p m k' = Mutex_new \<and>
    length (allThreads k') = length (allThreads k) \<and>
    (\<forall>j < length (allThreads k). allThreads k' ! j =
       (if j \<in> set (waitQueue (mutex_at p m k)) then (allThreads k ! j)\<lparr>t_state := READY\<rparr> else allThreads k ! j))"
proof -
  let ?x = "mutex_at p m k"
  have p: "p < length (processList k)" "m < length (mutexList (processList k ! p))"
    "\<forall>t \<in> set (waitQueue ?x). t < length (allThreads k)"
    using assms(1) by (simp_all add: mutex_ok_def)
  have new: "?x\<lparr>locked := False, mx_owner := None, waitQueue := []\<rparr> = Mutex_new"
    by (simp add: Mutex_new_def)
  show ?thesis
  proof (cases "waitQueue ?x = []")
    case True
    let ?k = "put_mutex p m (?x\<lparr>mx_owner := None, locked := False\<rparr>) k"
    have "Mutex_release p m t k = Inr (True, ?k)"
      using assms p True by (simp add: Mutex_release_def bind_run the_mutex_run andthen_run set_mutex_run ret_run)
    moreover have "mutex_at p m ?k = Mutex_new"
      using p True by (simp add: mutex_at_put Mutex_new_def)
    ultimately show ?thesis
      using p True by (intro exI [of _ ?k]) (simp add: mutex_ok_def Mutex_new_def)
  next
    case False
    let ?k1 = "put_mutex p m (?x\<lparr>locked := False, mx_owner := None\<rparr>) k"
    obtain k2 where k2: "for_each (waitQueue ?x) (\<lambda>t. setState t READY) ?k1 = Inr ((), k2)"
      "k2 = ?k1\<lparr>allThreads := allThreads k2\<rparr>" "length (allThreads k2) = length (allThreads k)"
      "\<forall>j < length (allThreads k). allThreads k2 ! j =
         (if j \<in> set (waitQueue ?x) then (allThreads k ! j)\<lparr>t_state := READY\<rparr> else allThreads k ! j)"
      using wake_all [of "waitQueue ?x" ?k1 READY] p by auto
    have pl: "processList k2 = processList ?k1"
      by (subst k2(2)) simp
    let ?k3 = "put_mutex p m Mutex_new k2"
    have "Mutex_release p m t k = Inr (True, ?k3)"
      using assms p False k2(1) pl new
      by (simp add: Mutex_release_def bind_run the_mutex_run andthen_run set_mutex_run ret_run)
    moreover have "mutex_at p m ?k3 = Mutex_new"
      using p pl by (simp add: mutex_at_put)
    ultimately show ?thesis
      using p pl k2(3,4) by (intro exI [of _ ?k3]) (simp add: mutex_ok_def Mutex_new_def)
  qed
qed

lemma mutex_acquire_free:
  assumes "mutex_ok p m k" "mx_owner (mutex_at p m k) = None"
  shows "\<exists>k'. Mutex_acquire p m t k = Inr (True, k') \<and> mutex_ok p m k' \<and> allThreads k' = allThreads k \<and>
    mutex_at p m k' = (mutex_at p m k)\<lparr>locked := True, mx_owner := Some t\<rparr>"
proof -
  let ?k = "put_mutex p m ((mutex_at p m k)\<lparr>locked := True, mx_owner := Some t\<rparr>) k"
  have p: "p < length (processList k)" "m < length (mutexList (processList k ! p))" "\<not> locked (mutex_at p m k)"
    using assms by (simp_all add: mutex_ok_def)
  then have "Mutex_acquire p m t k = Inr (True, ?k)"
    using assms by (simp add: Mutex_acquire_def bind_run the_mutex_run andthen_run set_mutex_run ret_run)
  then show ?thesis
    using assms p by (intro exI [of _ ?k]) (simp add: mutex_ok_def mutex_at_put)
qed

lemma mutex_acquire_taken:
  assumes "mutex_ok p m k" "mx_owner (mutex_at p m k) \<noteq> None" "t < length (allThreads k)"
  shows "Mutex_acquire p m t k = Inr (False,
      put_mutex p m ((mutex_at p m k)\<lparr>waitQueue := waitQueue (mutex_at p m k) @ [t]\<rparr>) (with_state t BLOCKED k))"
  using assms
  by (simp add: Mutex_acquire_def bind_run the_mutex_run andthen_run set_mutex_run setState_run ret_run mutex_ok_def)

definition awake_in :: "'w Kernel \<Rightarrow> nat \<Rightarrow> bool" where
  "awake_in k t \<longleftrightarrow> t_state (allThreads k ! t) \<noteq> BLOCKED"

interpretation mutex: lock "Mutex_acquire p m" "Mutex_release p m" "\<lambda>k. mx_owner (mutex_at p m k)"
  "\<lambda>k. set (waitQueue (mutex_at p m k))" awake_in "\<lambda>k. {..<length (allThreads k)}" "mutex_ok p m" for p m
proof
  fix k :: "'w Kernel" and t
  assume ok: "mutex_ok p m k"
  show "\<exists>k'. Mutex_acquire p m t k = Inr (True, k') \<and> mutex_ok p m k' \<and> {..<length (allThreads k')} = {..<length (allThreads k)} \<and>
      mx_owner (mutex_at p m k') = Some t \<and> set (waitQueue (mutex_at p m k')) = set (waitQueue (mutex_at p m k))"
    if "mx_owner (mutex_at p m k) = None"
    using mutex_acquire_free [OF ok that, of t] by auto
  show "\<exists>k'. Mutex_acquire p m t k = Inr (False, k') \<and> mutex_ok p m k' \<and> {..<length (allThreads k')} = {..<length (allThreads k)} \<and>
      mx_owner (mutex_at p m k') = mx_owner (mutex_at p m k) \<and>
      set (waitQueue (mutex_at p m k')) = insert t (set (waitQueue (mutex_at p m k))) \<and> \<not> awake_in k' t"
    if "t \<in> {..<length (allThreads k)}" "mx_owner (mutex_at p m k) \<noteq> None"
    using mutex_acquire_taken [OF ok that(2), of t] that ok
    by (auto simp: mutex_ok_def mutex_at_put awake_in_def with_state_def)
  show "\<exists>k'. Mutex_release p m t k = Inr (True, k') \<and> mutex_ok p m k' \<and> {..<length (allThreads k')} = {..<length (allThreads k)} \<and>
      mx_owner (mutex_at p m k') = None \<and> set (waitQueue (mutex_at p m k')) = {} \<and>
      (\<forall>u \<in> set (waitQueue (mutex_at p m k)). awake_in k' u)"
    if "mx_owner (mutex_at p m k) = Some t"
    using mutex_release_run [OF ok that] ok by (fastforce simp: Mutex_new_def awake_in_def mutex_ok_def)
  show "Mutex_release p m t k = Inr (False, k)" if "mx_owner (mutex_at p m k) \<noteq> Some t"
    using that by (auto simp: Mutex_release_def bind_run the_mutex_run [OF ok] ret_run)
qed

end
