(* ===== verification/Resources.thy ===== *)
theory Resources
  imports Locks PageFaults
begin

text \<open>
  What a process owns besides mutexes: its heap break, its file descriptors and the stacks of
  its threads (\<^verbatim>\<open>process/Process.cpp\<close>).
\<close>

definition put_process :: "nat \<Rightarrow> Process \<Rightarrow> 'w Kernel \<Rightarrow> 'w Kernel" where
  "put_process p pr k = k\<lparr>processList := (processList k)[p := pr]\<rparr>"

lemma upd_process_run: "p < length (processList k) \<Longrightarrow> upd_process p f k = Inr ((), put_process p (f (processList k ! p)) k)"
  by (simp add: upd_process_def put_process_def)

lemma process_at: "p < length (processList k) \<Longrightarrow> the_process p k = Inr (processList k ! p, k)"
  by (simp add: the_process_def)

lemma put_process_simps [simp]:
  "length (processList (put_process p pr k)) = length (processList k)"
  "p < length (processList k) \<Longrightarrow> processList (put_process p pr k) ! p = pr"
  "q \<noteq> p \<Longrightarrow> processList (put_process p pr k) ! q = processList k ! q"
  "allThreads (put_process p pr k) = allThreads k"
  by (simp_all add: put_process_def)

section \<open>The heap break\<close>

definition break_ok :: "Addr \<Rightarrow> bool" where
  "break_ok a \<longleftrightarrow> HEAP_START \<le> a \<and> a \<le> HEAP_MAX_LIMIT"

text \<open>The sum in mathematical integers, the increment read as signed.\<close>

definition moved_break :: "Addr \<Rightarrow> Word \<Rightarrow> int" where
  "moved_break a inc = uint a + sint inc"

lemma heap_bounds: "uint HEAP_START = 16777216" "uint HEAP_MAX_LIMIT = 33554432"
  by (simp_all add: layout_defs)

lemma break_range:
  assumes "break_ok a"
  shows "break_ok (a + inc) \<longleftrightarrow> 16777216 \<le> moved_break a inc \<and> moved_break a inc \<le> 33554432"
    "break_ok (a + inc) \<Longrightarrow> uint (a + inc) = moved_break a inc"
proof -
  have a: "16777216 \<le> uint a" "uint a \<le> 33554432"
    using assms by (simp_all add: break_ok_def word_le_def heap_bounds)
  have s: "- 2147483648 \<le> sint inc" "sint inc < 2147483648"
    using sint_greater_eq [of inc] sint_less [of inc] by simp_all
  have "uint inc = sint inc mod 2 ^ 32"
    by (simp add: uint_sint take_bit_eq_mod)
  moreover have "uint (a + inc) = (uint a + uint inc) mod 2 ^ 32"
    by (simp add: uint_word_ariths)
  ultimately have "uint (a + inc) = moved_break a inc mod 2 ^ 32"
    by (simp only: moved_break_def mod_add_right_eq)
  moreover have "moved_break a inc mod 2 ^ 32 =
      (if moved_break a inc < 0 then moved_break a inc + 2 ^ 32 else moved_break a inc)"
  proof (cases "moved_break a inc < 0")
    case True
    have "moved_break a inc mod 2 ^ 32 = (moved_break a inc + 2 ^ 32) mod 2 ^ 32"
      by simp
    also have "\<dots> = moved_break a inc + 2 ^ 32"
      using True a s by (intro mod_pos_pos_trivial) (simp_all add: moved_break_def)
    finally show ?thesis
      using True by simp
  next
    case False
    then show ?thesis
      using a s by (simp add: moved_break_def mod_pos_pos_trivial)
  qed
  ultimately have u: "uint (a + inc) = (if moved_break a inc < 0 then moved_break a inc + 2 ^ 32 else moved_break a inc)"
    by simp
  have "- 2130706432 \<le> moved_break a inc"
    using a s by (simp add: moved_break_def)
  then show "break_ok (a + inc) \<longleftrightarrow> 16777216 \<le> moved_break a inc \<and> moved_break a inc \<le> 33554432"
    by (auto simp: break_ok_def word_le_def heap_bounds u)
  then show "uint (a + inc) = moved_break a inc" if "break_ok (a + inc)"
    using that u by simp
qed

lemma sbrk_run:
  assumes "p < length (processList k)"
  shows "Process_sbrk p inc k =
    (if break_ok (programBreak (processList k ! p) + inc)
     then Inr (programBreak (processList k ! p),
        put_process p ((processList k ! p)\<lparr>programBreak := programBreak (processList k ! p) + inc\<rparr>) k)
     else Inr (0, k))"
proof -
  have "x < HEAP_START \<or> HEAP_MAX_LIMIT < x \<longleftrightarrow> \<not> break_ok x" for x
    by (auto simp: break_ok_def not_le)
  then show ?thesis
    using assms by (simp add: Process_sbrk_def bind_run process_at ret_run andthen_run upd_process_run Let_def)
qed

section \<open>File descriptors\<close>

lemma free_fd_lowest:
  "free_fd t = Some i \<longleftrightarrow> i < length t \<and> t ! i = None \<and> (\<forall>j < i. t ! j \<noteq> None)"
  by (auto simp: free_fd_def find_Some_iff)

lemma free_fd_none: "free_fd t = None \<longleftrightarrow> (\<forall>i < length t. t ! i \<noteq> None)"
  by (auto simp: free_fd_def find_None_iff)

abbreviation fds :: "nat \<Rightarrow> 'w Kernel \<Rightarrow> FileHandle option list" where
  "fds p k \<equiv> fdTable (processList k ! p)"

definition put_fd :: "nat \<Rightarrow> nat \<Rightarrow> FileHandle option \<Rightarrow> 'w Kernel \<Rightarrow> 'w Kernel" where
  "put_fd p i h k = put_process p ((processList k ! p)\<lparr>fdTable := (fds p k)[i := h]\<rparr>) k"

lemma fds_put [simp]: "p < length (processList k) \<Longrightarrow> fds p (put_fd p i h k) = (fds p k)[i := h]"
  by (simp add: put_fd_def)

lemma put_fd_length [simp]: "length (processList (put_fd p i h k)) = length (processList k)"
  by (simp add: put_fd_def)

lemma addFileHandle_run:
  assumes "p < length (processList k)"
  shows "addFileHandle p (Some h) k =
    (case free_fd (fds p k) of None \<Rightarrow> Inr (-1, k) | Some i \<Rightarrow> Inr (int i, put_fd p i (Some h) k))"
  using assms by (simp add: addFileHandle_def bind_run process_at ret_run andthen_run upd_process_run put_fd_def
      split: option.split)

lemma getFileHandle_run:
  assumes "p < length (processList k)"
  shows "getFileHandle p fd k =
    Inr (if 0 \<le> fd \<and> nat fd < length (fds p k) then fds p k ! nat fd else None, k)"
  using assms by (auto simp: getFileHandle_def bind_run process_at ret_run)

lemma closeFileHandle_run:
  assumes "p < length (processList k)"
  shows "closeFileHandle p fd k =
    (if 0 \<le> fd \<and> nat fd < length (fds p k) \<and> fds p k ! nat fd \<noteq> None then Inr (True, put_fd p (nat fd) None k)
     else Inr (False, k))"
  using assms by (auto simp: closeFileHandle_def bind_run process_at ret_run andthen_run upd_process_run put_fd_def)

text \<open>A descriptor from opening to closing.\<close>

lemma fd_life:
  assumes p: "p < length (processList k)" and i: "free_fd (fds p k) = Some i"
  shows "\<exists>k1. addFileHandle p (Some h) k = Inr (int i, k1) \<and> getFileHandle p (int i) k1 = Inr (Some h, k1) \<and>
    (\<forall>j. j \<noteq> int i \<longrightarrow> fst (projr (getFileHandle p j k1)) = fst (projr (getFileHandle p j k))) \<and>
    (\<exists>k2. closeFileHandle p (int i) k1 = Inr (True, k2) \<and> fds p k2 = fds p k \<and>
       closeFileHandle p (int i) k2 = Inr (False, k2) \<and> free_fd (fds p k2) = Some i)"
proof -
  have f: "i < length (fds p k)" "fds p k ! i = None"
    using i by (simp_all add: free_fd_lowest)
  let ?k1 = "put_fd p i (Some h) k"
  let ?k2 = "put_fd p i None ?k1"
  have same: "fds p ?k2 = fds p k"
    using p f by (simp add: list_update_same_conv)
  have "getFileHandle p (int i) ?k1 = Inr (Some h, ?k1)"
    using p f by (simp add: getFileHandle_run)
  moreover have "fst (projr (getFileHandle p j ?k1)) = fst (projr (getFileHandle p j k))" if "j \<noteq> int i" for j
    using p that by (auto simp: getFileHandle_run nth_list_update)
  moreover have "closeFileHandle p (int i) ?k1 = Inr (True, ?k2)"
    using p f by (simp add: closeFileHandle_run)
  moreover have "closeFileHandle p (int i) ?k2 = Inr (False, ?k2)"
    using p f same by (simp add: closeFileHandle_run)
  ultimately show ?thesis
    using addFileHandle_run [OF p, of h] i same by (intro exI [of _ ?k1] conjI exI [of _ ?k2]) simp_all
qed

section \<open>Stacks\<close>

text \<open>The plan of the stacks: the main thread's at the top of the address space, the others
  below it, a guard page under each.\<close>

definition stack_extent :: "nat \<Rightarrow> nat" where
  "stack_extent i = (if i = 0 then unat MAIN_STACK_SIZE else unat THREAD_STACK_SIZE)"

definition stack_base :: "nat \<Rightarrow> nat" where
  "stack_base i = (if i = 0 then unat STACK_TOP
     else unat STACK_TOP - (unat MAIN_STACK_SIZE + 4096) - (i - 1) * (unat THREAD_STACK_SIZE + 4096))"

lemma stack_numbers: "unat STACK_TOP = 67108864" "unat MAIN_STACK_SIZE = 16777216" "unat THREAD_STACK_SIZE = 4190208"
  "unat STACK_REGION_BOTTOM = 33554432" "unat GUARD_PAGE_SIZE = 4096"
  by (simp_all add: layout_defs)

lemma stack_base_simps: "stack_base 0 = 67108864" "0 < i \<Longrightarrow> stack_base i = 50327552 - (i - 1) * 4194304"
  by (simp_all add: stack_base_def stack_numbers)

lemma stack_base_Suc: "i < 5 \<Longrightarrow> stack_base (Suc i) + (stack_extent i + 4096) = stack_base i"
  by (cases i) (auto simp: stack_base_simps stack_extent_def stack_numbers)

lemma stack_in_region:
  assumes "i < 5"
  shows "33554432 + stack_extent i \<le> stack_base i" "stack_base i \<le> 67108864"
  using assms by (cases i; simp add: stack_base_simps stack_extent_def stack_numbers)+

lemma stacks_below:
  assumes "i < j" "j < 5"
  shows "stack_base j + (stack_extent i + 4096) \<le> stack_base i"
  using assms
proof (induction j)
  case (Suc j)
  show ?case
  proof (cases "i = j")
    case True
    then show ?thesis using stack_base_Suc [of j] Suc.prems by simp
  next
    case False
    then have "stack_base j + (stack_extent i + 4096) \<le> stack_base i"
      using Suc by simp
    then show ?thesis
      using stack_base_Suc [of j] Suc.prems by simp
  qed
qed simp

definition stacks_ok :: "'w Kernel \<Rightarrow> nat \<Rightarrow> bool" where
  "stacks_ok k p \<longleftrightarrow>
     (let ts = threads (processList k ! p) in
      length ts \<le> MAX_THREADS \<and> distinct ts \<and>
      unat (nextStackBase (processList k ! p)) = stack_base (length ts) \<and>
      (\<forall>i < length ts. ts ! i < length (allThreads k) \<and> tid (allThreads k ! (ts ! i)) = int i \<and>
         parent (allThreads k ! (ts ! i)) = p \<and> unat (stackTop (allThreads k ! (ts ! i))) = stack_base i))"

definition started :: "nat \<Rightarrow> Addr \<Rightarrow> Word \<Rightarrow> 'w Kernel \<Rightarrow> Thread" where
  "started p entry arg k =
     \<lparr>joiner = None, hasBeenJoined = False, tid = int (length (threads (processList k ! p))), exitCode = 0,
      t_state = NEW, t_pc = entry, t_regs = RegFile_new[2 := nextStackBase (processList k ! p), 10 := arg],
      parent = p, stackTop = nextStackBase (processList k ! p)\<rparr>"

lemma Thread_new_run:
  "Thread_new i p entry sp k = Inr (\<lparr>joiner = None, hasBeenJoined = False, tid = i, exitCode = 0, t_state = NEW,
     t_pc = entry, t_regs = RegFile_new[2 := sp], parent = p, stackTop = sp\<rparr>, k)"
  by (simp add: Thread_new_def rf_ok_reset RegFile_write_def RegFile_new_def require_run vec_set_def andthen_run)

lemma createThread_run:
  assumes p: "p < length (processList k)"
  shows "createThread p entry arg k =
    (let pr = processList k ! p; i = length (allThreads k) in
     if MAX_THREADS \<le> length (threads pr) \<or> \<not> executable_at (segments pr) entry then Inr (None, k)
     else Inr (Some i, put_process p (pr\<lparr>
         nextStackBase := nextStackBase pr - (if threads pr = [] then MAIN_STACK_SIZE else THREAD_STACK_SIZE) - GUARD_PAGE_SIZE,
         threads := threads pr @ [i]\<rparr>)
       (k\<lparr>allThreads := allThreads k @ [started p entry arg k]\<rparr>)))"
proof -
  let ?pr = "processList k ! p"
  let ?i = "length (allThreads k)"
  let ?n = "nextStackBase ?pr - (if threads ?pr = [] then MAIN_STACK_SIZE else THREAD_STACK_SIZE) - GUARD_PAGE_SIZE"
  let ?k1 = "put_process p (?pr\<lparr>nextStackBase := ?n\<rparr>) k"
  let ?t = "\<lparr>joiner = None, hasBeenJoined = False, tid = int (length (threads ?pr)), exitCode = 0, t_state = NEW,
     t_pc = entry, t_regs = RegFile_new[2 := nextStackBase ?pr], parent = p, stackTop = nextStackBase ?pr\<rparr>"
  let ?k2 = "?k1\<lparr>allThreads := allThreads k @ [?t]\<rparr>"
  let ?k3 = "?k1\<lparr>allThreads := allThreads k @ [started p entry arg k]\<rparr>"
  have "write_thread_reg ?i 10 arg ?k2 = Inr ((), ?k3)"
    by (simp add: write_thread_reg_def bind_run the_thread_def RegFile_write_def RegFile_new_def require_run vec_set_def
        andthen_run upd_thread_def started_def)
  moreover have "upd_process p (\<lambda>pr. pr\<lparr>threads := threads ?pr @ [?i]\<rparr>) ?k3 =
      Inr ((), put_process p (?pr\<lparr>nextStackBase := ?n, threads := threads ?pr @ [?i]\<rparr>)
        (k\<lparr>allThreads := allThreads k @ [started p entry arg k]\<rparr>))"
    using p by (simp add: upd_process_def put_process_def)
  moreover have "threads (processList ?k3 ! p) = threads ?pr"
    using p by (simp add: put_process_def)
  ultimately show ?thesis
    using p unfolding createThread_def Let_def
    by (simp add: bind_run process_at ret_run andthen_run upd_process_run Thread_new_run gets_run modify_run
        cong: if_cong)
qed

lemma next_base:
  assumes "unat b = stack_base i" "i < 5"
  shows "unat (b - (if i = 0 then MAIN_STACK_SIZE else THREAD_STACK_SIZE) - GUARD_PAGE_SIZE) = stack_base (Suc i)"
proof -
  let ?s = "if i = 0 then MAIN_STACK_SIZE else THREAD_STACK_SIZE"
  have s: "unat ?s = stack_extent i" "stack_base (Suc i) + (stack_extent i + 4096) = stack_base i"
    using stack_base_Suc [OF assms(2)] by (simp_all add: stack_extent_def)
  then have "?s \<le> b"
    using assms(1) by (simp add: word_le_nat_alt)
  then have "unat (b - ?s) = stack_base i - stack_extent i"
    using s(1) assms(1) by (simp add: unat_sub)
  moreover have "GUARD_PAGE_SIZE \<le> b - ?s"
    using calculation s(2) by (simp add: word_le_nat_alt stack_numbers)
  ultimately show ?thesis
    using s(2) by (simp add: unat_sub stack_numbers)
qed

lemma createThread_stacks:
  assumes ok: "stacks_ok k p" "p < length (processList k)" and c: "createThread p entry arg k = Inr (r, k')"
  shows "stacks_ok k' p \<and> (r = None \<longrightarrow> k' = k) \<and>
    (\<forall>i. r = Some i \<longrightarrow> threads (processList k' ! p) = threads (processList k ! p) @ [i])"
proof -
  let ?pr = "processList k ! p"
  show ?thesis
  proof (cases "MAX_THREADS \<le> length (threads ?pr) \<or> \<not> executable_at (segments ?pr) entry")
    case True
    then show ?thesis
      using createThread_run [OF ok(2), of entry arg] c ok(1) by (simp add: Let_def)
  next
    case False
    let ?i = "length (allThreads k)"
    let ?n = "nextStackBase ?pr - (if threads ?pr = [] then MAIN_STACK_SIZE else THREAD_STACK_SIZE) - GUARD_PAGE_SIZE"
    have r: "r = Some ?i" and k': "k' = put_process p (?pr\<lparr>nextStackBase := ?n, threads := threads ?pr @ [?i]\<rparr>)
        (k\<lparr>allThreads := allThreads k @ [started p entry arg k]\<rparr>)"
      using createThread_run [OF ok(2), of entry arg] c False by (simp_all add: Let_def)
    have o: "distinct (threads ?pr)" "unat (nextStackBase ?pr) = stack_base (length (threads ?pr))"
      "\<And>i. i < length (threads ?pr) \<Longrightarrow> threads ?pr ! i < ?i \<and> tid (allThreads k ! (threads ?pr ! i)) = int i \<and>
         parent (allThreads k ! (threads ?pr ! i)) = p \<and> unat (stackTop (allThreads k ! (threads ?pr ! i))) = stack_base i"
      using ok(1) by (simp_all add: stacks_ok_def Let_def)
    have l: "length (threads ?pr) < 5"
      using False by (simp add: MAX_THREADS_def)
    have n: "unat ?n = stack_base (Suc (length (threads ?pr)))"
      using next_base [OF o(2) l] by simp
    have "?i \<notin> set (threads ?pr)"
      using o(3) by (metis in_set_conv_nth less_irrefl)
    then have "stacks_ok k' p"
      using ok(2) o n l by (auto simp: stacks_ok_def Let_def k' MAX_THREADS_def nth_append started_def less_Suc_eq)
    then show ?thesis
      using r k' ok(2) by simp
  qed
qed

text \<open>The addresses of a stack, as numbers.\<close>

lemma in_stack_iff:
  assumes ok: "stacks_ok k p" and i: "i < length (threads (processList k ! p))"
  shows "in_stack (allThreads k ! (threads (processList k ! p) ! i)) addr \<longleftrightarrow>
    stack_base i \<le> unat addr + stack_extent i \<and> unat addr < stack_base i"
proof -
  let ?t = "allThreads k ! (threads (processList k ! p) ! i)"
  have t: "tid ?t = int i" "unat (stackTop ?t) = stack_base i" "i < 5"
    using ok i by (auto simp: stacks_ok_def Let_def MAX_THREADS_def)
  then have s: "unat (stack_size ?t) = stack_extent i" "stack_extent i \<le> stack_base i"
    using stack_in_region [of i] by (simp_all add: stack_size_def stack_extent_def)
  then have "unat (stackTop ?t - stack_size ?t) = stack_base i - stack_extent i"
    using t(2) by (simp add: unat_sub word_le_nat_alt)
  then show ?thesis
    using t(2) s(2) by (auto simp: in_stack_def word_le_nat_alt word_less_nat_alt)
qed

text \<open>The page below a stack belongs to no stack of the process.\<close>

lemma guard_is_free:
  assumes ok: "stacks_ok k p" and i: "i < length (threads (processList k ! p))"
    and a: "stack_base i - stack_extent i - 4096 \<le> unat addr" "unat addr < stack_base i - stack_extent i"
  shows "\<not> stack_region k p addr"
proof
  assume "stack_region k p addr"
  then obtain j where j: "j < length (threads (processList k ! p))"
    "in_stack (allThreads k ! (threads (processList k ! p) ! j)) addr"
    by (auto simp: stack_region_def in_set_conv_nth)
  have l: "i < 5" "j < 5"
    using ok i j(1) by (auto simp: stacks_ok_def Let_def MAX_THREADS_def)
  note in_j = j(2) [unfolded in_stack_iff [OF ok j(1)]]
  consider "i = j" | "i < j" | "j < i" by linarith
  then show False
  proof cases
    case 1
    show ?thesis using in_j a(2) unfolding 1 by linarith
  next
    case 2
    then show ?thesis using stacks_below [OF 2 l(2)] in_j a(1) by linarith
  next
    case 3
    then show ?thesis using stacks_below [OF 3 l(1)] in_j a by linarith
  qed
qed

lemma stacks_disjoint:
  assumes ok: "stacks_ok k p" and i: "i < length (threads (processList k ! p))" "j < length (threads (processList k ! p))"
    and a: "in_stack (allThreads k ! (threads (processList k ! p) ! i)) addr"
      "in_stack (allThreads k ! (threads (processList k ! p) ! j)) addr"
  shows "i = j"
proof (rule ccontr)
  assume "i \<noteq> j"
  then consider "i < j" | "j < i" by linarith
  moreover have l: "i < 5" "j < 5"
    using ok i by (auto simp: stacks_ok_def Let_def MAX_THREADS_def)
  ultimately show False
    using a [unfolded in_stack_iff [OF ok i(1)] in_stack_iff [OF ok i(2)]] stacks_below [of i j] stacks_below [of j i]
    by cases simp_all
qed

end
