(* ===== verification/Lifecycle.thy ===== *)
theory Lifecycle
  imports Resources Isolation
begin

text \<open>
  The life of processes and threads across components: ending a process
  (\<^verbatim>\<open>Process::terminate\<close>), reusing its slot (\<^verbatim>\<open>recycle\<close>), and the
  hand-over of exit codes to whoever waits.
\<close>

section \<open>Giving memory back\<close>

definition resident_frames :: "'w Env \<Rightarrow> PageTable \<Rightarrow> Addr list" where
  "resident_frames env t =
     map (\<lambda>v. ppn (the (t v)) * KERNEL_PAGE_SIZE)
       (filter (\<lambda>v. case t v of None \<Rightarrow> False | Some x \<Rightarrow> valid x) (table_order env t))"

definition frames_low :: "PageTable \<Rightarrow> bool" where
  "frames_low t \<longleftrightarrow> (\<forall>v x. t v = Some x \<and> valid x \<longrightarrow> unat (ppn x) < 16)"

lemma vm_frames_low: "vm_ok k \<Longrightarrow> frames_low (page_table k p)"
  using book_valid [OF vm_inv_parts(7)] owned_frame [OF vm_inv_parts(1)] unfolding frames_low_def by fastforce

lemma page_frame_number:
  assumes "unat (x :: Addr) < 16" shows "unat (drop_bit 12 (x * KERNEL_PAGE_SIZE)) = unat x"
  using frame_address(2) [OF assms] by simp

lemma wipe_loop:
  assumes "length (frameTable (pmm k)) = 16" "frames_low t"
  shows "\<exists>ft. for_each vs (\<lambda>vpn. case t vpn of None \<Rightarrow> ret ()
       | Some pte \<Rightarrow> if valid pte then let paddr = ppn pte * KERNEL_PAGE_SIZE in on_pmm (PMM_freeFrame paddr) else ret ()) k =
     Inr ((), k\<lparr>pmm := \<lparr>freeFrames = freeFrames (pmm k) @ map (\<lambda>v. ppn (the (t v)) * KERNEL_PAGE_SIZE)
       (filter (\<lambda>v. case t v of None \<Rightarrow> False | Some x \<Rightarrow> valid x) vs), frameTable = ft\<rparr>\<rparr>) \<and> length ft = 16"
  using assms(1)
proof (induction vs arbitrary: k)
  case Nil
  then show ?case
    by (intro exI [of _ "frameTable (pmm k)"]) (simp add: for_each_Nil ret_run)
next
  case (Cons v vs)
  show ?case
  proof (cases "\<exists>x. t v = Some x \<and> valid x")
    case False
    then have "(case t v of None \<Rightarrow> ret ()
       | Some pte \<Rightarrow> if valid pte then let paddr = ppn pte * KERNEL_PAGE_SIZE in on_pmm (PMM_freeFrame paddr) else ret ()) k
      = Inr ((), k)"
      by (auto simp: ret_run split: option.split)
    moreover have "filter (\<lambda>v. case t v of None \<Rightarrow> False | Some x \<Rightarrow> valid x) (v # vs) =
        filter (\<lambda>v. case t v of None \<Rightarrow> False | Some x \<Rightarrow> valid x) vs"
      using False by (auto split: option.split)
    ultimately show ?thesis
      using Cons.IH [OF Cons.prems] by (simp add: for_each_Cons)
  next
    case True
    then obtain x where x: "t v = Some x" "valid x"
      by blast
    then have f: "unat (drop_bit 12 (ppn x * KERNEL_PAGE_SIZE)) = unat (ppn x)" "unat (ppn x) < 16"
      using assms(2) page_frame_number unfolding frames_low_def by blast+
    let ?P = "\<lparr>freeFrames = freeFrames (pmm k) @ [ppn x * KERNEL_PAGE_SIZE],
      frameTable = (frameTable (pmm k))[unat (ppn x) := FrameInfo_clear (frameTable (pmm k) ! unat (ppn x))]\<rparr>"
    have "on_pmm (PMM_freeFrame (ppn x * KERNEL_PAGE_SIZE)) k = Inr ((), k\<lparr>pmm := ?P\<rparr>)"
      using Cons.prems f by (simp add: on_parts_run PMM_freeFrame_def andthen_run modify_run Let_def)
    then show ?thesis
      using Cons.IH [of "k\<lparr>pmm := ?P\<rparr>"] Cons.prems x by (simp add: for_each_Cons Let_def)
  qed
qed

lemma wipe_run:
  assumes "length (frameTable (pmm k)) = 16" "frames_low (page_table k p)"
  shows "\<exists>ft. wipeMemory env p k = Inr ((), k\<lparr>pmm :=
    \<lparr>freeFrames = freeFrames (pmm k) @ resident_frames env (page_table k p), frameTable = ft\<rparr>\<rparr>) \<and> length ft = 16"
  using wipe_loop [OF assms, of "table_order env (page_table k p)"]
  by (simp add: wipeMemory_def bind_run gets_run resident_frames_def)

section \<open>The end of a process\<close>

definition waiters :: "'w Kernel \<Rightarrow> int \<Rightarrow> nat list" where
  "waiters k pid = (case processWaiters k pid of None \<Rightarrow> [] | Some ws \<Rightarrow> ws)"

definition ends :: "nat \<Rightarrow> 'w Kernel \<Rightarrow> nat \<Rightarrow> ThreadState" where
  "ends p k j =
     (if j \<in> set (waiters k (int p)) then READY
      else if j \<in> set (threads (processList k ! p)) then TERMINATED
      else t_state (allThreads k ! j))"

lemma terminate_run:
  assumes p: "p < length (processList k)" "active (processList k ! p)"
    and m: "length (frameTable (pmm k)) = 16" "frames_low (page_table k p)"
    and ts: "\<forall>i \<in> set (threads (processList k ! p)). i < length (allThreads k)"
    and ws: "\<forall>i \<in> set (waiters k (int p)). i < length (allThreads k)"
  shows "\<exists>k'. terminate env (int p) code k = Inr (True, k') \<and>
    freeFrames (pmm k') = freeFrames (pmm k) @ resident_frames env (page_table k p) \<and>
    length (frameTable (pmm k')) = 16 \<and> page_table k' = page_table k \<and> cpu k' = cpu k \<and>
    processList k' = (processList k)[p := (processList k ! p)\<lparr>active := False\<rparr>] \<and>
    length (allThreads k') = length (allThreads k) \<and>
    (\<forall>j < length (allThreads k). allThreads k' ! j = (allThreads k ! j)\<lparr>t_state := ends p k j\<rparr>) \<and>
    exitCodes k' = (exitCodes k)(int p \<mapsto> code) \<and> processWaiters k' = (processWaiters k)(int p := None) \<and>
    activeThreads k' = activeThreads k \<and> currentThreadIndex k' = currentThreadIndex k"
proof -
  let ?pr = "processList k ! p"
  obtain ft where w: "wipeMemory env p k = Inr ((), k\<lparr>pmm :=
      \<lparr>freeFrames = freeFrames (pmm k) @ resident_frames env (page_table k p), frameTable = ft\<rparr>\<rparr>)" "length ft = 16"
    using wipe_run [OF m] by blast
  let ?k1 = "k\<lparr>pmm := \<lparr>freeFrames = freeFrames (pmm k) @ resident_frames env (page_table k p), frameTable = ft\<rparr>\<rparr>"
  obtain k2 where k2: "for_each (threads ?pr) (\<lambda>t. setState t TERMINATED) ?k1 = Inr ((), k2)" "k2 = ?k1\<lparr>allThreads := allThreads k2\<rparr>"
    "length (allThreads k2) = length (allThreads k)"
    "\<forall>j < length (allThreads k). allThreads k2 ! j =
       (if j \<in> set (threads ?pr) then (allThreads k ! j)\<lparr>t_state := TERMINATED\<rparr> else allThreads k ! j)"
    using wake_all [of "threads ?pr" ?k1 TERMINATED] ts by auto
  let ?k3 = "k2\<lparr>exitCodes := (exitCodes k)(int p \<mapsto> code)\<rparr>"
  obtain k4 where k4: "for_each (waiters k (int p)) (\<lambda>t. setState t READY) ?k3 = Inr ((), k4)" "k4 = ?k3\<lparr>allThreads := allThreads k4\<rparr>"
    "length (allThreads k4) = length (allThreads k)"
    "\<forall>j < length (allThreads k). allThreads k4 ! j =
       (if j \<in> set (waiters k (int p)) then (allThreads k2 ! j)\<lparr>t_state := READY\<rparr> else allThreads k2 ! j)"
    using wake_all [of "waiters k (int p)" ?k3 READY] ws k2(3) by auto
  have pw: "processWaiters k2 = processWaiters k" "processList k2 = processList k" "exitCodes k2 = exitCodes k"
    by (subst k2(2); simp)+
  have pw4: "processWaiters k4 = processWaiters k"
    by (subst k4(2); simp add: pw)
  have c2: "pmm k2 = pmm ?k1" "cpu k2 = cpu k" "activeThreads k2 = activeThreads k" "currentThreadIndex k2 = currentThreadIndex k"
    by (subst k2(2); simp)+
  have c4: "pmm k4 = pmm ?k1" "cpu k4 = cpu k" "exitCodes k4 = (exitCodes k)(int p \<mapsto> code)"
    "activeThreads k4 = activeThreads k" "currentThreadIndex k4 = currentThreadIndex k"
    by (subst k4(2); simp add: c2)+
  let ?k5 = "k4\<lparr>processWaiters := (processWaiters k)(int p := None)\<rparr>"
  have wake: "(case processWaiters k (int p) of None \<Rightarrow> ret ()
      | Some ws \<Rightarrow> andthen (for_each ws (\<lambda>t. setState t READY))
          (modify (\<lambda>k. k\<lparr>processWaiters := (processWaiters k)(int p := None)\<rparr>))) ?k3 = Inr ((), ?k5)"
  proof (cases "processWaiters k (int p)")
    case None
    then have "k4 = ?k3"
      using k4(1) by (simp add: waiters_def for_each_Nil ret_run)
    moreover have "?k5 = k4"
      using None pw4 by (simp add: fun_upd_idem)
    ultimately show ?thesis
      using None by (simp add: ret_run)
  next
    case (Some ws)
    then show ?thesis
      using k4(1) pw4 by (simp add: waiters_def andthen_run modify_run)
  qed
  have pl5: "processList ?k5 = processList k"
    by (simp, subst k4(2), simp add: pw)
  let ?k6 = "?k5\<lparr>stats := recordProcessStats (int p) (p_name ?pr) (instructionsExecuted ?pr) (stats ?k5)\<rparr>"
  let ?k' = "?k6\<lparr>processList := (processList k)[p := ?pr\<lparr>active := False\<rparr>]\<rparr>"
  have "terminate env (int p) code k = Inr (True, ?k')"
    using p w(1) k2(1) wake pw pl5
    by (simp add: terminate_def bind_run gets_run process_at andthen_run modify_run on_parts_run ret_run
        upd_process_def Let_def)
  moreover have "page_table ?k' = page_table k"
    by (simp add: page_table_def fun_eq_iff c4)
  moreover have "allThreads ?k' ! j = (allThreads k ! j)\<lparr>t_state := ends p k j\<rparr>" if "j < length (allThreads k)" for j
    using that k2(4) k4(4) by (simp add: ends_def)
  ultimately show ?thesis
    using w(2) k4(3) by (intro exI [of _ ?k']) (simp add: c4)
qed

section \<open>A slot used again\<close>

definition renewed :: "string \<Rightarrow> Process \<Rightarrow> Process" where
  "renewed n pr = pr\<lparr>instructionsExecuted := 0, threads := [], segments := [], mutexList := [],
     fdTable := take 3 (fdTable pr) @ replicate (length (fdTable pr) - 3) None,
     programBreak := HEAP_START, nextStackBase := STACK_TOP, p_name := n, active := True\<rparr>"

lemma recycle_run:
  assumes p: "p < length (processList k)"
    and m: "length (frameTable (pmm k)) = 16" "frames_low (page_table k p)"
  shows "\<exists>k'. recycle env p n k = Inr ((), k') \<and>
    freeFrames (pmm k') = freeFrames (pmm k) @ resident_frames env (page_table k p) \<and>
    length (frameTable (pmm k')) = 16 \<and> page_table k' = (page_table k)(p := Map.empty) \<and>
    processList k' = (processList k)[p := renewed n (processList k ! p)] \<and>
    allThreads k' = allThreads k \<and> activeThreads k' = activeThreads k \<and> exitCodes k' = exitCodes k \<and>
    processWaiters k' = processWaiters k \<and> currentThreadIndex k' = currentThreadIndex k"
proof -
  let ?pr = "processList k ! p"
  obtain ft where w: "wipeMemory env p k = Inr ((), k\<lparr>pmm :=
      \<lparr>freeFrames = freeFrames (pmm k) @ resident_frames env (page_table k p), frameTable = ft\<rparr>\<rparr>)" "length ft = 16"
    using wipe_run [OF m] by blast
  let ?k1 = "k\<lparr>pmm := \<lparr>freeFrames = freeFrames (pmm k) @ resident_frames env (page_table k p), frameTable = ft\<rparr>\<rparr>"
  let ?k2 = "put_process p (?pr\<lparr>instructionsExecuted := 0\<rparr>) ?k1"
  let ?k3 = "set_page_table p Map.empty ?k2"
  let ?k' = "put_process p (renewed n ?pr) ?k3"
  have l: "p < length (processList ?k1)" "p < length (processList ?k3)"
    using p by simp_all
  have at1: "processList ?k1 ! p = ?pr" and at3: "processList ?k3 ! p = ?pr\<lparr>instructionsExecuted := 0\<rparr>"
    using p by simp_all
  have "recycle env p n k = Inr ((), ?k')"
    using w(1) upd_process_run [OF l(1)] upd_process_run [OF l(2)] unfolding at1 at3
    by (simp add: recycle_def andthen_run modify_run renewed_def)
  moreover have "processList ?k' = (processList k)[p := renewed n ?pr]"
    by (simp add: put_process_def set_page_table_def)
  moreover have "page_table ?k' = (page_table k)(p := Map.empty)"
    by (simp add: put_process_def set_page_table_def page_table_def fun_eq_iff)
  ultimately show ?thesis
    using w(2) by (intro exI [of _ ?k']) (simp add: put_process_def set_page_table_def)
qed

text \<open>Both ends of the life release the frames, and only the second one forgets the page table.\<close>

lemma released_twice:
  assumes p: "p < length (processList k)" "active (processList k ! p)"
    and m: "length (frameTable (pmm k)) = 16" "frames_low (page_table k p)"
    and ts: "\<forall>i \<in> set (threads (processList k ! p)). i < length (allThreads k)"
    and ws: "\<forall>i \<in> set (waiters k (int p)). i < length (allThreads k)"
  shows "\<exists>k'. andthen (terminate env (int p) code) (recycle env p n) k = Inr ((), k') \<and>
    freeFrames (pmm k') = freeFrames (pmm k) @ resident_frames env (page_table k p) @ resident_frames env (page_table k p) \<and>
    active (processList k' ! p) \<and> exitCodes k' (int p) = Some code"
proof -
  obtain k1 where k1: "terminate env (int p) code k = Inr (True, k1)"
    "freeFrames (pmm k1) = freeFrames (pmm k) @ resident_frames env (page_table k p)"
    "length (frameTable (pmm k1)) = 16" "page_table k1 = page_table k"
    "processList k1 = (processList k)[p := (processList k ! p)\<lparr>active := False\<rparr>]" "exitCodes k1 = (exitCodes k)(int p \<mapsto> code)"
    using terminate_run [OF p m ts ws, of env code] by blast
  have "p < length (processList k1)" "frames_low (page_table k1 p)"
    using p(1) m(2) k1(4,5) by simp_all
  then obtain k2 where "recycle env p n k1 = Inr ((), k2)"
    "freeFrames (pmm k2) = freeFrames (pmm k1) @ resident_frames env (page_table k1 p)"
    "processList k2 = (processList k1)[p := renewed n (processList k1 ! p)]" "exitCodes k2 = exitCodes k1"
    using recycle_run [of p k1 env n] k1(3) by blast
  then show ?thesis
    using k1 p(1) by (intro exI [of _ k2]) (simp add: renewed_def)
qed

section \<open>Joining a process\<close>

lemma join_with_code:
  assumes "exitCodes k (sint (arg0 ctx)) = Some code" "arg1 ctx = 0"
  shows "handleJoinProcess ctx k = Inr (done_with 1, k\<lparr>exitCodes := (exitCodes k)(sint (arg0 ctx) := None)\<rparr>)"
  using assms by (simp add: handleJoinProcess_def bind_run gets_run andthen_run ret_run modify_run Let_def)

section \<open>Joining a thread\<close>

lemma find_tid_at:
  assumes "stacks_ok k p" "j < length (threads (processList k ! p))"
  shows "find_tid (threads (processList k ! p)) (int j) k = Inr (Some (threads (processList k ! p) ! j), k)"
proof -
  have "find_tid ts x k = Inr (Some (ts ! d), k)"
    if "d < length ts" "\<forall>i < length ts. ts ! i < length (allThreads k)"
      "tid (allThreads k ! (ts ! d)) = x" "\<forall>i < d. tid (allThreads k ! (ts ! i)) \<noteq> x" for ts x d
    using that
  proof (induction ts arbitrary: d)
    case (Cons a ts)
    have a: "a < length (allThreads k)"
      using Cons.prems(2) by auto
    show ?case
    proof (cases d)
      case 0
      then show ?thesis using Cons.prems a by (simp add: bind_run the_thread_def ret_run)
    next
      case (Suc e)
      have "tid (allThreads k ! a) \<noteq> x"
        using Cons.prems Suc by auto
      moreover have "find_tid ts x k = Inr (Some (ts ! e), k)"
        using Cons.prems Suc by (intro Cons.IH) auto
      ultimately show ?thesis
        using Suc a by (simp add: bind_run the_thread_def)
    qed
  qed simp
  then show ?thesis
    using assms by (simp add: stacks_ok_def Let_def)
qed

definition join_waits :: "nat \<Rightarrow> nat \<Rightarrow> 'w Kernel \<Rightarrow> 'w Kernel" where
  "join_waits c d k =
     k\<lparr>allThreads := (allThreads k)[d := (allThreads k ! d)\<lparr>hasBeenJoined := True, joiner := Some c\<rparr>,
       c := (allThreads k ! c)\<lparr>t_state := BLOCKED\<rparr>]\<rparr>"

lemma current_thread_run:
  assumes "sched_ok k" "currentThreadIndex k = int i" "i < length (activeThreads k)"
  shows "getCurrentThread k = Inr (activeThreads k ! i, k)" "the_thread (activeThreads k ! i) k = Inr (at k i, k)"
    "getProcess (activeThreads k ! i) k = Inr (parent (at k i), k)"
  using assms the_thread_active [OF assms(1,3)]
  by (simp_all add: getCurrentThread_def getProcess_def bind_run ret_run)

lemma join_blocks:
  assumes s: "sched_ok k" "currentThreadIndex k = int i" "i < length (activeThreads k)"
    and p: "p = parent (at k i)" "stacks_ok k p" "j < length (threads (processList k ! p))"
    and d: "d = threads (processList k ! p) ! j" "sint (arg0 ctx) = int j" "d \<noteq> activeThreads k ! i"
    and t: "tid (at k i) \<noteq> int j" "\<not> hasBeenJoined (allThreads k ! d)" "t_state (allThreads k ! d) \<noteq> TERMINATED"
  shows "handleThreadJoin ctx k = Inr (wait_result, join_waits (activeThreads k ! i) d k)"
proof -
  note c = current_thread_run [OF s]
  have pl: "p < length (processList k)"
    using sched_ok_at [OF s(1,3)] p(1) by simp
  have dt: "d < length (allThreads k)" "tid (allThreads k ! d) = int j"
    using p(2,3) d(1) by (auto simp: stacks_ok_def Let_def)
  have cl: "activeThreads k ! i < length (allThreads k)"
    using sched_ok_at [OF s(1,3)] by simp
  have f: "find_tid (threads (processList k ! p)) (int j) k = Inr (Some d, k)"
    using find_tid_at [OF p(2,3)] d(1) by simp
  show ?thesis
    using c pl f dt cl t d(2,3) unfolding p(1) [symmetric]
    by (simp add: handleThreadJoin_def bind_run process_at Let_def the_thread_def andthen_run upd_thread_def
        setState_def ret_run join_waits_def)
qed

text \<open>After a switch to the joined thread, its exit wakes the joiner with the code in its result register,
  past the system call.\<close>

lemma exit_hands_over:
  assumes s: "sched_ok k" "currentThreadIndex k = int n" "n < length (activeThreads k)"
    and d: "d = activeThreads k ! n" "joiner (allThreads k ! d) = Some c" "c < length (allThreads k)" "c \<noteq> d"
    and r: "rf_ok (t_regs (allThreads k ! c))"
  shows "\<exists>k'. handleThreadExit ctx k = Inr (wait_result, k') \<and>
    allThreads k' ! c = (allThreads k ! c)\<lparr>t_state := READY, t_regs := rf_set (t_regs (allThreads k ! c)) 10 (arg0 ctx),
      t_pc := t_pc (allThreads k ! c) + 4\<rparr> \<and>
    t_state (allThreads k' ! d) = TERMINATED \<and> exitCode (allThreads k' ! d) = arg0 ctx \<and>
    activeThreads k' = activeThreads k"
proof -
  have dl: "d < length (allThreads k)"
    using sched_ok_at [OF s(1,3)] d(1) by simp
  have l: "length (t_regs (allThreads k ! c)) = 32"
    using r by (simp add: rf_ok_def)
  have g: "getCurrentThread k = Inr (d, k)"
    using current_thread_run(1) [OF s] d(1) by simp
  show ?thesis
    using g dl d(2-4) l
    by (simp add: handleThreadExit_def Let_def bind_run andthen_run setState_def upd_thread_def the_thread_def ret_run
        write_thread_reg_def RegFile_write_def require_run vec_set_def rf_set_def)
qed

lemma join_waits_sched:
  assumes "sched_ok k" "c < length (allThreads k)" "d < length (allThreads k)"
  shows "sched_ok (join_waits c d k)"
proof -
  have "parent t < length (processList k)" if m: "t \<in> set (allThreads (join_waits c d k))" for t
  proof -
    have "t \<in> insert ((allThreads k ! c)\<lparr>t_state := BLOCKED\<rparr>)
        (insert ((allThreads k ! d)\<lparr>hasBeenJoined := True, joiner := Some c\<rparr>) (set (allThreads k)))"
      using m by (auto simp: join_waits_def dest!: set_update_subset_insert [THEN subsetD])
    then show ?thesis
      using assms by (auto simp: sched_ok_def)
  qed
  then show ?thesis
    using assms(1) by (simp add: sched_ok_def join_waits_def)
qed

lemma join_then_exit:
  assumes s: "sched_ok k" "currentThreadIndex k = int i" "i < length (activeThreads k)"
    and p: "stacks_ok k (parent (at k i))" "j < length (threads (processList k ! parent (at k i)))"
    and n: "n < length (activeThreads k)" "n \<noteq> i" "activeThreads k ! n = threads (processList k ! parent (at k i)) ! j"
    and t: "sint (arg0 ctx) = int j" "tid (at k i) \<noteq> int j" "\<not> hasBeenJoined (at k n)" "t_state (at k n) \<noteq> TERMINATED"
    and c: "rf_ok (regs (cpu k))"
  shows "\<exists>k'. andthen (handleThreadJoin ctx) (andthen (contextSwitch (int n)) (handleThreadExit ctx')) k = Inr (wait_result, k') \<and>
    t_state (at k' i) = READY \<and> t_regs (at k' i) = rf_set (regs (cpu k)) 10 (arg0 ctx') \<and>
    t_pc (at k' i) = pc (cpu k) + 4 \<and> t_state (at k' n) = TERMINATED"
proof -
  let ?c = "activeThreads k ! i"
  let ?d = "activeThreads k ! n"
  let ?k1 = "join_waits ?c ?d k"
  let ?k2 = "switched n ?k1"
  have l: "?c < length (allThreads k)" "?d < length (allThreads k)" "?c \<noteq> ?d"
    using sched_ok_at [OF s(1,3)] sched_ok_at [OF s(1) n(1)] active_distinct [OF s(1,3) n(1)] n(2) by blast+
  have join: "handleThreadJoin ctx k = Inr (wait_result, ?k1)"
    using join_blocks [OF s refl p n(3) t(1)] l(3) t(2-4) by (simp add: at_def n(3))
  have s1: "sched_ok ?k1"
    using l by (intro join_waits_sched [OF s(1)])
  have a1: "activeThreads ?k1 = activeThreads k" "cpu ?k1 = cpu k" "currentThreadIndex ?k1 = int i"
    "at ?k1 i = (at k i)\<lparr>t_state := BLOCKED\<rparr>" "at ?k1 n = (at k n)\<lparr>hasBeenJoined := True, joiner := Some ?c\<rparr>"
    using l s(2) by (simp_all add: join_waits_def at_def)
  have sw: "contextSwitch (int n) ?k1 = Inr ((), ?k2)"
    using n(1) a1(1) by (intro contextSwitch_eq [OF s1]) simp
  have s2: "sched_ok ?k2"
    using n(1) a1(1) by (intro sched_ok_switched [OF s1]) simp
  have a2: "at ?k2 i = leave (cpu k) ((at k i)\<lparr>t_state := BLOCKED\<rparr>)"
    "at ?k2 n = (at k n)\<lparr>hasBeenJoined := True, joiner := Some ?c, t_state := RUNNING\<rparr>"
    using n s(3) a1 at_switched [OF s1, of n i] at_switched [OF s1, of n n] by (simp_all add: Let_def)
  have act: "activeThreads ?k2 = activeThreads k" "length (allThreads ?k2) = length (allThreads k)"
    by (simp_all add: a1(1) join_waits_def)
  then have c2: "allThreads ?k2 ! ?c = leave (cpu k) ((at k i)\<lparr>t_state := BLOCKED\<rparr>)" "joiner (allThreads ?k2 ! ?d) = Some ?c"
    using a2 by (simp_all add: at_def)
  have r: "rf_ok (t_regs (allThreads ?k2 ! ?c))"
    using c by (simp add: c2 leave_def)
  obtain k3 where k3: "handleThreadExit ctx' ?k2 = Inr (wait_result, k3)"
    "allThreads k3 ! ?c = (allThreads ?k2 ! ?c)\<lparr>t_state := READY, t_regs := rf_set (t_regs (allThreads ?k2 ! ?c)) 10 (arg0 ctx'),
      t_pc := t_pc (allThreads ?k2 ! ?c) + 4\<rparr>" "t_state (allThreads k3 ! ?d) = TERMINATED" "activeThreads k3 = activeThreads ?k2"
    using exit_hands_over [OF s2 _ _ _ c2(2) _ l(3) r, of n ctx'] n(1) l(1) act by auto
  have "andthen (handleThreadJoin ctx) (andthen (contextSwitch (int n)) (handleThreadExit ctx')) k = Inr (wait_result, k3)"
    using join sw k3(1) by simp
  then show ?thesis
    using k3(2-4) c2(1) act(1) by (intro exI [of _ k3]) (simp add: at_def leave_def)
qed

end
