(* ===== verification/Dispatch.thy ===== *)
theory Dispatch
  imports Lifecycle
begin

text \<open>
  The kernel's entry points and the main loop: how a system call reaches the registers of its
  caller, and when the loop of \<^verbatim>\<open>RV32UMOS::start\<close> ends.
\<close>

section \<open>System calls\<close>

definition context_of :: "SyscallID \<Rightarrow> Machine \<Rightarrow> SyscallContext" where
  "context_of i c =
     \<lparr>ctx_id = i, arg0 = reg_val c 10, arg1 = reg_val c 11, arg2 = reg_val c 12, arg3 = reg_val c 13,
      arg4 = reg_val c 14, arg5 = reg_val c 15\<rparr>"

lemma read_context_run: "rf_ok (regs (cpu k)) \<Longrightarrow> read_context i k = Inr (context_of i (cpu k), k)"
  by (simp add: read_context_def bind_run on_cpu_run cpu_readReg_def zoom_run rf.read_ok ret_run context_of_def reg_val_def)

text \<open>What a result does to the caller.\<close>

definition delivered :: "SyscallResult \<Rightarrow> Machine \<Rightarrow> Machine" where
  "delivered r c =
     c\<lparr>regs := (if hasReturnValue r then rf_set (regs c) 10 (returnValue r) else regs c),
       pc := (if advancePC r then pc c + 4 else pc c)\<rparr>"

lemma handleSyscall_run:
  assumes "rf_ok (regs (cpu k))" "dispatch_syscall env (context_of i (cpu k)) k = Inr (r, l)"
    and "rf_ok (regs (cpu l))" "\<not> error r"
  shows "handleSyscall env i k = Inr ((), l\<lparr>cpu := delivered r (cpu l)\<rparr>)"
  using assms
  by (simp add: handleSyscall_def bind_run read_context_run andthen_run on_cpu_run cpu_writeReg_def zoom_run rf.write_ok
      ret_run cpu_advancePC_def modify_run delivered_def)

lemma unknown_panics:
  assumes "15 \<le> unat (ctx_id ctx)"
  shows "dispatch_syscall env ctx k = Inl (KernelPanic ''Unimplemented syscall id: '')"
proof -
  have "ctx_id ctx \<noteq> i" if "unat i < 15" for i
    using assms that by auto
  then show ?thesis
    by (simp add: dispatch_syscall_def andthen_run on_parts_run fail_run)
qed

section \<open>Locking through the system call\<close>

lemma lock_dispatch:
  "dispatch_syscall env (context_of SYS_MUTEX_LOCK c) k =
     handleMutexLock (context_of SYS_MUTEX_LOCK c) (k\<lparr>stats := incSyscalls (stats k)\<rparr>)"
  by (simp add: dispatch_syscall_def andthen_run on_parts_run context_of_def)

lemma sched_ok_stats [simp]: "sched_ok (k\<lparr>stats := st\<rparr>) = sched_ok k" "at (k\<lparr>stats := st\<rparr>) = at k"
  by (simp_all add: sched_ok_def at_def fun_eq_iff)

lemma mutex_stats [simp]: "mutex_ok p m (k\<lparr>stats := st\<rparr>) = mutex_ok p m k" "mutex_at p m (k\<lparr>stats := st\<rparr>) = mutex_at p m k"
  by (simp_all add: mutex_ok_def mutex_at_def)

lemma lock_handler:
  assumes s: "sched_ok k" "currentThreadIndex k = int i" "i < length (activeThreads k)"
    and m: "mutex_ok (parent (at k i)) m k" "sint (arg0 ctx) = int m"
  shows "handleMutexLock ctx k =
    (case Mutex_acquire (parent (at k i)) m (activeThreads k ! i) k of
       Inl e \<Rightarrow> Inl e | Inr (b, k') \<Rightarrow> Inr (if b then done_with 0 else wait_result, k'))"
proof -
  have "parent (at k i) < length (processList k)" "m < length (mutexList (processList k ! parent (at k i)))"
    using m(1) by (simp_all add: mutex_ok_def)
  then have "getMutex (parent (at k i)) (sint (arg0 ctx)) k = Inr (Some m, k)"
    using m(2) by (simp add: getMutex_def bind_run process_at ret_run)
  then show ?thesis
    using current_thread_run [OF s]
    by (simp add: handleMutexLock_def bind_run ret_run split: sum.split)
qed

lemma lock_granted:
  assumes s: "sched_ok k" "currentThreadIndex k = int i" "i < length (activeThreads k)"
    and m: "mutex_ok (parent (at k i)) m k" "sint (reg_val (cpu k) 10) = int m"
    and r: "rf_ok (regs (cpu k))" and free: "mx_owner (mutex_at (parent (at k i)) m k) = None"
  shows "\<exists>k'. handleSyscall env SYS_MUTEX_LOCK k = Inr ((), k') \<and>
    mx_owner (mutex_at (parent (at k i)) m k') = Some (activeThreads k ! i) \<and>
    regs (cpu k') = rf_set (regs (cpu k)) 10 0 \<and> pc (cpu k') = pc (cpu k) + 4 \<and> allThreads k' = allThreads k"
proof -
  let ?p = "parent (at k i)"
  let ?k = "k\<lparr>stats := incSyscalls (stats k)\<rparr>"
  let ?ctx = "context_of SYS_MUTEX_LOCK (cpu k)"
  let ?x = "(mutex_at ?p m k)\<lparr>locked := True, mx_owner := Some (activeThreads k ! i)\<rparr>"
  let ?l = "put_mutex ?p m ?x ?k"
  have p: "?p < length (processList k)" "m < length (mutexList (processList k ! ?p))" "\<not> locked (mutex_at ?p m k)"
    using m(1) free by (simp_all add: mutex_ok_def)
  then have a: "Mutex_acquire ?p m (activeThreads k ! i) ?k = Inr (True, ?l)"
    using m(1) by (simp add: Mutex_acquire_def bind_run the_mutex_run andthen_run set_mutex_run ret_run)
  have "handleMutexLock ?ctx ?k = Inr (done_with 0, ?l)"
    using lock_handler [of ?k i m ?ctx] s m a by (simp add: context_of_def)
  then have d: "dispatch_syscall env ?ctx k = Inr (done_with 0, ?l)"
    by (simp only: lock_dispatch)
  have c: "cpu ?l = cpu k"
    by (simp add: put_mutex_def)
  have "handleSyscall env SYS_MUTEX_LOCK k = Inr ((), ?l\<lparr>cpu := delivered (done_with 0) (cpu ?l)\<rparr>)"
    by (rule handleSyscall_run [OF r d]) (simp_all add: c r SyscallResult_new_def)
  moreover have "mutex_at ?p m (?l\<lparr>cpu := delivered (done_with 0) (cpu ?l)\<rparr>) = ?x"
    using p by (simp add: mutex_at_def put_mutex_def)
  ultimately show ?thesis
    by (simp add: c delivered_def SyscallResult_new_def)
qed

lemma lock_refused:
  assumes s: "sched_ok k" "currentThreadIndex k = int i" "i < length (activeThreads k)"
    and m: "mutex_ok (parent (at k i)) m k" "sint (reg_val (cpu k) 10) = int m"
    and r: "rf_ok (regs (cpu k))" and taken: "mx_owner (mutex_at (parent (at k i)) m k) \<noteq> None"
  shows "\<exists>k'. handleSyscall env SYS_MUTEX_LOCK k = Inr ((), k') \<and>
    mx_owner (mutex_at (parent (at k i)) m k') = mx_owner (mutex_at (parent (at k i)) m k) \<and>
    activeThreads k ! i \<in> set (waitQueue (mutex_at (parent (at k i)) m k')) \<and>
    regs (cpu k') = regs (cpu k) \<and> pc (cpu k') = pc (cpu k) \<and> t_state (allThreads k' ! (activeThreads k ! i)) = BLOCKED"
proof -
  let ?p = "parent (at k i)"
  let ?t = "activeThreads k ! i"
  let ?k = "k\<lparr>stats := incSyscalls (stats k)\<rparr>"
  let ?ctx = "context_of SYS_MUTEX_LOCK (cpu k)"
  let ?x = "(mutex_at ?p m k)\<lparr>waitQueue := waitQueue (mutex_at ?p m k) @ [?t]\<rparr>"
  let ?l = "put_mutex ?p m ?x (with_state ?t BLOCKED ?k)"
  have p: "?p < length (processList k)" "m < length (mutexList (processList k ! ?p))" "?t < length (allThreads k)"
    using m(1) sched_ok_at [OF s(1,3)] by (simp_all add: mutex_ok_def)
  have a: "Mutex_acquire ?p m ?t ?k = Inr (False, ?l)"
    using mutex_acquire_taken [of ?p m ?k ?t] m(1) taken p(3) by simp
  have "handleMutexLock ?ctx ?k = Inr (wait_result, ?l)"
    using lock_handler [of ?k i m ?ctx] s m a by (simp add: context_of_def)
  then have d: "dispatch_syscall env ?ctx k = Inr (wait_result, ?l)"
    by (simp only: lock_dispatch)
  have c: "cpu ?l = cpu k"
    by (simp add: put_mutex_def with_state_def)
  have "handleSyscall env SYS_MUTEX_LOCK k = Inr ((), ?l\<lparr>cpu := delivered wait_result (cpu ?l)\<rparr>)"
    by (rule handleSyscall_run [OF r d]) (simp_all add: c r SyscallResult_new_def)
  moreover have "mutex_at ?p m (?l\<lparr>cpu := delivered wait_result (cpu ?l)\<rparr>) = ?x"
    using p by (simp add: mutex_at_def put_mutex_def with_state_def)
  moreover have "t_state (allThreads ?l ! ?t) = BLOCKED"
    using p(3) by (simp add: put_mutex_def with_state_def)
  ultimately show ?thesis
    by (simp add: c delivered_def)
qed

section \<open>The end of the main loop\<close>

definition live :: "'w Kernel \<Rightarrow> bool" where
  "live k \<longleftrightarrow> (\<exists>j < length (activeThreads k). t_state (at k j) = READY \<or> t_state (at k j) = RUNNING)"

lemma all_terminated_not_live:
  assumes "sched_ok k" "live k" shows "checkAllTerminated k = Inr (False, k)"
proof -
  obtain j where "j < length (activeThreads k)" "t_state (at k j) = READY \<or> t_state (at k j) = RUNNING"
    using assms(2) by (auto simp: live_def)
  then have "activeThreads k ! j \<in> set (activeThreads k)" "t_state (allThreads k ! (activeThreads k ! j)) \<noteq> TERMINATED"
    by (auto simp: at_def)
  then show ?thesis
    using checkAllTerminated_eq [OF assms(1)] by auto
qed

lemma idle_run:
  assumes "sched_ok k"
  shows "no_running_thread k = Inr (currentThreadIndex k = -1 \<or> t_state (at k (nat (currentThreadIndex k))) \<noteq> RUNNING, k)"
  using assms
proof (cases rule: current_cases)
  case 1
  then show ?thesis by (simp add: no_running_thread_def bind_run gets_run ret_run)
next
  case (2 i)
  then show ?thesis
    using current_thread_run [OF assms 2] by (simp add: no_running_thread_def bind_run gets_run ret_run)
qed

lemma loop_ends:
  assumes "sched_ok k" "\<not> live k"
  shows "turn env ticks k = Inr ((False, ticks), k)"
proof -
  have idle: "no_running_thread k = Inr (True, k)"
    using assms(1)
  proof (cases rule: current_cases)
    case 1
    then show ?thesis using idle_run [OF assms(1)] by simp
  next
    case (2 i)
    then show ?thesis using idle_run [OF assms(1)] assms(2) by (auto simp: live_def)
  qed
  have p: "preempt k = Inr ((), k)"
    using assms by (intro preempt_idle) (auto simp: live_def)
  obtain b where c: "checkAllTerminated k = Inr (b, k)"
    using checkAllTerminated_eq [OF assms(1)] by blast
  show ?thesis
    using idle p c by (cases b) (simp_all add: turn_def bind_run ret_run andthen_run)
qed

lemma deadlock_ends: "sched_ok k \<Longrightarrow> \<not> live k \<Longrightarrow> loop env (Suc n) ticks k = Inr (Some ticks, k)"
  by (simp add: bind_run loop_ends ret_run)

text \<open>A live kernel goes on, provided its current thread is not itself waiting for the processor.\<close>

lemma loop_goes_on:
  assumes s: "sched_ok k" and l: "live k" "one_running k"
    and c: "currentThreadIndex k \<noteq> -1 \<Longrightarrow> t_state (at k (nat (currentThreadIndex k))) \<noteq> READY"
    and t: "turn env ticks k = Inr ((go, ticks'), k')"
  shows "go"
proof (cases "currentThreadIndex k \<noteq> -1 \<and> t_state (at k (nat (currentThreadIndex k))) = RUNNING")
  case True
  then have "no_running_thread k = Inr (False, k)"
    using idle_run [OF s] by simp
  then show ?thesis
    using t all_terminated_not_live [OF s l(1)]
    by (simp add: turn_def bind_run ret_run split: sum.splits prod.splits)
next
  case False
  then have idle: "no_running_thread k = Inr (True, k)"
    using idle_run [OF s] by auto
  obtain j where j: "j < length (activeThreads k)" "t_state (at k j) = READY \<or> t_state (at k j) = RUNNING"
    using l(1) by (auto simp: live_def)
  have "t_state (at k j) \<noteq> RUNNING"
  proof
    assume r: "t_state (at k j) = RUNNING"
    then have "int j = currentThreadIndex k"
      using l(2) j(1) by (simp add: one_running_def)
    then have "currentThreadIndex k \<noteq> -1" "nat (currentThreadIndex k) = j"
      by auto
    then show False
      using False r by simp
  qed
  then obtain d where d: "cyclic_next k d"
    using some_ready [OF s] j by blast
  let ?n = "after (length (activeThreads k)) (currentThreadIndex k) d"
  have ne: "activeThreads k \<noteq> []" "?n < length (activeThreads k)"
    using j(1) by (auto intro: after_less)
  have "t_state (at k ?n) = READY"
    using d by (simp add: cyclic_next_def Let_def)
  have "int ?n \<noteq> currentThreadIndex k"
  proof
    assume e: "int ?n = currentThreadIndex k"
    then have "currentThreadIndex k \<noteq> -1" "nat (currentThreadIndex k) = ?n"
      by linarith+
    then show False
      using c \<open>t_state (at k ?n) = READY\<close> by simp
  qed
  then have p: "preempt k = Inr ((), switched ?n k)"
    using preempt_switches [OF s ne(1) d refl] by simp
  have s': "sched_ok (switched ?n k)"
    using sched_ok_switched [OF s ne(2)] .
  have run: "t_state (at (switched ?n k) ?n) = RUNNING"
    using at_switched [OF s ne(2,2)] by (simp add: Let_def)
  then have "live (switched ?n k)"
    using ne(2) by (auto simp: live_def)
  then show ?thesis
    using t all_terminated_not_live [OF s l(1)] all_terminated_not_live [OF s'] idle idle_run [OF s'] run p
    by (simp add: turn_def bind_run ret_run andthen_run)
qed

end
