(* ===== verification/Launch.thy ===== *)
theory Launch
  imports Dispatch
begin

text \<open>
  Loading a program (\<^verbatim>\<open>process/Loader.cpp\<close>): which files are refused, and what a
  successful load leaves behind.
\<close>

section \<open>Refusal\<close>

definition elf_like :: "Byte list \<Rightarrow> bool" where
  "elf_like bs \<longleftrightarrow> 52 \<le> length bs \<and> take 4 bs = elf_magic"

lemma loader_refuses:
  assumes "(case host_file env f of None \<Rightarrow> True | Some bs \<Rightarrow> \<not> elf_like bs) \<or> inactive_slot (processList k) = None"
  shows "loadELF env f k = Inr (-1, k)"
  using assms by (auto simp: loadELF_def elf_like_def ret_run bind_run gets_run split: option.splits)

lemma inactive_slot_Some:
  "inactive_slot ps = Some p \<longleftrightarrow> p < length ps \<and> \<not> active (ps ! p) \<and> (\<forall>q < p. active (ps ! q))"
  by (auto simp: inactive_slot_def find_Some_iff)

section \<open>The program headers\<close>

definition header_at :: "Byte list \<Rightarrow> nat \<Rightarrow> nat" where
  "header_at bs i = unat (le32 bs 28) + 32 * i"

definition loadable :: "Byte list \<Rightarrow> Segment list" where
  "loadable bs =
     map (\<lambda>i. segment_of bs (header_at bs i))
       (filter (\<lambda>i. le32 bs (header_at bs i) = 1) [0..<unat (le16 bs 44)])"

text \<open>A file holds the program headers it announces, or is cut before the end of one.\<close>

definition headers_inside :: "Byte list \<Rightarrow> bool" where
  "headers_inside bs \<longleftrightarrow> le16 bs 44 = 0 \<or> header_at bs (unat (le16 bs 44)) \<le> length bs"

definition cut_elf :: "'w Env \<Rightarrow> string \<Rightarrow> bool" where
  "cut_elf env f \<longleftrightarrow> (case host_file env f of None \<Rightarrow> False | Some bs \<Rightarrow> elf_like bs \<and> \<not> headers_inside bs)"

lemma headers_loop:
  assumes "p < length (processList k)" "\<forall>i \<in> set is. header_at bs i + 32 \<le> length bs"
  shows "for_each is (\<lambda>i. read_header p bs (header_at bs i)) k = Inr ((), put_process p
    ((processList k ! p)\<lparr>segments := segments (processList k ! p) @
       map (\<lambda>i. segment_of bs (header_at bs i)) (filter (\<lambda>i. le32 bs (header_at bs i) = 1) is)\<rparr>) k)"
  using assms
proof (induction "is" arbitrary: k)
  case Nil
  then show ?case by (simp add: for_each_Nil ret_run put_process_def)
next
  case (Cons i xs)
  have h: "header_at bs i + 32 \<le> length bs"
    using Cons.prems by simp
  show ?case
  proof (cases "le32 bs (header_at bs i) = 1")
    case False
    then show ?thesis
      using Cons h by (simp add: for_each_Cons andthen_run read_header_def ret_run)
  next
    case True
    let ?k = "put_process p ((processList k ! p)\<lparr>segments := segments (processList k ! p) @ [segment_of bs (header_at bs i)]\<rparr>) k"
    have "read_header p bs (header_at bs i) k = Inr ((), ?k)"
      using Cons.prems(1) h True by (simp add: read_header_def upd_process_run)
    moreover have "p < length (processList ?k)"
      using Cons.prems(1) by simp
    ultimately show ?thesis
      using Cons.IH [of ?k] Cons.prems True by (simp add: for_each_Cons andthen_run) (simp add: put_process_def)
  qed
qed

lemma headers_run:
  assumes "p < length (processList k)" "headers_inside bs"
  shows "for_each [0..<unat (le16 bs 44)] (\<lambda>i. read_header p bs (unat (le32 bs 28) + 32 * i)) k = Inr ((), put_process p
    ((processList k ! p)\<lparr>segments := segments (processList k ! p) @ loadable bs\<rparr>) k)"
proof -
  have "\<forall>i \<in> set [0..<unat (le16 bs 44)]. header_at bs i + 32 \<le> length bs"
    using assms(2) by (auto simp: headers_inside_def header_at_def)
  then show ?thesis
    using headers_loop [OF assms(1), of "[0..<unat (le16 bs 44)]" bs] by (simp add: header_at_def loadable_def)
qed

text \<open>The loader reads past the end of a cut file.\<close>

lemma headers_cut:
  assumes p: "p < length (processList k)" and h: "\<not> headers_inside bs"
  shows "for_each [0..<unat (le16 bs 44)] (\<lambda>i. read_header p bs (unat (le32 bs 28) + 32 * i)) k = Inl UndefinedBehaviour"
proof -
  let ?read = "\<lambda>i. read_header p bs (header_at bs i)"
  obtain m where m: "unat (le16 bs 44) = Suc m" "length bs < header_at bs (Suc m)"
    using h by (cases "unat (le16 bs 44)") (auto simp: headers_inside_def unat_eq_0)
  have "for_each is ?read l = Inl UndefinedBehaviour"
    if "m \<in> set is" "p < length (processList l)" for "is" and l :: "'a Kernel"
    using that
  proof (induction "is" arbitrary: l)
    case (Cons i xs)
    show ?case
    proof (cases "header_at bs i + 32 \<le> length bs")
      case False
      then show ?thesis
        by (simp add: for_each_Cons andthen_run read_header_def fail_run)
    next
      case True
      then have "m \<in> set xs"
        using Cons.prems(1) m(2) by (auto simp: header_at_def)
      moreover have "\<exists>n. ?read i l = Inr ((), n) \<and> p < length (processList n)"
        using True Cons.prems(2) by (simp add: read_header_def ret_run upd_process_run)
      ultimately show ?thesis
        using Cons.IH by (auto simp: for_each_Cons andthen_run)
    qed
  qed simp
  from this [of "[0..<unat (le16 bs 44)]"] show ?thesis
    using p m(1) by (simp add: header_at_def del: upt_Suc)
qed

section \<open>A load into a slot that holds no pages\<close>

lemma wipe_nothing:
  assumes "page_table k p = Map.empty" shows "wipeMemory env p k = Inr ((), k)"
proof -
  have "for_each vs (\<lambda>vpn. case (Map.empty :: PageTable) vpn of None \<Rightarrow> ret ()
      | Some pte \<Rightarrow> if valid pte then let paddr = ppn pte * KERNEL_PAGE_SIZE in on_pmm (PMM_freeFrame paddr) else ret ()) k
    = Inr ((), k)" for vs
    by (induction vs) (simp_all add: for_each_Nil for_each_Cons ret_run andthen_run)
  then show ?thesis
    using assms by (simp add: wipeMemory_def bind_run gets_run)
qed

text \<open>A slot taken over: the table emptied, the block renewed.\<close>

definition emptied :: "nat \<Rightarrow> string \<Rightarrow> 'w Kernel \<Rightarrow> 'w Kernel" where
  "emptied p n k = put_process p (renewed n (processList k ! p)) (set_page_table p Map.empty k)"

lemma emptied_simps [simp]:
  "allThreads (emptied p n k) = allThreads k" "activeThreads (emptied p n k) = activeThreads k"
  "length (processList (emptied p n k)) = length (processList k)"
  "p < length (processList k) \<Longrightarrow> processList (emptied p n k) ! p = renewed n (processList k ! p)"
  "q \<noteq> p \<Longrightarrow> processList (emptied p n k) ! q = processList k ! q"
  by (simp_all add: emptied_def set_page_table_def put_process_def)

lemma recycle_eq:
  assumes "p < length (processList k)" "wipeMemory env p k = Inr ((), k\<lparr>pmm := P\<rparr>)"
  shows "recycle env p n k = Inr ((), emptied p n (k\<lparr>pmm := P\<rparr>))"
proof -
  let ?k1 = "k\<lparr>pmm := P\<rparr>"
  let ?k2 = "put_process p ((processList k ! p)\<lparr>instructionsExecuted := 0\<rparr>) ?k1"
  let ?k3 = "set_page_table p Map.empty ?k2"
  have l: "p < length (processList ?k1)" "p < length (processList ?k3)"
    using assms(1) by simp_all
  have at1: "processList ?k1 ! p = processList k ! p" and at3: "processList ?k3 ! p = (processList k ! p)\<lparr>instructionsExecuted := 0\<rparr>"
    using assms(1) by simp_all
  have "recycle env p n k = Inr ((), put_process p (renewed n (processList k ! p)) ?k3)"
    using assms(2) upd_process_run [OF l(1)] upd_process_run [OF l(2)] unfolding at1 at3
    by (simp add: recycle_def andthen_run modify_run renewed_def)
  then show ?thesis
    by (simp add: emptied_def) (simp add: put_process_def set_page_table_def)
qed

definition launched :: "nat \<Rightarrow> string \<Rightarrow> Byte list \<Rightarrow> 'w Kernel \<Rightarrow> 'w Kernel" where
  "launched p f bs k =
     (let i = length (allThreads k); pr = renewed f (processList k ! p) in
      k\<lparr>processList := (processList k)[p := pr\<lparr>segments := loadable bs,
           nextStackBase := STACK_TOP - MAIN_STACK_SIZE - GUARD_PAGE_SIZE, threads := [i]\<rparr>],
        allThreads := allThreads k @ [\<lparr>joiner = None, hasBeenJoined = False, tid = 0, exitCode = 0, t_state = READY,
           t_pc = le32 bs 24, t_regs = RegFile_new[2 := STACK_TOP, 10 := 0], parent = p, stackTop = STACK_TOP\<rparr>],
        activeThreads := activeThreads k @ [i]\<rparr>)"

text \<open>A load into a free slot, whose pages are given up; into a slot without pages nothing else changes.\<close>

lemma load_into_slot:
  assumes f: "host_file env f = Some bs" "elf_like bs" "headers_inside bs"
    and p: "inactive_slot (processList k) = Some p" and w: "wipeMemory env p k = Inr ((), k\<lparr>pmm := P\<rparr>)"
    and e: "executable_at (loadable bs) (le32 bs 24)"
  shows "loadELF env f k = Inr (int p, launched p f bs (set_page_table p Map.empty (k\<lparr>pmm := P\<rparr>)))"
proof -
  let ?k = "set_page_table p Map.empty (k\<lparr>pmm := P\<rparr>)"
  have k: "processList ?k = processList k" "allThreads ?k = allThreads k" "activeThreads ?k = activeThreads k"
    by (simp_all add: set_page_table_def)
  have pl: "p < length (processList k)"
    using p by (simp add: inactive_slot_Some)
  let ?pr = "processList k ! p"
  let ?k1 = "put_process p (renewed f ?pr) ?k"
  have r: "recycle env p f k = Inr ((), ?k1)"
    using recycle_eq [OF pl w] by (simp add: emptied_def)
  have l1: "p < length (processList ?k1)" "segments (processList ?k1 ! p) = []"
    using pl by (simp_all add: k renewed_def)
  let ?k2 = "put_process p ((renewed f ?pr)\<lparr>segments := loadable bs\<rparr>) ?k"
  have h: "for_each [0..<unat (le16 bs 44)] (\<lambda>i. read_header p bs (unat (le32 bs 28) + 32 * i)) ?k1 = Inr ((), ?k2)"
    using headers_run [OF l1(1) f(3)] l1(2) pl by (simp add: k) (simp add: put_process_def)
  have l2: "p < length (processList ?k2)" "processList ?k2 ! p = (renewed f ?pr)\<lparr>segments := loadable bs\<rparr>"
    using pl by (simp_all add: k)
  let ?i = "length (allThreads k)"
  let ?k3 = "put_process p ((renewed f ?pr)\<lparr>segments := loadable bs,
      nextStackBase := STACK_TOP - MAIN_STACK_SIZE - GUARD_PAGE_SIZE, threads := [?i]\<rparr>)
    (?k\<lparr>allThreads := allThreads k @ [started p (le32 bs 24) 0 ?k2]\<rparr>)"
  have t: "createThread p (le32 bs 24) 0 ?k2 = Inr (Some ?i, ?k3)"
    using createThread_run [OF l2(1)] e unfolding l2(2)
    by (simp add: Let_def renewed_def MAX_THREADS_def k) (simp add: put_process_def k)
  have s: "setState ?i READY ?k3 = Inr ((), with_state ?i READY ?k3)"
    by (rule setState_run) simp
  have "\<not> length bs < 52" "take 4 bs = elf_magic"
    using f(2) by (simp_all add: elf_like_def)
  then have "loadELF env f k = Inr (int p, (with_state ?i READY ?k3)\<lparr>activeThreads := activeThreads k @ [?i]\<rparr>)"
    using f(1) p r h t s
    by (simp add: loadELF_def bind_run gets_run andthen_run modify_run ret_run) (simp add: put_process_def with_state_def k)
  also have "(with_state ?i READY ?k3)\<lparr>activeThreads := activeThreads k @ [?i]\<rparr> = launched p f bs ?k"
    using pl by (simp add: launched_def Let_def put_process_def with_state_def started_def renewed_def k)
  finally show ?thesis .
qed

lemma load_succeeds:
  assumes f: "host_file env f = Some bs" "elf_like bs" "headers_inside bs"
    and p: "inactive_slot (processList k) = Some p" "page_table k p = Map.empty"
    and e: "executable_at (loadable bs) (le32 bs 24)"
  shows "loadELF env f k = Inr (int p, launched p f bs k)"
proof -
  have "set_page_table p Map.empty k = k"
    using p(2) by (simp add: set_page_table_def page_table_def fun_upd_idem)
  then show ?thesis
    using load_into_slot [OF f p(1) _ e, of "pmm k"] wipe_nothing [OF p(2)] by simp
qed

lemma launched_ok:
  assumes "vm_ok k" "p < length (processList k)"
  shows "vm_ok (launched p f bs k)"
proof -
  let ?k = "launched p f bs k"
  have s: "swap_ok ?k = swap_ok k" "stored_page ?k = stored_page k" "page_table ?k = page_table k" "k_mem ?k = k_mem k"
    "pmm ?k = pmm k" "prp ?k = prp k" "length (processList ?k) = length (processList k)"
    by (simp_all add: launched_def Let_def swap_ok_def disk_ok_def stored_page_def block_def fun_eq_iff page_table_def k_mem_def)
  have "p_pid (processList ?k ! q) = p_pid (processList k ! q)" if "q < length (processList k)" for q
    using that assms(2) by (cases "q = p") (simp_all add: launched_def Let_def renewed_def)
  then show ?thesis
    using assms(1) unfolding vm_inv_def s by simp
qed

end
