(* ===== verification/Process_Properties.thy ===== *)
theory Process_Properties
  imports Boot Launch
begin

text \<open>
  What the kernel promises about processes, threads, mutexes and system calls, from theories
  Locks, Resources, Lifecycle, Dispatch and Launch, each property with a run on the kernels
  of theory Boot.
\<close>

section \<open>The kernel of the witnesses\<close>

lemma demo_shape:
  "length (allThreads two_processes) = 3" "activeThreads two_processes = [0, 1, 2]"
  "currentThreadIndex two_processes = 0" "allThreads two_processes ! 0 = thread_at 0 0 RUNNING STACK_TOP"
  "allThreads two_processes ! Suc 0 = thread_at 1 0 READY 0x2FFF000" "at two_processes 0 = thread_at 0 0 RUNNING STACK_TOP"
  "at two_processes (Suc 0) = thread_at 1 0 READY 0x2FFF000" "processWaiters two_processes = Map.empty"
  "pmm two_processes = PMM_init"
  by (simp_all add: two_processes_def at_def booted_def)

lemma demo_parent [simp]: "parent (thread_at i p s b) = p" "tid (thread_at i p s b) = i" "t_state (thread_at i p s b) = s"
  "hasBeenJoined (thread_at i p s b) = False" "stackTop (thread_at i p s b) = b"
  by (simp_all add: thread_at_def)

lemma demo_mutex: "mutex_ok 0 0 two_processes" "mutex_at 0 0 two_processes = Mutex_new"
  by (simp_all add: mutex_ok_def mutex_at_def two_processes_length two_processes_first demo_process_def Mutex_new_def)

lemma demo_regs: "rf_ok (regs (cpu two_processes))" "regs (cpu two_processes) = RegFile_new[2 := STACK_TOP]"
  using two_processes_calm(1) by (simp_all add: calm_def two_processes_def reset_machine_def)

lemma demo_stacks: "stacks_ok two_processes 0"
  by (simp add: stacks_ok_def Let_def two_processes_first demo_process_def demo_shape MAX_THREADS_def stack_base_simps
      All_less_Suc layout_defs)

section \<open>Mutual exclusion\<close>

text \<open>C16: A mutex excludes: once a thread has acquired it, no sequence of further acquisitions by any
  threads and releases by others is granted anything before the holder itself releases it.\<close>

theorem mutex_excludes:
  assumes "mutex_ok p m k" "t < length (allThreads k)" "mx_owner (mutex_at p m k) = None"
    and "\<forall>x \<in> set xs. mutex.op_known k x \<and> x \<noteq> Release t"
  shows "\<exists>k'. mutex.granted_in p m (Acquire t # xs) k = Inr ([t], k') \<and> mx_owner (mutex_at p m k') = Some t"
  using mutex.exclusive_after [of p m k t xs] assms by simp

theorem mutex_excludes_witness:
  "\<exists>k'. mutex.granted_in 0 0 [Acquire 0, Acquire 1, Release 1, Acquire 2] two_processes = Inr ([0], k') \<and>
    mx_owner (mutex_at 0 0 k') = Some 0"
  by (rule mutex_excludes [OF demo_mutex(1)]) (simp_all add: demo_shape demo_mutex Mutex_new_def)

text \<open>A release by the holder wakes every thread that waits, and each of them may then take the
  mutex; nobody else can release it.\<close>

theorem mutex_handover:
  assumes "mutex_ok p m k" "mx_owner (mutex_at p m k) = Some t"
    and "u \<in> set (waitQueue (mutex_at p m k))" "u < length (allThreads k)" "v \<noteq> t"
  shows "Mutex_release p m v k = Inr (False, k) \<and>
    (\<exists>k' k''. Mutex_release p m t k = Inr (True, k') \<and> awake_in k' u \<and>
      Mutex_acquire p m u k' = Inr (True, k'') \<and> mx_owner (mutex_at p m k'') = Some u)"
  using mutex.handover [of p m k t u] mutex.release_other [of p m k v] assms by auto

definition contended :: "unit Kernel" where
  "contended = put_mutex 0 0 \<lparr>mx_owner = Some 0, waitQueue = [1], locked = True\<rparr> two_processes"

lemma contended_mutex: "mutex_at 0 0 contended = \<lparr>mx_owner = Some 0, waitQueue = [1], locked = True\<rparr>" "mutex_ok 0 0 contended"
  "length (allThreads contended) = 3"
proof -
  have "0 < length (processList two_processes)" "0 < length (mutexList (processList two_processes ! 0))"
    by (simp_all add: two_processes_length two_processes_first demo_process_def)
  then show "mutex_at 0 0 contended = \<lparr>mx_owner = Some 0, waitQueue = [1], locked = True\<rparr>" "mutex_ok 0 0 contended"
    "length (allThreads contended) = 3"
    by (simp_all add: contended_def mutex_at_put mutex_ok_def demo_shape)
qed

theorem mutex_handover_witness:
  "Mutex_release 0 0 2 contended = Inr (False, contended) \<and>
    (\<exists>k' k''. Mutex_release 0 0 0 contended = Inr (True, k') \<and> awake_in k' 1 \<and>
      Mutex_acquire 0 0 1 k' = Inr (True, k'') \<and> mx_owner (mutex_at 0 0 k'') = Some 1)"
  by (rule mutex_handover [OF contended_mutex(2)]) (simp_all add: contended_mutex)

text \<open>C17: The lock system call: on a free mutex the caller owns it, its result register is 0 and it goes
  on behind the call; on a taken one the caller is blocked in the mutex's queue with registers and
  program counter untouched, so that it makes the call again once it is woken.\<close>

theorem lock_system_call:
  assumes "sched_ok k" "currentThreadIndex k = int i" "i < length (activeThreads k)"
    and "mutex_ok (parent (at k i)) m k" "sint (reg_val (cpu k) 10) = int m" "rf_ok (regs (cpu k))"
  shows "\<exists>k'. handleSyscall env SYS_MUTEX_LOCK k = Inr ((), k') \<and>
    (if mx_owner (mutex_at (parent (at k i)) m k) = None
     then mx_owner (mutex_at (parent (at k i)) m k') = Some (activeThreads k ! i) \<and>
       regs (cpu k') = rf_set (regs (cpu k)) 10 0 \<and> pc (cpu k') = pc (cpu k) + 4 \<and> allThreads k' = allThreads k
     else mx_owner (mutex_at (parent (at k i)) m k') = mx_owner (mutex_at (parent (at k i)) m k) \<and>
       activeThreads k ! i \<in> set (waitQueue (mutex_at (parent (at k i)) m k')) \<and>
       regs (cpu k') = regs (cpu k) \<and> pc (cpu k') = pc (cpu k) \<and>
       t_state (allThreads k' ! (activeThreads k ! i)) = BLOCKED)"
  using lock_granted [OF assms] lock_refused [OF assms] by (cases "mx_owner (mutex_at (parent (at k i)) m k)") simp_all

theorem lock_system_call_witness:
  "\<exists>k'. handleSyscall demo_env SYS_MUTEX_LOCK two_processes = Inr ((), k') \<and>
    mx_owner (mutex_at 0 0 k') = Some 0 \<and> pc (cpu k') = 4100"
proof -
  have "sint (reg_val (cpu two_processes) 10) = int 0"
    by (simp add: reg_val_def demo_regs RegFile_new_def)
  from lock_system_call [OF two_processes_sched(1) _ _ _ this demo_regs(1), of 0 demo_env] show ?thesis
    by (auto simp: demo_shape demo_mutex Mutex_new_def two_processes_calm)
qed

section \<open>Threads\<close>

text \<open>C22: Joining a thread delivers its exit code: the joiner waits, and when the other thread has been
  switched to and exits, the joiner is ready with the code in its result register, its other
  registers as they were at the call, and continues behind the call.\<close>

theorem join_delivers_exit_code:
  assumes "sched_ok k" "currentThreadIndex k = int i" "i < length (activeThreads k)"
    and "stacks_ok k (parent (at k i))" "j < length (threads (processList k ! parent (at k i)))"
    and "n < length (activeThreads k)" "n \<noteq> i" "activeThreads k ! n = threads (processList k ! parent (at k i)) ! j"
    and "sint (arg0 ctx) = int j" "tid (at k i) \<noteq> int j" "\<not> hasBeenJoined (at k n)" "t_state (at k n) \<noteq> TERMINATED"
    and "rf_ok (regs (cpu k))"
  shows "\<exists>k'. andthen (handleThreadJoin ctx) (andthen (contextSwitch (int n)) (handleThreadExit ctx')) k = Inr (wait_result, k') \<and>
    t_state (at k' i) = READY \<and> t_regs (at k' i) = rf_set (regs (cpu k)) 10 (arg0 ctx') \<and>
    t_pc (at k' i) = pc (cpu k) + 4 \<and> t_state (at k' n) = TERMINATED"
  using assms by (rule join_then_exit)

definition args :: "Word \<Rightarrow> Word \<Rightarrow> SyscallContext" where
  "args a b = \<lparr>ctx_id = 0, arg0 = a, arg1 = b, arg2 = 0, arg3 = 0, arg4 = 0, arg5 = 0\<rparr>"

theorem join_delivers_exit_code_witness:
  "\<exists>k'. andthen (handleThreadJoin (args 1 0)) (andthen (contextSwitch (int 1)) (handleThreadExit (args 42 0))) two_processes
      = Inr (wait_result, k') \<and> t_state (at k' 0) = READY \<and> t_regs (at k' 0) ! 10 = 42 \<and> t_pc (at k' 0) = 4100"
proof -
  have "\<exists>k'. andthen (handleThreadJoin (args 1 0)) (andthen (contextSwitch (int 1)) (handleThreadExit (args 42 0))) two_processes
      = Inr (wait_result, k') \<and>
    t_state (at k' 0) = READY \<and> t_regs (at k' 0) = rf_set (regs (cpu two_processes)) 10 (arg0 (args 42 0)) \<and>
    t_pc (at k' 0) = pc (cpu two_processes) + 4 \<and> t_state (at k' 1) = TERMINATED"
    by (rule join_delivers_exit_code [OF two_processes_sched(1), where j = 1])
      (simp_all add: demo_shape demo_stacks demo_regs(1) args_def two_processes_first demo_process_def)
  then show ?thesis
    by (auto simp: args_def demo_regs(2) rf_set_def RegFile_new_def two_processes_calm)
qed

text \<open>C31: Creating a thread keeps the plan of the stacks: the threads of a process are numbered in order,
  at most five, each with the stack the plan gives its number; a refused creation changes nothing.\<close>

theorem create_thread_keeps_plan:
  assumes "stacks_ok k p" "p < length (processList k)" "createThread p entry arg k = Inr (r, k')"
  shows "stacks_ok k' p \<and> (r = None \<longrightarrow> k' = k) \<and>
    (\<forall>i. r = Some i \<longrightarrow> threads (processList k' ! p) = threads (processList k ! p) @ [i])"
  using assms by (rule createThread_stacks)

theorem create_thread_keeps_plan_witness:
  "\<exists>r k'. createThread 0 4096 7 two_processes = Inr (r, k') \<and> stacks_ok k' 0"
proof -
  have p: "0 < length (processList two_processes)"
    by (simp add: two_processes_length)
  obtain r k' where "createThread 0 4096 7 two_processes = Inr (r, k')"
    using createThread_run [OF p, of 4096 7] by (simp add: Let_def split: if_splits)
  then show ?thesis
    using create_thread_keeps_plan [OF demo_stacks p] by blast
qed

text \<open>C30: Stacks do not overlap and are guarded: an address lies in the stack of at most one thread of a
  process, and the page below each stack lies in none, so that running over the end of a stack is
  a fault that is not served as stack growth.\<close>

theorem stacks_are_guarded:
  assumes "stacks_ok k p" "i < length (threads (processList k ! p))"
  shows "(\<forall>j < length (threads (processList k ! p)). \<forall>a. in_stack (allThreads k ! (threads (processList k ! p) ! i)) a \<and>
      in_stack (allThreads k ! (threads (processList k ! p) ! j)) a \<longrightarrow> i = j) \<and>
    (\<forall>a. stack_base i - stack_extent i - 4096 \<le> unat a \<and> unat a < stack_base i - stack_extent i \<longrightarrow>
      \<not> stack_region k p a)"
  using stacks_disjoint [OF assms] guard_is_free [OF assms] by blast

theorem stacks_are_guarded_witness: "\<not> stack_region two_processes 0 0x2FFF123"
proof -
  have "0 < length (threads (processList two_processes ! 0))"
    by (simp add: two_processes_first demo_process_def)
  from stacks_are_guarded [OF demo_stacks this] show ?thesis
    by (simp add: stack_base_simps stack_extent_def stack_numbers)
qed

section \<open>Heap and descriptors\<close>

text \<open>C32: Moving the heap break is signed addition within the heap's bounds: although the code adds and
  compares 32-bit unsigned numbers, it succeeds exactly when the break moved by the increment, read
  as a signed number, stays between start and limit; the old break is returned and the break moves
  by that much; otherwise 0 is returned and nothing changes.\<close>

theorem sbrk_is_signed_addition:
  assumes "p < length (processList k)" "programBreak (processList k ! p) = b" "break_ok b"
  shows "if 16777216 \<le> uint b + sint inc \<and> uint b + sint inc \<le> 33554432
    then \<exists>k'. Process_sbrk p inc k = Inr (b, k') \<and> uint (programBreak (processList k' ! p)) = uint b + sint inc \<and>
      break_ok (programBreak (processList k' ! p)) \<and> (\<forall>q. q \<noteq> p \<longrightarrow> processList k' ! q = processList k ! q)
    else Process_sbrk p inc k = Inr (0, k)"
  using sbrk_run [OF assms(1), of inc] break_range [OF assms(3), of inc] assms by (auto simp: moved_break_def)

theorem sbrk_is_signed_addition_witness:
  "(\<exists>k'. Process_sbrk 0 (-4096) two_processes = Inr (HEAP_START + 8192, k') \<and>
      uint (programBreak (processList k' ! 0)) = 16777216 + 4096) \<and>
    Process_sbrk 0 (-12288) two_processes = Inr (0, two_processes)"
proof -
  have a: "0 < length (processList two_processes)" "programBreak (processList two_processes ! 0) = HEAP_START + 8192"
    "break_ok (HEAP_START + 8192)"
    by (simp_all add: two_processes_length two_processes_first demo_process_def break_ok_def layout_defs)
  have n: "uint (HEAP_START + 8192) = 16785408"
    by (simp add: layout_defs)
  have i: "sint (-4096 :: Word) = -4096" "sint (-12288 :: Word) = -12288"
    by simp_all
  show ?thesis
    using sbrk_is_signed_addition [OF a, of "-4096"] sbrk_is_signed_addition [OF a, of "-12288"]
    unfolding n i by auto
qed

text \<open>The life of a descriptor: adding a handle takes the lowest free one, through which exactly that
  handle is found while all other descriptors stay as they were; closing it restores the table, a
  second close fails, and the number is the next to be given out.\<close>

theorem descriptor_life:
  assumes "p < length (processList k)" "free_fd (fdTable (processList k ! p)) = Some i"
  shows "(\<forall>j < i. fdTable (processList k ! p) ! j \<noteq> None) \<and>
    (\<exists>k1. addFileHandle p (Some h) k = Inr (int i, k1) \<and> getFileHandle p (int i) k1 = Inr (Some h, k1) \<and>
      (\<forall>j. j \<noteq> int i \<longrightarrow> fst (projr (getFileHandle p j k1)) = fst (projr (getFileHandle p j k))) \<and>
      (\<exists>k2. closeFileHandle p (int i) k1 = Inr (True, k2) \<and> fdTable (processList k2 ! p) = fdTable (processList k ! p) \<and>
         closeFileHandle p (int i) k2 = Inr (False, k2) \<and> free_fd (fdTable (processList k2 ! p)) = Some i))"
  using fd_life [OF assms] assms(2) by (simp add: free_fd_lowest)

lemma demo_free_fd: "free_fd (fdTable (processList two_processes ! 0)) = Some 3"
  by (simp add: free_fd_lowest two_processes_first demo_process_def PCB_new_def FD_TABLE_SIZE_def numeral_3_eq_3
      All_less_Suc nth_append)

theorem descriptor_life_witness:
  "\<exists>k1. addFileHandle 0 (Some (ConsoleHandle 1)) two_processes = Inr (3, k1) \<and>
    getFileHandle 0 3 k1 = Inr (Some (ConsoleHandle 1), k1)"
proof -
  have p: "0 < length (processList two_processes)"
    by (simp add: two_processes_length)
  show ?thesis
    using descriptor_life [OF p demo_free_fd, of "ConsoleHandle 1"] by auto
qed

section \<open>The end of a process\<close>

text \<open>C29: Ending a process ends its threads, records its exit code, releases its resident frames, frees its
  slot and makes ready every thread that waits for it, whatever state that thread is in: also one
  that has itself been terminated.\<close>

theorem process_ends:
  assumes "p < length (processList k)" "active (processList k ! p)"
    and "length (frameTable (pmm k)) = 16" "frames_low (page_table k p)"
    and "\<forall>i \<in> set (threads (processList k ! p)). i < length (allThreads k)"
    and "\<forall>i \<in> set (waiters k (int p)). i < length (allThreads k)"
  shows "\<exists>k'. terminate env (int p) code k = Inr (True, k') \<and> \<not> active (processList k' ! p) \<and>
    exitCodes k' (int p) = Some code \<and> page_table k' = page_table k \<and>
    freeFrames (pmm k') = freeFrames (pmm k) @ resident_frames env (page_table k p) \<and>
    (\<forall>j < length (allThreads k). t_state (allThreads k' ! j) =
      (if j \<in> set (waiters k (int p)) then READY
       else if j \<in> set (threads (processList k ! p)) then TERMINATED else t_state (allThreads k ! j)))"
  using terminate_run [OF assms, of env code] assms(1) by (fastforce simp: ends_def)

definition dead_waiter :: "unit Kernel" where
  "dead_waiter = two_processes\<lparr>processWaiters := [1 \<mapsto> [1]],
     allThreads := (allThreads two_processes)[1 := thread_at 1 0 TERMINATED 0x2FFF000]\<rparr>"

lemma dead_waiter_ok:
  "1 < length (processList dead_waiter)" "active (processList dead_waiter ! 1)"
  "length (frameTable (pmm dead_waiter)) = 16" "frames_low (page_table dead_waiter 1)"
  "\<forall>i \<in> set (threads (processList dead_waiter ! 1)). i < length (allThreads dead_waiter)"
  "waiters dead_waiter (int 1) = [1]" "length (allThreads dead_waiter) = 3"
  "t_state (allThreads dead_waiter ! 1) = TERMINATED"
proof -
  have q: "processList two_processes ! Suc 0 = demo_process 1 [2] 0x2FFF000"
    by (simp add: two_processes_def manager_new)
  show "1 < length (processList dead_waiter)" "active (processList dead_waiter ! 1)"
    "length (frameTable (pmm dead_waiter)) = 16" "frames_low (page_table dead_waiter 1)"
    "\<forall>i \<in> set (threads (processList dead_waiter ! 1)). i < length (allThreads dead_waiter)"
    "waiters dead_waiter (int 1) = [1]" "length (allThreads dead_waiter) = 3"
    "t_state (allThreads dead_waiter ! 1) = TERMINATED"
    using PMM_init_ok(1) two_processes_empty [of 1]
    by (simp_all add: dead_waiter_def two_processes_length q demo_process_def demo_shape waiters_def pmm_ok_def
        frames_low_def page_table_def)
qed

theorem process_ends_witness:
  "\<exists>k'. terminate demo_env 1 7 dead_waiter = Inr (True, k') \<and> exitCodes k' 1 = Some 7 \<and>
    t_state (allThreads dead_waiter ! 1) = TERMINATED \<and> t_state (allThreads k' ! 1) = READY"
proof -
  have "\<forall>i \<in> set (waiters dead_waiter (int 1)). i < length (allThreads dead_waiter)"
    unfolding dead_waiter_ok by simp
  from process_ends [OF dead_waiter_ok(1-5) this, of demo_env 7] show ?thesis
    using dead_waiter_ok(6-8) by auto
qed

text \<open>Several frames asked for, one after the other.\<close>

primrec allocations :: "nat \<Rightarrow> (PMM, Addr option list) prog" where
  "allocations 0 = ret []"
| "allocations (Suc n) = bind PMM_allocateFrame (\<lambda>a. bind (allocations n) (\<lambda>as. ret (a # as)))"

lemma allocations_run:
  "freeFrames P = xs @ ys \<Longrightarrow> allocations (length ys) P = Inr (map Some (rev ys), P\<lparr>freeFrames := xs\<rparr>)"
proof (induction ys arbitrary: P rule: rev_induct)
  case Nil
  then show ?case
    by (simp add: ret_run)
next
  case (snoc y ys)
  have "PMM_allocateFrame P = Inr (Some y, P\<lparr>freeFrames := xs @ ys\<rparr>)"
    using snoc.prems by (simp add: PMM_allocateFrame_def butlast_append)
  then show ?case
    using snoc.IH [of "P\<lparr>freeFrames := xs @ ys\<rparr>"] by (simp add: bind_run ret_run)
qed

text \<open>C39: A process that ends and whose slot is used again releases its frames twice: the page table
  survives the end, so that each resident frame of the dead process is on the free list two times; as
  many requests for frames as there are entries then hand every one of these frames out twice.\<close>

theorem frames_released_twice:
  assumes "p < length (processList k)" "active (processList k ! p)"
    and "length (frameTable (pmm k)) = 16" "frames_low (page_table k p)"
    and "\<forall>i \<in> set (threads (processList k ! p)). i < length (allThreads k)"
    and "\<forall>i \<in> set (waiters k (int p)). i < length (allThreads k)"
  shows "\<exists>k' k''. let fs = resident_frames env (page_table k p) in
    andthen (terminate env (int p) code) (recycle env p n) k = Inr ((), k') \<and>
    freeFrames (pmm k') = freeFrames (pmm k) @ fs @ fs \<and>
    on_pmm (allocations (length (fs @ fs))) k' = Inr (map Some (rev fs @ rev fs), k'')"
proof -
  let ?fs = "resident_frames env (page_table k p)"
  obtain k' where k': "andthen (terminate env (int p) code) (recycle env p n) k = Inr ((), k')"
    "freeFrames (pmm k') = freeFrames (pmm k) @ ?fs @ ?fs"
    using released_twice [OF assms, of env code n] by blast
  show ?thesis
    using k' allocations_run [OF k'(2)] by (simp add: on_parts_run Let_def)
qed

lemma one_resident:
  assumes "page_data k p v = Some bs" "resident k p v" "\<forall>u. u \<noteq> v \<longrightarrow> page_table k p u = None"
  shows "\<exists>f. resident_frames demo_env (page_table k p) = [f]"
proof -
  obtain x where x: "page_table k p v = Some x" "valid x"
    using assms(2) by (auto simp: resident_def split: option.splits)
  have "dom (page_table k p) = {v}"
    using assms(3) x(1) by (auto simp: dom_def)
  then show ?thesis
    using x by (simp add: resident_frames_def demo_env_def)
qed

theorem frames_released_twice_witness:
  "\<exists>(k :: unit Kernel) k' k'' f. andthen (terminate demo_env 1 7) (recycle demo_env 1 ''next'') k = Inr ((), k') \<and> vm_ok k \<and>
    freeFrames (pmm k') = freeFrames (pmm k) @ [f, f] \<and> on_pmm (allocations 2) k' = Inr ([Some f, Some f], k'')"
proof -
  obtain k :: "unit Kernel" where k: "vm_ok k" "page_data k 1 0x1000 = Some (replicate PAGE 7)" "resident k 1 0x1000"
    "processList k = processList two_processes" "allThreads k = allThreads two_processes" "processWaiters k = Map.empty"
    "\<forall>u. u \<noteq> 0x1000 \<longrightarrow> page_table k 1 u = None"
    using neighbour_kernel by blast
  obtain f where f: "resident_frames demo_env (page_table k 1) = [f]"
    using one_resident [OF k(2,3,7)] by blast
  have q: "processList two_processes ! Suc 0 = demo_process 1 [2] 0x2FFF000"
    by (simp add: two_processes_def manager_new)
  have a: "1 < length (processList k)" "active (processList k ! 1)" "length (frameTable (pmm k)) = 16"
    "\<forall>i \<in> set (threads (processList k ! 1)). i < length (allThreads k)" "\<forall>i \<in> set (waiters k (int 1)). i < length (allThreads k)"
    using k vm_inv_parts(1) [OF k(1)] by (simp_all add: two_processes_length q demo_process_def demo_shape waiters_def pmm_ok_def)
  show ?thesis
    using frames_released_twice [OF a(1-3) vm_frames_low [OF k(1)] a(4,5), of demo_env 7 "''next''"] f k(1) by (auto simp: numeral_2_eq_2)
qed

section \<open>System calls and loading\<close>

text \<open>A system call number the kernel does not know stops the simulator, whichever program makes
  the call.\<close>

theorem unknown_call_panics:
  assumes "15 \<le> unat i" "rf_ok (regs (cpu k))"
  shows "handleSyscall env i k = Inl (KernelPanic ''Unimplemented syscall id: '')"
  using unknown_panics [of "context_of i (cpu k)" env k] assms
  by (simp add: handleSyscall_def bind_run read_context_run context_of_def)

theorem unknown_call_panics_witness:
  "handleSyscall demo_env 15 two_processes = Inl (KernelPanic ''Unimplemented syscall id: '')"
  by (rule unknown_call_panics) (simp_all add: demo_regs(1))

text \<open>A file that is missing, shorter than an ELF header or without its magic bytes is refused, and so
  is every file while no process slot is free; the kernel is then unchanged.\<close>

theorem load_refusals:
  assumes "(case host_file env f of None \<Rightarrow> True | Some bs \<Rightarrow> \<not> elf_like bs) \<or> inactive_slot (processList k) = None"
  shows "loadELF env f k = Inr (-1, k)"
  using assms by (rule loader_refuses)

theorem load_refusals_witness: "loadELF demo_env ''sevens'' two_processes = Inr (-1, two_processes)"
proof -
  have "take 4 (replicate 100 7 :: Byte list) ! 0 \<noteq> elf_magic ! 0"
    by (simp add: elf_magic_def)
  then have "\<not> elf_like (replicate 100 7)"
    by (metis elf_like_def)
  then show ?thesis
    by (intro load_refusals) (simp add: demo_env_def)
qed


definition tiny_elf :: "Byte list" where
  "tiny_elf =
     elf_magic @ replicate 20 0 @ [0, 16, 0, 0] @ [52, 0, 0, 0] @ replicate 12 0 @ [1, 0] @ replicate 6 0 @
     [1, 0, 0, 0] @ [0, 0, 0, 0] @ [0, 16, 0, 0] @ [0, 0, 0, 0] @ [84, 0, 0, 0] @ [84, 0, 0, 0] @ [5, 0, 0, 0] @ [0, 16, 0, 0]"

definition elf_env :: "unit Env" where
  "elf_env = demo_env\<lparr>host_file := (\<lambda>n. Some tiny_elf)\<rparr>"

lemma tiny_words:
  "length tiny_elf = 84" "le32 tiny_elf 24 = 4096" "le32 tiny_elf 28 = 52" "le16 tiny_elf 44 = 1" "le32 tiny_elf 52 = 1"
  "segment_of tiny_elf 52 = \<lparr>seg_vaddr = 4096, seg_memSize = 84, seg_fileSize = 84, seg_fileOffset = 0, seg_flags = 5\<rparr>"
  by (simp_all add: tiny_elf_def elf_magic_def le32_def le16_def segment_of_def)

lemma tiny_file: "elf_like tiny_elf" "headers_inside tiny_elf" "executable_at (loadable tiny_elf) (le32 tiny_elf 24)"
  by (simp_all add: elf_like_def headers_inside_def header_at_def loadable_def executable_at_def tiny_words)
    (simp add: tiny_elf_def elf_magic_def)


text \<open>C40: An exit code outlives the slot: when a process that nobody has joined has ended and a new process
  is loaded into its slot, a join of the new process does not wait for it: it returns at once with 1
  and stores the exit code of the former process through the status pointer, although the new process
  is in use and its only thread is yet to run.\<close>

theorem stale_exit_code:
  assumes "p < length (processList k)" "active (processList k ! p)" "\<forall>q < p. active (processList k ! q)"
    and "length (frameTable (pmm k)) = 16" "frames_low (page_table k p)"
    and "\<forall>i \<in> set (threads (processList k ! p)). i < length (allThreads k)"
    and "\<forall>i \<in> set (waiters k (int p)). i < length (allThreads k)"
    and "host_file env f = Some bs" "elf_like bs" "headers_inside bs" "executable_at (loadable bs) (le32 bs 24)"
    and "cpu_ok (cpu k)" "vmEnabled (mmu (cpu k))" "currentTable (mmu (cpu k)) \<noteq> Some p"
    and "sint (arg0 ctx) = int p" "arg1 ctx \<noteq> 0" "granted (cpu k) (arg1 ctx) True = Some pte" "page_offset (arg1 ctx) + 4 \<le> 4096"
  shows "\<exists>k'. andthen (terminate env (int p) code) (bind (loadELF env f) (\<lambda>_. handleJoinProcess ctx)) k = Inr (done_with 1, k') \<and>
    take 4 (drop (phys_at pte (arg1 ctx)) (k_mem k')) = word_bytes 4 code \<and>
    active (processList k' ! p) \<and> p_name (processList k' ! p) = f \<and> threads (processList k' ! p) = [length (allThreads k)] \<and>
    t_state (allThreads k' ! length (allThreads k)) = READY"
proof -
  obtain k1 where k1: "terminate env (int p) code k = Inr (True, k1)" "length (frameTable (pmm k1)) = 16"
    "page_table k1 = page_table k" "cpu k1 = cpu k" "processList k1 = (processList k)[p := (processList k ! p)\<lparr>active := False\<rparr>]"
    "length (allThreads k1) = length (allThreads k)" "exitCodes k1 = (exitCodes k)(int p \<mapsto> code)"
    using terminate_run [OF assms(1,2,4-7), of env code] by blast
  have slot: "inactive_slot (processList k1) = Some p"
    using assms(1,3) by (simp add: inactive_slot_Some k1(5))
  obtain P where w: "wipeMemory env p k1 = Inr ((), k1\<lparr>pmm := P\<rparr>)"
    using wipe_run [OF k1(2)] assms(5) k1(3) by metis
  let ?l = "launched p f bs (set_page_table p Map.empty (k1\<lparr>pmm := P\<rparr>))"
  have load: "loadELF env f k1 = Inr (int p, ?l)"
    using load_into_slot [OF assms(8-10) slot w assms(11)] .
  have cpu: "cpu ?l = (cpu k)\<lparr>mmu := (mmu (cpu k))\<lparr>tables := (tables (mmu (cpu k)))(p := Map.empty)\<rparr>\<rparr>"
    by (simp add: launched_def Let_def set_page_table_def k1(4))
  have codes: "exitCodes ?l = exitCodes k1"
    by (simp add: launched_def Let_def set_page_table_def)
  have pt: "current_pte (mmu (cpu ?l)) a = current_pte (mmu (cpu k)) a" for a
    using assms(14) unfolding cpu by (simp add: current_pte_def split: option.split)
  have c: "cpu_ok (cpu ?l)" "vmEnabled (mmu (cpu ?l))"
    using assms(12,13) unfolding cpu by (auto simp: cpu_ok_def mmu_ok_def frames_ok_def split: if_splits)
  have g: "granted (cpu ?l) (arg1 ctx) True = Some pte"
    using assms(17) by (simp add: granted_def pt)
  from store_granted [OF c this _ assms(18), of code]
  have store: "cpu_storeVirtualMemory (arg1 ctx) 4 code (cpu ?l) = Inr ((), (cpu ?l)\<lparr>mmu := (touch (mmu (cpu ?l)) (arg1 ctx) True)\<lparr>memory :=
      mem_splice (memory (mmu (cpu ?l))) (phys_at pte (arg1 ctx)) (word_bytes 4 code)\<rparr>\<rparr>)"
    by simp
  let ?c = "(cpu ?l)\<lparr>mmu := (touch (mmu (cpu ?l)) (arg1 ctx) True)\<lparr>memory :=
      mem_splice (memory (mmu (cpu ?l))) (phys_at pte (arg1 ctx)) (word_bytes 4 code)\<rparr>\<rparr>"
  have "exitCodes ?l (sint (arg0 ctx)) = Some code"
    by (simp add: codes k1(7) assms(15))
  then have join: "handleJoinProcess ctx ?l = Inr (done_with 1, ?l\<lparr>cpu := ?c, exitCodes := (exitCodes ?l)(int p := None)\<rparr>)"
    using assms(15,16) store
    by (simp add: handleJoinProcess_def bind_run gets_run andthen_run ret_run modify_run Let_def on_cpu_run)
  have "phys_at pte (arg1 ctx) + 4 \<le> unat MEMORY_SIZE"
    using phys_at_bound [OF granted_frame [OF c(1) g] assms(18)] .
  moreover have "mem_ok (memory (mmu (cpu ?l)))"
    using c(1) by (simp add: cpu_ok_def mmu_ok_def)
  ultimately have "take 4 (drop (phys_at pte (arg1 ctx)) (memory (mmu ?c))) = word_bytes 4 code"
    by (simp add: splice_same)
  then show ?thesis
    using k1(1,6) load join assms(1)
    by (simp add: andthen_run bind_run k_mem_def) (simp add: launched_def Let_def set_page_table_def k1(5,6) renewed_def nth_append)
qed

text \<open>Its run: process 1 ends with code 7, the file is loaded into its slot, and process 0 joins it.\<close>

definition caller_kernel :: "unit Kernel" where
  "caller_kernel = two_processes\<lparr>cpu := demo_cpu []\<rparr>"

theorem stale_exit_code_witness:
  "\<exists>k'. andthen (terminate elf_env 1 7) (bind (loadELF elf_env ''tiny'') (\<lambda>_. handleJoinProcess (args 1 4096))) caller_kernel =
      Inr (done_with 1, k') \<and> take 4 (drop 20480 (k_mem k')) = word_bytes 4 7 \<and> active (processList k' ! 1) \<and>
    t_state (allThreads k' ! 3) = READY"
proof -
  let ?k = caller_kernel
  have q: "processList two_processes ! Suc 0 = demo_process 1 [2] 0x2FFF000"
    by (simp add: two_processes_def manager_new)
  have l: "processList ?k = processList two_processes" "length (allThreads ?k) = 3" "pmm ?k = pmm two_processes"
    "page_table ?k 1 = demo_table" "waiters ?k (int 1) = []" "cpu ?k = demo_cpu []"
    by (simp_all add: caller_kernel_def page_table_def demo_mmu_def waiters_def) (simp_all add: two_processes_def booted_def)
  have k: "1 < length (processList ?k)" "active (processList ?k ! 1)" "\<forall>q < 1. active (processList ?k ! q)"
    "length (frameTable (pmm ?k)) = 16" "frames_low (page_table ?k 1)"
    "\<forall>i \<in> set (threads (processList ?k ! 1)). i < length (allThreads ?k)" "\<forall>i \<in> set (waiters ?k (int 1)). i < length (allThreads ?k)"
    using vm_inv_parts(1) [OF two_processes_vm] demo_frames
    by (simp_all add: l two_processes_length q two_processes_first demo_process_def pmm_ok_def l(4,5) [simplified])
      (auto simp: frames_low_def)
  have c: "cpu_ok (cpu ?k)" "vmEnabled (mmu (cpu ?k))" "currentTable (mmu (cpu ?k)) \<noteq> Some 1"
    by (simp_all add: l demo_cpu_ok) (simp add: demo_mmu_def)
  have g: "granted (cpu ?k) (arg1 (args 1 4096)) True = Some (PTE_new\<lparr>ppn := 5, valid := True, canRead := True, canWrite := True\<rparr>)"
    "page_offset (arg1 (args 1 4096)) + 4 \<le> 4096"
    by (simp_all add: args_def page_offset_def granted_def l current_pte_def demo_mmu_def demo_table_def vpn_of_def allows_def)
  have a: "sint (arg0 (args 1 4096)) = int 1" "arg1 (args 1 4096) \<noteq> 0" "host_file elf_env ''tiny'' = Some tiny_elf"
    by (simp_all add: args_def elf_env_def)
  from stale_exit_code [OF k a(3) tiny_file c a(1,2) g, of 7] show ?thesis
    by (simp add: l phys_at_def page_offset_def args_def PTE_new_def) blast
qed

section \<open>The main loop\<close>

text \<open>C27: The main loop stops exactly when no thread is ready or running: a kernel whose threads have all
  ended or wait for each other stops on the spot and unchanged, while one with a thread that can
  run goes on.\<close>

theorem loop_stops_iff_nothing_runs:
  assumes "sched_ok k" "one_running k"
    and "currentThreadIndex k \<noteq> -1 \<Longrightarrow> t_state (at k (nat (currentThreadIndex k))) \<noteq> READY"
  shows "(live k \<longrightarrow> (\<forall>go t' k'. turn env ticks k = Inr ((go, t'), k') \<longrightarrow> go)) \<and>
    (\<not> live k \<longrightarrow> loop env (Suc n) ticks k = Inr (Some ticks, k))"
  using loop_goes_on [OF assms(1) _ assms(2,3)] deadlock_ends [OF assms(1)] by blast

definition deadlocked :: "unit Kernel" where
  "deadlocked = two_processes\<lparr>allThreads := [thread_at 0 0 BLOCKED STACK_TOP, thread_at 1 0 BLOCKED 0x2FFF000,
     thread_at 0 1 TERMINATED STACK_TOP]\<rparr>"

theorem loop_stops_iff_nothing_runs_witness: "loop demo_env 1 17 deadlocked = Inr (Some 17, deadlocked)"
proof -
  have "sched_ok deadlocked"
    by (auto simp: sched_ok_def deadlocked_def two_processes_length demo_shape)
  moreover have "at deadlocked 0 = thread_at 0 0 BLOCKED STACK_TOP" "at deadlocked (Suc 0) = thread_at 1 0 BLOCKED 0x2FFF000"
    "at deadlocked (Suc (Suc 0)) = thread_at 0 1 TERMINATED STACK_TOP"
    by (simp_all add: deadlocked_def at_def demo_shape)
  moreover have "length (activeThreads deadlocked) = Suc (Suc (Suc 0))" "currentThreadIndex deadlocked = 0"
    by (simp_all add: deadlocked_def demo_shape)
  moreover have "j = 0 \<or> j = Suc 0 \<or> j = Suc (Suc 0)" if "j < Suc (Suc (Suc 0))" for j
    using that by linarith
  ultimately have "sched_ok deadlocked" "one_running deadlocked" "\<not> live deadlocked"
    "t_state (at deadlocked (nat (currentThreadIndex deadlocked))) \<noteq> READY"
    unfolding one_running_def live_def by force+
  then show ?thesis
    using loop_stops_iff_nothing_runs [of deadlocked demo_env 17 0] by simp
qed

end
