(* ===== verification/UserMemory.thy ===== *)
theory UserMemory
  imports Dispatch
begin

text \<open>
  The buffers of system calls: the kernel reads and writes user memory byte by byte through the
  translated accesses of the processor (\<^verbatim>\<open>handleRead\<close>, \<^verbatim>\<open>handleWrite\<close> and the file names of
  \<^verbatim>\<open>syscall/SyscallHandler.cpp\<close>).  The abstract view of user memory is the function
  \<^verbatim>\<open>user_byte\<close>; the lemmas say what a transfer reads and what it leaves behind.
\<close>

section \<open>User memory as a function\<close>

text \<open>The byte the process sees at an address; where it may not read, the kernel takes zero.\<close>

definition user_byte :: "Machine \<Rightarrow> Addr \<Rightarrow> Byte" where
  "user_byte c a = (case granted c a False of None \<Rightarrow> 0 | Some pte \<Rightarrow> memory (mmu c) ! phys_at pte a)"

definition user_bytes :: "Machine \<Rightarrow> Addr \<Rightarrow> nat \<Rightarrow> Byte list" where
  "user_bytes c a n = map (\<lambda>j. user_byte c (a + of_nat j)) [0..<n]"

text \<open>A byte the kernel can put there, so that the process sees it.\<close>

definition mapped :: "Machine \<Rightarrow> Addr \<Rightarrow> bool" where
  "mapped c a \<longleftrightarrow> granted c a False \<noteq> None \<and> granted c a True \<noteq> None"

text \<open>No byte of memory is visible at two addresses.\<close>

definition one_to_one :: "Machine \<Rightarrow> bool" where
  "one_to_one c \<longleftrightarrow> (\<forall>a b w w' p q. granted c a w = Some p \<longrightarrow> granted c b w' = Some q \<longrightarrow>
     phys_at p a = phys_at q b \<longrightarrow> a = b)"

text \<open>What no transfer changes: registers, program counter, and which frame an address leads to.\<close>

definition same_view :: "Machine \<Rightarrow> Machine \<Rightarrow> bool" where
  "same_view c c' \<longleftrightarrow> cpu_ok c' \<and> vmEnabled (mmu c') \<and> regs c' = regs c \<and> pc c' = pc c \<and>
     (\<forall>a w. map_option ppn (granted c' a w) = map_option ppn (granted c a w))"

lemma same_view_refl: "cpu_ok c \<Longrightarrow> vmEnabled (mmu c) \<Longrightarrow> same_view c c"
  by (simp add: same_view_def)

lemma same_view_trans: "same_view c c' \<Longrightarrow> same_view c' c'' \<Longrightarrow> same_view c c''"
  unfolding same_view_def by metis

lemma same_view_some:
  assumes "same_view c c'" "granted c a w = Some p"
  obtains p' where "granted c' a w = Some p'" "phys_at p' a = phys_at p a"
proof -
  have "map_option ppn (granted c' a w) = Some (ppn p)"
    using assms by (simp add: same_view_def)
  then obtain p' where "granted c' a w = Some p'" "ppn p' = ppn p"
    by auto
  then show ?thesis
    by (rule_tac p' = p' in that) (simp_all add: phys_at_def)
qed

lemma same_view_none: "same_view c c' \<Longrightarrow> granted c' a w = None \<longleftrightarrow> granted c a w = None"
  unfolding same_view_def by (metis option.map_disc_iff)

lemma same_view_back:
  assumes "same_view c c'" "granted c' a w = Some p'"
  obtains p where "granted c a w = Some p" "phys_at p' a = phys_at p a"
  using same_view_some [OF assms(1)] same_view_none [OF assms(1)] assms(2) by (metis option.exhaust option.inject)

lemma same_view_mapped: "same_view c c' \<Longrightarrow> mapped c' a = mapped c a"
  by (simp add: mapped_def same_view_none)

lemma same_view_one_to_one:
  assumes "same_view c c'" "one_to_one c" shows "one_to_one c'"
  unfolding one_to_one_def
proof (intro allI impI)
  fix a b w w' p q
  assume "granted c' a w = Some p" "granted c' b w' = Some q" "phys_at p a = phys_at q b"
  then obtain p0 q0 where "granted c a w = Some p0" "granted c b w' = Some q0" "phys_at p0 a = phys_at q0 b"
    using same_view_back [OF assms(1)] by metis
  then show "a = b"
    using assms(2) unfolding one_to_one_def by blast
qed

lemma same_bytes:
  assumes "same_view c c'" "memory (mmu c') = memory (mmu c)" shows "user_byte c' a = user_byte c a"
proof (cases "granted c a False")
  case None
  then have "granted c' a False = None"
    using same_view_none [OF assms(1)] by blast
  then show ?thesis
    using None by (simp add: user_byte_def)
next
  case (Some p)
  then show ?thesis
    using same_view_some [OF assms(1) Some] assms(2) by (metis option.simps(5) user_byte_def)
qed

section \<open>One byte\<close>

lemma granted_touch: "map_option ppn (granted (c\<lparr>mmu := (touch (mmu c) b v)\<rparr>) a w) = map_option ppn (granted c a w)"
  by (auto simp: granted_def current_pte_def touch_def allows_def split: option.splits)

lemma granted_memory: "granted (c\<lparr>mmu := u\<lparr>memory := m\<rparr>\<rparr>) a w = granted (c\<lparr>mmu := u\<rparr>) a w"
  by (simp add: granted_def)

lemma granted_trap [simp]: "granted (page_fault c b) a w = granted c a w"
  by (simp add: granted_def page_fault_def)

lemma offset_in_page: "page_offset a + 1 \<le> 4096"
  using mod_less_divisor [of 4096 "unat a"] unfolding page_offset_def by linarith

lemma granted_in_memory: "cpu_ok c \<Longrightarrow> granted c a w = Some p \<Longrightarrow> phys_at p a < length (memory (mmu c))"
  using phys_at_bound [OF _ offset_in_page, of p a] granted_frame [of c a w p]
  by (simp add: cpu_ok_def mmu_ok_def mem_ok_def)

lemma faulted_view: "cpu_ok c \<Longrightarrow> vmEnabled (mmu c) \<Longrightarrow> same_view c (page_fault c a)"
  by (simp add: same_view_def) (simp add: page_fault_def cpu_ok_def)

lemma load_byte:
  assumes "cpu_ok c" "vmEnabled (mmu c)"
  shows "\<exists>c'. cpu_loadVirtualMemory a 1 c = Inr (ucast (user_byte c a), c') \<and> same_view c c' \<and>
    memory (mmu c') = memory (mmu c)"
proof (cases "granted c a False")
  case None
  then show ?thesis
    using assms faulted_view [OF assms] load_refused [OF assms None]
    by (auto simp: user_byte_def page_fault_def)
next
  case (Some p)
  have "bytes_word (take 1 (drop (phys_at p a) (memory (mmu c)))) = ucast (user_byte c a)"
    using granted_in_memory [OF assms(1) Some] Some by (simp add: user_byte_def take_Suc_conv_app_nth)
  moreover have "same_view c (c\<lparr>mmu := touch (mmu c) a False\<rparr>)"
    using assms by (simp add: same_view_def granted_touch) (simp add: cpu_ok_def mmu_ok_touch)
  ultimately show ?thesis
    using load_granted [OF assms Some _ offset_in_page] by simp
qed

lemma touched_with: "mmu_ok u \<Longrightarrow> mmu_ok ((touch u a w)\<lparr>memory := (memory u)[i := b]\<rparr>)"
  using mmu_ok_touch [of u a w] by (auto simp: mmu_ok_def mem_ok_def frames_ok_def)

lemma store_byte:
  assumes "cpu_ok c" "vmEnabled (mmu c)"
  shows "\<exists>c'. cpu_storeVirtualMemory a 1 v c = Inr ((), c') \<and> same_view c c' \<and>
    memory (mmu c') = (case granted c a True of None \<Rightarrow> memory (mmu c)
                       | Some p \<Rightarrow> (memory (mmu c))[phys_at p a := ucast v])"
proof (cases "granted c a True")
  case None
  then show ?thesis
    using assms faulted_view [OF assms] store_refused [OF assms None] by (auto simp: page_fault_def)
next
  case (Some p)
  let ?m = "(memory (mmu c))[phys_at p a := ucast v]"
  have m: "mem_splice (memory (mmu c)) (phys_at p a) (word_bytes (Suc 0) v) = ?m"
    using granted_in_memory [OF assms(1) Some] by (simp add: word_bytes_one mem_splice_one)
  have "same_view c (c\<lparr>mmu := (touch (mmu c) a True)\<lparr>memory := ?m\<rparr>\<rparr>)"
    using assms by (simp add: same_view_def granted_touch granted_memory) (simp add: cpu_ok_def touched_with)
  then show ?thesis
    using store_granted [OF assms Some _ offset_in_page, of v] Some by (simp add: m)
qed

section \<open>Many bytes\<close>

text \<open>A transfer out of user memory reads \<^verbatim>\<open>user_bytes\<close>.\<close>

lemma read_bytes_upto:
  assumes "cpu_ok c" "vmEnabled (mmu c)" "n \<le> N"
  shows "\<exists>c'. foldM (\<lambda>buf i. bind (cpu_loadVirtualMemory (base + of_nat i) 1) (\<lambda>w. ret (buf[i := ucast w])))
      (replicate N 0) [0..<n] c = Inr (map (\<lambda>i. if i < n then user_byte c (base + of_nat i) else 0) [0..<N], c') \<and>
    same_view c c' \<and> memory (mmu c') = memory (mmu c)"
  using assms(3)
proof (induction n)
  case 0
  have "map (\<lambda>i. 0 :: Byte) [0..<N] = replicate N 0"
    by (simp add: map_replicate_const)
  then show ?case
    using same_view_refl [OF assms(1,2)] by (simp add: run)
next
  case (Suc n)
  let ?body = "\<lambda>buf i. bind (cpu_loadVirtualMemory (base + of_nat i) 1) (\<lambda>w. ret (buf[i := ucast w] :: Byte list))"
  obtain c1 where c1: "foldM ?body (replicate N 0) [0..<n] c =
      Inr (map (\<lambda>i. if i < n then user_byte c (base + of_nat i) else 0) [0..<N], c1)"
    "same_view c c1" "memory (mmu c1) = memory (mmu c)"
    using Suc by auto
  have "cpu_ok c1" "vmEnabled (mmu c1)"
    using c1(2) by (simp_all add: same_view_def)
  then obtain c2 where c2: "cpu_loadVirtualMemory (base + of_nat n) 1 c1 = Inr (ucast (user_byte c1 (base + of_nat n)), c2)"
    "same_view c1 c2" "memory (mmu c2) = memory (mmu c1)"
    using load_byte by blast
  have "(ucast (ucast b :: Word) :: Byte) = b" for b :: Byte
    by (rule bit_word_eqI) (simp add: bit_ucast_iff)
  moreover have "(map (\<lambda>i. if i < n then user_byte c (base + of_nat i) else 0) [0..<N])[n := user_byte c (base + of_nat n)]
      = map (\<lambda>i. if i < Suc n then user_byte c (base + of_nat i) else 0) [0..<N]"
    by (rule nth_equalityI) (auto simp: nth_list_update less_Suc_eq)
  ultimately have "foldM ?body (replicate N 0) [0..<Suc n] c =
      Inr (map (\<lambda>i. if i < Suc n then user_byte c (base + of_nat i) else 0) [0..<N], c2)"
    using c1 c2(1) same_bytes [OF c1(2,3)] by (simp add: foldM_append run)
  then show ?case
    using same_view_trans [OF c1(2) c2(2)] c1(3) c2(3) by auto
qed

lemma read_bytes:
  assumes "cpu_ok c" "vmEnabled (mmu c)"
  shows "\<exists>c'. copy_out (\<lambda>a. cpu_loadVirtualMemory a 1) base n c = Inr (user_bytes c base n, c') \<and>
    same_view c c' \<and> memory (mmu c') = memory (mmu c)"
proof -
  have "map (\<lambda>i. if i < n then user_byte c (base + of_nat i) else 0) [0..<n] = user_bytes c base n"
    by (simp add: user_bytes_def)
  then show ?thesis
    using read_bytes_upto [OF assms order_refl, of base n] by (simp add: copy_out_def)
qed

text \<open>One stored byte changes what the process sees at that address only.\<close>

lemma stored_byte:
  assumes c: "cpu_ok c" "one_to_one c" and v: "same_view c c'"
    and m: "memory (mmu c') = (case granted c a True of None \<Rightarrow> memory (mmu c)
                               | Some p \<Rightarrow> (memory (mmu c))[phys_at p a := x])"
  shows "user_byte c' b = (if b = a \<and> mapped c a then x else user_byte c b)"
proof (cases "granted c b False")
  case None
  then have "granted c' b False = None"
    using same_view_none [OF v] by blast
  then show ?thesis
    using None by (auto simp: user_byte_def mapped_def)
next
  case (Some q)
  obtain q' where q': "granted c' b False = Some q'" "phys_at q' b = phys_at q b"
    using same_view_some [OF v Some] by blast
  show ?thesis
  proof (cases "granted c a True")
    case None
    then show ?thesis
      using Some q' m by (simp add: user_byte_def mapped_def)
  next
    case t: (Some p)
    have "phys_at p a = phys_at q b \<longleftrightarrow> a = b"
      using c(2) Some t granted_Some [OF Some] granted_Some [OF t] unfolding one_to_one_def by auto
    then show ?thesis
      using Some t q' m granted_in_memory [OF c(1) t] by (auto simp: user_byte_def mapped_def)
  qed
qed

lemma write_bytes_upto:
  assumes "cpu_ok c" "vmEnabled (mmu c)" "one_to_one c" "n \<le> 2 ^ 32"
  shows "\<exists>c'. for_each [0..<n] (\<lambda>i. cpu_storeVirtualMemory (base + of_nat i) 1 (f i)) c = Inr ((), c') \<and> same_view c c' \<and>
    (\<forall>a. user_byte c' a = (if unat (a - base) < n \<and> mapped c a then ucast (f (unat (a - base))) else user_byte c a))"
  using assms(4)
proof (induction n)
  case 0
  then show ?case
    using same_view_refl [OF assms(1,2)] by (simp add: run for_each_def)
next
  case (Suc n)
  then obtain c1 where c1: "for_each [0..<n] (\<lambda>i. cpu_storeVirtualMemory (base + of_nat i) 1 (f i)) c = Inr ((), c1)"
    "same_view c c1"
    "\<And>a. user_byte c1 a = (if unat (a - base) < n \<and> mapped c a then ucast (f (unat (a - base))) else user_byte c a)"
    by auto
  have ok: "cpu_ok c1" "vmEnabled (mmu c1)" "one_to_one c1"
    using c1(2) same_view_one_to_one [OF c1(2) assms(3)] by (simp_all add: same_view_def)
  let ?a = "base + of_nat n"
  obtain c2 where c2: "cpu_storeVirtualMemory ?a 1 (f n) c1 = Inr ((), c2)" "same_view c1 c2"
    "memory (mmu c2) = (case granted c1 ?a True of None \<Rightarrow> memory (mmu c1)
                        | Some p \<Rightarrow> (memory (mmu c1))[phys_at p ?a := ucast (f n)])"
    using store_byte [OF ok(1,2)] by blast
  have b: "user_byte c2 a = (if a = ?a \<and> mapped c ?a then ucast (f n) else user_byte c1 a)" for a
    using stored_byte [OF ok(1,3) c2(2,3)] same_view_mapped [OF c1(2)] by simp
  have u: "a = ?a \<longleftrightarrow> unat (a - base) = n" for a
  proof -
    have "unat (of_nat n :: Addr) = n"
      using Suc.prems by (simp add: unat_of_nat)
    then have "a - base = of_nat n \<longleftrightarrow> unat (a - base) = n"
      by (auto simp: word_unat_eq_iff)
    then show ?thesis
      by (auto simp: algebra_simps)
  qed
  have "user_byte c2 a = (if unat (a - base) < Suc n \<and> mapped c a then ucast (f (unat (a - base))) else user_byte c a)" for a
    unfolding b c1(3) using u [of a] by (auto simp: less_Suc_eq)
  moreover have "for_each [0..<Suc n] (\<lambda>i. cpu_storeVirtualMemory (base + of_nat i) 1 (f i)) c = Inr ((), c2)"
    using c1(1) c2(1) by (simp add: for_each_append run)
  ultimately show ?case
    using same_view_trans [OF c1(2) c2(2)] by blast
qed

lemma write_bytes:
  assumes "cpu_ok c" "vmEnabled (mmu c)" "one_to_one c" "length bs \<le> 2 ^ 32"
  shows "\<exists>c'. copy_in (\<lambda>a. cpu_storeVirtualMemory a 1) base (map ucast bs) c = Inr ((), c') \<and> same_view c c' \<and>
    (\<forall>a. user_byte c' a = (if unat (a - base) < length bs \<and> mapped c a then bs ! unat (a - base) else user_byte c a))"
proof -
  have "(ucast (ucast b :: Word) :: Byte) = b" for b :: Byte
    by (rule bit_word_eqI) (simp add: bit_ucast_iff)
  then show ?thesis
    using write_bytes_upto [OF assms(1,2,3), of "length bs" base "\<lambda>i. map ucast bs ! i"] assms(4)
    by (simp add: copy_in_def cong: conj_cong if_cong)
qed

section \<open>Under the bookkeeping of physical memory\<close>

lemma unat_split: "unat a = unat (vpn_of a) * 4096 + page_offset a"
  by (simp add: vpn_of_def page_offset_def unat_drop_bit_eq drop_bit_eq_div unat_div)

lemma phys_at_parts: "phys_at p a div 4096 = unat (ppn p)" "phys_at p a mod 4096 = page_offset a"
  by (simp_all add: phys_at_def page_offset_def)

text \<open>Frames have one owner each, so a process never sees a byte of memory at two addresses.\<close>

lemma vm_one_to_one:
  assumes "vm_ok k" shows "one_to_one (cpu k)"
  unfolding one_to_one_def
proof (intro allI impI)
  fix a b w w' p q
  assume g: "granted (cpu k) a w = Some p" "granted (cpu k) b w' = Some q" and e: "phys_at p a = phys_at q b"
  obtain t where t: "page_table k t (vpn_of a) = Some p" "page_table k t (vpn_of b) = Some q"
    using granted_Some [OF g(1)] granted_Some [OF g(2)] by (auto simp: current_pte_def page_table_def split: option.splits)
  have v: "valid p" "valid q"
    using granted_Some [OF g(1)] granted_Some [OF g(2)] by (simp_all add: allows_def)
  have f: "unat (ppn p) = unat (ppn q)" "page_offset a = page_offset b"
    using e by (metis phys_at_parts(1), metis phys_at_parts(2))
  have "pmm_owner (pmm k) (unat (ppn p)) = Some (int t, vpn_of a)" "pmm_owner (pmm k) (unat (ppn q)) = Some (int t, vpn_of b)"
    using book_valid [OF vm_inv_parts(7) [OF assms] t(1) v(1)] book_valid [OF vm_inv_parts(7) [OF assms] t(2) v(2)]
    by blast+
  then have "vpn_of a = vpn_of b"
    unfolding f(1) by simp
  then have "unat a = unat b"
    using unat_split [of a] unat_split [of b] f(2) by metis
  then show "a = b"
    by (simp add: word_unat_eq_iff)
qed

section \<open>Transfers in the kernel\<close>

lemma on_cpu_bind: "bind (on_cpu m) (\<lambda>x. on_cpu (n x)) = on_cpu (bind m n)"
  by (simp add: fun_eq_iff on_cpu_run bind_run split: sum.split)

lemma on_cpu_ret: "on_cpu (ret x) = ret x"
  by (simp add: fun_eq_iff on_cpu_run ret_run)

lemma on_cpu_foldM: "foldM (\<lambda>a x. on_cpu (b a x)) a xs = on_cpu (foldM b a xs)"
  by (induction xs arbitrary: a) (simp_all add: foldM_Nil foldM_Cons on_cpu_ret on_cpu_bind)

lemma on_cpu_map: "bind (on_cpu m) (\<lambda>x. ret (f x)) = on_cpu (bind m (\<lambda>x. ret (f x)))"
  using on_cpu_bind [of m "\<lambda>x. ret (f x)"] by (simp only: on_cpu_ret)

lemma on_cpu_copy_out: "copy_out (\<lambda>a. on_cpu (load a)) base n = on_cpu (copy_out load base n)"
  by (simp only: copy_out_def on_cpu_map on_cpu_foldM)

lemma on_cpu_copy_in: "copy_in (\<lambda>a. on_cpu \<circ> store a) base ws = on_cpu (copy_in store base ws)"
  by (simp only: copy_in_def for_each_def o_apply on_cpu_foldM)

definition with_cpu :: "Machine \<Rightarrow> 'w Kernel \<Rightarrow> 'w Kernel" where
  "with_cpu c k = k\<lparr>cpu := c\<rparr>"

lemma user_read_run:
  assumes "cpu_ok (cpu k)" "vmEnabled (mmu (cpu k))"
  obtains c where "copy_out (\<lambda>a. on_cpu (cpu_loadVirtualMemory a 1)) base n k = Inr (user_bytes (cpu k) base n, with_cpu c k)"
    "same_view (cpu k) c" "memory (mmu c) = memory (mmu (cpu k))"
  using read_bytes [OF assms, of base n] that by (auto simp: on_cpu_copy_out on_cpu_run with_cpu_def)

lemma user_write_run:
  assumes "cpu_ok (cpu k)" "vmEnabled (mmu (cpu k))" "one_to_one (cpu k)" "length bs \<le> 2 ^ 32"
  obtains c where "copy_in (\<lambda>a. on_cpu \<circ> cpu_storeVirtualMemory a 1) base (map ucast bs) k = Inr ((), with_cpu c k)"
    "same_view (cpu k) c" "\<And>a. user_byte c a =
       (if unat (a - base) < length bs \<and> mapped (cpu k) a then bs ! unat (a - base) else user_byte (cpu k) a)"
  using write_bytes [OF assms, of base] that by (auto simp: on_cpu_copy_in on_cpu_run with_cpu_def)

end
