(* ===== verification/FileCalls.thy ===== *)
theory FileCalls
  imports UserMemory
begin

text \<open>
  The file system calls end to end: \<^verbatim>\<open>handleRead\<close> and \<^verbatim>\<open>handleWrite\<close> move bytes between
  user memory and the byte sequence behind a descriptor, and \<^verbatim>\<open>handleOpen\<close> and \<^verbatim>\<open>handleCreate\<close>
  take the file's name from user memory (\<^verbatim>\<open>syscall/SyscallHandler.cpp\<close>).
\<close>

section \<open>A thread that makes a system call\<close>

definition calling :: "nat \<Rightarrow> 'w Kernel \<Rightarrow> bool" where
  "calling i k \<longleftrightarrow> sched_ok k \<and> currentThreadIndex k = int i \<and> i < length (activeThreads k) \<and>
     cpu_ok (cpu k) \<and> vmEnabled (mmu (cpu k))"

definition has_open :: "nat \<Rightarrow> nat \<Rightarrow> DiskFileHandle \<Rightarrow> 'w Kernel \<Rightarrow> bool" where
  "has_open p fd d k \<longleftrightarrow> p < length (processList k) \<and> fd < length (fds p k) \<and>
     fds p k ! fd = Some (DiskHandle d) \<and> file_ok k d"

lemma calling_process: "calling i k \<Longrightarrow> current_process k = Inr (parent (at k i), k)"
  using current_thread_run [of k i] by (simp add: calling_def current_process_def bind_run)

lemma calling_machine: "calling i k \<Longrightarrow> cpu_ok (cpu k)" "calling i k \<Longrightarrow> vmEnabled (mmu (cpu k))"
  "calling i k \<Longrightarrow> rf_ok (regs (cpu k))"
  by (simp_all add: calling_def cpu_ok_def)

lemma calling_stats [simp]: "calling i (k\<lparr>stats := st\<rparr>) = calling i k" "has_open p fd d (k\<lparr>stats := st\<rparr>) = has_open p fd d k"
  by (simp_all add: calling_def has_open_def file_ok_def disk_ok_def)

lemma open_handle:
  assumes "has_open p fd d k" "sint w = int fd"
  shows "getFileHandle p (sint w) k = Inr (Some (DiskHandle d), k)" "nat (sint w) = fd"
  using assms getFileHandle_run [of p k "sint w"] by (simp_all add: has_open_def)

section \<open>What the file operations leave alone\<close>

definition with_disk :: "InMemoryDisk \<Rightarrow> Stats \<Rightarrow> 'a IO_scheme \<Rightarrow> 'a IO_scheme" where
  "with_disk dk st s = s\<lparr>disk := dk, stats := st\<rparr>"

lemma write_frame:
  assumes "file_ok s h" "n \<le> length buffer" "DiskFileHandle_write h buffer n s = Inr (r, s')"
  obtains dk st where "s' = with_disk dk st s"
proof (cases "DiskFileHandle_eof h")
  case True
  then have "s' = with_disk (disk s) (stats s) s"
    using assms(3) by (simp add: DiskFileHandle_write_def ret_run with_disk_def)
  then show ?thesis
    by (rule that)
next
  case False
  obtain dk st where "s' = s\<lparr>stats := st, disk := dk\<rparr>"
    using write_run [OF assms(1) False refl assms(2)] assms(3) by auto
  then have "s' = with_disk dk st s"
    by (simp add: with_disk_def)
  then show ?thesis
    by (rule that)
qed

lemma read_frame:
  assumes "file_ok s h" "DiskFileHandle_read h buffer n s = Inr (r, s')"
  obtains dk st where "s' = with_disk dk st s"
proof (cases "DiskFileHandle_eof h")
  case True
  then have "s' = with_disk (disk s) (stats s) s"
    using assms(2) by (simp add: DiskFileHandle_read_def ret_run with_disk_def)
  then show ?thesis
    by (rule that)
next
  case False
  obtain st where "s' = s\<lparr>stats := st\<rparr>"
    using read_run [OF assms(1) False refl, of buffer n] assms(2) by auto
  then have "s' = with_disk (disk s) st s"
    by (simp add: with_disk_def)
  then show ?thesis
    by (rule that)
qed

lemma with_disk_simps [simp]:
  fixes k :: "'w Kernel"
  shows "cpu (with_disk dk st k) = cpu k" "processList (with_disk dk st k) = processList k"
    "disk (with_disk dk st k) = dk" "allThreads (with_disk dk st k) = allThreads k"
    "activeThreads (with_disk dk st k) = activeThreads k" "currentThreadIndex (with_disk dk st k) = currentThreadIndex k"
  by (simp_all add: with_disk_def)

lemma with_cpu_simps [simp]:
  "cpu (with_cpu c k) = c" "processList (with_cpu c k) = processList k" "disk (with_cpu c k) = disk k"
  "allThreads (with_cpu c k) = allThreads k" "activeThreads (with_cpu c k) = activeThreads k"
  "currentThreadIndex (with_cpu c k) = currentThreadIndex k"
  by (simp_all add: with_cpu_def)

lemma put_fd_simps [simp]: "cpu (put_fd p fd h k) = cpu k" "disk (put_fd p fd h k) = disk k"
  by (simp_all add: put_fd_def put_process_def)

lemma file_same_disk:
  "disk k' = disk k \<Longrightarrow> file_ok k' d = file_ok k d" "disk k' = disk k \<Longrightarrow> file_abs k' d = file_abs k d"
  by (simp_all add: file_ok_def file_abs_def file_bytes_def disk_ok_def)

text \<open>What the calls below leave as it is, whatever they move.\<close>

definition keeps_caller :: "'w Kernel \<Rightarrow> 'w Kernel \<Rightarrow> bool" where
  "keeps_caller k k' \<longleftrightarrow> same_view (cpu k) (cpu k') \<and> allThreads k' = allThreads k \<and>
     activeThreads k' = activeThreads k \<and> currentThreadIndex k' = currentThreadIndex k \<and>
     length (processList k') = length (processList k) \<and> vfs k' = vfs k \<and>
     totalBlocks (disk k') = totalBlocks (disk k)"

lemma caller_goes_on:
  assumes "keeps_caller k k'" "calling i k" shows "calling i k'" "parent (at k' i) = parent (at k i)"
  using assms by (simp_all add: keeps_caller_def calling_def sched_ok_def same_view_def at_def)

lemma more_simps [simp]:
  fixes k :: "'w Kernel"
  shows "vfs (with_disk dk st k) = vfs k" "vfs (with_cpu c k) = vfs k" "vfs (put_fd p fd h k) = vfs k"
    "allThreads (put_fd p fd h k) = allThreads k" "activeThreads (put_fd p fd h k) = activeThreads k"
    "currentThreadIndex (put_fd p fd h k) = currentThreadIndex k"
  by (simp_all add: with_disk_def with_cpu_def put_fd_def put_process_def)

section \<open>Writing\<close>

lemma write_transfers:
  assumes "calling i k" "has_open (parent (at k i)) fd d k" "sint (arg0 ctx) = int fd"
  shows "\<exists>k' m d'. handleWrite env ctx k = Inr (done_with (of_nat m), k') \<and> has_open (parent (at k i)) fd d' k' \<and>
    afile_write (user_bytes (cpu k) (arg1 ctx) (unat (arg2 ctx))) (file_abs k d) = (m, file_abs k' d') \<and>
    startBlockIndex d' = startBlockIndex d \<and> fileSize d' = fileSize d \<and>
    fds (parent (at k i)) k' = (fds (parent (at k i)) k)[fd := Some (DiskHandle d')] \<and>
    keeps_caller k k' \<and> memory (mmu (cpu k')) = memory (mmu (cpu k))"
proof -
  let ?p = "parent (at k i)" and ?n = "unat (arg2 ctx)"
  let ?b = "user_bytes (cpu k) (arg1 ctx) ?n"
  obtain c where c: "copy_out (\<lambda>a. on_cpu (cpu_loadVirtualMemory a 1)) (arg1 ctx) ?n k = Inr (?b, with_cpu c k)"
    "same_view (cpu k) c" "memory (mmu c) = memory (mmu (cpu k))"
    using user_read_run calling_machine(1,2) [OF assms(1)] by blast
  let ?k1 = "with_cpu c k"
  have f: "file_ok ?k1 d" "length ?b = ?n"
    using assms(2) by (simp_all add: has_open_def file_same_disk(1) [of "with_cpu c k" k] user_bytes_def)
  obtain m d' k2 where w: "DiskFileHandle_write d ?b ?n ?k1 = Inr ((m, d'), k2)" "file_ok k2 d'"
    "afile_write (take ?n ?b) (file_abs ?k1 d) = (m, file_abs k2 d')"
    "startBlockIndex d' = startBlockIndex d" "fileSize d' = fileSize d" "totalBlocks (disk k2) = totalBlocks (disk ?k1)"
    using write_refines_afile [OF f(1), of ?n ?b] f(2) by auto
  obtain dk st where k2: "k2 = with_disk dk st ?k1"
    using write_frame [OF f(1) _ w(1)] f(2) by auto
  let ?k3 = "put_fd ?p fd (Some (DiskHandle d')) k2"
  have p: "?p < length (processList k)" "fd < length (fds ?p k)"
    using assms(2) by (simp_all add: has_open_def)
  have "handle_write env ?p fd (DiskHandle d) ?b ?n ?k1 = Inr (of_nat m, ?k3)"
    using p w(1) by (simp add: handle_write_def bind_run andthen_run ret_run upd_process_run put_fd_def k2)
  then have "handleWrite env ctx k = Inr (done_with (of_nat m), ?k3)"
    using open_handle [OF assms(2,3)] c(1) calling_process [OF assms(1)]
    by (simp add: handleWrite_def bind_run ret_run Let_def)
  moreover have "file_ok ?k3 d'"
    using w(2) file_same_disk(1) [of ?k3 k2] by simp
  then have "has_open ?p fd d' ?k3"
    using p by (simp add: has_open_def k2)
  moreover have "afile_write ?b (file_abs k d) = (m, file_abs ?k3 d')"
    using w(3) f(2) file_same_disk(2) [of ?k3 k2 d'] file_same_disk(2) [of ?k1 k d] by simp
  moreover have "keeps_caller k ?k3" "cpu ?k3 = c" "fds ?p ?k3 = (fds ?p k)[fd := Some (DiskHandle d')]"
    using c(2) w(6) p by (simp_all add: k2 keeps_caller_def)
  ultimately show ?thesis
    using c(3) w(4,5) by (intro exI [of _ ?k3] exI [of _ m] exI [of _ d']) simp
qed

section \<open>Reading\<close>

lemma read_transfers:
  assumes "calling i k" "has_open (parent (at k i)) fd d k" "sint (arg0 ctx) = int fd" "one_to_one (cpu k)"
  shows "\<exists>k' bs d'. handleRead env ctx k = Inr (done_with (of_nat (length bs)), k') \<and>
    has_open (parent (at k i)) fd d' k' \<and>
    afile_read (unat (arg2 ctx)) (file_abs k d) = (bs, file_abs k' d') \<and> keeps_caller k k' \<and>
    (\<forall>a. user_byte (cpu k') a = (if unat (a - arg1 ctx) < length bs \<and> mapped (cpu k) a
                              then bs ! unat (a - arg1 ctx) else user_byte (cpu k) a))"
proof -
  let ?p = "parent (at k i)" and ?n = "unat (arg2 ctx)" and ?z = "replicate (unat (arg2 ctx)) (0 :: Byte)"
  have fo: "file_ok k d" "?p < length (processList k)" "fd < length (fds ?p k)"
    using assms(2) by (simp_all add: has_open_def)
  obtain m buf d' k1 where r: "DiskFileHandle_read d ?z ?n k = Inr ((m, buf, d'), k1)" "file_ok k1 d'"
    "m = length (take m buf)" "afile_read ?n (file_abs k d) = (take m buf, file_abs k1 d')" "disk k1 = disk k"
    using read_refines_afile [OF fo(1), of ?n ?z] by auto
  obtain dk st where k1: "k1 = with_disk dk st k"
    using read_frame [OF fo(1) r(1)] .
  let ?k2 = "put_fd ?p fd (Some (DiskHandle d')) k1"
  let ?bs = "take m buf"
  have h: "handle_read env ?p fd (DiskHandle d) ?z ?n k = Inr ((int m, buf), ?k2)"
    using fo r(1) by (simp add: handle_read_def bind_run andthen_run ret_run upd_process_run put_fd_def k1)
  have m: "m \<le> length buf" "length ?bs = m"
    using r(3) by auto
  have "?bs = take ?n (drop (snd (file_abs k d)) (fst (file_abs k d)))"
    using r(4) by (simp add: afile_read_def Let_def)
  then have "length ?bs \<le> ?n"
    by (metis length_take min.cobounded2)
  moreover have "?n < 2 ^ LENGTH(32)"
    by (rule unsigned_less)
  ultimately have small: "length ?bs \<le> 2 ^ 32"
    by simp
  have c2: "cpu ?k2 = cpu k"
    by (simp add: k1)
  have ok: "cpu_ok (cpu ?k2)" "vmEnabled (mmu (cpu ?k2))" "one_to_one (cpu ?k2)"
    using calling_machine [OF assms(1)] assms(4) by (simp_all add: k1)
  obtain c where c: "copy_in (\<lambda>a. on_cpu \<circ> cpu_storeVirtualMemory a 1) (arg1 ctx) (map ucast ?bs) ?k2 = Inr ((), with_cpu c ?k2)"
    "same_view (cpu ?k2) c" "\<And>a. user_byte c a = (if unat (a - arg1 ctx) < length ?bs \<and> mapped (cpu ?k2) a
       then ?bs ! unat (a - arg1 ctx) else user_byte (cpu ?k2) a)"
    by (rule user_write_run [OF ok small, of "arg1 ctx"]) (rule that)
  let ?k3 = "with_cpu c ?k2"
  let ?copy = "if int m > 0 then
      if nat (int m) \<le> length buf then copy_in (\<lambda>a. on_cpu \<circ> cpu_storeVirtualMemory a 1) (arg1 ctx) (map ucast (take (nat (int m)) buf))
      else fail UndefinedBehaviour else ret ()"
  have "\<exists>c. ?copy ?k2 = Inr ((), with_cpu c ?k2) \<and> same_view (cpu k) c \<and>
     (\<forall>a. user_byte c a = (if unat (a - arg1 ctx) < length ?bs \<and> mapped (cpu k) a
       then ?bs ! unat (a - arg1 ctx) else user_byte (cpu k) a))"
  proof (cases "m = 0")
    case True
    have "with_cpu (cpu k) ?k2 = ?k2"
      by (simp add: with_cpu_def k1 put_fd_def put_process_def with_disk_def)
    then show ?thesis
      using True calling_machine [OF assms(1)] same_view_refl [of "cpu k"] by (intro exI [of _ "cpu k"]) (simp add: ret_run c2)
  next
    case False
    then show ?thesis
      using c m(1) unfolding c2 by (intro exI [of _ c]) simp
  qed
  then obtain c where c: "?copy ?k2 = Inr ((), with_cpu c ?k2)" "same_view (cpu k) c"
    "\<forall>a. user_byte c a = (if unat (a - arg1 ctx) < length ?bs \<and> mapped (cpu k) a
       then ?bs ! unat (a - arg1 ctx) else user_byte (cpu k) a)"
    by blast
  let ?k3 = "with_cpu c ?k2"
  have "handleRead env ctx k = Inr (done_with (of_nat (length ?bs)), ?k3)"
    using open_handle [OF assms(2,3)] h c(1) calling_process [OF assms(1)] m(2)
    by (simp add: handleRead_def bind_run andthen_run ret_run Let_def)
  moreover have "file_ok ?k3 d'"
    using r(2) file_same_disk(1) [of ?k3 k1] by simp
  then have "has_open ?p fd d' ?k3"
    using fo(2,3) by (simp add: has_open_def k1)
  moreover have "afile_read ?n (file_abs k d) = (?bs, file_abs ?k3 d')"
    using r(4) file_same_disk(2) [of ?k3 k1 d'] by simp
  moreover have "keeps_caller k ?k3" "cpu ?k3 = c"
    using c(2) r(5) by (simp_all add: k1 keeps_caller_def)
  ultimately show ?thesis
    using c(3) by (intro exI [of _ ?k3] exI [of _ ?bs] exI [of _ d']) simp
qed

section \<open>As system calls\<close>

lemma transfer_dispatch:
  "dispatch_syscall env (context_of SYS_WRITE c) k = handleWrite env (context_of SYS_WRITE c) (k\<lparr>stats := incSyscalls (stats k)\<rparr>)"
  "dispatch_syscall env (context_of SYS_READ c) k = handleRead env (context_of SYS_READ c) (k\<lparr>stats := incSyscalls (stats k)\<rparr>)"
  by (simp_all add: dispatch_syscall_def andthen_run on_parts_run context_of_def)

lemma context_args [simp]:
  "arg0 (context_of i c) = reg_val c 10" "arg1 (context_of i c) = reg_val c 11" "arg2 (context_of i c) = reg_val c 12"
  by (simp_all add: context_of_def)

text \<open>How a call that moves bytes ends: \<^verbatim>\<open>a0\<close> holds the count and the caller goes on.\<close>

definition returned :: "Word \<Rightarrow> 'w Kernel \<Rightarrow> 'w Kernel \<Rightarrow> bool" where
  "returned v k k' \<longleftrightarrow> regs (cpu k') = rf_set (regs (cpu k)) 10 v \<and> pc (cpu k') = pc (cpu k) + 4"

lemma user_byte_mmu: "mmu c' = mmu c \<Longrightarrow> user_byte c' a = user_byte c a"
  by (simp add: user_byte_def granted_def cong: option.case_cong)

lemma deliver_count:
  assumes "rf_ok (regs (cpu k))" "dispatch_syscall env (context_of i (cpu k)) k = Inr (done_with v, l)"
    and v: "same_view (cpu k) (cpu l)"
  obtains k' where "handleSyscall env i k = Inr ((), k')" "returned v k k'"
    "\<And>p fd d. has_open p fd d k' = has_open p fd d l" "disk k' = disk l" "\<And>a. user_byte (cpu k') a = user_byte (cpu l) a"
proof -
  let ?k' = "l\<lparr>cpu := delivered (done_with v) (cpu l)\<rparr>"
  have "rf_ok (regs (cpu l))" "regs (cpu l) = regs (cpu k)" "pc (cpu l) = pc (cpu k)"
    using v assms(1) by (simp_all add: same_view_def)
  then have "handleSyscall env i k = Inr ((), ?k')" "returned v k ?k'"
    using handleSyscall_run [OF assms(1,2)] by (simp_all add: SyscallResult_new_def returned_def delivered_def)
  moreover have "has_open p fd d ?k' = has_open p fd d l" for p fd d
    using file_same_disk(1) [of ?k' l] by (simp add: has_open_def)
  moreover have "user_byte (cpu ?k') a = user_byte (cpu l) a" for a
    by (rule user_byte_mmu) (simp add: delivered_def)
  ultimately show ?thesis
    by (rule_tac that [of ?k']) simp_all
qed

lemma write_call:
  assumes c: "calling i k" "has_open (parent (at k i)) fd d k" "sint (reg_val (cpu k) 10) = int fd"
  shows "\<exists>k' m d'. handleSyscall env SYS_WRITE k = Inr ((), k') \<and> returned (of_nat m) k k' \<and>
    has_open (parent (at k i)) fd d' k' \<and>
    afile_write (user_bytes (cpu k) (reg_val (cpu k) 11) (unat (reg_val (cpu k) 12))) (file_abs k d) = (m, file_abs k' d') \<and>
    (\<forall>a. user_byte (cpu k') a = user_byte (cpu k) a)"
proof -
  let ?k = "k\<lparr>stats := incSyscalls (stats k)\<rparr>"
  obtain l m d' where l: "handleWrite env (context_of SYS_WRITE (cpu k)) ?k = Inr (done_with (of_nat m), l)"
    "has_open (parent (at ?k i)) fd d' l"
    "afile_write (user_bytes (cpu k) (reg_val (cpu k) 11) (unat (reg_val (cpu k) 12))) (file_abs ?k d) = (m, file_abs l d')"
    "keeps_caller ?k l" "memory (mmu (cpu l)) = memory (mmu (cpu k))"
    using write_transfers [of i ?k fd d "context_of SYS_WRITE (cpu k)" env] c by auto
  have v: "same_view (cpu k) (cpu l)"
    using l(4) by (simp add: keeps_caller_def)
  obtain k' where k': "handleSyscall env SYS_WRITE k = Inr ((), k')" "returned (of_nat m) k k'"
    "\<And>p fd d. has_open p fd d k' = has_open p fd d l" "disk k' = disk l" "\<And>a. user_byte (cpu k') a = user_byte (cpu l) a"
    by (rule deliver_count [OF calling_machine(3) [OF c(1)] transfer_dispatch(1) [THEN trans, OF l(1)] v]) (rule that)
  then show ?thesis
    using l file_same_disk(2) [of k' l d'] file_same_disk(2) [of ?k k d] same_bytes [OF v l(5)]
    by (intro exI [of _ k'] exI [of _ m] exI [of _ d']) simp
qed

lemma read_call:
  assumes c: "calling i k" "has_open (parent (at k i)) fd d k" "sint (reg_val (cpu k) 10) = int fd" "one_to_one (cpu k)"
  shows "\<exists>k' bs d'. handleSyscall env SYS_READ k = Inr ((), k') \<and> returned (of_nat (length bs)) k k' \<and>
    has_open (parent (at k i)) fd d' k' \<and> afile_read (unat (reg_val (cpu k) 12)) (file_abs k d) = (bs, file_abs k' d') \<and>
    (\<forall>a. user_byte (cpu k') a = (if unat (a - reg_val (cpu k) 11) < length bs \<and> mapped (cpu k) a
                              then bs ! unat (a - reg_val (cpu k) 11) else user_byte (cpu k) a))"
proof -
  let ?k = "k\<lparr>stats := incSyscalls (stats k)\<rparr>"
  obtain l bs d' where l: "handleRead env (context_of SYS_READ (cpu k)) ?k = Inr (done_with (of_nat (length bs)), l)"
    "has_open (parent (at ?k i)) fd d' l"
    "afile_read (unat (reg_val (cpu k) 12)) (file_abs ?k d) = (bs, file_abs l d')" "keeps_caller ?k l"
    "\<forall>a. user_byte (cpu l) a = (if unat (a - reg_val (cpu k) 11) < length bs \<and> mapped (cpu k) a
       then bs ! unat (a - reg_val (cpu k) 11) else user_byte (cpu k) a)"
    using read_transfers [of i ?k fd d "context_of SYS_READ (cpu k)" env] c by auto
  have v: "same_view (cpu k) (cpu l)"
    using l(4) by (simp add: keeps_caller_def)
  obtain k' where k': "handleSyscall env SYS_READ k = Inr ((), k')" "returned (of_nat (length bs)) k k'"
    "\<And>p fd d. has_open p fd d k' = has_open p fd d l" "disk k' = disk l" "\<And>a. user_byte (cpu k') a = user_byte (cpu l) a"
    by (rule deliver_count [OF calling_machine(3) [OF c(1)] transfer_dispatch(2) [THEN trans, OF l(1)] v]) (rule that)
  then show ?thesis
    using l file_same_disk(2) [of k' l d'] file_same_disk(2) [of ?k k d]
    by (intro exI [of _ k'] exI [of _ bs] exI [of _ d']) simp
qed

section \<open>Names\<close>

text \<open>The name at an address: the bytes up to the first zero, at most 129 of them.\<close>

definition user_name :: "Machine \<Rightarrow> Addr \<Rightarrow> string" where
  "user_name c a = map (char_of \<circ> unat) (takeWhile (\<lambda>b. b \<noteq> 0) (user_bytes c a (MAX_FILE_NAME_LENGTH + 1)))"

lemma length_user_bytes [simp]: "length (user_bytes c a n) = n"
  by (simp add: user_bytes_def)

lemma user_bytes_Suc: "user_bytes c a (Suc n) = user_byte c a # user_bytes c (a + 1) n"
proof -
  have "a + of_nat (Suc j) = a + 1 + of_nat j" for j
    by simp
  then show ?thesis
    by (simp add: user_bytes_def upt_conv_Cons map_Suc_upt [symmetric] del: upt_Suc) (simp add: o_def algebra_simps)
qed

lemma same_view_bytes: "same_view c c' \<Longrightarrow> memory (mmu c') = memory (mmu c) \<Longrightarrow> user_bytes c' a n = user_bytes c a n"
  by (simp add: user_bytes_def same_bytes)

lemma read_name_run:
  assumes "cpu_ok (cpu k)" "vmEnabled (mmu (cpu k))"
  shows "\<exists>c. read_name n a acc k =
      Inr (acc @ map (char_of \<circ> unat) (takeWhile (\<lambda>b. b \<noteq> 0) (user_bytes (cpu k) a n)), with_cpu c k) \<and>
    same_view (cpu k) c \<and> memory (mmu c) = memory (mmu (cpu k))"
  using assms
proof (induction n arbitrary: a acc k)
  case 0
  have "with_cpu (cpu k) k = k"
    by (simp add: with_cpu_def)
  then show ?case
    using same_view_refl [OF 0] by (intro exI [of _ "cpu k"]) (simp add: ret_run user_bytes_def)
next
  case (Suc n)
  let ?b = "user_byte (cpu k) a"
  obtain c1 where c1: "cpu_loadVirtualMemory a 1 (cpu k) = Inr (ucast ?b, c1)" "same_view (cpu k) c1"
    "memory (mmu c1) = memory (mmu (cpu k))"
    using load_byte [OF Suc.prems] by blast
  let ?k1 = "with_cpu c1 k"
  have l: "on_cpu (cpu_loadVirtualMemory a 1) k = Inr (ucast ?b, ?k1)"
    using c1(1) by (simp add: on_cpu_run with_cpu_def)
  have b: "(ucast (ucast ?b :: Word) :: Byte) = ?b"
    by (rule bit_word_eqI) (simp add: bit_ucast_iff)
  show ?case
  proof (cases "?b = 0")
    case True
    then show ?thesis
      using l b c1(2,3) by (intro exI [of _ c1]) (simp add: bind_run ret_run user_bytes_Suc Let_def)
  next
    case False
    have "cpu_ok (cpu ?k1)" "vmEnabled (mmu (cpu ?k1))"
      using c1(2) by (simp_all add: same_view_def)
    from Suc.IH [OF this, of "a + 1" "acc @ [char_of (unat ?b)]"] obtain c where
      c: "read_name n (a + 1) (acc @ [char_of (unat ?b)]) ?k1 = Inr (acc @ [char_of (unat ?b)] @
          map (char_of \<circ> unat) (takeWhile (\<lambda>b. b \<noteq> 0) (user_bytes (cpu k) (a + 1) n)), with_cpu c k)"
        "same_view c1 c" "memory (mmu c) = memory (mmu c1)"
      using same_view_bytes [OF c1(2,3)] by (auto simp: with_cpu_def)
    have "read_name (Suc n) a acc k = read_name n (a + 1) (acc @ [char_of (unat ?b)]) ?k1"
      using l b False by (simp add: bind_run Let_def)
    then show ?thesis
      using c same_view_trans [OF c1(2) c(2)] c1(3) False by (intro exI [of _ c]) (simp add: user_bytes_Suc)
  qed
qed

lemma read_filename_run:
  assumes "calling i k"
  obtains c where "read_filename a k = Inr (user_name (cpu k) a, with_cpu c k)" "same_view (cpu k) c"
    "memory (mmu c) = memory (mmu (cpu k))"
  using read_name_run [OF calling_machine(1,2) [OF assms], of "MAX_FILE_NAME_LENGTH + 1" a "[]"] that
  by (auto simp: read_filename_def user_name_def)

section \<open>Opening and closing\<close>

lemma open_transfers:
  assumes c: "calling i k" and f: "fs_ok k" "fileTable (vfs k) (user_name (cpu k) (arg0 ctx)) = Some m"
    and fd: "free_fd (fds (parent (at k i)) k) = Some fd"
  shows "\<exists>k'. handleOpen ctx k = Inr (done_with (of_nat fd), k') \<and>
    has_open (parent (at k i)) fd (DiskFileHandle_new (unat (startBlock m)) (sizeBytes m)) k' \<and>
    keeps_caller k k' \<and> disk k' = disk k \<and> memory (mmu (cpu k')) = memory (mmu (cpu k)) \<and>
    fds (parent (at k i)) k' = (fds (parent (at k i)) k)
      [fd := Some (DiskHandle (DiskFileHandle_new (unat (startBlock m)) (sizeBytes m)))]"
proof -
  let ?p = "parent (at k i)" and ?h = "DiskFileHandle_new (unat (startBlock m)) (sizeBytes m)"
  obtain v where v: "read_filename (arg0 ctx) k = Inr (user_name (cpu k) (arg0 ctx), with_cpu v k)" "same_view (cpu k) v"
    "memory (mmu v) = memory (mmu (cpu k))"
    using read_filename_run [OF c] by blast
  let ?k1 = "with_cpu v k"
  let ?k2 = "put_fd ?p fd (Some (DiskHandle ?h)) ?k1"
  have k1: "keeps_caller k ?k1"
    using v(2) by (simp add: keeps_caller_def)
  have p: "?p < length (processList k)" "fd < length (fds ?p k)"
    using c fd sched_ok_at [of k i] by (simp_all add: calling_def free_fd_lowest)
  have "VFS_open (user_name (cpu k) (arg0 ctx)) ?k1 = Inr (Some ?h, ?k1)"
    using f(2) by (simp add: VFS_open_def)
  moreover have "current_process ?k1 = Inr (?p, ?k1)"
    using calling_process [OF caller_goes_on(1) [OF k1 c]] caller_goes_on(2) [OF k1 c] by simp
  moreover have "addFileHandle ?p (Some (DiskHandle ?h)) ?k1 = Inr (int fd, ?k2)"
    using addFileHandle_run [of ?p ?k1 "DiskHandle ?h"] p fd by simp
  ultimately have "handleOpen ctx k = Inr (done_with (of_nat fd), ?k2)"
    using v(1) by (simp add: handleOpen_def bind_run ret_run)
  moreover have "file_ok ?k2 ?h"
    using open_file_ok(2) [OF f] file_same_disk(1) [of ?k2 k] by simp
  then have "has_open ?p fd ?h ?k2"
    using p by (simp add: has_open_def)
  moreover have "keeps_caller k ?k2"
    using v(2) by (simp add: keeps_caller_def)
  ultimately show ?thesis
    using p v(3) by (intro exI [of _ ?k2]) simp
qed

lemma close_transfers:
  assumes c: "calling i k" "has_open (parent (at k i)) fd d k" "sint (arg0 ctx) = int fd"
  shows "\<exists>k'. handleClose ctx k = Inr (done_with 0, k') \<and> keeps_caller k k' \<and> disk k' = disk k \<and> cpu k' = cpu k \<and>
    fds (parent (at k i)) k' = (fds (parent (at k i)) k)[fd := None]"
proof -
  let ?p = "parent (at k i)" and ?k' = "put_fd (parent (at k i)) fd None k"
  have p: "?p < length (processList k)" "fd < length (fds ?p k)" "fds ?p k ! fd \<noteq> None"
    using c(2) by (simp_all add: has_open_def)
  then have "handleClose ctx k = Inr (done_with 0, ?k')"
    using closeFileHandle_run [of ?p k "int fd"] c(3) calling_process [OF c(1)]
    by (simp add: handleClose_def bind_run ret_run)
  moreover have "keeps_caller k ?k'"
    using same_view_refl [OF calling_machine(1,2) [OF c(1)]] by (simp add: keeps_caller_def)
  ultimately show ?thesis
    using p by (intro exI [of _ ?k']) simp
qed

section \<open>A file written and read back\<close>

definition call_with :: "Word \<Rightarrow> Word \<Rightarrow> Word \<Rightarrow> SyscallContext" where
  "call_with a b c = \<lparr>ctx_id = 0, arg0 = a, arg1 = b, arg2 = c, arg3 = 0, arg4 = 0, arg5 = 0\<rparr>"

lemma call_with_simps [simp]: "arg0 (call_with a b c) = a" "arg1 (call_with a b c) = b" "arg2 (call_with a b c) = c"
  by (simp_all add: call_with_def)

text \<open>What \<^verbatim>\<open>user/programs/test11.c\<close> does with an existing file: open, write and close, then open
  and read.\<close>

definition write_file :: "'w Env \<Rightarrow> Addr \<Rightarrow> Addr \<Rightarrow> Word \<Rightarrow> ('w Kernel, SyscallResult) prog" where
  "write_file env path src n =
     bind (handleOpen (call_with path 0 0)) (\<lambda>r.
     andthen (handleWrite env (call_with (returnValue r) src n)) (handleClose (call_with (returnValue r) 0 0)))"

definition read_file :: "'w Env \<Rightarrow> Addr \<Rightarrow> Addr \<Rightarrow> Word \<Rightarrow> ('w Kernel, SyscallResult) prog" where
  "read_file env path dst n =
     bind (handleOpen (call_with path 0 0)) (\<lambda>r. handleRead env (call_with (returnValue r) dst n))"

abbreviation handle_for :: "FileMetadata \<Rightarrow> DiskFileHandle" where
  "handle_for m \<equiv> DiskFileHandle_new (unat (startBlock m)) (sizeBytes m)"

definition file_content :: "'w Kernel \<Rightarrow> FileMetadata \<Rightarrow> Byte list" where
  "file_content k m = file_bytes k (handle_for m)"

lemma file_abs_start: "file_abs k (handle_for m) = (file_content k m, 0)"
  by (simp add: file_abs_def file_content_def DiskFileHandle_new_def)

lemma content_same_disk: "disk k' = disk k \<Longrightarrow> file_content k' m = file_content k m"
  by (simp add: file_content_def file_bytes_def)

lemma content_of_handle:
  "startBlockIndex d = unat (startBlock m) \<Longrightarrow> fileSize d = sizeBytes m \<Longrightarrow> fst (file_abs k d) = file_content k m"
  by (simp add: file_abs_def file_content_def file_bytes_def DiskFileHandle_new_def)

lemma content_length: "has_open p fd (handle_for m) k \<Longrightarrow> length (file_content k m) = sizeBytes m"
  unfolding has_open_def file_content_def using length_file_bytes [of k "handle_for m"] by (simp add: DiskFileHandle_new_def)

lemma fd_word: "fd < FD_TABLE_SIZE \<Longrightarrow> sint (of_nat fd :: Word) = int fd"
  by (simp add: FD_TABLE_SIZE_def signed_of_nat signed_take_bit_int_eq_self)

lemma keeps_caller_trans: "keeps_caller k k1 \<Longrightarrow> keeps_caller k1 k2 \<Longrightarrow> keeps_caller k k2"
  using same_view_trans by (auto simp: keeps_caller_def)

lemma fs_ok_kept: "fs_ok k \<Longrightarrow> keeps_caller k k' \<Longrightarrow> disk_ok k' \<Longrightarrow> fs_ok k'"
  by (simp add: fs_ok_def keeps_caller_def)

lemma write_file_run:
  assumes c: "calling i k" and f: "fs_ok k" "fileTable (vfs k) (user_name (cpu k) path) = Some m"
    and fd: "free_fd (fds (parent (at k i)) k) = Some fd" "fd < FD_TABLE_SIZE" and n: "unat n \<le> sizeBytes m"
  shows "\<exists>k'. write_file env path src n k = Inr (done_with 0, k') \<and> keeps_caller k k' \<and> fs_ok k' \<and>
    memory (mmu (cpu k')) = memory (mmu (cpu k)) \<and> fds (parent (at k i)) k' = fds (parent (at k i)) k \<and>
    file_content k' m = put_at 0 (user_bytes (cpu k) src (unat n)) (file_content k m)"
proof -
  let ?p = "parent (at k i)" and ?bs = "user_bytes (cpu k) src (unat n)" and ?w = "of_nat fd :: Word"
  obtain k1 where k1: "handleOpen (call_with path 0 0) k = Inr (done_with ?w, k1)" "has_open ?p fd (handle_for m) k1"
    "keeps_caller k k1" "disk k1 = disk k" "memory (mmu (cpu k1)) = memory (mmu (cpu k))"
    "fds ?p k1 = (fds ?p k)[fd := Some (DiskHandle (handle_for m))]"
    using open_transfers [OF c f(1), of "call_with path 0 0" m fd] f(2) fd(1) by auto
  note c1 = caller_goes_on [OF k1(3) c]
  obtain k2 m' d where k2: "handleWrite env (call_with ?w src n) k1 = Inr (done_with (of_nat m'), k2)" "has_open ?p fd d k2"
    "afile_write (user_bytes (cpu k1) src (unat n)) (file_abs k1 (handle_for m)) = (m', file_abs k2 d)"
    "startBlockIndex d = unat (startBlock m)" "fileSize d = sizeBytes m" "fds ?p k2 = (fds ?p k1)[fd := Some (DiskHandle d)]"
    "keeps_caller k1 k2" "memory (mmu (cpu k2)) = memory (mmu (cpu k1))"
    using write_transfers [OF c1(1), of fd "handle_for m" "call_with ?w src n" env] k1(2) fd_word [OF fd(2)] c1(2)
    by (auto simp: DiskFileHandle_new_def)
  note c2 = caller_goes_on [OF k2(7) c1(1)]
  obtain k3 where k3: "handleClose (call_with ?w 0 0) k2 = Inr (done_with 0, k3)" "keeps_caller k2 k3" "disk k3 = disk k2"
    "cpu k3 = cpu k2" "fds ?p k3 = (fds ?p k2)[fd := None]"
    using close_transfers [OF c2(1), of fd d "call_with ?w 0 0"] k2(2) fd_word [OF fd(2)] c1(2) c2(2) by auto
  have keeps: "keeps_caller k k3"
    using keeps_caller_trans k1(3) k2(7) k3(2) by blast
  have "disk_ok k3"
    using k2(2) file_same_disk(1) [OF k3(3), of d] by (simp add: has_open_def file_ok_def)
  then have "fs_ok k3"
    by (rule fs_ok_kept [OF f(1) keeps])
  moreover have "fds ?p k3 = fds ?p k"
    using k1(6) k2(6) k3(5) fd(1) by (simp add: free_fd_lowest list_update_same_conv)
  moreover have "user_bytes (cpu k1) src (unat n) = ?bs"
    using k1(3,5) same_view_bytes by (simp add: keeps_caller_def)
  then have "file_abs k2 d = (put_at 0 ?bs (file_content k1 m), unat n)"
    using k2(3) n content_length [OF k1(2)] by (auto simp: file_abs_start afile_write_def Let_def)
  then have "file_content k2 m = put_at 0 ?bs (file_content k1 m)"
    using content_of_handle [OF k2(4,5), of k2] by simp
  then have "file_content k3 m = put_at 0 ?bs (file_content k m)"
    using content_same_disk [OF k3(3)] content_same_disk [OF k1(4)] by simp
  moreover have "write_file env path src n k = Inr (done_with 0, k3)"
    using k1(1) k2(1) k3(1) by (simp add: write_file_def bind_run andthen_run SyscallResult_new_def)
  ultimately show ?thesis
    using keeps k1(5) k2(8) k3(4) by (intro exI [of _ k3]) simp
qed

lemma read_file_run:
  assumes c: "calling i k" "one_to_one (cpu k)" and f: "fs_ok k" "fileTable (vfs k) (user_name (cpu k) path) = Some m"
    and fd: "free_fd (fds (parent (at k i)) k) = Some fd" "fd < FD_TABLE_SIZE" and n: "unat n \<le> sizeBytes m"
  shows "\<exists>k'. read_file env path dst n k = Inr (done_with n, k') \<and> (\<forall>a. user_byte (cpu k') a =
    (if unat (a - dst) < unat n \<and> mapped (cpu k) a then file_content k m ! unat (a - dst) else user_byte (cpu k) a))"
proof -
  let ?p = "parent (at k i)" and ?w = "of_nat fd :: Word"
  obtain k1 where k1: "handleOpen (call_with path 0 0) k = Inr (done_with ?w, k1)" "has_open ?p fd (handle_for m) k1"
    "keeps_caller k k1" "disk k1 = disk k" "memory (mmu (cpu k1)) = memory (mmu (cpu k))"
    using open_transfers [OF c(1) f(1), of "call_with path 0 0" m fd] f(2) fd(1) by auto
  note c1 = caller_goes_on [OF k1(3) c(1)]
  have v: "same_view (cpu k) (cpu k1)"
    using k1(3) by (simp add: keeps_caller_def)
  obtain k2 bs d where k2: "handleRead env (call_with ?w dst n) k1 = Inr (done_with (of_nat (length bs)), k2)"
    "afile_read (unat n) (file_abs k1 (handle_for m)) = (bs, file_abs k2 d)"
    "\<forall>a. user_byte (cpu k2) a = (if unat (a - dst) < length bs \<and> mapped (cpu k1) a
       then bs ! unat (a - dst) else user_byte (cpu k1) a)"
    using read_transfers [OF c1(1), of fd "handle_for m" "call_with ?w dst n" env] k1(2) fd_word [OF fd(2)]
      same_view_one_to_one [OF v c(2)] c1(2) by auto
  have bs: "bs = take (unat n) (file_content k m)"
    using k2(2) content_same_disk [OF k1(4)] by (simp add: file_abs_start afile_read_def Let_def)
  have l: "length bs = unat n"
    using n content_length [OF k1(2)] content_same_disk [OF k1(4), of m] by (simp add: bs)
  have "read_file env path dst n k = Inr (done_with n, k2)"
    using k1(1) k2(1) l by (simp add: read_file_def bind_run SyscallResult_new_def)
  moreover have "user_byte (cpu k2) a =
      (if unat (a - dst) < unat n \<and> mapped (cpu k) a then file_content k m ! unat (a - dst) else user_byte (cpu k) a)" for a
  proof -
    have "bs ! unat (a - dst) = file_content k m ! unat (a - dst)" if "unat (a - dst) < unat n"
      using that by (simp add: bs)
    then show ?thesis
      using k2(3) l same_view_mapped [OF v] same_bytes [OF v k1(5)] by simp
  qed
  ultimately show ?thesis
    by blast
qed

lemma offset_back: "j < unat n \<Longrightarrow> unat (a + of_nat j - a) = j" for a :: Addr and n :: Word
  using unsigned_less [of n] by (metis add_diff_cancel_left' le_unat_uoi nless_le)

lemma file_round_trip_run:
  assumes c: "calling i k" "one_to_one (cpu k)" and f: "fs_ok k" "fileTable (vfs k) (user_name (cpu k) path) = Some m"
    and fd: "free_fd (fds (parent (at k i)) k) = Some fd" "fd < FD_TABLE_SIZE" and n: "unat n \<le> sizeBytes m"
  shows "\<exists>k'. andthen (write_file env path src n) (read_file env path dst n) k = Inr (done_with n, k') \<and>
    (\<forall>j < unat n. user_byte (cpu k') (dst + of_nat j) =
       (if mapped (cpu k) (dst + of_nat j) then user_byte (cpu k) (src + of_nat j) else user_byte (cpu k) (dst + of_nat j)))"
proof -
  let ?bs = "user_bytes (cpu k) src (unat n)"
  obtain k1 where k1: "write_file env path src n k = Inr (done_with 0, k1)" "keeps_caller k k1" "fs_ok k1"
    "memory (mmu (cpu k1)) = memory (mmu (cpu k))" "fds (parent (at k i)) k1 = fds (parent (at k i)) k"
    "file_content k1 m = put_at 0 ?bs (file_content k m)"
    using write_file_run [OF c(1) f fd n, of env src] by blast
  note c1 = caller_goes_on [OF k1(2) c(1)]
  have v: "same_view (cpu k) (cpu k1)" "vfs k1 = vfs k"
    using k1(2) by (simp_all add: keeps_caller_def)
  have name: "fileTable (vfs k1) (user_name (cpu k1) path) = Some m"
    using f(2) v(2) same_view_bytes [OF v(1) k1(4)] by (simp add: user_name_def)
  obtain k2 where k2: "read_file env path dst n k1 = Inr (done_with n, k2)" "\<forall>a. user_byte (cpu k2) a =
      (if unat (a - dst) < unat n \<and> mapped (cpu k1) a then file_content k1 m ! unat (a - dst) else user_byte (cpu k1) a)"
    using read_file_run [OF c1(1) same_view_one_to_one [OF v(1) c(2)] k1(3) name _ fd(2) n, of env dst] fd(1) k1(5) c1(2)
    by auto
  have "file_content k1 m ! j = user_byte (cpu k) (src + of_nat j)" if "j < unat n" for j
    using that by (simp add: k1(6) put_at_def nth_append user_bytes_def)
  then show ?thesis
    using k1(1) k2 offset_back [of _ n dst] same_view_mapped [OF v(1)] same_bytes [OF v(1) k1(4)]
    by (intro exI [of _ k2]) (simp add: andthen_run)
qed

end
