(* ===== verification/UserLibrary.thy ===== *)
theory UserLibrary
  imports FileCalls
begin

text \<open>
  The C library that user programs are linked with (\<^verbatim>\<open>user/lib\<close>): the system call macros, the
  wrappers of \<^verbatim>\<open>syscall.c\<close>, and \<^verbatim>\<open>stdio.c\<close> and \<^verbatim>\<open>stdlib.c\<close>.  A C function is a function from the
  memory of the program to a tree of the system calls it makes; a node holds the call's number and
  arguments and the memory at that moment, and continues with the result and the memory the kernel
  leaves.  Where a C function takes the address of a local variable, that address is an argument.
\<close>

section \<open>User code as a tree of system calls\<close>

type_synonym umem = "Addr \<Rightarrow> Byte"

datatype 'a user =
    Done 'a umem
  | Ecall Word "Word list" umem "Word \<Rightarrow> umem \<Rightarrow> 'a user"
  | Forever
  | Undefined

primrec ubind :: "'a user \<Rightarrow> ('a \<Rightarrow> umem \<Rightarrow> 'b user) \<Rightarrow> 'b user" where
  "ubind (Done x m) f = f x m"
| "ubind (Ecall i args m g) f = Ecall i args m (\<lambda>r m. ubind (g r m) f)"
| "ubind Forever f = Forever"
| "ubind Undefined f = Undefined"

text \<open>The macros of \<^verbatim>\<open>sysdef.h\<close>: the number goes to \<^verbatim>\<open>a7\<close>, the arguments to \<^verbatim>\<open>a0\<close> to \<^verbatim>\<open>a5\<close>.\<close>

fun set_args :: "nat \<Rightarrow> Word list \<Rightarrow> RegFile \<Rightarrow> RegFile" where
  "set_args r [] rf = rf"
| "set_args r (x # xs) rf = set_args (r + 1) xs (rf_set rf r x)"

definition syscall_regs :: "Word \<Rightarrow> Word list \<Rightarrow> RegFile \<Rightarrow> RegFile" where
  "syscall_regs i args rf = set_args 10 args (rf_set rf 17 i)"

definition c_syscall :: "Word \<Rightarrow> Word list \<Rightarrow> umem \<Rightarrow> Word user" where
  "c_syscall i args m = Ecall i args m Done"

section \<open>Wrappers (syscall.c)\<close>

definition c_exit :: "Word \<Rightarrow> umem \<Rightarrow> 'a user" where
  "c_exit code m = ubind (c_syscall SYS_EXIT [code] m) (\<lambda>_ _. Forever)"

definition c_write :: "Word \<Rightarrow> Addr \<Rightarrow> Word \<Rightarrow> umem \<Rightarrow> Word user" where
  "c_write fd buf count m = (if sint count < 0 then Done (-1) m else c_syscall SYS_WRITE [fd, buf, count] m)"

definition c_read :: "Word \<Rightarrow> Addr \<Rightarrow> Word \<Rightarrow> umem \<Rightarrow> Word user" where
  "c_read fd buf count m = (if sint count < 0 then Done (-1) m else c_syscall SYS_READ [fd, buf, count] m)"

definition c_thread_create :: "Addr \<Rightarrow> Word \<Rightarrow> umem \<Rightarrow> Word user" where
  "c_thread_create func arg m = c_syscall SYS_THREAD_CREATE [func, arg] m"

definition c_thread_exit :: "Word \<Rightarrow> umem \<Rightarrow> 'a user" where
  "c_thread_exit status m = ubind (c_syscall SYS_THREAD_EXIT [status] m) (\<lambda>_ _. Forever)"

definition c_thread_join :: "Word \<Rightarrow> umem \<Rightarrow> Word user" where
  "c_thread_join t m = c_syscall SYS_THREAD_JOIN [t] m"

definition c_mutex_create :: "umem \<Rightarrow> Word user" where
  "c_mutex_create m = c_syscall SYS_MUTEX_CREATE [] m"

text \<open>\<^verbatim>\<open>*lock\<close>, a little-endian word.\<close>

definition load_int :: "umem \<Rightarrow> Addr \<Rightarrow> Word" where
  "load_int m a = bytes_word (map (\<lambda>j. m (a + of_nat j)) [0..<4])"

definition c_mutex_lock :: "Addr \<Rightarrow> umem \<Rightarrow> unit user" where
  "c_mutex_lock mx m =
     (if mx = 0 then c_exit (-1) m
      else ubind (c_syscall SYS_MUTEX_LOCK [load_int m mx] m) (\<lambda>status m.
        if status = -1 then c_exit (-1) m else Done () m))"

definition c_mutex_unlock :: "Addr \<Rightarrow> umem \<Rightarrow> unit user" where
  "c_mutex_unlock mx m =
     (if mx = 0 then c_exit (-1) m
      else ubind (c_syscall SYS_MUTEX_UNLOCK [load_int m mx] m) (\<lambda>status m.
        if status = -1 then c_exit (-1) m else Done () m))"

definition c_open :: "Addr \<Rightarrow> umem \<Rightarrow> Word user" where
  "c_open filename m = c_syscall SYS_OPEN [filename] m"

definition c_close :: "Word \<Rightarrow> umem \<Rightarrow> Word user" where
  "c_close fd m = c_syscall SYS_CLOSE [fd] m"

definition c_create :: "Addr \<Rightarrow> Word \<Rightarrow> umem \<Rightarrow> Word user" where
  "c_create filename sz m =
     (if sint sz \<le> 0 then Done (-1) m else c_syscall SYS_CREATE [filename, sz] m)"

definition c_sbrk :: "Word \<Rightarrow> umem \<Rightarrow> Addr user" where
  "c_sbrk increment m = c_syscall SYS_SBRK [increment] m"

text \<open>\<^verbatim>\<open>size + 7\<close> is signed addition, undefined when it overflows.\<close>

definition c_malloc :: "Word \<Rightarrow> umem \<Rightarrow> Addr user" where
  "c_malloc sz m =
     (if sint sz \<le> 0 then Done 0 m
      else if sint sz + 7 \<ge> 2 ^ 31 then Undefined
      else ubind (c_sbrk ((sz + 7) AND NOT 7) m) (\<lambda>ptr m. Done (if ptr = -1 then 0 else ptr) m))"

definition c_free :: "Addr \<Rightarrow> umem \<Rightarrow> unit user" where
  "c_free ptr m = Done () m"

definition c_create_process :: "Addr \<Rightarrow> umem \<Rightarrow> Word user" where
  "c_create_process filename m = c_syscall SYS_CREATE_PROCESS [filename] m"

definition c_join_process :: "Word \<Rightarrow> Addr \<Rightarrow> umem \<Rightarrow> Word user" where
  "c_join_process pid status m = c_syscall SYS_JOIN_PROCESS [pid, status] m"

section \<open>Strings and the console (stdlib.c, stdio.c)\<close>

text \<open>\<^verbatim>\<open>unsigned len\<close> wraps: without a zero byte the loop never ends, which is \<^verbatim>\<open>None\<close>.\<close>

partial_function (option) c_strlen :: "umem \<Rightarrow> Addr \<Rightarrow> Word \<Rightarrow> Word option" where
  "c_strlen m str len = (if m (str + len) \<noteq> 0 then c_strlen m str (len + 1) else Some len)"

definition c_putchar :: "Addr \<Rightarrow> Byte \<Rightarrow> umem \<Rightarrow> unit user" where
  "c_putchar local c m = ubind (c_write 1 local 1 (m(local := c))) (\<lambda>_ m. Done () m)"

text \<open>The loop of \<^verbatim>\<open>putstr\<close> counts with \<^verbatim>\<open>int len\<close>, undefined beyond 2147483647.\<close>

function putstr_len :: "umem \<Rightarrow> Addr \<Rightarrow> nat \<Rightarrow> nat option" where
  "putstr_len m s n =
     (if m (s + of_nat n) = 0 then Some n else if 2147483647 \<le> n then None else putstr_len m s (n + 1))"
  by pat_completeness auto

termination by (relation "measure (\<lambda>(m, s, n). 2147483647 - n)") auto

declare putstr_len.simps [simp del]

definition c_putstr :: "Addr \<Rightarrow> umem \<Rightarrow> unit user" where
  "c_putstr s m =
     (case putstr_len m s 0 of
        None \<Rightarrow> Undefined
      | Some len \<Rightarrow> ubind (c_write 1 s (of_nat len) m) (\<lambda>_ m. Done () m))"

text \<open>\<^verbatim>\<open>buffer[--idx] = '0' + u % 10\<close> until \<^verbatim>\<open>u\<close> is zero; \<^verbatim>\<open>buffer[-1]\<close> would be undefined.\<close>

function putint_loop :: "Addr \<Rightarrow> Word \<Rightarrow> nat \<Rightarrow> umem \<Rightarrow> (nat \<times> umem) option" where
  "putint_loop buffer u idx m =
     (if u = 0 then Some (idx, m)
      else if idx = 0 then None
      else putint_loop buffer (u div 10) (idx - 1) (m(buffer + of_nat (idx - 1) := ucast (48 + u mod 10))))"
  by pat_completeness auto

termination by (relation "measure (\<lambda>(b, u, idx, m). idx)") auto

declare putint_loop.simps [simp del]

definition c_putint :: "Addr \<Rightarrow> Word \<Rightarrow> umem \<Rightarrow> unit user" where
  "c_putint buffer n m =
     (if n = 0 then ubind (c_write 1 buffer 1 (m(buffer := 48))) (\<lambda>_ m. Done () m)
      else
        let u = (if sint n < 0 then - (n + 1) + 1 else n) in
        case putint_loop buffer u 12 m of
          None \<Rightarrow> Undefined
        | Some (idx, m) \<Rightarrow>
            if sint n < 0 then
              if idx = 0 then Undefined
              else ubind (c_write 1 (buffer + of_nat (idx - 1)) (of_nat (12 - (idx - 1)))
                     (m(buffer + of_nat (idx - 1) := 45))) (\<lambda>_ m. Done () m)
            else ubind (c_write 1 (buffer + of_nat idx) (of_nat (12 - idx)) m) (\<lambda>_ m. Done () m))"

definition c_getchar :: "Addr \<Rightarrow> umem \<Rightarrow> Word user" where
  "c_getchar local m =
     ubind (c_read 0 local 1 m) (\<lambda>bytes_read m. if bytes_read = 1 then Done (ucast (m local)) m else Done (-1) m)"

definition c_getline :: "Addr \<Rightarrow> Word \<Rightarrow> umem \<Rightarrow> Word user" where
  "c_getline buf max_len m =
     (if sint max_len \<le> 0 then Done 0 m
      else ubind (c_read 0 buf (max_len - 1) m) (\<lambda>bytes_read m.
        if sint bytes_read \<le> 0 then Done 0 (m(buf := 0))
        else Done bytes_read (m(buf + bytes_read := 0))))"

section \<open>Decimal text\<close>

text \<open>The value of a text of digits, most significant first, and of one that may start with \<^verbatim>\<open>-\<close>.\<close>

definition digits_value :: "Byte list \<Rightarrow> int" where
  "digits_value bs = foldl (\<lambda>v b. 10 * v + (uint b - 48)) 0 bs"

definition is_digit :: "Byte \<Rightarrow> bool" where
  "is_digit b \<longleftrightarrow> 48 \<le> b \<and> b \<le> 57"

definition decimal :: "Byte list \<Rightarrow> int \<Rightarrow> bool" where
  "decimal bs n \<longleftrightarrow>
     (\<exists>ds. ds \<noteq> [] \<and> (\<forall>b \<in> set ds. is_digit b) \<and> (hd ds = 48 \<longrightarrow> ds = [48]) \<and>
        (if n < 0 then bs = 45 # ds \<and> digits_value ds = - n else bs = ds \<and> digits_value ds = n))"

definition text_at :: "umem \<Rightarrow> Addr \<Rightarrow> nat \<Rightarrow> Byte list" where
  "text_at m a n = map (\<lambda>j. m (a + of_nat j)) [0..<n]"

definition local_text :: "umem \<Rightarrow> Addr \<Rightarrow> nat \<Rightarrow> nat \<Rightarrow> Byte list" where
  "local_text m buffer i k = map (\<lambda>j. m (buffer + of_nat j)) [i..<k]"

lemma digits_value_snoc: "digits_value (ds @ [b]) = 10 * digits_value ds + (uint b - 48)"
  by (simp add: digits_value_def)

lemma digit_byte:
  fixes u :: Word
  shows "uint (ucast (48 + u mod 10) :: Byte) = 48 + uint u mod 10" "is_digit (ucast (48 + u mod 10))"
proof -
  have m: "uint (u mod 10) = uint u mod 10"
    by (simp add: uint_mod)
  have r: "0 \<le> uint u mod 10" "uint u mod 10 < 10"
    by simp_all
  then have "uint (48 + u mod 10) = 48 + uint u mod 10"
    using m by (simp add: uint_word_ariths)
  then show v: "uint (ucast (48 + u mod 10) :: Byte) = 48 + uint u mod 10"
    using r by (simp add: unsigned_ucast_eq take_bit_eq_mod)
  then show "is_digit (ucast (48 + u mod 10))"
    using r by (simp add: is_digit_def word_le_def)
qed

lemma local_inj: "j < 2 ^ 32 \<Longrightarrow> i < 2 ^ 32 \<Longrightarrow> buffer + of_nat j = (buffer + of_nat i :: Addr) \<longleftrightarrow> j = i"
  by (simp add: word_of_nat_eq_iff take_bit_eq_mod)

lemma local_text_snoc: "i \<le> k \<Longrightarrow> local_text m buffer i (Suc k) = local_text m buffer i k @ [m (buffer + of_nat k)]"
  by (simp add: local_text_def)

lemma local_text_Cons: "i < k \<Longrightarrow> local_text m buffer i k = m (buffer + of_nat i) # local_text m buffer (Suc i) k"
  by (simp add: local_text_def upt_conv_Cons)

lemma putint_loop_run:
  assumes "uint u < 10 ^ k" "k \<le> idx" "idx \<le> 12"
  shows "\<exists>i m'. putint_loop buffer u idx m = Some (i, m') \<and> idx \<le> i + k \<and> (if u = 0 then i = idx else i < idx) \<and>
    (u \<noteq> 0 \<longrightarrow> m' (buffer + of_nat i) \<noteq> 48) \<and> digits_value (local_text m' buffer i idx) = uint u \<and>
    (\<forall>b \<in> set (local_text m' buffer i idx). is_digit b) \<and>
    (\<forall>j. idx \<le> j \<and> j < 2 ^ 32 \<longrightarrow> m' (buffer + of_nat j) = m (buffer + of_nat j))"
  using assms
proof (induction k arbitrary: u idx m)
  case 0
  then have "uint u < 1"
    by simp
  then have "uint u = 0"
    using uint_nonnegative [of u] by linarith
  then have "u = 0"
    by (simp add: word_uint_eq_iff)
  then show ?case
    by (subst putint_loop.simps) (simp add: local_text_def digits_value_def)
next
  case (Suc k)
  show ?case
  proof (cases "u = 0")
    case True
    then show ?thesis
      by (subst putint_loop.simps) (simp add: local_text_def digits_value_def)
  next
    case False
    let ?b = "ucast (48 + u mod 10) :: Byte" and ?j = "idx - 1"
    let ?m = "m(buffer + of_nat ?j := ?b)"
    have d: "uint (u div 10) = uint u div 10"
      by (simp add: uint_div)
    have "uint (u div 10) < 10 ^ k" "k \<le> ?j" "?j \<le> 12"
      using Suc.prems by (simp_all add: d)
    from Suc.IH [OF this, of ?m] obtain i m' where
      i: "putint_loop buffer (u div 10) ?j ?m = Some (i, m')" "?j \<le> i + k" "if u div 10 = 0 then i = ?j else i < ?j"
        "u div 10 \<noteq> 0 \<longrightarrow> m' (buffer + of_nat i) \<noteq> 48" "digits_value (local_text m' buffer i ?j) = uint (u div 10)"
        "\<forall>b \<in> set (local_text m' buffer i ?j). is_digit b"
        "\<forall>j. ?j \<le> j \<and> j < 2 ^ 32 \<longrightarrow> m' (buffer + of_nat j) = ?m (buffer + of_nat j)"
      by blast
    have idx: "idx = Suc ?j" "i \<le> ?j"
      using Suc.prems i(3) by (auto split: if_splits)
    have last: "m' (buffer + of_nat ?j) = ?b"
      using i(7) Suc.prems(3) by simp
    have snoc: "local_text m' buffer i idx = local_text m' buffer i ?j @ [?b]"
      using local_text_snoc [OF idx(2), of m' buffer] last idx(1) by simp
    have keep: "m' (buffer + of_nat j) = m (buffer + of_nat j)" if "idx \<le> j" "j < 2 ^ 32" for j
      using i(7) that Suc.prems(3) idx local_inj [of j ?j buffer] by (auto split: if_splits)
    have first: "m' (buffer + of_nat i) \<noteq> 48"
    proof (cases "u div 10 = 0")
      case True
      then have "uint u div 10 = 0"
        using d by simp
      then have "uint u mod 10 = uint u" "uint u \<noteq> 0"
        using False by (simp_all add: word_uint_eq_iff)
      then have "uint ?b \<noteq> uint (48 :: Byte)"
        using digit_byte(1) [of u] by simp
      then show ?thesis
        using i(3) True last by auto
    qed (use i(4) in simp)
    have "putint_loop buffer u idx m = Some (i, m')"
      using False idx i(1) by (subst putint_loop.simps) simp
    moreover have "digits_value (local_text m' buffer i idx) = uint u"
      using i(5) digit_byte(1) [of u] by (simp add: snoc digits_value_snoc d)
    moreover have "\<forall>b \<in> set (local_text m' buffer i idx). is_digit b"
      using i(6) digit_byte(2) [of u] by (simp add: snoc)
    ultimately show ?thesis
      using False first keep idx i(2) by (intro exI [of _ i] exI [of _ m']) auto
  qed
qed

lemma local_is_text: "i \<le> k \<Longrightarrow> local_text m buffer i k = text_at m (buffer + of_nat i) (k - i)"
  unfolding local_text_def text_at_def
  by (rule nth_equalityI) (simp_all add: algebra_simps)

lemma magnitude:
  fixes n :: Word
  shows "sint n < 0 \<Longrightarrow> uint (- (n + 1) + 1) = - sint n" "\<not> sint n < 0 \<Longrightarrow> uint n = sint n"
proof -
  have u: "uint n = sint n mod 2 ^ 32"
    by (simp add: uint_sint take_bit_eq_mod)
  have r: "- 2147483648 \<le> sint n" "sint n < 2147483648"
    using sint_greater_eq [of n] sint_less [of n] by simp_all
  show "uint n = sint n" if "\<not> sint n < 0"
    using that r by (simp add: u)
  assume neg: "sint n < 0"
  have "uint (- (n + 1) + 1) = (- uint n) mod 2 ^ 32"
    by (simp add: uint_word_ariths)
  also have "\<dots> = (- sint n) mod 2 ^ 32"
    by (simp only: u mod_minus_eq)
  also have "\<dots> = - sint n"
    using neg r by (intro mod_pos_pos_trivial) simp_all
  finally show "uint (- (n + 1) + 1) = - sint n" .
qed

lemma putint_count: "j \<le> 12 \<Longrightarrow> \<not> sint (of_nat j :: Word) < 0"
  by (simp add: signed_of_nat signed_take_bit_int_eq_self)

text \<open>\<^verbatim>\<open>putint\<close> makes one write call with the decimal text of its argument, which lies in its buffer.\<close>

lemma putint_writes:
  "\<exists>off len m'. c_putint buffer n m = Ecall SYS_WRITE [1, buffer + of_nat off, of_nat len] m' (\<lambda>_ m. Done () m) \<and>
     off + len \<le> 12 \<and> decimal (text_at m' (buffer + of_nat off) len) (sint n)"
proof (cases "n = 0")
  case True
  then have "c_putint buffer n m = Ecall SYS_WRITE [1, buffer + of_nat 0, of_nat 1] (m(buffer := 48)) (\<lambda>_ m. Done () m)"
    by (simp add: c_putint_def c_write_def c_syscall_def)
  moreover have "decimal (text_at (m(buffer := 48)) (buffer + of_nat 0) 1) (sint n)"
    using True by (simp add: decimal_def text_at_def is_digit_def digits_value_def word_le_def)
  ultimately show ?thesis
    by (intro exI [of _ 0] exI [of _ 1] exI [of _ "m(buffer := 48)"]) simp
next
  case False
  let ?u = "if sint n < 0 then - (n + 1) + 1 else n"
  have u: "uint ?u = \<bar>sint n\<bar>"
    using magnitude [of n] by auto
  have nz: "sint n \<noteq> 0"
    using False by (simp add: signed_eq_0_iff)
  have "\<bar>sint n\<bar> \<le> 2147483648"
    using sint_greater_eq [of n] sint_less [of n] by simp
  then have "uint ?u < 10 ^ 10" "?u \<noteq> 0"
    using nz u by auto
  then obtain i m' where i: "putint_loop buffer ?u 12 m = Some (i, m')" "2 \<le> i" "i < 12" "m' (buffer + of_nat i) \<noteq> 48"
    "digits_value (local_text m' buffer i 12) = \<bar>sint n\<bar>" "\<forall>b \<in> set (local_text m' buffer i 12). is_digit b"
    using putint_loop_run [of ?u 10 12 buffer m] u by auto
  let ?ds = "local_text m' buffer i 12"
  have ds: "?ds \<noteq> []" "hd ?ds \<noteq> 48"
    using i(3,4) by (simp_all add: local_text_def upt_conv_Cons)
  show ?thesis
  proof (cases "sint n < 0")
    case True
    let ?m = "m'(buffer + of_nat (i - 1) := 45)"
    have call: "c_putint buffer n m = Ecall SYS_WRITE [1, buffer + of_nat (i - 1), of_nat (12 - (i - 1))] ?m (\<lambda>_ m. Done () m)"
      using False True i(1-3) by (simp add: c_putint_def c_write_def c_syscall_def putint_count del: of_nat_diff)
    have "local_text ?m buffer i 12 = ?ds"
      using i(2) local_inj [of _ "i - 1" buffer] by (auto simp: local_text_def)
    moreover have "Suc (i - 1) = i" "i - 1 < 12"
      using i(2,3) by simp_all
    ultimately have "local_text ?m buffer (i - 1) 12 = 45 # ?ds"
      using local_text_Cons [of "i - 1" 12 ?m buffer] by (simp only: fun_upd_same)
    then have "text_at ?m (buffer + of_nat (i - 1)) (12 - (i - 1)) = 45 # ?ds"
      using i(3) local_is_text [of "i - 1" 12 ?m buffer] by simp
    then have "decimal (text_at ?m (buffer + of_nat (i - 1)) (12 - (i - 1))) (sint n)"
      using True ds i(5,6) by (simp add: decimal_def)
    then show ?thesis
      using call i(2,3) by (intro exI [of _ "i - 1"] exI [of _ "12 - (i - 1)"] exI [of _ ?m]) simp
  next
    case pos: False
    have "c_putint buffer n m = Ecall SYS_WRITE [1, buffer + of_nat i, of_nat (12 - i)] m' (\<lambda>_ m. Done () m)"
      using False pos i(1-3) by (simp add: c_putint_def c_write_def c_syscall_def putint_count del: of_nat_diff)
    moreover have "text_at m' (buffer + of_nat i) (12 - i) = ?ds"
      using i(3) local_is_text [of i 12 m' buffer] by simp
    then have "decimal (text_at m' (buffer + of_nat i) (12 - i)) (sint n)"
      using pos ds i(5,6) by (simp add: decimal_def)
    ultimately show ?thesis
      using i(3) by (intro exI [of _ i] exI [of _ "12 - i"] exI [of _ m']) simp
  qed
qed

end
