(* ===== verification/UserCalls.thy ===== *)
theory UserCalls
  imports UserLibrary
begin

text \<open>
  The C library of theory UserLibrary on the kernel: how the arguments of a wrapper arrive in the
  system call handler, what \<^verbatim>\<open>malloc\<close> makes of the heap break, what \<^verbatim>\<open>putint\<close> puts on the console,
  and the string functions.
\<close>

section \<open>Arguments\<close>

text \<open>The kernel at an \<^verbatim>\<open>ecall\<close> of the macros: the registers as they set them.\<close>

definition put_call :: "Word \<Rightarrow> Word list \<Rightarrow> 'w Kernel \<Rightarrow> 'w Kernel" where
  "put_call i args k = with_cpu ((cpu k)\<lparr>regs := syscall_regs i args (regs (cpu k))\<rparr>) k"

lemma put_call_args:
  assumes "rf_ok (regs (cpu k))"
  shows "rf_ok (regs (cpu (put_call i [a] k)))" "reg_val (cpu (put_call i [a] k)) 10 = a"
    "rf_ok (regs (cpu (put_call i [a, b, c] k)))" "reg_val (cpu (put_call i [a, b, c] k)) 10 = a"
    "reg_val (cpu (put_call i [a, b, c] k)) 11 = b" "reg_val (cpu (put_call i [a, b, c] k)) 12 = c"
    "reg_val (cpu (put_call i [a, b, c] k)) 17 = i" "reg_val (cpu (put_call i [a] k)) 17 = i"
  using assms by (auto simp: put_call_def syscall_regs_def reg_val_def rf_set_def rf_ok_def nth_list_update)

lemma put_call_calling:
  assumes "calling i k" "rf_ok (regs (cpu (put_call s args k)))"
  shows "calling i (put_call s args k)" "at (put_call s args k) = at k"
    "processList (put_call s args k) = processList k" "world (put_call s args k) = world k"
    "user_byte (cpu (put_call s args k)) a = user_byte (cpu k) a" "pc (cpu (put_call s args k)) = pc (cpu k)"
proof -
  show "user_byte (cpu (put_call s args k)) a = user_byte (cpu k) a"
    by (rule user_byte_mmu) (simp add: put_call_def)
qed (use assms in \<open>simp_all add: put_call_def with_cpu_def calling_def sched_ok_def cpu_ok_def at_def fun_eq_iff\<close>)

section \<open>Allocation\<close>

lemma and_not_split: "(x AND NOT y) + (x AND y) = (x :: Word)"
proof -
  have "(x AND NOT y) + (x AND y) = (x AND NOT y) OR (x AND y)"
    by (rule disjunctive_add) (auto simp: bit_and_iff bit_not_iff)
  also have "\<dots> = x"
    by (rule bit_word_eqI) (auto simp: bit_and_iff bit_or_iff bit_not_iff)
  finally show ?thesis .
qed

lemma sint_negative_iff: "sint (w :: Word) < 0 \<longleftrightarrow> \<not> uint w < 2 ^ 31"
proof -
  have u: "uint w = sint w mod 2 ^ 32"
    by (simp add: uint_sint take_bit_eq_mod)
  show ?thesis
  proof (cases "sint w < 0")
    case True
    have "sint w mod 2 ^ 32 = (sint w + 2 ^ 32) mod 2 ^ 32"
      by simp
    also have "\<dots> = sint w + 2 ^ 32"
      using True sint_greater_eq [of w] by (intro mod_pos_pos_trivial) simp_all
    finally show ?thesis
      using True u sint_greater_eq [of w] by simp
  next
    case False
    then show ?thesis
      using magnitude(2) [of w] sint_less [of w] by simp
  qed
qed

lemma round_up:
  fixes sz :: Word
  assumes "0 < sint sz" "sint sz + 7 < 2 ^ 31"
  shows "uint ((sz + 7) AND NOT 7) = (sint sz + 7) div 8 * 8" "sint ((sz + 7) AND NOT 7) = (sint sz + 7) div 8 * 8"
proof -
  let ?x = "sz + 7"
  have s: "uint sz = sint sz"
    using magnitude(2) [of sz] assms(1) by simp
  then have x: "uint ?x = sint sz + 7"
    using assms by (simp add: uint_word_ariths)
  have "?x AND NOT 7 = ?x - take_bit 3 ?x"
    using and_not_split [of ?x 7] by (simp add: take_bit_eq_mask mask_eq_decr_exp algebra_simps)
  moreover have t: "uint (take_bit 3 ?x) = uint ?x mod 8"
    by (simp only: unsigned_take_bit_eq) (simp add: take_bit_eq_mod)
  have "uint (take_bit 3 ?x) \<le> uint ?x"
    by (simp only: t) (simp add: zmod_le_nonneg_dividend uint_nonnegative)
  then have "uint (?x - take_bit 3 ?x) = uint ?x - uint (take_bit 3 ?x)"
    by (rule uint_sub_lem [THEN iffD1])
  ultimately have "uint (?x AND NOT 7) = uint ?x - uint ?x mod 8"
    using t by simp
  then show u: "uint (?x AND NOT 7) = (sint sz + 7) div 8 * 8"
    by (simp only: x) (simp add: minus_mod_eq_div_mult)
  have "uint (?x AND NOT 7) < 2 ^ 31"
    unfolding u using assms by auto
  then have "\<not> sint (?x AND NOT 7) < 0"
    using sint_negative_iff by blast
  then show "sint (?x AND NOT 7) = (sint sz + 7) div 8 * 8"
    using magnitude(2) u by metis
qed

lemma sbrk_dispatch:
  "dispatch_syscall env (context_of SYS_SBRK c) k = handleSbrk (context_of SYS_SBRK c) (k\<lparr>stats := incSyscalls (stats k)\<rparr>)"
  by (simp add: dispatch_syscall_def andthen_run on_parts_run context_of_def)

abbreviation brk_of :: "nat \<Rightarrow> 'w Kernel \<Rightarrow> Addr" where
  "brk_of p k \<equiv> programBreak (processList k ! p)"

text \<open>The system call: the old break, or -1.\<close>

lemma sbrk_call:
  assumes c: "calling i k" and b: "break_ok (brk_of (parent (at k i)) k)"
    and x: "reg_val (cpu k) 10 = inc"
  shows "\<exists>k'. handleSyscall env SYS_SBRK k = Inr ((), k') \<and>
    world k' = world k \<and> fds (parent (at k i)) k' = fds (parent (at k i)) k \<and>
    (if break_ok (brk_of (parent (at k i)) k + inc)
     then returned (brk_of (parent (at k i)) k) k k' \<and> brk_of (parent (at k i)) k' = brk_of (parent (at k i)) k + inc
     else returned (-1) k k' \<and> processList k' = processList k)"
proof -
  let ?p = "parent (at k i)" and ?k = "k\<lparr>stats := incSyscalls (stats k)\<rparr>"
  let ?brk = "brk_of ?p k"
  let ?l = "put_process ?p ((processList k ! ?p)\<lparr>programBreak := ?brk + inc\<rparr>) ?k"
  let ?r = "if break_ok (?brk + inc) then ?brk else -1" and ?m = "if break_ok (?brk + inc) then ?l else ?k"
  have p: "?p < length (processList k)"
    using c sched_ok_at [of k i] by (simp add: calling_def)
  have nz: "?brk \<noteq> 0"
    using b by (auto simp: break_ok_def layout_defs)
  have cp: "current_process ?k = Inr (?p, ?k)"
    using calling_process [of i ?k] c by simp
  have "handleSbrk (context_of SYS_SBRK (cpu k)) ?k = Inr (done_with ?r, ?m)"
    using sbrk_run [of ?p ?k inc] p nz cp x by (simp add: handleSbrk_def bind_run ret_run)
  then have d: "dispatch_syscall env (context_of SYS_SBRK (cpu k)) k = Inr (done_with ?r, ?m)"
    by (simp only: sbrk_dispatch)
  have "cpu ?m = cpu k"
    by (simp add: put_process_def)
  then have "handleSyscall env SYS_SBRK k = Inr ((), ?m\<lparr>cpu := delivered (done_with ?r) (cpu k)\<rparr>)"
    using handleSyscall_run [OF calling_machine(3) [OF c] d] calling_machine(3) [OF c] by (simp add: SyscallResult_new_def)
  then show ?thesis
    using p by (auto simp: returned_def delivered_def SyscallResult_new_def put_process_def)
qed

lemma malloc_block:
  assumes c: "calling i k" and b: "break_ok (brk_of (parent (at k i)) k)" "8 dvd uint (brk_of (parent (at k i)) k)"
    and sz: "0 < sint sz" "sint sz + 7 < 2 ^ 31"
  shows "\<exists>inc cont k'. c_malloc sz m = Ecall SYS_SBRK [inc] m cont \<and>
    handleSyscall env SYS_SBRK (put_call SYS_SBRK [inc] k) = Inr ((), k') \<and>
    (if uint (brk_of (parent (at k i)) k) + sint sz \<le> uint HEAP_MAX_LIMIT
     then cont (reg_val (cpu k') 10) m = Done (brk_of (parent (at k i)) k) m \<and>
       uint (brk_of (parent (at k i)) k) + sint sz \<le> uint (brk_of (parent (at k i)) k') \<and>
       break_ok (brk_of (parent (at k i)) k') \<and> 8 dvd uint (brk_of (parent (at k i)) k')
     else cont (reg_val (cpu k') 10) m = Done 0 m \<and> processList k' = processList k)"
proof -
  define inc where "inc = (sz + 7) AND NOT 7"
  let ?p = "parent (at k i)"
  let ?brk = "brk_of ?p k" and ?up = "(sint sz + 7) div 8 * 8" and ?k = "put_call SYS_SBRK [inc] k"
  let ?cont = "\<lambda>ptr m. ubind (Done ptr m) (\<lambda>ptr m. Done (if ptr = -1 then 0 else ptr) m)"
  have call: "c_malloc sz m = Ecall SYS_SBRK [inc] m ?cont"
    using sz by (simp add: c_malloc_def c_sbrk_def c_syscall_def inc_def)
  note args = put_call_args(1,2) [OF calling_machine(3) [OF c], of SYS_SBRK inc]
  note k = put_call_calling [OF c args(1)]
  obtain k' where k': "handleSyscall env SYS_SBRK ?k = Inr ((), k')"
    "if break_ok (?brk + inc) then returned ?brk ?k k' \<and> brk_of ?p k' = ?brk + inc
     else returned (-1) ?k k' \<and> processList k' = processList k"
    using sbrk_call [OF k(1) _ args(2), where env = env, unfolded k(2,3)] b(1) by blast
  have r: "reg_val (cpu k') 10 = v" if "returned v ?k k'" for v
    using that args(1) by (simp add: returned_def reg_val_def rf_set_def rf_ok_def)
  have up: "moved_break ?brk inc = uint ?brk + ?up" "sint sz \<le> ?up" "?up < sint sz + 8"
    using round_up(2) [OF sz] unfolding inc_def moved_break_def by simp_all
  have "8 dvd uint ?brk + ?up"
    using b(2) by simp
  then have "uint ?brk + ?up \<le> 33554432 \<longleftrightarrow> uint ?brk + sint sz \<le> 33554432"
    using up(2,3) by presburger
  moreover have "16777216 \<le> uint ?brk + ?up"
    using b(1) up(2) sz by (simp add: break_ok_def word_le_def heap_bounds)
  ultimately have fits: "break_ok (?brk + inc) \<longleftrightarrow> uint ?brk + sint sz \<le> uint HEAP_MAX_LIMIT"
    using break_range(1) [OF b(1), of inc] by (simp add: up(1) heap_bounds)
  have sum: "uint (?brk + inc) = uint ?brk + ?up" if "break_ok (?brk + inc)"
    using break_range(2) [OF b(1) that] by (simp add: up(1))
  have "?brk \<noteq> -1"
    using b(1) by (auto simp: break_ok_def word_le_def heap_bounds unsigned_minus_1_eq_mask mask_eq_exp_minus_1)
  then show ?thesis
    using call k' r fits sum up(2) b(2) by (intro exI [of _ inc] exI [of _ ?cont] exI [of _ k']) (auto split: if_splits)
qed

section \<open>The console\<close>

text \<open>Output goes to the host as the bytes the program sees.\<close>

lemma console_transfers:
  assumes c: "calling i k" and h: "fd < length (fds (parent (at k i)) k)"
      "fds (parent (at k i)) k ! fd = Some (ConsoleHandle hfd)" "hfd = 1 \<or> hfd = 2"
    and x: "sint (arg0 ctx) = int fd"
  shows "\<exists>k' r. handleWrite env ctx k = Inr (done_with r, k') \<and> same_view (cpu k) (cpu k') \<and> processList k' = processList k \<and>
    world k' = snd (host_write env hfd (user_bytes (cpu k) (arg1 ctx) (unat (arg2 ctx))) (world k))"
proof -
  let ?p = "parent (at k i)" and ?n = "unat (arg2 ctx)"
  let ?b = "user_bytes (cpu k) (arg1 ctx) ?n"
  obtain c where c: "copy_out (\<lambda>a. on_cpu (cpu_loadVirtualMemory a 1)) (arg1 ctx) ?n k = Inr (?b, with_cpu c k)"
    "same_view (cpu k) c"
    using user_read_run calling_machine(1,2) [OF c] by blast
  have p: "?p < length (processList k)"
    using assms(1) sched_ok_at [of k i] by (simp add: calling_def)
  obtain r w where rw: "host_write env hfd ?b (world k) = (r, w)"
    by (cases "host_write env hfd ?b (world k)")
  let ?k' = "(with_cpu c k)\<lparr>world := w\<rparr>"
  have "take ?n ?b = ?b" "world (with_cpu c k) = world k"
    by (simp_all add: with_cpu_def)
  then have "handle_write env ?p fd (ConsoleHandle hfd) ?b ?n (with_cpu c k) = Inr (word_of_int r, ?k')"
    using h(3) rw by (simp add: handle_write_def)
  moreover have "getFileHandle ?p (sint (arg0 ctx)) k = Inr (Some (ConsoleHandle hfd), k)" "nat (sint (arg0 ctx)) = fd"
    using getFileHandle_run [OF p, of "sint (arg0 ctx)"] h(1,2) x by simp_all
  ultimately have "handleWrite env ctx k = Inr (done_with (word_of_int r), ?k')"
    using c(1) calling_process [OF assms(1)] by (simp add: handleWrite_def bind_run ret_run Let_def)
  moreover have "same_view (cpu k) (cpu ?k')" "processList ?k' = processList k" "world ?k' = snd (host_write env hfd ?b (world k))"
    using c(2) rw by (simp_all add: with_cpu_def)
  ultimately show ?thesis
    by blast
qed

lemma console_call:
  assumes c: "calling i k" and h: "fd < length (fds (parent (at k i)) k)"
      "fds (parent (at k i)) k ! fd = Some (ConsoleHandle hfd)" "hfd = 1 \<or> hfd = 2"
    and x: "sint (reg_val (cpu k) 10) = int fd"
  shows "\<exists>k' r. handleSyscall env SYS_WRITE k = Inr ((), k') \<and> returned r k k' \<and> processList k' = processList k \<and>
    world k' = snd (host_write env hfd (user_bytes (cpu k) (reg_val (cpu k) 11) (unat (reg_val (cpu k) 12))) (world k))"
proof -
  let ?k = "k\<lparr>stats := incSyscalls (stats k)\<rparr>"
  obtain l r where l: "handleWrite env (context_of SYS_WRITE (cpu k)) ?k = Inr (done_with r, l)" "same_view (cpu k) (cpu l)"
    "processList l = processList k" "world l = snd (host_write env hfd (user_bytes (cpu k) (reg_val (cpu k) 11) (unat (reg_val (cpu k) 12))) (world k))"
    using console_transfers [of i ?k fd hfd "context_of SYS_WRITE (cpu k)" env] assms by auto
  have v: "regs (cpu l) = regs (cpu k)" "pc (cpu l) = pc (cpu k)"
    using l(2) by (simp_all add: same_view_def)
  have "handleSyscall env SYS_WRITE k = Inr ((), l\<lparr>cpu := delivered (done_with r) (cpu l)\<rparr>)"
    using handleSyscall_run [OF calling_machine(3) [OF c] transfer_dispatch(1) [THEN trans, OF l(1)]] v calling_machine(3) [OF c]
    by (simp add: SyscallResult_new_def)
  then show ?thesis
    using v l(3,4) by (auto simp: returned_def delivered_def SyscallResult_new_def)
qed

lemma text_seen:
  assumes "\<And>j. j < 12 \<Longrightarrow> user_byte c (buffer + of_nat j) = m (buffer + of_nat j)" "off + len \<le> 12"
  shows "user_bytes c (buffer + of_nat off) len = text_at m (buffer + of_nat off) len"
proof -
  have "user_byte c (buffer + of_nat off + of_nat j) = m (buffer + of_nat off + of_nat j)" if "j < len" for j
    using assms(1) [of "off + j"] assms(2) that by (simp add: algebra_simps)
  then show ?thesis
    by (simp add: user_bytes_def text_at_def)
qed

text \<open>\<^verbatim>\<open>putint\<close> on the kernel: the host's console gets the decimal text.\<close>

lemma putint_console:
  "\<exists>off len m'. c_putint buffer n m = Ecall SYS_WRITE [1, buffer + of_nat off, of_nat len] m' (\<lambda>_ m. Done () m) \<and> off + len \<le> 12 \<and>
     (\<forall>i (k :: 'w Kernel). calling i k \<and> 1 < length (fds (parent (at k i)) k) \<and>
        fds (parent (at k i)) k ! 1 = Some (ConsoleHandle 1) \<and>
        (\<forall>j < 12. user_byte (cpu k) (buffer + of_nat j) = m' (buffer + of_nat j)) \<longrightarrow>
        (\<exists>bs k'. decimal bs (sint n) \<and>
           handleSyscall env SYS_WRITE (put_call SYS_WRITE [1, buffer + of_nat off, of_nat len] k) = Inr ((), k') \<and>
           world k' = snd (host_write env 1 bs (world k))))"
proof -
  obtain off len m' where p: "c_putint buffer n m = Ecall SYS_WRITE [1, buffer + of_nat off, of_nat len] m' (\<lambda>_ m. Done () m)"
    "off + len \<le> 12" "decimal (text_at m' (buffer + of_nat off) len) (sint n)"
    using putint_writes by blast
  let ?args = "[1, buffer + of_nat off, of_nat len]"
  have "\<exists>bs k'. decimal bs (sint n) \<and> handleSyscall env SYS_WRITE (put_call SYS_WRITE ?args k) = Inr ((), k') \<and>
      world k' = snd (host_write env 1 bs (world k))"
    if k: "calling i k" "1 < length (fds (parent (at k i)) k)" "fds (parent (at k i)) k ! 1 = Some (ConsoleHandle 1)"
      "\<forall>j < 12. user_byte (cpu k) (buffer + of_nat j) = m' (buffer + of_nat j)" for i and k :: "'w Kernel"
  proof -
    note args = put_call_args(3-6) [OF calling_machine(3) [OF k(1)], of SYS_WRITE 1 "buffer + of_nat off" "of_nat len"]
    note same = put_call_calling [OF k(1) args(1)]
    have n: "unat (of_nat len :: Word) = len"
      using p(2) by (simp add: unat_of_nat)
    have "sint (reg_val (cpu (put_call SYS_WRITE ?args k)) 10) = int 1"
      by (simp add: args(2))
    moreover have "user_bytes (cpu (put_call SYS_WRITE ?args k)) (buffer + of_nat off) len = text_at m' (buffer + of_nat off) len"
      using k(4) p(2) by (intro text_seen) (simp_all add: same(5))
    ultimately show ?thesis
      using console_call [OF same(1), of 1 1 env] k(2,3) p(3) by (auto simp: same args n)
  qed
  then show ?thesis
    using p(1,2) by blast
qed

section \<open>Strings and lines\<close>

text \<open>\<^verbatim>\<open>strlen\<close> returns exactly when there is a zero byte, with the distance to the first one.\<close>

lemma strlen_from:
  assumes "m (str + of_nat n) = 0" "\<And>j. i \<le> j \<Longrightarrow> j < n \<Longrightarrow> m (str + of_nat j) \<noteq> 0" "i \<le> n"
  shows "c_strlen m str (of_nat i) = Some (of_nat n)"
  using assms(3,2)
proof (induction i rule: inc_induct)
  case base
  then show ?case
    using assms(1) by (subst c_strlen.simps) simp
next
  case (step i)
  then show ?case
    by (subst c_strlen.simps) (simp add: add.commute)
qed

lemma strlen_found:
  assumes "c_strlen m str len = Some r" shows "m (str + r) = 0"
  by (rule c_strlen.raw_induct [OF _ assms]) (auto split: if_splits)

lemma strlen_terminates: "(\<exists>r. c_strlen m str 0 = Some r) \<longleftrightarrow> (\<exists>n. m (str + of_nat n) = 0)"
proof
  assume "\<exists>n. m (str + of_nat n) = 0"
  then have "m (str + of_nat (LEAST n. m (str + of_nat n) = 0)) = 0"
    by (rule LeastI_ex)
  then show "\<exists>r. c_strlen m str 0 = Some r"
    using strlen_from [of m str _ 0] not_less_Least by fastforce
next
  assume "\<exists>r. c_strlen m str 0 = Some r"
  then obtain r where "m (str + r) = 0"
    using strlen_found by blast
  then have "m (str + of_nat (unat r)) = 0"
    by simp
  then show "\<exists>n. m (str + of_nat n) = 0"
    by blast
qed

lemma putstr_len_from:
  assumes "m (s + of_nat n) = 0" "\<And>j. i \<le> j \<Longrightarrow> j < n \<Longrightarrow> m (s + of_nat j) \<noteq> 0" "i \<le> n" "n \<le> 2147483647"
  shows "putstr_len m s i = Some n"
  using assms(3,2)
proof (induction i rule: inc_induct)
  case base
  then show ?case
    using assms(1) by (subst putstr_len.simps) simp
next
  case (step i)
  then show ?case
    using assms(4) by (subst putstr_len.simps) simp
qed

text \<open>\<^verbatim>\<open>putstr\<close> writes the string without its zero byte, in one call.\<close>

lemma putstr_writes:
  assumes "m (s + of_nat n) = 0" "\<And>j. j < n \<Longrightarrow> m (s + of_nat j) \<noteq> 0" "n \<le> 2147483647"
  shows "c_putstr s m = Ecall SYS_WRITE [1, s, of_nat n] m (\<lambda>_ m. Done () m)"
proof -
  have "uint (of_nat n :: Word) = int n"
    using assms(3) by (simp add: unsigned_of_nat take_bit_eq_mod)
  then have "\<not> sint (of_nat n :: Word) < 0"
    using assms(3) unfolding sint_negative_iff by simp
  moreover have "putstr_len m s 0 = Some n"
    using assms by (intro putstr_len_from) auto
  ultimately show ?thesis
    by (simp add: c_putstr_def c_write_def c_syscall_def)
qed

text \<open>\<^verbatim>\<open>getline\<close> ends the line inside the buffer, whatever count the kernel returns up to the one it asked for.\<close>

lemma getline_ends:
  assumes "0 < sint max_len"
  shows "\<exists>cont. c_getline buf max_len m = Ecall SYS_READ [0, buf, max_len - 1] m cont \<and>
    (\<forall>r m'. sint r < sint max_len \<longrightarrow>
       (\<exists>n. 0 \<le> sint n \<and> sint n < sint max_len \<and> sint n \<le> max 0 (sint r) \<and> cont r m' = Done n (m'(buf + n := 0))))"
proof -
  have n: "uint max_len = sint max_len"
    using magnitude(2) [of max_len] assms by simp
  then have "uint (1 :: Word) \<le> uint max_len"
    using assms by simp
  then have "uint (max_len - 1) = uint max_len - 1"
    using uint_sub_lem [of "1 :: Word" max_len] by simp
  then have "\<not> sint (max_len - 1) < 0"
    unfolding sint_negative_iff using n sint_less [of max_len] by simp
  then have "c_getline buf max_len m = Ecall SYS_READ [0, buf, max_len - 1] m
      (\<lambda>r m. if sint r \<le> 0 then Done 0 (m(buf := 0)) else Done r (m(buf + r := 0)))"
    using assms by (simp add: c_getline_def c_read_def c_syscall_def)
  moreover have "\<exists>n. 0 \<le> sint n \<and> sint n < sint max_len \<and> sint n \<le> max 0 (sint r) \<and>
      (if sint r \<le> 0 then Done 0 (m'(buf := 0)) else Done r (m'(buf + r := 0))) = Done n (m'(buf + n := 0))"
    if "sint r < sint max_len" for r :: Word and m' :: umem
    using that assms by (intro exI [of _ "if sint r \<le> 0 then 0 else r"]) auto
  ultimately show ?thesis
    by auto
qed

end
