(* ===== verification/Call_Properties.thy ===== *)
theory Call_Properties
  imports UserCalls Boot Storage_Properties
begin

text \<open>
  What the file system calls and the C library promise to a program, from theories UserMemory,
  FileCalls and UserCalls, each with a run on a kernel whose current process has two pages of memory.
\<close>

section \<open>The kernel of the witnesses\<close>

text \<open>Page 0 of the caller starts with the name \<^verbatim>\<open>a\<close> and four bytes at address 2; page 1 is empty.
  The registers ask for descriptor 3, address 2 and four bytes.\<close>

definition call_cpu :: Machine where
  "call_cpu = (demo_cpu [97, 0, 1, 2, 3, 4])\<lparr>regs := RegFile_new[10 := 3, 11 := 2, 12 := 4]\<rparr>"

definition call_kernel :: "unit Kernel" where
  "call_kernel = two_processes\<lparr>cpu := call_cpu, disk := disk demo_storage, vfs := vfs demo_storage\<rparr>"

definition open_kernel :: "unit Kernel" where
  "open_kernel = put_fd 0 3 (Some (DiskHandle handle_a)) call_kernel"

lemma call_cpu_ok: "cpu_ok call_cpu" "vmEnabled (mmu call_cpu)"
  using demo_cpu_ok [of "[97, 0, 1, 2, 3, 4]"] rf_ok_new by (simp_all add: call_cpu_def cpu_ok_def rf_ok_def nth_list_update)

lemma call_granted:
  "granted call_cpu a w = (if vpn_of a = 0 then demo_table 0 else if vpn_of a = 1 then demo_table 1 else None)"
  by (simp add: granted_def call_cpu_def current_pte_def demo_mmu_def demo_table_def allows_def)

lemma call_mapped: "vpn_of a = 0 \<or> vpn_of a = 1 \<Longrightarrow> mapped call_cpu a"
  by (auto simp: mapped_def call_granted demo_table_def)

lemma call_one_to_one: "one_to_one call_cpu"
  unfolding one_to_one_def
proof (intro allI impI)
  fix a b w w' p q
  assume g: "granted call_cpu a w = Some p" "granted call_cpu b w' = Some q" and e: "phys_at p a = phys_at q b"
  have "ppn p = ppn q" "page_offset a = page_offset b"
    using e phys_at_parts [of p a] phys_at_parts [of q b] by (auto simp: word_unat_eq_iff)
  then have "vpn_of a = vpn_of b" "page_offset a = page_offset b"
    using g by (auto simp: call_granted demo_table_def split: if_splits)
  then have "unat a = unat b"
    using unat_split [of a] unat_split [of b] by simp
  then show "a = b"
    by (simp add: word_unat_eq_iff)
qed

lemma call_byte:
  assumes "unat a < 6" shows "user_byte call_cpu a = [97, 0, 1, 2, 3, 4] ! unat a"
proof -
  have "vpn_of a = 0" "page_offset a = unat a"
    using assms by (simp_all add: vpn_of_def page_offset_def word_unat_eq_iff unat_drop_bit_eq drop_bit_eq_div unat_div)
  moreover have "unat a = 0 \<or> unat a = 1 \<or> unat a = 2 \<or> unat a = 3 \<or> unat a = 4 \<or> unat a = 5"
    using assms by linarith
  then have "(mem_splice Memory_new 12288 [97, 0, 1, 2, 3, 4]) ! (12288 + unat a) = [97, 0, 1, 2, 3, 4] ! unat a"
    by (elim disjE) (simp_all add: mem_splice_def Memory_new_def unat_MEMORY_SIZE nth_append)
  ultimately show ?thesis
    by (simp add: user_byte_def call_granted demo_table_def phys_at_def PTE_new_def) (simp add: call_cpu_def)
qed

lemma call_bytes: "user_bytes call_cpu 2 4 = [1, 2, 3, 4]"
  by (simp add: user_bytes_def upt_rec call_byte)

lemma call_name: "user_name call_cpu 0 = ''a''"
proof -
  have "user_bytes call_cpu 0 129 = 97 # 0 # user_bytes call_cpu 2 127"
    using user_bytes_Suc [of call_cpu 0 128] user_bytes_Suc [of call_cpu 1 127] by (simp add: call_byte)
  moreover have "char_of (97 :: nat) = CHR ''a''"
    by code_simp
  ultimately show ?thesis
    by (simp add: user_name_def MAX_FILE_NAME_LENGTH_def)
qed

lemma call_calling: "calling 0 call_kernel" "calling 0 open_kernel"
  using two_processes_sched(1) call_cpu_ok
  by (simp_all add: calling_def sched_ok_def call_kernel_def open_kernel_def put_fd_def put_process_def)
     (simp_all add: two_processes_def)

lemma call_parent: "parent (at call_kernel 0) = 0" "parent (at open_kernel 0) = 0"
  by (simp_all add: at_def call_kernel_def open_kernel_def put_fd_def put_process_def two_processes_def thread_at_def)

lemma call_fds: "fds 0 call_kernel = [Some (ConsoleHandle 0), Some (ConsoleHandle 1), Some (ConsoleHandle 2)] @ replicate 1021 None"
  by (simp add: call_kernel_def two_processes_first demo_process_def PCB_new_def FD_TABLE_SIZE_def)

lemma call_free: "free_fd (fds 0 call_kernel) = Some 3"
  unfolding free_fd_lowest by (auto simp: call_fds nth_append nth_Cons less_Suc_eq numeral_eq_Suc)

lemma call_file: "fs_ok call_kernel" "file_ok call_kernel handle_a"
  "fileTable (vfs call_kernel) ''a'' = Some \<lparr>fm_name = ''a'', startBlock = 0, sizeBytes = 100\<rparr>"
  using demo_fs_ok demo_file_ok(1)
  by (simp_all add: fs_ok_def file_ok_def disk_ok_def call_kernel_def) (simp add: demo_storage_def)

lemma call_open: "has_open 0 3 handle_a open_kernel"
proof -
  have l: "0 < length (processList call_kernel)"
    by (simp add: call_kernel_def two_processes_length)
  then have "fds 0 open_kernel = (fds 0 call_kernel)[3 := Some (DiskHandle handle_a)]" "disk open_kernel = disk call_kernel"
    "0 < length (processList open_kernel)"
    unfolding open_kernel_def by (simp_all only: fds_put put_fd_simps put_fd_length)
  then show ?thesis
    using call_file(2) file_same_disk(1) [of open_kernel call_kernel handle_a] by (simp add: has_open_def call_fds)
qed

lemma call_regs:
  "reg_val call_cpu 10 = 3" "reg_val call_cpu 11 = 2" "reg_val call_cpu 12 = 4"
  "cpu open_kernel = call_cpu" "cpu call_kernel = call_cpu"
  by (simp_all add: open_kernel_def call_kernel_def call_cpu_def reg_val_def RegFile_new_def)

lemma call_content: "file_abs open_kernel handle_a = (replicate 100 0, 0)"
proof -
  have "data (disk open_kernel) = replicate 32768 0"
    by (simp add: open_kernel_def call_kernel_def demo_storage_def InMemoryDisk_new_def BLOCK_SIZE_def)
  then show ?thesis
    by (simp add: file_abs_def file_bytes_def handle_a_def DiskFileHandle_new_def)
qed

section \<open>Reading and writing\<close>

text \<open>C18: The write system call moves user memory into the file: it returns how many bytes fit behind
  the descriptor's position, these bytes of the file are the bytes the process sees at the buffer's
  addresses (zero where it may not read, which includes every page that is not in memory at the
  moment), the caller's memory is unchanged and it goes on behind the call.\<close>

theorem write_system_call:
  assumes "calling i k" "has_open (parent (at k i)) fd d k" "sint (reg_val (cpu k) 10) = int fd"
  shows "\<exists>k' m d'. handleSyscall env SYS_WRITE k = Inr ((), k') \<and> returned (of_nat m) k k' \<and>
    has_open (parent (at k i)) fd d' k' \<and>
    afile_write (user_bytes (cpu k) (reg_val (cpu k) 11) (unat (reg_val (cpu k) 12))) (file_abs k d) = (m, file_abs k' d') \<and>
    (\<forall>a. user_byte (cpu k') a = user_byte (cpu k) a)"
  using assms by (rule write_call)

theorem write_system_call_witness:
  "\<exists>k' d'. handleSyscall demo_env SYS_WRITE open_kernel = Inr ((), k') \<and> pc (cpu k') = 4 \<and>
    file_abs k' d' = ([1, 2, 3, 4] @ replicate 96 0, 4)"
proof -
  have fd: "sint (reg_val (cpu open_kernel) 10) = int 3"
    by (simp add: call_regs)
  have "has_open (parent (at open_kernel 0)) 3 handle_a open_kernel"
    by (simp add: call_parent call_open)
  from write_system_call [OF call_calling(2) this fd, of demo_env] obtain k' m d' where
    k': "handleSyscall demo_env SYS_WRITE open_kernel = Inr ((), k')" "returned (of_nat m) open_kernel k'"
      "afile_write [1, 2, 3, 4] (replicate 100 0, 0) = (m, file_abs k' d')"
    by (auto simp: call_regs call_bytes call_content)
  have "file_abs k' d' = ([1, 2, 3, 4] @ replicate 96 0, 4)"
    using k'(3) by (auto simp: afile_write_def Let_def put_at_def numeral_eq_Suc)
  moreover have "pc (cpu k') = 4"
    using k'(2) by (simp add: returned_def call_regs) (simp add: call_cpu_def)
  ultimately show ?thesis
    using k'(1) by blast
qed

text \<open>C19: The read system call moves the file into user memory: it returns how many bytes it took from
  the descriptor's position, and afterwards the process sees exactly these bytes at the buffer's
  addresses and its memory is otherwise unchanged.  The exception are addresses that cannot be
  written or are not in memory: the count includes them, but their bytes are lost.\<close>

theorem read_system_call:
  assumes "calling i k" "has_open (parent (at k i)) fd d k" "sint (reg_val (cpu k) 10) = int fd" "one_to_one (cpu k)"
  shows "\<exists>k' bs d'. handleSyscall env SYS_READ k = Inr ((), k') \<and> returned (of_nat (length bs)) k k' \<and>
    has_open (parent (at k i)) fd d' k' \<and> afile_read (unat (reg_val (cpu k) 12)) (file_abs k d) = (bs, file_abs k' d') \<and>
    (\<forall>a. user_byte (cpu k') a = (if unat (a - reg_val (cpu k) 11) < length bs \<and> mapped (cpu k) a
                              then bs ! unat (a - reg_val (cpu k) 11) else user_byte (cpu k) a))"
  using assms by (rule read_call)

theorem read_system_call_witness:
  "\<exists>k'. handleSyscall demo_env SYS_READ open_kernel = Inr ((), k') \<and> user_byte (cpu k') 2 = 0 \<and> user_byte (cpu k') 0 = 97"
proof -
  have fd: "sint (reg_val (cpu open_kernel) 10) = int 3"
    by (simp add: call_regs)
  have h: "has_open (parent (at open_kernel 0)) 3 handle_a open_kernel"
    by (simp add: call_parent call_open)
  have o: "one_to_one (cpu open_kernel)"
    by (simp add: call_regs call_one_to_one)
  have "mapped call_cpu 2"
    by (rule call_mapped) (simp add: vpn_of_def)
  then show ?thesis
    using read_system_call [OF call_calling(2) h fd o, of demo_env]
    by (auto simp: call_regs call_content afile_read_def Let_def call_byte)
qed

text \<open>C20: What a program writes to a file it can read back: it opens a file by its name, writes a buffer
  that fits, closes the descriptor, opens the file again and reads as many bytes into another
  buffer, which then holds the bytes of the first one, wherever its pages are in memory and
  writable; elsewhere it is unchanged.\<close>

theorem file_round_trip:
  assumes "calling i k" "one_to_one (cpu k)" "fs_ok k" "fileTable (vfs k) (user_name (cpu k) path) = Some m"
    and "free_fd (fds (parent (at k i)) k) = Some fd" "fd < FD_TABLE_SIZE" "unat n \<le> sizeBytes m"
  shows "\<exists>k'. andthen (write_file env path src n) (read_file env path dst n) k = Inr (done_with n, k') \<and>
    (\<forall>j < unat n. user_byte (cpu k') (dst + of_nat j) =
       (if mapped (cpu k) (dst + of_nat j) then user_byte (cpu k) (src + of_nat j) else user_byte (cpu k) (dst + of_nat j)))"
  using assms by (rule file_round_trip_run)

theorem file_round_trip_witness:
  "\<exists>k'. andthen (write_file demo_env 0 2 4) (read_file demo_env 0 0x1000 4) call_kernel = Inr (done_with 4, k') \<and>
    user_byte (cpu k') 0x1003 = 4"
proof -
  have f: "fileTable (vfs call_kernel) (user_name (cpu call_kernel) 0) = Some \<lparr>fm_name = ''a'', startBlock = 0, sizeBytes = 100\<rparr>"
    by (simp add: call_regs call_name call_file(3))
  have o: "one_to_one (cpu call_kernel)" "free_fd (fds (parent (at call_kernel 0)) call_kernel) = Some 3"
    by (simp_all add: call_regs call_one_to_one call_parent call_free)
  obtain k' where k': "andthen (write_file demo_env 0 2 4) (read_file demo_env 0 0x1000 4) call_kernel = Inr (done_with 4, k')"
    "\<forall>j < 4. user_byte (cpu k') (0x1000 + of_nat j) = (if mapped call_cpu (0x1000 + of_nat j)
       then user_byte call_cpu (2 + of_nat j) else user_byte call_cpu (0x1000 + of_nat j))"
    using file_round_trip [OF call_calling(1) o(1) call_file(1) f o(2), of 4 demo_env 2 "0x1000"]
    by (auto simp: FD_TABLE_SIZE_def call_regs)
  have "mapped call_cpu 0x1003"
    by (rule call_mapped) (simp add: vpn_of_def)
  then show ?thesis
    using k'(1) k'(2) [rule_format, of 3] by (auto simp: call_byte)
qed

section \<open>The C library\<close>

text \<open>A kernel whose host records what is written to it, with given memory in page 0 of the caller.\<close>

definition console_kernel :: "Byte list \<Rightarrow> Byte list Kernel" where
  "console_kernel code =
     (booted Stats_new [])\<lparr>processList := processList two_processes, allThreads := allThreads two_processes,
       activeThreads := activeThreads two_processes, currentThreadIndex := 0, cpu := demo_cpu code\<rparr>"

definition recording_env :: "Byte list Env" where
  "recording_env =
     \<lparr>host_read = (\<lambda>n w. ((0, []), w)), host_write = (\<lambda>fd bs w. (int (length bs), w @ bs)),
      host_file = (\<lambda>n. None), table_order = (\<lambda>t. sorted_list_of_set (dom t))\<rparr>"

lemma demo_byte:
  assumes "unat a < length code" "length code \<le> 4096" shows "user_byte (demo_cpu code) a = code ! unat a"
proof -
  have "vpn_of a = 0" "page_offset a = unat a"
    using assms by (simp_all add: vpn_of_def page_offset_def word_unat_eq_iff unat_drop_bit_eq drop_bit_eq_div unat_div)
  moreover have "mem_splice Memory_new 12288 code ! (12288 + unat a) = code ! unat a"
    using assms by (simp add: mem_splice_def Memory_new_def unat_MEMORY_SIZE nth_append)
  ultimately show ?thesis
    by (simp add: user_byte_def granted_def current_pte_def demo_mmu_def demo_table_def allows_def phys_at_def PTE_new_def)
qed

lemma console_calling: "length code \<le> 4096 \<Longrightarrow> calling 0 (console_kernel code)"
  using two_processes_sched(1) demo_cpu_ok [of code]
  by (simp add: calling_def sched_ok_def console_kernel_def) (simp add: two_processes_def)

lemma console_fds:
  "parent (at (console_kernel code) 0) = 0" "1 < length (fds 0 (console_kernel code))"
  "fds 0 (console_kernel code) ! 1 = Some (ConsoleHandle 1)" "cpu (console_kernel code) = demo_cpu code"
  "world (console_kernel code) = []"
  by (simp_all add: console_kernel_def at_def two_processes_first demo_process_def PCB_new_def booted_def)
     (simp_all add: two_processes_def thread_at_def)

text \<open>C34: The library function putint prints integers: for every argument, the smallest one included, it makes
  exactly one call, a write of bytes of its buffer of twelve, and returns whatever the call answers, leaving
  memory as the call left it; and on a kernel where the buffer of the process holds what putint has put
  there and descriptor 1 is the console, the host receives in that call exactly the decimal numeral of the
  number, with a sign if it is negative and without leading zeros.\<close>

theorem putint_prints_number:
  "\<exists>off len m'. c_putint buffer n m = Ecall SYS_WRITE [1, buffer + of_nat off, of_nat len] m' (\<lambda>_ m. Done () m) \<and> off + len \<le> 12 \<and>
     (\<forall>i (k :: 'w Kernel). calling i k \<and> 1 < length (fds (parent (at k i)) k) \<and>
        fds (parent (at k i)) k ! 1 = Some (ConsoleHandle 1) \<and>
        (\<forall>j < 12. user_byte (cpu k) (buffer + of_nat j) = m' (buffer + of_nat j)) \<longrightarrow>
        (\<exists>bs k'. decimal bs (sint n) \<and>
           handleSyscall env SYS_WRITE (put_call SYS_WRITE [1, buffer + of_nat off, of_nat len] k) = Inr ((), k') \<and>
           world k' = snd (host_write env 1 bs (world k))))"
  by (rule putint_console)

theorem putint_prints_number_witness:
  "\<exists>args (k :: Byte list Kernel) k'. handleSyscall recording_env SYS_WRITE (put_call SYS_WRITE args k) = Inr ((), k') \<and>
     world k = [] \<and> decimal (world k') (-42)"
proof -
  obtain off len and m' :: umem where p: "\<forall>i (k :: Byte list Kernel). calling i k \<and> 1 < length (fds (parent (at k i)) k) \<and>
        fds (parent (at k i)) k ! 1 = Some (ConsoleHandle 1) \<and>
        (\<forall>j < 12. user_byte (cpu k) (0 + of_nat j) = m' (0 + of_nat j)) \<longrightarrow>
        (\<exists>bs k'. decimal bs (sint (-42 :: Word)) \<and>
           handleSyscall recording_env SYS_WRITE (put_call SYS_WRITE [1, 0 + of_nat off, of_nat len] k) = Inr ((), k') \<and>
           world k' = snd (host_write recording_env 1 bs (world k)))"
    using putint_prints_number [of 0 "-42" "\<lambda>_. 0" recording_env] by blast
  let ?code = "map (\<lambda>j. m' (of_nat j)) [0..<12]"
  have "user_byte (demo_cpu ?code) (of_nat j) = m' (of_nat j)" if "j < 12" for j
  proof -
    have "unat (of_nat j :: Addr) = j"
      using that by (simp add: unat_of_nat)
    then show ?thesis
      using that demo_byte [of "of_nat j" ?code] by simp
  qed
  then obtain bs k' where "decimal bs (-42)"
    "handleSyscall recording_env SYS_WRITE (put_call SYS_WRITE [1, 0 + of_nat off, of_nat len] (console_kernel ?code)) = Inr ((), k')"
    "world k' = snd (host_write recording_env 1 bs (world (console_kernel ?code)))"
    using p [rule_format, of 0 "console_kernel ?code"] console_calling [of ?code] by (auto simp: console_fds console_fds [unfolded One_nat_def])
  then show ?thesis
    by (intro exI [of _ "[1, 0 + of_nat off, of_nat len]"] exI [of _ "console_kernel ?code"] exI [of _ k']) (simp add: console_fds recording_env_def)
qed

text \<open>C33: The library function malloc hands out memory of its own: on a heap whose break is a multiple of
  eight it asks the kernel for the size rounded up, and returns the old break, so that the block lies
  between the old and the new break, which is again a multiple of eight and within the heap's bounds;
  when the request does not fit below the heap's limit it returns the null pointer and nothing
  changes.  Sizes above 2147483640 are excluded: there its signed addition overflows.\<close>

theorem malloc_gives_block:
  assumes "calling i k" "break_ok (brk_of (parent (at k i)) k)" "8 dvd uint (brk_of (parent (at k i)) k)"
    and "0 < sint sz" "sint sz + 7 < 2 ^ 31"
  shows "\<exists>inc cont k'. c_malloc sz m = Ecall SYS_SBRK [inc] m cont \<and>
    handleSyscall env SYS_SBRK (put_call SYS_SBRK [inc] k) = Inr ((), k') \<and>
    (if uint (brk_of (parent (at k i)) k) + sint sz \<le> uint HEAP_MAX_LIMIT
     then cont (reg_val (cpu k') 10) m = Done (brk_of (parent (at k i)) k) m \<and>
       uint (brk_of (parent (at k i)) k) + sint sz \<le> uint (brk_of (parent (at k i)) k') \<and>
       break_ok (brk_of (parent (at k i)) k') \<and> 8 dvd uint (brk_of (parent (at k i)) k')
     else cont (reg_val (cpu k') 10) m = Done 0 m \<and> processList k' = processList k)"
  using assms by (rule malloc_block)

theorem malloc_gives_block_witness:
  "\<exists>inc cont k'. c_malloc 100 (\<lambda>_. 0) = Ecall SYS_SBRK [inc] (\<lambda>_. 0) cont \<and>
    handleSyscall demo_env SYS_SBRK (put_call SYS_SBRK [inc] call_kernel) = Inr ((), k') \<and>
    cont (reg_val (cpu k') 10) (\<lambda>_. 0) = Done 0x1002000 (\<lambda>_. 0)"
proof -
  have b: "brk_of (parent (at call_kernel 0)) call_kernel = 0x1002000"
    by (simp add: call_parent) (simp add: call_kernel_def two_processes_first demo_process_def layout_defs)
  have "break_ok (brk_of (parent (at call_kernel 0)) call_kernel)" "8 dvd uint (brk_of (parent (at call_kernel 0)) call_kernel)"
    by (simp_all add: b break_ok_def layout_defs)
  then show ?thesis
    using malloc_gives_block [OF call_calling(1), of 100 "\<lambda>_. 0" demo_env] by (auto simp: b heap_bounds)
qed

end
