(* ===== verification/Wellformed.thy ===== *)
theory Wellformed
  imports FileCalls Launch Boot
begin

text \<open>
  The invariants of whole runs.  \<^verbatim>\<open>safe\<close> holds in every state the simulator reaches, whatever
  the user programs do and even after processes have ended: indices stay inside their lists,
  registers and memory keep their shape, page tables and free list name frames that exist.
  \<^verbatim>\<open>fine\<close> is the stronger one, with the invariant of theory Paging; it lasts as long as no
  process has ended.  \<^verbatim>\<open>near\<close> and \<^verbatim>\<open>good\<close> relate the kernel before and after an operation.
\<close>

section \<open>Threads and processes\<close>

definition thread_ok :: "nat \<Rightarrow> Thread \<Rightarrow> bool" where
  "thread_ok n t \<longleftrightarrow> rf_ok (t_regs t) \<and> (\<forall>j. joiner t = Some j \<longrightarrow> j < n)"

text \<open>A handle stays inside a disk of \<^verbatim>\<open>d\<close> bytes.\<close>

definition handle_ok :: "nat \<Rightarrow> FileHandle \<Rightarrow> bool" where
  "handle_ok d h \<longleftrightarrow> (\<forall>f. h = DiskHandle f \<longrightarrow> startBlockIndex f * BLOCK_SIZE + fileSize f \<le> d)"

definition process_ok :: "nat \<Rightarrow> nat \<Rightarrow> Process \<Rightarrow> bool" where
  "process_ok n d pr \<longleftrightarrow>
     (\<forall>i \<in> set (threads pr). i < n) \<and>
     (\<forall>m \<in> set (mutexList pr). \<forall>t \<in> set (waitQueue m). t < n) \<and>
     (\<forall>h. Some h \<in> set (fdTable pr) \<longrightarrow> handle_ok d h)"

definition disk_bytes :: "'w Kernel \<Rightarrow> nat" where
  "disk_bytes k = length (data (disk k))"

definition tasks_ok :: "'w Kernel \<Rightarrow> bool" where
  "tasks_ok k \<longleftrightarrow>
     sched_ok k \<and> one_running k \<and> table_in_force k \<and> length (processList k) = MAX_PROCESS \<and>
     (\<forall>t \<in> set (allThreads k). thread_ok (length (allThreads k)) t) \<and>
     (\<forall>pr \<in> set (processList k). process_ok (length (allThreads k)) (disk_bytes k) pr) \<and>
     (\<forall>pid. \<forall>i \<in> set (waiters k pid). i < length (allThreads k))"

section \<open>Frames\<close>

definition page_address :: "nat \<Rightarrow> Addr" where
  "page_address f = word_of_nat f * KERNEL_PAGE_SIZE"

text \<open>
  A frame may be in the free list twice, or in it and in use.  Every frame is in the free list or
  allocated, so that eviction always finds a victim.
\<close>

definition frames_safe :: "nat \<Rightarrow> PMM \<Rightarrow> FIFOPolicy \<Rightarrow> bool" where
  "frames_safe n P q \<longleftrightarrow>
     length (frameTable P) = 16 \<and> fifo.covers q (frameTable P) \<and>
     (\<forall>a \<in> set (freeFrames P). \<exists>f < 16. a = page_address f) \<and>
     (\<forall>f < 16. page_address f \<in> set (freeFrames P) \<or> allocated (frameTable P ! f)) \<and>
     (\<forall>f < 16. allocated (frameTable P ! f) \<longrightarrow>
        0 \<le> ownerPid (frameTable P ! f) \<and> nat (ownerPid (frameTable P ! f)) < n)"

definition memory_ok :: "'w Kernel \<Rightarrow> bool" where
  "memory_ok k \<longleftrightarrow> calm k \<and> mem_ok (k_mem k) \<and> (\<forall>p. frames_low (page_table k p)) \<and>
     frames_safe (length (processList k)) (pmm k) (prp k)"

definition store_ok :: "'w Kernel \<Rightarrow> bool" where
  "store_ok k \<longleftrightarrow> fs_ok k \<and> swap_ok k"

section \<open>The two invariants\<close>

definition safe :: "'w Kernel \<Rightarrow> bool" where
  "safe k \<longleftrightarrow> tasks_ok k \<and> memory_ok k \<and> store_ok k"

text \<open>No process has left anything behind: a slot out of use maps no page, and every thread
  belongs to a process in use.\<close>

definition fine :: "'w Kernel \<Rightarrow> bool" where
  "fine k \<longleftrightarrow> vm_ok k \<and>
     (\<forall>p < length (processList k). \<not> active (processList k ! p) \<longrightarrow> page_table k p = Map.empty) \<and>
     (\<forall>t \<in> set (allThreads k). active (processList k ! parent t))"

definition same_processes :: "'w Kernel \<Rightarrow> 'w Kernel \<Rightarrow> bool" where
  "same_processes k k' \<longleftrightarrow> map p_pid (processList k') = map p_pid (processList k) \<and>
     map active (processList k') = map active (processList k)"

definition onward :: "'w Kernel \<Rightarrow> 'w Kernel \<Rightarrow> bool" where
  "onward k k' \<longleftrightarrow> vmEnabled (mmu (cpu k')) = vmEnabled (mmu (cpu k)) \<and>
     currentThreadIndex k' = currentThreadIndex k \<and> (\<exists>ts. activeThreads k' = activeThreads k @ ts) \<and>
     length (processList k') = length (processList k) \<and> length (data (disk k')) = length (data (disk k)) \<and>
     (\<exists>ts. map parent (allThreads k') = map parent (allThreads k) @ ts)"

text \<open>An operation that ends no process and starts none.\<close>

definition near :: "'w Kernel \<Rightarrow> 'w Kernel \<Rightarrow> bool" where
  "near k k' \<longleftrightarrow> safe k' \<and> onward k k' \<and> same_processes k k' \<and> (fine k \<longrightarrow> fine k')"

text \<open>Some process in use is so no longer.\<close>

definition lost :: "'w Kernel \<Rightarrow> 'w Kernel \<Rightarrow> bool" where
  "lost k k' \<longleftrightarrow> (\<exists>p < length (processList k). active (processList k ! p) \<and> \<not> active (processList k' ! p))"

definition good :: "'w Kernel \<Rightarrow> 'w Kernel \<Rightarrow> bool" where
  "good k k' \<longleftrightarrow> safe k' \<and> onward k k' \<and> (fine k \<longrightarrow> lost k k' \<or> fine k')"

lemma safe_parts: "safe k \<Longrightarrow> tasks_ok k" "safe k \<Longrightarrow> memory_ok k" "safe k \<Longrightarrow> store_ok k"
  by (simp_all add: safe_def)

lemma tasks_parts:
  assumes "tasks_ok k"
  shows "sched_ok k" "one_running k" "table_in_force k" "length (processList k) = MAX_PROCESS"
    "\<And>t. t \<in> set (allThreads k) \<Longrightarrow> thread_ok (length (allThreads k)) t"
    "\<And>pr. pr \<in> set (processList k) \<Longrightarrow> process_ok (length (allThreads k)) (disk_bytes k) pr"
    "\<And>pid i. i \<in> set (waiters k pid) \<Longrightarrow> i < length (allThreads k)"
  using assms by (auto simp: tasks_ok_def)

lemma memory_parts:
  assumes "memory_ok k"
  shows "calm k" "mem_ok (k_mem k)" "frames_low (page_table k p)" "frames_safe (length (processList k)) (pmm k) (prp k)"
  using assms by (simp_all add: memory_ok_def)

lemma same_processes_length: "same_processes k k' \<Longrightarrow> length (processList k') = length (processList k)"
  unfolding same_processes_def using map_eq_imp_length_eq by blast

lemma same_processes_at:
  assumes "same_processes k k'" "p < length (processList k)"
  shows "p_pid (processList k' ! p) = p_pid (processList k ! p)" "active (processList k' ! p) = active (processList k ! p)"
  using assms same_processes_length [OF assms(1)] unfolding same_processes_def by (metis nth_map)+

lemma onward_threads:
  assumes "onward k k'"
  shows "length (allThreads k) \<le> length (allThreads k')" "length (activeThreads k) \<le> length (activeThreads k')"
    "i < length (allThreads k) \<Longrightarrow> parent (allThreads k' ! i) = parent (allThreads k ! i)"
    "j < length (activeThreads k) \<Longrightarrow> activeThreads k' ! j = activeThreads k ! j"
proof -
  obtain ts where ts: "map parent (allThreads k') = map parent (allThreads k) @ ts"
    using assms by (auto simp: onward_def)
  then have "length (allThreads k') = length (allThreads k) + length ts"
    by (metis length_append length_map)
  then show l: "length (allThreads k) \<le> length (allThreads k')"
    by simp
  show "parent (allThreads k' ! i) = parent (allThreads k ! i)" if "i < length (allThreads k)"
    using that l ts by (metis length_map less_le_trans nth_append nth_map)
qed (use assms in \<open>auto simp: onward_def nth_append\<close>)

lemma onward_refl [simp]: "onward k k"
  by (simp add: onward_def)

lemma onward_trans: "onward k l \<Longrightarrow> onward l m \<Longrightarrow> onward k m"
  unfolding onward_def by (elim conjE exE) simp

lemma same_processes_refl [simp]: "same_processes k k"
  by (simp add: same_processes_def)

lemma near_refl: "safe k \<Longrightarrow> near k k"
  by (simp add: near_def same_processes_def)

lemma near_trans: "near k l \<Longrightarrow> near l m \<Longrightarrow> near k m"
  using onward_trans [of k l m] by (simp add: near_def same_processes_def)

lemma near_good: "near k l \<Longrightarrow> good k l"
  by (simp add: near_def good_def)

lemma near_then_good:
  assumes "near k l" "good l m" shows "good k m"
proof -
  have "lost k m" if "lost l m"
    using that assms(1) same_processes_at [of k l] same_processes_length [of k l] unfolding near_def lost_def by metis
  then show ?thesis
    using assms onward_trans [of k l m] unfolding near_def good_def by blast
qed

lemma good_then_near:
  assumes "good k l" "near l m" shows "good k m"
proof -
  have "lost k m" if l: "lost k l"
  proof -
    obtain p where p: "p < length (processList k)" "active (processList k ! p)" "\<not> active (processList l ! p)"
      using l by (auto simp: lost_def)
    have "p < length (processList l)"
      using p(1) assms(1) by (simp add: good_def onward_def)
    then have "\<not> active (processList m ! p)"
      using p(3) assms(2) same_processes_at(2) [of l m p] by (simp add: near_def)
    then show ?thesis
      using p(1,2) by (auto simp: lost_def)
  qed
  then show ?thesis
    using assms onward_trans [of k l m] unfolding near_def good_def by blast
qed

lemma near_safe: "near k k' \<Longrightarrow> safe k'" and good_safe: "good k k' \<Longrightarrow> safe k'"
  by (simp_all add: near_def good_def)

text \<open>Running one operation after another.\<close>

lemma post_near:
  assumes "post E (\<lambda>x. near k) m k" "\<And>x l. near k l \<Longrightarrow> post E (\<lambda>y. near l) (n x) l"
  shows "post E (\<lambda>x. near k) (bind m n) k"
  unfolding post_bind
  by (rule post_mono [OF assms(1)], assumption, rule post_mono [OF assms(2)]) (auto intro: near_trans)

lemma post_near_good:
  assumes "post E (\<lambda>x. near k) m k" "\<And>x l. near k l \<Longrightarrow> post E (\<lambda>y. good l) (n x) l"
  shows "post E (\<lambda>x. good k) (bind m n) k"
  unfolding post_bind
  by (rule post_mono [OF assms(1)], assumption, rule post_mono [OF assms(2)]) (auto intro: near_then_good)

lemma post_good_near:
  assumes "post E (\<lambda>x. good k) m k" "\<And>x l. good k l \<Longrightarrow> post E (\<lambda>y. near l) (n x) l"
  shows "post E (\<lambda>x. good k) (bind m n) k"
  unfolding post_bind
  by (rule post_mono [OF assms(1)], assumption, rule post_mono [OF assms(2)]) (auto intro: good_then_near)

section \<open>Small changes\<close>

definition with_thread :: "nat \<Rightarrow> (Thread \<Rightarrow> Thread) \<Rightarrow> 'w Kernel \<Rightarrow> 'w Kernel" where
  "with_thread i f k = k\<lparr>allThreads := (allThreads k)[i := f (allThreads k ! i)]\<rparr>"

lemma upd_thread_run: "i < length (allThreads k) \<Longrightarrow> upd_thread i f k = Inr ((), with_thread i f k)"
  by (simp add: upd_thread_def with_thread_def)

lemma vm_ok_cong:
  assumes "pmm k' = pmm k" "prp k' = prp k" "cpu k' = cpu k" "disk k' = disk k" "swapM k' = swapM k"
    and "map p_pid (processList k') = map p_pid (processList k)"
  shows "vm_ok k' = vm_ok k"
proof -
  have t: "page_table k' = page_table k" "k_mem k' = k_mem k" "swap_ok k' = swap_ok k" "stored_page k' = stored_page k"
    using assms(1-5) by (simp_all add: page_table_def k_mem_def swap_ok_def disk_ok_def stored_page_def block_def fun_eq_iff)
  have l: "length (processList k') = length (processList k)"
    using assms(6) map_eq_imp_length_eq by blast
  have "\<And>p. p < length (processList k) \<Longrightarrow> p_pid (processList k' ! p) = p_pid (processList k ! p)"
    using assms(6) l by (metis nth_map)
  then show ?thesis
    unfolding vm_inv_def t l assms(1,2) by simp
qed

text \<open>An operation that keeps the memory side, the disk and the processes' identities.\<close>

lemma near_tasks:
  assumes "safe k" "tasks_ok k'" "onward k k'" "same_processes k k'"
    and "pmm k' = pmm k" "prp k' = prp k" "cpu k' = cpu k" "disk k' = disk k" "swapM k' = swapM k" "vfs k' = vfs k"
    and "fine k \<Longrightarrow> \<forall>t \<in> set (allThreads k'). active (processList k' ! parent t)"
  shows "near k k'"
proof -
  have l: "length (processList k') = length (processList k)"
    using assms(4) by (rule same_processes_length)
  have t: "page_table k' = page_table k" "k_mem k' = k_mem k" "calm k' = calm k"
    using assms(7) by (simp_all add: page_table_def k_mem_def calm_def fun_eq_iff)
  have d: "fs_ok k' = fs_ok k" "swap_ok k' = swap_ok k"
    using assms(8-10) by (simp_all add: fs_ok_def swap_ok_def disk_ok_def)
  have "vm_ok k' = vm_ok k"
    using assms(4-9) by (intro vm_ok_cong) (simp_all add: same_processes_def)
  then have "fine k'" if "fine k"
    using that assms(11) [OF that] same_processes_at(2) [OF assms(4)] by (simp add: fine_def t l)
  then show ?thesis
    using assms(1-6) by (simp add: near_def safe_def memory_ok_def store_ok_def t d l)
qed

lemma sched_ok_at_current:
  assumes "sched_ok k" "currentThreadIndex k \<noteq> -1"
  obtains i where "currentThreadIndex k = int i" "i < length (activeThreads k)"
  using current_cases [OF assms(1)] assms(2) by metis

lemma tasks_with_thread:
  assumes ok: "tasks_ok k" and i: "i < length (allThreads k)"
    and f: "thread_ok (length (allThreads k)) (f (allThreads k ! i))" "parent (f (allThreads k ! i)) = parent (allThreads k ! i)"
      "t_state (f (allThreads k ! i)) = RUNNING \<Longrightarrow> t_state (allThreads k ! i) = RUNNING"
  shows "tasks_ok (with_thread i f k)"
proof -
  let ?k = "with_thread i f k"
  note s = tasks_parts [OF ok]
  have same: "activeThreads ?k = activeThreads k" "processList ?k = processList k" "currentThreadIndex ?k = currentThreadIndex k"
    "length (allThreads ?k) = length (allThreads k)" "cpu ?k = cpu k" "disk_bytes ?k = disk_bytes k" "waiters ?k = waiters k"
    by (simp_all add: with_thread_def disk_bytes_def waiters_def fun_eq_iff)
  have th: "allThreads ?k = (allThreads k)[i := f (allThreads k ! i)]"
    by (simp add: with_thread_def)
  have at: "parent (allThreads ?k ! j) = parent (allThreads k ! j)"
    "t_state (allThreads ?k ! j) = RUNNING \<Longrightarrow> t_state (allThreads k ! j) = RUNNING" for j
    using f i by (cases "j = i"; simp add: th)+
  have "parent t < length (processList k)" if t: "t \<in> set (allThreads ?k)" for t
  proof -
    obtain j where "j < length (allThreads k)" "t = allThreads ?k ! j"
      using t same(4) by (auto simp: in_set_conv_nth)
    then show ?thesis
      using at(1) [of j] s(1) by (simp add: sched_ok_def)
  qed
  then have "sched_ok ?k"
    using s(1) by (simp add: sched_ok_def same)
  moreover have "one_running ?k"
    using s(2) at(2) by (simp add: one_running_def at_def same)
  moreover have "table_in_force ?k"
    using s(3) at(1) by (simp add: table_in_force_def at_def same)
  moreover have "thread_ok (length (allThreads k)) t" if "t \<in> set (allThreads ?k)" for t
    using that s(5) f(1) th by (auto dest!: set_update_subset_insert [THEN subsetD])
  ultimately show ?thesis
    using s(4,6,7) unfolding tasks_ok_def same by blast
qed

lemma near_thread:
  assumes ok: "safe k" and i: "i < length (allThreads k)"
    and f: "thread_ok (length (allThreads k)) (f (allThreads k ! i))" "parent (f (allThreads k ! i)) = parent (allThreads k ! i)"
      "t_state (f (allThreads k ! i)) = RUNNING \<Longrightarrow> t_state (allThreads k ! i) = RUNNING"
  shows "near k (with_thread i f k)"
proof (rule near_tasks [OF ok tasks_with_thread])
  let ?k = "with_thread i f k"
  have "map parent (allThreads ?k) = map parent (allThreads k)"
    using f(2) i by (simp add: with_thread_def map_update list_update_same_conv)
  then show "onward k ?k"
    by (simp add: onward_def) (simp add: with_thread_def)
  show "\<forall>t \<in> set (allThreads ?k). active (processList ?k ! parent t)" if "fine k"
    using that f(2) i by (auto simp: with_thread_def fine_def dest!: set_update_subset_insert [THEN subsetD])
qed (use assms in \<open>simp_all add: safe_def with_thread_def same_processes_def\<close>)

lemma tasks_put_process:
  assumes ok: "tasks_ok k" and p: "p < length (processList k)" "p_pid pr = p_pid (processList k ! p)"
    and pr: "process_ok (length (allThreads k)) (disk_bytes k) pr"
  shows "tasks_ok (put_process p pr k)"
proof -
  let ?k = "put_process p pr k"
  note s = tasks_parts [OF ok]
  have same: "activeThreads ?k = activeThreads k" "allThreads ?k = allThreads k" "currentThreadIndex ?k = currentThreadIndex k"
    "length (processList ?k) = length (processList k)" "cpu ?k = cpu k" "disk_bytes ?k = disk_bytes k" "waiters ?k = waiters k"
    "at ?k = at k"
    by (simp_all add: put_process_def disk_bytes_def waiters_def at_def fun_eq_iff)
  have "p_pid (processList ?k ! q) = p_pid (processList k ! q)" for q
    using p by (cases "q = p") simp_all
  moreover have "process_ok (length (allThreads k)) (disk_bytes k) x" if "x \<in> set (processList ?k)" for x
    using that s(6) pr by (auto simp: put_process_def dest!: set_update_subset_insert [THEN subsetD])
  ultimately show ?thesis
    using s(1-5,7) unfolding tasks_ok_def sched_ok_def one_running_def table_in_force_def same by simp
qed

lemma near_process:
  assumes ok: "safe k" and p: "p < length (processList k)" "p_pid pr = p_pid (processList k ! p)"
      "active pr = active (processList k ! p)"
    and pr: "process_ok (length (allThreads k)) (disk_bytes k) pr"
  shows "near k (put_process p pr k)"
proof (rule near_tasks [OF ok tasks_put_process])
  let ?k = "put_process p pr k"
  show "onward k ?k"
    by (simp add: onward_def put_process_def)
  show "same_processes k ?k"
    using p by (simp add: same_processes_def put_process_def map_update list_update_same_conv)
  have "active (processList ?k ! q) = active (processList k ! q)" for q
    using p by (cases "q = p") simp_all
  then show "\<forall>t \<in> set (allThreads ?k). active (processList ?k ! parent t)" if "fine k"
    using that by (simp add: fine_def)
qed (use assms in \<open>simp_all add: safe_def put_process_def\<close>)

text \<open>Threads are only ever added at the end.\<close>

lemma process_ok_mono: "process_ok n d pr \<Longrightarrow> n \<le> n' \<Longrightarrow> process_ok n' d pr"
  unfolding process_ok_def by (meson less_le_trans)

lemma thread_ok_mono: "thread_ok n t \<Longrightarrow> n \<le> n' \<Longrightarrow> thread_ok n' t"
  unfolding thread_ok_def by (meson less_le_trans)

lemma near_new_thread:
  assumes ok: "safe k" and t: "rf_ok (t_regs t)" "joiner t = None" "parent t < length (processList k)"
    and a: "fine k \<Longrightarrow> active (processList k ! parent t)"
  shows "near k (k\<lparr>allThreads := allThreads k @ [t]\<rparr>)"
proof -
  let ?k = "k\<lparr>allThreads := allThreads k @ [t]\<rparr>"
  note s = tasks_parts [OF safe_parts(1) [OF ok]]
  have same: "disk_bytes ?k = disk_bytes k" "waiters ?k = waiters k"
    by (simp_all add: disk_bytes_def waiters_def fun_eq_iff)
  have at: "at ?k j = at k j" if "j < length (activeThreads k)" for j
    using sched_ok_at [OF s(1) that] by (simp add: at_def nth_append)
  have cur: "at ?k (nat (currentThreadIndex k)) = at k (nat (currentThreadIndex k))" if "currentThreadIndex k \<noteq> -1"
    using sched_ok_at_current [OF s(1) that] by (metis at nat_int)
  have "sched_ok ?k"
    using s(1) t(3) by (auto simp: sched_ok_def)
  moreover have "one_running ?k"
    using s(2) at by (simp add: one_running_def)
  moreover have "table_in_force ?k"
    using s(3) cur by (simp add: table_in_force_def)
  moreover have "thread_ok (Suc (length (allThreads k))) x" if "x \<in> set (allThreads ?k)" for x
    using that t s(5) thread_ok_mono [of "length (allThreads k)" x] by (auto simp: thread_ok_def [of _ t])
  moreover have "process_ok (Suc (length (allThreads k))) (disk_bytes k) pr" if "pr \<in> set (processList k)" for pr
    using s(6) [OF that] by (rule process_ok_mono) simp
  moreover have "i < Suc (length (allThreads k))" if "i \<in> set (waiters k pid)" for i pid
    using s(7) [OF that] by simp
  ultimately have "tasks_ok ?k"
    using s(4) unfolding tasks_ok_def same by simp
  then show ?thesis
    using a by (intro near_tasks [OF ok]) (auto simp: onward_def same_processes_def fine_def)
qed

lemma near_activate:
  assumes ok: "safe k" and i: "i < length (allThreads k)" "i \<notin> set (activeThreads k)" "t_state (allThreads k ! i) \<noteq> RUNNING"
  shows "near k (k\<lparr>activeThreads := activeThreads k @ [i]\<rparr>)"
proof -
  let ?k = "k\<lparr>activeThreads := activeThreads k @ [i]\<rparr>"
  note s = tasks_parts [OF safe_parts(1) [OF ok]]
  have same: "disk_bytes ?k = disk_bytes k" "waiters ?k = waiters k"
    by (simp_all add: disk_bytes_def waiters_def fun_eq_iff)
  have at: "at ?k j = (if j < length (activeThreads k) then at k j else allThreads k ! i)"
    if "j < Suc (length (activeThreads k))" for j
    using that by (simp add: at_def nth_append)
  have cur: "at ?k (nat (currentThreadIndex k)) = at k (nat (currentThreadIndex k))" if "currentThreadIndex k \<noteq> -1"
    using sched_ok_at_current [OF s(1) that] at by (metis less_SucI nat_int)
  have "sched_ok ?k"
    using s(1) i by (auto simp: sched_ok_def)
  moreover have "one_running ?k"
    using s(2) at i(3) by (auto simp: one_running_def split: if_splits)
  moreover have "table_in_force ?k"
    using s(3) cur by (simp add: table_in_force_def)
  ultimately have "tasks_ok ?k"
    using s(4-7) unfolding tasks_ok_def same by simp
  then show ?thesis
    by (intro near_tasks [OF ok]) (auto simp: onward_def same_processes_def fine_def)
qed

text \<open>Fields that no invariant reads, or reads only for bounds.\<close>

lemma near_fields:
  assumes ok: "safe k" and w: "\<And>pid i. i \<in> set (waiters (k\<lparr>processWaiters := pw\<rparr>) pid) \<Longrightarrow> i < length (allThreads k)"
  shows "near k (k\<lparr>stats := st, exitCodes := ec, processWaiters := pw, world := wo\<rparr>)"
proof -
  let ?k = "k\<lparr>stats := st, exitCodes := ec, processWaiters := pw, world := wo\<rparr>"
  note s = tasks_parts [OF safe_parts(1) [OF ok]]
  have "disk_bytes ?k = disk_bytes k" "waiters ?k = waiters (k\<lparr>processWaiters := pw\<rparr>)" "at ?k = at k"
    by (simp_all add: disk_bytes_def waiters_def at_def fun_eq_iff)
  then have "tasks_ok ?k"
    using s(1-6) w unfolding tasks_ok_def sched_ok_def one_running_def table_in_force_def by simp
  then show ?thesis
    by (intro near_tasks [OF ok]) (auto simp: onward_def same_processes_def fine_def)
qed

lemma near_stats: "safe k \<Longrightarrow> near k (k\<lparr>stats := st\<rparr>)"
  and near_codes: "safe k \<Longrightarrow> near k (k\<lparr>exitCodes := ec\<rparr>)"
  and near_world: "safe k \<Longrightarrow> near k (k\<lparr>world := wo\<rparr>)"
  using near_fields [of k "processWaiters k" "world k" "exitCodes k" st] near_fields [of k "processWaiters k" "world k" ec "stats k"]
    near_fields [of k "processWaiters k" wo "exitCodes k" "stats k"] tasks_parts(7) [OF safe_parts(1)] by auto

lemma near_waiters:
  assumes "safe k" "\<And>pid i. i \<in> set (waiters (k\<lparr>processWaiters := pw\<rparr>) pid) \<Longrightarrow> i < length (allThreads k)"
  shows "near k (k\<lparr>processWaiters := pw\<rparr>)"
  using near_fields [OF assms, where st = "stats k" and ec = "exitCodes k" and wo = "world k"] by simp

section \<open>The processor\<close>

text \<open>What an instruction or an access to user memory may do to the processor.\<close>

definition drift :: "Machine \<Rightarrow> Machine \<Rightarrow> bool" where
  "drift c c' \<longleftrightarrow> cpu_ok c' \<and> confined (mmu c) (mmu c')"

lemma drift_refl: "cpu_ok c \<Longrightarrow> drift c c"
  by (simp add: drift_def confined_refl)

lemma drift_trans: "drift c d \<Longrightarrow> drift d e \<Longrightarrow> drift c e"
  using confined_trans by (auto simp: drift_def)

lemma safe_cpu_ok:
  assumes "safe k" shows "cpu_ok (cpu k)"
proof -
  note m = memory_parts [OF safe_parts(2) [OF assms]]
  have "frames_ok (mmu (cpu k))"
    using m(3) by (auto simp: frames_ok_def frames_low_def page_table_def unat_MEMORY_SIZE)
  then show ?thesis
    using m(1,2) by (auto simp: cpu_ok_def mmu_ok_def calm_def k_mem_def)
qed

lemma near_cpu:
  assumes ok: "safe k" and c: "drift (cpu k) c"
  shows "near k (with_cpu c k)"
proof -
  let ?k = "with_cpu c k"
  note s = tasks_parts [OF safe_parts(1) [OF ok]] and m = memory_parts [OF safe_parts(2) [OF ok]]
  have d: "currentTable (mmu c) = currentTable (mmu (cpu k))" "vmEnabled (mmu c) = vmEnabled (mmu (cpu k))"
    "cpu_ok c" "confined (mmu (cpu k)) (mmu c)"
    using c by (simp_all add: drift_def confined_def)
  have same: "disk_bytes ?k = disk_bytes k" "waiters ?k = waiters k" "at ?k = at k" "cpu ?k = c"
    by (simp_all add: disk_bytes_def waiters_def at_def fun_eq_iff with_cpu_def)
  have "tasks_ok ?k"
    using s d(1) unfolding tasks_ok_def sched_ok_def one_running_def table_in_force_def same by simp
  moreover have "frames_low (page_table ?k p)" for p
    using d(3) by (auto simp: cpu_ok_def mmu_ok_def frames_ok_def frames_low_def page_table_def unat_MEMORY_SIZE)
  then have "memory_ok ?k"
    using m(4) d(3) by (simp add: memory_ok_def calm_def k_mem_def cpu_ok_def mmu_ok_def) (simp add: with_cpu_def)
  moreover have "store_ok ?k"
    using safe_parts(3) [OF ok] by (simp add: store_ok_def fs_ok_def swap_ok_def disk_ok_def with_cpu_def)
  moreover have "fine ?k" if f: "fine k"
  proof -
    have e: "page_table ?k p = Map.empty" if "page_table k p = Map.empty" for p
    proof
      fix v
      have "rel_option same_entry (tables (mmu (cpu k)) p v) (tables (mmu c) p v)"
        using d(4) by (simp add: confined_def)
      then show "page_table ?k p v = None"
        using fun_cong [OF that, of v] by (simp add: page_table_def)
    qed
    have "vm_ok ?k"
      using f step_vm [of k c] d(3,4) by (simp add: fine_def with_cpu_def)
    then show ?thesis
      using f e by (simp add: fine_def)
  qed
  ultimately show ?thesis
    using d(2) by (simp add: near_def safe_def onward_def same_processes_def)
qed

lemma near_on_cpu_result:
  assumes "safe k" "post E (\<lambda>x c. drift (cpu k) c \<and> P x) m (cpu k)"
  shows "post E (\<lambda>x l. near k l \<and> P x) (on_cpu m) k"
  using near_cpu [OF assms(1)] assms(2) unfolding on_cpu_def post_zoom by (auto simp: with_cpu_def elim!: post_mono)

lemma near_on_cpu:
  "safe k \<Longrightarrow> post E (\<lambda>_. drift (cpu k)) m (cpu k) \<Longrightarrow> post E (\<lambda>_. near k) (on_cpu m) k"
  using near_on_cpu_result [where P = "\<lambda>_. True"] by simp

lemma drift_plain:
  "cpu_ok c \<Longrightarrow> drift c (c\<lparr>pc := a\<rparr>)" "cpu_ok c \<Longrightarrow> drift c (c\<lparr>trap := t\<rparr>)"
  "cpu_ok c \<Longrightarrow> unat i < 32 \<Longrightarrow> drift c (set_reg c i v)" "cpu_ok c \<Longrightarrow> drift c (page_fault c a)"
  by (simp_all add: drift_def confined_refl cpu_ok_set_reg) (simp add: page_fault_def confined_refl)

text \<open>Accesses of any width and alignment; one byte at a time they are never undefined.\<close>

lemma drift_load: "cpu_ok c \<Longrightarrow> vmEnabled (mmu c) \<Longrightarrow> post E (\<lambda>_. drift c) (cpu_loadVirtualMemory a 1) c"
proof (cases "granted c a False")
  case None
  then show "cpu_ok c \<Longrightarrow> vmEnabled (mmu c) \<Longrightarrow> ?thesis"
    by (simp add: post_def load_refused drift_plain)
next
  case (Some p)
  then show "cpu_ok c \<Longrightarrow> vmEnabled (mmu c) \<Longrightarrow> ?thesis"
    using load_granted [of c a p 1] offset_in_page [of a] confined_touch [of "mmu c" a False]
    by (simp add: post_def drift_def) (simp add: cpu_ok_def mmu_ok_touch)
qed

text \<open>A store is undefined only when it leaves the page it starts in.\<close>

definition crosses :: "Addr \<Rightarrow> nat \<Rightarrow> fault \<Rightarrow> bool" where
  "crosses a n e \<longleftrightarrow> e = UndefinedBehaviour \<and> 4096 < page_offset a + n"

lemma drift_store:
  assumes c: "cpu_ok c" "vmEnabled (mmu c)" and n: "n \<le> 4" "0 < n"
  shows "post (crosses a n) (\<lambda>_. drift c) (cpu_storeVirtualMemory a n v) c"
proof (cases "granted c a True")
  case None
  then show ?thesis
    using c by (simp add: post_def store_refused drift_plain)
next
  case (Some p)
  show ?thesis
  proof (cases "page_offset a + n \<le> 4096")
    case True
    have b: "phys_at p a + n \<le> unat MEMORY_SIZE" "unat (phys p a) = phys_at p a"
      using phys_at_bound [OF _ True, of p] granted_frame [OF c(1) Some] granted_post [OF c(1) Some] by simp_all
    have m: "mem_ok (memory (mmu c))"
      using c(1) by (simp add: cpu_ok_def mmu_ok_def)
    let ?m = "mem_splice (memory (mmu c)) (phys_at p a) (word_bytes n v)"
    have "confined (mmu c) ((touch (mmu c) a True)\<lparr>memory := ?m\<rparr>)"
      using n m b by (intro confined_store [OF c(1) Some n(1)]) (auto simp: mem_splice_def mem_ok_def nth_append)
    moreover have "cpu_ok (c\<lparr>mmu := (touch (mmu c) a True)\<lparr>memory := ?m\<rparr>\<rparr>)"
      using c(1) b m by (simp add: cpu_ok_def mmu_ok_touch mmu_ok_memory mem_splice_ok)
    ultimately show ?thesis
      using store_granted [OF c Some n(2) True] by (simp add: post_def drift_def)
  next
    case False
    let ?c = "c\<lparr>trap := no_trap\<rparr>"
    let ?E = "\<lambda>e. e = UndefinedBehaviour"
    have "translate a True False (mmu c) = Inr (phys p a, touch (mmu c) a True)"
      using granted_Some [OF Some] c(2) by (simp add: translate_hit)
    moreover have "post ?E (\<lambda>_ m. mem_ok m \<and> (\<forall>i. i < unat (phys p a) \<or> unat (phys p a) + n \<le> i \<longrightarrow> m ! i = memory (mmu c) ! i))
        (Memory_store (phys p a) n v) (memory (mmu c))"
      using c(1) granted_post [OF c(1) Some] by (intro Memory_store_post) (auto simp: cpu_ok_def mmu_ok_def)
    ultimately have "post ?E (\<lambda>_ u. mmu_ok u \<and> confined (mmu c) u) (MMU_storeVirtualMemory a n v) (mmu c)"
      using c(1) by (auto simp: MMU_storeVirtualMemory_def post_def run cpu_ok_def mmu_ok_touch mmu_ok_memory
          confined_store [OF c(1) Some n(1)] mmu_ok_def [of "mmu c"] split: sum.splits)
    then have "post ?E (\<lambda>_. drift c) (cpu_storeVirtualMemory a n v) c"
      unfolding cpu_storeVirtualMemory_def wp
      by (rule post_mono) (use c(1) in \<open>auto simp: post_takeFault_none mmu_ok_def drift_def cpu_ok_def\<close>)
    then show ?thesis
      by (rule post_mono) (use False in \<open>simp_all add: crosses_def\<close>)
  qed
qed

lemma drift_store_byte:
  assumes "cpu_ok c" "vmEnabled (mmu c)" shows "post E (\<lambda>_. drift c) (cpu_storeVirtualMemory a 1 v) c"
  by (rule post_mono [OF drift_store [OF assms]]) (use offset_in_page [of a] in \<open>simp_all add: crosses_def\<close>)

lemma drift_on: "drift c d \<Longrightarrow> vmEnabled (mmu c) \<Longrightarrow> cpu_ok d \<and> vmEnabled (mmu d)"
  by (simp add: drift_def confined_def)

lemma drift_chain:
  assumes "drift c d" "post E (\<lambda>_. drift d) m d" shows "post E (\<lambda>_. drift c) m d"
  by (rule post_mono [OF assms(2)]) (auto intro: drift_trans [OF assms(1)])

text \<open>Transfers between user memory and the kernel.\<close>

lemma copy_out_near:
  assumes "safe k" "vmEnabled (mmu (cpu k))"
  shows "post E (\<lambda>bs l. near k l \<and> length bs = n) (copy_out (\<lambda>a. on_cpu (cpu_loadVirtualMemory a 1)) base n) k"
proof -
  have c: "cpu_ok (cpu k)"
    using assms(1) by (rule safe_cpu_ok)
  have "post E (\<lambda>bs d. drift (cpu k) d \<and> length bs = n) (copy_out (\<lambda>a. cpu_loadVirtualMemory a 1) base n) (cpu k)"
    unfolding copy_out_def
  proof (rule post_foldM)
    fix bs :: "Byte list" and i d
    assume d: "drift (cpu k) d \<and> length bs = n"
    have "post E (\<lambda>_. drift (cpu k)) (cpu_loadVirtualMemory (base + of_nat i) 1) d"
      using d drift_on [of "cpu k" d] assms(2) by (intro drift_chain [OF _ drift_load]) auto
    then show "post E (\<lambda>bs d. drift (cpu k) d \<and> length bs = n)
        (bind (cpu_loadVirtualMemory (base + of_nat i) 1) (\<lambda>w. ret (bs[i := ucast w]))) d"
      using d by (auto simp: wp elim!: post_mono)
  qed (use c in \<open>simp add: drift_refl\<close>)
  then show ?thesis
    unfolding on_cpu_copy_out by (rule near_on_cpu_result [OF assms(1)])
qed

lemma copy_in_near:
  assumes "safe k" "vmEnabled (mmu (cpu k))"
  shows "post E (\<lambda>_. near k) (copy_in (\<lambda>a. on_cpu \<circ> cpu_storeVirtualMemory a 1) base ws) k"
proof -
  have "post E (\<lambda>_. drift (cpu k)) (copy_in (\<lambda>a. cpu_storeVirtualMemory a 1) base ws) (cpu k)"
    unfolding copy_in_def
  proof (rule post_for_each)
    show "drift (cpu k) (cpu k)"
      using assms(1) by (simp add: drift_refl safe_cpu_ok)
    fix i d
    assume "drift (cpu k) d"
    then show "post E (\<lambda>_. drift (cpu k)) (cpu_storeVirtualMemory (base + of_nat i) 1 (ws ! i)) d"
      using drift_on [of "cpu k" d] assms(2) by (intro drift_chain [OF _ drift_store_byte]) auto
  qed
  then show ?thesis
    unfolding on_cpu_copy_in by (rule near_on_cpu [OF assms(1)])
qed

lemma read_name_near:
  "safe k \<Longrightarrow> vmEnabled (mmu (cpu k)) \<Longrightarrow> post E (\<lambda>_. near k) (read_name n a acc) k"
proof (induction n arbitrary: k a acc)
  case 0
  then show ?case by (simp add: wp near_refl)
next
  case (Suc n)
  have "post E (\<lambda>_. near k) (on_cpu (cpu_loadVirtualMemory a 1)) k"
    using Suc.prems by (intro near_on_cpu drift_load safe_cpu_ok)
  then show ?case
    unfolding read_name.simps
    by (rule post_near) (auto simp: Let_def wp near_refl near_safe near_def onward_def Suc.prems intro!: Suc.IH)
qed

lemma read_filename_near:
  "safe k \<Longrightarrow> vmEnabled (mmu (cpu k)) \<Longrightarrow> post E (\<lambda>_. near k) (read_filename a) k"
  unfolding read_filename_def by (rule read_name_near)

end
