(* ===== verification/FrameSafety.thy ===== *)
theory FrameSafety
  imports Wellformed
begin

text \<open>
  Physical memory in every state the simulator reaches: frame allocation, eviction and the four
  ways to supply a page (\<^verbatim>\<open>memory/VirtualMemoryManager.cpp\<close>), and the release of a process's frames
  (\<^verbatim>\<open>Process::wipeMemory\<close>), under the weak invariant \<^verbatim>\<open>memory_ok\<close>.  It survives the double release of
  frames, after which two pages may share a frame and owners in the frame table may be out of date.
\<close>

section \<open>What the memory manager may change\<close>

definition quiet :: "'w Kernel \<Rightarrow> nat \<Rightarrow> bool" where
  "quiet k q \<longleftrightarrow> page_table k q = Map.empty \<and>
     (\<forall>f < 16. allocated (frameTable (pmm k) ! f) \<longrightarrow> nat (ownerPid (frameTable (pmm k) ! f)) \<noteq> q)"

definition managed :: "nat \<Rightarrow> 'w Kernel \<Rightarrow> 'w Kernel \<Rightarrow> bool" where
  "managed p k k' \<longleftrightarrow> memory_ok k' \<and> swap_ok k' \<and>
     regs (cpu k') = regs (cpu k) \<and> vmEnabled (mmu (cpu k')) = vmEnabled (mmu (cpu k)) \<and>
     currentTable (mmu (cpu k')) = currentTable (mmu (cpu k)) \<and>
     processList k' = processList k \<and> activeThreads k' = activeThreads k \<and>
     currentThreadIndex k' = currentThreadIndex k \<and> processWaiters k' = processWaiters k \<and>
     allThreads k' = allThreads k \<and> vfs k' = vfs k \<and> totalBlocks (disk k') = totalBlocks (disk k) \<and>
     disk_bytes k' = disk_bytes k \<and> (\<forall>q. q \<noteq> p \<longrightarrow> quiet k q \<longrightarrow> quiet k' q)"

lemma managed_refl: "memory_ok k \<Longrightarrow> swap_ok k \<Longrightarrow> managed p k k"
  by (simp add: managed_def)

lemma managed_trans: "managed p k l \<Longrightarrow> managed p l m \<Longrightarrow> managed p k m"
  by (simp add: managed_def)

lemma managed_parts: "managed p k l \<Longrightarrow> memory_ok l" "managed p k l \<Longrightarrow> swap_ok l" "managed p k l \<Longrightarrow> processList l = processList k"
  "managed p k l \<Longrightarrow> allThreads l = allThreads k"
  by (simp_all add: managed_def)

lemma vm_quiet: "vm_ok k \<Longrightarrow> page_table k q = Map.empty \<Longrightarrow> quiet k q"
proof -
  assume vm: "vm_ok k" and e: "page_table k q = Map.empty"
  note i = vm_inv_parts [OF vm]
  have "nat (ownerPid (frameTable (pmm k) ! f)) \<noteq> q" if f: "f < 16" "allocated (frameTable (pmm k) ! f)" for f
  proof -
    have "pmm_owner (pmm k) f = Some (ownerPid (frameTable (pmm k) ! f), fi_vpn (frameTable (pmm k) ! f))"
      using f i(1) by (simp add: pmm_owner_def pmm_ok_def)
    then show ?thesis
      using book_owner [OF i(7)] e by fastforce
  qed
  then show "quiet k q"
    using e by (simp add: quiet_def)
qed

lemma managed_near:
  assumes ok: "safe k" and m: "managed p k k'" and f: "fine k \<Longrightarrow> vm_ok k' \<and> active (processList k ! p)"
  shows "near k k'"
proof -
  note s = tasks_parts [OF safe_parts(1) [OF ok]]
  have e: "activeThreads k' = activeThreads k" "allThreads k' = allThreads k" "processList k' = processList k"
    "currentThreadIndex k' = currentThreadIndex k" "currentTable (mmu (cpu k')) = currentTable (mmu (cpu k))"
    "disk_bytes k' = disk_bytes k" "waiters k' = waiters k" "at k' = at k"
    using m by (auto simp: managed_def waiters_def at_def fun_eq_iff)
  have "tasks_ok k'"
    using s unfolding tasks_ok_def sched_ok_def one_running_def table_in_force_def e by simp
  moreover have "fs_ok k'"
    using safe_parts(3) [OF ok] m by (simp add: store_ok_def fs_ok_def managed_def swap_ok_def)
  moreover have "fine k'" if fk: "fine k"
  proof -
    have "page_table k' q = Map.empty" if "q < length (processList k)" "\<not> active (processList k ! q)" for q
    proof -
      have "quiet k q"
        using fk that by (intro vm_quiet) (simp_all add: fine_def)
      moreover have "q \<noteq> p"
        using f [OF fk] that by auto
      ultimately show ?thesis
        using m by (simp add: managed_def quiet_def)
    qed
    then show ?thesis
      using fk f [OF fk] by (simp add: fine_def e)
  qed
  ultimately show ?thesis
    using m by (simp add: near_def safe_def store_ok_def onward_def same_processes_def e) (simp add: managed_def disk_bytes_def)
qed

section \<open>Entries of page tables\<close>

definition entry :: "'w Kernel \<Rightarrow> nat \<Rightarrow> Addr \<Rightarrow> PTE" where
  "entry k p v = (case page_table k p v of None \<Rightarrow> PTE_new | Some x \<Rightarrow> x)"

definition put_pte :: "nat \<Rightarrow> Addr \<Rightarrow> PTE \<Rightarrow> 'w Kernel \<Rightarrow> 'w Kernel" where
  "put_pte p v e k = set_page_table p ((page_table k p)(v \<mapsto> e)) k"

lemma get_pte_run: "get_pte p v k = Inr (entry k p v, touched p v k)"
  by (simp add: get_pte_def touched_def entry_def split: option.split)

lemma set_pte_run: "set_pte p v f k = Inr ((), put_pte p v (f (entry k p v)) k)"
  by (simp add: set_pte_def get_pte_def entry_def put_pte_def bind_run modify_run split: option.split)
    (simp add: set_page_table_def)

lemma touched_put: "touched p v k = k \<or> touched p v k = put_pte p v PTE_new k"
  by (simp add: touched_def put_pte_def split: option.split)

lemma put_pte_simps [simp]:
  "processList (put_pte p v e k) = processList k" "pmm (put_pte p v e k) = pmm k" "prp (put_pte p v e k) = prp k"
  "k_mem (put_pte p v e k) = k_mem k" "swap_ok (put_pte p v e k) = swap_ok k" "allThreads (put_pte p v e k) = allThreads k"
  "page_table (put_pte p v e k) q = (if q = p then (page_table k p)(v \<mapsto> e) else page_table k q)"
  by (simp_all add: put_pte_def set_page_table_def page_table_def k_mem_def swap_ok_def disk_ok_def)

lemma entry_low: "memory_ok k \<Longrightarrow> valid (entry k p v) \<Longrightarrow> unat (ppn (entry k p v)) < 16"
  using memory_parts(3) [of k p] by (auto simp: entry_def frames_low_def split: option.splits)

lemma managed_entry:
  assumes k: "memory_ok k" "swap_ok k" and e: "valid e \<Longrightarrow> unat (ppn e) < 16" and q: "q = p \<or> \<not> quiet k q"
  shows "managed p k (put_pte q v e k)"
proof -
  note m = memory_parts [OF k(1)]
  have "frames_low (page_table (put_pte q v e k) r)" for r
    using m(3) [of r] m(3) [of q] e by (auto simp: frames_low_def)
  then have "memory_ok (put_pte q v e k)"
    using m by (simp add: memory_ok_def) (simp add: calm_def put_pte_def set_page_table_def)
  moreover have "quiet (put_pte q v e k) r" if "r \<noteq> p" "quiet k r" for r
    using that q by (auto simp: quiet_def)
  ultimately show ?thesis
    using k by (simp add: managed_def) (simp add: put_pte_def set_page_table_def disk_bytes_def)
qed

lemma managed_touched:
  assumes "memory_ok k" "swap_ok k" "q = p \<or> \<not> quiet k q" shows "managed p k (touched q v k)"
  using touched_put [of q v k] managed_refl [OF assms(1,2)] managed_entry [OF assms(1,2) _ assms(3), of PTE_new v]
  by auto

section \<open>The frame lists\<close>

lemma page_address_number: "f < 16 \<Longrightarrow> unat (drop_bit 12 (page_address f)) = f"
  by (simp add: page_address_def frame_address)

lemma cleared [simp]: "\<not> allocated (FrameInfo_clear x)"
  by (simp add: FrameInfo_clear_def)

lemma frames_freed:
  assumes P: "frames_safe n P q" and f: "f < 16" and q': "fifo.covers q' ((frameTable P)[f := FrameInfo_clear (frameTable P ! f)])"
  shows "frames_safe n \<lparr>freeFrames = freeFrames P @ [page_address f],
    frameTable = (frameTable P)[f := FrameInfo_clear (frameTable P ! f)]\<rparr> q'"
  using P f q' by (auto simp: frames_safe_def nth_list_update split: if_splits)

lemma allocated_before: "allocated (t[f := FrameInfo_clear x] ! g) \<Longrightarrow> g < length t \<Longrightarrow> allocated (t ! g)"
  by (cases "g = f") simp_all

lemma covers_cleared: "fifo.covers q t \<Longrightarrow> fifo.covers q (t[f := FrameInfo_clear (t ! f)])"
  unfolding fifo.covers_def by (auto dest: allocated_before)

lemma freeFrame_run:
  assumes "frames_safe n P q" "f < 16"
  shows "PMM_freeFrame (page_address f) P = Inr ((), \<lparr>freeFrames = freeFrames P @ [page_address f],
    frameTable = (frameTable P)[f := FrameInfo_clear (frameTable P ! f)]\<rparr>)"
  using assms by (simp add: PMM_freeFrame_def andthen_run modify_run page_address_number frames_safe_def Let_def)

lemma frames_taken:
  assumes P: "frames_safe n P q" and ne: "freeFrames P \<noteq> []" and p: "p < n"
  shows "\<exists>f < 16. last (freeFrames P) = page_address f \<and>
    frames_safe n \<lparr>freeFrames = butlast (freeFrames P), frameTable = (frameTable P)[f := \<lparr>ownerPid = int p, fi_vpn = v, allocated = True\<rparr>]\<rparr>
      (q @ [f])"
proof -
  obtain f where f: "f < 16" "last (freeFrames P) = page_address f"
    using P last_in_set [OF ne] unfolding frames_safe_def by blast
  have inj: "g = f" if "page_address g = page_address f" "g < 16" for g
    using that f(1) page_address_number by metis
  have "page_address g \<in> set (butlast (freeFrames P)) \<or> g = f" if "page_address g \<in> set (freeFrames P)" "g < 16" for g
  proof -
    have "set (freeFrames P) = insert (last (freeFrames P)) (set (butlast (freeFrames P)))"
      using ne by (metis append_butlast_last_id list.simps(15) rotate1.simps(2) set_rotate1)
    then show ?thesis
      using that f(2) inj by auto
  qed
  then have "frames_safe n \<lparr>freeFrames = butlast (freeFrames P), frameTable = (frameTable P)[f := \<lparr>ownerPid = int p, fi_vpn = v, allocated = True\<rparr>]\<rparr>
      (q @ [f])"
    using P f(1) p by (auto simp: frames_safe_def fifo.covers_def nth_list_update dest: in_set_butlastD split: if_splits) blast
  then show ?thesis
    using f by blast
qed

section \<open>Eviction\<close>

lemma managed_frames:
  assumes k: "memory_ok k" "swap_ok k" and P: "frames_safe (length (processList k)) P q"
    and o: "\<And>f. f < 16 \<Longrightarrow> allocated (frameTable P ! f) \<Longrightarrow>
      allocated (frameTable (pmm k) ! f) \<and> ownerPid (frameTable P ! f) = ownerPid (frameTable (pmm k) ! f) \<or>
      nat (ownerPid (frameTable P ! f)) = p"
  shows "managed p k (k\<lparr>pmm := P, prp := q, stats := st\<rparr>)"
proof -
  let ?k = "k\<lparr>pmm := P, prp := q, stats := st\<rparr>"
  have "memory_ok ?k"
    using memory_parts [OF k(1)] P by (simp add: memory_ok_def calm_def)
  moreover have "quiet ?k r" if r: "r \<noteq> p" "quiet k r" for r
  proof -
    have "nat (ownerPid (frameTable P ! f)) \<noteq> r" if "f < 16" "allocated (frameTable P ! f)" for f
      using o [OF that] r that(1) by (elim disjE) (simp_all add: quiet_def)
    then show ?thesis
      using r(2) by (simp add: quiet_def)
  qed
  ultimately show ?thesis
    using k(2) by (simp add: managed_def disk_bytes_def)
qed

lemma swapOut_keeps:
  assumes "swap_ok s" "length b = BLOCK_SIZE"
  shows "\<exists>r d st sm. swapOut b s = Inr (r, s\<lparr>disk := d, swapM := sm, stats := st\<rparr>) \<and>
    swap_ok (s\<lparr>disk := d, swapM := sm, stats := st\<rparr>) \<and>
    totalBlocks d = totalBlocks (disk s) \<and> length (data d) = length (data (disk s))"
proof (cases "free_slot (allocationMap (swapM s))")
  case None
  then show ?thesis
    using assms(1) by (intro exI [of _ "-1"] exI [of _ "disk s"] exI [of _ "stats s"] exI [of _ "swapM s"]) (simp add: swapOut_def)
next
  case (Some i)
  let ?j = "swapStartBlock (swapM s) + i"
  have i: "i < length (allocationMap (swapM s))"
    using free_slot_Some [OF Some] by simp
  then have j: "disk_ok s" "?j < totalBlocks (disk s)"
    using assms(1) by (auto simp: swap_ok_def)
  let ?d = "(disk s)\<lparr>data := take (?j * BLOCK_SIZE) (data (disk s)) @ b @ drop (?j * BLOCK_SIZE + BLOCK_SIZE) (data (disk s))\<rparr>"
  have "length (data ?d) = length (data (disk s))"
    using block_offset(3) [OF j] assms(2) by simp
  then show ?thesis
    using assms Some j writeBlock_in [OF j assms(2)]
    by (intro exI [of _ "int i"] exI [of _ ?d] exI [of _ "incDiskWrites (stats s)"]
        exI [of _ "(swapM s)\<lparr>allocationMap := (allocationMap (swapM s))[i := True]\<rparr>"])
      (simp add: swapOut_def swap_ok_def disk_ok_def Let_def)
qed

lemma swapIn_keeps:
  assumes "swap_ok s" "length b = BLOCK_SIZE"
  shows "\<exists>r st sm. swapIn b slot s = Inr (r, s\<lparr>swapM := sm, stats := st\<rparr>) \<and>
    swap_ok (s\<lparr>swapM := sm, stats := st\<rparr>) \<and> length r = BLOCK_SIZE"
proof (cases "slot < 0 \<or> nat slot \<ge> swapSize (swapM s)")
  case True
  then show ?thesis
    using assms by (intro exI [of _ b] exI [of _ "stats s"] exI [of _ "swapM s"]) (simp add: swapIn_def)
next
  case False
  let ?j = "swapStartBlock (swapM s) + nat slot"
  have j: "disk_ok s" "?j < totalBlocks (disk s)"
    using assms(1) False by (auto simp: swap_ok_def)
  then show ?thesis
    using assms False readBlock_in [OF j assms(2)] blocks.block_length [OF j]
    by (intro exI [of _ "block s ?j"] exI [of _ "incDiskReads (stats s)"]
        exI [of _ "(swapM s)\<lparr>allocationMap := (allocationMap (swapM s))[nat slot := False]\<rparr>"])
      (simp add: swapIn_def swap_ok_def disk_ok_def Let_def)
qed

lemma managed_storage:
  assumes k: "memory_ok k" and s: "swap_ok (k\<lparr>disk := d, swapM := sm, stats := st\<rparr>)"
    and d: "totalBlocks d = totalBlocks (disk k)" "length (data d) = length (data (disk k))"
  shows "managed p k (k\<lparr>disk := d, swapM := sm, stats := st\<rparr>)"
proof -
  let ?k = "k\<lparr>disk := d, swapM := sm, stats := st\<rparr>"
  have "page_table ?k = page_table k" "k_mem ?k = k_mem k"
    by (simp_all add: page_table_def k_mem_def fun_eq_iff)
  then show ?thesis
    using k s d by (simp add: managed_def memory_ok_def calm_def disk_bytes_def quiet_def)
qed

text \<open>The victim's page goes, and its frame is on offer.\<close>

lemma evictPage_safe:
  assumes k: "memory_ok k" "swap_ok k" and full: "freeFrames (pmm k) = []"
  shows "post only_swap_full (\<lambda>_ l. managed p k l \<and> freeFrames (pmm l) \<noteq> []) evictPage k"
proof -
  note m = memory_parts [OF k(1)]
  let ?t = "frameTable (pmm k)" and ?n = "length (processList k)"
  have fs: "length ?t = 16" "fifo.covers (prp k) ?t" "allocated (?t ! 0)"
    using m(4) full by (auto simp: frames_safe_def)
  obtain f q where v: "FIFO_findVictim ?t (prp k) = Inr (int f, q)" "f < 16" "allocated (?t ! f)"
    "fifo.covers q (?t[f := FrameInfo_clear (?t ! f)])"
    using the_victim [OF fs(2), of 0] fs by auto
  define r where "r = nat (ownerPid (?t ! f))"
  define u where "u = fi_vpn (?t ! f)"
  have r: "0 \<le> ownerPid (?t ! f)" "r < ?n" "\<not> quiet k r"
    using m(4) v by (auto simp: frames_safe_def r_def quiet_def)
  define P where "P = \<lparr>freeFrames = freeFrames (pmm k) @ [page_address f], frameTable = ?t[f := FrameInfo_clear (?t ! f)]\<rparr>"
  have P: "PMM_freeFrame (page_address f) (pmm k) = Inr ((), P)" "frames_safe ?n P q" "freeFrames P \<noteq> []"
    using freeFrame_run [OF m(4) v(2)] frames_freed [OF m(4) v(2,4)] by (simp_all add: P_def)
  have addr: "word_of_nat f * KERNEL_PAGE_SIZE = page_address f" "unat (word_of_nat f :: Addr) = f"
    using v(2) by (simp_all add: page_address_def unat_of_nat)
  let ?k = "k\<lparr>prp := q\<rparr>"
  let ?k2 = "touched r u ?k"
  let ?pte = "entry ?k r u"
  have run: "evictPage k = (if \<not> canWrite ?pte \<or> \<not> dirty ?pte \<and> \<not> swapped ?pte then drop_page r u (word_of_nat f) ?k2
      else swap_page r u (word_of_nat f) ?k2)"
    using v(1) r addr by (simp add: evictPage_def bind_run gets_run on_parts_run the_process_def
        get_pte_run Let_def r_def [symmetric] u_def [symmetric] not_less)
  have own: "nat (ownerPid (frameTable P ! g)) \<noteq> s \<or> allocated (?t ! g) \<and> ownerPid (frameTable P ! g) = ownerPid (?t ! g)"
    if "allocated (frameTable P ! g)" "g < 16" for g s
    using that fs(1) by (cases "g = f") (simp_all add: P_def)
  have kept: "managed p k ((put_pte r u e l)\<lparr>pmm := P, prp := q\<rparr>)"
    if l: "managed p k l" "pmm l = pmm k" "\<not> quiet l r" and e: "\<not> valid e" for e l
  proof -
    have p1: "managed p k (put_pte r u e l)"
      using managed_trans [OF l(1) managed_entry [of l e r p u]] l e by (simp add: managed_parts [OF l(1)])
    have "managed p (put_pte r u e l) ((put_pte r u e l)\<lparr>pmm := P, prp := q, stats := stats (put_pte r u e l)\<rparr>)"
      using managed_parts [OF p1] P(2) own l(2) fs(1) by (intro managed_frames) (auto simp: P_def nth_list_update split: if_splits)
    then show ?thesis
      using managed_trans [OF p1] by simp
  qed
  have tk: "managed p k (touched r u k)" "pmm (touched r u k) = pmm k" "\<not> quiet (touched r u k) r"
    using managed_touched [OF k] r(3) v r_def by (auto simp: quiet_def)
  have comm: "touched r u ?k = (touched r u k)\<lparr>prp := q\<rparr>"
    by (simp add: touched_def set_page_table_def split: option.split)
  show ?thesis
  proof (cases "\<not> canWrite ?pte \<or> \<not> dirty ?pte \<and> \<not> swapped ?pte")
    case True
    let ?e = "(entry ?k2 r u)\<lparr>valid := False, swapped := False, ppn := 0\<rparr>"
    have "drop_page r u (word_of_nat f) ?k2 = Inr ((), (put_pte r u ?e ?k2)\<lparr>pmm := P\<rparr>)"
      using P(1) by (simp add: drop_page_def andthen_run set_pte_run on_parts_run PRP_onFree_def ret_run addr)
    moreover have "(put_pte r u e ?k2)\<lparr>pmm := P\<rparr> = (put_pte r u e (touched r u k))\<lparr>pmm := P, prp := q\<rparr>" for e
      by (simp add: comm put_pte_def set_page_table_def)
    ultimately show ?thesis
      using run True kept [OF tk, of ?e] P(3) by (simp add: post_def)
  next
    case False
    let ?b = "frame_bytes ?k2 f"
    have mem: "mem_ok (k_mem ?k2)" "swap_ok (touched r u k)"
      using m(2) k(2) by simp_all
    have room: "unat (page_address f) + PAGE \<le> unat MEMORY_SIZE"
      using v(2) by (simp add: page_address_def frame_address unat_MEMORY_SIZE PAGE_eq)
    have out: "copy_out (\<lambda>a. PMM_load a 1) (page_address f) PAGE ?k2 = Inr (?b, ?k2)"
      unfolding PMM_copy_out on_memory_run page_out [OF mem(1) room]
      using v(2) put_mem_simps(3) [of ?k2] by (simp add: frame_bytes_def page_address_def frame_address)
    have len: "length ?b = BLOCK_SIZE"
      using mem(1) v(2) by (simp add: frame_bytes_length PAGE_eq)
    obtain x d st sm where so: "swapOut ?b ?k2 = Inr (x, ?k2\<lparr>disk := d, swapM := sm, stats := st\<rparr>)"
      "swap_ok (?k2\<lparr>disk := d, swapM := sm, stats := st\<rparr>)"
      "totalBlocks d = totalBlocks (disk ?k2)" "length (data d) = length (data (disk ?k2))"
      using swapOut_keeps [of ?k2, OF _ len] mem(2) by auto
    let ?l = "(touched r u k)\<lparr>disk := d, swapM := sm, stats := incSwapOuts st\<rparr>"
    have "managed p (touched r u k) ?l"
      using so(2-4) managed_parts(1) [OF tk(1)] by (intro managed_storage) (simp_all add: comm swap_ok_def disk_ok_def)
    then have l: "managed p k ?l" "pmm ?l = pmm k"
      using managed_trans [OF tk(1)] tk(2) by simp_all
    have nq: "\<not> quiet ?l r"
      using tk(3) by (simp add: quiet_def page_table_def)
    let ?e = "(entry ?l r u)\<lparr>valid := False, swapped := True, ppn := word_of_int x, dirty := False\<rparr>"
    have ent: "entry (?k2\<lparr>disk := d, swapM := sm, stats := incSwapOuts st\<rparr>) r u = entry ?l r u"
      by (simp add: comm entry_def page_table_def)
    have fin: "(put_pte r u e (?k2\<lparr>disk := d, swapM := sm, stats := incSwapOuts st\<rparr>))\<lparr>pmm := P\<rparr> =
        (put_pte r u e ?l)\<lparr>pmm := P, prp := q\<rparr>" for e
      by (simp add: comm put_pte_def set_page_table_def page_table_def)
    have "swap_page r u (word_of_nat f) ?k2 = (if x = -1 then Inl (KernelPanic ''Swap Full!'')
        else Inr ((), (put_pte r u ?e ?l)\<lparr>pmm := P, prp := q\<rparr>))"
      using out so(1) P(1) ent fin
      by (simp add: swap_page_def bind_run andthen_run set_pte_run on_parts_run PRP_onFree_def ret_run addr fail_run)
    moreover have "evictPage k = swap_page r u (word_of_nat f) ?k2"
      using run False by auto
    ultimately show ?thesis
      using kept [OF l nq, of ?e] P(3) by (simp add: post_def)
  qed
qed

section \<open>Allocation and the supply of pages\<close>

lemma take_safe:
  assumes k: "memory_ok k" "swap_ok k" and ne: "freeFrames (pmm k) \<noteq> []" and p: "p < length (processList k)"
  shows "\<exists>f < 16. \<exists>l. PMM_allocateFrame (pmm k) = Inr (Some (page_address f), (pmm k)\<lparr>freeFrames := butlast (freeFrames (pmm k))\<rparr>) \<and>
    andthen (on_pmm (PMM_registerFrameOwner (drop_bit 12 (page_address f)) v (int p)))
        (andthen (on_prp (FIFO_onAllocate (unat (drop_bit 12 (page_address f)))))
        (andthen (on_stats incAllocatedFrames) (ret (page_address f))))
      (k\<lparr>pmm := (pmm k)\<lparr>freeFrames := butlast (freeFrames (pmm k))\<rparr>\<rparr>) = Inr (page_address f, l) \<and> managed p k l"
proof -
  note m = memory_parts [OF k(1)]
  let ?t = "frameTable (pmm k)"
  obtain f where f: "f < 16" "last (freeFrames (pmm k)) = page_address f"
    "frames_safe (length (processList k)) \<lparr>freeFrames = butlast (freeFrames (pmm k)), frameTable = ?t[f := \<lparr>ownerPid = int p, fi_vpn = v, allocated = True\<rparr>]\<rparr>
      (prp k @ [f])"
    using frames_taken [OF m(4) ne p] by blast
  let ?P = "\<lparr>freeFrames = butlast (freeFrames (pmm k)), frameTable = ?t[f := \<lparr>ownerPid = int p, fi_vpn = v, allocated = True\<rparr>]\<rparr>"
  let ?l = "k\<lparr>pmm := ?P, prp := prp k @ [f], stats := incAllocatedFrames (stats k)\<rparr>"
  have len: "length ?t = 16"
    using m(4) by (simp add: frames_safe_def)
  have "managed p k ?l"
    using len f(1) by (intro managed_frames [OF k f(3)]) (auto simp: nth_list_update split: if_splits)
  moreover have P: "?P = (pmm k)\<lparr>freeFrames := butlast (freeFrames (pmm k)), frameTable := ?t[f := \<lparr>ownerPid = int p, fi_vpn = v, allocated = True\<rparr>]\<rparr>"
    by simp
  ultimately show ?thesis
    unfolding P
    using f(1,2) ne len
    by (intro exI [of _ f] exI conjI) (simp_all add: PMM_allocateFrame_def PMM_registerFrameOwner_def andthen_run on_parts_run
        FIFO_onAllocate_def modify_run ret_run page_address_number)
qed

lemma allocateFrame_safe:
  assumes k: "memory_ok k" "swap_ok k" and p: "p < length (processList k)"
  shows "post only_swap_full (\<lambda>a l. managed p k l \<and> (\<exists>f < 16. a = page_address f)) (VMM_allocateFrame (int p) v) k"
proof (cases "freeFrames (pmm k) = []")
  case False
  then show ?thesis
    using take_safe [OF k False p, of v]
    by (auto simp: VMM_allocateFrame_def post_def bind_run on_parts_run(1) ret_run Let_def)
next
  case True
  have none: "on_pmm PMM_allocateFrame k = Inr (None, k)"
    using True by (simp add: on_parts_run PMM_allocateFrame_def)
  let ?again = "\<lambda>again. case again of None \<Rightarrow> fail (KernelPanic ''Out of memory after eviction!'') | Some f \<Rightarrow> ret f"
  let ?rest = "\<lambda>a. andthen (on_pmm (PMM_registerFrameOwner (drop_bit 12 a) v (int p)))
      (andthen (on_prp (FIFO_onAllocate (unat (drop_bit 12 a)))) (andthen (on_stats incAllocatedFrames) (ret a)))"
  have run: "VMM_allocateFrame (int p) v k = bind (andthen evictPage (bind (on_pmm PMM_allocateFrame) ?again)) ?rest k"
    by (simp add: VMM_allocateFrame_def none Let_def)
  have "post only_swap_full (\<lambda>a l. managed p k l \<and> (\<exists>f < 16. a = page_address f))
      (bind (andthen evictPage (bind (on_pmm PMM_allocateFrame) ?again)) ?rest) k"
    unfolding post_bind [of _ _ "andthen evictPage _"] post_andthen [of _ _ evictPage]
  proof (rule post_mono [OF evictPage_safe [OF k True]])
    fix l
    assume l: "managed p k l \<and> freeFrames (pmm l) \<noteq> []"
    then obtain f m where f: "f < 16" "managed p l m" "PMM_allocateFrame (pmm l) =
        Inr (Some (page_address f), (pmm l)\<lparr>freeFrames := butlast (freeFrames (pmm l))\<rparr>)"
      "?rest (page_address f) (l\<lparr>pmm := (pmm l)\<lparr>freeFrames := butlast (freeFrames (pmm l))\<rparr>\<rparr>) = Inr (page_address f, m)"
      using take_safe [of l p v] p managed_parts [of p k l] by auto
    then show "post only_swap_full (\<lambda>x. post only_swap_full (\<lambda>a l. managed p k l \<and> (\<exists>f < 16. a = page_address f)) (?rest x))
        (bind (on_pmm PMM_allocateFrame) ?again) l"
      using l managed_trans by (auto simp: post_def bind_run on_parts_run(1) ret_run)
  qed simp_all
  then show ?thesis
    by (simp only: post_def run)
qed

lemma managed_fill:
  assumes k: "memory_ok k" "swap_ok k" and f: "f < 16" "length ws = PAGE"
  shows "\<exists>l. copy_in (\<lambda>a. PMM_store a 1) (page_address f) ws k = Inr ((), l) \<and> managed p k l"
proof -
  note m = memory_parts [OF k(1)]
  have a: "unat (page_address f) + length ws \<le> unat MEMORY_SIZE"
    using f by (simp add: page_address_def frame_address unat_MEMORY_SIZE PAGE_eq)
  let ?m = "mem_splice (k_mem k) (unat (page_address f)) (map ucast ws)"
  have ok: "mem_ok ?m"
    using mem_splice_ok [OF m(2), of "unat (page_address f)" "map ucast ws"] a by simp
  have c: "calm (put_mem ?m k) = calm k" "swap_ok (put_mem ?m k) = swap_ok k"
    by (simp_all add: calm_def put_mem_def swap_ok_def disk_ok_def)
  have "memory_ok (put_mem ?m k)"
    using m ok by (simp add: memory_ok_def c)
  then have "managed p k (put_mem ?m k)"
    using k(2) by (simp add: managed_def c quiet_def) (simp add: put_mem_def disk_bytes_def)
  then show ?thesis
    unfolding PMM_copy_in on_memory_run page_in [OF m(2) a] by simp
qed

text \<open>A frame is taken, something is done with it, and its page is entered.\<close>

lemma supply_safe:
  assumes k: "memory_ok k" "swap_ok k" and p: "p < length (processList k)"
    and b: "\<And>f l. f < 16 \<Longrightarrow> managed p k l \<Longrightarrow> post only_swap_full (\<lambda>_. managed p l) (body (page_address f)) l"
  shows "post only_swap_full (\<lambda>_. managed p k) (bind (VMM_allocateFrame (int p) v) body) k"
  unfolding post_bind
proof (rule post_mono [OF allocateFrame_safe [OF k p]], assumption)
  fix a l
  assume l: "managed p k l \<and> (\<exists>f < 16. a = page_address f)"
  then have "post only_swap_full (\<lambda>_. managed p l) (body a) l"
    using b by blast
  then show "post only_swap_full (\<lambda>_. managed p k) (body a) l"
    by (rule post_mono) (use l managed_trans in blast)+
qed

lemma map_safe:
  assumes l: "memory_ok l" "swap_ok l" and f: "f < 16" and e: "\<And>x. ppn (g x) = drop_bit 12 (page_address f)"
  shows "post E (\<lambda>_. managed p l) (andthen (set_pte p v g) (ret True)) l"
  using managed_entry [OF l, of _ p p v] f e page_address_number [OF f]
  by (simp add: post_def andthen_run set_pte_run ret_run)

lemma fill_and_map_safe:
  assumes l: "memory_ok l" "swap_ok l" and f: "f < 16" "length ws = PAGE" and e: "\<And>x. ppn (g x) = drop_bit 12 (page_address f)"
  shows "post E (\<lambda>_. managed p l)
    (andthen (copy_in (\<lambda>a. PMM_store a 1) (page_address f) ws) (andthen (on_stats st) (andthen (set_pte p v g) (ret True)))) l"
proof -
  obtain n where n: "copy_in (\<lambda>a. PMM_store a 1) (page_address f) ws l = Inr ((), n)" "managed p l n"
    using managed_fill [OF l f] by blast
  let ?n = "n\<lparr>stats := st (stats n)\<rparr>"
  note mn = managed_parts(1,2) [OF n(2)]
  have "managed p n ?n"
    using managed_storage [OF mn(1), where d = "disk n" and st = "st (stats n)" and sm = "swapM n"] mn(2) by simp
  then have n': "managed p l ?n"
    using managed_trans n(2) by blast
  have "post E (\<lambda>_. managed p ?n) (andthen (set_pte p v g) (ret True)) ?n"
    using managed_parts(1,2) [OF n'] f(1) e by (rule map_safe)
  then show ?thesis
    using n(1) managed_trans [OF n'] by (auto simp: post_def andthen_run on_parts_run split: sum.splits)
qed

section \<open>The page fault handler\<close>

text \<open>Process \<^verbatim>\<open>p\<close> can be given pages.\<close>

definition serves :: "nat \<Rightarrow> 'w Kernel \<Rightarrow> bool" where
  "serves p k \<longleftrightarrow> memory_ok k \<and> swap_ok k \<and> p < length (processList k) \<and>
     p_pid (processList k ! p) = int p \<and> threads_ok k"

lemma serves_parts: "serves p k \<Longrightarrow> memory_ok k" "serves p k \<Longrightarrow> swap_ok k" "serves p k \<Longrightarrow> p < length (processList k)"
  "serves p k \<Longrightarrow> p_pid (processList k ! p) = int p" "serves p k \<Longrightarrow> threads_ok k"
  by (simp_all add: serves_def)

lemma serves_managed: "serves p k \<Longrightarrow> managed p k l \<Longrightarrow> serves p l"
  by (simp add: serves_def managed_def threads_ok_def)

lemma serves_stats: "serves p k \<Longrightarrow> managed p k (k\<lparr>stats := st\<rparr>)"
  using managed_storage [where k = k and d = "disk k" and st = st and sm = "swapM k"] by (simp add: serves_def)

lemma swapIn_safe:
  assumes s: "serves p k"
  shows "post only_swap_full (\<lambda>_. managed p k) (handleSwapIn p v) k"
proof -
  note k = serves_parts(1,2) [OF s] and p = serves_parts(3,4) [OF s]
  let ?k = "touched p v k"
  have t: "managed p k ?k"
    using k by (simp add: managed_touched)
  note mk = managed_parts [OF t]
  have pid: "getPid p ?k = Inr (int p, ?k)"
    using p by (simp add: getPid_def bind_run the_process_def ret_run)
  have body: "post only_swap_full (\<lambda>_. managed p l)
      (bind (get_pte p v) (\<lambda>pte. let slot = sint (ppn pte) in
       bind (swapIn (replicate PAGE 0) slot) (\<lambda>buffer.
       andthen (copy_in (\<lambda>a. PMM_store a 1) (page_address f) (map ucast buffer))
      (andthen (on_stats incSwapIns)
      (andthen (set_pte p v (\<lambda>pte. pte\<lparr>ppn := drop_bit 12 (page_address f), valid := True, referenced := True, dirty := False\<rparr>))
        (ret True)))))) l" if f: "f < 16" "managed p ?k l" for f l
  proof -
    let ?l = "touched p v l"
    have tl: "managed p l ?l"
      using managed_parts [OF f(2)] by (simp add: managed_touched)
    note ml = managed_parts [OF tl]
    obtain r st sm where r: "swapIn (replicate PAGE 0) (sint (ppn (entry l p v))) ?l = Inr (r, ?l\<lparr>swapM := sm, stats := st\<rparr>)"
      "swap_ok (?l\<lparr>swapM := sm, stats := st\<rparr>)" "length r = BLOCK_SIZE"
      using swapIn_keeps [OF ml(2), of "replicate PAGE 0" "sint (ppn (entry l p v))"] by (auto simp: PAGE_eq)
    let ?m = "?l\<lparr>swapM := sm, stats := st\<rparr>"
    have "managed p ?l ?m"
      using managed_storage [OF ml(1), where d = "disk ?l" and st = st and sm = sm] r(2) by simp
    then have tm: "managed p l ?m"
      using managed_trans tl by blast
    have "post only_swap_full (\<lambda>_. managed p ?m)
        (andthen (copy_in (\<lambda>a. PMM_store a 1) (page_address f) (map ucast r)) (andthen (on_stats incSwapIns)
          (andthen (set_pte p v (\<lambda>pte. pte\<lparr>ppn := drop_bit 12 (page_address f), valid := True, referenced := True, dirty := False\<rparr>))
            (ret True)))) ?m"
      using managed_parts(1,2) [OF tm] f(1) r(3) by (intro fill_and_map_safe) (simp_all add: PAGE_eq)
    then show ?thesis
      using r(1) managed_trans [OF tm] by (auto simp: post_def bind_run get_pte_run Let_def split: sum.splits)
  qed
  have "post only_swap_full (\<lambda>_. managed p ?k) (bind (VMM_allocateFrame (int p) v) (\<lambda>a. bind (get_pte p v) (\<lambda>pte. let slot = sint (ppn pte) in
       bind (swapIn (replicate PAGE 0) slot) (\<lambda>buffer.
       andthen (copy_in (\<lambda>a. PMM_store a 1) a (map ucast buffer))
      (andthen (on_stats incSwapIns)
      (andthen (set_pte p v (\<lambda>pte. pte\<lparr>ppn := drop_bit 12 a, valid := True, referenced := True, dirty := False\<rparr>))
        (ret True))))))) ?k"
    using mk p body by (intro supply_safe) simp_all
  then have "post only_swap_full (\<lambda>_. managed p k) (bind (VMM_allocateFrame (int p) v) (\<lambda>a. bind (get_pte p v) (\<lambda>pte. let slot = sint (ppn pte) in
       bind (swapIn (replicate PAGE 0) slot) (\<lambda>buffer.
       andthen (copy_in (\<lambda>a. PMM_store a 1) a (map ucast buffer))
      (andthen (on_stats incSwapIns)
      (andthen (set_pte p v (\<lambda>pte. pte\<lparr>ppn := drop_bit 12 a, valid := True, referenced := True, dirty := False\<rparr>))
        (ret True))))))) ?k"
    by (rule post_mono) (use managed_trans [OF t] in blast)+
  then show ?thesis
    using t pid by (simp add: handleSwapIn_def post_def get_pte_run ret_run)
qed

lemma stack_safe:
  assumes s: "serves p k"
  shows "post only_swap_full (\<lambda>_. managed p k) (handleStackGrowth p addr v) k"
proof -
  note k = serves_parts(1,2) [OF s] and p = serves_parts(3,4) [OF s] and t = serves_parts(5) [OF s]
  have "post only_swap_full (\<lambda>_. managed p k) (map_stack_page p v) k"
  proof -
    have "post only_swap_full (\<lambda>_. managed p k) (bind (VMM_allocateFrame (int p) v) (\<lambda>paddr.
      andthen (set_pte p v (\<lambda>pte. pte\<lparr>ppn := drop_bit 12 paddr, valid := True, canRead := True,
        canWrite := True, referenced := True\<rparr>)) (ret True))) k"
      using k p(1) by (intro supply_safe map_safe) (simp_all add: managed_parts)
    then show ?thesis
      using p by (simp add: map_stack_page_def getPid_def post_def bind_run the_process_def ret_run)
  qed
  then show ?thesis
    using stackGrowth_run [OF t p(1)] managed_refl [OF k] by (simp add: post_def)
qed

lemma segment_safe:
  assumes s: "serves p k"
  shows "post only_swap_full (\<lambda>_. managed p k) (handleLazyLoading env p addr v) k"
proof -
  note k = serves_parts(1,2) [OF s] and p = serves_parts(3,4) [OF s]
  have "post only_swap_full (\<lambda>_. managed p k) (load_segment_page env p seg v) k" for seg
  proof -
    let ?name = "p_name (processList k ! p)"
    let ?fill = "\<lambda>paddr. andthen (copy_in (\<lambda>a. PMM_store a 1) paddr (map scast (segment_page env ?name seg v)))
      (andthen (on_stats (\<lambda>s. s)) (andthen (set_pte p v (\<lambda>pte. setPTEFlagsFromElf
        (pte\<lparr>ppn := drop_bit 12 paddr, valid := True, referenced := True\<rparr>) (seg_flags seg))) (ret True)))"
    let ?count = "if offsetInSegment seg v < seg_fileSize seg then on_stats incDiskReads else ret ()"
    have "post only_swap_full (\<lambda>_. managed p l) (andthen ?count (?fill (page_address f))) l"
      if f: "f < 16" "managed p k l" for f l
    proof -
      have c: "\<exists>st. ?count l = Inr ((), l\<lparr>stats := st\<rparr>)"
        by (cases "offsetInSegment seg v < seg_fileSize seg") (auto simp: on_parts_run ret_run intro: exI [of _ "stats l"])
      then obtain st where st: "?count l = Inr ((), l\<lparr>stats := st\<rparr>)"
        by blast
      have m: "managed p l (l\<lparr>stats := st\<rparr>)"
        using managed_parts [OF f(2)] managed_storage [where k = l and d = "disk l" and st = st and sm = "swapM l"] by simp
      have "post only_swap_full (\<lambda>_. managed p (l\<lparr>stats := st\<rparr>)) (?fill (page_address f)) (l\<lparr>stats := st\<rparr>)"
        using managed_parts [OF m] f(1) by (intro fill_and_map_safe) (simp_all add: length_segment_page setPTEFlagsFromElf_def)
      then show ?thesis
        using st managed_trans [OF m] by (auto simp: post_andthen post_def [of _ _ ?count] elim!: post_mono)
    qed
    then have "post only_swap_full (\<lambda>_. managed p k) (bind (VMM_allocateFrame (int p) v) (\<lambda>paddr. andthen ?count (?fill paddr))) k"
      using k p(1) by (intro supply_safe)
    then show ?thesis
      using p by (simp add: load_segment_page_def no_stats post_def bind_run the_process_def)
  qed
  then show ?thesis
    using p managed_refl [OF k] by (auto simp: handleLazyLoading_def post_def bind_run the_process_def ret_run split: option.split)
qed

lemma heap_safe:
  assumes s: "serves p k"
  shows "post only_swap_full (\<lambda>_. managed p k) (handleHeapGrowth p addr v) k"
proof -
  note k = serves_parts(1,2) [OF s] and p = serves_parts(3,4) [OF s]
  have "post only_swap_full (\<lambda>_. managed p k) (bind (VMM_allocateFrame (int p) v) (\<lambda>paddr.
      andthen (copy_in (\<lambda>a. PMM_store a 1) paddr (replicate PAGE 0)) (andthen (on_stats (\<lambda>s. s))
      (andthen (set_pte p v (\<lambda>pte. pte\<lparr>ppn := drop_bit 12 paddr, valid := True, canRead := True,
          canWrite := True, referenced := True\<rparr>)) (ret True))))) k"
    using k p(1) by (intro supply_safe fill_and_map_safe) (simp_all add: managed_parts)
  then show ?thesis
    using p managed_refl [OF k] by (simp add: handleHeapGrowth_def no_stats post_def bind_run the_process_def ret_run)
qed

lemma orelse_managed:
  assumes "post E (\<lambda>_. managed p k) m k" "\<And>l. managed p k l \<Longrightarrow> post E (\<lambda>_. managed p l) n l"
  shows "post E (\<lambda>_. managed p k) (bind m (\<lambda>d. if d then ret True else n)) k"
  unfolding post_bind
proof (rule post_mono [OF assms(1)], assumption)
  fix d l assume l: "managed p k l"
  then show "post E (\<lambda>_. managed p k) (if d then ret True else n) l"
    using post_mono [OF assms(2) [OF l], of E "\<lambda>_. managed p k"] managed_trans [OF l] by (auto simp: post_ret)
qed

lemma current_process_run:
  assumes "sched_ok k" "currentThreadIndex k \<noteq> -1"
  shows "current_process k = Inr (parent (at k (nat (currentThreadIndex k))), k)"
    "getCurrentThread k = Inr (activeThreads k ! nat (currentThreadIndex k), k)"
  using current_thread_run [OF assms(1)] sched_ok_at_current [OF assms]
  by (metis (no_types, lifting) bind_Inr current_process_def nat_int)+

lemma resolve_safe:
  assumes "serves p k" shows "post only_swap_full (\<lambda>_. managed p k) (resolve env p a) k"
  unfolding resolve_def Let_def
  by (intro orelse_managed swapIn_safe stack_safe segment_safe heap_safe; (intro assms | blast intro: assms serves_managed))

lemma handlePageFault_safe:
  assumes "serves p k" "current_process k = Inr (p, k)"
  shows "post only_swap_full (\<lambda>_. managed p k) (VMM_handlePageFault env a) k"
proof -
  let ?l = "touched p (drop_bit 12 a) (k\<lparr>stats := incPageFaults (stats k)\<rparr>)"
  have m1: "managed p k (k\<lparr>stats := incPageFaults (stats k)\<rparr>)"
    using serves_stats [OF assms(1)] .
  then have l: "managed p k ?l"
    using managed_touched [of "k\<lparr>stats := incPageFaults (stats k)\<rparr>" p p] managed_trans managed_parts by blast
  have "post only_swap_full (\<lambda>_. managed p k) (resolve env p a) ?l"
    by (rule post_mono [OF resolve_safe [OF serves_managed [OF assms(1) l]]]) (auto intro: managed_trans [OF l])
  then show ?thesis
    using l by (simp add: handler_run [OF assms(2)] post_def Let_def)
qed

lemma safe_serves:
  assumes "safe k" "currentThreadIndex k \<noteq> -1"
  defines "p \<equiv> parent (at k (nat (currentThreadIndex k)))"
  shows "serves p k" "current_process k = Inr (p, k)" "fine k \<Longrightarrow> active (processList k ! p)"
proof -
  note s = tasks_parts [OF safe_parts(1) [OF assms(1)]]
  obtain i where i: "currentThreadIndex k = int i" "i < length (activeThreads k)"
    using sched_ok_at_current [OF s(1) assms(2)] by blast
  have "at k i \<in> set (allThreads k)" "p < length (processList k)"
    using sched_ok_at [OF s(1) i(2)] i(1) by (simp_all add: at_def p_def)
  moreover have "threads_ok k"
    using s(6) by (auto simp: threads_ok_def process_ok_def)
  ultimately show "serves p k" "fine k \<Longrightarrow> active (processList k ! p)"
    using s(3) assms(1) i(1) by (auto simp: serves_def safe_def store_ok_def table_in_force_def fine_def p_def)
  show "current_process k = Inr (p, k)"
    using current_process_run [OF s(1) assms(2)] by (simp add: p_def)
qed

lemma page_fault_near:
  assumes ok: "safe k" "currentThreadIndex k \<noteq> -1"
  shows "post only_swap_full (\<lambda>_. near k) (VMM_handlePageFault env a) k"
proof -
  note p = safe_serves [OF ok]
  have m: "post only_swap_full (\<lambda>_. managed (parent (at k (nat (currentThreadIndex k)))) k) (VMM_handlePageFault env a) k"
    by (rule handlePageFault_safe [OF p(1,2)])
  show ?thesis
  proof (cases "fine k")
    case False
    then show ?thesis
      using managed_near [OF ok(1)] by (intro post_mono [OF m]) auto
  next
    case True
    then have "post only_swap_full (\<lambda>_. vm_ok) (VMM_handlePageFault env a) k"
      by (intro post_mono [OF fault_serviced [OF _ serves_parts(5) [OF p(1)] p(2) serves_parts(3) [OF p(1)]]])
        (simp_all add: fine_def)
    from post_conj [OF m this] show ?thesis
      using managed_near [OF ok(1)] p(3) by (auto elim!: post_mono)
  qed
qed

end
