(* ===== verification/CallSafety.thy ===== *)
theory CallSafety
  imports FrameSafety
begin

text \<open>
  Every system call of \<^verbatim>\<open>syscall/SyscallHandler.cpp\<close>, the loader and the end of a process
  (\<^verbatim>\<open>Process::terminate\<close>, \<^verbatim>\<open>recycle\<close>) keep the invariants of theory Wellformed, and which faults they
  can end in.
\<close>

section \<open>Steps of the handlers\<close>

lemma upd_thread_near:
  assumes "safe k" "i < length (allThreads k)" "thread_ok (length (allThreads k)) (f (allThreads k ! i))"
    "parent (f (allThreads k ! i)) = parent (allThreads k ! i)"
    "t_state (f (allThreads k ! i)) = RUNNING \<Longrightarrow> t_state (allThreads k ! i) = RUNNING"
  shows "post E (\<lambda>_. near k) (upd_thread i f) k"
  using near_thread [where f = f, OF assms] assms(2) by (simp add: upd_thread_run post_def)

lemma thread_is_ok: "safe k \<Longrightarrow> i < length (allThreads k) \<Longrightarrow> thread_ok (length (allThreads k)) (allThreads k ! i)"
  by (simp add: tasks_parts(5) [OF safe_parts(1)])

lemma process_is_ok: "safe k \<Longrightarrow> p < length (processList k) \<Longrightarrow>
    process_ok (length (allThreads k)) (disk_bytes k) (processList k ! p)"
  by (simp add: tasks_parts(6) [OF safe_parts(1)])

lemma setState_near:
  assumes "safe k" "i < length (allThreads k)" "s \<noteq> RUNNING"
  shows "post E (\<lambda>_. near k) (setState i s) k"
  unfolding setState_def
  using thread_is_ok [OF assms(1,2)] assms by (intro upd_thread_near) (simp_all add: thread_ok_def)

lemma setStates_near:
  assumes "safe k" "\<forall>i \<in> set is. i < length (allThreads k)" "s \<noteq> RUNNING"
  shows "post E (\<lambda>_. near k) (for_each is (\<lambda>t. setState t s)) k"
proof (rule post_for_each)
  fix i l assume i: "i \<in> set is" "near k l"
  then have "i < length (allThreads l)"
    using assms(2) onward_threads(1) [of k l] by (auto simp: near_def)
  then have "post E (\<lambda>_. near l) (setState i s) l"
    using i(2) assms(3) near_safe by (intro setState_near) auto
  then show "post E (\<lambda>_. near k) (setState i s) l"
    by (rule post_mono) (auto intro: near_trans [OF i(2)])
qed (simp add: near_refl assms(1))

lemma upd_process_near:
  assumes "safe k" "p < length (processList k)" "p_pid (f (processList k ! p)) = p_pid (processList k ! p)"
    "active (f (processList k ! p)) = active (processList k ! p)"
    "process_ok (length (allThreads k)) (disk_bytes k) (f (processList k ! p))"
  shows "post E (\<lambda>_. near k) (upd_process p f) k"
  using near_process [OF assms] assms(2) by (simp add: upd_process_run post_def)

lemma near_lengths:
  assumes "near k l"
  shows "i < length (allThreads k) \<Longrightarrow> i < length (allThreads l)" "length (processList l) = length (processList k)"
    "currentThreadIndex l = currentThreadIndex k" "vmEnabled (mmu (cpu l)) = vmEnabled (mmu (cpu k))" "safe l"
  using assms onward_threads(1) [of k l] by (auto simp: near_def onward_def)

lemma post_near_then:
  assumes "post E (\<lambda>_. near k) m k" "\<And>l. near k l \<Longrightarrow> post E (\<lambda>_. near l) n l"
  shows "post E (\<lambda>_. near k) (andthen m n) k"
  unfolding andthen_def using assms by (rule post_near)

lemma post_ret_near: "safe k \<Longrightarrow> post E (\<lambda>_. near k) (ret x) k"
  by (simp add: post_ret near_refl)

lemma post_then_ret: "post E (\<lambda>_. Q) m k \<Longrightarrow> post E (\<lambda>_. Q) (andthen m (ret x)) k"
  by (auto simp: post_def andthen_run ret_run split: sum.splits)

section \<open>Giving the frames of a process back\<close>

lemma low_page:
  assumes "unat (ppn x) < 16" shows "ppn x * KERNEL_PAGE_SIZE = page_address (unat (ppn x))"
  by (simp add: page_address_def)

lemma wipe_loop_safe:
  assumes "frames_safe n (pmm k) q" "frames_low t"
  shows "\<exists>P. for_each vs (\<lambda>vpn. case t vpn of None \<Rightarrow> ret ()
       | Some pte \<Rightarrow> if valid pte then let paddr = ppn pte * KERNEL_PAGE_SIZE in on_pmm (PMM_freeFrame paddr) else ret ()) k =
     Inr ((), k\<lparr>pmm := P\<rparr>) \<and> frames_safe n P q"
  using assms(1)
proof (induction vs arbitrary: k)
  case Nil
  then show ?case
    by (intro exI [of _ "pmm k"]) (simp add: for_each_Nil ret_run)
next
  case (Cons v vs)
  let ?body = "\<lambda>vpn. case t vpn of None \<Rightarrow> ret ()
       | Some pte \<Rightarrow> if valid pte then let paddr = ppn pte * KERNEL_PAGE_SIZE in on_pmm (PMM_freeFrame paddr) else ret ()"
  have "\<exists>P. ?body v k = Inr ((), k\<lparr>pmm := P\<rparr>) \<and> frames_safe n P q"
  proof (cases "\<exists>x. t v = Some x \<and> valid x")
    case False
    then show ?thesis
      using Cons.prems by (intro exI [of _ "pmm k"]) (auto simp: ret_run split: option.split)
  next
    case True
    then obtain x where x: "t v = Some x" "valid x" "unat (ppn x) < 16"
      using assms(2) unfolding frames_low_def by blast
    have "fifo.covers q (frameTable (pmm k))"
      using Cons.prems by (simp add: frames_safe_def)
    from frames_freed [OF Cons.prems x(3) covers_cleared [OF this]] show ?thesis
      using x freeFrame_run [OF Cons.prems x(3)] by (intro exI conjI) (simp_all add: low_page on_parts_run Let_def)
  qed
  then obtain P where "?body v k = Inr ((), k\<lparr>pmm := P\<rparr>)" "frames_safe n P q"
    by blast
  then show ?case
    using Cons.IH [of "k\<lparr>pmm := P\<rparr>"] by (simp add: for_each_Cons)
qed

lemma wipe_safe:
  assumes "safe k"
  shows "\<exists>P. wipeMemory env p k = Inr ((), k\<lparr>pmm := P\<rparr>) \<and> safe (k\<lparr>pmm := P\<rparr>)"
proof -
  note m = memory_parts [OF safe_parts(2) [OF assms]]
  obtain P where P: "wipeMemory env p k = Inr ((), k\<lparr>pmm := P\<rparr>)" "frames_safe (length (processList k)) P (prp k)"
    using wipe_loop_safe [OF m(4) m(3) [of p], where vs = "table_order env (page_table k p)"]
    by (auto simp: wipeMemory_def bind_run gets_run)
  have "disk_bytes (k\<lparr>pmm := P\<rparr>) = disk_bytes k" "waiters (k\<lparr>pmm := P\<rparr>) = waiters k" "at (k\<lparr>pmm := P\<rparr>) = at k"
    by (simp_all add: disk_bytes_def waiters_def at_def fun_eq_iff)
  then have "tasks_ok (k\<lparr>pmm := P\<rparr>)"
    using tasks_parts [OF safe_parts(1) [OF assms]] unfolding tasks_ok_def sched_ok_def one_running_def table_in_force_def by simp
  moreover have "memory_ok (k\<lparr>pmm := P\<rparr>)"
    using m P(2) by (simp add: memory_ok_def calm_def)
  moreover have "store_ok (k\<lparr>pmm := P\<rparr>)"
    using safe_parts(3) [OF assms] by (simp add: store_ok_def fs_ok_def disk_ok_def)
  ultimately show ?thesis
    using P(1) by (auto simp: safe_def)
qed

section \<open>The end of a process\<close>

lemma andthen_assoc: "andthen (andthen m n) r = andthen m (andthen n r)"
  by (simp add: fun_eq_iff andthen_run split: sum.split)

lemma deactivated:
  assumes "safe k" "p < length (processList k)"
  shows "safe (put_process p ((processList k ! p)\<lparr>active := b\<rparr>) k)"
    "onward k (put_process p ((processList k ! p)\<lparr>active := b\<rparr>) k)"
proof -
  let ?pr = "(processList k ! p)\<lparr>active := b\<rparr>"
  let ?k = "put_process p ?pr k"
  have "tasks_ok ?k"
    using process_is_ok [OF assms] assms by (intro tasks_put_process) (simp_all add: safe_def process_ok_def)
  moreover have "page_table ?k = page_table k" "k_mem ?k = k_mem k" "calm ?k = calm k" "fs_ok ?k = fs_ok k" "swap_ok ?k = swap_ok k"
    by (simp_all add: put_process_def page_table_def k_mem_def calm_def fun_eq_iff fs_ok_def swap_ok_def disk_ok_def)
  ultimately show "safe ?k"
    using assms(1) by (simp add: safe_def memory_ok_def store_ok_def) (simp add: put_process_def)
  show "onward k ?k"
    by (simp add: onward_def put_process_def)
qed

lemma terminate_safe:
  assumes ok: "safe k"
  shows "post E (\<lambda>b. good k) (terminate env pid code) k"
proof (cases "0 \<le> pid \<and> nat pid < length (processList k) \<and> active (processList k ! nat pid)")
  case False
  then show ?thesis
    using near_good [OF near_refl [OF ok]] by (auto simp: terminate_def post_def bind_run gets_run the_process_def ret_run Let_def)
next
  case True
  define p where "p = nat pid"
  have p: "p < length (processList k)" "active (processList k ! p)" "pid = int p"
    using True by (simp_all add: p_def)
  obtain P where w: "wipeMemory env p k = Inr ((), k\<lparr>pmm := P\<rparr>)" "safe (k\<lparr>pmm := P\<rparr>)"
    using wipe_safe [OF ok] by blast
  let ?k = "k\<lparr>pmm := P\<rparr>"
  let ?pr = "processList k ! p"
  let ?wake = "bind (gets processWaiters) (\<lambda>w. case w pid of None \<Rightarrow> ret ()
      | Some ws \<Rightarrow> andthen (for_each ws (\<lambda>t. setState t READY))
          (modify (\<lambda>k. k\<lparr>processWaiters := (processWaiters k)(pid := None)\<rparr>)))"
  let ?rest = "andthen (for_each (threads ?pr) (\<lambda>t. setState t TERMINATED))
     (andthen (modify (\<lambda>k. k\<lparr>exitCodes := (exitCodes k)(pid \<mapsto> code)\<rparr>))
     (andthen ?wake (on_stats (recordProcessStats pid (p_name ?pr) (instructionsExecuted ?pr)))))"
  have ts: "\<forall>i \<in> set (threads ?pr). i < length (allThreads ?k)"
    using process_is_ok [OF ok p(1)] by (simp add: process_ok_def)
  have wake: "post E (\<lambda>_. near l) ?wake l" if l: "safe l" for l
  proof (cases "processWaiters l pid")
    case None
    then show ?thesis
      using l by (simp add: wp near_refl)
  next
    case (Some ws)
    have "\<forall>i \<in> set ws. i < length (allThreads l)"
      using tasks_parts(7) [OF safe_parts(1) [OF l], of _ pid] Some by (simp add: waiters_def)
    then have "post E (\<lambda>_. near l) (andthen (for_each ws (\<lambda>t. setState t READY))
          (modify (\<lambda>k. k\<lparr>processWaiters := (processWaiters k)(pid := None)\<rparr>))) l"
    proof (rule_tac post_near_then)
      fix m assume "near l m"
      then have m: "safe m"
        by (rule near_safe)
      have "near m (m\<lparr>processWaiters := (processWaiters m)(pid := None)\<rparr>)"
        using tasks_parts(7) [OF safe_parts(1) [OF m]] by (intro near_waiters m) (auto simp: waiters_def split: if_splits)
      then show "post E (\<lambda>_. near m) (modify (\<lambda>k. k\<lparr>processWaiters := (processWaiters k)(pid := None)\<rparr>)) m"
        by (simp add: wp)
    qed (use l in \<open>simp add: setStates_near\<close>)
    then show ?thesis
      using Some by (simp add: post_bind post_gets)
  qed
  let ?last = "andthen (upd_process p (\<lambda>pr. pr\<lparr>active := False\<rparr>)) (ret True)"
  have rest: "post E (\<lambda>_. near ?k) ?rest ?k"
    by (intro post_near_then setStates_near w(2) ts wake)
      (auto simp: wp on_stats_def intro: near_safe near_codes near_stats)
  have "post E (\<lambda>_. good k) (andthen ?rest ?last) ?k"
    unfolding post_andthen [of _ _ ?rest]
  proof (rule post_mono [OF rest], assumption)
    fix l assume l: "near ?k l"
    then have s: "safe l" "p < length (processList l)"
      using near_lengths [OF l] p(1) by simp_all
    let ?l = "put_process p ((processList l ! p)\<lparr>active := False\<rparr>) l"
    note d = deactivated [OF s, where b = False]
    have "onward k l"
      using l by (simp add: near_def onward_def)
    then have "onward k ?l"
      using d(2) onward_trans by blast
    moreover have "lost k ?l"
      using p s(2) by (auto simp: lost_def)
    ultimately have "good k ?l"
      using d(1) by (simp add: good_def)
    then show "post E (\<lambda>_. good k) ?last l"
      using s(2) by (simp add: post_def andthen_run upd_process_run ret_run)
  qed
  moreover have "terminate env pid code k = andthen ?rest ?last ?k"
    using w(1) p by (simp add: terminate_def bind_run gets_run the_process_def Let_def andthen_assoc cong: option.case_cong)
  ultimately show ?thesis
    by (simp only: post_def)
qed

section \<open>A slot used again, and loading\<close>

lemma renewed_ok: "process_ok n d pr \<Longrightarrow> process_ok n d (renewed name pr)"
  by (auto simp: process_ok_def renewed_def dest: in_set_takeD)

lemma emptied_safe:
  assumes ok: "safe k" and p: "p < length (processList k)"
  shows "safe (emptied p n k)" "onward k (emptied p n k)"
proof -
  let ?t = "set_page_table p Map.empty k" and ?k = "emptied p n k"
  note m = memory_parts [OF safe_parts(2) [OF ok]]
  have "disk_bytes ?t = disk_bytes k" "waiters ?t = waiters k" "at ?t = at k"
    by (simp_all add: disk_bytes_def waiters_def at_def fun_eq_iff set_page_table_def)
  then have "tasks_ok ?t"
    using tasks_parts [OF safe_parts(1) [OF ok]]
    unfolding tasks_ok_def sched_ok_def one_running_def table_in_force_def by (simp add: set_page_table_def)
  moreover have "process_ok (length (allThreads ?t)) (disk_bytes ?t) (renewed n (processList ?t ! p))"
    using process_is_ok [OF ok p] renewed_ok by (simp add: set_page_table_def disk_bytes_def)
  ultimately have "tasks_ok ?k"
    using p unfolding emptied_def by (intro tasks_put_process) (simp_all add: renewed_def)
  moreover have "page_table ?k = (page_table k)(p := Map.empty)" "k_mem ?k = k_mem k" "calm ?k = calm k" "fs_ok ?k = fs_ok k"
    "swap_ok ?k = swap_ok k" "pmm ?k = pmm k" "prp ?k = prp k"
    by (simp_all add: emptied_def put_process_def set_page_table_def page_table_def k_mem_def calm_def fun_eq_iff fs_ok_def
        swap_ok_def disk_ok_def)
  moreover have "frames_low (((page_table k)(p := Map.empty)) q)" for q
    using m(3) [of q] by (cases "q = p") (simp_all add: frames_low_def)
  ultimately show "safe ?k"
    using ok m by (simp add: safe_def memory_ok_def store_ok_def)
  show "onward k ?k"
    by (simp add: onward_def emptied_def put_process_def set_page_table_def)
qed

lemma emptied_fine:
  assumes f: "fine k" and p: "p < length (processList k)" "\<not> active (processList k ! p)"
  shows "fine (emptied p n k)"
proof -
  have e: "page_table k p = Map.empty"
    using f p by (simp add: fine_def)
  have same: "set_page_table p Map.empty k = k"
    using e by (simp add: set_page_table_def page_table_def fun_upd_idem)
  let ?k = "put_process p (renewed n (processList k ! p)) k"
  have "map p_pid (processList ?k) = map p_pid (processList k)"
    using p by (simp add: put_process_def map_update list_update_same_conv renewed_def)
  then have "vm_ok ?k = vm_ok k"
    by (intro vm_ok_cong) (simp_all add: put_process_def)
  moreover have t: "page_table ?k = page_table k"
    by (simp add: put_process_def page_table_def fun_eq_iff)
  moreover have a: "active (processList ?k ! q) \<longleftrightarrow> q = p \<or> active (processList k ! q)" if "q < length (processList k)" for q
    using that p by (cases "q = p") (simp_all add: renewed_def)
  moreover have "active (processList ?k ! q)" if "active (processList k ! q)" for q
    using that p by (cases "q = p") simp_all
  ultimately show ?thesis
    using f unfolding emptied_def same fine_def by simp
qed

lemma put_twice: "put_process p x (put_process p y k) = put_process p x k"
  by (simp add: put_process_def)

lemma wipe_fine:
  assumes "fine k" "p < length (processList k)" "\<not> active (processList k ! p)" "wipeMemory env p k = Inr ((), k\<lparr>pmm := P\<rparr>)"
  shows "k\<lparr>pmm := P\<rparr> = k"
  using assms wipe_nothing [of k p env] by (simp add: fine_def)

definition new_at :: "nat option \<Rightarrow> 'w Kernel \<Rightarrow> bool" where
  "new_at r k \<longleftrightarrow> (\<forall>i. r = Some i \<longrightarrow> i < length (allThreads k) \<and> i \<notin> set (activeThreads k) \<and> t_state (allThreads k ! i) \<noteq> RUNNING)"

lemma createThread_near:
  assumes ok: "safe k" and p: "p < length (processList k)" and f: "fine k \<Longrightarrow> active (processList k ! p)"
  shows "post E (\<lambda>r l. near k l \<and> new_at r l \<and> (r = None \<longrightarrow> l = k)) (createThread p a arg) k"
proof -
  let ?pr = "processList k ! p" and ?i = "length (allThreads k)"
  let ?t = "started p a arg k"
  have "near k (k\<lparr>allThreads := allThreads k @ [?t]\<rparr>)"
    using p f rf_ok_new by (intro near_new_thread ok) (simp_all add: started_def rf_ok_def nth_list_update)
  moreover have "near (k\<lparr>allThreads := allThreads k @ [?t]\<rparr>) (put_process p pr (k\<lparr>allThreads := allThreads k @ [?t]\<rparr>))"
    if "p_pid pr = p_pid ?pr" "active pr = active ?pr" "process_ok (Suc ?i) (disk_bytes k) pr" for pr
    using that p near_safe [OF calculation] by (intro near_process) (simp_all add: disk_bytes_def)
  ultimately have n: "near k (put_process p pr (k\<lparr>allThreads := allThreads k @ [?t]\<rparr>))"
    if "p_pid pr = p_pid ?pr" "active pr = active ?pr" "process_ok (Suc ?i) (disk_bytes k) pr" for pr
    using that near_trans by blast
  have "process_ok (Suc ?i) (disk_bytes k) ?pr"
    using process_ok_mono [OF process_is_ok [OF ok p]] by simp
  then have "process_ok (Suc ?i) (disk_bytes k) (?pr\<lparr>nextStackBase := b, threads := threads ?pr @ [?i]\<rparr>)" for b
    by (simp add: process_ok_def)
  moreover have "?i \<notin> set (activeThreads k)"
    using tasks_parts(1) [OF safe_parts(1) [OF ok]] by (auto simp: sched_ok_def)
  ultimately show ?thesis
    using n near_refl [OF ok]
    by (auto simp: post_def createThread_run [OF p] Let_def new_at_def started_def) (simp_all add: put_process_def)
qed

lemma launch_near:
  assumes ok: "safe k" and i: "i < length (allThreads k)" "i \<notin> set (activeThreads k)" "t_state (allThreads k ! i) \<noteq> RUNNING"
  shows "post E (\<lambda>_. near k) (andthen (setState i READY) (modify (\<lambda>k. k\<lparr>activeThreads := activeThreads k @ [i]\<rparr>))) k"
proof -
  let ?k = "with_state i READY k"
  have "?k = with_thread i (\<lambda>t. t\<lparr>t_state := READY\<rparr>) k"
    by (simp add: with_state_def with_thread_def)
  moreover have "near k (with_thread i (\<lambda>t. t\<lparr>t_state := READY\<rparr>) k)"
    using thread_is_ok [OF ok i(1)] by (intro near_thread ok i(1)) (simp_all add: thread_ok_def)
  ultimately have n: "near k ?k"
    by simp
  have "near ?k (?k\<lparr>activeThreads := activeThreads ?k @ [i]\<rparr>)"
    using i by (intro near_activate near_safe [OF n]) (simp_all add: with_state_def)
  then show ?thesis
    using i(1) near_trans [OF n] by (simp add: post_def andthen_run setState_run modify_run)
qed

text \<open>An operation that may start a process but ends none.\<close>

definition grown :: "'w Kernel \<Rightarrow> 'w Kernel \<Rightarrow> bool" where
  "grown k k' \<longleftrightarrow> safe k' \<and> onward k k' \<and> (fine k \<longrightarrow> fine k')"

lemma near_grown: "near k l \<Longrightarrow> grown k l" and grown_good: "grown k l \<Longrightarrow> good k l"
  by (simp_all add: near_def grown_def good_def)

lemma grown_then_near: "grown k l \<Longrightarrow> near l m \<Longrightarrow> grown k m"
  using onward_trans by (auto simp: near_def grown_def)

lemma loadELF_safe:
  assumes ok: "safe k"
  shows "post (\<lambda>e. e = UndefinedBehaviour \<and> cut_elf env f) (\<lambda>_. grown k) (loadELF env f) k" (is "post ?E _ _ _")
proof (cases "(case host_file env f of None \<Rightarrow> True | Some bs \<Rightarrow> \<not> elf_like bs) \<or> inactive_slot (processList k) = None")
  case True
  then show ?thesis
    using near_grown [OF near_refl [OF ok]] by (simp add: post_def loader_refuses)
next
  case False
  then obtain bs p where bs: "host_file env f = Some bs" "elf_like bs" and slot: "inactive_slot (processList k) = Some p"
    by (auto split: option.splits)
  have p: "p < length (processList k)" "\<not> active (processList k ! p)"
    using slot by (simp_all add: inactive_slot_Some)
  obtain P where w: "wipeMemory env p k = Inr ((), k\<lparr>pmm := P\<rparr>)" "safe (k\<lparr>pmm := P\<rparr>)"
    using wipe_safe [OF ok] by blast
  let ?w = "k\<lparr>pmm := P\<rparr>"
  let ?k1 = "emptied p f ?w"
  have fw: "?w = k" if "fine k"
    using wipe_fine [OF that p w(1)] .
  have pw: "p < length (processList ?w)" "\<not> active (processList ?w ! p)"
    using p by simp_all
  have "onward k ?w"
    by (simp add: onward_def)
  then have k1: "safe ?k1" "onward k ?k1" "fine k \<Longrightarrow> fine ?k1"
    using emptied_safe [OF w(2) pw(1)] emptied_fine [OF _ pw] fw onward_trans by metis+
  let ?pr = "(processList ?k1 ! p)\<lparr>segments := segments (processList ?k1 ! p) @ loadable bs\<rparr>"
  let ?k2 = "put_process p ?pr ?k1"
  have l1: "p < length (processList ?k1)" "active (processList ?k1 ! p)"
    using p(1) by (simp_all add: renewed_def)
  have n2: "near ?k1 ?k2"
    using process_is_ok [OF k1(1) l1(1)] by (intro near_process k1 l1) (simp_all add: process_ok_def)
  have k2: "safe ?k2" "grown k ?k2" "p < length (processList ?k2)" "active (processList ?k2 ! p)"
    using near_safe [OF n2] grown_then_near [OF _ n2] k1 p(1) by (simp_all add: grown_def renewed_def)
  have undone: "grown k (put_process p ((processList ?k2 ! p)\<lparr>active := False\<rparr>) ?k2)"
  proof -
    let ?x = "(processList ?k2 ! p)\<lparr>active := False\<rparr>"
    have "fine (put_process p ?x ?k2)" if fk: "fine k"
    proof -
      have "set_page_table p Map.empty k = k"
        using fk p by (simp add: fine_def set_page_table_def page_table_def fun_upd_idem)
      then have "put_process p ?x ?k2 = put_process p ?x k"
        unfolding fw [OF fk] by (simp add: emptied_def put_twice)
      moreover have x: "process_ok (length (allThreads k)) (disk_bytes k) (renewed f (processList k ! p))"
        by (rule renewed_ok [OF process_is_ok [OF ok p(1)]])
      have "process_ok (length (allThreads k)) (disk_bytes k) ?x"
        using x p(1) by (simp add: process_ok_def)
      then have "near k (put_process p ?x k)"
        using p by (intro near_process ok) (simp_all add: renewed_def)
      ultimately show ?thesis
        using fk by (simp add: near_def)
    qed
    then show ?thesis
      using deactivated [OF k2(1,3), of False] k2(2) onward_trans by (auto simp: grown_def)
  qed
  let ?more = "\<lambda>mainThread. case mainThread of
        None \<Rightarrow> andthen (upd_process p (\<lambda>pr. pr\<lparr>active := False\<rparr>)) (ret (-1))
      | Some t \<Rightarrow> andthen (setState t READY) (andthen (modify (\<lambda>k. k\<lparr>activeThreads := activeThreads k @ [t]\<rparr>)) (ret (int p)))"
  have "post ?E (\<lambda>_. grown k) (bind (createThread p (le32 bs 24) 0) ?more) ?k2"
    unfolding post_bind
  proof (rule post_mono [OF createThread_near [OF k2(1,3)]])
    fix r l
    assume r: "near ?k2 l \<and> new_at r l \<and> (r = None \<longrightarrow> l = ?k2)"
    show "post ?E (\<lambda>_. grown k) (?more r) l"
    proof (cases r)
      case None
      then show ?thesis
        using r undone k2(3) by (simp add: post_def andthen_run upd_process_run ret_run del: put_process_simps)
    next
      case (Some t)
      have "post ?E (\<lambda>_. near l) (andthen (setState t READY) (modify (\<lambda>k. k\<lparr>activeThreads := activeThreads k @ [t]\<rparr>))) l"
        using r Some by (intro launch_near) (auto simp: new_at_def intro: near_safe)
      then have "post ?E (\<lambda>_. near l) (?more r) l"
        unfolding Some by (simp add: post_then_ret flip: andthen_assoc)
      then show ?thesis
        by (rule post_mono) (use grown_then_near [OF grown_then_near [OF k2(2)]] r in blast)+
    qed
  qed (use k2(4) in simp_all)
  moreover have rec: "recycle env p f k = Inr ((), ?k1)"
    using recycle_eq [OF p(1) w(1)] .
  moreover have "loadELF env f k = bind (createThread p (le32 bs 24) 0) ?more ?k2" if h: "headers_inside bs"
  proof -
    have "for_each [0..<unat (le16 bs 44)] (\<lambda>i. read_header p bs (unat (le32 bs 28) + 32 * i)) ?k1 = Inr ((), ?k2)"
      using headers_run [OF l1(1) h] .
    then show ?thesis
      using rec bs slot by (simp add: loadELF_def elf_like_def gets_run)
  qed
  moreover have "loadELF env f k = Inl UndefinedBehaviour" if "\<not> headers_inside bs"
    using headers_cut [OF l1(1) that] rec bs slot by (simp add: loadELF_def elf_like_def gets_run)
  ultimately show ?thesis
    using bs by (cases "headers_inside bs") (simp_all only: post_def, simp_all add: cut_elf_def)
qed

end
