(* ===== verification/SyscallSafety.thy ===== *)
theory SyscallSafety
  imports CallSafety
begin

text \<open>
  The fifteen system calls of \<^verbatim>\<open>syscall/SyscallHandler.cpp\<close>, one by one, from a kernel that runs a
  thread: each keeps the invariants, and the faults it can end in are listed.
\<close>

section \<open>A kernel that runs a thread\<close>

definition ready :: "'w Kernel \<Rightarrow> bool" where
  "ready k \<longleftrightarrow> safe k \<and> vmEnabled (mmu (cpu k)) \<and> currentThreadIndex k \<noteq> -1"

definition runner :: "'w Kernel \<Rightarrow> nat" where
  "runner k = activeThreads k ! nat (currentThreadIndex k)"

definition home :: "'w Kernel \<Rightarrow> nat" where
  "home k = parent (allThreads k ! runner k)"

lemma ready_parts: "ready k \<Longrightarrow> safe k" "ready k \<Longrightarrow> vmEnabled (mmu (cpu k))" "ready k \<Longrightarrow> currentThreadIndex k \<noteq> -1"
  by (simp_all add: ready_def)

lemma ready_near: "ready k \<Longrightarrow> near k l \<Longrightarrow> ready l"
  by (simp add: ready_def near_def onward_def)

lemma ready_current:
  assumes "ready k"
  shows "runner k < length (allThreads k)" "home k < length (processList k)"
    "getCurrentThread k = Inr (runner k, k)" "getProcess (runner k) k = Inr (home k, k)"
    "current_process k = Inr (home k, k)" "the_thread (runner k) k = Inr (allThreads k ! runner k, k)"
    "the_process (home k) k = Inr (processList k ! home k, k)" "fine k \<Longrightarrow> active (processList k ! home k)"
proof -
  note s = tasks_parts [OF safe_parts(1) [OF ready_parts(1) [OF assms]]]
  obtain i where i: "currentThreadIndex k = int i" "i < length (activeThreads k)"
    using sched_ok_at_current [OF s(1) ready_parts(3) [OF assms]] by blast
  show l: "runner k < length (allThreads k)" "home k < length (processList k)"
    using sched_ok_at [OF s(1) i(2)] i(1) by (simp_all add: runner_def home_def at_def)
  show "getCurrentThread k = Inr (runner k, k)"
    using current_process_run(2) [OF s(1) ready_parts(3) [OF assms]] by (simp add: runner_def)
  moreover show "getProcess (runner k) k = Inr (home k, k)"
    using l by (simp add: getProcess_def the_thread_def bind_run ret_run home_def)
  ultimately show "current_process k = Inr (home k, k)"
    by (simp add: current_process_def)
  show "active (processList k ! home k)" if "fine k"
    using that l(1) by (simp add: fine_def home_def)
  show "the_thread (runner k) k = Inr (allThreads k ! runner k, k)"
    "the_process (home k) k = Inr (processList k ! home k, k)"
    using l by (simp_all add: the_thread_def the_process_def)
qed

lemma bind_known: "m k = Inr (x, k) \<Longrightarrow> post E Q (bind m n) k = post E Q (n x) k"
  by (simp add: post_def)

text \<open>Results of a call.\<close>

lemma then_ret: "post E (\<lambda>_. near k) m k \<Longrightarrow> post E (\<lambda>_. near k) (bind m (\<lambda>x. ret (f x))) k"
  by (auto simp: post_def bind_run ret_run split: sum.splits)

lemma then_ret_either:
  "post E (\<lambda>_. near k) m k \<Longrightarrow> post E (\<lambda>_. near k) (bind m (\<lambda>x. if P x then ret (f x) else ret (g x))) k"
  by (auto simp: post_def bind_run ret_run split: sum.splits)

section \<open>Threads\<close>

lemma find_tid_run:
  "\<forall>i \<in> set is. i < length (allThreads k) \<Longrightarrow>
     \<exists>r. find_tid is x k = Inr (r, k) \<and> (\<forall>i. r = Some i \<longrightarrow> i < length (allThreads k))"
  by (induction "is") (auto simp: bind_run the_thread_def ret_run)

lemma handleThreadJoin_near:
  assumes r: "ready k"
  shows "post E (\<lambda>_. near k) (handleThreadJoin ctx) k"
proof -
  note c = ready_current [OF r] and ok = ready_parts(1) [OF r]
  have "\<forall>i \<in> set (threads (processList k ! home k)). i < length (allThreads k)"
    using process_is_ok [OF ok c(2)] by (simp add: process_ok_def)
  then obtain t where t: "find_tid (threads (processList k ! home k)) (sint (arg0 ctx)) k = Inr (t, k)"
    "\<And>i. t = Some i \<Longrightarrow> i < length (allThreads k)"
    using find_tid_run by blast
  show ?thesis
  proof (cases t)
    case None
    then show ?thesis
      using t c ok by (simp add: handleThreadJoin_def bind_known c(3,4,7) t(1) post_ret near_refl)
  next
    case (Some i)
    then have i: "i < length (allThreads k)"
      using t(2) by blast
    let ?t = "allThreads k ! i"
    have the: "the_thread i k = Inr (?t, k)"
      using i by (simp add: the_thread_def)
    let ?wait = "andthen (upd_thread i (\<lambda>t. t\<lparr>joiner := Some (runner k)\<rparr>))
        (andthen (setState (runner k) BLOCKED) (ret wait_result))"
    have mark: "post E (\<lambda>_. near k) (upd_thread i (\<lambda>t. t\<lparr>hasBeenJoined := True\<rparr>)) k"
      using thread_is_ok [OF ok i] by (intro upd_thread_near ok i) (simp_all add: thread_ok_def)
    have block: "post E (\<lambda>_. near l) (andthen (setState (runner k) BLOCKED) (ret wait_result)) l" if "near k l" for l
      using near_lengths(5,1) [OF that] c(1) by (intro post_then_ret setState_near) simp_all
    have wait: "post E (\<lambda>_. near l) ?wait l" if l: "near k l" for l
    proof (rule post_near_then)
      note n = near_lengths(5,1) [OF l]
      show "post E (\<lambda>_. near l) (upd_thread i (\<lambda>t. t\<lparr>joiner := Some (runner k)\<rparr>)) l"
        using thread_is_ok [OF n(1) n(2) [OF i]] n(2) [OF c(1)]
        by (intro upd_thread_near n(1) n(2) [OF i]) (simp_all add: thread_ok_def)
    qed (rule block [OF near_trans [OF l]])
    have "post E (\<lambda>_. near k) (andthen (upd_thread i (\<lambda>t. t\<lparr>hasBeenJoined := True\<rparr>))
        (if t_state ?t = TERMINATED then ret (done_with (exitCode ?t)) else ?wait)) k"
      by (rule post_near_then [OF mark]) (simp add: wait post_ret_near near_safe)
    then have "post E (\<lambda>_. near k)
      (if tid ?t = tid (allThreads k ! runner k) then ret (done_with (-1))
       else if hasBeenJoined ?t then ret (done_with (-1))
       else andthen (upd_thread i (\<lambda>t. t\<lparr>hasBeenJoined := True\<rparr>))
              (if t_state ?t = TERMINATED then ret (done_with (exitCode ?t)) else ?wait)) k"
      by (simp add: post_ret_near ok)
    then show ?thesis
      using Some by (simp add: handleThreadJoin_def bind_known c(3,4,6,7) t(1) the)
  qed
qed

lemma write_thread_reg_near:
  assumes ok: "safe k" and i: "i < length (allThreads k)" and r: "r < 32"
  shows "post E (\<lambda>_. near k) (write_thread_reg i r v) k"
proof -
  let ?rs = "rf_set (t_regs (allThreads k ! i)) r v"
  have rf: "rf_ok (t_regs (allThreads k ! i))"
    using thread_is_ok [OF ok i] by (simp add: thread_ok_def)
  then have "post E (\<lambda>_. near k) (upd_thread i (\<lambda>t. t\<lparr>t_regs := ?rs\<rparr>)) k"
    using thread_is_ok [OF ok i] rf.set_ok [OF rf r] by (intro upd_thread_near ok i) (simp_all add: thread_ok_def)
  then show ?thesis
    using rf.write_ok [OF rf r, of v] i by (simp add: write_thread_reg_def post_def bind_run the_thread_def)
qed

lemma handleThreadExit_near:
  assumes r: "ready k"
  shows "post E (\<lambda>_. near k) (handleThreadExit ctx) k"
proof -
  let ?c = "runner k" and ?code = "arg0 ctx"
  let ?give = "\<lambda>j. andthen (setState j READY) (andthen (write_thread_reg j 10 ?code) (upd_thread j (\<lambda>t. t\<lparr>t_pc := t_pc t + 4\<rparr>)))"
  note c = ready_current [OF r] and ok = ready_parts(1) [OF r]
  have give: "post E (\<lambda>_. near l) (?give j) l" if l: "safe l" "j < length (allThreads l)" for l j
  proof (intro post_near_then setState_near l)
    fix m assume m: "near l m"
    note n = near_lengths(5,1) [OF m]
    show "post E (\<lambda>_. near m) (write_thread_reg j 10 ?code) m"
      using n l(2) by (intro write_thread_reg_near) simp_all
    fix m' assume "near m m'"
    note n' = near_lengths(5,1) [OF this]
    have j: "j < length (allThreads m')"
      using n(2) n'(2) l(2) by blast
    show "post E (\<lambda>_. near m') (upd_thread j (\<lambda>t. t\<lparr>t_pc := t_pc t + 4\<rparr>)) m'"
      using thread_is_ok [OF n'(1) j] by (intro upd_thread_near n'(1) j) (simp_all add: thread_ok_def)
  qed simp
  have hand: "post E (\<lambda>_. near l) (bind (the_thread ?c) (\<lambda>t. andthen
      (case joiner t of None \<Rightarrow> ret () | Some j \<Rightarrow> ?give j) (ret wait_result))) l" if l: "near k l" for l
  proof -
    note n = near_lengths(5,1) [OF l]
    have j: "j < length (allThreads l)" if "joiner (allThreads l ! ?c) = Some j" for j
      using thread_is_ok [OF n(1) n(2) [OF c(1)]] that by (simp add: thread_ok_def)
    have "post E (\<lambda>_. near l) (case joiner (allThreads l ! ?c) of None \<Rightarrow> ret () | Some j \<Rightarrow> ?give j) l"
      using give [OF n(1) j] n(1) by (cases "joiner (allThreads l ! ?c)") (simp_all add: post_ret_near)
    then show ?thesis
      using n(2) [OF c(1)] by (simp add: bind_known the_thread_def post_then_ret)
  qed
  have code: "post E (\<lambda>_. near l) (upd_thread ?c (\<lambda>t. t\<lparr>exitCode := ?code\<rparr>)) l" if "near k l" for l
    using near_lengths(5,1) [OF that] thread_is_ok [of l ?c] c(1) by (intro upd_thread_near) (simp_all add: thread_ok_def)
  have "post E (\<lambda>_. near k) (andthen (setState ?c TERMINATED) (andthen (upd_thread ?c (\<lambda>t. t\<lparr>exitCode := ?code\<rparr>))
      (bind (the_thread ?c) (\<lambda>t. andthen (case joiner t of None \<Rightarrow> ret () | Some j \<Rightarrow> ?give j) (ret wait_result))))) k"
  proof (rule post_near_then [OF setState_near [OF ok c(1)]])
    fix l assume l: "near k l"
    show "post E (\<lambda>_. near l) (andthen (upd_thread ?c (\<lambda>t. t\<lparr>exitCode := ?code\<rparr>))
      (bind (the_thread ?c) (\<lambda>t. andthen (case joiner t of None \<Rightarrow> ret () | Some j \<Rightarrow> ?give j) (ret wait_result)))) l"
      by (rule post_near_then [OF code [OF l]]) (rule hand [OF near_trans [OF l]])
  qed simp
  then show ?thesis
    by (simp add: handleThreadExit_def Let_def bind_known c(3))
qed

lemma handleThreadCreate_near:
  assumes r: "ready k"
  shows "post E (\<lambda>_. near k) (handleThreadCreate ctx) k"
proof -
  note c = ready_current [OF r] and ok = ready_parts(1) [OF r]
  have "post E (\<lambda>_. near k) (bind (createThread (home k) (arg0 ctx) (arg1 ctx)) (\<lambda>newThread.
     case newThread of None \<Rightarrow> ret (done_with (-1))
     | Some i \<Rightarrow> andthen (setState i READY) (andthen (modify (\<lambda>k. k\<lparr>activeThreads := activeThreads k @ [i]\<rparr>))
        (bind (the_thread i) (\<lambda>t. ret (done_with (word_of_int (tid t)))))))) k" (is "post _ _ (bind _ ?more) _")
    unfolding post_bind [of _ _ "createThread _ _ _"]
  proof (rule post_mono [OF createThread_near [OF ok c(2,8)]])
    fix t l
    assume l: "near k l \<and> new_at t l \<and> (t = None \<longrightarrow> l = k)"
    show "post E (\<lambda>_. near k) (?more t) l"
    proof (cases t)
      case None
      then show ?thesis
        using l ok by (simp add: post_ret near_refl)
    next
      case (Some i)
      then have i: "i < length (allThreads l)" "i \<notin> set (activeThreads l)" "t_state (allThreads l ! i) \<noteq> RUNNING" "safe l"
        using l near_safe by (auto simp: new_at_def)
      have "post E (\<lambda>_. near l) (andthen (andthen (setState i READY) (modify (\<lambda>k. k\<lparr>activeThreads := activeThreads k @ [i]\<rparr>)))
          (bind (the_thread i) (\<lambda>t. ret (done_with (word_of_int (tid t)))))) l"
      proof (rule post_near_then [OF launch_near [OF i(4,1,2,3)]])
        fix m assume "near l m"
        then show "post E (\<lambda>_. near m) (bind (the_thread i) (\<lambda>t. ret (done_with (word_of_int (tid t))))) m"
          using near_lengths(1,5) [of l m] i(1) by (simp add: post_def bind_run the_thread_def ret_run near_refl)
      qed
      then show ?thesis
        using l Some by (auto simp: andthen_assoc intro: near_trans elim!: post_mono)
    qed
  qed simp_all
  then show ?thesis
    by (simp add: handleThreadCreate_def bind_known c(5))
qed

section \<open>Files\<close>

text \<open>The contents of the disk, its blocks kept.\<close>

lemma book_store:
  assumes "book_ok n T own st X" "\<And>i. st' i = None \<longleftrightarrow> st i = None" shows "book_ok n T own st' X"
  using assms(1) unfolding book_ok_def assms(2) .

lemma near_disk:
  assumes ok: "safe k" and d: "disk_ok (with_disk dk st k)" "totalBlocks dk = totalBlocks (disk k)"
  shows "near k (with_disk dk st k)"
proof -
  let ?k = "with_disk dk st k"
  note s = tasks_parts [OF safe_parts(1) [OF ok]]
  have "disk_ok k"
    using safe_parts(3) [OF ok] by (simp add: store_ok_def fs_ok_def)
  then have b: "disk_bytes ?k = disk_bytes k"
    using d by (simp add: disk_ok_def disk_bytes_def)
  have w: "waiters ?k = waiters k" "at ?k = at k"
    by (simp_all add: waiters_def at_def fun_eq_iff with_disk_def)
  have m: "page_table ?k = page_table k" "k_mem ?k = k_mem k" "calm ?k = calm k" "pmm ?k = pmm k" "prp ?k = prp k" "swapM ?k = swapM k"
    by (simp_all add: page_table_def k_mem_def calm_def fun_eq_iff with_disk_def)
  have "tasks_ok ?k"
    using s unfolding tasks_ok_def sched_ok_def one_running_def table_in_force_def b w by simp
  moreover have "memory_ok ?k"
    using safe_parts(2) [OF ok] by (simp add: memory_ok_def m)
  moreover have st: "store_ok ?k"
    using safe_parts(3) [OF ok] d by (simp add: store_ok_def fs_ok_def swap_ok_def m)
  moreover have "fine ?k" if f: "fine k"
  proof -
    have "stored_page ?k i = None \<longleftrightarrow> stored_page k i = None" for i
      by (simp add: stored_page_def m)
    then have "book_ok (length (processList k)) (page_table k) (pmm_owner (pmm k)) (stored_page ?k) None"
      using f by (intro book_store [OF vm_inv_parts(7)]) (simp_all add: fine_def)
    then have "vm_ok ?k"
      using f st unfolding fine_def vm_inv_def m store_ok_def by simp
    then show ?thesis
      using f by (simp add: fine_def m)
  qed
  ultimately show ?thesis
    using b by (simp add: near_def safe_def onward_def same_processes_def disk_bytes_def)
qed

lemma handle_file_ok:
  assumes "safe k" "handle_ok (disk_bytes k) (DiskHandle d)" shows "file_ok k d"
  using assms safe_parts(3) [OF assms(1)] by (simp add: file_ok_def handle_ok_def disk_bytes_def store_ok_def fs_ok_def)

lemma put_handle_near:
  assumes ok: "safe k" and p: "p < length (processList k)" and h: "handle_ok (disk_bytes k) h"
  shows "post E (\<lambda>_. near k) (upd_process p (\<lambda>pr. pr\<lparr>fdTable := (fdTable pr)[fd := Some h]\<rparr>)) k"
  using process_is_ok [OF ok p] h
  by (intro upd_process_near ok p) (auto simp: process_ok_def dest!: set_update_subset_insert [THEN subsetD])

text \<open>A handle that moved keeps its place on the disk.\<close>

lemma handle_moves:
  assumes ok: "safe k" "p < length (processList k)" "handle_ok (disk_bytes k) (DiskHandle d)"
    and l: "near k l" "startBlockIndex d' = startBlockIndex d" "fileSize d' = fileSize d" "disk_bytes l = disk_bytes k"
  shows "post E (\<lambda>_. near k) (andthen (upd_process p (\<lambda>pr. pr\<lparr>fdTable := (fdTable pr)[fd := Some (DiskHandle d')]\<rparr>)) (ret x)) l"
proof -
  have "post E (\<lambda>_. near l) (upd_process p (\<lambda>pr. pr\<lparr>fdTable := (fdTable pr)[fd := Some (DiskHandle d')]\<rparr>)) l"
    using near_lengths(2,5) [OF l(1)] ok l by (intro put_handle_near) (simp_all add: handle_ok_def)
  then have "post E (\<lambda>_. near k) (upd_process p (\<lambda>pr. pr\<lparr>fdTable := (fdTable pr)[fd := Some (DiskHandle d')]\<rparr>)) l"
    by (rule post_mono) (auto intro: near_trans [OF l(1)])
  then show ?thesis
    by (rule post_then_ret)
qed

lemma same_disk_bytes:
  "disk_ok k \<Longrightarrow> disk_ok l \<Longrightarrow> totalBlocks (disk l) = totalBlocks (disk k) \<Longrightarrow> disk_bytes l = disk_bytes k"
  by (simp add: disk_ok_def disk_bytes_def)

lemma handle_write_near:
  assumes ok: "safe k" "p < length (processList k)" "handle_ok (disk_bytes k) h" and n: "n \<le> length buffer"
  shows "post E (\<lambda>_. near k) (handle_write env p fd h buffer n) k"
proof (cases h)
  case (ConsoleHandle f)
  then show ?thesis
    using ok near_world [OF ok(1)] by (auto simp: handle_write_def post_def ret_run near_refl split: prod.split)
next
  case (DiskHandle d)
  have f: "file_ok k d"
    using handle_file_ok ok(1,3) DiskHandle by blast
  obtain m d' l where w: "DiskFileHandle_write d buffer n k = Inr ((m, d'), l)" "file_ok l d'" "startBlockIndex d' = startBlockIndex d"
    "fileSize d' = fileSize d" "totalBlocks (disk l) = totalBlocks (disk k)"
    using write_refines_afile [OF f n] by blast
  obtain dk st where l: "l = with_disk dk st k"
    using write_frame [OF f n w(1)] by blast
  have d: "disk_ok k" "disk_ok l"
    using f w(2) by (simp_all add: file_ok_def)
  have nl: "near k l"
    using near_disk [OF ok(1), of dk st] d(2) w(5) unfolding l by simp
  have "disk_bytes l = disk_bytes k"
    using same_disk_bytes d w(5) by blast
  then show ?thesis
    using handle_moves [OF ok(1,2) _ nl w(3,4)] ok(3) DiskHandle w(1) by (simp add: handle_write_def post_def)
qed

lemma read_place:
  assumes "file_ok s h" "DiskFileHandle_read h buffer n s = Inr ((m, b, h'), s')"
  shows "startBlockIndex h' = startBlockIndex h" "fileSize h' = fileSize h"
proof -
  have "startBlockIndex h' = startBlockIndex h \<and> fileSize h' = fileSize h"
  proof (cases "DiskFileHandle_eof h")
    case True
    then show ?thesis
      using assms(2) by (simp add: DiskFileHandle_read_def ret_run)
  next
    case False
    then show ?thesis
      using read_run [OF assms(1) False refl, of buffer n] assms(2) by auto
  qed
  then show "startBlockIndex h' = startBlockIndex h" "fileSize h' = fileSize h"
    by simp_all
qed

lemma handle_read_near:
  assumes ok: "safe k" "p < length (processList k)" "handle_ok (disk_bytes k) h" and env: "env_ok env"
  shows "post E (\<lambda>y l. near k l \<and> (0 < fst y \<longrightarrow> nat (fst y) \<le> length (snd y))) (handle_read env p fd h (replicate n 0) n) k"
proof (cases h)
  case (ConsoleHandle f)
  obtain r bs w where h: "host_read env n (world k) = ((r, bs), w)"
    by (metis prod.collapse)
  have r: "r \<le> int n" "0 < r \<Longrightarrow> length bs = nat r"
    using env h unfolding env_ok_def by blast+
  then have "length (put_at 0 bs (replicate n 0)) = n" if "0 < r"
    using that by simp
  then show ?thesis
    using ConsoleHandle ok near_world [OF ok(1)] h r by (auto simp: handle_read_def post_def ret_run near_refl split: prod.split)
next
  case (DiskHandle d)
  have f: "file_ok k d"
    using handle_file_ok ok(1,3) DiskHandle by blast
  obtain m b d' l where w: "DiskFileHandle_read d (replicate n 0) n k = Inr ((m, b, d'), l)" "disk l = disk k" "file_ok l d'"
    "m = length (take m b)"
    using read_refines_afile [OF f, of n "replicate n 0"] by auto
  note same = read_place [OF f w(1)]
  obtain dk st where l: "l = with_disk dk st k"
    using read_frame [OF f w(1)] by blast
  have nl: "near k l"
    using near_disk [OF ok(1), of dk st] w(2,3) unfolding l by (simp add: file_ok_def)
  have "disk_bytes l = disk_bytes k"
    using w(2) by (simp add: disk_bytes_def)
  then have "post E (\<lambda>_. near k) (andthen (upd_process p (\<lambda>pr. pr\<lparr>fdTable := (fdTable pr)[fd := Some (DiskHandle d')]\<rparr>)) (ret (int m, b))) l"
    using handle_moves [OF ok(1,2) _ nl same] ok(3) DiskHandle by simp
  moreover have "m \<le> length b"
    using w(4) by (metis length_take min.cobounded1)
  ultimately show ?thesis
    using DiskHandle w(1) by (auto simp: handle_read_def post_def andthen_run ret_run split: sum.splits)
qed

text \<open>An operation after a first one that leaves the place of the caller alone.\<close>

lemma near_home:
  assumes "ready k" "near k l"
  shows "home l = home k" "runner l = runner k" "disk_bytes l = disk_bytes k" "ready l"
proof -
  obtain i where i: "currentThreadIndex k = int i" "i < length (activeThreads k)"
    using sched_ok_at_current tasks_parts(1) safe_parts(1) ready_parts [OF assms(1)] by metis
  have o: "onward k l"
    using assms(2) by (simp add: near_def)
  show r: "runner l = runner k"
    using onward_threads(4) [OF o i(2)] i(1) o by (simp add: runner_def onward_def)
  show "home l = home k"
    using onward_threads(3) [OF o ready_current(1) [OF assms(1)]] r by (simp add: home_def)
  show "disk_bytes l = disk_bytes k"
    using o by (simp add: onward_def disk_bytes_def)
  show "ready l"
    using ready_near [OF assms] .
qed

lemma post_after:
  assumes "near k l" "post E (\<lambda>_. near l) m l" shows "post E (\<lambda>_. near k) m l"
  by (rule post_mono [OF assms(2)]) (auto intro: near_trans [OF assms(1)])

lemma getHandle_run:
  assumes "ready k"
  shows "\<exists>h. getFileHandle (home k) fd k = Inr (h, k) \<and> (\<forall>x. h = Some x \<longrightarrow> handle_ok (disk_bytes k) x)"
proof -
  note c = ready_current [OF assms]
  let ?t = "fdTable (processList k ! home k)"
  have "handle_ok (disk_bytes k) x" if "0 \<le> fd" "nat fd < length ?t" "?t ! nat fd = Some x" for x
    using that process_is_ok [OF ready_parts(1) [OF assms] c(2)] nth_mem [of "nat fd" ?t] by (simp add: process_ok_def)
  then show ?thesis
    by (auto simp: getFileHandle_run [OF c(2)])
qed

lemma handleWrite_near:
  assumes r: "ready k"
  shows "post E (\<lambda>_. near k) (handleWrite env ctx) k"
proof -
  note c = ready_current [OF r] and ok = ready_parts [OF r]
  obtain h where h: "getFileHandle (home k) (sint (arg0 ctx)) k = Inr (h, k)" "\<And>x. h = Some x \<Longrightarrow> handle_ok (disk_bytes k) x"
    using getHandle_run [OF r] by blast
  show ?thesis
  proof (cases h)
    case None
    then show ?thesis
      using h ok(1) by (simp add: handleWrite_def Let_def bind_known c(5) post_ret_near)
  next
    case (Some x)
    let ?n = "unat (arg2 ctx)"
    have "post E (\<lambda>_. near k) (bind (copy_out (\<lambda>a. on_cpu (cpu_loadVirtualMemory a 1)) (arg1 ctx) ?n) (\<lambda>buffer.
         bind (handle_write env (home k) (nat (sint (arg0 ctx))) x buffer ?n) (\<lambda>written. ret (done_with written)))) k"
      unfolding post_bind [of _ _ "copy_out _ _ _"]
    proof (rule post_mono [OF copy_out_near [OF ok(1,2)]], assumption)
      fix bs :: "Byte list" and l assume l: "near k l \<and> length bs = ?n"
      then have n: "safe l" "home k < length (processList l)" "disk_bytes l = disk_bytes k"
        using near_lengths(5) [of k l] near_lengths(2) [of k l] near_home(3) [OF r, of l] c(2) l by auto
      have "post E (\<lambda>_. near l) (handle_write env (home k) (nat (sint (arg0 ctx))) x bs ?n) l"
        using n l h(2) [OF Some] by (intro handle_write_near) simp_all
      then have "post E (\<lambda>_. near l) (bind (handle_write env (home k) (nat (sint (arg0 ctx))) x bs ?n) (\<lambda>written. ret (done_with written))) l"
        by (rule then_ret)
      then show "post E (\<lambda>_. near k) (bind (handle_write env (home k) (nat (sint (arg0 ctx))) x bs ?n) (\<lambda>written. ret (done_with written))) l"
        using l by (auto intro: near_trans elim!: post_mono)
    qed
    then show ?thesis
      using h Some by (simp add: handleWrite_def Let_def bind_known c(5))
  qed
qed

lemma handleRead_near:
  assumes r: "ready k" and env: "env_ok env"
  shows "post E (\<lambda>_. near k) (handleRead env ctx) k"
proof -
  note c = ready_current [OF r] and ok = ready_parts [OF r]
  obtain h where h: "getFileHandle (home k) (sint (arg0 ctx)) k = Inr (h, k)" "\<And>x. h = Some x \<Longrightarrow> handle_ok (disk_bytes k) x"
    using getHandle_run [OF r] by blast
  show ?thesis
  proof (cases h)
    case None
    then show ?thesis
      using h ok(1) by (simp add: handleRead_def Let_def bind_known c(5) post_ret_near)
  next
    case (Some x)
    let ?n = "unat (arg2 ctx)"
    let ?more = "\<lambda>(bytesRead, buffer :: Byte list). andthen
           (if bytesRead > 0 then
              if nat bytesRead \<le> length buffer then
                copy_in (\<lambda>a. on_cpu \<circ> cpu_storeVirtualMemory a 1) (arg1 ctx) (map ucast (take (nat bytesRead) buffer))
              else fail UndefinedBehaviour
            else ret ())
           (ret (done_with (word_of_int bytesRead)))"
    have "post E (\<lambda>_. near k) (bind (handle_read env (home k) (nat (sint (arg0 ctx))) x (replicate ?n 0) ?n) ?more) k"
      unfolding post_bind
    proof (rule post_mono [OF handle_read_near [OF ok(1) c(2) h(2) [OF Some] env]], assumption)
      fix y :: "int \<times> Byte list" and l assume y: "near k l \<and> (0 < fst y \<longrightarrow> nat (fst y) \<le> length (snd y))"
      then have n: "near k l" "safe l" "vmEnabled (mmu (cpu l))"
        using near_home(4) [OF r] ready_parts by blast+
      have "post E (\<lambda>_. near l) (?more y) l"
        using y copy_in_near [OF n(2,3)] n(2) by (cases y) (simp add: post_then_ret post_ret_near)
      then show "post E (\<lambda>_. near k) (?more y) l"
        by (rule post_after [OF n(1)])
    qed
    then show ?thesis
      using h Some by (simp add: handleRead_def Let_def bind_known c(5))
  qed
qed

lemma handleOpen_near:
  assumes r: "ready k"
  shows "post E (\<lambda>_. near k) (handleOpen ctx) k"
proof -
  let ?more = "\<lambda>filename. bind (VFS_open filename) (\<lambda>handle. case handle of None \<Rightarrow> ret (done_with (-1))
     | Some h \<Rightarrow> bind current_process (\<lambda>p. bind (addFileHandle p (Some (DiskHandle h))) (\<lambda>fd.
         if fd = -1 then ret (done_with (-1)) else ret (done_with (word_of_int fd)))))"
  have more: "post E (\<lambda>_. near l) (?more f) l" if l: "near k l" for f l
  proof -
    note n = near_home(4) [OF r l]
    note c = ready_current [OF n] and ok = ready_parts(1) [OF n]
    have fs: "fs_ok l"
      using safe_parts(3) [OF ok] by (simp add: store_ok_def)
    show ?thesis
    proof (cases "fileTable (vfs l) f")
      case None
      then show ?thesis
        using ok by (simp add: VFS_open_def bind_known post_ret_near)
    next
      case (Some m)
      let ?h = "DiskFileHandle_new (unat (startBlock m)) (sizeBytes m)"
      note o = open_file_ok [OF fs Some]
      have "handle_ok (disk_bytes l) (DiskHandle ?h)"
        using o(2) by (simp add: handle_ok_def file_ok_def disk_bytes_def)
      then have "near l (put_fd (home l) fd (Some (DiskHandle ?h)) l)" for fd
        using put_handle_near [OF ok c(2), of "DiskHandle ?h" "\<lambda>_. True" fd] c(2)
        by (simp add: post_def upd_process_run put_fd_def)
      then have "post E (\<lambda>_. near l) (addFileHandle (home l) (Some (DiskHandle ?h))) l"
        using near_refl [OF ok] by (simp add: post_def addFileHandle_run [OF c(2)] split: option.split)
      then show ?thesis
        by (simp add: bind_known o(1) c(5) then_ret_either)
    qed
  qed
  show ?thesis
    unfolding handleOpen_def
    by (rule post_near [OF read_filename_near [OF ready_parts(1,2) [OF r]]]) (rule more)
qed

lemma handleClose_near:
  assumes r: "ready k"
  shows "post E (\<lambda>_. near k) (handleClose ctx) k"
proof -
  note c = ready_current [OF r] and ok = ready_parts(1) [OF r]
  have "process_ok (length (allThreads k)) (disk_bytes k) ((processList k ! home k)\<lparr>fdTable := (fds (home k) k)[i := None]\<rparr>)" for i
    using process_is_ok [OF ok c(2)] by (auto simp: process_ok_def dest!: set_update_subset_insert [THEN subsetD])
  then have "near k (put_fd (home k) i None k)" for i
    unfolding put_fd_def by (intro near_process ok c(2)) simp_all
  then have "post E (\<lambda>_. near k) (closeFileHandle (home k) (sint (arg0 ctx))) k"
    using near_refl [OF ok] by (simp add: post_def closeFileHandle_run [OF c(2)])
  then show ?thesis
    by (simp add: handleClose_def bind_known c(5) then_ret)
qed

text \<open>A new file.\<close>

lemma near_vfs:
  assumes ok: "safe k" and v: "fs_ok (k\<lparr>vfs := v\<rparr>)"
  shows "near k (k\<lparr>vfs := v\<rparr>)"
proof -
  let ?k = "k\<lparr>vfs := v\<rparr>"
  note s = tasks_parts [OF safe_parts(1) [OF ok]]
  have e: "disk_bytes ?k = disk_bytes k" "waiters ?k = waiters k" "at ?k = at k" "page_table ?k = page_table k" "k_mem ?k = k_mem k"
    "calm ?k = calm k" "swap_ok ?k = swap_ok k"
    by (simp_all add: disk_bytes_def waiters_def at_def page_table_def k_mem_def calm_def fun_eq_iff swap_ok_def disk_ok_def)
  have "tasks_ok ?k"
    using s unfolding tasks_ok_def sched_ok_def one_running_def table_in_force_def e by simp
  moreover have "vm_ok ?k = vm_ok k"
    by (rule vm_ok_cong) simp_all
  ultimately show ?thesis
    using ok v by (simp add: near_def safe_def onward_def memory_ok_def store_ok_def fine_def same_processes_def e)
qed

lemma createFile_near:
  assumes ok: "safe k" shows "post E (\<lambda>_. near k) (VFS_createFile f n) k"
proof -
  have fs: "fs_ok k"
    using safe_parts(3) [OF ok] by (simp add: store_ok_def)
  obtain b l where b: "VFS_createFile f n k = Inr (b, l)" "\<exists>v. l = k\<lparr>vfs := v\<rparr>"
  proof -
    have "\<exists>b v. VFS_createFile f n k = Inr (b, k\<lparr>vfs := v\<rparr>)"
      by (auto simp: VFS_createFile_def Let_def intro: exI [of _ "vfs k"])
    then show ?thesis
      using that by blast
  qed
  have "near k l"
  proof (cases b)
    case True
    then show ?thesis
      using createFile_ok [OF fs] near_vfs [OF ok] b by auto
  next
    case False
    then show ?thesis
      using createFile_fails [of f n k l] b(1) near_refl [OF ok] by simp
  qed
  then show ?thesis
    by (simp add: post_def b(1))
qed

lemma handleCreate_near:
  assumes r: "ready k"
  shows "post E (\<lambda>_. near k) (handleCreate ctx) k"
proof -
  let ?more = "\<lambda>filename. bind (VFS_createFile filename (unat (arg1 ctx))) (\<lambda>success.
     if \<not> success then ret (done_with (-1)) else ret (done_with 0))"
  have more: "post E (\<lambda>_. near l) (?more f) l" if l: "near k l" for f l
    using createFile_near [OF near_safe [OF l]] by (rule then_ret_either)
  show ?thesis
    unfolding handleCreate_def
    by (rule post_near [OF read_filename_near [OF ready_parts(1,2) [OF r]]]) (rule more)
qed

section \<open>The heap and mutexes\<close>

lemma handleSbrk_near:
  assumes r: "ready k"
  shows "post E (\<lambda>_. near k) (handleSbrk ctx) k"
proof -
  note c = ready_current [OF r] and ok = ready_parts(1) [OF r]
  have "near k (put_process (home k) ((processList k ! home k)\<lparr>programBreak := b\<rparr>) k)" for b
    using process_is_ok [OF ok c(2)] by (intro near_process ok c(2)) (simp_all add: process_ok_def)
  then have "post E (\<lambda>_. near k) (Process_sbrk (home k) (arg0 ctx)) k"
    using near_refl [OF ok] c(2)
    by (simp add: post_def Process_sbrk_def bind_run the_process_def andthen_run upd_process_run ret_run Let_def)
  then show ?thesis
    by (simp add: handleSbrk_def bind_known c(5) then_ret_either)
qed

lemma new_mutex_ok: "process_ok n d pr \<Longrightarrow> process_ok n d (pr\<lparr>mutexList := mutexList pr @ [Mutex_new]\<rparr>)"
  by (auto simp: process_ok_def Mutex_new_def)

lemma handleMutexCreate_near:
  assumes r: "ready k"
  shows "post E (\<lambda>_. near k) handleMutexCreate k"
proof -
  note c = ready_current [OF r] and ok = ready_parts(1) [OF r]
  have "near k (put_process (home k) ((processList k ! home k)\<lparr>mutexList := mutexList (processList k ! home k) @ [Mutex_new]\<rparr>) k)"
    using process_is_ok [OF ok c(2)] by (intro near_process ok c(2) new_mutex_ok) simp_all
  then have "post E (\<lambda>_. near k) (createMutex (home k)) k"
    using c(2) by (simp add: post_def createMutex_def bind_run the_process_def andthen_run upd_process_run ret_run)
  then show ?thesis
    by (simp add: handleMutexCreate_def bind_known c(5) then_ret)
qed

text \<open>Mutex \<^verbatim>\<open>m\<close> of process \<^verbatim>\<open>p\<close> takes a value whose queue names threads that exist.\<close>

lemma set_mutex_near:
  assumes ok: "safe k" and p: "p < length (processList k)" and x: "\<forall>t \<in> set (waitQueue x). t < length (allThreads k)"
  shows "post E (\<lambda>_. near k) (set_mutex p m x) k"
  unfolding set_mutex_def
  using process_is_ok [OF ok p] x
  by (intro upd_process_near ok p) (auto simp: process_ok_def dest!: set_update_subset_insert [THEN subsetD])

lemma mutex_queue:
  assumes "safe k" "p < length (processList k)" "m < length (mutexList (processList k ! p))"
  shows "\<forall>t \<in> set (waitQueue (mutexList (processList k ! p) ! m)). t < length (allThreads k)"
  using process_is_ok [OF assms(1,2)] assms(3) by (auto simp: process_ok_def)

lemma mutex_found:
  "p < length (processList k) \<Longrightarrow> m < length (mutexList (processList k ! p)) \<Longrightarrow>
     the_mutex p m k = Inr (mutexList (processList k ! p) ! m, k)"
  by (simp add: the_mutex_def bind_run the_process_def)

lemma acquire_near:
  assumes ok: "safe k" and p: "p < length (processList k)" and m: "m < length (mutexList (processList k ! p))"
    and t: "t < length (allThreads k)"
  shows "post E (\<lambda>_. near k) (Mutex_acquire p m t) k"
proof -
  let ?x = "mutexList (processList k ! p) ! m"
  note q = mutex_queue [OF ok p m]
  have set: "post E (\<lambda>_. near l) (andthen (set_mutex p m y) (ret b)) l"
    if "near k l" "\<forall>i \<in> set (waitQueue y). i < length (allThreads k)" for y l b
    using near_lengths(1,2,5) [OF that(1)] that(2) p by (intro post_then_ret set_mutex_near) auto
  have "post E (\<lambda>_. near k) (andthen (setState t BLOCKED) (andthen (set_mutex p m (?x\<lparr>waitQueue := waitQueue ?x @ [t]\<rparr>)) (ret False))) k"
    by (rule post_near_then [OF setState_near [OF ok t]], simp, rule set) (use q t in auto)
  moreover have "post E (\<lambda>_. near k) (andthen (set_mutex p m (?x\<lparr>locked := True, mx_owner := Some t\<rparr>)) (ret True)) k"
    using q by (intro set near_refl ok) simp
  ultimately show ?thesis
    by (simp add: Mutex_acquire_def bind_known mutex_found [OF p m])
qed

lemma release_near:
  assumes ok: "safe k" and p: "p < length (processList k)" and m: "m < length (mutexList (processList k ! p))"
  shows "post E (\<lambda>_. near k) (Mutex_release p m t) k"
proof -
  let ?x = "mutexList (processList k ! p) ! m"
  let ?y = "?x\<lparr>locked := False, mx_owner := None\<rparr>"
  note q = mutex_queue [OF ok p m]
  have set: "post E (\<lambda>_. near l) (set_mutex p m y) l"
    if "near k l" "\<forall>i \<in> set (waitQueue y). i < length (allThreads k)" for y l
    using near_lengths(1,2,5) [OF that(1)] that(2) p by (intro set_mutex_near) auto
  have last: "post E (\<lambda>_. near l) (andthen (set_mutex p m (?y\<lparr>waitQueue := []\<rparr>)) (ret True)) l" if "near k l" for l
    using that by (intro post_then_ret set) simp_all
  have wake: "post E (\<lambda>_. near l) (for_each (waitQueue ?x) (\<lambda>t. setState t READY)) l" if "near k l" for l
    using near_lengths(1,5) [OF that] q by (intro setStates_near) auto
  have more: "post E (\<lambda>_. near l) (andthen (for_each (waitQueue ?x) (\<lambda>t. setState t READY))
      (andthen (set_mutex p m (?y\<lparr>waitQueue := []\<rparr>)) (ret True))) l" if "near k l" for l
    by (rule post_near_then [OF wake [OF that]]) (rule last [OF near_trans [OF that]])
  have "post E (\<lambda>_. near k) (andthen (set_mutex p m ?y) (andthen (for_each (waitQueue ?x) (\<lambda>t. setState t READY))
      (andthen (set_mutex p m (?y\<lparr>waitQueue := []\<rparr>)) (ret True)))) k"
    by (rule post_near_then [OF set [OF near_refl [OF ok]]]) (use q more in simp_all)
  moreover have "post E (\<lambda>_. near k) (andthen (set_mutex p m (?x\<lparr>mx_owner := None, locked := False\<rparr>)) (ret True)) k"
    using q by (intro post_then_ret set near_refl ok) simp
  ultimately show ?thesis
    using ok by (simp add: Mutex_release_def bind_known mutex_found [OF p m] post_ret_near)
qed

lemma getMutex_run:
  assumes "p < length (processList k)"
  shows "\<exists>m. getMutex p mid k = Inr (m, k) \<and> (\<forall>i. m = Some i \<longrightarrow> i < length (mutexList (processList k ! p)))"
  using assms by (auto simp: getMutex_def bind_run the_process_def ret_run)

lemma handleMutexLock_near:
  assumes r: "ready k"
  shows "post E (\<lambda>_. near k) (handleMutexLock ctx) k"
proof -
  note c = ready_current [OF r] and ok = ready_parts(1) [OF r]
  obtain m where m: "getMutex (home k) (sint (arg0 ctx)) k = Inr (m, k)"
      "\<And>i. m = Some i \<Longrightarrow> i < length (mutexList (processList k ! home k))"
    using getMutex_run [OF c(2)] by blast
  show ?thesis
    using m(2) acquire_near [OF ok c(2) _ c(1)]
    by (cases m) (simp_all add: handleMutexLock_def bind_known c(3,4) m(1) post_ret_near ok then_ret_either)
qed

lemma handleMutexUnlock_near:
  assumes r: "ready k"
  shows "post E (\<lambda>_. near k) (handleMutexUnlock ctx) k"
proof -
  note c = ready_current [OF r] and ok = ready_parts(1) [OF r]
  obtain m where m: "getMutex (home k) (sint (arg0 ctx)) k = Inr (m, k)"
      "\<And>i. m = Some i \<Longrightarrow> i < length (mutexList (processList k ! home k))"
    using getMutex_run [OF c(2)] by blast
  show ?thesis
    using m(2) release_near [OF ok c(2)]
    by (cases m) (simp_all add: handleMutexUnlock_def bind_known c(3,4) m(1) post_ret_near ok then_ret_either)
qed

section \<open>Processes\<close>

lemma ready_calling: assumes "ready k" obtains i where "calling i k"
proof -
  note s = tasks_parts(1) [OF safe_parts(1) [OF ready_parts(1) [OF assms]]]
  obtain i where "currentThreadIndex k = int i" "i < length (activeThreads k)"
    using sched_ok_at_current [OF s ready_parts(3) [OF assms]] by blast
  then show ?thesis
    using that [of i] s ready_parts(2) [OF assms] safe_cpu_ok [OF ready_parts(1) [OF assms]] by (simp add: calling_def)
qed

lemma handleCreateProcess_good:
  assumes r: "ready k"
  shows "post (\<lambda>e. e = UndefinedBehaviour \<and> cut_elf env (user_name (cpu k) (arg0 ctx))) (\<lambda>_. good k) (handleCreateProcess env ctx) k"
proof -
  let ?f = "user_name (cpu k) (arg0 ctx)"
  obtain i where "calling i k"
    using ready_calling [OF r] .
  then obtain c where c: "read_filename (arg0 ctx) k = Inr (?f, with_cpu c k)"
    using read_filename_run by metis
  then have n: "near k (with_cpu c k)"
    using read_filename_near [OF ready_parts(1,2) [OF r], of "\<lambda>_. True" "arg0 ctx"] by (simp add: post_def)
  have "post (\<lambda>e. e = UndefinedBehaviour \<and> cut_elf env ?f) (\<lambda>_. good k) (loadELF env ?f) (with_cpu c k)"
    by (rule post_mono [OF loadELF_safe [OF near_safe [OF n]]]) (use near_then_good [OF n] grown_good in auto)
  then show ?thesis
    by (auto simp: handleCreateProcess_def post_def bind_run c ret_run split: sum.splits)
qed

lemma handleJoinProcess_near:
  assumes r: "ready k"
  shows "post (crosses (arg1 ctx) 4) (\<lambda>_. near k) (handleJoinProcess ctx) k"
proof (cases "exitCodes k (sint (arg0 ctx))")
  case (Some code)
  let ?pid = "sint (arg0 ctx)"
  have "post (crosses (arg1 ctx) 4) (\<lambda>_. near k) (if arg1 ctx \<noteq> 0 then on_cpu (cpu_storeVirtualMemory (arg1 ctx) 4 code) else ret ()) k"
    using near_on_cpu [OF ready_parts(1) [OF r] drift_store [OF safe_cpu_ok [OF ready_parts(1) [OF r]] ready_parts(2) [OF r]], of 4]
    by (simp add: post_ret_near ready_parts(1) [OF r])
  moreover have "post (crosses (arg1 ctx) 4) (\<lambda>_. near l) (andthen (modify (\<lambda>k. k\<lparr>exitCodes := (exitCodes k)(?pid := None)\<rparr>)) (ret (done_with 1))) l"
    if "near k l" for l
    using near_codes [OF near_safe [OF that]] by (simp add: post_def andthen_run modify_def ret_run)
  ultimately show ?thesis
    using Some by (simp add: handleJoinProcess_def Let_def post_bind post_gets post_near_then)
next
  case None
  note c = ready_current [OF r] and ok = ready_parts(1) [OF r]
  let ?pid = "sint (arg0 ctx)"
  let ?pw = "(processWaiters k)(?pid \<mapsto> (case processWaiters k ?pid of None \<Rightarrow> [] | Some ws \<Rightarrow> ws) @ [runner k])"
  let ?valid = "if 0 \<le> ?pid \<and> ?pid < int MAX_PROCESS then bind (the_process (nat ?pid)) (\<lambda>pr. ret (active pr)) else ret False"
  have "\<exists>b. ?valid k = Inr (b, k)"
    using tasks_parts(4) [OF safe_parts(1) [OF ok]] by (auto simp: bind_run the_process_def ret_run)
  then obtain b where b: "?valid k = Inr (b, k)" by blast
  have "near k (k\<lparr>processWaiters := ?pw\<rparr>)"
    using tasks_parts(7) [OF safe_parts(1) [OF ok]] c(1)
    by (intro near_waiters ok) (auto simp: waiters_def split: if_splits option.splits)
  then have "post E (\<lambda>_. near k) (modify (\<lambda>s. s\<lparr>processWaiters := (processWaiters s)(?pid \<mapsto>
               (case processWaiters s ?pid of None \<Rightarrow> [] | Some ws \<Rightarrow> ws) @ [runner k])\<rparr>)) k" for E
    by (simp add: wp)
  moreover have "post E (\<lambda>_. near l) (andthen (setState (runner k) BLOCKED) (ret wait_result)) l" if l: "near k l" for l E
    using near_lengths(5,1) [OF l] c(1) by (intro post_then_ret setState_near) simp_all
  ultimately have wait: "post E (\<lambda>_. near k) (andthen (modify (\<lambda>s. s\<lparr>processWaiters := (processWaiters s)(?pid \<mapsto>
               (case processWaiters s ?pid of None \<Rightarrow> [] | Some ws \<Rightarrow> ws) @ [runner k])\<rparr>))
           (andthen (setState (runner k) BLOCKED) (ret wait_result))) k" for E
    by (rule post_near_then)
  have "handleJoinProcess ctx k = bind ?valid (\<lambda>validPID. if \<not> validPID then ret (done_with (-1))
      else bind getCurrentThread (\<lambda>current. andthen (modify (\<lambda>s. s\<lparr>processWaiters := (processWaiters s)(?pid \<mapsto>
               (case processWaiters s ?pid of None \<Rightarrow> [] | Some ws \<Rightarrow> ws) @ [current])\<rparr>))
           (andthen (setState current BLOCKED) (ret wait_result)))) k"
    using None by (simp add: handleJoinProcess_def Let_def bind_run [of "gets _"] gets_run)
  then have j: "handleJoinProcess ctx k = (if \<not> b then ret (done_with (-1))
      else andthen (modify (\<lambda>s. s\<lparr>processWaiters := (processWaiters s)(?pid \<mapsto>
               (case processWaiters s ?pid of None \<Rightarrow> [] | Some ws \<Rightarrow> ws) @ [runner k])\<rparr>))
           (andthen (setState (runner k) BLOCKED) (ret wait_result))) k"
    by (cases b) (simp_all add: bind_run [of ?valid] b bind_run [of getCurrentThread] c(3))
  show ?thesis
    using wait [of "crosses (arg1 ctx) 4"] post_ret_near [OF ok] unfolding post_def j by (cases b) (simp_all only: if_True if_False not_True_eq_False not_False_eq_True)
qed

text \<open>The message of a failed exit; it needs a thread that outlived its process.\<close>

abbreviation exit_panic :: fault where
  "exit_panic \<equiv> KernelPanic ''KERNEL PANIC: Failed to terminate process ''"

lemma terminate_result:
  assumes ok: "safe k" and p: "p < length (processList k)" "active (processList k ! p)"
  shows "post E (\<lambda>b _. b) (terminate env (int p) code) k"
proof -
  obtain P where "wipeMemory env p k = Inr ((), k\<lparr>pmm := P\<rparr>)"
    using wipe_safe [OF ok] by blast
  moreover have "post E (\<lambda>b l. good k l) (terminate env (int p) code) k"
    by (rule terminate_safe [OF ok])
  ultimately show ?thesis
    using p by (auto simp: terminate_def post_def bind_run gets_run the_process_def Let_def andthen_run ret_run split: sum.splits)
qed

lemma kill_pid:
  assumes r: "ready k"
  shows "getPid (home k) k = Inr (int (home k), k)"
    "post (\<lambda>e. e = KernelPanic why \<and> \<not> fine k) (\<lambda>_. good k)
       (bind (terminate env (int (home k)) code) (\<lambda>ok. if \<not> ok then fail (KernelPanic why) else ret x)) k"
proof -
  note c = ready_current [OF r] and ok = ready_parts(1) [OF r]
  show "getPid (home k) k = Inr (int (home k), k)"
    using c(2) tasks_parts(3) [OF safe_parts(1) [OF ok]] by (simp add: getPid_def bind_run the_process_def ret_run table_in_force_def)
  have "post (\<lambda>_. False) (\<lambda>b l. (fine k \<longrightarrow> b) \<and> good k l) (terminate env (int (home k)) code) k"
    using terminate_result [OF ok c(2) c(8), of "\<lambda>_. False" env code] terminate_safe [OF ok, of "\<lambda>_. False" env "int (home k)" code]
    by (auto simp: post_def split: sum.splits)
  then show "post (\<lambda>e. e = KernelPanic why \<and> \<not> fine k) (\<lambda>_. good k)
       (bind (terminate env (int (home k)) code) (\<lambda>ok. if \<not> ok then fail (KernelPanic why) else ret x)) k"
    by (auto simp: post_def bind_run ret_run fail_def split: sum.splits)
qed

lemma handleExit_good:
  assumes r: "ready k"
  shows "post (\<lambda>e. e = exit_panic \<and> \<not> fine k) (\<lambda>r l. good k l \<and> \<not> error r) (handleExit env ctx) k"
proof -
  have "post (\<lambda>e. e = exit_panic \<and> \<not> fine k) (\<lambda>_. good k) (handleExit env ctx) k"
    using kill_pid(2) [OF r, where x = wait_result] kill_pid(1) [OF r] by (simp add: handleExit_def Let_def bind_known ready_current(5) [OF r])
  moreover have "post (\<lambda>_. True) (\<lambda>r _. \<not> error r) (handleExit env ctx) k"
    by (auto simp: handleExit_def Let_def post_def bind_run ret_run fail_def SyscallResult_new_def split: sum.splits)
  ultimately show ?thesis
    by (auto simp: post_def split: sum.splits)
qed

section \<open>Every call\<close>

text \<open>What a call may end in: an exit whose process has gone, a status pointer that leaves its page, the load
  of a file cut before the end of its program headers, an unknown number.\<close>

definition call_fault :: "'w Env \<Rightarrow> 'w Kernel \<Rightarrow> SyscallContext \<Rightarrow> fault \<Rightarrow> bool" where
  "call_fault env k ctx e \<longleftrightarrow> ctx_id ctx = SYS_EXIT \<and> e = exit_panic \<and> \<not> fine k \<or>
     ctx_id ctx = SYS_JOIN_PROCESS \<and> crosses (arg1 ctx) 4 e \<or>
     ctx_id ctx = SYS_CREATE_PROCESS \<and> e = UndefinedBehaviour \<and> cut_elf env (user_name (cpu k) (arg0 ctx)) \<or>
     \<not> ctx_id ctx < 15 \<and> e = KernelPanic ''Unimplemented syscall id: ''"

lemma near_call: "post E (\<lambda>_. near k) m k \<Longrightarrow> (\<And>e. E e \<Longrightarrow> F e) \<Longrightarrow>
    post F (\<lambda>r l. good k l \<and> (error r \<longrightarrow> near k l)) m k"
  by (erule post_mono) (auto intro: near_good)

lemma post_cases:
  "(P \<Longrightarrow> post E Q m k) \<Longrightarrow> (\<not> P \<Longrightarrow> post E Q n k) \<Longrightarrow> post E Q (if P then m else n) k"
  by simp

theorem dispatch_good:
  assumes r: "ready k" and env: "env_ok env"
  shows "post (call_fault env k ctx) (\<lambda>r l. good k l \<and> (error r \<longrightarrow> near k l)) (dispatch_syscall env ctx) k"
proof -
  let ?l = "k\<lparr>stats := incSyscalls (stats k)\<rparr>"
  have n: "near k ?l"
    using near_stats [OF ready_parts(1) [OF r]] .
  then have l: "ready ?l"
    by (rule ready_near [OF r])
  let ?Q = "\<lambda>r m. good ?l m \<and> (error r \<longrightarrow> near ?l m)"
  let ?chain = "let i = ctx_id ctx in
        if i = SYS_EXIT then handleExit env ctx
        else if i = SYS_WRITE then handleWrite env ctx
        else if i = SYS_READ then handleRead env ctx
        else if i = SYS_THREAD_CREATE then handleThreadCreate ctx
        else if i = SYS_THREAD_EXIT then handleThreadExit ctx
        else if i = SYS_THREAD_JOIN then handleThreadJoin ctx
        else if i = SYS_MUTEX_CREATE then handleMutexCreate
        else if i = SYS_MUTEX_LOCK then handleMutexLock ctx
        else if i = SYS_MUTEX_UNLOCK then handleMutexUnlock ctx
        else if i = SYS_OPEN then handleOpen ctx
        else if i = SYS_CLOSE then handleClose ctx
        else if i = SYS_CREATE then handleCreate ctx
        else if i = SYS_SBRK then handleSbrk ctx
        else if i = SYS_CREATE_PROCESS then handleCreateProcess env ctx
        else if i = SYS_JOIN_PROCESS then handleJoinProcess ctx
        else fail (KernelPanic ''Unimplemented syscall id: '')"
  note calls = handleWrite_near [OF l] handleRead_near [OF l env] handleThreadCreate_near [OF l] handleThreadExit_near [OF l]
    handleThreadJoin_near [OF l] handleMutexCreate_near [OF l] handleMutexLock_near [OF l] handleMutexUnlock_near [OF l]
    handleOpen_near [OF l] handleClose_near [OF l] handleCreate_near [OF l] handleSbrk_near [OF l]
  have plain: "post (call_fault env k ctx) ?Q m ?l" if "post (\<lambda>_. False) (\<lambda>_. near ?l) m ?l" for m :: "('a Kernel, SyscallResult) prog"
    using that by (rule near_call) simp
  have exit: "post (call_fault env k ctx) ?Q (handleExit env ctx) ?l" if "ctx_id ctx = SYS_EXIT"
    by (rule post_mono [OF handleExit_good [OF l]]) (use that n in \<open>auto simp: call_fault_def near_def\<close>)
  have join: "post (call_fault env k ctx) ?Q (handleJoinProcess ctx) ?l" if "ctx_id ctx = SYS_JOIN_PROCESS"
    by (rule near_call [OF handleJoinProcess_near [OF l]]) (use that in \<open>simp add: call_fault_def\<close>)
  have "post (\<lambda>_. True) (\<lambda>r _. \<not> error r) (handleCreateProcess env ctx) ?l"
    by (auto simp: handleCreateProcess_def post_def bind_run ret_run SyscallResult_new_def split: sum.splits)
  with handleCreateProcess_good [OF l, of env ctx]
  have create: "post (call_fault env k ctx) ?Q (handleCreateProcess env ctx) ?l" if "ctx_id ctx = SYS_CREATE_PROCESS"
    using that by (auto simp: post_def call_fault_def split: sum.splits)
  have unknown: "post (call_fault env k ctx) ?Q (fail (KernelPanic ''Unimplemented syscall id: '')) ?l" if "map_of sysCallNameMap (ctx_id ctx) = None"
    using that known_syscalls [of "ctx_id ctx"] by (simp add: post_def fail_def call_fault_def)
  have "post (call_fault env k ctx) ?Q ?chain ?l"
    unfolding Let_def by (intro post_cases exit join calls [THEN plain] create unknown) (simp_all add: sysCallNameMap_def)
  then have "post (call_fault env k ctx) (\<lambda>r m. good k m \<and> (error r \<longrightarrow> near k m)) ?chain ?l"
    by (rule post_mono) (use near_trans [OF n] near_then_good [OF n] in blast)+
  then show ?thesis
    by (simp add: dispatch_syscall_def andthen_run on_parts_run post_def del: Let_def)
qed

end
