(* ===== verification/CommandLine.thy ===== *)
theory CommandLine
  imports MainLoop
begin

text \<open>
  The program around the simulator, \<^verbatim>\<open>main.cpp\<close>: the command line, the applications it names,
  loaded in their order, and the run; and the logger of \<^verbatim>\<open>common/Logger.hpp\<close> with the lines it
  keeps.  The kernel's own log calls are not modelled.
\<close>

section \<open>Log lines (common/Logger.hpp)\<close>

datatype LogLevel = INFO | WARNING | ERROR | DEBUG

datatype LogSource = KERNEL | SCHEDULER | SYSCALL | MMU_SOURCE | LOADER | CPU_SOURCE | INTERRUPT

record Logger =
  messages :: "string list"

fun source_text :: "LogSource \<Rightarrow> string" where
  "source_text KERNEL = ''[KERNEL   ]''"
| "source_text SCHEDULER = ''[SCHEDULER]''"
| "source_text SYSCALL = ''[SYSCALL  ]''"
| "source_text MMU_SOURCE = ''[MMU      ]''"
| "source_text LOADER = ''[LOADER   ]''"
| "source_text CPU_SOURCE = ''[CPU      ]''"
| "source_text INTERRUPT = ''[INTERRUPT]''"

definition Logger_log :: "LogSource \<Rightarrow> LogLevel \<Rightarrow> string \<Rightarrow> Logger \<Rightarrow> Logger" where
  "Logger_log source level message l =
     (let sourceStr = source_text source in
      if level = ERROR then l\<lparr>messages := messages l @ [sourceStr @ '' ERROR: '' @ message]\<rparr>
      else if level = WARNING then l\<lparr>messages := messages l @ [sourceStr @ '' WARN: '' @ message]\<rparr>
      else l\<lparr>messages := messages l @ [sourceStr @ '' '' @ message]\<rparr>)"

text \<open>What \<^verbatim>\<open>printAll\<close> sends to the standard output.\<close>

abbreviation newline :: string where
  "newline \<equiv> [CHR 0x0A]"

definition Logger_printAll :: "Logger \<Rightarrow> string" where
  "Logger_printAll l =
     newline @ ''Logs:======================================='' @ newline @ concat (map (\<lambda>m. m @ newline) (messages l))"

definition Logger_clear :: "Logger \<Rightarrow> Logger" where
  "Logger_clear l = l\<lparr>messages := []\<rparr>"

section \<open>The command line (main.cpp)\<close>

fun parseEnableLogs :: "string list \<Rightarrow> bool" where
  "parseEnableLogs [] = False"
| "parseEnableLogs (arg # args) = (if arg = ''-logs'' then True else parseEnableLogs args)"

fun parseElfFiles :: "string list \<Rightarrow> string list" where
  "parseElfFiles [] = []"
| "parseElfFiles (arg # args) =
     (if 4 \<le> length arg \<and> drop (length arg - 4) arg = ''.elf'' then arg # parseElfFiles args
      else parseElfFiles args)"

text \<open>The loop over the file names: the first that cannot be loaded, if any.\<close>

fun load_files :: "'w Env \<Rightarrow> string list \<Rightarrow> ('w Kernel, string option) prog" where
  "load_files env [] = ret None"
| "load_files env (filename # filenames) =
     bind (loadApplication env filename) (\<lambda>ok.
     if \<not> ok then ret (Some filename) else load_files env filenames)"

text \<open>
  How \<^verbatim>\<open>main\<close> ends: the usage line, a file that was refused, or a run.  A run whose loop is still
  going when the fuel is used up has no exit code yet.
\<close>

datatype 'w ending = Usage | LoadFailed string | Ran "nat option" bool "'w Kernel"

definition exit_status :: "'w ending \<Rightarrow> int option" where
  "exit_status e = (case e of Usage \<Rightarrow> Some 1 | LoadFailed f \<Rightarrow> Some 1
     | Ran ticks logs k \<Rightarrow> if ticks = None then None else Some 0)"

definition main_program :: "'w Env \<Rightarrow> nat \<Rightarrow> string list \<Rightarrow> 'w \<Rightarrow> fault + 'w ending" where
  "main_program env fuel args w =
     (if length args < 2 then Inr Usage
      else
        let printLogs = parseEnableLogs args;
            filenames = parseElfFiles args in
        case RV32UMOS_init Stats_new w of
          Inl e \<Rightarrow> Inl e
        | Inr k \<Rightarrow>
            (case load_files env filenames k of
               Inl e \<Rightarrow> Inl e
             | Inr (Some f, k) \<Rightarrow> Inr (LoadFailed f)
             | Inr (None, k) \<Rightarrow>
                 (case start env fuel k of
                    Inl e \<Rightarrow> Inl e
                  | Inr (ticks, k) \<Rightarrow> Inr (Ran ticks printLogs k))))"

section \<open>What the parsers find\<close>

definition is_elf_name :: "string \<Rightarrow> bool" where
  "is_elf_name f \<longleftrightarrow> (\<exists>g. f = g @ ''.elf'')"

lemma suffix_at: "4 \<le> length f \<and> drop (length f - 4) f = ''.elf'' \<longleftrightarrow> is_elf_name f"
proof
  assume "4 \<le> length f \<and> drop (length f - 4) f = ''.elf''"
  then have "f = take (length f - 4) f @ ''.elf''"
    by (metis append_take_drop_id)
  then show "is_elf_name f"
    unfolding is_elf_name_def by blast
qed (auto simp: is_elf_name_def)

lemma elf_files: "parseElfFiles args = filter is_elf_name args"
  by (induction args) (simp_all add: suffix_at)

lemma logs_flag: "parseEnableLogs args \<longleftrightarrow> ''-logs'' \<in> set args"
  by (induction args) auto

lemma log_line:
  "\<exists>line. messages (Logger_log s lv m l) = messages l @ [line] \<and> take 11 line = source_text s \<and> (\<exists>xs. line = xs @ m)"
  by (cases s; cases lv; simp add: Logger_log_def; metis append_Cons append_Nil)

end
