(* ===== verification/RunSafety.thy ===== *)
theory RunSafety
  imports SyscallSafety Dispatch CommandLine
begin

text \<open>
  Whole runs of \<^verbatim>\<open>RV32UMOS::start\<close>: the scheduler, the traps, one round of the main loop and the
  loop keep the invariants of theory Wellformed, whatever the user programs are.
\<close>

section \<open>Between threads\<close>

text \<open>A round may change the current thread; the processes are compared as by \<^verbatim>\<open>good\<close>.\<close>

definition moves :: "'w Kernel \<Rightarrow> 'w Kernel \<Rightarrow> bool" where
  "moves k k' \<longleftrightarrow> safe k' \<and> vmEnabled (mmu (cpu k')) = vmEnabled (mmu (cpu k)) \<and>
     length (processList k') = length (processList k) \<and> (fine k \<longrightarrow> lost k k' \<or> fine k')"

definition switches :: "'w Kernel \<Rightarrow> 'w Kernel \<Rightarrow> bool" where
  "switches k k' \<longleftrightarrow> safe k' \<and> vmEnabled (mmu (cpu k')) = vmEnabled (mmu (cpu k)) \<and>
     processList k' = processList k \<and> (fine k \<longrightarrow> fine k')"

lemma moves_refl: "safe k \<Longrightarrow> moves k k"
  by (simp add: moves_def)

lemma good_moves: "good k l \<Longrightarrow> moves k l"
  by (simp add: good_def moves_def onward_def)

lemma good_then_switches:
  assumes "good k l" "switches l m" shows "moves k m"
  using assms by (auto simp: good_def switches_def moves_def onward_def lost_def)

lemma switches_moves: "switches k l \<Longrightarrow> moves k l"
  by (simp add: switches_def moves_def)

lemma switched_vm:
  "vm_ok (switched j k) = vm_ok k" "calm k \<Longrightarrow> rf_ok (regs (cpu (switched j k))) \<Longrightarrow> calm (switched j k)"
proof -
  have e: "page_table (switched j k) = page_table k" "k_mem (switched j k) = k_mem k" "swap_ok (switched j k) = swap_ok k"
    "stored_page (switched j k) = stored_page k" "pmm (switched j k) = pmm k" "prp (switched j k) = prp k"
    by (simp_all add: switched_def Let_def page_table_def k_mem_def swap_ok_def disk_ok_def stored_page_def block_def fun_eq_iff)
  show "vm_ok (switched j k) = vm_ok k"
    unfolding vm_inv_def e by simp
  show "calm k \<Longrightarrow> rf_ok (regs (cpu (switched j k))) \<Longrightarrow> calm (switched j k)"
    by (simp add: calm_def switched_def Let_def)
qed

lemma parked_ok:
  assumes ok: "safe k" and t: "t \<in> set (parked k)"
  shows "thread_ok (length (allThreads k)) t" "fine k \<Longrightarrow> active (processList k ! parent t)"
proof -
  note s = tasks_parts [OF safe_parts(1) [OF ok]]
  have rf: "rf_ok (regs (cpu k))"
    using safe_cpu_ok [OF ok] by (simp add: cpu_ok_def)
  have leave: "thread_ok (length (allThreads k)) (leave (cpu k) x)" if "thread_ok (length (allThreads k)) x" for x
    using that rf by (simp add: thread_ok_def leave_def)
  consider "t \<in> set (allThreads k)" | x where "x \<in> set (allThreads k)" "t = leave (cpu k) x"
  proof (cases "currentThreadIndex k = -1")
    case True
    then show ?thesis
      using that t by (simp add: parked_def)
  next
    case False
    then obtain i where "currentThreadIndex k = int i" "i < length (activeThreads k)"
      using sched_ok_at_current [OF s(1)] by blast
    then have "activeThreads k ! nat (currentThreadIndex k) < length (allThreads k)"
      using sched_ok_at [OF s(1)] by simp
    then show ?thesis
      using that(1) that(2) [OF nth_mem] t False by (auto simp: parked_def Let_def dest!: set_update_subset_insert [THEN subsetD])
  qed
  note from_list = this
  show "thread_ok (length (allThreads k)) t"
    using from_list by cases (use s(5) leave in auto)
  show "active (processList k ! parent t)" if "fine k"
    using from_list by cases (use that in \<open>auto simp: fine_def\<close>)
qed

lemma switched_switches:
  assumes ok: "safe k" and j: "j < length (activeThreads k)"
  shows "switches k (switched j k)"
proof -
  let ?k = "switched j k" and ?n = "activeThreads k ! j"
  note s = tasks_parts [OF safe_parts(1) [OF ok]] and m = memory_parts [OF safe_parts(2) [OF ok]]
  have l: "length (parked k) = length (allThreads k)" "?n < length (allThreads k)"
    using sched_ok_at [OF s(1) j] by (simp_all add: parked_def Let_def)
  then have n: "parked k ! ?n \<in> set (parked k)"
    by simp
  have th: "allThreads ?k = (parked k)[?n := (parked k ! ?n)\<lparr>t_state := RUNNING\<rparr>]"
    by (simp add: switched_def Let_def)
  have each: "thread_ok (length (allThreads k)) t \<and> (fine k \<longrightarrow> active (processList k ! parent t))" if "t \<in> set (allThreads ?k)" for t
    using that parked_ok [OF ok n] parked_ok [OF ok] unfolding th
    by (auto simp: thread_ok_def dest!: set_update_subset_insert [THEN subsetD])
  have e: "disk_bytes ?k = disk_bytes k" "waiters ?k = waiters k" "k_mem ?k = k_mem k" "pmm ?k = pmm k" "prp ?k = prp k"
    "fs_ok ?k = fs_ok k" "swap_ok ?k = swap_ok k" "vmEnabled (mmu (cpu ?k)) = vmEnabled (mmu (cpu k))"
    by (simp_all add: switched_def Let_def disk_bytes_def waiters_def k_mem_def fs_ok_def swap_ok_def disk_ok_def fun_eq_iff)
  have "tasks_ok ?k"
    using s each sched_ok_switched [OF s(1) j] one_running_switched [OF s(1) j s(2)] table_in_force_switched [OF s(1) j s(3)]
    unfolding tasks_ok_def e by simp
  moreover have "rf_ok (regs (cpu ?k))"
    using parked_ok(1) [OF ok n] by (simp add: switched_def Let_def thread_ok_def)
  then have "memory_ok ?k"
    using m unfolding memory_ok_def e by (simp add: switched_vm(2))
  moreover have "store_ok ?k"
    using safe_parts(3) [OF ok] by (simp add: store_ok_def e)
  moreover have "fine ?k" if "fine k"
    using that each by (simp add: fine_def switched_vm(1))
  ultimately show ?thesis
    by (simp add: switches_def safe_def e)
qed

lemma switches_refl: "safe k \<Longrightarrow> switches k k"
  by (simp add: switches_def)

lemma preempt_safe:
  assumes ok: "safe k" shows "post E (\<lambda>_. switches k) preempt k"
proof -
  note s = tasks_parts(1) [OF safe_parts(1) [OF ok]]
  show ?thesis
  proof (cases "\<forall>j < length (activeThreads k). t_state (at k j) \<noteq> READY")
    case True
    then show ?thesis
      using preempt_idle [OF s] switches_refl [OF ok] by (simp add: post_def)
  next
    case False
    then obtain i where i: "i < length (activeThreads k)" "t_state (at k i) = READY"
      by auto
    then obtain d where d: "cyclic_next k d"
      using some_ready s by blast
    let ?j = "after (length (activeThreads k)) (currentThreadIndex k) d"
    have "activeThreads k \<noteq> []"
      using i(1) by auto
    then show ?thesis
      using preempt_switches [OF s _ d refl] switches_refl [OF ok] switched_switches [OF ok, of ?j] after_less
      by (auto simp: post_def)
  qed
qed

section \<open>Traps\<close>

definition panic :: "string \<Rightarrow> fault \<Rightarrow> bool" where
  "panic why e \<longleftrightarrow> e = KernelPanic why"

text \<open>A thread that outlived its process is to be killed.\<close>

definition stale_panic :: "fault \<Rightarrow> bool" where
  "stale_panic e \<longleftrightarrow> e = exit_panic \<or> panic ''Failed to kill process after Syscall Error!'' e \<or>
     panic ''KERNEL PANIC: Failed to kill process after Segfault!'' e"

text \<open>The system call an instruction has trapped into stops the run: the exit code of a process to be joined
  is stored across the end of a page, a process is created from a file cut before the end of its program
  headers, or there is no such call.\<close>

definition call_stop :: "'w Env \<Rightarrow> Machine \<Rightarrow> fault \<Rightarrow> bool" where
  "call_stop env c e \<longleftrightarrow> trap_type (trap c) = SyscallTrap \<and>
     (let ctx = context_of (trap_value (trap c)) c in
      ctx_id ctx = SYS_JOIN_PROCESS \<and> crosses (arg1 ctx) 4 e \<or>
      ctx_id ctx = SYS_CREATE_PROCESS \<and> e = UndefinedBehaviour \<and> cut_elf env (user_name c (arg0 ctx)) \<or>
      \<not> ctx_id ctx < 15 \<and> e = KernelPanic ''Unimplemented syscall id: '')"

text \<open>
  What can end a round: the instruction itself, a full swap area, the system call it makes, and, once a
  process has gone, a thread that outlived it and is to be killed.
\<close>

definition round_fault :: "'w Env \<Rightarrow> 'w Kernel \<Rightarrow> fault \<Rightarrow> bool" where
  "round_fault env k e \<longleftrightarrow> step (cpu k) = Inl e \<or> only_swap_full e \<or>
     (\<exists>c. step (cpu k) = Inr ((), c) \<and> call_stop env c e) \<or> stale_panic e \<and> \<not> fine k"

lemma cleared_call [simp]:
  "context_of i (c\<lparr>trap := t\<rparr>) = context_of i c" "user_name (c\<lparr>trap := t\<rparr>) a = user_name c a"
proof -
  have "user_byte (c\<lparr>trap := t\<rparr>) = user_byte c"
    by (simp add: user_byte_def granted_def fun_eq_iff split: option.split)
  then show "context_of i (c\<lparr>trap := t\<rparr>) = context_of i c" "user_name (c\<lparr>trap := t\<rparr>) a = user_name c a"
    by (simp_all add: user_name_def user_bytes_def context_of_def reg_val_def)
qed

lemma near_fine: "near k l \<Longrightarrow> \<not> fine l \<Longrightarrow> \<not> fine k"
  by (auto simp: near_def)

lemma kill_current_good:
  assumes r: "ready k" and why: "stale_panic (KernelPanic why)"
  shows "post (\<lambda>e. stale_panic e \<and> \<not> fine k) (\<lambda>_. good k) (kill_current env why) k"
proof -
  have "post (\<lambda>e. e = KernelPanic why \<and> \<not> fine k) (\<lambda>_. good k) (kill_current env why) k"
    using kill_pid(2) [OF r, where x = "()"] kill_pid(1) [OF r]
    by (simp add: kill_current_def killProcess_def bind_known ready_current(5) [OF r])
  then show ?thesis
    by (rule post_mono) (use why in auto)
qed

lemma ready_cpu: "ready k \<Longrightarrow> cpu_ok (cpu k)"
  by (simp add: ready_parts safe_cpu_ok)

lemma advance_near: "safe k \<Longrightarrow> post E (\<lambda>_. near k) (on_cpu cpu_advancePC) k"
  by (rule near_on_cpu) (simp_all add: cpu_advancePC_def wp drift_plain safe_cpu_ok)

lemma write_a0_near: "safe k \<Longrightarrow> post E (\<lambda>_. near k) (on_cpu (cpu_writeReg 10 v)) k"
proof (rule near_on_cpu)
  assume "safe k"
  then have c: "cpu_ok (cpu k)"
    by (rule safe_cpu_ok)
  then have "rf_ok (regs (cpu k))"
    by (simp add: cpu_ok_def)
  then have "cpu_writeReg 10 v (cpu k) = Inr ((), set_reg (cpu k) 10 v)"
    by (simp add: cpu_writeReg_def zoom_run rf.write_ok set_reg_def)
  then show "post E (\<lambda>_. drift (cpu k)) (cpu_writeReg 10 v) (cpu k)"
    using drift_plain(3) [OF c, of 10 v] by (simp add: post_def)
qed

lemma handleSyscall_good:
  assumes r: "ready k" and env: "env_ok env"
  shows "post (\<lambda>e. call_fault env k (context_of i (cpu k)) e \<or> stale_panic e \<and> \<not> fine k) (\<lambda>_. good k) (handleSyscall env i) k"
    (is "post ?E _ _ _")
proof -
  have rf: "rf_ok (regs (cpu k))"
    using ready_cpu [OF r] by (simp add: cpu_ok_def)
  let ?ctx = "context_of i (cpu k)"
  let ?rest = "\<lambda>result. andthen (if hasReturnValue result then on_cpu (cpu_writeReg 10 (returnValue result)) else ret ())
    (andthen (if advancePC result then on_cpu cpu_advancePC else ret ())
      (if error result then kill_current env ''Failed to kill process after Syscall Error!'' else ret ()))"
  have kill: "post (\<lambda>e. stale_panic e \<and> \<not> fine l) (\<lambda>_. good l) (kill_current env ''Failed to kill process after Syscall Error!'') l" if "ready l" for l
    by (rule kill_current_good [OF that]) (simp add: stale_panic_def panic_def)
  have rest: "post ?E (\<lambda>_. good k) (?rest x) l" if d: "good k l \<and> (error x \<longrightarrow> near k l)" for x l
  proof -
    let ?m = "andthen (if hasReturnValue x then on_cpu (cpu_writeReg 10 (returnValue x)) else ret ())
      (if advancePC x then on_cpu cpu_advancePC else ret ())"
    have sl: "safe l"
      using d good_safe by blast
    have m: "post E (\<lambda>_. near l) ?m l" for E
    proof (rule post_near_then)
      show "post E (\<lambda>_. near l) (if hasReturnValue x then on_cpu (cpu_writeReg 10 (returnValue x)) else ret ()) l"
        using sl by (simp add: write_a0_near post_ret_near)
      fix n assume "near l n"
      then have "safe n"
        by (rule near_safe)
      then show "post E (\<lambda>_. near n) (if advancePC x then on_cpu cpu_advancePC else ret ()) n"
        by (simp add: advance_near post_ret_near)
    qed
    have "post ?E (\<lambda>_. good k) (andthen ?m (if error x then kill_current env ''Failed to kill process after Syscall Error!'' else ret ())) l"
      unfolding post_andthen [of _ _ ?m]
    proof (rule post_mono [OF m], assumption)
      fix n assume n: "near l n"
      show "post ?E (\<lambda>_. good k) (if error x then kill_current env ''Failed to kill process after Syscall Error!'' else ret ()) n"
      proof (cases "error x")
        case True
        then have kn: "near k n"
          using d near_trans n by blast
        show ?thesis
          using True post_mono [OF kill [OF ready_near [OF r kn]], of ?E "\<lambda>_. good k"]
            near_then_good [OF kn] near_fine [OF kn] by simp
      next
        case False
        then show ?thesis
          using d good_then_near [OF _ n] by (simp add: wp)
      qed
    qed
    then show ?thesis
      by (simp only: andthen_assoc)
  qed
  have "post ?E (\<lambda>_. good k) (bind (dispatch_syscall env ?ctx) ?rest) k"
    unfolding post_bind by (rule post_mono [OF dispatch_good [OF r env]], simp, rule rest)
  then show ?thesis
    by (simp add: handleSyscall_def bind_known read_context_run [OF rf])
qed

lemma handlePageFault_good:
  assumes r: "ready k"
  shows "post (\<lambda>e. only_swap_full e \<or> stale_panic e \<and> \<not> fine k) (\<lambda>_. good k) (handlePageFault env a) k" (is "post ?E _ _ _")
  unfolding handlePageFault_def post_bind
proof (rule post_mono [OF page_fault_near [OF ready_parts(1,3) [OF r]]])
  fix b l assume l: "near k l"
  have "post (\<lambda>e. stale_panic e \<and> \<not> fine l) (\<lambda>_. good l) (kill_current env ''KERNEL PANIC: Failed to kill process after Segfault!'') l"
    by (rule kill_current_good [OF ready_near [OF r l]]) (simp add: stale_panic_def panic_def)
  then have "post ?E (\<lambda>_. good k) (kill_current env ''KERNEL PANIC: Failed to kill process after Segfault!'') l"
    by (rule post_mono) (use near_fine [OF l] near_then_good [OF l] in auto)
  then show "post ?E (\<lambda>_. good k) (if \<not> b then kill_current env ''KERNEL PANIC: Failed to kill process after Segfault!'' else ret ()) l"
    using near_good [OF l] by (simp add: wp)
qed simp

lemma handle_trap_good:
  assumes r: "ready k" and env: "env_ok env"
  shows "post (\<lambda>e. trap_type tr = SyscallTrap \<and> call_fault env k (context_of (trap_value tr) (cpu k)) e \<or> only_swap_full e \<or>
      stale_panic e \<and> \<not> fine k) (\<lambda>_. good k) (handle_trap env tr) k" (is "post ?E _ _ _")
proof -
  have call: "post ?E (\<lambda>_. good k) (handleSyscall env (trap_value tr)) k" if "trap_type tr = SyscallTrap"
    by (rule post_mono [OF handleSyscall_good [OF assms]]) (use that in auto)
  have fault: "post ?E (\<lambda>_. good k) (handlePageFault env (trap_value tr)) k"
    by (rule post_mono [OF handlePageFault_good [OF r]]) auto
  have none: "post ?E (\<lambda>_. good k) (ret ()) k"
    using near_good [OF near_refl [OF ready_parts(1) [OF r]]] by (simp add: post_ret)
  show ?thesis
    unfolding handle_trap_def by (intro post_cases call fault none)
qed

section \<open>One round\<close>

lemma post_moves:
  assumes "post E (\<lambda>_. good k) m k" "\<And>x l. good k l \<Longrightarrow> post E (\<lambda>_. switches l) (n x) l"
  shows "post E (\<lambda>_. moves k) (bind m n) k"
  unfolding post_bind
  by (rule post_mono [OF assms(1)], assumption, rule post_mono [OF assms(2)]) (auto intro: good_then_switches)

lemma quantum_safe: "safe k \<Longrightarrow> post E (\<lambda>_. switches k) (quantum_over t) k"
  by (simp add: quantum_over_def preempt_safe switches_refl post_ret)

lemma switches_ret: "post E (\<lambda>_. switches k) m k \<Longrightarrow> post E (\<lambda>_. switches k) (andthen m (ret x)) k"
  by (rule post_then_ret)

text \<open>The instruction itself, and its trap if it raised one.\<close>

definition first_half :: "'w Env \<Rightarrow> nat \<Rightarrow> ('w Kernel, bool) prog" where
  "first_half env p =
     andthen (upd_process p (\<lambda>pr. pr\<lparr>instructionsExecuted := instructionsExecuted pr + 1\<rparr>))
    (andthen (on_stats incInstructions)
    (andthen (on_cpu step)
    (bind (on_cpu cpu_hasTrap) (\<lambda>trapped.
     if trapped then
       bind (gets (\<lambda>k. trap (cpu k))) (\<lambda>tr.
       andthen (on_cpu cpu_clearTrap)
      (andthen (handle_trap env tr) (ret True)))
     else andthen (on_cpu cpu_advancePC) (ret False)))))"

definition second_half :: "nat \<Rightarrow> nat \<Rightarrow> bool \<Rightarrow> ('w Kernel, nat) prog" where
  "second_half self ticks trapped =
     (if trapped then bind (the_thread self) (\<lambda>t.
        andthen (if t_state t \<noteq> RUNNING then preempt else quantum_over ticks) (ret ticks))
      else andthen (quantum_over ticks) (ret ticks))"

lemma bind_if: "bind (if b then m else n) f = (if b then bind m f else bind n f)"
  by simp

lemma bind_assoc: "bind (bind m f) g = bind m (\<lambda>x. bind (f x) g)"
  by (auto simp: bind_run fun_eq_iff split: sum.splits)

lemma bind_andthen: "bind (andthen m n) g = andthen m (bind n g)" "bind (ret x) g = g x"
  by (auto simp: andthen_def bind_assoc) (simp add: bind_run ret_run fun_eq_iff)

lemma run_instruction_halves:
  "run_instruction env ticks = bind getCurrentThread (\<lambda>self. bind (getProcess self) (\<lambda>p.
     bind (first_half env p) (second_half self (ticks + 1))))"
  by (simp add: run_instruction_def first_half_def second_half_def Let_def bind_andthen bind_assoc bind_if cong: if_cong)

lemma step_near:
  assumes r: "ready k" shows "post machine_fault (\<lambda>_. near k) (on_cpu step) k"
  by (rule near_on_cpu [OF ready_parts(1) [OF r]], rule post_mono [OF sound_machine_step [OF ready_cpu ready_parts(2)]])
    (use r in \<open>auto simp: sound_step_def drift_def\<close>)

lemma clear_near: "safe k \<Longrightarrow> post E (\<lambda>_. near k) (on_cpu cpu_clearTrap) k"
  by (rule near_on_cpu) (simp_all add: cpu_clearTrap_def wp drift_plain safe_cpu_ok)

lemma good_ret: "post E (\<lambda>_. good k) m k \<Longrightarrow> post E (\<lambda>_. good k) (andthen m (ret x)) k"
  by (rule post_then_ret)

lemma near_good_ret: "post E (\<lambda>_. near k) m k \<Longrightarrow> post E (\<lambda>_. good k) (andthen m (ret x)) k"
  by (rule good_ret, erule post_mono) (auto intro: near_good)

definition counted :: "nat \<Rightarrow> 'w Kernel \<Rightarrow> 'w Kernel" where
  "counted p k = (put_process p ((processList k ! p)\<lparr>instructionsExecuted := instructionsExecuted (processList k ! p) + 1\<rparr>) k)
     \<lparr>stats := incInstructions (stats k)\<rparr>"

lemma counted_run:
  assumes "p < length (processList k)"
  shows "andthen (upd_process p (\<lambda>pr. pr\<lparr>instructionsExecuted := instructionsExecuted pr + 1\<rparr>)) (andthen (on_stats incInstructions) m) k
    = m (counted p k)"
  using upd_process_run [OF assms, of "\<lambda>pr. pr\<lparr>instructionsExecuted := instructionsExecuted pr + 1\<rparr>"]
  by (simp add: andthen_run on_parts_run counted_def put_process_def)

lemma counted_near:
  assumes r: "ready k" shows "near k (counted (home k) k)" "cpu (counted (home k) k) = cpu k"
proof -
  let ?x = "(processList k ! home k)\<lparr>instructionsExecuted := instructionsExecuted (processList k ! home k) + 1\<rparr>"
  note ok = ready_parts(1) [OF r] and p = ready_current(2) [OF r]
  have n: "near k (put_process (home k) ?x k)"
    using near_process [OF ok p, of ?x] process_is_ok [OF ok p] by (simp add: process_ok_def)
  then have "near (put_process (home k) ?x k) (counted (home k) k)"
    using near_stats [OF near_safe [OF n], of "incInstructions (stats k)"] by (simp add: counted_def)
  then show "near k (counted (home k) k)"
    using near_trans [OF n] by simp
  show "cpu (counted (home k) k) = cpu k"
    by (simp add: counted_def put_process_def)
qed

text \<open>The kernel after the instruction and after the trap is taken off the machine.\<close>

lemma stepped:
  assumes r: "ready k" and s: "step (cpu k) = Inr ((), c)"
  shows "near k (k\<lparr>cpu := c\<rparr>)" "near k (k\<lparr>cpu := c\<lparr>trap := no_trap\<rparr>\<rparr>)"
    "on_cpu step k = Inr ((), k\<lparr>cpu := c\<rparr>)"
    "bind (on_cpu cpu_hasTrap) f (k\<lparr>cpu := c\<rparr>) = f (trap_type (trap c) \<noteq> NoTrap) (k\<lparr>cpu := c\<rparr>)"
    "bind (gets (\<lambda>k. trap (cpu k))) (\<lambda>tr. andthen (on_cpu cpu_clearTrap) (h tr)) (k\<lparr>cpu := c\<rparr>) =
       h (trap c) (k\<lparr>cpu := c\<lparr>trap := no_trap\<rparr>\<rparr>)"
proof -
  show o: "on_cpu step k = Inr ((), k\<lparr>cpu := c\<rparr>)"
    using s by (simp add: on_cpu_run)
  then show n: "near k (k\<lparr>cpu := c\<rparr>)"
    using step_near [OF r] by (simp add: post_def)
  have cl: "on_cpu cpu_clearTrap (k\<lparr>cpu := c\<rparr>) = Inr ((), k\<lparr>cpu := c\<lparr>trap := no_trap\<rparr>\<rparr>)"
    using trap_cleared(1) [of "k\<lparr>cpu := c\<rparr>"] by simp
  then show "near k (k\<lparr>cpu := c\<lparr>trap := no_trap\<rparr>\<rparr>)"
    using clear_near [OF near_safe [OF n]] near_trans [OF n] by (simp add: post_def)
  show "bind (on_cpu cpu_hasTrap) f (k\<lparr>cpu := c\<rparr>) = f (trap_type (trap c) \<noteq> NoTrap) (k\<lparr>cpu := c\<rparr>)"
    by (simp add: bind_run on_cpu_run hasTrap_run)
  show "bind (gets (\<lambda>k. trap (cpu k))) (\<lambda>tr. andthen (on_cpu cpu_clearTrap) (h tr)) (k\<lparr>cpu := c\<rparr>) =
       h (trap c) (k\<lparr>cpu := c\<lparr>trap := no_trap\<rparr>\<rparr>)"
    using cl by (simp add: bind_run gets_run andthen_run)
qed

lemma first_half_good:
  assumes r: "ready k" and env: "env_ok env"
  shows "post (round_fault env k) (\<lambda>_. good k) (first_half env (home k)) k"
proof -
  let ?l = "counted (home k) k"
  let ?trap = "\<lambda>trapped. if trapped then bind (gets (\<lambda>k. trap (cpu k))) (\<lambda>tr.
       andthen (on_cpu cpu_clearTrap) (andthen (handle_trap env tr) (ret True)))
     else andthen (on_cpu cpu_advancePC) (ret False)"
  note n = counted_near [OF r]
  have l: "ready ?l"
    by (rule ready_near [OF r n(1)])
  have run: "first_half env (home k) k = andthen (on_cpu step) (bind (on_cpu cpu_hasTrap) ?trap) ?l"
    unfolding first_half_def by (rule counted_run [OF ready_current(2) [OF r]])
  show ?thesis
  proof (cases "step (cpu ?l)")
    case (Inl e)
    then show ?thesis
      using run n(2) by (simp add: post_def andthen_run on_cpu_run round_fault_def)
  next
    case (Inr y)
    then obtain c where c: "step (cpu ?l) = Inr ((), c)"
      by (cases y) simp
    note s = stepped [OF l c]
    have after: "first_half env (home k) k = ?trap (trap_type (trap c) \<noteq> NoTrap) (?l\<lparr>cpu := c\<rparr>)"
      using run s(3) s(4) [of ?trap] by (simp add: andthen_run)
    show ?thesis
    proof (cases "trap_type (trap c) = NoTrap")
      case True
      have "post (round_fault env k) (\<lambda>_. good (?l\<lparr>cpu := c\<rparr>)) (andthen (on_cpu cpu_advancePC) (ret False)) (?l\<lparr>cpu := c\<rparr>)"
        by (rule near_good_ret [OF advance_near [OF near_safe [OF s(1)]]])
      then have "post (round_fault env k) (\<lambda>_. good k) (andthen (on_cpu cpu_advancePC) (ret False)) (?l\<lparr>cpu := c\<rparr>)"
        by (rule post_mono) (use near_then_good [OF near_trans [OF n(1) s(1)]] in auto)
      then show ?thesis
        using after True by (simp add: post_def)
    next
      case False
      let ?n = "?l\<lparr>cpu := c\<lparr>trap := no_trap\<rparr>\<rparr>"
      note kn = near_trans [OF n(1) s(2)]
      have "post (round_fault env k) (\<lambda>_. good k) (handle_trap env (trap c)) ?n"
      proof (rule post_mono [OF handle_trap_good [OF ready_near [OF r kn] env]])
        fix e assume e: "trap_type (trap c) = SyscallTrap \<and> call_fault env ?n (context_of (trap_value (trap c)) (cpu ?n)) e \<or>
          only_swap_full e \<or> stale_panic e \<and> \<not> fine ?n"
        have "call_stop env c e \<or> stale_panic e \<and> \<not> fine ?n"
          if "trap_type (trap c) = SyscallTrap" "call_fault env ?n (context_of (trap_value (trap c)) c) e"
          using that unfolding call_fault_def call_stop_def Let_def stale_panic_def by auto
        then show "round_fault env k e"
          using e c n(2) near_fine [OF kn] unfolding round_fault_def by auto
      qed (use near_then_good [OF kn] in blast)
      then have "post (round_fault env k) (\<lambda>_. good k) (andthen (handle_trap env (trap c)) (ret True)) ?n"
        by (rule post_then_ret)
      then show ?thesis
        using after False s(5) [of "\<lambda>tr. andthen (handle_trap env tr) (ret True)"] by (simp add: post_def)
    qed
  qed
qed

lemma run_instruction_moves:
  assumes r: "ready k" and env: "env_ok env"
  shows "post (round_fault env k) (\<lambda>_. moves k) (run_instruction env ticks) k"
proof -
  note c = ready_current [OF r]
  have "post (round_fault env k) (\<lambda>_. switches l) (second_half (runner k) (ticks + 1) b) l" if l: "good k l" for b l
  proof -
    have s: "safe l" "runner k < length (allThreads l)"
      using l onward_threads(1) [of k l] c(1) by (auto simp: good_def)
    have "the_thread (runner k) l = Inr (allThreads l ! runner k, l)"
      using s(2) by (simp add: the_thread_def)
    then show ?thesis
      by (simp add: second_half_def bind_known switches_ret [OF preempt_safe [OF s(1)]] switches_ret [OF quantum_safe [OF s(1)]])
  qed
  from post_moves [OF first_half_good [OF assms] this]
  show ?thesis
    by (simp add: run_instruction_halves bind_known c(3,4))
qed

section \<open>The loop\<close>

lemma no_running_run:
  assumes "safe k"
  shows "\<exists>b. no_running_thread k = Inr (b, k) \<and> (\<not> b \<longrightarrow> currentThreadIndex k \<noteq> -1)"
proof (cases "currentThreadIndex k = -1")
  case True
  then show ?thesis
    by (intro exI [of _ True]) (simp add: no_running_thread_def bind_run gets_run ret_run)
next
  case False
  note s = tasks_parts(1) [OF safe_parts(1) [OF assms]]
  have "getCurrentThread k = Inr (activeThreads k ! nat (currentThreadIndex k), k)"
    using current_process_run(2) [OF s False] .
  moreover obtain i where "currentThreadIndex k = int i" "i < length (activeThreads k)"
    using sched_ok_at_current [OF s False] by blast
  then have "activeThreads k ! nat (currentThreadIndex k) < length (allThreads k)"
    using sched_ok_at [OF s] by simp
  ultimately show ?thesis
    using False by (simp add: no_running_thread_def bind_run gets_run the_thread_def ret_run)
qed

theorem turn_moves:
  assumes ok: "safe k" "vmEnabled (mmu (cpu k))" and env: "env_ok env"
  shows "post (round_fault env k) (\<lambda>_. moves k) (turn env ticks) k"
proof -
  have fin: "checkAllTerminated l = Inr (\<forall>i \<in> set (activeThreads l). t_state (allThreads l ! i) = TERMINATED, l)" if "safe l" for l :: "'a Kernel"
    using checkAllTerminated_eq [OF tasks_parts(1) [OF safe_parts(1) [OF that]]] .
  obtain b where b: "no_running_thread k = Inr (b, k)" "\<not> b \<longrightarrow> currentThreadIndex k \<noteq> -1"
    using no_running_run [OF ok(1)] by blast
  let ?idle = "bind checkAllTerminated (\<lambda>finished. if finished then ret (False, ticks)
         else bind no_running_thread (\<lambda>idle. ret (\<not> idle, ticks)))"
  have idle: "post E (\<lambda>_. switches l) ?idle l" if l: "safe l" for l :: "'a Kernel" and E
    using no_running_run [OF l] switches_refl [OF l] by (auto simp: bind_known fin [OF l] post_ret)
  have go: "post (round_fault env k) (\<lambda>_. moves k) (andthen preempt ?idle) k"
    unfolding post_andthen
  proof (rule post_mono [OF preempt_safe [OF ok(1)]], assumption)
    fix l assume l: "switches k l"
    then have "post (round_fault env k) (\<lambda>_. switches l) ?idle l"
      by (intro idle) (simp add: switches_def)
    then show "post (round_fault env k) (\<lambda>_. moves k) ?idle l"
      by (rule post_mono) (use l in \<open>auto simp: switches_def moves_def\<close>)
  qed
  have "post (round_fault env k) (\<lambda>_. moves k) (bind (run_instruction env ticks) (\<lambda>t. ret (True, t))) k" if "\<not> b"
  proof -
    have "ready k"
      using ok b(2) that by (simp add: ready_def)
    from run_instruction_moves [OF this env, of ticks] show ?thesis
      by (auto simp: post_def bind_run ret_run split: sum.splits)
  qed
  then show ?thesis
    using go moves_refl [OF ok(1)] unfolding turn_def by (simp add: bind_known fin [OF ok(1)] b(1) post_ret)
qed

text \<open>Paging is switched on with the table of no process.\<close>

definition paged :: "'w Kernel \<Rightarrow> 'w Kernel" where
  "paged k = with_cpu ((cpu k)\<lparr>mmu := (mmu (cpu k))\<lparr>vmEnabled := True\<rparr>\<rparr>) k"

lemma enable_run: "on_cpu (cpu_enableVM True) k = Inr ((), paged k)"
  by (simp add: on_cpu_run cpu_enableVM_def MMU_enableVM_def zoom_run modify_run paged_def with_cpu_def)

lemma paged_safe:
  assumes ok: "safe k"
  shows "safe (paged k)" "vmEnabled (mmu (cpu (paged k)))" "fine k \<Longrightarrow> fine (paged k)" "processList (paged k) = processList k"
proof -
  let ?k = "paged k"
  note s = tasks_parts [OF safe_parts(1) [OF ok]]
  have e: "disk_bytes ?k = disk_bytes k" "waiters ?k = waiters k" "at ?k = at k" "page_table ?k = page_table k" "k_mem ?k = k_mem k"
    "calm ?k = calm k" "fs_ok ?k = fs_ok k" "swap_ok ?k = swap_ok k" "stored_page ?k = stored_page k"
    by (simp_all add: paged_def with_cpu_def disk_bytes_def waiters_def at_def page_table_def k_mem_def calm_def fun_eq_iff
        fs_ok_def swap_ok_def disk_ok_def stored_page_def block_def)
  have f: "pmm ?k = pmm k" "prp ?k = prp k" "processList ?k = processList k" "allThreads ?k = allThreads k"
    "activeThreads ?k = activeThreads k" "currentThreadIndex ?k = currentThreadIndex k" "swapM ?k = swapM k" "disk ?k = disk k"
    by (simp_all add: paged_def with_cpu_def)
  have "tasks_ok ?k"
    using s unfolding tasks_ok_def sched_ok_def one_running_def table_in_force_def e f by (simp add: paged_def with_cpu_def)
  then show "safe ?k"
    using ok unfolding safe_def memory_ok_def store_ok_def e f by simp
  show "vmEnabled (mmu (cpu ?k))"
    by (simp add: paged_def with_cpu_def)
  show "fine ?k" if "fine k"
    using that unfolding fine_def vm_inv_def e f by simp
  show "processList ?k = processList k"
    by (rule f(3))
qed

text \<open>The head of the loop: what \<^verbatim>\<open>start\<close> does before it.\<close>

definition set_off :: "('w Kernel, unit) prog" where
  "set_off = andthen (on_cpu (cpu_enableVM True)) preempt"

lemma set_off_safe:
  assumes "safe k"
  shows "post E (\<lambda>_ l. safe l \<and> vmEnabled (mmu (cpu l)) \<and> (fine k \<longrightarrow> fine l)) set_off k"
proof -
  note p = paged_safe [OF assms]
  have "post E (\<lambda>_ l. safe l \<and> vmEnabled (mmu (cpu l)) \<and> (fine k \<longrightarrow> fine l)) preempt (paged k)"
    by (rule post_mono [OF preempt_safe [OF p(1)]]) (use p in \<open>auto simp: switches_def\<close>)
  then show ?thesis
    by (simp add: set_off_def post_andthen post_def [of _ _ "on_cpu _"] enable_run)
qed

section \<open>From the start of the simulator\<close>

lemma fresh_safe:
  assumes f: "fresh_memory k" and t: "tasks_ok k" "calm k" and v: "vfs k = StubFileSystem_new" and vm: "vm_ok k"
  shows "safe k"
proof -
  have "frames_safe (length (processList k)) (pmm k) (prp k)"
  proof -
    have "unat (MEMORY_SIZE div KERNEL_PAGE_SIZE) = 16"
      by (simp add: MEMORY_SIZE_def KERNEL_PAGE_SIZE_def)
    then have "freeFrames PMM_init = map page_address [0..<16]" "frameTable PMM_init = replicate 16 \<lparr>ownerPid = 0, fi_vpn = 0, allocated = False\<rparr>"
      by (simp_all add: PMM_init_def MEMORY_BASE_def page_address_def)
    then show ?thesis
      using f by (auto simp: frames_safe_def fresh_memory_def fifo.covers_def)
  qed
  moreover have "fs_ok k"
    using f v by (simp add: fs_ok_def fresh_memory_def StubFileSystem_new_def disk_ok_def InMemoryDisk_new_def NUM_DISK_BLOCKS_def)
  moreover have "mem_ok (k_mem k)" "swap_ok k"
    using vm_inv_parts [OF vm] by simp_all
  ultimately show ?thesis
    using f t by (simp add: safe_def memory_ok_def store_ok_def frames_low_def fresh_memory_def)
qed

lemma booted_safe: "safe (booted st w)" "fine (booted st w)"
proof -
  let ?k = "booted st w"
  have f: "fresh_memory ?k"
    by (simp add: fresh_memory_def booted_def reset_machine_def MMU_new_def k_mem_def page_table_def fun_eq_iff)
  have b: "vm_ok ?k" "sched_ok ?k" "one_running ?k" "table_in_force ?k" "cpu_ok (cpu ?k)"
    using booted_ok [of st w] by simp_all
  have "process_ok 0 d (PCB_new i '''')" for d i
    by (auto simp: process_ok_def PCB_new_def handle_ok_def)
  then have "tasks_ok ?k"
    using b by (auto simp: tasks_ok_def booted_def manager_new MAX_PROCESS_def waiters_def ProcessManager_new_def)
  moreover have "calm ?k"
    using b(5) by (simp add: calm_def cpu_ok_def booted_def reset_machine_def MMU_new_def)
  ultimately show "safe ?k"
    using fresh_safe [OF f] b(1) by (simp add: booted_def)
  show "fine ?k"
    using f b(1) by (simp add: fine_def fresh_memory_def) (simp add: booted_def)
qed

lemma two_processes_safe: "safe two_processes" "fine two_processes"
proof -
  let ?k = two_processes
  have f: "fresh_memory ?k"
    by (simp add: fresh_memory_def two_processes_def booted_def reset_machine_def MMU_new_def k_mem_def page_table_def fun_eq_iff)
  have new: "process_ok 3 d (PCB_new i n)" "process_ok 3 d (demo_process 0 [0, 1] a)" "process_ok 3 d (demo_process 1 [2] a)" for d i a n
    by (auto simp: process_ok_def demo_process_def PCB_new_def handle_ok_def Mutex_new_def)
  have "rf_ok RegFile_new"
    by (rule rf_ok_new)
  then have th: "\<forall>t \<in> set (allThreads ?k). thread_ok 3 t"
    by (simp add: two_processes_def thread_ok_def thread_at_def)
  have ps: "process_ok 3 d pr" if "pr \<in> set (processList ?k)" for pr d
    using that new by (auto simp: two_processes_def ProcessManager_new_def dest!: set_update_subset_insert [THEN subsetD])
  have "length (allThreads ?k) = 3" "waiters ?k = (\<lambda>_. [])"
    by (simp_all add: two_processes_def waiters_def booted_def fun_eq_iff)
  then have "tasks_ok ?k"
    using two_processes_sched two_processes_length th ps by (simp add: tasks_ok_def MAX_PROCESS_def)
  then show "safe ?k"
    using fresh_safe [OF f _ two_processes_calm(1)] two_processes_vm by (simp add: two_processes_def booted_def)
  have "active (processList ?k ! parent t)" if "t \<in> set (allThreads ?k)" for t
    using that by (auto simp: two_processes_def thread_at_def demo_process_def manager_new)
  then show "fine ?k"
    using two_processes_vm two_processes_empty by (simp add: fine_def fun_eq_iff)
qed

text \<open>The kernels \<^verbatim>\<open>main\<close> can hand to \<^verbatim>\<open>start\<close>: booted, then any applications loaded.\<close>

inductive installed :: "'w Env \<Rightarrow> 'w Kernel \<Rightarrow> bool" for env where
  boot: "RV32UMOS_init st w = Inr k \<Longrightarrow> installed env k"
| load: "installed env k \<Longrightarrow> loadApplication env f k = Inr (b, k') \<Longrightarrow> installed env k'"

lemma installed_fine:
  assumes "installed env k" shows "safe k \<and> fine k"
  using assms
proof induction
  case (boot st w k)
  then show ?case
    using booted_safe [of st w] by (simp add: init_eq)
next
  case (load k f b k')
  have "post (\<lambda>_. True) (\<lambda>_. grown k) (loadApplication env f) k"
    using loadELF_safe [OF conjunct1 [OF load.IH], of env f]
    by (auto simp: loadApplication_def createProcess_def post_def bind_run ret_run split: sum.splits)
  then show ?case
    using load by (simp add: post_def grown_def)
qed

text \<open>The applications on the command line are loaded without a fault, but for a cut file.\<close>

lemma load_files_installed:
  assumes "installed env k"
  shows "post (\<lambda>e. e = UndefinedBehaviour \<and> (\<exists>f \<in> set fs. cut_elf env f))
    (\<lambda>r l. installed env l \<and> (\<forall>f. r = Some f \<longrightarrow> f \<in> set fs)) (load_files env fs) k"
  using assms
proof (induction fs arbitrary: k)
  case Nil
  then show ?case
    by (simp add: wp)
next
  case (Cons f fs)
  note safe = loadELF_safe [OF conjunct1 [OF installed_fine [OF Cons.prems]], of env f]
  show ?case
  proof (cases "loadApplication env f k")
    case (Inl e)
    then have "loadELF env f k = Inl e"
      by (auto simp: loadApplication_def createProcess_def bind_run ret_run split: sum.splits)
    then show ?thesis
      using Inl safe by (auto simp: post_def bind_run)
  next
    case (Inr y)
    then obtain b l where l: "loadApplication env f k = Inr (b, l)"
      by (cases y) simp
    then have "installed env l"
      using installed.load [OF Cons.prems] by blast
    then show ?thesis
      using Cons.IH [of l] by (auto simp: post_def bind_run l ret_run split: sum.splits)
  qed
qed

text \<open>The kernels at the head of the main loop, and those no process has left yet.\<close>

inductive running :: "'w Env \<Rightarrow> 'w Kernel \<Rightarrow> bool" for env where
  set_off: "installed env k \<Longrightarrow> set_off k = Inr (x, k') \<Longrightarrow> running env k'"
| round: "running env k \<Longrightarrow> turn env t k = Inr (y, k') \<Longrightarrow> running env k'"

inductive undisturbed :: "'w Env \<Rightarrow> 'w Kernel \<Rightarrow> bool" for env where
  set_off: "installed env k \<Longrightarrow> set_off k = Inr (x, k') \<Longrightarrow> undisturbed env k'"
| round: "undisturbed env k \<Longrightarrow> turn env t k = Inr (y, k') \<Longrightarrow> \<not> lost k k' \<Longrightarrow> undisturbed env k'"

lemma running_safe:
  assumes "running env k" "env_ok env" shows "safe k \<and> vmEnabled (mmu (cpu k))"
  using assms(1)
proof induction
  case (set_off k x k')
  then show ?case
    using set_off_safe [of k "\<lambda>_. True"] installed_fine [of env k] by (simp add: post_def)
next
  case (round k t y k')
  then show ?case
    using turn_moves [of k env t] assms(2) by (simp add: post_def moves_def)
qed

lemma undisturbed_fine:
  assumes "undisturbed env k" "env_ok env" shows "safe k \<and> vmEnabled (mmu (cpu k)) \<and> fine k"
  using assms(1)
proof induction
  case (set_off k x k')
  then show ?case
    using set_off_safe [of k "\<lambda>_. True"] installed_fine [of env k] by (simp add: post_def)
next
  case (round k t y k')
  then show ?case
    using turn_moves [of k env t] assms(2) by (simp add: post_def moves_def)
qed

text \<open>What can end the whole run: a fault of a round at a kernel the run has reached.\<close>

definition end_fault :: "'w Env \<Rightarrow> fault \<Rightarrow> bool" where
  "end_fault env e \<longleftrightarrow> (\<exists>(k :: 'w Kernel) t. running env k \<and> turn env t k = Inl e \<and> round_fault env k e)"

lemma loop_fails_as_listed:
  assumes "env_ok env"
  shows "running env k \<Longrightarrow> post (end_fault env) (\<lambda>_. running env) (loop env fuel ticks) k"
proof (induction fuel arbitrary: k ticks)
  case 0
  then show ?case
    by (simp add: wp)
next
  case (Suc fuel)
  show ?case
  proof (cases "turn env ticks k")
    case (Inl e)
    have "round_fault env k e"
      using turn_moves [of k env ticks] running_safe [OF Suc.prems assms] assms Inl by (simp add: post_def)
    then show ?thesis
      using Inl Suc.prems by (auto simp: post_def bind_run end_fault_def)
  next
    case (Inr y)
    then obtain x l where l: "turn env ticks k = Inr (x, l)"
      by (cases y) simp
    then have "running env l"
      by (rule running.round [OF Suc.prems])
    then show ?thesis
      using l Suc.IH by (cases x) (simp add: post_def bind_run ret_run)
  qed
qed

theorem start_ends:
  assumes i: "installed env k" and env: "env_ok env"
  shows "post (end_fault env) (\<lambda>_. safe) (start env fuel) k"
proof (cases "activeThreads k = []")
  case True
  then show ?thesis
    using installed_fine [OF i] by (simp add: start_def post_bind post_gets wp)
next
  case False
  have "post (\<lambda>_. False) (\<lambda>_ _. True) set_off k"
    using set_off_safe [OF conjunct1 [OF installed_fine [OF i]], of "\<lambda>_. False"] by (auto simp: post_def split: sum.splits)
  then obtain l where l: "set_off k = Inr ((), l)"
    by (auto simp: post_def split: sum.splits)
  then have run: "start env fuel k = loop env fuel 0 l"
    using False by (simp add: start_def bind_run gets_run set_off_def andthen_run enable_run)
  have "post (end_fault env) (\<lambda>_. running env) (loop env fuel 0) l"
    using loop_fails_as_listed [OF env running.set_off [OF i l]] .
  then show ?thesis
    using run running_safe [OF _ env] by (auto simp: post_def split: sum.splits)
qed

end
