(* ===== verification/Run_Properties.thy ===== *)
theory Run_Properties
  imports RunSafety Process_Properties
begin

text \<open>
  What holds of whole runs of the simulator, whatever programs the processes execute, from theory
  RunSafety; the runs of the witnesses start from a kernel with one small program loaded.
\<close>

section \<open>A kernel to start\<close>

lemma first_installed:
  assumes "host_file env f = Some bs" "elf_like bs" "headers_inside bs" "executable_at (loadable bs) (le32 bs 24)"
  shows "installed env (launched 0 f bs (booted Stats_new w))"
proof -
  let ?b = "booted Stats_new w"
  have "inactive_slot (processList ?b) = Some 0" "page_table ?b 0 = Map.empty"
    by (simp_all add: inactive_slot_Some booted_def manager_new PCB_new_def page_table_def reset_machine_def MMU_new_def)
  from load_succeeds [OF assms(1-3) this assms(4)] have "loadApplication env f ?b = Inr (True, launched 0 f bs ?b)"
    by (simp add: loadApplication_def createProcess_def bind_run ret_run)
  moreover have "installed env ?b"
    using installed.boot [OF init_eq] .
  ultimately show ?thesis
    by (rule installed.load [rotated])
qed

lemma first_sets_off:
  assumes "installed env k" "activeThreads k = [0]" "currentThreadIndex k = -1" "t_state (allThreads k ! 0) = READY"
  shows "set_off k = Inr ((), switched 0 (paged k))"
proof -
  let ?k = "paged k"
  have "safe k"
    using installed_fine [OF assms(1)] by simp
  then have s: "sched_ok ?k"
    using tasks_parts(1) safe_parts(1) paged_safe(1) by blast
  have k: "activeThreads ?k = [0]" "currentThreadIndex ?k = -1" "at ?k 0 = allThreads k ! 0"
    using assms(2,3) by (simp_all add: paged_def with_cpu_def at_def)
  then have "cyclic_next ?k 1"
    using assms(4) by (auto simp: cyclic_next_def after_def)
  then have "preempt ?k = Inr ((), switched 0 ?k)"
    using preempt_switches [OF s _ _ refl] k by (simp add: after_def)
  then show ?thesis
    by (simp add: set_off_def andthen_run enable_run)
qed

definition tiny_kernel :: "unit Kernel" where
  "tiny_kernel = launched 0 ''tiny'' tiny_elf (booted Stats_new ())"

lemma elf_env_ok: "env_ok elf_env"
  by (auto simp: env_ok_def elf_env_def demo_env_def)


lemma tiny_installed: "installed elf_env tiny_kernel"
  using tiny_file unfolding tiny_kernel_def by (intro first_installed) (simp_all add: elf_env_def)

definition tiny_running :: "unit Kernel" where
  "tiny_running = switched 0 (paged tiny_kernel)"

lemma tiny_simps:
  "activeThreads tiny_kernel = [0]" "length (allThreads tiny_kernel) = 1" "currentThreadIndex tiny_kernel = -1"
  "t_state (allThreads tiny_kernel ! 0) = READY" "parent (allThreads tiny_kernel ! 0) = 0"
  by (simp_all add: tiny_kernel_def launched_def Let_def booted_def)

lemma tiny_sets_off: "set_off tiny_kernel = Inr ((), tiny_running)"
  using first_sets_off [OF tiny_installed] by (simp add: tiny_simps tiny_running_def)

lemma tiny_undisturbed: "undisturbed elf_env tiny_running" "running elf_env tiny_running" "currentThreadIndex tiny_running = 0"
  using undisturbed.set_off [OF tiny_installed tiny_sets_off] running.set_off [OF tiny_installed tiny_sets_off]
  by (simp_all add: tiny_running_def)

section \<open>Runs\<close>



text \<open>C5: As long as no process has ended, whatever the processes did, the bookkeeping of memory holds at the
  head of the main loop, no two threads run, the table in force is that of the current thread's process and
  every thread belongs to a process in use; and a further round fails only because the instruction fails on
  the processor, the swap area is full, or the instruction has made a system call that does not exist, that
  stores the exit code of a joined process across the end of a page, or that creates a process from a file
  cut before the end of its program headers.\<close>

theorem undisturbed_runs_keep_order:
  assumes "undisturbed env k" "env_ok env"
  shows "vm_ok k \<and> sched_ok k \<and> one_running k \<and> table_in_force k \<and> (\<forall>t \<in> set (allThreads k). active (processList k ! parent t)) \<and>
    (case turn env ticks k of
      Inl e \<Rightarrow> step (cpu k) = Inl e \<or> e = KernelPanic ''Swap Full!'' \<or> (\<exists>c. step (cpu k) = Inr ((), c) \<and> call_stop env c e)
    | Inr (r, k') \<Rightarrow> safe k' \<and> (lost k k' \<or> vm_ok k'))"
proof -
  have k: "safe k" "vmEnabled (mmu (cpu k))" "fine k"
    using undisturbed_fine [OF assms] by simp_all
  note s = tasks_parts [OF safe_parts(1) [OF k(1)]]
  have "post (round_fault env k) (\<lambda>_. moves k) (turn env ticks) k"
    by (rule turn_moves [OF k(1,2) assms(2)])
  then have "case turn env ticks k of
      Inl e \<Rightarrow> step (cpu k) = Inl e \<or> e = KernelPanic ''Swap Full!'' \<or> (\<exists>c. step (cpu k) = Inr ((), c) \<and> call_stop env c e)
    | Inr (r, k') \<Rightarrow> safe k' \<and> (lost k k' \<or> vm_ok k')"
    using k(3) by (auto simp: post_def round_fault_def moves_def fine_def split: sum.splits)
  then show ?thesis
    using s(1-3) k(3) unfolding fine_def by blast
qed

text \<open>The first instruction of the small program faults on its own page.\<close>

lemma tiny_first_step:
  "step (cpu tiny_running) = Inr ((), page_fault ((cpu tiny_running)\<lparr>trap := no_trap\<rparr>) (pc (cpu tiny_running)))"
proof -
  let ?k = tiny_running
  have k: "safe ?k" "vmEnabled (mmu (cpu ?k))" "fine ?k"
    using undisturbed_fine [OF tiny_undisturbed(1) elf_env_ok] by simp_all
  have "tables (mmu (cpu ?k)) p = Map.empty" for p
    by (simp add: tiny_running_def switched_def Let_def paged_def with_cpu_def tiny_kernel_def launched_def booted_def
        reset_machine_def MMU_new_def)
  then have "fetchable (cpu ?k) = None"
    by (simp add: fetchable_def current_pte_def split: option.split)
  then have "on_cpu step ?k = Inr ((), ?k\<lparr>cpu := page_fault ((cpu ?k)\<lparr>trap := no_trap\<rparr>) (pc (cpu ?k))\<rparr>)"
    using k by (intro first_fetch memory_parts(1) [OF safe_parts(2) [OF k(1)]]) (simp_all add: fine_def)
  then show ?thesis
    by (auto simp: on_cpu_run split: sum.splits) (metis Kernel.select_convs(1) Kernel.surjective Kernel.update_convs(1))
qed

theorem undisturbed_runs_keep_order_witness:
  "vm_ok tiny_running \<and> (case turn elf_env 0 tiny_running of
      Inl e \<Rightarrow> e = KernelPanic ''Swap Full!''
    | Inr (r, k') \<Rightarrow> safe k' \<and> (lost tiny_running k' \<or> vm_ok k'))"
  using undisturbed_runs_keep_order [OF tiny_undisturbed(1) elf_env_ok, of 0] tiny_first_step
  by (auto simp: call_stop_def page_fault_def split: sum.splits)

text \<open>C6: Isolation in a run: as long as no process has ended, an instruction of the current thread changes
  no page of another process, in the swap area at all and in memory from the fourth byte on, the
  first three being within reach of a store that runs over the end of the frame before.\<close>

theorem runs_isolate_processes:
  assumes "undisturbed env k" "env_ok env"
    and "currentThreadIndex k \<noteq> -1" "current_process k = Inr (p, k)" "on_cpu step k = Inr ((), k')"
  shows "vm_ok k' \<and> (\<forall>q u bs. q \<noteq> p \<longrightarrow> page_data k q u = Some bs \<longrightarrow>
     (\<exists>bs'. page_data k' q u = Some bs' \<and> nearly_same bs bs' \<and> (\<not> resident k q u \<longrightarrow> bs' = bs)))"
proof -
  have k: "safe k" "vmEnabled (mmu (cpu k))" "fine k"
    using undisturbed_fine [OF assms(1,2)] by simp_all
  then have r: "ready k"
    using assms(3) by (simp add: ready_def)
  have "p = home k"
    using assms(4) ready_current(5) [OF r] by simp
  moreover have "at k (nat (currentThreadIndex k)) = allThreads k ! runner k"
    by (simp add: at_def runner_def)
  ultimately have "currentTable (mmu (cpu k)) = Some p"
    using tasks_parts(3) [OF safe_parts(1) [OF k(1)]] assms(3) by (simp add: table_in_force_def home_def)
  moreover have "calm k"
    using memory_parts(1) [OF safe_parts(2) [OF k(1)]] .
  ultimately show ?thesis
    using instruction_keeps [OF _ _ k(2) _ assms(5)] k(3) by (simp add: fine_def)
qed

theorem runs_isolate_processes_witness:
  "\<exists>k'. undisturbed elf_env tiny_running \<and> on_cpu step tiny_running = Inr ((), k') \<and> vm_ok k' \<and>
    trap_type (trap (cpu k')) = PageFaultTrap"
proof -
  let ?k = tiny_running
  have k: "safe ?k" "vmEnabled (mmu (cpu ?k))" "fine ?k"
    using undisturbed_fine [OF tiny_undisturbed(1) elf_env_ok] by simp_all
  have r: "ready ?k"
    using k tiny_undisturbed(3) by (simp add: ready_def)
  have s: "on_cpu step ?k = Inr ((), ?k\<lparr>cpu := page_fault ((cpu ?k)\<lparr>trap := no_trap\<rparr>) (pc (cpu ?k))\<rparr>)"
    using tiny_first_step by (simp add: on_cpu_run)
  show ?thesis
    using runs_isolate_processes [OF tiny_undisturbed(1) elf_env_ok _ ready_current(5) [OF r] s] tiny_undisturbed s
    by (simp add: page_fault_def)
qed

text \<open>C7: Every kernel at the head of the main loop is well formed: the indices of threads, processes and
  the current thread lie inside their lists, threads that wait for a mutex or a process exist, register
  files have 32 registers of which the first is zero, memory keeps its size, page tables map frames of
  memory only, open files lie on the disk.\<close>

theorem running_kernels_are_well_formed:
  assumes "running env k" "env_ok env"
  shows "distinct (activeThreads k) \<and> (\<forall>i \<in> set (activeThreads k). i < length (allThreads k)) \<and>
    -1 \<le> currentThreadIndex k \<and> currentThreadIndex k < int (length (activeThreads k)) \<and> length (processList k) = MAX_PROCESS \<and>
    (\<forall>t \<in> set (allThreads k). parent t < MAX_PROCESS \<and> length (t_regs t) = 32 \<and> t_regs t ! 0 = 0) \<and>
    (\<forall>pr \<in> set (processList k). (\<forall>i \<in> set (threads pr). i < length (allThreads k)) \<and>
       (\<forall>m \<in> set (mutexList pr). \<forall>i \<in> set (waitQueue m). i < length (allThreads k)) \<and>
       (\<forall>f. Some (DiskHandle f) \<in> set (fdTable pr) \<longrightarrow> startBlockIndex f * BLOCK_SIZE + fileSize f \<le> length (data (disk k)))) \<and>
    (\<forall>pid ws. processWaiters k pid = Some ws \<longrightarrow> (\<forall>i \<in> set ws. i < length (allThreads k))) \<and>
    length (regs (cpu k)) = 32 \<and> regs (cpu k) ! 0 = 0 \<and> length (k_mem k) = unat MEMORY_SIZE \<and>
    (\<forall>p v x. page_table k p v = Some x \<and> valid x \<longrightarrow> unat (ppn x) < 16)"
proof -
  have k: "safe k"
    using running_safe [OF assms] by simp
  note t = tasks_parts [OF safe_parts(1) [OF k]] and m = memory_parts [OF safe_parts(2) [OF k]]
  have "\<forall>pid ws. processWaiters k pid = Some ws \<longrightarrow> (\<forall>i \<in> set ws. i < length (allThreads k))"
  proof (intro allI impI ballI)
    fix pid ws i assume "processWaiters k pid = Some ws" "i \<in> set ws"
    then show "i < length (allThreads k)"
      using t(7) [of i pid] by (simp add: waiters_def)
  qed
  moreover have "\<forall>pr \<in> set (processList k). (\<forall>i \<in> set (threads pr). i < length (allThreads k)) \<and>
       (\<forall>m \<in> set (mutexList pr). \<forall>i \<in> set (waitQueue m). i < length (allThreads k)) \<and>
       (\<forall>f. Some (DiskHandle f) \<in> set (fdTable pr) \<longrightarrow> startBlockIndex f * BLOCK_SIZE + fileSize f \<le> length (data (disk k)))"
    using t(6) unfolding process_ok_def handle_ok_def disk_bytes_def by blast
  moreover have "\<forall>t \<in> set (allThreads k). parent t < MAX_PROCESS \<and> length (t_regs t) = 32 \<and> t_regs t ! 0 = 0"
    using t(1,4,5) by (simp add: thread_ok_def rf_ok_def sched_ok_def)
  moreover have "\<forall>p v x. page_table k p v = Some x \<and> valid x \<longrightarrow> unat (ppn x) < 16"
    using m(3) by (auto simp: frames_low_def)
  ultimately show ?thesis
    using t(1,4) m(1,2) by (simp add: sched_ok_def calm_def rf_ok_def mem_ok_def)
qed

theorem running_kernels_are_well_formed_witness:
  "activeThreads tiny_running = [0] \<and> 0 < length (allThreads tiny_running) \<and> length (processList tiny_running) = MAX_PROCESS \<and>
    length (regs (cpu tiny_running)) = 32 \<and> regs (cpu tiny_running) ! 0 = 0 \<and> length (k_mem tiny_running) = unat MEMORY_SIZE"
proof -
  have "activeThreads tiny_running = [0]"
    by (simp add: tiny_running_def paged_def with_cpu_def tiny_simps)
  then show ?thesis
    using running_kernels_are_well_formed [OF tiny_undisturbed(2) elf_env_ok] by auto
qed

text \<open>C8: A system call of a running kernel is defined whatever its number and arguments are, with four
  exceptions: a number that is not one of the fifteen stops the kernel, an exit whose process has already
  ended does, the write of an exit code through a pointer less than four bytes before the end of a page is
  undefined, and so is the creation of a process from a file with an ELF header that is cut before the end
  of the program headers it announces.  Every other call returns in a safe kernel.\<close>

theorem system_calls_are_defined:
  assumes "running env k" "env_ok env" "currentThreadIndex k \<noteq> -1"
  shows "case dispatch_syscall env ctx k of
      Inl e \<Rightarrow> ctx_id ctx = SYS_EXIT \<and> e = KernelPanic ''KERNEL PANIC: Failed to terminate process '' \<and> \<not> fine k \<or>
        ctx_id ctx = SYS_JOIN_PROCESS \<and> e = UndefinedBehaviour \<and> 4096 < page_offset (arg1 ctx) + 4 \<or>
        ctx_id ctx = SYS_CREATE_PROCESS \<and> e = UndefinedBehaviour \<and> cut_elf env (user_name (cpu k) (arg0 ctx)) \<or>
        \<not> ctx_id ctx < 15 \<and> e = KernelPanic ''Unimplemented syscall id: ''
    | Inr (r, k') \<Rightarrow> safe k' \<and> currentThreadIndex k' = currentThreadIndex k"
proof -
  have "ready k"
    using running_safe [OF assms(1,2)] assms(3) by (simp add: ready_def)
  then have "post (call_fault env k ctx) (\<lambda>r l. good k l \<and> (error r \<longrightarrow> near k l)) (dispatch_syscall env ctx) k"
    using dispatch_good assms(2) by blast
  then show ?thesis
    by (auto simp: post_def call_fault_def crosses_def good_def onward_def split: sum.splits)
qed

definition open_context :: SyscallContext where
  "open_context = \<lparr>ctx_id = SYS_OPEN, arg0 = 4096, arg1 = 0, arg2 = 0, arg3 = 0, arg4 = 0, arg5 = 0\<rparr>"

theorem system_calls_are_defined_witness:
  "\<exists>r k'. dispatch_syscall elf_env open_context tiny_running = Inr (r, k') \<and> safe k'"
proof -
  have "currentThreadIndex tiny_running \<noteq> -1"
    by (simp add: tiny_undisturbed(3))
  then show ?thesis
    using system_calls_are_defined [OF tiny_undisturbed(2) elf_env_ok, of open_context]
    by (auto simp: open_context_def split: sum.splits)
qed

end
