(* ===== verification/CounterTest.thy ===== *)
theory CounterTest
  imports Locks
begin

text \<open>
  The test program \<^verbatim>\<open>user/programs/test10.c\<close>: workers that add to a shared counter under a mutex.
  The threads of a process run interleaved in any way, each access to the counter being a step of
  its own; a lock or unlock call is one step, the operation of \<^verbatim>\<open>sync/Mutex.cpp\<close> on the kernel, and
  a thread runs only while the kernel has it ready or running.
\<close>

section \<open>A worker\<close>

text \<open>
  The points of \<^verbatim>\<open>worker\<close> between its steps: before the lock call, before the load of the counter,
  before the store, before the unlock call, before \<^verbatim>\<open>thread_exit\<close>, and behind it; \<^verbatim>\<open>Killed\<close> when a
  lock wrapper of the library exits.  The delay loop works on a local variable only.
\<close>

datatype point = AtLock | AtLoad | AtStore Word | AtUnlock | AtExit | Gone | Killed

record worker =
  point :: point
  turns :: nat

definition worker_new :: "nat \<Rightarrow> worker" where
  "worker_new n = \<lparr>point = (if 0 < n then AtLock else AtExit), turns = 0\<rparr>"

record 's test =
  sys :: 's
  counter :: Word
  workers :: "worker list"

definition put_worker :: "nat \<Rightarrow> worker \<Rightarrow> 's test \<Rightarrow> 's test" where
  "put_worker w x c = c\<lparr>workers := (workers c)[w := x]\<rparr>"

text \<open>One step of worker \<^verbatim>\<open>w\<close>, thread \<^verbatim>\<open>t\<close> of the system, in a loop of \<^verbatim>\<open>n\<close> turns.\<close>

definition worker_step ::
  "('t \<Rightarrow> ('s, bool) prog) \<Rightarrow> ('t \<Rightarrow> ('s, bool) prog) \<Rightarrow> ('t \<Rightarrow> ('s, unit) prog) \<Rightarrow> nat \<Rightarrow> 't \<Rightarrow> nat \<Rightarrow>
    's test \<Rightarrow> fault + 's test" where
  "worker_step acquire release quit n t w c =
     (let x = workers c ! w in
      case point x of
        AtLock \<Rightarrow>
          (case acquire t (sys c) of Inl e \<Rightarrow> Inl e
           | Inr (got, s) \<Rightarrow> Inr (put_worker w (x\<lparr>point := if got then AtLoad else AtLock\<rparr>) (c\<lparr>sys := s\<rparr>)))
      | AtLoad \<Rightarrow> Inr (put_worker w (x\<lparr>point := AtStore (counter c)\<rparr>) c)
      | AtStore temp \<Rightarrow> Inr (put_worker w (x\<lparr>point := AtUnlock\<rparr>) (c\<lparr>counter := temp + 1\<rparr>))
      | AtUnlock \<Rightarrow>
          (case release t (sys c) of Inl e \<Rightarrow> Inl e
           | Inr (ok, s) \<Rightarrow> Inr (put_worker w
               (if \<not> ok then x\<lparr>point := Killed\<rparr>
                else x\<lparr>point := if Suc (turns x) < n then AtLock else AtExit, turns := Suc (turns x)\<rparr>) (c\<lparr>sys := s\<rparr>)))
      | AtExit \<Rightarrow>
          (case quit t (sys c) of Inl e \<Rightarrow> Inl e
           | Inr (_, s) \<Rightarrow> Inr (put_worker w (x\<lparr>point := Gone\<rparr>) (c\<lparr>sys := s\<rparr>)))
      | _ \<Rightarrow> Inr c)"

definition can_run :: "('s \<Rightarrow> 't \<Rightarrow> bool) \<Rightarrow> 't list \<Rightarrow> nat \<Rightarrow> 's test \<Rightarrow> bool" where
  "can_run awake ts w c \<longleftrightarrow> w < length ts \<and> awake (sys c) (ts ! w) \<and> point (workers c ! w) \<notin> {Gone, Killed}"

definition begins :: "nat \<Rightarrow> 't list \<Rightarrow> 's test \<Rightarrow> bool" where
  "begins n ts c \<longleftrightarrow> workers c = replicate (length ts) (worker_new n) \<and> counter c = 0"

inductive moves ::
  "('t \<Rightarrow> ('s, bool) prog) \<Rightarrow> ('t \<Rightarrow> ('s, bool) prog) \<Rightarrow> ('t \<Rightarrow> ('s, unit) prog) \<Rightarrow> ('s \<Rightarrow> 't \<Rightarrow> bool) \<Rightarrow> nat \<Rightarrow> 't list \<Rightarrow>
    's test \<Rightarrow> 's test \<Rightarrow> bool"
  for acquire release quit awake n ts where
  "can_run awake ts w c \<Longrightarrow> worker_step acquire release quit n (ts ! w) w c = Inr c' \<Longrightarrow>
     moves acquire release quit awake n ts c c'"

section \<open>Between the steps\<close>

text \<open>A worker between its lock and its unlock call; the increments it has made; the steps behind it.\<close>

definition inside :: "point \<Rightarrow> bool" where
  "inside l \<longleftrightarrow> l = AtLoad \<or> (\<exists>v. l = AtStore v) \<or> l = AtUnlock"

definition made :: "worker \<Rightarrow> nat" where
  "made x = turns x + (if point x = AtUnlock then 1 else 0)"

definition behind :: "nat \<Rightarrow> worker \<Rightarrow> nat" where
  "behind n x = 4 * turns x + (case point x of AtLoad \<Rightarrow> 1 | AtStore _ \<Rightarrow> 2 | AtUnlock \<Rightarrow> 3 | Gone \<Rightarrow> 1 | _ \<Rightarrow> 0)"

definition worker_ok :: "nat \<Rightarrow> Word \<Rightarrow> worker \<Rightarrow> bool" where
  "worker_ok n v x \<longleftrightarrow>
     (case point x of AtExit \<Rightarrow> turns x = n | Gone \<Rightarrow> turns x = n | Killed \<Rightarrow> False
      | AtStore u \<Rightarrow> turns x < n \<and> u = v | _ \<Rightarrow> turns x < n)"

lemma behind_bound: "worker_ok n v x \<Longrightarrow> behind n x \<le> 4 * n + 1"
  by (auto simp: worker_ok_def behind_def split: point.splits)

lemma sum_one_changed:
  fixes f g :: "nat \<Rightarrow> nat"
  assumes "w < n" "g w = f w + d" "\<And>i. i \<noteq> w \<Longrightarrow> g i = f i"
  shows "(\<Sum>i < n. g i) = (\<Sum>i < n. f i) + d"
proof -
  have "(\<Sum>i < n. g i) = g w + (\<Sum>i \<in> {..<n} - {w}. g i)" "(\<Sum>i < n. f i) = f w + (\<Sum>i \<in> {..<n} - {w}. f i)"
    using assms(1) by (auto intro: sum.remove)
  moreover have "(\<Sum>i \<in> {..<n} - {w}. g i) = (\<Sum>i \<in> {..<n} - {w}. f i)"
    by (rule sum.cong) (use assms(3) in auto)
  ultimately show ?thesis
    using assms(2) by simp
qed

section \<open>A lock used by threads\<close>

text \<open>What a client adds to the contract of a lock: who sleeps and who wakes, and that threads end.\<close>

locale thread_lock = lock acquire release holder waiting awake known lok
  for acquire :: "'t \<Rightarrow> ('s, bool) prog" and release :: "'t \<Rightarrow> ('s, bool) prog" and holder :: "'s \<Rightarrow> 't option"
    and waiting :: "'s \<Rightarrow> 't set" and awake :: "'s \<Rightarrow> 't \<Rightarrow> bool" and known :: "'s \<Rightarrow> 't set" and lok :: "'s \<Rightarrow> bool" +
  fixes quit :: "'t \<Rightarrow> ('s, unit) prog"
  assumes grant_awake: "lok s \<Longrightarrow> t \<in> known s \<Longrightarrow> holder s = None \<Longrightarrow> acquire t s = Inr (b, s') \<Longrightarrow> awake s' u = awake s u"
    and refuse_awake: "lok s \<Longrightarrow> t \<in> known s \<Longrightarrow> holder s \<noteq> None \<Longrightarrow> acquire t s = Inr (b, s') \<Longrightarrow> u \<noteq> t \<Longrightarrow> awake s' u = awake s u"
    and release_awake: "lok s \<Longrightarrow> holder s = Some t \<Longrightarrow> release t s = Inr (b, s') \<Longrightarrow> u \<in> known s \<Longrightarrow> awake s u \<Longrightarrow> awake s' u"
    and quit_ok: "lok s \<Longrightarrow> t \<in> known s \<Longrightarrow> \<exists>s'. quit t s = Inr ((), s') \<and> lok s' \<and> known s' = known s \<and> holder s' = holder s \<and>
      waiting s' = waiting s \<and> (\<forall>u. u \<noteq> t \<longrightarrow> awake s' u = awake s u)"
begin

text \<open>The state of the whole test between two steps.\<close>

definition orderly :: "nat \<Rightarrow> 't list \<Rightarrow> 's test \<Rightarrow> bool" where
  "orderly n ts c \<longleftrightarrow>
     lok (sys c) \<and> distinct ts \<and> set ts \<subseteq> known (sys c) \<and> length (workers c) = length ts \<and>
     (\<forall>w < length ts. worker_ok n (counter c) (workers c ! w)) \<and>
     (\<forall>w < length ts. inside (point (workers c ! w)) \<longleftrightarrow> holder (sys c) = Some (ts ! w)) \<and>
     (\<forall>t. holder (sys c) = Some t \<longrightarrow> t \<in> set ts) \<and>
     (waiting (sys c) \<noteq> {} \<longrightarrow> holder (sys c) \<noteq> None) \<and>
     (\<forall>w < length ts. \<not> awake (sys c) (ts ! w) \<longrightarrow>
        point (workers c ! w) = Gone \<or> point (workers c ! w) = AtLock \<and> ts ! w \<in> waiting (sys c)) \<and>
     counter c = of_nat (\<Sum>w < length ts. made (workers c ! w))"

lemma orderly_parts:
  assumes "orderly n ts c"
  shows "lok (sys c)" "distinct ts" "w < length ts \<Longrightarrow> ts ! w \<in> known (sys c)" "length (workers c) = length ts"
    "w < length ts \<Longrightarrow> worker_ok n (counter c) (workers c ! w)"
    "w < length ts \<Longrightarrow> inside (point (workers c ! w)) \<longleftrightarrow> holder (sys c) = Some (ts ! w)"
    "holder (sys c) = Some t \<Longrightarrow> t \<in> set ts" "waiting (sys c) \<noteq> {} \<Longrightarrow> holder (sys c) \<noteq> None"
    "w < length ts \<Longrightarrow> \<not> awake (sys c) (ts ! w) \<Longrightarrow>
       point (workers c ! w) = Gone \<or> point (workers c ! w) = AtLock \<and> ts ! w \<in> waiting (sys c)"
    "counter c = of_nat (\<Sum>w < length ts. made (workers c ! w))"
  using assms unfolding orderly_def by (blast intro: nth_mem)+

text \<open>What a step does to the number of steps behind and of threads asleep.\<close>

definition asleep :: "'t list \<Rightarrow> 's test \<Rightarrow> nat" where
  "asleep ts c = (\<Sum>w < length ts. if awake (sys c) (ts ! w) then 0 else 1)"

definition progress :: "nat \<Rightarrow> 't list \<Rightarrow> 's test \<Rightarrow> nat" where
  "progress n ts c = (\<Sum>w < length ts. behind n (workers c ! w)) * (length ts + 1) + asleep ts c"

lemma asleep_bound: "asleep ts c \<le> length ts"
  unfolding asleep_def by (rule order_trans [OF sum_mono [where g = "\<lambda>_. 1"]]) auto

lemma progress_bound:
  assumes "orderly n ts c"
  shows "progress n ts c \<le> length ts * (4 * n + 1) * (length ts + 1) + length ts"
proof -
  have "(\<Sum>w < length ts. behind n (workers c ! w)) \<le> (\<Sum>w < length ts. 4 * n + 1)"
    by (rule sum_mono) (use orderly_parts(5) [OF assms] behind_bound in auto)
  then show ?thesis
    unfolding progress_def using asleep_bound [of ts c] by (intro add_mono mult_right_mono) simp_all
qed

lemma progress_step:
  assumes "(\<Sum>w < length ts. behind n (workers c ! w)) < (\<Sum>w < length ts. behind n (workers c' ! w))"
  shows "progress n ts c < progress n ts c'"
proof -
  let ?a = "\<Sum>w < length ts. behind n (workers c ! w)" and ?b = "\<Sum>w < length ts. behind n (workers c' ! w)"
  have "(?a + 1) * (length ts + 1) \<le> ?b * (length ts + 1)"
    using assms by (intro mult_right_mono) simp_all
  then show ?thesis
    unfolding progress_def using asleep_bound [of ts c] by simp
qed

lemma orderly_put:
  assumes ok: "orderly n ts c" and w: "w < length ts" and s: "lok s" "known s = known (sys c)"
    and x: "worker_ok n v x" "v = counter c \<or> inside (point (workers c ! w))"
    and hold: "inside (point x) \<longleftrightarrow> holder s = Some (ts ! w)"
      "\<And>t. t \<noteq> ts ! w \<Longrightarrow> holder s = Some t \<longleftrightarrow> holder (sys c) = Some t"
    and wait: "waiting s \<noteq> {} \<Longrightarrow> holder s \<noteq> None"
      "\<And>u. u < length ts \<Longrightarrow> u \<noteq> w \<Longrightarrow> \<not> awake s (ts ! u) \<Longrightarrow> \<not> awake (sys c) (ts ! u) \<and> (ts ! u \<in> waiting (sys c) \<longrightarrow> ts ! u \<in> waiting s)"
      "\<not> awake s (ts ! w) \<Longrightarrow> point x = Gone \<or> point x = AtLock \<and> ts ! w \<in> waiting s"
    and sum: "v = counter c + of_nat d" "made x = made (workers c ! w) + d"
  shows "orderly n ts (put_worker w x (c\<lparr>sys := s, counter := v\<rparr>))"
proof -
  let ?c = "put_worker w x (c\<lparr>sys := s, counter := v\<rparr>)"
  note o = orderly_parts [OF ok]
  have f: "sys ?c = s" "counter ?c = v" "length (workers ?c) = length ts" "workers ?c ! w = x"
    "\<And>u. u \<noteq> w \<Longrightarrow> workers ?c ! u = workers c ! u"
    using w o(4) by (simp_all add: put_worker_def)
  have apart: "ts ! u \<noteq> ts ! w" if "u < length ts" "u \<noteq> w" for u
    using that w o(2) by (simp add: nth_eq_iff_index_eq)
  have "(\<Sum>u < length ts. made (workers ?c ! u)) = (\<Sum>u < length ts. made (workers c ! u)) + d"
    by (rule sum_one_changed [OF w]) (use f sum(2) in simp_all)
  then have "v = of_nat (\<Sum>u < length ts. made (workers ?c ! u))"
    using o(10) sum(1) by simp
  moreover have "worker_ok n v (workers ?c ! u)" if u: "u < length ts" for u
  proof (cases "u = w")
    case False
    then have "v = counter c \<or> \<not> inside (point (workers c ! u))"
      using x(2) o(6) [OF w] o(6) [OF u] apart [OF u] by auto
    then show ?thesis
      using o(5) [OF u] False f(5) by (auto simp: worker_ok_def inside_def split: point.splits)
  qed (use x(1) f in simp)
  moreover have "inside (point (workers ?c ! u)) \<longleftrightarrow> holder s = Some (ts ! u)" if u: "u < length ts" for u
    using hold o(6) [OF u] f(4,5) apart [OF u] by (cases "u = w") simp_all
  moreover have "t \<in> set ts" if "holder s = Some t" for t
    using that hold(2) [of t] o(7) [of t] w by (cases "t = ts ! w") auto
  moreover have "point (workers ?c ! u) = Gone \<or> point (workers ?c ! u) = AtLock \<and> ts ! u \<in> waiting s"
    if "u < length ts" "\<not> awake s (ts ! u)" for u
    using that wait(2,3) o(9) [of u] f(4,5) by (cases "u = w") auto
  ultimately show ?thesis
    using s o(2,3) wait(1) unfolding orderly_def f by (auto simp: in_set_conv_nth)
qed

text \<open>Each step of a worker that may run succeeds, keeps the order and makes progress.\<close>

lemma behind_step:
  assumes "orderly n ts c" "w < length ts" "behind n x = behind n (workers c ! w) + 1"
  shows "progress n ts c < progress n ts (put_worker w x (c\<lparr>sys := s, counter := v\<rparr>))"
proof (rule progress_step)
  let ?c = "put_worker w x (c\<lparr>sys := s, counter := v\<rparr>)"
  have "(\<Sum>u < length ts. behind n (workers ?c ! u)) = (\<Sum>u < length ts. behind n (workers c ! u)) + 1"
    by (rule sum_one_changed [OF assms(2)]) (use assms orderly_parts(4) [OF assms(1)] in \<open>simp_all add: put_worker_def\<close>)
  then show "(\<Sum>u < length ts. behind n (workers c ! u)) < (\<Sum>u < length ts. behind n (workers ?c ! u))"
    by simp
qed

lemma orderly_step:
  assumes ok: "orderly n ts c" and run: "can_run awake ts w c"
  shows "\<exists>c'. worker_step acquire release quit n (ts ! w) w c = Inr c' \<and> orderly n ts c' \<and> progress n ts c < progress n ts c'"
proof -
  let ?x = "workers c ! w" and ?t = "ts ! w"
  note o = orderly_parts [OF ok]
  have w: "w < length ts" "awake (sys c) ?t" "point ?x \<noteq> Gone" "point ?x \<noteq> Killed"
    using run by (auto simp: can_run_def)
  have k: "lok (sys c)" "?t \<in> known (sys c)"
    using o(1,3) w(1) by simp_all
  have same: "c\<lparr>sys := sys c, counter := counter c\<rparr> = c" "c\<lparr>sys := s, counter := counter c\<rparr> = c\<lparr>sys := s\<rparr>"
    "c\<lparr>sys := sys c, counter := v\<rparr> = c\<lparr>counter := v\<rparr>" for s v
    by simp_all
  have turns: "worker_ok n (counter c) ?x"
    using o(5) w(1) .
  show ?thesis
  proof (cases "point ?x")
    case AtLock
    then have t: "turns ?x < n" "\<not> inside (point ?x)" "holder (sys c) \<noteq> Some ?t"
      using turns o(6) [OF w(1)] by (auto simp: worker_ok_def inside_def)
    show ?thesis
    proof (cases "holder (sys c)")
      case None
      let ?y = "?x\<lparr>point := AtLoad\<rparr>"
      obtain s where s: "acquire ?t (sys c) = Inr (True, s)" "lok s" "known s = known (sys c)" "holder s = Some ?t"
        "waiting s = waiting (sys c)"
        using grant [OF k None] by blast
      have "awake s u = awake (sys c) u" for u
        using grant_awake [OF k None s(1)] .
      then have "orderly n ts (put_worker w ?y (c\<lparr>sys := s, counter := counter c\<rparr>))"
        using s t w(2) o(8) None AtLock
        by (intro orderly_put [OF ok w(1), where d = 0]) (auto simp: worker_ok_def inside_def made_def)
      moreover have "behind n ?y = behind n ?x + 1"
        using AtLock by (simp add: behind_def)
      ultimately show ?thesis
        using behind_step [OF ok w(1), where x = ?y and s = s and v = "counter c"] s(1) AtLock by (simp add: worker_step_def Let_def same)
    next
      case (Some h)
      then have h: "holder (sys c) \<noteq> None"
        by simp
      obtain s where s: "acquire ?t (sys c) = Inr (False, s)" "lok s" "known s = known (sys c)" "holder s = holder (sys c)"
        "waiting s = insert ?t (waiting (sys c))" "\<not> awake s ?t"
        using refuse [OF k h] by blast
      have a: "awake s u = awake (sys c) u" if "u \<noteq> ?t" for u
        using refuse_awake [OF k h s(1) that] .
      have x: "?x\<lparr>point := AtLock\<rparr> = ?x"
        using AtLock by simp
      have apart: "ts ! u \<noteq> ?t" if "u < length ts" "u \<noteq> w" for u
        using that w(1) o(2) by (simp add: nth_eq_iff_index_eq)
      let ?c = "put_worker w ?x (c\<lparr>sys := s, counter := counter c\<rparr>)"
      have "orderly n ts ?c"
        using s t h turns a AtLock apart
        by (intro orderly_put [OF ok w(1), where d = 0]) (auto simp: inside_def)
      moreover have "progress n ts c < progress n ts ?c"
      proof -
        have "asleep ts ?c = asleep ts c + 1"
          unfolding asleep_def
        proof (rule trans, rule sum.cong [OF refl])
          fix u assume "u \<in> {..<length ts}"
          then show "(if awake (sys ?c) (ts ! u) then 0 else 1) = (if u = w then 1 else if awake (sys c) (ts ! u) then 0 else (1 :: nat))"
            using a s(6) apart by (auto simp: put_worker_def)
        next
          show "(\<Sum>u < length ts. if u = w then 1 else if awake (sys c) (ts ! u) then 0 else 1) =
              (\<Sum>u < length ts. if awake (sys c) (ts ! u) then 0 else 1) + (1 :: nat)"
            by (rule sum_one_changed [OF w(1)]) (use w(2) in simp_all)
        qed
        moreover have "workers ?c = workers c"
          by (simp add: put_worker_def)
        ultimately show ?thesis
          by (simp add: progress_def)
      qed
      ultimately show ?thesis
        using s(1) AtLock by (simp add: worker_step_def Let_def same x)
    qed
  next
    case AtLoad
    let ?y = "?x\<lparr>point := AtStore (counter c)\<rparr>"
    have "inside (point ?x)" "turns ?x < n"
      using AtLoad turns by (simp_all add: inside_def worker_ok_def)
    then have "orderly n ts (put_worker w ?y (c\<lparr>sys := sys c, counter := counter c\<rparr>))"
      using AtLoad k o(6) [OF w(1)] o(8) w(2)
      by (intro orderly_put [OF ok w(1), where d = 0]) (auto simp: worker_ok_def inside_def made_def)
    moreover have "behind n ?y = behind n ?x + 1"
      using AtLoad by (simp add: behind_def)
    ultimately show ?thesis
      using behind_step [OF ok w(1), where x = ?y and s = "sys c" and v = "counter c"] AtLoad by (simp add: worker_step_def Let_def same)
  next
    case (AtStore v)
    let ?y = "?x\<lparr>point := AtUnlock\<rparr>"
    have v: "v = counter c" "turns ?x < n" "inside (point ?x)"
      using AtStore turns by (auto simp: inside_def worker_ok_def)
    then have "orderly n ts (put_worker w ?y (c\<lparr>sys := sys c, counter := v + 1\<rparr>))"
      using AtStore k o(6) [OF w(1)] o(8) w(2)
      by (intro orderly_put [OF ok w(1), where d = 1]) (auto simp: worker_ok_def inside_def made_def)
    moreover have "behind n ?y = behind n ?x + 1"
      using AtStore by (simp add: behind_def)
    ultimately show ?thesis
      using behind_step [OF ok w(1), where x = ?y and s = "sys c" and v = "v + 1"] AtStore by (simp add: worker_step_def Let_def same)
  next
    case AtUnlock
    let ?y = "?x\<lparr>point := if Suc (turns ?x) < n then AtLock else AtExit, turns := Suc (turns ?x)\<rparr>"
    have h: "holder (sys c) = Some ?t" "turns ?x < n"
      using AtUnlock turns o(6) [OF w(1)] by (auto simp: inside_def worker_ok_def)
    obtain s where s: "release ?t (sys c) = Inr (True, s)" "lok s" "known s = known (sys c)" "holder s = None" "waiting s = {}"
      "\<forall>u \<in> waiting (sys c). awake s u"
      using release_own [OF k(1) h(1)] by blast
    have a: "awake s u" if "u \<in> known (sys c)" "awake (sys c) u" for u
      using release_awake [OF k(1) h(1) s(1) that] .
    have "\<not> awake (sys c) (ts ! u) \<and> ts ! u \<notin> waiting (sys c)" if "u < length ts" "\<not> awake s (ts ! u)" for u
      using that a [OF o(3)] s(6) by blast
    then have "orderly n ts (put_worker w ?y (c\<lparr>sys := s, counter := counter c\<rparr>))"
      using AtUnlock s h a [OF k(2)] w(2)
      by (intro orderly_put [OF ok w(1), where d = 0]) (auto simp: worker_ok_def inside_def made_def)
    moreover have "behind n ?y = behind n ?x + 1"
      using AtUnlock by (simp add: behind_def)
    ultimately show ?thesis
      using behind_step [OF ok w(1), where x = ?y and s = s and v = "counter c"] s(1) AtUnlock by (simp add: worker_step_def Let_def same)
  next
    case AtExit
    let ?y = "?x\<lparr>point := Gone\<rparr>"
    have h: "\<not> inside (point ?x)" "turns ?x = n"
      using AtExit turns by (auto simp: inside_def worker_ok_def)
    obtain s where s: "quit ?t (sys c) = Inr ((), s)" "lok s" "known s = known (sys c)" "holder s = holder (sys c)"
      "waiting s = waiting (sys c)" "\<And>u. u \<noteq> ?t \<Longrightarrow> awake s u = awake (sys c) u"
      using quit_ok [OF k] by blast
    have apart: "ts ! u \<noteq> ?t" if "u < length ts" "u \<noteq> w" for u
      using that w(1) o(2) by (simp add: nth_eq_iff_index_eq)
    then have "orderly n ts (put_worker w ?y (c\<lparr>sys := s, counter := counter c\<rparr>))"
      using AtExit s h o(6) [OF w(1)] o(8)
      by (intro orderly_put [OF ok w(1), where d = 0]) (auto simp: worker_ok_def inside_def made_def)
    moreover have "behind n ?y = behind n ?x + 1"
      using AtExit by (simp add: behind_def)
    ultimately show ?thesis
      using behind_step [OF ok w(1), where x = ?y and s = s and v = "counter c"] s(1) AtExit by (simp add: worker_step_def Let_def same)
  qed (use w in auto)
qed

text \<open>Nobody can run only when all have left.\<close>

lemma orderly_end:
  assumes ok: "orderly n ts c" and stop: "\<And>w. \<not> can_run awake ts w c"
  shows "w < length ts \<Longrightarrow> point (workers c ! w) = Gone" "counter c = of_nat (length ts * n)"
proof -
  note o = orderly_parts [OF ok]
  have gone: "point (workers c ! w) = Gone" if w: "w < length ts" for w
  proof (rule ccontr)
    assume "point (workers c ! w) \<noteq> Gone"
    moreover have "point (workers c ! w) \<noteq> Killed"
      using o(5) [OF w] by (auto simp: worker_ok_def)
    ultimately have "\<not> awake (sys c) (ts ! w)"
      using stop [of w] w by (simp add: can_run_def)
    then have "holder (sys c) \<noteq> None"
      using o(8) o(9) [OF w] \<open>point (workers c ! w) \<noteq> Gone\<close> by auto
    then obtain v where v: "v < length ts" "holder (sys c) = Some (ts ! v)"
      using o(7) by (metis in_set_conv_nth option.exhaust)
    then have "inside (point (workers c ! v))"
      using o(6) by blast
    then show False
      using stop [of v] v(1) o(9) [of v] by (auto simp: can_run_def inside_def)
  qed
  then show "w < length ts \<Longrightarrow> point (workers c ! w) = Gone"
    by blast
  have "made (workers c ! w) = n" if "w < length ts" for w
    using o(5) [OF that] gone [OF that] by (simp add: worker_ok_def made_def)
  then show "counter c = of_nat (length ts * n)"
    using o(10) by simp
qed

lemma orderly_begin:
  assumes "begins n ts c" "lok (sys c)" "distinct ts" "set ts \<subseteq> known (sys c)" "holder (sys c) = None" "waiting (sys c) = {}"
    and "\<And>t. t \<in> set ts \<Longrightarrow> awake (sys c) t"
  shows "orderly n ts c"
  using assms by (auto simp: orderly_def begins_def worker_new_def worker_ok_def inside_def made_def)

text \<open>However the threads are interleaved, the test ends, and ends with the right count.\<close>

lemma orderly_moves:
  assumes "orderly n ts c" "moves acquire release quit awake n ts c c'"
  shows "orderly n ts c'" "progress n ts c < progress n ts c'"
proof -
  obtain w where "can_run awake ts w c" "worker_step acquire release quit n (ts ! w) w c = Inr c'"
    using assms(2) by (auto elim: moves.cases)
  then show "orderly n ts c'" "progress n ts c < progress n ts c'"
    using orderly_step [OF assms(1), of w] by auto
qed

lemma orderly_runs:
  "orderly n ts c \<Longrightarrow> (moves acquire release quit awake n ts ^^ k) c c' \<Longrightarrow> orderly n ts c' \<and> progress n ts c + k \<le> progress n ts c'"
proof (induction k arbitrary: c')
  case (Suc k)
  then obtain d where d: "(moves acquire release quit awake n ts ^^ k) c d" "moves acquire release quit awake n ts d c'"
    by auto
  then show ?case
    using Suc.IH [OF Suc.prems(1) d(1)] orderly_moves [of n ts d c'] by fastforce
qed simp

lemma test_succeeds:
  assumes "orderly n ts c" "(moves acquire release quit awake n ts ^^ k) c c'"
  shows "k \<le> length ts * (4 * n + 1) * (length ts + 1) + length ts"
    "can_run awake ts w c' \<Longrightarrow> \<exists>d. worker_step acquire release quit n (ts ! w) w c' = Inr d"
    "(\<nexists>d. moves acquire release quit awake n ts c' d) \<Longrightarrow>
       (\<forall>w < length ts. point (workers c' ! w) = Gone) \<and> counter c' = of_nat (length ts * n)"
proof -
  have o: "orderly n ts c'" "progress n ts c + k \<le> progress n ts c'"
    using orderly_runs [OF assms] by simp_all
  show "k \<le> length ts * (4 * n + 1) * (length ts + 1) + length ts"
    using o(2) progress_bound [OF o(1)] by simp
  show "can_run awake ts w c' \<Longrightarrow> \<exists>d. worker_step acquire release quit n (ts ! w) w c' = Inr d"
    using orderly_step [OF o(1)] by blast
  assume stop: "\<nexists>d. moves acquire release quit awake n ts c' d"
  have "\<not> can_run awake ts w c'" for w
    using orderly_step [OF o(1), of w] stop moves.intros by metis
  then show "(\<forall>w < length ts. point (workers c' ! w) = Gone) \<and> counter c' = of_nat (length ts * n)"
    using orderly_end [OF o(1)] by blast
qed

lemma run_to_end:
  "orderly n ts c \<Longrightarrow> \<exists>k c'. (moves acquire release quit awake n ts ^^ k) c c' \<and> (\<nexists>d. moves acquire release quit awake n ts c' d)"
proof (induction "length ts * (4 * n + 1) * (length ts + 1) + length ts - progress n ts c" arbitrary: c rule: less_induct)
  case less
  show ?case
  proof (cases "\<exists>d. moves acquire release quit awake n ts c d")
    case True
    then obtain d where d: "moves acquire release quit awake n ts c d"
      by blast
    note o = orderly_moves [OF less.prems d]
    have "length ts * (4 * n + 1) * (length ts + 1) + length ts - progress n ts d <
        length ts * (4 * n + 1) * (length ts + 1) + length ts - progress n ts c"
      using o(2) progress_bound [OF o(1)] by linarith
    from less.hyps [OF this o(1)] obtain k c' where "(moves acquire release quit awake n ts ^^ k) d c'"
      "\<nexists>e. moves acquire release quit awake n ts c' e"
      by blast
    then show ?thesis
      using relpowp_Suc_I2 [of "moves acquire release quit awake n ts", OF d] by blast
  next
    case False
    then show ?thesis
      by (intro exI [of _ 0] exI [of _ c]) simp
  qed
qed

end

section \<open>The mutexes of the kernel\<close>

text \<open>A thread of the test ends by \<^verbatim>\<open>thread_exit\<close>, which terminates it.\<close>

definition thread_quit :: "nat \<Rightarrow> ('w Kernel, unit) prog" where
  "thread_quit t = setState t TERMINATED"

text \<open>The scheduler may pick it.\<close>

definition pickable :: "'w Kernel \<Rightarrow> nat \<Rightarrow> bool" where
  "pickable k t \<longleftrightarrow> t_state (allThreads k ! t) = READY \<or> t_state (allThreads k ! t) = RUNNING"

lemma mutex_ok_state: "mutex_ok p m (with_state t s k) = mutex_ok p m k"
  by (simp add: mutex_ok_def)

interpretation test_lock: thread_lock "Mutex_acquire p m" "Mutex_release p m" "\<lambda>k. mx_owner (mutex_at p m k)"
  "\<lambda>k. set (waitQueue (mutex_at p m k))" pickable "\<lambda>k. {..<length (allThreads k)}" "mutex_ok p m" thread_quit for p m
proof
  fix k k' :: "'w Kernel" and t u :: nat and b
  assume ok: "mutex_ok p m k"
  show "\<exists>k'. Mutex_acquire p m t k = Inr (True, k') \<and> mutex_ok p m k' \<and> {..<length (allThreads k')} = {..<length (allThreads k)} \<and>
      mx_owner (mutex_at p m k') = Some t \<and> set (waitQueue (mutex_at p m k')) = set (waitQueue (mutex_at p m k))"
    if "t \<in> {..<length (allThreads k)}" "mx_owner (mutex_at p m k) = None"
    using mutex.grant [OF ok that] .
  show "\<exists>k'. Mutex_acquire p m t k = Inr (False, k') \<and> mutex_ok p m k' \<and> {..<length (allThreads k')} = {..<length (allThreads k)} \<and>
      mx_owner (mutex_at p m k') = mx_owner (mutex_at p m k) \<and>
      set (waitQueue (mutex_at p m k')) = insert t (set (waitQueue (mutex_at p m k))) \<and> \<not> pickable k' t"
    if "t \<in> {..<length (allThreads k)}" "mx_owner (mutex_at p m k) \<noteq> None"
    using mutex.refuse [OF ok that] by (auto simp: awake_in_def pickable_def)
  show "\<exists>k'. Mutex_release p m t k = Inr (True, k') \<and> mutex_ok p m k' \<and> {..<length (allThreads k')} = {..<length (allThreads k)} \<and>
      mx_owner (mutex_at p m k') = None \<and> set (waitQueue (mutex_at p m k')) = {} \<and>
      (\<forall>u \<in> set (waitQueue (mutex_at p m k)). pickable k' u)"
    if "mx_owner (mutex_at p m k) = Some t"
    using mutex_release_run [OF ok that] ok by (fastforce simp: Mutex_new_def pickable_def mutex_ok_def)
  show "Mutex_release p m t k = Inr (False, k)" if "mx_owner (mutex_at p m k) \<noteq> Some t"
    using mutex.release_other [OF ok that] .
  show "pickable k' u = pickable k u" if "mx_owner (mutex_at p m k) = None" "Mutex_acquire p m t k = Inr (b, k')"
    using mutex_acquire_free [OF ok that(1), of t] that(2) by (auto simp: pickable_def)
  show "pickable k' u = pickable k u"
    if "t \<in> {..<length (allThreads k)}" "mx_owner (mutex_at p m k) \<noteq> None" "Mutex_acquire p m t k = Inr (b, k')" "u \<noteq> t"
    using mutex_acquire_taken [OF ok that(2), of t] that by (auto simp: pickable_def with_state_def)
  show "pickable k' u"
    if "mx_owner (mutex_at p m k) = Some t" "Mutex_release p m t k = Inr (b, k')" "u \<in> {..<length (allThreads k)}" "pickable k u"
    using mutex_release_run [OF ok that(1)] that by (auto simp: pickable_def)
  show "\<exists>k'. thread_quit t k = Inr ((), k') \<and> mutex_ok p m k' \<and> {..<length (allThreads k')} = {..<length (allThreads k)} \<and>
      mx_owner (mutex_at p m k') = mx_owner (mutex_at p m k) \<and> set (waitQueue (mutex_at p m k')) = set (waitQueue (mutex_at p m k)) \<and>
      (\<forall>u. u \<noteq> t \<longrightarrow> pickable k' u = pickable k u)" if "t \<in> {..<length (allThreads k)}"
    using that ok by (auto simp: thread_quit_def setState_run mutex_ok_state pickable_def) (simp_all add: with_state_def)
qed

end
