(* ===== verification/CMemory.thy ===== *)
theory CMemory
  imports UserLibrary
begin

text \<open>
  The memory of a C program: 32-bit variables as four bytes, little-endian, read by \<^verbatim>\<open>load_int\<close> of
  theory UserLibrary and written by \<^verbatim>\<open>store_int\<close>, and what a store does to loads elsewhere.
\<close>

definition store_int :: "umem \<Rightarrow> Addr \<Rightarrow> Word \<Rightarrow> umem" where
  "store_int m a v = (\<lambda>x. if unat (x - a) < 4 then word_bytes 4 v ! unat (x - a) else m x)"

text \<open>Two variables that do not overlap.\<close>

definition apart :: "Addr \<Rightarrow> Addr \<Rightarrow> bool" where
  "apart a b \<longleftrightarrow> 4 \<le> unat (a - b) \<and> 4 \<le> unat (b - a)"

lemma apart_sym: "apart a b \<longleftrightarrow> apart b a"
  by (auto simp: apart_def)

lemma store_int_byte: "unat (x - a) < 4 \<Longrightarrow> store_int m a v x = word_bytes 4 v ! unat (x - a)"
  "4 \<le> unat (x - a) \<Longrightarrow> store_int m a v x = m x"
  by (simp_all add: store_int_def)

lemma load_int_cong: "(\<And>j. j < 4 \<Longrightarrow> m (a + of_nat j) = m' (a + of_nat j)) \<Longrightarrow> load_int m a = load_int m' a"
  unfolding load_int_def by (rule arg_cong [where f = bytes_word]) simp

lemma load_store_same [simp]: "load_int (store_int m a v) a = v"
proof -
  have "map (\<lambda>j. store_int m a v (a + of_nat j)) [0..<4] = word_bytes 4 v"
  proof (rule nth_equalityI)
    fix j assume "j < length (map (\<lambda>j. store_int m a v (a + of_nat j)) [0..<4])"
    then have "j < 4" by simp
    then show "map (\<lambda>j. store_int m a v (a + of_nat j)) [0..<4] ! j = word_bytes 4 v ! j"
      by (simp add: store_int_def unat_of_nat)
  qed simp
  then show ?thesis
    by (simp only: load_int_def bytes_word_bytes) (rule bit_word_eqI, simp add: bit_take_bit_iff)
qed

lemma far_byte:
  fixes a b :: Addr
  assumes "apart a b" "j < 4" shows "4 \<le> unat (b + of_nat j - a)"
proof (rule ccontr)
  assume "\<not> 4 \<le> unat (b + of_nat j - a)"
  then obtain i where i: "i < 4" "b + of_nat j - a = of_nat i"
    by (rule_tac that [of "unat (b + of_nat j - a)"]) simp_all
  have d: "b - a = of_nat i - of_nat j" "a - b = of_nat j - of_nat i"
    by (simp_all add: i(2) [symmetric])
  show False
  proof (cases "j \<le> i")
    case True
    then have "b - a = of_nat (i - j)" using d(1) by simp
    then have "unat (b - a) < 4" using i(1) by (simp add: unat_of_nat)
    then show False using assms(1) by (simp add: apart_def)
  next
    case False
    then have "a - b = of_nat (j - i)" using d(2) by simp
    then have "unat (a - b) < 4" using assms(2) by (simp add: unat_of_nat)
    then show False using assms(1) by (simp add: apart_def)
  qed
qed

lemma load_store_apart [simp]: "apart a b \<Longrightarrow> load_int (store_int m a v) b = load_int m b"
  by (rule load_int_cong) (simp add: store_int_byte(2) far_byte)

text \<open>Variables at known distances.\<close>

lemma apart_shift [simp]: "apart (p + x) (p + y) = apart x y" "apart (p + x) p = apart x 0" "apart p (p + y) = apart 0 y"
  by (simp_all add: apart_def)

lemma apart_nats:
  assumes "unat x + 4 \<le> unat y" "unat y + 4 \<le> 2 ^ 32" shows "apart x y" "apart y x"
proof -
  have "unat (y - x) = unat y - unat x"
    using assms by (simp add: unat_sub word_le_nat_alt)
  moreover have "unat (x - y) = 2 ^ 32 - (unat y - unat x)"
    using assms by (auto simp: unat_sub_if')
  ultimately show "apart x y" "apart y x"
    using assms by (auto simp: apart_def)
qed

lemma apart_offset:
  assumes "unat x = a" "unat y = b" "a + 4 \<le> b" "b < 65536" shows "apart x y" "apart y x"
  using assms apart_nats [of x y] by simp_all

lemma unat_numeral_less:
  assumes "(numeral w :: nat) < 65536" shows "unat (numeral w :: Addr) = numeral w"
proof -
  have "(numeral w :: nat) < 2 ^ LENGTH(32)"
    using assms by (rule less_trans) simp
  then have "take_bit LENGTH(32) (numeral w :: nat) = numeral w"
    by (rule take_bit_nat_eq_self)
  then show ?thesis
    by (simp only: unsigned_numeral of_nat_numeral)
qed

lemma apart_numeral [simp]:
  "(numeral u :: nat) + 4 \<le> numeral v \<Longrightarrow> (numeral v :: nat) < 65536 \<Longrightarrow> apart (numeral u) (numeral v)"
  "(numeral u :: nat) + 4 \<le> numeral v \<Longrightarrow> (numeral v :: nat) < 65536 \<Longrightarrow> apart (numeral v) (numeral u)"
  "4 \<le> (numeral v :: nat) \<Longrightarrow> (numeral v :: nat) < 65536 \<Longrightarrow> apart 0 (numeral v)"
  "4 \<le> (numeral v :: nat) \<Longrightarrow> (numeral v :: nat) < 65536 \<Longrightarrow> apart (numeral v) 0"
proof -
  note n = unat_numeral_less
  show "(numeral u :: nat) + 4 \<le> numeral v \<Longrightarrow> (numeral v :: nat) < 65536 \<Longrightarrow> apart (numeral u) (numeral v)"
    "(numeral u :: nat) + 4 \<le> numeral v \<Longrightarrow> (numeral v :: nat) < 65536 \<Longrightarrow> apart (numeral v) (numeral u)"
    by (rule apart_offset [OF n n]; linarith)+
  show "4 \<le> (numeral v :: nat) \<Longrightarrow> (numeral v :: nat) < 65536 \<Longrightarrow> apart 0 (numeral v)"
    "4 \<le> (numeral v :: nat) \<Longrightarrow> (numeral v :: nat) < 65536 \<Longrightarrow> apart (numeral v) 0"
    by (rule apart_offset [OF unat_0 n]; linarith)+
qed

end
