(* ===== verification/GraphTest.thy ===== *)
theory GraphTest
  imports CMemory "HOL-Library.Multiset"
begin

text \<open>
  The test program \<^verbatim>\<open>user/programs/test2.c\<close>: a memory pool, a graph of nodes with lists of edges in
  it, and a depth-first traversal that combines what it meets with a function pointer.  The addresses
  of the static variables \<^verbatim>\<open>memory_pool\<close> and \<^verbatim>\<open>pool_offset\<close> are the arguments \<open>pool\<close> and \<open>off\<close>.  A
  function that may dereference the null pointer, overflow a signed integer or not return is \<^verbatim>\<open>None\<close>
  there.  The traversal is proved for every graph laid out in memory: it returns, marks the nodes
  that can be reached through unmarked ones, and meets each edge of each of them once.
\<close>

section \<open>The pool and the graph\<close>

definition POOL_SIZE :: Word where
  "POOL_SIZE = 1024"

definition pool_alloc :: "Addr \<Rightarrow> Addr \<Rightarrow> Word \<Rightarrow> umem \<Rightarrow> Addr \<times> umem" where
  "pool_alloc pool off sz m =
     (if load_int m off + sz > POOL_SIZE then (0, m)
      else (pool + load_int m off, store_int m off (load_int m off + sz)))"

text \<open>The members of \<^verbatim>\<open>Edge\<close> and \<^verbatim>\<open>Node\<close>, structures of three words each.\<close>

definition sizeof_Edge :: Word where
  "sizeof_Edge = 12"

definition edge_to :: "Addr \<Rightarrow> Addr" where
  "edge_to e = e"

definition edge_weight :: "Addr \<Rightarrow> Addr" where
  "edge_weight e = e + 4"

definition edge_next :: "Addr \<Rightarrow> Addr" where
  "edge_next e = e + 8"

definition sizeof_Node :: Word where
  "sizeof_Node = 12"

definition node_value :: "Addr \<Rightarrow> Addr" where
  "node_value n = n"

definition node_edges :: "Addr \<Rightarrow> Addr" where
  "node_edges n = n + 4"

definition node_visited :: "Addr \<Rightarrow> Addr" where
  "node_visited n = n + 8"

lemmas members =
  edge_to_def edge_weight_def edge_next_def node_value_def node_edges_def node_visited_def

definition create_node :: "Addr \<Rightarrow> Addr \<Rightarrow> Word \<Rightarrow> umem \<Rightarrow> Addr \<times> umem" where
  "create_node pool off value m =
     (let (n, m) = pool_alloc pool off sizeof_Node m in
      if n = 0 then (0, m)
      else
        let m = store_int m (node_value n) value;
            m = store_int m (node_edges n) 0;
            m = store_int m (node_visited n) 0
        in (n, m))"

definition add_edge :: "Addr \<Rightarrow> Addr \<Rightarrow> Addr \<Rightarrow> Addr \<Rightarrow> Word \<Rightarrow> umem \<Rightarrow> umem option" where
  "add_edge pool off from to weight m =
     (let (e, m) = pool_alloc pool off sizeof_Edge m in
      if e = 0 then Some m
      else if from = 0 then None
      else
        let m = store_int m (edge_to e) to;
            m = store_int m (edge_weight e) weight;
            m = store_int m (edge_next e) (load_int m (node_edges from))
        in Some (store_int m (node_edges from) e))"

section \<open>The traversal\<close>

type_synonym Aggregator = "Word \<Rightarrow> Word \<Rightarrow> Word \<Rightarrow> Word option"

text \<open>
  \<^verbatim>\<open>dfs\<close> and its loop over the edges call each other; they are one function of the call:
  \<^verbatim>\<open>Dfs\<close> a node, or \<^verbatim>\<open>Edges\<close>, the loop with \<^verbatim>\<open>e\<close> at an edge.
\<close>

datatype dfs_call = Dfs Addr | Edges Addr

partial_function (option) dfs :: "Aggregator \<Rightarrow> dfs_call \<Rightarrow> Word \<Rightarrow> umem \<Rightarrow> (Word \<times> umem) option" where
  "dfs agg c acc m =
     (case c of
        Dfs node \<Rightarrow>
          if node = 0 then Some (acc, m)
          else if load_int m (node_visited node) \<noteq> 0 then Some (acc, m)
          else let m = store_int m (node_visited node) 1 in dfs agg (Edges (load_int m (node_edges node))) acc m
      | Edges e \<Rightarrow>
          if e = 0 then Some (acc, m)
          else if load_int m (edge_to e) = 0 then None
          else Option.bind (agg acc (load_int m (node_value (load_int m (edge_to e)))) (load_int m (edge_weight e))) (\<lambda>result.
               Option.bind (dfs agg (Dfs (load_int m (edge_to e))) result m) (\<lambda>(result, m).
               dfs agg (Edges (load_int m (edge_next e))) result m)))"

declare dfs.simps [code]

text \<open>The value of a signed expression, if it does not overflow.\<close>

definition in_int :: "int \<Rightarrow> Word option" where
  "in_int v = (if - (2 ^ 31) \<le> v \<and> v < 2 ^ 31 then Some (word_of_int v) else None)"

definition sum_aggregator :: Aggregator where
  "sum_aggregator current node_val edge_wt =
     Option.bind (in_int (sint node_val * sint edge_wt)) (\<lambda>p. in_int (sint current + sint p))"

definition max_aggregator :: Aggregator where
  "max_aggregator current node_val edge_wt =
     Option.bind (in_int (sint node_val + sint edge_wt)) (\<lambda>v. Some (if sint v > sint current then v else current))"

text \<open>\<^verbatim>\<open>main\<close>; the chained assignment of the marks goes from the right.\<close>

definition graph_main :: "Addr \<Rightarrow> Addr \<Rightarrow> umem \<Rightarrow> (Word \<times> umem) option" where
  "graph_main pool off m =
     (let (a, m) = create_node pool off 1 m;
          (b, m) = create_node pool off 2 m;
          (c, m) = create_node pool off 3 m;
          (d, m) = create_node pool off 4 m
      in
      Option.bind (add_edge pool off a b 5 m) (\<lambda>m.
      Option.bind (add_edge pool off a c 2 m) (\<lambda>m.
      Option.bind (add_edge pool off b d 1 m) (\<lambda>m.
      Option.bind (add_edge pool off c d 7 m) (\<lambda>m.
      Option.bind (dfs sum_aggregator (Dfs a) 0 m) (\<lambda>(result1, m).
      if a = 0 \<or> b = 0 \<or> c = 0 \<or> d = 0 then None
      else
        let m = store_int m (node_visited d) 0;
            m = store_int m (node_visited c) 0;
            m = store_int m (node_visited b) 0;
            m = store_int m (node_visited a) 0
        in
        Option.bind (dfs max_aggregator (Dfs a) 0 m) (\<lambda>(result2, m).
        Option.bind (in_int (sint result1 + sint result2)) (\<lambda>r. Some (r, m)))))))))"

text \<open>The two calls by themselves; a bind is evaluated before what it binds.\<close>

lemma bind_weak: "x = y \<Longrightarrow> Option.bind x f = Option.bind y f"
  by simp

lemma dfs_Dfs: "dfs agg (Dfs node) acc m =
   (if node = 0 then Some (acc, m) else if load_int m (node_visited node) \<noteq> 0 then Some (acc, m)
    else dfs agg (Edges (load_int (store_int m (node_visited node) 1) (node_edges node))) acc (store_int m (node_visited node) 1))"
  by (subst dfs.simps) (simp add: Let_def)

lemma dfs_Edges: "dfs agg (Edges e) acc m =
   (if e = 0 then Some (acc, m)
    else if load_int m (edge_to e) = 0 then None
    else Option.bind (agg acc (load_int m (node_value (load_int m (edge_to e)))) (load_int m (edge_weight e))) (\<lambda>result.
         Option.bind (dfs agg (Dfs (load_int m (edge_to e))) result m) (\<lambda>(result, m).
         dfs agg (Edges (load_int m (edge_next e))) result m)))"
  by (subst dfs.simps) simp

section \<open>Graphs in memory\<close>

text \<open>A graph: its nodes, the edges out of each of them in the order of the list, with the address of
  the edge, its target and its weight, and the values of the nodes.\<close>

type_synonym edge = "Addr \<times> Addr \<times> Word"

record graph =
  nodes :: "Addr set"
  out :: "Addr \<Rightarrow> edge list"
  val :: "Addr \<Rightarrow> Word"

primrec edge_list :: "umem \<Rightarrow> Addr \<Rightarrow> edge list \<Rightarrow> bool" where
  "edge_list m e [] \<longleftrightarrow> e = 0"
| "edge_list m e (c # cs) \<longleftrightarrow> e = fst c \<and> e \<noteq> 0 \<and> load_int m (edge_to e) = fst (snd c) \<and>
     load_int m (edge_weight e) = snd (snd c) \<and> edge_list m (load_int m (edge_next e)) cs"

definition edge_fields :: "edge list \<Rightarrow> Addr set" where
  "edge_fields cs = (\<Union>c \<in> set cs. {edge_to (fst c), edge_weight (fst c), edge_next (fst c)})"

definition fixed_fields :: "graph \<Rightarrow> Addr set" where
  "fixed_fields G = (\<Union>n \<in> nodes G. {node_value n, node_edges n} \<union> edge_fields (out G n))"

definition targets :: "edge list \<Rightarrow> Addr set" where
  "targets cs = (\<lambda>c. fst (snd c)) ` set cs"

text \<open>The graph is in memory, with exactly the nodes of \<open>M\<close> marked, and the marks have their own memory.\<close>

definition laid_out :: "graph \<Rightarrow> umem \<Rightarrow> Addr set \<Rightarrow> bool" where
  "laid_out G m M \<longleftrightarrow>
     finite (nodes G) \<and> 0 \<notin> nodes G \<and> M \<subseteq> nodes G \<and>
     (\<forall>n \<in> nodes G. load_int m (node_value n) = val G n \<and> edge_list m (load_int m (node_edges n)) (out G n) \<and>
        targets (out G n) \<subseteq> nodes G \<and> (load_int m (node_visited n) \<noteq> 0 \<longleftrightarrow> n \<in> M)) \<and>
     (\<forall>n \<in> nodes G. (\<forall>a \<in> fixed_fields G. apart (node_visited n) a) \<and>
        (\<forall>n' \<in> nodes G. n' \<noteq> n \<longrightarrow> apart (node_visited n) (node_visited n')))"

text \<open>What is reached from a node along nodes without a mark.\<close>

definition steps :: "graph \<Rightarrow> Addr set \<Rightarrow> (Addr \<times> Addr) set" where
  "steps G M = {(x, y). x \<in> nodes G - M \<and> y \<in> targets (out G x) - M}"

definition reached :: "graph \<Rightarrow> Addr set \<Rightarrow> Addr \<Rightarrow> Addr set" where
  "reached G M n = (if n \<in> M then {} else (steps G M)\<^sup>* `` {n})"

primrec combine :: "Aggregator \<Rightarrow> (Addr \<Rightarrow> Word) \<Rightarrow> edge list \<Rightarrow> Word \<Rightarrow> Word option" where
  "combine agg v [] acc = Some acc"
| "combine agg v (c # cs) acc = Option.bind (agg acc (v (fst (snd c))) (snd (snd c))) (combine agg v cs)"

lemma combine_append: "combine agg v (xs @ ys) acc = Option.bind (combine agg v xs acc) (combine agg v ys)"
  by (induction xs arbitrary: acc) (auto simp: bind_eq_None_conv split: bind_splits)

lemma edge_list_cong:
  "edge_list m e cs \<Longrightarrow> (\<And>a. a \<in> edge_fields cs \<Longrightarrow> load_int m' a = load_int m a) \<Longrightarrow> edge_list m' e cs"
  by (induction cs arbitrary: e) (auto simp: edge_fields_def)

definition only_marks :: "graph \<Rightarrow> umem \<Rightarrow> umem \<Rightarrow> bool" where
  "only_marks G m m' \<longleftrightarrow> (\<forall>x. (\<forall>n \<in> nodes G. 4 \<le> unat (x - node_visited n)) \<longrightarrow> m' x = m x)"

lemma only_marks_refl [simp]: "only_marks G m m"
  by (simp add: only_marks_def)

lemma fixed_load:
  assumes "laid_out G m M" "only_marks G m m'" "a \<in> fixed_fields G"
  shows "load_int m' a = load_int m a"
proof (rule load_int_cong)
  fix j :: nat assume "j < 4"
  then show "m' (a + of_nat j) = m (a + of_nat j)"
    using assms far_byte by (simp add: laid_out_def only_marks_def)
qed

lemma laid_out_parts:
  assumes "laid_out G m M"
  shows "finite (nodes G)" "M \<subseteq> nodes G" "n \<in> nodes G \<Longrightarrow> n \<noteq> 0" "n \<in> nodes G \<Longrightarrow> load_int m (node_value n) = val G n"
    "n \<in> nodes G \<Longrightarrow> edge_list m (load_int m (node_edges n)) (out G n)" "n \<in> nodes G \<Longrightarrow> targets (out G n) \<subseteq> nodes G"
    "n \<in> nodes G \<Longrightarrow> load_int m (node_visited n) \<noteq> 0 \<longleftrightarrow> n \<in> M"
    "n \<in> nodes G \<Longrightarrow> a \<in> fixed_fields G \<Longrightarrow> apart (node_visited n) a"
    "n \<in> nodes G \<Longrightarrow> n' \<in> nodes G \<Longrightarrow> n' \<noteq> n \<Longrightarrow> apart (node_visited n) (node_visited n')"
  using assms by (auto simp: laid_out_def)

lemma node_fields:
  assumes "n \<in> nodes G"
  shows "node_value n \<in> fixed_fields G" "node_edges n \<in> fixed_fields G" "edge_fields (out G n) \<subseteq> fixed_fields G"
  using assms by (auto simp: fixed_fields_def)

lemma laid_out_mark:
  assumes "laid_out G m M" "n \<in> nodes G"
  shows "laid_out G (store_int m (node_visited n) 1) (insert n M)"
proof -
  let ?m = "store_int m (node_visited n) 1"
  note l = laid_out_parts [OF assms(1)]
  have f: "load_int ?m a = load_int m a" if "a \<in> fixed_fields G" for a
    using l(8) [OF assms(2) that] by simp
  have v: "load_int ?m (node_visited x) \<noteq> 0 \<longleftrightarrow> x \<in> insert n M" if "x \<in> nodes G" for x
    using l(7) [OF that] l(9) [OF assms(2) that] by (cases "x = n") simp_all
  have "edge_list ?m (load_int ?m (node_edges x)) (out G x)" if "x \<in> nodes G" for x
    unfolding f [OF node_fields(2) [OF that]]
    by (rule edge_list_cong [OF l(5) [OF that]]) (use node_fields(3) [OF that] f in blast)
  moreover have "load_int ?m (node_value x) = val G x" if "x \<in> nodes G" for x
    using l(4) [OF that] node_fields [OF that] by (simp only: f)
  ultimately show ?thesis
    unfolding laid_out_def using assms(2) l v by (intro conjI ballI impI insert_subsetI) auto
qed

section \<open>The traversal is correct\<close>

text \<open>
  What a call with the nodes \<^verbatim>\<open>S\<close> ahead of it does to the marks: they spread to \<^verbatim>\<open>S\<close> and on, through
  unmarked nodes only, and no new node has an edge that leaves the marks.
\<close>

definition spread :: "graph \<Rightarrow> Addr set \<Rightarrow> Addr set \<Rightarrow> Addr set \<Rightarrow> bool" where
  "spread G S M M' \<longleftrightarrow> M \<subseteq> M' \<and> S \<subseteq> M' \<and> (\<forall>x \<in> M' - M. targets (out G x) \<subseteq> M') \<and> M' - M \<subseteq> (steps G M)\<^sup>* `` (S - M)"

definition outcome :: "graph \<Rightarrow> dfs_call \<Rightarrow> Addr set \<Rightarrow> edge list \<Rightarrow> umem \<Rightarrow> Addr set \<Rightarrow> bool" where
  "outcome G call S cs m M \<longleftrightarrow>
     (\<exists>m' M' es. laid_out G m' M' \<and> spread G S M M' \<and> mset es = mset cs + (\<Sum>x \<in> M' - M. mset (out G x)) \<and>
        only_marks G m m' \<and>
        (\<forall>agg acc. dfs agg call acc m = map_option (\<lambda>r. (r, m')) (combine agg (val G) es acc)))"

lemma outcomeE:
  assumes "outcome G call S cs m M"
  obtains m' M' es where "laid_out G m' M'" "spread G S M M'" "mset es = mset cs + (\<Sum>x \<in> M' - M. mset (out G x))"
    "only_marks G m m'"
    "\<And>agg acc. dfs agg call acc m = map_option (\<lambda>r. (r, m')) (combine agg (val G) es acc)"
  using assms unfolding outcome_def by blast

lemma outcomeI:
  assumes "laid_out G m' M'" "spread G S M M'" "mset es = mset cs + (\<Sum>x \<in> M' - M. mset (out G x))"
    "only_marks G m m'"
    "\<And>agg acc. dfs agg call acc m = map_option (\<lambda>r. (r, m')) (combine agg (val G) es acc)"
  shows "outcome G call S cs m M"
  using assms unfolding outcome_def by (intro exI conjI) auto

lemma steps_mono: "M \<subseteq> M' \<Longrightarrow> (steps G M')\<^sup>* \<subseteq> (steps G M)\<^sup>*"
  by (rule rtrancl_mono) (auto simp: steps_def)

lemma spread_twice:
  assumes "spread G S M M1" "spread G T M1 M2" shows "spread G (S \<union> T) M M2"
proof -
  have "M2 - M1 \<subseteq> (steps G M)\<^sup>* `` (T - M)"
    using assms steps_mono [of M M1 G] unfolding spread_def by blast
  moreover have "(steps G M)\<^sup>* `` (S - M) \<union> (steps G M)\<^sup>* `` (T - M) = (steps G M)\<^sup>* `` (S \<union> T - M)"
    by blast
  ultimately have "M2 - M \<subseteq> (steps G M)\<^sup>* `` (S \<union> T - M)"
    using assms unfolding spread_def by blast
  moreover have "targets (out G x) \<subseteq> M2" if "x \<in> M2 - M" for x
    using assms that unfolding spread_def by (cases "x \<in> M1") blast+
  ultimately show ?thesis
    using assms unfolding spread_def by blast
qed

lemma spread_node:
  assumes "n \<in> nodes G" "n \<notin> M" "spread G (targets (out G n)) (insert n M) M'" shows "spread G {n} M M'"
proof -
  have "(n, y) \<in> steps G M" if "y \<in> targets (out G n) - insert n M" for y
    using assms(1,2) that by (auto simp: steps_def)
  moreover have "(steps G (insert n M))\<^sup>* \<subseteq> (steps G M)\<^sup>*"
    by (rule steps_mono) blast
  ultimately have "M' - insert n M \<subseteq> (steps G M)\<^sup>* `` {n}"
    using assms(3) unfolding spread_def by (blast intro: converse_rtrancl_into_rtrancl)
  then show ?thesis
    using assms unfolding spread_def by auto
qed

lemma spread_reached:
  assumes "spread G {n} M M'" shows "M' - M = reached G M n"
proof (cases "n \<in> M")
  case True
  then show ?thesis
    using assms by (simp add: spread_def reached_def)
next
  case False
  have "x \<in> M' - M" if "(n, x) \<in> (steps G M)\<^sup>*" for x
    using that
  proof induction
    case base
    then show ?case
      using assms False by (simp add: spread_def)
  next
    case (step y z)
    then show ?case
      using assms by (auto simp: spread_def steps_def)
  qed
  then show ?thesis
    using assms False by (auto simp: spread_def reached_def)
qed

text \<open>The loop over the edges, when the calls for their targets go well.\<close>

lemma edges_outcome:
  assumes dfs: "\<And>n m M. n \<in> nodes G \<Longrightarrow> laid_out G m M \<Longrightarrow> card (nodes G - M) \<le> k \<Longrightarrow> outcome G (Dfs n) {n} [] m M"
    and "laid_out G m M" "card (nodes G - M) \<le> k" "edge_list m e cs" "edge_fields cs \<subseteq> fixed_fields G" "targets cs \<subseteq> nodes G"
  shows "outcome G (Edges e) (targets cs) cs m M"
  using assms(2-6)
proof (induction cs arbitrary: e m M)
  case Nil
  then show ?case
    by (intro outcomeI [of G m M _ _ "[]"]) (simp_all add: dfs_Edges spread_def targets_def)
next
  case (Cons c cs)
  let ?t = "fst (snd c)"
  have c: "e = fst c" "e \<noteq> 0" "load_int m (edge_to e) = ?t" "load_int m (edge_weight e) = snd (snd c)"
    "edge_list m (load_int m (edge_next e)) cs" "?t \<in> nodes G" "targets cs \<subseteq> nodes G"
    using Cons.prems by (auto simp: targets_def)
  obtain m1 M1 es1 where o1: "laid_out G m1 M1" "spread G {?t} M M1" "mset es1 = (\<Sum>x \<in> M1 - M. mset (out G x))"
    "only_marks G m m1"
    "\<And>agg acc. dfs agg (Dfs ?t) acc m = map_option (\<lambda>r. (r, m1)) (combine agg (val G) es1 acc)"
    by (rule outcomeE [OF dfs [OF c(6) Cons.prems(1,2)]]) simp
  have M1: "M \<subseteq> M1"
    using o1(2) by (simp add: spread_def)
  have f: "load_int m1 a = load_int m a" if "a \<in> fixed_fields G" for a
    by (rule fixed_load [OF Cons.prems(1) o1(4) that])
  have fs: "edge_next e \<in> fixed_fields G" "edge_fields cs \<subseteq> fixed_fields G"
    using Cons.prems(4) c(1) by (auto simp: edge_fields_def)
  have "card (nodes G - M1) \<le> card (nodes G - M)"
    using M1 laid_out_parts(1) [OF Cons.prems(1)] by (intro card_mono) auto
  then have "card (nodes G - M1) \<le> k"
    using Cons.prems(2) by simp
  moreover have "edge_list m1 (load_int m (edge_next e)) cs"
    using fs(2) f by (intro edge_list_cong [OF c(5)]) blast
  ultimately have "outcome G (Edges (load_int m (edge_next e))) (targets cs) cs m1 M1"
    by (intro Cons.IH [OF o1(1) _ _ fs(2) c(7)])
  then obtain m2 M2 es2 where o2: "laid_out G m2 M2" "spread G (targets cs) M1 M2"
    "mset es2 = mset cs + (\<Sum>x \<in> M2 - M1. mset (out G x))"
    "only_marks G m1 m2"
    "\<And>agg acc. dfs agg (Edges (load_int m (edge_next e))) acc m1 = map_option (\<lambda>r. (r, m2)) (combine agg (val G) es2 acc)"
    by (rule outcomeE) simp
  have t: "targets (c # cs) = {?t} \<union> targets cs"
    by (simp add: targets_def)
  have fin: "finite (M2 - M)"
    using laid_out_parts(1,2) [OF o2(1)] by (meson finite_Diff finite_subset)
  have "M2 - M = (M1 - M) \<union> (M2 - M1)"
    using M1 o2(2) by (auto simp: spread_def)
  then have "(\<Sum>x \<in> M2 - M. mset (out G x)) = (\<Sum>x \<in> M1 - M. mset (out G x)) + (\<Sum>x \<in> M2 - M1. mset (out G x))"
    using fin by (simp add: sum.union_disjoint Int_Diff Diff_Int_distrib2)
  then have es: "mset (c # es1 @ es2) = mset (c # cs) + (\<Sum>x \<in> M2 - M. mset (out G x))"
    using o1(3) o2(3) by simp
  have "dfs agg (Edges e) acc m = map_option (\<lambda>r. (r, m2)) (combine agg (val G) (c # es1 @ es2) acc)" for agg acc
  proof (cases "agg acc (val G ?t) (snd (snd c))")
    case None
    then show ?thesis
      using c(2) laid_out_parts(3,4) [OF Cons.prems(1) c(6)] by (subst dfs_Edges) (simp add: c(3,4))
  next
    case (Some r)
    then show ?thesis
      using c(2) laid_out_parts(3,4) [OF Cons.prems(1) c(6)] o1(5) o2(5) f [OF fs(1)]
      by (subst dfs_Edges) (cases "combine agg (val G) es1 r"; simp add: c(3,4) combine_append)
  qed
  moreover have "only_marks G m m2"
    using o1(4) o2(4) by (simp add: only_marks_def)
  ultimately show ?case
    unfolding t using outcomeI [OF o2(1) spread_twice [OF o1(2) o2(2)] es] by blast
qed

lemma marked_outcome:
  assumes "n \<in> nodes G" "laid_out G m M" "n \<in> M" shows "outcome G (Dfs n) {n} [] m M"
  using assms laid_out_parts(3,7) [OF assms(2,1)]
  by (intro outcomeI [of G m M _ _ "[]"]) (simp_all add: dfs_Dfs spread_def)

lemma dfs_outcome:
  assumes "n \<in> nodes G" "laid_out G m M" "card (nodes G - M) \<le> k" shows "outcome G (Dfs n) {n} [] m M"
  using assms
proof (induction k arbitrary: n m M)
  case 0
  then show ?case
    using marked_outcome laid_out_parts(1) [OF 0(2)] by auto
next
  case (Suc k)
  note l = laid_out_parts [OF Suc.prems(2)]
  show ?case
  proof (cases "n \<in> M")
    case True
    then show ?thesis
      using Suc.prems marked_outcome by blast
  next
    case False
    let ?m = "store_int m (node_visited n) 1" and ?M = "insert n M"
    have m: "laid_out G ?m ?M"
      by (rule laid_out_mark [OF Suc.prems(2,1)])
    have "nodes G - M = insert n (nodes G - ?M)"
      using False Suc.prems(1) by blast
    then have "card (nodes G - M) = Suc (card (nodes G - ?M))"
      using l(1) by simp
    then have k: "card (nodes G - ?M) \<le> k"
      using Suc.prems(3) by simp
    note n = laid_out_parts [OF m] node_fields [OF Suc.prems(1)]
    obtain m' M' es where o: "laid_out G m' M'" "spread G (targets (out G n)) ?M M'"
      "mset es = mset (out G n) + (\<Sum>x \<in> M' - ?M. mset (out G x))"
      "only_marks G ?m m'"
      "\<And>agg acc. dfs agg (Edges (load_int ?m (node_edges n))) acc ?m = map_option (\<lambda>r. (r, m')) (combine agg (val G) es acc)"
      by (rule outcomeE [OF edges_outcome [OF Suc.IH m k n(5) [OF Suc.prems(1)] n(12) n(6) [OF Suc.prems(1)]]]) simp_all
    have "M' - M = insert n (M' - ?M)" "finite (M' - ?M)"
      using o(2) False laid_out_parts(1,2) [OF o(1)] finite_subset [of M' "nodes G"] by (auto simp: spread_def)
    then have es: "mset es = mset [] + (\<Sum>x \<in> M' - M. mset (out G x))"
      using o(3) by simp
    show ?thesis
    proof (rule outcomeI [OF o(1) spread_node [OF Suc.prems(1) False o(2)] es])
      show "only_marks G m m'"
        using o(4) store_int_byte(2) Suc.prems(1) by (simp add: only_marks_def)
      show "dfs agg (Dfs n) acc m = map_option (\<lambda>r. (r, m')) (combine agg (val G) es acc)" for agg acc
        using l(3,7) [OF Suc.prems(1)] False o(5) by (subst dfs_Dfs) simp
    qed
  qed
qed

text \<open>A traversal from a node: the edges it meets, the marks it leaves, what it makes of the values.\<close>

lemma dfs_traverses:
  assumes "n \<in> nodes G" "laid_out G m M"
  shows "\<exists>m' es. laid_out G m' (M \<union> reached G M n) \<and> only_marks G m m' \<and>
    mset es = (\<Sum>x \<in> reached G M n. mset (out G x)) \<and>
    (\<forall>agg acc. dfs agg (Dfs n) acc m = map_option (\<lambda>r. (r, m')) (combine agg (val G) es acc))"
proof -
  obtain m' M' es where o: "laid_out G m' M'" "spread G {n} M M'" "mset es = mset [] + (\<Sum>x \<in> M' - M. mset (out G x))"
    "only_marks G m m'" "\<And>agg acc. dfs agg (Dfs n) acc m = map_option (\<lambda>r. (r, m')) (combine agg (val G) es acc)"
    by (rule outcomeE [OF dfs_outcome [OF assms order_refl]]) simp
  have "M' = M \<union> reached G M n"
    using spread_reached [OF o(2)] o(2) by (auto simp: spread_def)
  then show ?thesis
    using o spread_reached [OF o(2)] by (intro exI [of _ m'] exI [of _ es]) simp
qed

section \<open>The program's graph\<close>

text \<open>The pool is in memory without wrapping around, and \<^verbatim>\<open>pool_offset\<close> lies outside it.\<close>

definition pool_ok :: "Addr \<Rightarrow> Addr \<Rightarrow> bool" where
  "pool_ok pool off \<longleftrightarrow> pool \<noteq> 0 \<and> unat pool + 1024 \<le> 2 ^ 32 \<and> (\<forall>j \<le> 1020. apart off (pool + of_nat j))"

lemma pool_apart: assumes "pool_ok pool off"
  shows "apart off pool" "(numeral v :: nat) \<le> 1020 \<Longrightarrow> apart off (pool + numeral v)"
    "apart pool off" "(numeral v :: nat) \<le> 1020 \<Longrightarrow> apart (pool + numeral v) off"
    "pool \<noteq> 0" "(numeral v :: nat) \<le> 1020 \<Longrightarrow> pool + numeral v \<noteq> 0"
proof -
  have a: "apart off (pool + of_nat j)" if "j \<le> 1020" for j
    using that assms by (simp add: pool_ok_def)
  show a1: "apart off pool" using a [of 0] by simp
  show "apart pool off" using a1 apart_sym by blast
  show a2: "apart off (pool + numeral v)" if "(numeral v :: nat) \<le> 1020" using a [of "numeral v"] that by simp
  show "apart (pool + numeral v) off" if "(numeral v :: nat) \<le> 1020" using a2 that apart_sym by blast
  show "pool \<noteq> 0" using assms by (simp add: pool_ok_def)
  show "pool + numeral v \<noteq> 0" if v: "(numeral v :: nat) \<le> 1020"
  proof -
    have n: "unat (numeral v :: Addr) = numeral v"
      using v by (intro unat_numeral_less) linarith
    have p: "unat pool \<noteq> 0" "unat pool + 1024 \<le> 2 ^ LENGTH(32)"
      using assms by (simp_all add: pool_ok_def unat_eq_0)
    have "unat pool + unat (numeral v :: Addr) < 2 ^ LENGTH(32)"
      by (simp only: n) (use p v in linarith)
    then have "unat (pool + numeral v) = unat pool + unat (numeral v :: Addr)"
      by (rule unat_add_lem [THEN iffD1])
    then have "unat (pool + numeral v) \<noteq> 0"
      using p(1) by linarith
    then show ?thesis by (metis unat_0)
  qed
qed

lemma create_node_run: 
  assumes "load_int m off = v" "\<not> 1024 < v + 12" "pool + v \<noteq> 0"
  shows "create_node pool off value m = (pool + v,
    store_int (store_int (store_int (store_int m off (v + 12)) (pool + v) value) (pool + (v + 4)) 0) (pool + (v + 8)) 0)"
  using assms by (simp add: create_node_def pool_alloc_def members sizeof_Node_def POOL_SIZE_def add.assoc)

lemma add_edge_run: 
  assumes "load_int m off = v" "\<not> 1024 < v + 12" "pool + v \<noteq> 0" "from \<noteq> 0"
    "load_int (store_int (store_int (store_int m off (v + 12)) (pool + v) to) (pool + (v + 4)) weight) (from + 4) = n"
  shows "add_edge pool off from to weight m = Some (store_int (store_int (store_int (store_int 
     (store_int m off (v + 12)) (pool + v) to) (pool + (v + 4)) weight) (pool + (v + 8)) n) (from + 4) (pool + v))"
  using assms by (simp add: add_edge_def pool_alloc_def members sizeof_Edge_def POOL_SIZE_def add.assoc)

lemma graph_main_value:
  assumes "pool_ok pool off" "load_int m off = 0" shows "map_option fst (graph_main pool off m) = Some 59"
proof -
  note p = pool_apart [OF assms(1)] add.commute [of "numeral _" pool]
  show ?thesis
    by (simp add: graph_main_def create_node_run add_edge_run p assms(2) cong: bind_weak)
      (simp add: dfs_Dfs dfs_Edges members sum_aggregator_def max_aggregator_def in_int_def p Let_def cong: bind_weak)
qed

end
