(* ===== verification/HeapTest.thy ===== *)
theory HeapTest
  imports CMemory UserCalls
begin

text \<open>
  Test programs that check memory: \<^verbatim>\<open>user/programs/test13.c\<close> fills three blocks of the heap and
  \<^verbatim>\<open>user/programs/test12.c\<close> a large array, and both compare what they read back; and the factorial of
  \<^verbatim>\<open>user/programs/test1.c\<close>.  A program computes on a memory of its own and makes its calls to the model
  of the kernel: at each call the kernel may be in any state in which the process has the heap break and
  the descriptors that the call before left it (\<^verbatim>\<open>same_process\<close>), whatever the other processes and
  the host did meanwhile, and \<^verbatim>\<open>kernel_wp\<close> says that every call is answered, which lines the console is
  given and that the program returns.  That the memory a process sees is one of its own, which keeps what
  is written to it, is not shown here: it is what \<^verbatim>\<open>FlatRuns\<close> shows of machine programs.  The address of
  a string literal is given by \<open>lit\<close>, that of a global array by an argument.
\<close>

section \<open>Loops over arrays of integers\<close>

text \<open>\<^verbatim>\<open>a[i] = f(i)\<close> for the indices of a list, and the comparison with \<^verbatim>\<open>f\<close>.\<close>

definition element :: "Addr \<Rightarrow> nat \<Rightarrow> Addr" where
  "element a i = a + 4 * of_nat i"

definition fill :: "Addr \<Rightarrow> (nat \<Rightarrow> Word) \<Rightarrow> nat list \<Rightarrow> umem \<Rightarrow> umem" where
  "fill a f is m = foldl (\<lambda>m i. store_int m (element a i) (f i)) m is"

definition verify :: "Addr \<Rightarrow> (nat \<Rightarrow> Word) \<Rightarrow> nat list \<Rightarrow> umem \<Rightarrow> Word \<Rightarrow> Word" where
  "verify a f is m ok = foldl (\<lambda>ok i. if load_int m (element a i) \<noteq> f i then 0 else ok) ok is"

section \<open>The programs\<close>

definition line :: "string \<Rightarrow> string" where
  "line s = s @ [CHR 0x0A]"

definition heap_main :: "(string \<Rightarrow> Addr) \<Rightarrow> umem \<Rightarrow> Word user" where
  "heap_main lit m =
     ubind (c_putstr (lit (line ''[Malloc Test] Starting heap allocation test...'')) m) (\<lambda>_ m.
     ubind (c_putstr (lit (line ''[Malloc Test] Allocating small blocks...'')) m) (\<lambda>_ m.
     ubind (c_malloc (100 * 4) m) (\<lambda>arr1 m.
     ubind (c_malloc (250 * 4) m) (\<lambda>arr2 m.
     if arr1 = 0 \<or> arr2 = 0 then
       ubind (c_putstr (lit (line ''ERROR: malloc returned NULL for small blocks!'')) m) (\<lambda>_ m. Done 1 m)
     else
       let m = fill arr1 of_nat [0..<100] m;
           m = fill arr2 (\<lambda>i. of_nat i * 2) [0..<250] m
       in
       ubind (c_putstr (lit (line ''[Malloc Test] Allocating large block (200KB)...'')) m) (\<lambda>_ m.
       ubind (c_malloc (50000 * 4) m) (\<lambda>large_arr m.
       if large_arr = 0 then
         ubind (c_putstr (lit (line ''ERROR: malloc returned NULL for large block!'')) m) (\<lambda>_ m. Done 1 m)
       else
         let m = fill large_arr (\<lambda>i. - of_nat i) [0..<50000] m in
         ubind (c_putstr (lit (line ''[Malloc Test] Verifying data integrity...'')) m) (\<lambda>_ m.
         let ok = 1;
             ok = verify arr1 of_nat [0..<100] m ok;
             ok = verify arr2 (\<lambda>i. of_nat i * 2) [0..<250] m ok;
             ok = verify large_arr (\<lambda>i. - of_nat i) [0..<50000] m ok
         in
         ubind (if ok \<noteq> 0 then c_putstr (lit (line ''[Malloc Test] SUCCESS: All data matches perfectly!'')) m
                else c_putstr (lit (line ''[Malloc Test] FAILURE: Data corruption or overlap detected!'')) m) (\<lambda>_ m.
         ubind (c_putstr (lit (line ''[Malloc Test] Freeing memory...'')) m) (\<lambda>_ m.
         ubind (c_free arr1 m) (\<lambda>_ m.
         ubind (c_free arr2 m) (\<lambda>_ m.
         ubind (c_free large_arr m) (\<lambda>_ m.
         ubind (c_putstr (lit (line ''[Malloc Test] Test finished.'')) m) (\<lambda>_ m.
         Done 0 m)))))))))))))"

text \<open>The indices of the array that the loops of \<^verbatim>\<open>test12.c\<close> visit; the second loop returns at once.\<close>

definition NUM_INTS :: nat where
  "NUM_INTS = 512 * 1024"

definition strides :: "nat list" where
  "strides = map (\<lambda>i. 1024 * i) [0..<NUM_INTS div 1024]"

definition paging_main :: "(string \<Rightarrow> Addr) \<Rightarrow> Addr \<Rightarrow> umem \<Rightarrow> Word user" where
  "paging_main lit large_array m =
     ubind (c_putstr (lit (line ''Starting heavy memory allocation (2MB)...'')) m) (\<lambda>_ m.
     let m = fill large_array of_nat strides m in
     ubind (c_putstr (lit (line ''Finished writing! RAM is full and swapping occurred.'')) m) (\<lambda>_ m.
     ubind (c_putstr (lit (line ''Starting verification (Reading back)...'')) m) (\<lambda>_ m.
     if list_ex (\<lambda>i. load_int m (element large_array i) \<noteq> of_nat i) strides then
       ubind (c_putstr (lit (line ''ERROR: Data corruption detected during Swap-In!'')) m) (\<lambda>_ m. Done 1 m)
     else
       ubind (c_putstr (lit (line ''Verification successful! Swap mechanism is working perfectly.'')) m) (\<lambda>_ m. Done 0 m))))"

text \<open>\<^verbatim>\<open>factorial\<close> with a 32-bit argument and a 64-bit result; \<^verbatim>\<open>None\<close> where an operation overflows.\<close>

function factorial :: "int \<Rightarrow> int option" where
  "factorial n =
     (if n = 0 \<or> n = 1 then Some 1
      else if n - 1 < - (2 ^ 31) then None
      else Option.bind (factorial (n - 1)) (\<lambda>f.
        if - (2 ^ 63) \<le> n * f \<and> n * f < 2 ^ 63 then Some (n * f) else None))"
  by pat_completeness auto

termination by (relation "measure (\<lambda>n. nat (n + 2 ^ 31))") auto

declare factorial.simps [simp del]

definition factorial_main :: "Word option" where
  "factorial_main = map_option word_of_int (factorial 5)"

lemma factorial_is_fact:
  assumes "n \<le> 20" shows "factorial (int n) = Some (fact n)"
  using assms
proof (induction n)
  case 0
  show ?case
    by (subst factorial.simps) simp
next
  case (Suc n)
  show ?case
  proof (cases "n = 0")
    case True
    then show ?thesis
      by (subst factorial.simps) simp
  next
    case False
    have "fact (Suc n) \<le> (fact 20 :: int)"
      using Suc.prems by (intro fact_mono)
    also have "\<dots> < 2 ^ 63"
      by (simp add: fact_numeral)
    finally have f: "int (Suc n) * fact n < 2 ^ 63"
      by simp
    have "0 \<le> int (Suc n) * (fact n :: int)"
      by simp
    then have "- (2 ^ 63) \<le> int (Suc n) * (fact n :: int)"
      by (rule order_trans [rotated]) simp
    moreover have "int (Suc n) - 1 = int n" "int (Suc n) \<noteq> 0" "int (Suc n) \<noteq> 1"
      using False by simp_all
    moreover from this(1) have "factorial (int (Suc n) - 1) = Some (fact n)"
      using Suc by simp
    ultimately show ?thesis
      using f by (subst factorial.simps) (simp del: of_nat_Suc add: fact_Suc)
  qed
qed

lemma factorial_main_value: "factorial_main = Some 120"
  using factorial_is_fact [of 5] by (simp add: factorial_main_def fact_numeral)

section \<open>Arrays\<close>

lemma fill_Cons: "fill a f (i # is) m = fill a f is (store_int m (element a i) (f i))"
  by (simp add: fill_def)

lemma fill_other:
  assumes "\<And>i. i \<in> set is \<Longrightarrow> apart (element a i) c" shows "load_int (fill a f is m) c = load_int m c"
  using assms by (induction "is" arbitrary: m) (simp_all add: fill_Cons fill_def [of _ _ "[]"])

lemma fill_byte:
  assumes "\<And>i. i \<in> set is \<Longrightarrow> 4 \<le> unat (x - element a i)" shows "fill a f is m x = m x"
  using assms by (induction "is" arbitrary: m) (simp_all add: fill_Cons fill_def [of _ _ "[]"] store_int_byte)

lemma unat_element:
  assumes "unat a + 4 * i < 2 ^ 32" shows "unat (element a i) = unat a + 4 * i"
proof -
  have "unat (4 * of_nat i :: Addr) = 4 * i"
    using assms unat_of_nat [of "4 * i", where ?'a = 32] by simp
  then show ?thesis
    using assms unat_add_lem [of a "4 * of_nat i"] by (simp add: element_def)
qed

lemma elements_apart:
  assumes "unat a + 4 * i + 4 \<le> 2 ^ 32" "unat a + 4 * j + 4 \<le> 2 ^ 32" "i \<noteq> j"
  shows "apart (element a i) (element a j)"
  using assms apart_nats [of "element a i" "element a j"] apart_nats [of "element a j" "element a i"]
  by (cases "i < j") (simp_all add: unat_element)

lemma fill_read:
  assumes "distinct is" "\<And>i. i \<in> set is \<Longrightarrow> unat a + 4 * i + 4 \<le> 2 ^ 32" "i \<in> set is"
  shows "load_int (fill a f is m) (element a i) = f i"
  using assms
proof (induction "is" arbitrary: m)
  case (Cons j js)
  show ?case
  proof (cases "i = j")
    case True
    then have "apart (element a i') (element a i)" if "i' \<in> set js" for i'
      using Cons.prems that by (intro elements_apart) auto
    then show ?thesis
      using True by (simp add: fill_Cons fill_other)
  next
    case False
    then show ?thesis
      using Cons by (simp add: fill_Cons)
  qed
qed simp

lemma verify_ok:
  "(\<And>i. i \<in> set is \<Longrightarrow> load_int m (element a i) = f i) \<Longrightarrow> verify a f is m ok = ok"
  by (induction "is" arbitrary: ok) (simp_all add: verify_def)

section \<open>Programs on the kernel\<close>

text \<open>The process finds its heap break and its descriptors as it left them.\<close>

definition same_process :: "nat \<Rightarrow> 'w Kernel \<Rightarrow> 'w Kernel \<Rightarrow> bool" where
  "same_process p k k' \<longleftrightarrow> brk_of p k' = brk_of p k \<and> fds p k' = fds p k"

definition sees :: "umem \<Rightarrow> Addr \<Rightarrow> nat \<Rightarrow> 'w Kernel \<Rightarrow> bool" where
  "sees m a n k \<longleftrightarrow> user_bytes (cpu k) a n = text_at m a n"

text \<open>
  The program returns, with \<open>Q\<close> of what it has printed behind \<open>out\<close>, and every call on the way is
  answered; the bytes it prints are in memory when it prints them, and the host is given them as they
  are.  For programs that make no other calls than \<^verbatim>\<open>sbrk\<close> and \<^verbatim>\<open>write\<close> to the console.
\<close>

definition printed :: "'w Env \<Rightarrow> Byte list \<Rightarrow> 'w \<Rightarrow> 'w" where
  "printed env bs w = snd (host_write env 1 bs w)"

definition given :: "Word \<Rightarrow> Word list \<Rightarrow> umem \<Rightarrow> Byte list" where
  "given num args m = (if num = SYS_WRITE then text_at m (args ! 1) (unat (args ! 2)) else [])"

primrec kernel_wp :: "'w Env \<Rightarrow> nat \<Rightarrow> 'a user \<Rightarrow> 'w Kernel \<Rightarrow> Byte list \<Rightarrow>
    ('a \<Rightarrow> 'w Kernel \<Rightarrow> Byte list \<Rightarrow> bool) \<Rightarrow> bool" where
  "kernel_wp env p (Done x m) k out Q = Q x k out"
| "kernel_wp env p (Ecall num args m g) k out Q =
     (\<forall>i l. calling i l \<and> parent (at l i) = p \<and> same_process p k l \<and>
        (num = SYS_WRITE \<longrightarrow> sees m (args ! 1) (unat (args ! 2)) l) \<longrightarrow>
        (num = SYS_WRITE \<or> num = SYS_SBRK) \<and>
        (\<exists>k'. handleSyscall env num (put_call num args l) = Inr ((), k') \<and>
           world k' = (if num = SYS_WRITE then printed env (given num args m) (world l) else world l) \<and>
           kernel_wp env p (g (reg_val (cpu k') 10) m) k' (out @ given num args m) Q))"
| "kernel_wp env p Forever k out Q = False"
| "kernel_wp env p Undefined k out Q = False"

text \<open>A process whose heap ends at \<open>b\<close> and whose standard output is the console.\<close>

definition on_console :: "nat \<Rightarrow> Addr \<Rightarrow> 'w Kernel \<Rightarrow> bool" where
  "on_console p b k \<longleftrightarrow> brk_of p k = b \<and> break_ok b \<and> 1 < length (fds p k) \<and> fds p k ! 1 = Some (ConsoleHandle 1)"

text \<open>A literal in memory.\<close>

definition text_bytes :: "string \<Rightarrow> Byte list" where
  "text_bytes s = map of_char s"

definition literal_at :: "umem \<Rightarrow> Addr \<Rightarrow> string \<Rightarrow> bool" where
  "literal_at m a s \<longleftrightarrow> length s < 2 ^ 31 \<and> text_at m a (length s + 1) = text_bytes s @ [0] \<and> 0 \<notin> set (text_bytes s)"

lemma text_at_nth: "j < n \<Longrightarrow> text_at m a n ! j = m (a + of_nat j)"
  by (simp add: text_at_def)

lemma literal_parts:
  assumes "literal_at m a s"
  shows "m (a + of_nat (length s)) = 0" "j < length s \<Longrightarrow> m (a + of_nat j) \<noteq> 0" "length s \<le> 2147483647"
    "text_at m a (length s) = text_bytes s"
proof -
  have t: "text_at m a (length s + 1) = text_bytes s @ [0]" and l: "length (text_bytes s) = length s"
    and z: "0 \<notin> set (text_bytes s)"
    using assms by (simp_all add: literal_at_def text_bytes_def)
  show "m (a + of_nat (length s)) = 0"
    using text_at_nth [of "length s" "length s + 1" m a] l by (simp only: t nth_append) simp
  show "m (a + of_nat j) \<noteq> 0" if "j < length s"
    using text_at_nth [of j "length s + 1" m a] l z that nth_mem [of j "text_bytes s"]
    by (simp only: t nth_append) auto
  show "length s \<le> 2147483647"
    using assms by (simp add: literal_at_def)
  have "text_at m a (length s) = take (length s) (text_at m a (length s + 1))"
    by (rule nth_equalityI) (simp_all add: text_at_def)
  then show "text_at m a (length s) = text_bytes s"
    by (simp only: t) (simp add: l)
qed

text \<open>Printing a literal.\<close>

lemma wp_putstr:
  assumes "literal_at m a s" "on_console p b k"
    and "\<And>k'. on_console p b k' \<Longrightarrow> kernel_wp env p (f () m) k' (out @ text_bytes s) Q"
  shows "kernel_wp env p (ubind (c_putstr a m) f) k out Q"
proof -
  let ?n = "length s" and ?args = "[1, a, of_nat (length s)]"
  note l = literal_parts [OF assms(1)]
  have call: "ubind (c_putstr a m) f = Ecall SYS_WRITE ?args m (\<lambda>_. f ())"
    using putstr_writes [of m a ?n] l(1-3) by simp
  have n: "unat (of_nat ?n :: Word) = ?n"
    using l(3) by (simp add: unat_of_nat)
  then have o: "given SYS_WRITE ?args m = text_bytes s"
    using l(4) by (simp add: given_def)
  have "\<exists>k'. handleSyscall env SYS_WRITE (put_call SYS_WRITE ?args v) = Inr ((), k') \<and>
      world k' = printed env (text_bytes s) (world v) \<and> kernel_wp env p (f () m) k' (out @ text_bytes s) Q"
    if v: "calling i v" "parent (at v i) = p" "same_process p k v" "sees m a ?n v" for i v
  proof -
    note args = put_call_args(3-6) [OF calling_machine(3) [OF v(1)], of SYS_WRITE 1 a "of_nat ?n"]
    note same = put_call_calling [OF v(1) args(1)]
    have h: "1 < length (fds p v)" "fds p v ! 1 = Some (ConsoleHandle 1)" "brk_of p v = b"
      using v(3) assms(2) by (simp_all add: same_process_def on_console_def)
    have "sint (reg_val (cpu (put_call SYS_WRITE ?args v)) 10) = int 1"
      by (simp add: args(2))
    moreover have "user_bytes (cpu (put_call SYS_WRITE ?args v)) a ?n = text_bytes s"
      using v(4) l(4) by (simp add: sees_def user_bytes_def same(5))
    ultimately obtain k' where k': "handleSyscall env SYS_WRITE (put_call SYS_WRITE ?args v) = Inr ((), k')"
      "world k' = printed env (text_bytes s) (world v)" "processList k' = processList v"
      using console_call [OF same(1), of 1 1 env] h v(2) by (auto simp: same args n printed_def)
    have "on_console p b k'"
      using assms(2) k'(3) h by (simp add: on_console_def)
    then show ?thesis
      using k'(1,2) assms(3) by blast
  qed
  then show ?thesis
    by (auto simp: call n o)
qed

text \<open>Allocation of \<open>sz\<close> bytes, a multiple of eight, that fit below the heap's limit.\<close>

lemma wp_malloc:
  assumes "on_console p b k" "0 < sint sz" "sint sz + 7 < 2 ^ 31" "(sz + 7) AND NOT 7 = sz"
    and "uint b + sint sz \<le> uint HEAP_MAX_LIMIT"
    and "\<And>k'. on_console p (b + sz) k' \<Longrightarrow> kernel_wp env p (f b m) k' out Q"
  shows "kernel_wp env p (ubind (c_malloc sz m) f) k out Q"
proof -
  have call: "ubind (c_malloc sz m) f = Ecall SYS_SBRK [sz] m (\<lambda>ptr. f (if ptr = -1 then 0 else ptr))"
    using assms(2-4) by (simp add: c_malloc_def c_sbrk_def c_syscall_def)
  have b: "break_ok b"
    using assms(1) by (simp add: on_console_def)
  have "16777216 \<le> moved_break b sz" "moved_break b sz \<le> 33554432"
    using b assms(2,5) by (simp_all add: moved_break_def break_ok_def word_le_def heap_bounds)
  then have new: "break_ok (b + sz)"
    using break_range(1) [OF b, of sz] by simp
  have nz: "b \<noteq> -1"
    using b by (auto simp: break_ok_def word_le_def heap_bounds unsigned_minus_1_eq_mask mask_eq_exp_minus_1)
  have "\<exists>k'. handleSyscall env SYS_SBRK (put_call SYS_SBRK [sz] v) = Inr ((), k') \<and> world k' = world v \<and>
      kernel_wp env p (f (if reg_val (cpu k') 10 = -1 then 0 else reg_val (cpu k') 10) m) k' out Q"
    if v: "calling i v" "parent (at v i) = p" "same_process p k v" for i v
  proof -
    note args = put_call_args(1,2) [OF calling_machine(3) [OF v(1)], of SYS_SBRK sz]
    note same = put_call_calling [OF v(1) args(1)]
    have h: "1 < length (fds p v)" "fds p v ! 1 = Some (ConsoleHandle 1)" "brk_of p v = b"
      using v(3) assms(1) by (simp_all add: same_process_def on_console_def)
    obtain k' where k': "handleSyscall env SYS_SBRK (put_call SYS_SBRK [sz] v) = Inr ((), k')"
      "returned b (put_call SYS_SBRK [sz] v) k'" "brk_of p k' = b + sz" "world k' = world v" "fds p k' = fds p v"
      using sbrk_call [OF same(1) _ args(2), where env = env, unfolded same(2-4)] b new h(3) v(2) by auto
    have "reg_val (cpu k') 10 = b"
      using k'(2) args(1) by (simp add: returned_def reg_val_def rf_set_def rf_ok_def)
    moreover have "on_console p (b + sz) k'"
      using k'(3,5) h(1,2) new by (simp add: on_console_def)
    ultimately show ?thesis
      using k'(1,4) assms(6) nz by auto
  qed
  moreover have "given SYS_SBRK [sz] m = []"
    by (simp add: given_def)
  ultimately show ?thesis
    unfolding call by (auto split del: if_split)
qed

section \<open>The tests succeed\<close>

text \<open>The bytes of a text, its zero byte included, lie outside a range of addresses.\<close>

definition clear_of :: "Addr \<Rightarrow> Addr \<Rightarrow> Addr \<Rightarrow> nat \<Rightarrow> bool" where
  "clear_of lo hi a n \<longleftrightarrow> (\<forall>j \<le> n. a + of_nat j < lo \<or> hi \<le> a + of_nat j)"

definition within :: "Addr \<Rightarrow> Addr \<Rightarrow> Addr \<Rightarrow> nat list \<Rightarrow> bool" where
  "within lo hi a is \<longleftrightarrow> unat lo \<le> unat a \<and> (\<forall>i \<in> set is. unat a + 4 * i + 4 \<le> unat hi)"

lemma unat_below: "unat (a :: Addr) < 2 ^ 32"
  by (rule order_less_le_trans [OF unsigned_less]) simp

lemma fill_outside:
  assumes "within lo hi a is" "x < lo \<or> hi \<le> x" shows "fill a f is m x = m x"
proof (rule fill_byte)
  fix i assume i: "i \<in> set is"
  have h: "unat hi < 2 ^ 32"
    by (rule unat_below)
  have a: "unat lo \<le> unat a" "unat a + 4 * i + 4 \<le> unat hi"
    using assms(1) i by (simp_all add: within_def)
  then have e: "unat (element a i) = unat a + 4 * i"
    using h by (intro unat_element) linarith
  show "4 \<le> unat (x - element a i)"
  proof (cases "x < lo")
    case True
    then have "unat x < unat (element a i)"
      using e a by (simp add: word_less_nat_alt)
    then show ?thesis
      using e a h unat_sub_if' [of x "element a i"] by auto
  next
    case False
    then have "unat hi \<le> unat x"
      using assms(2) by (simp add: word_le_nat_alt)
    then show ?thesis
      using e a unat_sub_if' [of x "element a i"] by auto
  qed
qed

lemma literal_fill:
  assumes "literal_at m s t" "clear_of lo hi s (length t)" "within lo hi a is"
  shows "literal_at (fill a f is m) s t"
proof -
  have "text_at (fill a f is m) s (length t + 1) = text_at m s (length t + 1)"
    using assms(2) fill_outside [OF assms(3)] by (simp add: text_at_def clear_of_def less_Suc_eq_le)
  then show ?thesis
    using assms(1) by (simp add: literal_at_def)
qed

lemma fill_before:
  assumes "within lo hi a is" "unat c + 4 \<le> unat lo" shows "load_int (fill a f is m) c = load_int m c"
proof (rule fill_other)
  fix i assume "i \<in> set is"
  then have a: "unat lo \<le> unat a" "unat a + 4 * i + 4 \<le> unat hi"
    using assms(1) by (simp_all add: within_def)
  moreover have "unat hi < 2 ^ 32"
    by (rule unat_below)
  ultimately show "apart (element a i) c"
    using assms(2) by (intro apart_nats(2)) (simp_all add: unat_element)
qed

lemma fill_within:
  assumes "within lo hi a is" "distinct is" "i \<in> set is"
  shows "load_int (fill a f is m) (element a i) = f i" "unat (element a i) + 4 \<le> unat hi"
proof -
  have h: "unat hi < 2 ^ 32"
    by (rule unat_below)
  have a: "unat a + 4 * j + 4 \<le> unat hi" if "j \<in> set is" for j
    using assms(1) that by (simp add: within_def)
  show "load_int (fill a f is m) (element a i) = f i"
  proof (rule fill_read [OF assms(2) _ assms(3)])
    show "unat a + 4 * j + 4 \<le> 2 ^ 32" if "j \<in> set is" for j
      using a [OF that] h by linarith
  qed
  show "unat (element a i) + 4 \<le> unat hi"
    using a [OF assms(3)] h by (subst unat_element) linarith+
qed

definition heap_texts :: "string list" where
  "heap_texts = map line
     [''[Malloc Test] Starting heap allocation test...'', ''[Malloc Test] Allocating small blocks...'',
      ''[Malloc Test] Allocating large block (200KB)...'', ''[Malloc Test] Verifying data integrity...'',
      ''[Malloc Test] SUCCESS: All data matches perfectly!'', ''[Malloc Test] Freeing memory...'',
      ''[Malloc Test] Test finished.'']"

definition says :: "string list \<Rightarrow> Byte list" where
  "says ts = concat (map text_bytes ts)"

definition literals :: "umem \<Rightarrow> (string \<Rightarrow> Addr) \<Rightarrow> Addr \<Rightarrow> Addr \<Rightarrow> string list \<Rightarrow> bool" where
  "literals m lit lo hi ts \<longleftrightarrow> (\<forall>t \<in> set ts. literal_at m (lit t) t \<and> clear_of lo hi (lit t) (length t))"

lemma literals_fill: "literals m lit lo hi ts \<Longrightarrow> within lo hi a is \<Longrightarrow> literals (fill a f is m) lit lo hi ts"
  using literal_fill by (auto simp: literals_def)

lemma within_mono: "within lo hi a is \<Longrightarrow> unat lo' \<le> unat lo \<Longrightarrow> unat hi \<le> unat hi' \<Longrightarrow> within lo' hi' a is"
  by (auto simp: within_def)

text \<open>The comparison after the three fills finds nothing.\<close>

lemma heap_verified:
  fixes b :: Addr and m :: umem
  assumes "unat b + 201400 < 2 ^ 32"
  defines "m1 \<equiv> fill b of_nat [0..<100] m"
  defines "m2 \<equiv> fill (b + 400) (\<lambda>i. of_nat i * 2) [0..<250] m1"
  defines "m3 \<equiv> fill (b + 1400) (\<lambda>i. - of_nat i) [0..<50000] m2"
  shows "verify b of_nat [0..<100] m3 1 = 1" "verify (b + 400) (\<lambda>i. of_nat i * 2) [0..<250] m3 1 = 1"
    "verify (b + 1400) (\<lambda>i. - of_nat i) [0..<50000] m3 1 = 1"
    "literals m lit b (b + 201400) ts \<Longrightarrow> literals m1 lit b (b + 201400) ts"
    "literals m lit b (b + 201400) ts \<Longrightarrow> literals m2 lit b (b + 201400) ts"
    "literals m lit b (b + 201400) ts \<Longrightarrow> literals m3 lit b (b + 201400) ts"
proof -
  have u: "unat (b + 400) = unat b + 400" "unat (b + 1400) = unat b + 1400" "unat (b + 201400) = unat b + 201400"
    using assms(1) unat_add_lem [of b 400] unat_add_lem [of b 1400] unat_add_lem [of b 201400] by simp_all
  have w: "within b (b + 400) b [0..<100]" "within (b + 400) (b + 1400) (b + 400) [0..<250]"
    "within (b + 1400) (b + 201400) (b + 1400) [0..<50000]"
    using u by (auto simp: within_def simp del: upt_rec_numeral)
  have "load_int m3 (element b i) = of_nat i" if "i \<in> set [0..<100]" for i
    using fill_within [OF w(1) _ that] fill_before [OF w(2), of "element b i"] fill_before [OF w(3), of "element b i"] u
    unfolding m1_def m2_def m3_def by (simp del: upt_rec_numeral)
  then show "verify b of_nat [0..<100] m3 1 = 1"
    by (rule verify_ok)
  have "load_int m3 (element (b + 400) i) = of_nat i * 2" if "i \<in> set [0..<250]" for i
    using fill_within [OF w(2) _ that] fill_before [OF w(3), of "element (b + 400) i"] u
    unfolding m2_def m3_def by (simp del: upt_rec_numeral)
  then show "verify (b + 400) (\<lambda>i. of_nat i * 2) [0..<250] m3 1 = 1"
    by (rule verify_ok)
  have "load_int m3 (element (b + 1400) i) = - of_nat i" if "i \<in> set [0..<50000]" for i
    using fill_within(1) [OF w(3) _ that] unfolding m3_def by (simp del: upt_rec_numeral)
  then show "verify (b + 1400) (\<lambda>i. - of_nat i) [0..<50000] m3 1 = 1"
    by (rule verify_ok)
  have W: "within b (b + 201400) b [0..<100]" "within b (b + 201400) (b + 400) [0..<250]"
    "within b (b + 201400) (b + 1400) [0..<50000]"
    by (rule within_mono [OF w(1)] within_mono [OF w(2)] within_mono [OF w(3)]; simp add: u)+
  show "literals m1 lit b (b + 201400) ts" if "literals m lit b (b + 201400) ts"
    unfolding m1_def by (rule literals_fill [OF that W(1)])
  then show "literals m2 lit b (b + 201400) ts" if "literals m lit b (b + 201400) ts"
    unfolding m2_def using that literals_fill [OF _ W(2)] by blast
  then show "literals m3 lit b (b + 201400) ts" if "literals m lit b (b + 201400) ts"
    unfolding m3_def using that literals_fill [OF _ W(3)] by blast
qed

lemma literals_at: "literals m lit lo hi ts \<Longrightarrow> t \<in> set ts \<Longrightarrow> literal_at m (lit t) t"
  by (simp add: literals_def)

lemma heap_run:
  assumes "on_console p b k" "uint b + 201400 \<le> uint HEAP_MAX_LIMIT" "literals m lit b (b + 201400) heap_texts"
  shows "kernel_wp env p (heap_main lit m) k []
    (\<lambda>x k' out. x = 0 \<and> out = says heap_texts \<and> brk_of p k' = b + 201400)"
proof -
  have b: "16777216 \<le> uint b"
    using assms(1) by (simp add: on_console_def break_ok_def word_le_def heap_bounds)
  have h: "uint b + 201400 \<le> 33554432"
    using assms(2) by (simp add: heap_bounds)
  have sums: "uint (b + 400) = uint b + 400" "uint (b + 1400) = uint b + 1400"
    using h uint_nonnegative [of b] by (simp_all add: uint_word_ariths)
  have nz: "b \<noteq> 0" "b + 400 \<noteq> 0" "b + 1400 \<noteq> 0"
    using b sums by (auto simp: word_uint_eq_iff)
  have u: "unat b + 201400 < 2 ^ 32"
  proof -
    obtain i where i: "unat b = i" "uint b = int i"
      by (rule that [of "unat b"]) simp_all
    show ?thesis
      using h by (simp only: i) simp
  qed
  have fits: "uint b + sint (400 :: Word) \<le> uint HEAP_MAX_LIMIT" "uint (b + 400) + sint (1000 :: Word) \<le> uint HEAP_MAX_LIMIT"
    "uint (b + 1400) + sint (200000 :: Word) \<le> uint HEAP_MAX_LIMIT"
    using h by (simp_all add: sums heap_bounds)
  have n: "100 * 4 = (400 :: Word)" "250 * 4 = (1000 :: Word)" "50000 * 4 = (200000 :: Word)"
    "b + 400 + 1000 = b + 1400" "b + 1400 + 200000 = b + 201400"
    by simp_all
  note v = heap_verified [OF u, where m = m]
  note l = literals_at [OF assms(3)] literals_at [OF v(5) [OF assms(3)]] literals_at [OF v(6) [OF assms(3)]]
  show ?thesis
    unfolding heap_main_def n(1-3)
    apply (rule wp_putstr [OF l(1) assms(1)], simp add: heap_texts_def)
    apply (rule wp_putstr [OF l(1)], simp add: heap_texts_def, assumption)
    apply (rule wp_malloc [OF _ _ _ _ fits(1)], assumption, simp, simp, simp)
    apply (rule wp_malloc [OF _ _ _ _ fits(2)], assumption, simp, simp, simp)
    apply (simp only: nz n(4) Let_def simp_thms if_False)
    apply (rule wp_putstr [OF l(2)], simp add: heap_texts_def, assumption)
    apply (rule wp_malloc [OF _ _ _ _ fits(3)], assumption, simp, simp, simp)
    apply (simp only: nz n(5) Let_def simp_thms if_False)
    apply (rule wp_putstr [OF l(3)], simp add: heap_texts_def, assumption)
    apply (simp only: v(1-3) one_neq_zero simp_thms if_True not_False_eq_True)
    apply (rule wp_putstr [OF l(3)], simp add: heap_texts_def, assumption)
    apply (rule wp_putstr [OF l(3)], simp add: heap_texts_def, assumption)
    apply (simp only: c_free_def ubind.simps)
    apply (rule wp_putstr [OF l(3)], simp add: heap_texts_def, assumption)
    apply (simp add: on_console_def says_def heap_texts_def)
    done
qed

definition paging_texts :: "string list" where
  "paging_texts = map line
     [''Starting heavy memory allocation (2MB)...'', ''Finished writing! RAM is full and swapping occurred.'',
      ''Starting verification (Reading back)...'', ''Verification successful! Swap mechanism is working perfectly.'']"

lemma paging_run:
  assumes "on_console p b k" "unat a + 2097152 < 2 ^ 32" "literals m lit a (a + 2097152) paging_texts"
  shows "kernel_wp env p (paging_main lit a m) k [] (\<lambda>x k' out. x = 0 \<and> out = says paging_texts)"
proof -
  let ?m = "fill a of_nat strides m"
  have "unat (a + 2097152) = unat a + 2097152"
    using assms(2) unat_add_lem [of a 2097152] by simp
  then have w: "within a (a + 2097152) a strides" "distinct strides"
    by (auto simp: within_def strides_def NUM_INTS_def distinct_map inj_on_def simp del: upt_rec_numeral)
  have "\<not> list_ex (\<lambda>i. load_int ?m (element a i) \<noteq> of_nat i) strides"
    using fill_within(1) [OF w] by (auto simp: list_ex_iff)
  note l = literals_at [OF assms(3)] literals_at [OF literals_fill [OF assms(3) w(1)]] this
  show ?thesis
    unfolding paging_main_def
    apply (rule wp_putstr [OF l(1) assms(1)], simp add: paging_texts_def)
    apply (simp only: Let_def)
    apply (rule wp_putstr [OF l(2)], simp add: paging_texts_def, assumption)
    apply (rule wp_putstr [OF l(2)], simp add: paging_texts_def, assumption)
    apply (simp only: l(3) if_False)
    apply (rule wp_putstr [OF l(2)], simp add: paging_texts_def, assumption)
    apply (simp add: on_console_def says_def paging_texts_def)
    done
qed

end
