(* ===== verification/Program_Properties.thy ===== *)
theory Program_Properties
  imports CounterTest GraphTest HeapTest Call_Properties
begin

text \<open>
  What the test programs of \<^verbatim>\<open>user/programs\<close> compute on the kernel, with runs on concrete states.
\<close>

section \<open>Workers that share a counter\<close>

text \<open>C13: The counter test ends with the right count, however its threads are interleaved: no step fails,
  every run is finite, and when no worker can go on all of them have left the loop and the counter
  is the number of workers times the number of turns, 300 for the three workers and hundred turns
  of the test.\<close>

theorem counter_test_succeeds:
  assumes "mutex_ok p m (sys c)" "mutex_at p m (sys c) = Mutex_new" "begins n ts c" "distinct ts"
    and "\<And>t. t \<in> set ts \<Longrightarrow> t < length (allThreads (sys c)) \<and> pickable (sys c) t"
    and "(moves (Mutex_acquire p m) (Mutex_release p m) thread_quit pickable n ts ^^ k) c c'"
  shows "k \<le> length ts * (4 * n + 1) * (length ts + 1) + length ts \<and>
    (\<forall>w. can_run pickable ts w c' \<longrightarrow> (\<exists>d. worker_step (Mutex_acquire p m) (Mutex_release p m) thread_quit n (ts ! w) w c' = Inr d)) \<and>
    ((\<nexists>d. moves (Mutex_acquire p m) (Mutex_release p m) thread_quit pickable n ts c' d) \<longrightarrow>
       (\<forall>w < length ts. point (workers c' ! w) = Gone) \<and> counter c' = of_nat (length ts * n))"
proof -
  have "test_lock.orderly p m n ts c"
    using assms(1-5) by (intro test_lock.orderly_begin) (auto simp: Mutex_new_def)
  note t = test_lock.test_succeeds [OF this assms(6)]
  show ?thesis
    using t(1) t(3) by (intro conjI allI impI t(2)) simp_all
qed

definition two_workers :: "unit Kernel test" where
  "two_workers = \<lparr>sys = two_processes, counter = 0, workers = replicate 2 (worker_new 100)\<rparr>"

lemma two_workers_start:
  "mutex_ok 0 0 (sys two_workers)" "mutex_at 0 0 (sys two_workers) = Mutex_new" "begins 100 [0, 2] two_workers"
  "t \<in> set [0, 2] \<Longrightarrow> t < length (allThreads (sys two_workers)) \<and> pickable (sys two_workers) t"
proof -
  have "mutex_at 0 0 two_processes = Mutex_new" "mutexList (processList two_processes ! 0) = [Mutex_new]"
    by (simp_all add: mutex_at_def two_processes_first demo_process_def)
  then show "mutex_ok 0 0 (sys two_workers)" "mutex_at 0 0 (sys two_workers) = Mutex_new"
    by (simp_all add: two_workers_def mutex_ok_def two_processes_length Mutex_new_def)
  show "begins 100 [0, 2] two_workers"
    by (simp add: begins_def two_workers_def numeral_2_eq_2)
  show "t \<in> set [0, 2] \<Longrightarrow> t < length (allThreads (sys two_workers)) \<and> pickable (sys two_workers) t"
    by (auto simp: two_workers_def two_processes_def pickable_def thread_at_def)
qed

theorem counter_test_succeeds_witness:
  "\<exists>k c'. (moves (Mutex_acquire 0 0) (Mutex_release 0 0) thread_quit pickable 100 [0, 2] ^^ k) two_workers c' \<and>
    point (workers c' ! 0) = Gone \<and> point (workers c' ! 1) = Gone \<and> counter c' = 200"
proof -
  note s = two_workers_start
  have "test_lock.orderly 0 0 100 [0, 2] two_workers"
    using s by (intro test_lock.orderly_begin) (auto simp: Mutex_new_def)
  then obtain k c' where run: "(moves (Mutex_acquire 0 0) (Mutex_release 0 0) thread_quit pickable 100 [0, 2] ^^ k) two_workers c'"
    "\<nexists>d. moves (Mutex_acquire 0 0) (Mutex_release 0 0) thread_quit pickable 100 [0, 2] c' d"
    using test_lock.run_to_end by blast
  have "(\<forall>w < length [0 :: nat, 2]. point (workers c' ! w) = Gone) \<and> counter c' = of_nat (length [0 :: nat, 2] * 100)"
    using counter_test_succeeds [OF s(1-3) _ s(4) run(1)] run(2) by simp
  then have "point (workers c' ! 0) = Gone" "point (workers c' ! 1) = Gone" "counter c' = 200"
    by simp_all
  then show ?thesis
    using run(1) by blast
qed

section \<open>A traversal of a graph\<close>

text \<open>C15: The depth-first traversal of the test program is right on every graph in memory, with cycles or
  without: it returns, unless the aggregator is undefined on what it is given, having marked exactly
  the nodes that can be reached along unmarked nodes and changed no other byte, and its result is the
  aggregator applied to the edges out of these nodes, each edge once.\<close>

theorem dfs_meets_every_edge_once:
  assumes "laid_out G m M" "n \<in> nodes G"
  shows "\<exists>m' es. laid_out G m' (M \<union> reached G M n) \<and> only_marks G m m' \<and>
    mset es = (\<Sum>x \<in> reached G M n. mset (out G x)) \<and>
    (\<forall>agg acc. dfs agg (Dfs n) acc m = map_option (\<lambda>r. (r, m')) (combine agg (val G) es acc))"
  using assms(2,1) by (rule dfs_traverses)

text \<open>A node of value 7 with an edge of weight 5 to itself.\<close>

definition self_loop :: graph where
  "self_loop = \<lparr>nodes = {0x100}, out = (\<lambda>_. [(0x200, 0x100, 5)]), val = (\<lambda>_. 7)\<rparr>"

definition self_loop_memory :: umem where
  "self_loop_memory =
     store_int (store_int (store_int (store_int (\<lambda>_. 0) 0x100 7) 0x104 0x200) 0x200 0x100) 0x204 5"

lemma load_zero: "load_int (\<lambda>_. 0) a = 0"
proof -
  have "load_int (store_int (\<lambda>_. 0) a 0) a = load_int (\<lambda>_. 0) a"
    by (rule load_int_cong) (simp add: store_int_def)
  then show ?thesis by simp
qed

lemma self_loop_laid_out: "laid_out self_loop self_loop_memory {}"
proof -
  have "load_int self_loop_memory 0x108 = 0" "load_int self_loop_memory 0x208 = 0"
    by (simp_all add: self_loop_memory_def load_zero)
  then show ?thesis
    by (simp add: laid_out_def self_loop_def targets_def fixed_fields_def edge_fields_def members)
      (simp add: self_loop_memory_def)
qed

theorem dfs_meets_every_edge_once_witness:
  "\<exists>m'. dfs sum_aggregator (Dfs 0x100) 0 self_loop_memory = Some (35, m') \<and> load_int m' 0x108 \<noteq> 0"
proof -
  have s: "steps self_loop {} = {(0x100, 0x100)}"
    by (auto simp: steps_def self_loop_def targets_def)
  have "x = 0x100" if "(0x100, x) \<in> (steps self_loop {})\<^sup>*" for x
    using that by induction (auto simp: s)
  then have r: "reached self_loop {} 0x100 = {0x100}"
    by (auto simp: reached_def)
  obtain m' es where o: "laid_out self_loop m' {0x100}" "mset es = {#(0x200, 0x100, 5)#}"
    "dfs sum_aggregator (Dfs 0x100) 0 self_loop_memory =
       map_option (\<lambda>r. (r, m')) (combine sum_aggregator (val self_loop) es 0)"
    using dfs_meets_every_edge_once [OF self_loop_laid_out, of "0x100"] by (auto simp: r) (auto simp: self_loop_def)
  then have "es = [(0x200, 0x100, 5)]"
    by simp
  then show ?thesis
    using o laid_out_parts(7) [OF o(1), of "0x100"] by (simp add: self_loop_def sum_aggregator_def in_int_def members)
qed

section \<open>A test of the heap\<close>

text \<open>The heap test, as a program over a memory of its own: its three blocks do not overlap each other or
  its literals, what it writes to them is what it reads back, every call it makes is answered, the console
  is given its seven messages, the one that reports success among them, and it returns 0.\<close>

theorem heap_test_succeeds:
  assumes "on_console p b k" "uint b + 201400 \<le> uint HEAP_MAX_LIMIT" "literals m lit b (b + 201400) heap_texts"
  shows "kernel_wp env p (heap_main lit m) k []
    (\<lambda>x k' out. x = 0 \<and> out = says heap_texts \<and> brk_of p k' = b + 201400)"
  using assms by (rule heap_run)

text \<open>The literals of a program one behind the other, from address 0.\<close>

definition rodata :: "string list \<Rightarrow> Byte list" where
  "rodata ts = concat (map (\<lambda>t. text_bytes t @ [0]) ts)"

primrec offset_of :: "string list \<Rightarrow> string \<Rightarrow> nat" where
  "offset_of [] t = 0"
| "offset_of (x # xs) t = (if x = t then 0 else length x + 1 + offset_of xs t)"

definition image_of :: "string list \<Rightarrow> umem" where
  "image_of ts a = (if unat a < length (rodata ts) then rodata ts ! unat a else 0)"

lemma rodata_at:
  assumes "t \<in> set ts"
  shows "offset_of ts t + length t + 1 \<le> length (rodata ts)"
    "j < length t + 1 \<Longrightarrow> rodata ts ! (offset_of ts t + j) = (text_bytes t @ [0]) ! j"
  using assms by (induction ts) (auto simp: rodata_def nth_append text_bytes_def)

lemma image_literal:
  assumes "t \<in> set ts" "length (rodata ts) < 2 ^ 24" "0 \<notin> set (text_bytes t)"
  shows "text_at (image_of ts) (of_nat (offset_of ts t)) (length t + 1) = text_bytes t @ [0]"
    "literal_at (image_of ts) (of_nat (offset_of ts t)) t" "j \<le> length t \<Longrightarrow> of_nat (offset_of ts t) + of_nat j < (2 ^ 24 :: Addr)"
proof -
  have u: "unat (of_nat (offset_of ts t) + of_nat j :: Addr) = offset_of ts t + j" if "j \<le> length t" for j
    using rodata_at(1) [OF assms(1)] assms(2) that unat_of_nat [of "offset_of ts t + j", where ?'a = 32] by simp
  show t: "text_at (image_of ts) (of_nat (offset_of ts t)) (length t + 1) = text_bytes t @ [0]"
  proof (rule nth_equalityI)
    fix j assume "j < length (text_at (image_of ts) (of_nat (offset_of ts t)) (length t + 1))"
    then have "j < length t + 1"
      by (simp add: text_at_def)
    then show "text_at (image_of ts) (of_nat (offset_of ts t)) (length t + 1) ! j = (text_bytes t @ [0]) ! j"
      using u [of j] rodata_at [OF assms(1)] by (simp only: text_at_nth) (simp add: image_of_def del: of_nat_add)
  qed (simp add: text_at_def text_bytes_def)
  show "literal_at (image_of ts) (of_nat (offset_of ts t)) t"
    using t rodata_at(1) [OF assms(1)] assms(2,3) by (simp add: literal_at_def)
  show "of_nat (offset_of ts t) + of_nat j < (2 ^ 24 :: Addr)" if "j \<le> length t"
    using u [OF that] rodata_at(1) [OF assms(1)] assms(2) that by (simp add: word_less_nat_alt)
qed

definition test_lit :: "string \<Rightarrow> Addr" where
  "test_lit t = of_nat (offset_of heap_texts t)"

lemma heap_texts_small: "length (rodata heap_texts) \<le> 4096" "t \<in> set heap_texts \<Longrightarrow> 0 \<notin> set (text_bytes t)"
  by (auto simp: rodata_def heap_texts_def line_def text_bytes_def)

lemma heap_texts_placed: "literals (image_of heap_texts) test_lit 0x1002000 hi heap_texts"
proof -
  have "of_nat (offset_of heap_texts t) + of_nat j < (0x1002000 :: Addr)" if "t \<in> set heap_texts" "j \<le> length t" for t j
  proof -
    have "of_nat (offset_of heap_texts t) + of_nat j < (2 ^ 24 :: Addr)"
      using that heap_texts_small by (intro image_literal(3)) auto
    also have "(2 ^ 24 :: Addr) \<le> 0x1002000"
      by simp
    finally show ?thesis .
  qed
  then show ?thesis
    using heap_texts_small by (auto simp: literals_def clear_of_def test_lit_def intro!: image_literal(2))
qed

text \<open>The test on a kernel whose host records what it is told: the first call is answered, and so is the rest.\<close>

definition test_kernel :: "Byte list Kernel" where
  "test_kernel = console_kernel (rodata heap_texts)"

lemma test_kernel_console: "on_console 0 0x1002000 test_kernel"
  using console_fds(2-5) [of "rodata heap_texts"]
  by (simp add: on_console_def test_kernel_def)
    (simp add: console_kernel_def two_processes_first demo_process_def break_ok_def layout_defs)

lemma test_kernel_sees: "sees (image_of heap_texts) 0 47 test_kernel"
proof -
  have "user_byte (cpu test_kernel) (of_nat j) = image_of heap_texts (of_nat j)" if "j < 47" for j
  proof -
    have "47 \<le> length (rodata heap_texts)"
      by (simp add: rodata_def heap_texts_def line_def text_bytes_def)
    then show ?thesis
      using that heap_texts_small(1) unat_of_nat [of j, where ?'a = 32] demo_byte [of "of_nat j" "rodata heap_texts"]
      by (simp add: test_kernel_def console_fds image_of_def)
  qed
  then show ?thesis
    by (simp add: sees_def user_bytes_def text_at_def)
qed

theorem heap_test_succeeds_witness:
  "\<exists>k' g. heap_main test_lit (image_of heap_texts) = Ecall SYS_WRITE [1, 0, 47] (image_of heap_texts) g \<and>
    handleSyscall recording_env SYS_WRITE (put_call SYS_WRITE [1, 0, 47] test_kernel) = Inr ((), k') \<and>
    kernel_wp recording_env 0 (g (reg_val (cpu k') 10) (image_of heap_texts)) k' (text_at (image_of heap_texts) 0 47)
      (\<lambda>x l out. x = 0 \<and> out = says heap_texts \<and> brk_of 0 l = 0x1002000 + 201400)"
proof -
  let ?m = "image_of heap_texts" and ?t = "line ''[Malloc Test] Starting heap allocation test...''"
  have w: "kernel_wp recording_env 0 (heap_main test_lit ?m) test_kernel []
    (\<lambda>x l out. x = 0 \<and> out = says heap_texts \<and> brk_of 0 l = 0x1002000 + 201400)"
    by (rule heap_test_succeeds [OF test_kernel_console _ heap_texts_placed]) (simp add: heap_bounds)
  have t: "test_lit ?t = 0" "length ?t = 47" "literal_at ?m (test_lit ?t) ?t"
    using literals_at [OF heap_texts_placed, of ?t] by (simp_all add: test_lit_def heap_texts_def line_def)
  then obtain g where g: "heap_main test_lit ?m = Ecall SYS_WRITE [1, 0, 47] ?m g"
    using putstr_writes [of ?m "test_lit ?t" 47] literal_parts(1-3) [OF t(3)] by (simp add: heap_main_def)
  have "calling 0 test_kernel" "parent (at test_kernel 0) = 0" "same_process 0 test_kernel test_kernel"
    using console_calling [OF heap_texts_small(1)] console_fds(1) by (simp_all add: test_kernel_def same_process_def)
  then show ?thesis
    using w test_kernel_sees unfolding g by (auto simp: given_def)
qed

end
