(* ===== verification/FlatMemory.thy ===== *)
theory FlatMemory
  imports RunSafety Images
begin

text \<open>
  The memory a user program sees: a flat partial map from addresses to bytes for every process, of
  which the frames, the page tables, the swap area and the program's file are an implementation.
  A page that must be kept (\<^verbatim>\<open>saved\<close>) is what the kernel holds of it; any other page is what
  \<^verbatim>\<open>memory/VirtualMemoryManager.cpp\<close> would supply on a fault: the image of the program's file, or zeros in
  the heap.  A fresh stack page is whatever its frame held, so its bytes are undefined.
\<close>

section \<open>The memory a program is promised\<close>

definition first_page :: "Segment \<Rightarrow> nat" where
  "first_page seg = unat (seg_vaddr seg) div 4096"

definition end_page :: "Segment \<Rightarrow> nat" where
  "end_page seg = (unat (seg_vaddr seg) + seg_memSize seg + 4095) div 4096"

definition covers_page :: "Segment \<Rightarrow> Addr \<Rightarrow> bool" where
  "covers_page seg a \<longleftrightarrow> first_page seg \<le> unat a div 4096 \<and> unat a div 4096 < end_page seg"

text \<open>The layout of \<^verbatim>\<open>scripts/linker.ld\<close>: segments start at page boundaries, share no page and lie below
  the heap.\<close>

definition plain_layout :: "Process \<Rightarrow> bool" where
  "plain_layout pr \<longleftrightarrow>
     (\<forall>seg \<in> set (segments pr). unat (seg_vaddr seg) mod 4096 = 0 \<and>
        unat (seg_vaddr seg) + seg_memSize seg \<le> unat HEAP_START) \<and>
     (\<forall>s \<in> set (segments pr). \<forall>t \<in> set (segments pr).
        s = t \<or> end_page s \<le> first_page t \<or> end_page t \<le> first_page s)"

definition initial_byte :: "'w Env \<Rightarrow> Process \<Rightarrow> Addr \<Rightarrow> Byte option" where
  "initial_byte env pr a =
     (if STACK_REGION_BOTTOM \<le> a \<and> a < STACK_TOP then None
      else case List.find (\<lambda>seg. covers_page seg a) (segments pr) of
        Some seg \<Rightarrow> Some (file_byte env (p_name pr) seg (unat a - unat (seg_vaddr seg)))
      | None \<Rightarrow> if HEAP_START \<le> a \<and> a < HEAP_MAX_LIMIT then Some 0 else None)"

definition user_view :: "'w Env \<Rightarrow> 'w Kernel \<Rightarrow> nat \<Rightarrow> Addr \<Rightarrow> Byte option" where
  "user_view env k p a =
     (if saved k p (vpn_of a) then map_option (\<lambda>bs. bs ! page_offset a) (page_data k p (vpn_of a))
      else initial_byte env (processList k ! p) a)"

text \<open>A page in memory that need not be kept still is what it was when it was supplied.\<close>

definition agrees :: "Byte option \<Rightarrow> Byte \<Rightarrow> bool" where
  "agrees x b \<longleftrightarrow> x = None \<or> x = Some b"

definition unspoilt :: "'w Env \<Rightarrow> 'w Kernel \<Rightarrow> bool" where
  "unspoilt env k \<longleftrightarrow>
     (\<forall>p < length (processList k). \<forall>a bs. resident k p (vpn_of a) \<longrightarrow> \<not> saved k p (vpn_of a) \<longrightarrow>
        page_data k p (vpn_of a) = Some bs \<longrightarrow> agrees (initial_byte env (processList k ! p) a) (bs ! page_offset a))"

lemma unspoiltD:
  "unspoilt env k \<Longrightarrow> p < length (processList k) \<Longrightarrow> resident k p (vpn_of a) \<Longrightarrow> \<not> saved k p (vpn_of a) \<Longrightarrow>
     page_data k p (vpn_of a) = Some bs \<Longrightarrow> agrees (initial_byte env (processList k ! p) a) (bs ! page_offset a)"
  by (simp add: unspoilt_def)

text \<open>What a program sees of a page in memory is in its frame.\<close>

lemma seen_byte:
  assumes "unspoilt env k" "p < length (processList k)" "resident k p (vpn_of a)" "page_data k p (vpn_of a) = Some bs"
    and "user_view env k p a = Some b"
  shows "bs ! page_offset a = b"
  using assms unspoiltD [OF assms(1-3) _ assms(4)] by (auto simp: user_view_def agrees_def split: if_splits)

section \<open>The same page\<close>

lemma vpn_page: "vpn_of a = vpn_of b \<longleftrightarrow> unat a div 4096 = unat b div 4096"
  by (simp add: vpn_of_def word_unat_eq_iff [of "drop_bit 12 a"] unat_page_number)

lemma page_offset_less [simp]: "page_offset a < 4096"
  by (simp add: page_offset_def)

lemma page_place: "unat a = unat a div 4096 * 4096 + page_offset a"
  by (simp add: page_offset_def)

lemma below_boundary:
  assumes "vpn_of a = vpn_of b" "unat c mod 4096 = 0"
  shows "c \<le> a \<longleftrightarrow> c \<le> b" "a < c \<longleftrightarrow> b < c"
proof -
  obtain d where d: "unat c = d * 4096"
    using assms(2) by (metis div_mult_mod_eq add.right_neutral)
  have "d * 4096 \<le> x \<longleftrightarrow> d \<le> x div 4096" for x :: nat
    by (simp add: less_eq_div_iff_mult_less_eq)
  then show "c \<le> a \<longleftrightarrow> c \<le> b"
    using assms(1) by (simp add: word_le_nat_alt d vpn_page)
  then show "a < c \<longleftrightarrow> b < c"
    by (simp flip: not_le)
qed

lemma layout_pages:
  "unat HEAP_START mod 4096 = 0" "unat HEAP_MAX_LIMIT mod 4096 = 0" "unat STACK_REGION_BOTTOM mod 4096 = 0"
  "unat STACK_TOP mod 4096 = 0"
  by (simp_all add: layout_defs)

lemma covers_same: "vpn_of a = vpn_of b \<Longrightarrow> covers_page seg a = covers_page seg b"
  by (simp add: covers_page_def vpn_page)

lemma in_segment_covers: "in_segment seg a \<Longrightarrow> covers_page seg a"
proof -
  assume s: "in_segment seg a"
  then have "unat (seg_vaddr seg) \<le> unat a" "unat a < unat (seg_vaddr seg) + seg_memSize seg"
    by (simp_all add: in_segment_def word_le_nat_alt)
  then show "covers_page seg a"
    unfolding covers_page_def first_page_def end_page_def by (auto intro: div_le_mono)
qed

lemma covering_segment:
  assumes "plain_layout pr" "seg \<in> set (segments pr)" "covers_page seg a"
  shows "List.find (\<lambda>seg. covers_page seg a) (segments pr) = Some seg"
proof (cases "List.find (\<lambda>seg. covers_page seg a) (segments pr)")
  case None
  then show ?thesis
    using assms by (simp add: find_None_iff)
next
  case (Some t)
  then have "t \<in> set (segments pr)" "covers_page t a"
    by (auto simp: find_Some_iff)
  then have "t = seg"
    using assms unfolding plain_layout_def covers_page_def by fastforce
  then show ?thesis
    using Some by simp
qed

lemma covers_low:
  assumes "plain_layout pr" "seg \<in> set (segments pr)" "covers_page seg a"
  shows "a < HEAP_START"
proof -
  have "unat (seg_vaddr seg) + seg_memSize seg \<le> unat HEAP_START"
    using assms(1,2) by (simp add: plain_layout_def)
  then have "end_page seg \<le> (unat HEAP_START + 4095) div 4096"
    unfolding end_page_def by (intro div_le_mono) simp
  also have "\<dots> = unat HEAP_START div 4096"
    by (simp add: layout_defs)
  finally have "unat a div 4096 < unat HEAP_START div 4096"
    using assms(3) by (simp add: covers_page_def)
  then have "unat a < unat HEAP_START"
    using div_le_mono [of "unat HEAP_START" "unat a" 4096] by linarith
  then show ?thesis
    by (simp add: word_less_nat_alt)
qed

lemma low_is_no_stack: "a < HEAP_START \<Longrightarrow> \<not> (STACK_REGION_BOTTOM \<le> a \<and> a < STACK_TOP)"
proof -
  have "HEAP_START < STACK_REGION_BOTTOM"
    by (simp add: layout_defs)
  then show "a < HEAP_START \<Longrightarrow> \<not> (STACK_REGION_BOTTOM \<le> a \<and> a < STACK_TOP)"
    by auto
qed

section \<open>What a fault supplies\<close>

lemma image_byte:
  assumes l: "plain_layout pr" and f: "List.find (\<lambda>seg. in_segment seg a) (segments pr) = Some seg"
    and b: "vpn_of b = vpn_of a"
  shows "initial_byte env pr b = Some (segment_page env (p_name pr) seg (vpn_of a) ! page_offset b)"
proof -
  have s: "seg \<in> set (segments pr)" "in_segment seg a"
    using f by (auto simp: find_Some_iff)
  then have c: "covers_page seg b"
    using in_segment_covers covers_same [OF b] by blast
  have v: "seg_vaddr seg \<le> a" "unat (seg_vaddr seg) mod 4096 = 0"
    using s l by (auto simp: in_segment_def plain_layout_def)
  have "unat (seg_vaddr seg) + offsetInSegment seg (vpn_of a) + page_offset b = unat b"
    using aligned_offset [OF v] b page_place [of b] by (simp add: vpn_page) (simp add: vpn_of_def)
  then have "unat b - unat (seg_vaddr seg) = offsetInSegment seg (vpn_of a) + page_offset b"
    by linarith
  then show ?thesis
    using covering_segment [OF l s(1) c] low_is_no_stack [OF covers_low [OF l s(1) c]]
    by (auto simp: initial_byte_def segment_page_nth PAGE_eq)
qed

lemma promised_page:
  assumes l: "plain_layout (processList k ! p)" and s: "source_of k p a = Some src" "src \<noteq> FromSwap"
    and pr: "promised env k p (vpn_of a) src bs" and b: "vpn_of b = vpn_of a"
  shows "agrees (initial_byte env (processList k ! p) b) (bs ! page_offset b)"
proof (cases src)
  case FromSwap
  then show ?thesis
    using s(2) by simp
next
  case FreshStack
  then have "stack_region k p a"
    using s(1) by (auto simp: source_of_def Let_def split: if_splits option.splits)
  then have "STACK_REGION_BOTTOM \<le> b \<and> b < STACK_TOP"
    using below_boundary [OF b layout_pages(3)] below_boundary [OF b layout_pages(4)] by (simp add: stack_region_def)
  then show ?thesis
    by (simp add: initial_byte_def agrees_def)
next
  case (FromImage seg)
  then have "List.find (\<lambda>seg. in_segment seg a) (segments (processList k ! p)) = Some seg"
    using s(1) by (auto simp: source_of_def Let_def split: if_splits option.splits)
  from image_byte [OF l this b, of env] show ?thesis
    using pr FromImage by (simp add: agrees_def)
next
  case FreshHeap
  then have h: "HEAP_START \<le> a"
    using s(1) by (auto simp: source_of_def Let_def split: if_splits option.splits)
  have "List.find (\<lambda>seg. covers_page seg b) (segments (processList k ! p)) = None"
  proof (rule ccontr)
    assume "List.find (\<lambda>seg. covers_page seg b) (segments (processList k ! p)) \<noteq> None"
    then obtain i where "i < length (segments (processList k ! p))" "covers_page (segments (processList k ! p) ! i) b"
      by (auto simp: find_Some_iff)
    then have "b < HEAP_START"
      using covers_low [OF l nth_mem] by blast
    then show False
      using h below_boundary(2) [OF b layout_pages(1)] by auto
  qed
  moreover have "bs ! page_offset b = 0"
    using pr FreshHeap by (simp add: PAGE_eq)
  ultimately show ?thesis
    by (simp add: initial_byte_def agrees_def)
qed

text \<open>Views that see at least as much.\<close>

definition sees_on :: "'w Env \<Rightarrow> 'w Kernel \<Rightarrow> 'w Kernel \<Rightarrow> bool" where
  "sees_on env k k' \<longleftrightarrow> (\<forall>p < length (processList k). user_view env k p \<subseteq>\<^sub>m user_view env k' p)"

lemma serviced_view:
  assumes k: "unspoilt env k" "p < length (processList k)" "plain_layout (processList k ! p)"
    and s: "source_of k p a = Some src"
    and k': "keeps p (vpn_of a) k k'" "resident k' p (vpn_of a)" "src = FromSwap \<longrightarrow> saved k' p (vpn_of a)"
      "promised env k p (vpn_of a) src bs" "page_data k' p (vpn_of a) = Some bs"
  shows "unspoilt env k' \<and> sees_on env k k'"
proof -
  have pl: "processList k' = processList k"
    using keeps_user(3) [OF k'(1)] .
  have other: "saved k q u \<Longrightarrow> saved k' q u \<and> page_data k' q u = page_data k q u" "\<not> saved k q u \<Longrightarrow> rebuildable k k' q u"
    if "q \<noteq> p \<or> u \<noteq> vpn_of a" for q u
    using k'(1) that unfolding keeps_def by auto
  have gone: "\<not> resident k p (vpn_of a)"
    using s by (auto simp: source_of_def Let_def vpn_of_def split: if_splits)
  have fresh: "\<not> saved k p (vpn_of a) \<and> (\<forall>b. vpn_of b = vpn_of a \<longrightarrow> agrees (initial_byte env (processList k ! p) b) (bs ! page_offset b))"
    if "src \<noteq> FromSwap"
  proof
    have "\<not> swapped_out k p (vpn_of a)"
      using s that gone by (auto simp: source_of_def Let_def vpn_of_def split: if_splits)
    then show "\<not> saved k p (vpn_of a)"
      using gone by (auto simp: saved_def resident_def swapped_out_def split: option.splits if_splits)
    show "\<forall>b. vpn_of b = vpn_of a \<longrightarrow> agrees (initial_byte env (processList k ! p) b) (bs ! page_offset b)"
      using promised_page [OF k(3) s that k'(4)] by blast
  qed
  have "agrees (initial_byte env (processList k' ! q) b) (ds ! page_offset b)"
    if q: "q < length (processList k')" "resident k' q (vpn_of b)" "\<not> saved k' q (vpn_of b)" "page_data k' q (vpn_of b) = Some ds" for q b ds
  proof (cases "q = p \<and> vpn_of b = vpn_of a")
    case True
    then show ?thesis
      using q k'(3,5) fresh pl by auto
  next
    case False
    then have o: "\<not> saved k q (vpn_of b)" "rebuildable k k' q (vpn_of b)"
      using other [of q "vpn_of b"] q(3) by auto
    then show ?thesis
      using unspoiltD [OF k(1), of q b ds] q pl by (simp add: rebuildable_def)
  qed
  then have "unspoilt env k'"
    unfolding unspoilt_def by blast
  moreover have "user_view env k q b = Some x \<Longrightarrow> user_view env k' q b = Some x" for q b x
  proof (cases "q = p \<and> vpn_of b = vpn_of a")
    case True
    assume x: "user_view env k q b = Some x"
    show ?thesis
    proof (cases "src = FromSwap")
      case swap: True
      then have "swapped_out k p (vpn_of a)"
        using source_swapped [of k p a] s by (simp add: vpn_of_def)
      then have "saved k p (vpn_of a)"
        by (auto simp: saved_def swapped_out_def split: option.splits)
      then show ?thesis
        using x True swap k'(3,4,5) by (simp add: user_view_def)
    next
      case False
      then show ?thesis
        using x True fresh k'(5) pl by (auto simp: user_view_def agrees_def)
    qed
  next
    case False
    assume "user_view env k q b = Some x"
    then show ?thesis
      using other [of q "vpn_of b"] False pl by (auto simp: user_view_def rebuildable_def split: if_splits)
  qed
  ultimately show ?thesis
    by (auto simp: sees_on_def map_le_def dom_def)
qed

section \<open>Accesses inside a page\<close>

definition flat_read :: "(Addr \<rightharpoonup> Byte) \<Rightarrow> Addr \<Rightarrow> nat \<Rightarrow> Byte list option" where
  "flat_read F a n =
     (if \<forall>i \<in> set [0..<n]. F (a + of_nat i) \<noteq> None then Some (map (\<lambda>i. the (F (a + of_nat i))) [0..<n]) else None)"

definition flat_write :: "(Addr \<rightharpoonup> Byte) \<Rightarrow> Addr \<Rightarrow> Byte list \<Rightarrow> Addr \<rightharpoonup> Byte" where
  "flat_write F a bs = (\<lambda>x. if unat (x - a) < length bs then Some (bs ! unat (x - a)) else F x)"

lemma in_page:
  assumes "page_offset a + n \<le> 4096" "i < n"
  shows "vpn_of (a + of_nat i) = vpn_of a" "page_offset (a + of_nat i) = page_offset a + i"
proof -
  have "unat a div 4096 < 1048576"
    using word_bound [of a] by (intro less_mult_imp_div_less) simp
  then have "unat a + i < 4294967296"
    using assms page_place [of a] by linarith
  then have u: "unat (a + of_nat i) = unat a + i"
    using assms by (simp add: unat_word_ariths unat_of_nat)
  have "(unat a + i) div 4096 = unat a div 4096 \<and> (unat a + i) mod 4096 = page_offset a + i"
  proof -
    have "unat a + i = page_offset a + i + unat a div 4096 * 4096"
      using page_place [of a] by linarith
    moreover have "page_offset a + i < 4096"
      using assms by linarith
    ultimately show ?thesis
      by (metis add.commute add.right_neutral div_less div_mult_self3 mod_less mod_mult_self1 zero_neq_numeral)
  qed
  then show "vpn_of (a + of_nat i) = vpn_of a" "page_offset (a + of_nat i) = page_offset a + i"
    using u by (simp_all add: vpn_page page_offset_def)
qed

lemma frame_byte:
  assumes "mem_ok (k_mem k)" "f < 16" "i < 4096"
  shows "frame_bytes k f ! i = k_mem k ! (f * 4096 + i)"
  using assms by (simp add: frame_bytes_def PAGE_eq mem_ok_def unat_MEMORY_SIZE)

lemma granted_page:
  assumes vm: "vm_ok k" and t: "currentTable (mmu (cpu k)) = Some p"
    and pte: "current_pte (mmu (cpu k)) a = Some pte" "valid pte"
  shows "resident k p (vpn_of a)" "page_data k p (vpn_of a) = Some (frame_bytes k (unat (ppn pte)))" "unat (ppn pte) < 16"
    "page_table k p (vpn_of a) = Some pte"
proof -
  show e: "page_table k p (vpn_of a) = Some pte"
    using pte(1) t by (simp add: current_pte_def page_table_def)
  then show "resident k p (vpn_of a)" "page_data k p (vpn_of a) = Some (frame_bytes k (unat (ppn pte)))"
    using pte(2) by (simp_all add: resident_def page_data_def)
  note i = vm_inv_parts [OF vm]
  show "unat (ppn pte) < 16"
    using book_valid [OF i(7) e pte(2)] owned_frame [OF i(1), of "unat (ppn pte)"] by simp
qed

lemma flat_read_real:
  assumes vm: "vm_ok k" and t: "currentTable (mmu (cpu k)) = Some p" "p < length (processList k)"
    and pte: "current_pte (mmu (cpu k)) a = Some pte" "valid pte"
    and F: "unspoilt env k" "F \<subseteq>\<^sub>m user_view env k p" "flat_read F a n = Some bs" "page_offset a + n \<le> 4096"
  shows "take n (drop (phys_at pte a) (memory (mmu (cpu k)))) = bs"
proof -
  note g = granted_page [OF vm t(1) pte] and m = vm_inv_parts(5) [OF vm]
  have bs: "length bs = n" "i < n \<Longrightarrow> F (a + of_nat i) = Some (bs ! i)" for i
    using F(3) by (auto simp: flat_read_def split: if_splits)
  have "k_mem k ! (phys_at pte a + i) = bs ! i" if i: "i < n" for i
  proof -
    note p = in_page [OF F(4) i]
    have "user_view env k p (a + of_nat i) = Some (bs ! i)"
      using F(2) bs(2) [OF i] by (auto simp: map_le_def dom_def)
    then have "frame_bytes k (unat (ppn pte)) ! page_offset (a + of_nat i) = bs ! i"
      using seen_byte [OF F(1) t(2), of "a + of_nat i"] g(1,2) p(1) by simp
    then show ?thesis
      using frame_byte [OF m g(3), of "page_offset a + i"] p(2) F(4) i by (simp add: phys_at_def add.assoc)
  qed
  moreover have "phys_at pte a + n \<le> length (k_mem k)"
    using m g(3) F(4) by (simp add: phys_at_def mem_ok_def unat_MEMORY_SIZE)
  ultimately show ?thesis
    using bs(1) by (intro nth_equalityI) (auto simp: k_mem_def)
qed

text \<open>Marking a page as referenced changes nothing that is seen.\<close>

definition same_pages :: "'w Kernel \<Rightarrow> 'w Kernel \<Rightarrow> bool" where
  "same_pages k k' \<longleftrightarrow> length (processList k') = length (processList k) \<and>
     (\<forall>p < length (processList k). segments (processList k' ! p) = segments (processList k ! p) \<and>
        p_name (processList k' ! p) = p_name (processList k ! p)) \<and>
     saved k' = saved k \<and> resident k' = resident k \<and> page_data k' = page_data k"

lemma same_pages_view:
  assumes "same_pages k k'"
  shows "p < length (processList k) \<Longrightarrow> user_view env k' p = user_view env k p" "unspoilt env k' = unspoilt env k"
    "(\<forall>pr \<in> set (processList k'). plain_layout pr) = (\<forall>pr \<in> set (processList k). plain_layout pr)"
proof -
  have i: "initial_byte env (processList k' ! p) = initial_byte env (processList k ! p)" if "p < length (processList k)" for p
    using assms that by (auto simp: same_pages_def initial_byte_def fun_eq_iff split: option.split)
  show "p < length (processList k) \<Longrightarrow> user_view env k' p = user_view env k p"
    using assms i by (simp add: same_pages_def user_view_def fun_eq_iff)
  show "unspoilt env k' = unspoilt env k"
    using assms i by (auto simp: same_pages_def unspoilt_def)
  show "(\<forall>pr \<in> set (processList k'). plain_layout pr) = (\<forall>pr \<in> set (processList k). plain_layout pr)"
    using assms by (simp add: same_pages_def all_set_conv_all_nth plain_layout_def)
qed

lemma same_pages_refl: "same_pages k k"
  by (simp add: same_pages_def)

lemma same_pages_trans: "same_pages k l \<Longrightarrow> same_pages l m \<Longrightarrow> same_pages k m"
  by (simp add: same_pages_def)

lemma same_pages_read:
  assumes "mmu c = touch (mmu (cpu k)) a False"
  shows "same_pages k (k\<lparr>cpu := c\<rparr>)"
proof -
  let ?k = "k\<lparr>cpu := c\<rparr>"
  have pt: "page_table ?k q u = page_table k q u \<or>
      (\<exists>e. page_table k q u = Some e \<and> page_table ?k q u = Some (e\<lparr>referenced := True, dirty := dirty e\<rparr>))" for q u
    using assms by (auto simp: page_table_def touch_def split: option.split)
  have fb: "frame_bytes ?k = frame_bytes k" "stored_page ?k = stored_page k"
    using assms by (simp_all add: frame_bytes_def k_mem_def stored_page_def block_def fun_eq_iff)
  have "saved ?k q u = saved k q u \<and> resident ?k q u = resident k q u \<and> page_data ?k q u = page_data k q u" for q u
    using pt [of q u] by (cases "page_table k q u") (auto simp: saved_def resident_def page_data_def fb)
  then show ?thesis
    by (simp add: same_pages_def fun_eq_iff)
qed

lemma same_pages_cpu: "mmu c = mmu d \<Longrightarrow> same_pages (k\<lparr>cpu := c\<rparr>) (k\<lparr>cpu := d\<rparr>)"
  by (simp add: same_pages_def saved_def resident_def page_data_def fun_eq_iff page_table_def frame_bytes_def k_mem_def
      stored_page_def block_def split: option.split)

section \<open>A store\<close>

lemma stored_frame:
  assumes m: "mem_ok (k_mem k)" and f: "f < 16" "g < 16" and n: "o1 + length bs \<le> 4096"
    and k': "k_mem k' = mem_splice (k_mem k) (f * 4096 + o1) bs"
  shows "frame_bytes k' g = (if g = f then mem_splice (frame_bytes k f) o1 bs else frame_bytes k g)"
proof -
  have l: "f * 4096 + o1 + length bs \<le> length (k_mem k)" "length (k_mem k) = 65536"
    using m f n by (simp_all add: mem_ok_def unat_MEMORY_SIZE)
  then have m': "mem_ok (k_mem k')"
    using m by (simp add: k' mem_ok_def)
  have len: "length (frame_bytes k h) = 4096" "length (frame_bytes k' h) = 4096" if "h < 16" for h
    using frame_bytes_length [OF m that] frame_bytes_length [OF m' that] by (simp_all add: PAGE_eq)
  have b: "frame_bytes k' g ! i = (if f * 4096 + o1 \<le> g * 4096 + i \<and> g * 4096 + i < f * 4096 + o1 + length bs
      then bs ! (g * 4096 + i - (f * 4096 + o1)) else k_mem k ! (g * 4096 + i))" if "i < 4096" for i
    using frame_byte [OF m' f(2) that] l that f by (simp add: k' nth_mem_splice)
  show ?thesis
  proof (cases "g = f")
    case True
    then show ?thesis
      using b len f n frame_byte [OF m f(1)] by (intro nth_equalityI) (auto simp: nth_mem_splice)
  next
    case False
    then have "g * 4096 + 4096 \<le> f * 4096 \<or> f * 4096 + 4096 \<le> g * 4096"
      by arith
    then show ?thesis
      using False b len f n frame_byte [OF m f(2)] by (intro nth_equalityI) auto
  qed
qed

lemma store_view:
  fixes k :: "'w Kernel"
  defines "k' \<equiv> \<lambda>c. k\<lparr>cpu := c\<rparr>"
  assumes vm: "vm_ok k" and t: "currentTable (mmu (cpu k)) = Some p" "p < length (processList k)"
    and pte: "current_pte (mmu (cpu k)) a = Some pte" "allows pte True False"
    and n: "page_offset a + length bs \<le> 4096"
    and c: "mmu c = (touch (mmu (cpu k)) a True)\<lparr>memory := mem_splice (k_mem k) (phys_at pte a) bs\<rparr>"
    and u: "unspoilt env k"
  shows "unspoilt env (k' c)"
    "q \<noteq> p \<Longrightarrow> user_view env (k' c) q = user_view env k q"
    "F \<subseteq>\<^sub>m user_view env k p \<Longrightarrow> flat_write F a bs \<subseteq>\<^sub>m user_view env (k' c) p"
proof -
  let ?k = "k' c" and ?f = "unat (ppn pte)"
  have v: "valid pte" "canWrite pte"
    using pte(2) by (simp_all add: allows_def)
  note g = granted_page [OF vm t(1) pte(1) v(1)] and i = vm_inv_parts [OF vm]
  have tab: "page_table ?k q x = (if q = p \<and> x = vpn_of a then Some (pte\<lparr>referenced := True, dirty := True\<rparr>) else page_table k q x)" for q x
    using g(4) t(1) c by (auto simp: k'_def page_table_def touch_def split: option.split)
  have st: "stored_page ?k = stored_page k" "processList ?k = processList k"
    by (simp_all add: k'_def stored_page_def block_def fun_eq_iff)
  have fb: "frame_bytes ?k h = (if h = ?f then mem_splice (frame_bytes k ?f) (page_offset a) bs else frame_bytes k h)" if "h < 16" for h
    using c by (intro stored_frame [OF i(5) g(3) that n]) (simp add: k'_def k_mem_def phys_at_def)
  have own: "saved ?k p (vpn_of a)" "page_data ?k p (vpn_of a) = Some (mem_splice (frame_bytes k ?f) (page_offset a) bs)"
    using v fb [OF g(3)] by (simp_all add: saved_def page_data_def tab)
  have other: "saved ?k q x = saved k q x" "resident ?k q x = resident k q x" "page_data ?k q x = page_data k q x"
    if o: "q \<noteq> p \<or> x \<noteq> vpn_of a" for q x
  proof -
    have pt: "page_table ?k q x = page_table k q x"
      using o by (auto simp: tab)
    show "saved ?k q x = saved k q x" "resident ?k q x = resident k q x"
      by (simp_all add: saved_def resident_def pt)
    have "frame_bytes ?k (unat (ppn y)) = frame_bytes k (unat (ppn y))" if "page_table k q x = Some y" "valid y" for y
      using book_exclusive [OF i(7) that g(4) v(1)] book_valid [OF i(7) that] owned_frame [OF i(1), of "unat (ppn y)"] o fb by auto
    then show "page_data ?k q x = page_data k q x"
      by (cases "page_table k q x") (auto simp: page_data_def pt st)
  qed
  show "unspoilt env ?k"
    unfolding unspoilt_def st using u own other unspoiltD by metis
  have elsewhere: "user_view env ?k q x = user_view env k q x" if "q \<noteq> p \<or> vpn_of x \<noteq> vpn_of a" for q x
    using other [of q "vpn_of x"] that by (simp add: user_view_def st)
  then show "q \<noteq> p \<Longrightarrow> user_view env ?k q = user_view env k q"
    by (simp add: fun_eq_iff)
  have len: "length (frame_bytes k ?f) = 4096"
    using frame_bytes_length [OF i(5) g(3)] by (simp add: PAGE_eq)
  show "flat_write F a bs \<subseteq>\<^sub>m user_view env ?k p" if F: "F \<subseteq>\<^sub>m user_view env k p"
  proof -
    have "user_view env ?k p x = Some b" if x: "flat_write F a bs x = Some b" for x b
    proof (cases "unat (x - a) < length bs")
      case True
      have "vpn_of x = vpn_of a" "page_offset x = page_offset a + unat (x - a)"
        using in_page [OF n True] by simp_all
      then show ?thesis
        using x True own n len by (simp add: user_view_def flat_write_def nth_mem_splice)
    next
      case False
      then have "F x = Some b"
        using x by (simp add: flat_write_def)
      then have b: "user_view env k p x = Some b"
        using F by (auto simp: map_le_def dom_def)
      show ?thesis
      proof (cases "vpn_of x = vpn_of a")
        case v: True
        have "\<not> (page_offset a \<le> page_offset x \<and> page_offset x < page_offset a + length bs)"
        proof
          assume o: "page_offset a \<le> page_offset x \<and> page_offset x < page_offset a + length bs"
          then have "unat a \<le> unat x" "unat x - unat a = page_offset x - page_offset a"
            using v page_place [of a] page_place [of x] by (simp_all add: vpn_page)
          then show False
            using False o by (auto simp: unat_sub word_le_nat_alt)
        qed
        moreover have "frame_bytes k ?f ! page_offset x = b"
          using seen_byte [OF u t(2) _ _ b] g(1,2) v by simp
        ultimately show ?thesis
          using own v n len by (auto simp: user_view_def nth_mem_splice)
      qed (use b elsewhere in simp)
    qed
    then show ?thesis
      by (auto simp: map_le_def dom_def)
  qed
qed

section \<open>The flat machine\<close>

text \<open>A processor without memory, to run the other instructions on.\<close>

definition bare :: "RegFile \<Rightarrow> Addr \<Rightarrow> Machine" where
  "bare rs a = \<lparr>regs = rs, mmu = MMU_new, pc = a, trap = no_trap\<rparr>"

definition flat_address :: "RegFile \<Rightarrow> regno \<Rightarrow> 12 word \<Rightarrow> Addr" where
  "flat_address rs a imm = rs ! unat (R a) + scast imm"

text \<open>
  One instruction on registers, program counter and flat memory; undefined for system calls, for
  accesses that cross a page and for loads of undefined bytes.
\<close>

fun flat_step :: "instr \<Rightarrow> RegFile \<times> Addr \<Rightarrow> (Addr \<rightharpoonup> Byte) \<Rightarrow> ((RegFile \<times> Addr) \<times> (Addr \<rightharpoonup> Byte)) option" where
  "flat_step (Load l d a imm) (rs, p) F =
     (if page_offset (flat_address rs a imm) + load_width l > 4096 then None
      else case flat_read F (flat_address rs a imm) (load_width l) of
        None \<Rightarrow> None
      | Some bs \<Rightarrow> Some ((rf_set rs (unat (R d)) (word_of_int (load_extend l (bytes_word bs))), p + 4), F))"
| "flat_step (Store s a b imm) (rs, p) F =
     (if page_offset (flat_address rs a imm) + store_width s > 4096 then None
      else Some ((rs, p + 4), flat_write F (flat_address rs a imm) (word_bytes (store_width s) (rs ! unat (R b)))))"
| "flat_step Ecall (rs, p) F = None"
| "flat_step i (rs, p) F = (let c = isa_step i (bare rs p) in Some ((regs c, pc c), F))"

text \<open>The accesses of an instruction, its fetch included, and the ones the page table in force permits.\<close>

datatype purpose = ToFetch | ToLoad | ToStore

fun accesses_of :: "instr \<Rightarrow> RegFile \<times> Addr \<Rightarrow> (Addr \<times> purpose) list" where
  "accesses_of (Load l d a imm) (rs, p) = [(p, ToFetch), (flat_address rs a imm, ToLoad)]"
| "accesses_of (Store s a b imm) (rs, p) = [(p, ToFetch), (flat_address rs a imm, ToStore)]"
| "accesses_of i (rs, p) = [(p, ToFetch)]"

definition permitted :: "Machine \<Rightarrow> Addr \<times> purpose \<Rightarrow> bool" where
  "permitted c x \<longleftrightarrow> (case current_pte (mmu c) (fst x) of None \<Rightarrow> False
     | Some pte \<Rightarrow> allows pte (snd x = ToStore) (snd x = ToFetch))"

lemma permitted_iff:
  "permitted c (a, ToFetch) \<longleftrightarrow> (\<exists>pte. current_pte (mmu c) a = Some pte \<and> allows pte False True)"
  "permitted c (a, ToLoad) \<longleftrightarrow> granted c a False \<noteq> None"
  "permitted c (a, ToStore) \<longleftrightarrow> granted c a True \<noteq> None"
  by (auto simp: permitted_def granted_def split: option.splits)

lemma permitted_fetched:
  assumes "cpu_ok c" "permitted c x" shows "permitted (fetched c) x"
proof -
  obtain q where q: "current_pte (mmu c) (fst x) = Some q" "allows q (snd x = ToStore) (snd x = ToFetch)"
    using assms(2) by (auto simp: permitted_def split: option.splits)
  then obtain q' where "current_pte (touch (mmu c) (pc c) False) (fst x) = Some q'" "allows q' (snd x = ToStore) (snd x = ToFetch)"
    using current_pte_touch [of "mmu c" "fst x" q "pc c" False] by metis
  then show ?thesis
    by (simp add: permitted_def)
qed

fun memory_free :: "instr \<Rightarrow> bool" where
  "memory_free (Load l d a imm) \<longleftrightarrow> False"
| "memory_free (Store s a b imm) \<longleftrightarrow> False"
| "memory_free Ecall \<longleftrightarrow> False"
| "memory_free _ \<longleftrightarrow> True"

lemma isa_memory_free:
  assumes "memory_free i" "regs c = rs" "pc c = a"
  shows "mmu (isa_step i c) = mmu c" "trap (isa_step i c) = trap c"
    "flat_step i (rs, a) F = Some ((regs (isa_step i c), pc (isa_step i c)), F)"
  using assms by (cases i; simp add: isa_set_def set_reg_def next_pc_def goto_def reg_val_def bare_def Let_def)+

lemma step_of_turn:
  assumes "andthen step retire c = Inr ((), d)"
  shows "\<exists>e. step c = Inr ((), e) \<and> (if trap_type (trap d) = NoTrap then trap_type (trap e) = NoTrap \<and> d = next_pc e else e = d)"
  using assms by (auto simp: andthen_run retire_run next_pc_def split: sum.splits if_splits)

text \<open>What one step of the processor has done to a kernel: an instruction of the flat machine, or a
  page fault that leaves everything but the marks of the page as it was.\<close>

definition executed :: "'w Env \<Rightarrow> nat \<Rightarrow> RegFile \<times> Addr \<Rightarrow> (Addr \<rightharpoonup> Byte) \<Rightarrow> 'w Kernel \<Rightarrow> Machine \<Rightarrow> bool" where
  "executed env p x F k c \<longleftrightarrow> trap_type (trap c) = NoTrap \<and> (regs c, pc c + 4) = x \<and>
     unspoilt env (k\<lparr>cpu := c\<rparr>) \<and> F \<subseteq>\<^sub>m user_view env (k\<lparr>cpu := c\<rparr>) p \<and>
     (\<forall>q < length (processList k). q \<noteq> p \<longrightarrow> user_view env (k\<lparr>cpu := c\<rparr>) q = user_view env k q)"

definition faulted :: "'w Kernel \<Rightarrow> Addr \<Rightarrow> Machine \<Rightarrow> bool" where
  "faulted k a c \<longleftrightarrow> trap c = \<lparr>trap_type = PageFaultTrap, trap_value = a\<rparr> \<and> regs c = regs (cpu k) \<and> pc c = pc (cpu k) \<and>
     same_pages k (k\<lparr>cpu := c\<rparr>)"

lemma executed_plain:
  assumes "same_pages k (k\<lparr>cpu := c\<rparr>)" "unspoilt env k" "F \<subseteq>\<^sub>m user_view env k p" "p < length (processList k)"
    and "trap_type (trap c) = NoTrap" "(regs c, pc c + 4) = x"
  shows "executed env p x F k c"
  using assms same_pages_view [OF assms(1)] by (simp add: executed_def)

lemma fetched_kernel:
  assumes vm: "vm_ok k" and c: "cpu_ok (cpu k)"
  shows "vm_ok (k\<lparr>cpu := fetched (cpu k)\<rparr>)" "same_pages k (k\<lparr>cpu := fetched (cpu k)\<rparr>)"
  using step_vm [OF vm, of "fetched (cpu k)"] same_pages_read [of "fetched (cpu k)" k "pc (cpu k)"]
    cpu_ok_fetched [OF c] confined_touch by simp_all

lemma load_step:
  assumes vm: "vm_ok l" and t: "currentTable (mmu (cpu l)) = Some p" "p < length (processList l)"
    and u: "unspoilt env l" "F \<subseteq>\<^sub>m user_view env l p" "trap_type (trap (cpu l)) = NoTrap"
    and f: "flat_step (Load i d a imm) (regs (cpu l), pc (cpu l)) F = Some (x, G)"
  defines "c \<equiv> if d = 0 then next_pc (cpu l) else isa_step (Load i d a imm) (cpu l)"
  shows "trap_type (trap c) = NoTrap \<and> (regs c, pc c) = x \<and> G = F \<and> same_pages l (l\<lparr>cpu := c\<rparr>) \<or>
    c = page_fault (cpu l) (flat_address (regs (cpu l)) a imm) \<and> \<not> permitted (cpu l) (flat_address (regs (cpu l)) a imm, ToLoad)"
proof (cases "d = 0")
  case True
  have "same_pages (l\<lparr>cpu := cpu l\<rparr>) (l\<lparr>cpu := next_pc (cpu l)\<rparr>)"
    by (rule same_pages_cpu) (simp add: next_pc_def)
  then show ?thesis
    using f True u(3) by (auto simp: c_def next_pc_def rf_set_def split: if_splits option.splits)
next
  case False
  let ?a = "flat_address (regs (cpu l)) a imm"
  have a: "reg_val (cpu l) (R a) + scast imm = ?a"
    by (simp add: flat_address_def reg_val_def)
  obtain bs where bs: "page_offset ?a + load_width i \<le> 4096" "flat_read F ?a (load_width i) = Some bs"
    "x = (rf_set (regs (cpu l)) (unat (R d)) (word_of_int (load_extend i (bytes_word bs))), pc (cpu l) + 4)" "G = F"
    using f False by (auto split: if_splits option.splits)
  show ?thesis
  proof (cases "granted (cpu l) ?a False")
    case None
    then show ?thesis
      using False by (simp add: c_def isa_load_def a permitted_iff)
  next
    case (Some pte)
    then have pte: "current_pte (mmu (cpu l)) ?a = Some pte" "valid pte"
      by (auto simp: granted_def allows_def split: option.splits if_splits)
    have "take (load_width i) (drop (phys_at pte ?a) (memory (mmu (cpu l)))) = bs"
      by (rule flat_read_real [OF vm t pte u(1,2) bs(2,1)])
    then have "c = next_pc (isa_set ((cpu l)\<lparr>mmu := touch (mmu (cpu l)) ?a False\<rparr>) d (load_extend i (bytes_word bs)))"
      using False Some by (simp add: c_def isa_load_def a)
    then show ?thesis
      using same_pages_read [of c l ?a] bs(3,4) u(3) by (simp add: next_pc_def isa_set_def)
  qed
qed

lemma store_step:
  fixes l :: "'w Kernel"
  assumes vm: "vm_ok l" and t: "currentTable (mmu (cpu l)) = Some p" "p < length (processList l)"
    and u: "unspoilt env l" "F \<subseteq>\<^sub>m user_view env l p" "trap_type (trap (cpu l)) = NoTrap"
    and f: "flat_step (Store s a b imm) (regs (cpu l), pc (cpu l)) F = Some (x, G)"
  defines "c \<equiv> isa_step (Store s a b imm) (cpu l)"
  shows "trap_type (trap c) = NoTrap \<and> (regs c, pc c) = x \<and> unspoilt env (l\<lparr>cpu := c\<rparr>) \<and>
      G \<subseteq>\<^sub>m user_view env (l\<lparr>cpu := c\<rparr>) p \<and> (\<forall>q. q \<noteq> p \<longrightarrow> user_view env (l\<lparr>cpu := c\<rparr>) q = user_view env l q) \<or>
    c = page_fault (cpu l) (flat_address (regs (cpu l)) a imm) \<and> \<not> permitted (cpu l) (flat_address (regs (cpu l)) a imm, ToStore)"
proof -
  let ?a = "flat_address (regs (cpu l)) a imm" and ?bs = "word_bytes (store_width s) (regs (cpu l) ! unat (R b))"
  have a: "reg_val (cpu l) (R a) + scast imm = ?a" "reg_val (cpu l) (R b) = regs (cpu l) ! unat (R b)"
    by (simp_all add: flat_address_def reg_val_def)
  have g: "page_offset ?a + length ?bs \<le> 4096" "x = (regs (cpu l), pc (cpu l) + 4)" "G = flat_write F ?a ?bs"
    using f by (auto split: if_splits)
  show ?thesis
  proof (cases "granted (cpu l) ?a True")
    case None
    then show ?thesis
      by (simp add: c_def isa_store_def a permitted_iff)
  next
    case (Some pte)
    then have pte: "current_pte (mmu (cpu l)) ?a = Some pte" "allows pte True False"
      by (auto simp: granted_def split: option.splits if_splits)
    have c: "c = next_pc ((cpu l)\<lparr>mmu := (touch (mmu (cpu l)) ?a True)\<lparr>memory := mem_splice (memory (mmu (cpu l))) (phys_at pte ?a) ?bs\<rparr>\<rparr>)"
      using Some by (simp add: c_def isa_store_def a)
    then have "mmu c = (touch (mmu (cpu l)) ?a True)\<lparr>memory := mem_splice (k_mem l) (phys_at pte ?a) ?bs\<rparr>"
      by (simp add: next_pc_def k_mem_def)
    note v = store_view [OF vm t pte g(1) this u(1)]
    show ?thesis
      using v(1,2) v(3) [OF u(2)] g(2,3) u(3) by (simp add: c next_pc_def)
  qed
qed

lemma flat_instruction:
  fixes k :: "'w Kernel"
  assumes vm: "vm_ok k" and ok: "cpu_ok (cpu k)" "vmEnabled (mmu (cpu k))"
    and t: "currentTable (mmu (cpu k)) = Some p" "p < length (processList k)"
    and u: "unspoilt env k" "F \<subseteq>\<^sub>m user_view env k p"
    and i: "page_offset (pc (cpu k)) + 4 \<le> 4096" "flat_read F (pc (cpu k)) 4 = Some (word_bytes 4 (encode i))"
    and f: "flat_step i (regs (cpu k), pc (cpu k)) F = Some (x, G)"
  shows "\<exists>c. step (cpu k) = Inr ((), c) \<and> (executed env p x G k c \<or>
    (\<exists>y \<in> set (accesses_of i (regs (cpu k), pc (cpu k))). \<not> permitted (cpu k) y \<and> faulted k (fst y) c))"
proof -
  let ?pc = "pc (cpu k)" and ?rs = "regs (cpu k)"
  have here: "(?pc, ToFetch) \<in> set (accesses_of i (?rs, ?pc))"
    by (cases i) simp_all
  show ?thesis
  proof (cases "fetchable (cpu k)")
    case None
    obtain c where "step (cpu k) = Inr ((), c)" "c = page_fault (cpu k) ?pc"
      using step_of_turn [OF step_fetch_fault [OF ok None]] by auto
    moreover have "same_pages (k\<lparr>cpu := cpu k\<rparr>) (k\<lparr>cpu := page_fault (cpu k) ?pc\<rparr>)"
      by (rule same_pages_cpu) (simp add: page_fault_def)
    ultimately have "faulted k ?pc c" "step (cpu k) = Inr ((), c)"
      by (simp_all add: faulted_def page_fault_def)
    moreover have "\<not> permitted (cpu k) (?pc, ToFetch)"
      using None by (auto simp: permitted_iff fetchable_def split: if_splits)
    ultimately show ?thesis
      using here by force
  next
    case (Some pte)
    let ?c = "fetched (cpu k)" and ?d = "if idle_load i then next_pc (fetched (cpu k)) else isa_step i (fetched (cpu k))"
    let ?l = "k\<lparr>cpu := ?c\<rparr>"
    have pte: "current_pte (mmu (cpu k)) ?pc = Some pte" "valid pte"
      using Some by (auto simp: fetchable_Some allows_def)
    have code: "take 4 (drop (phys_at pte ?pc) (memory (mmu (cpu k)))) = word_bytes 4 (encode i)"
      by (rule flat_read_real [OF vm t pte u i(2,1)])
    have inside: "access_in_page i (cpu k)"
      using f by (cases i) (simp_all add: flat_address_def reg_val_def split: if_splits)
    obtain e where e: "step (cpu k) = Inr ((), e)"
      "if trap_type (trap ?d) = NoTrap then trap_type (trap e) = NoTrap \<and> ?d = next_pc e else e = ?d"
      using step_of_turn [OF step_instruction [OF ok Some i(1) code inside]] by auto
    note l = fetched_kernel [OF vm ok(1)]
    note lv = same_pages_view [OF l(2)]
    have lu: "currentTable (mmu (cpu ?l)) = Some p" "p < length (processList ?l)" "unspoilt env ?l" "F \<subseteq>\<^sub>m user_view env ?l p"
      "trap_type (trap (cpu ?l)) = NoTrap" "flat_step i (regs (cpu ?l), pc (cpu ?l)) F = Some (x, G)"
      using t u lv f by (simp_all add: no_trap_def)
    have fault: ?thesis if d: "?d = page_fault ?c a" "(a, w) \<in> set (accesses_of i (?rs, ?pc))" "\<not> permitted ?c (a, w)" for a w
    proof -
      have "same_pages (k\<lparr>cpu := ?c\<rparr>) (k\<lparr>cpu := ?d\<rparr>)"
        by (rule same_pages_cpu) (simp add: d page_fault_def)
      then have "faulted k a ?d"
        using same_pages_trans [OF l(2)] by (simp add: faulted_def d page_fault_def)
      then show ?thesis
        using e d permitted_fetched [OF ok(1), of "(a, w)"] by (intro exI [of _ e]) (force simp: page_fault_def)
    qed
    have finish: ?thesis if d: "trap_type (trap ?d) = NoTrap" "(regs ?d, pc ?d) = x" "unspoilt env (k\<lparr>cpu := ?d\<rparr>)"
      "G \<subseteq>\<^sub>m user_view env (k\<lparr>cpu := ?d\<rparr>) p" "\<forall>q. q < length (processList k) \<longrightarrow> q \<noteq> p \<longrightarrow> user_view env (k\<lparr>cpu := ?d\<rparr>) q = user_view env k q"
    proof -
      have n: "trap_type (trap e) = NoTrap" "?d = next_pc e"
        using e d(1) by simp_all
      have "same_pages (k\<lparr>cpu := ?d\<rparr>) (k\<lparr>cpu := e\<rparr>)"
        by (rule same_pages_cpu) (simp add: n next_pc_def)
      from same_pages_view [OF this] have "executed env p x G k e"
        using d n t(2) by (simp add: executed_def next_pc_def)
      then show ?thesis
        using e by blast
    qed
    have still: ?thesis if d: "trap_type (trap ?d) = NoTrap" "(regs ?d, pc ?d) = x" "G = F" "same_pages ?l (?l\<lparr>cpu := ?d\<rparr>)"
    proof -
      have "same_pages k (k\<lparr>cpu := ?d\<rparr>)"
        using same_pages_trans [OF l(2)] d(4) by simp
      from same_pages_view [OF this] show ?thesis
        using d t(2) u by (intro finish) simp_all
    qed
    consider (load) j d a imm where "i = Load j d a imm" | (store) s a b imm where "i = Store s a b imm"
      | (free) "memory_free i" | (ecall) "i = Ecall"
      by (cases i) auto
    then show ?thesis
    proof cases
      case load
      have a: "(flat_address ?rs a imm, ToLoad) \<in> set (accesses_of i (?rs, ?pc))"
        by (simp add: load)
      have d: "?d = (if d = 0 then next_pc (cpu ?l) else isa_step (Load j d a imm) (cpu ?l))"
        by (simp add: load del: isa_step.simps)
      from load_step [OF l(1) lu(1-5) lu(6) [unfolded load]] show ?thesis
        unfolding d [symmetric]
      proof
        assume "trap_type (trap ?d) = NoTrap \<and> (regs ?d, pc ?d) = x \<and> G = F \<and> same_pages ?l (?l\<lparr>cpu := ?d\<rparr>)"
        then show ?thesis
          by (intro still) blast+
      next
        assume "?d = page_fault (cpu ?l) (flat_address (regs (cpu ?l)) a imm) \<and>
          \<not> permitted (cpu ?l) (flat_address (regs (cpu ?l)) a imm, ToLoad)"
        then show ?thesis
          by (intro fault [OF _ a]) (simp_all del: isa_step.simps)
      qed
    next
      case store
      have a: "(flat_address ?rs a imm, ToStore) \<in> set (accesses_of i (?rs, ?pc))"
        by (simp add: store)
      have d: "?d = isa_step (Store s a b imm) (cpu ?l)"
        by (simp add: store del: isa_step.simps)
      from store_step [OF l(1) lu(1-5) lu(6) [unfolded store]] show ?thesis
        unfolding d [symmetric]
      proof
        assume "trap_type (trap ?d) = NoTrap \<and> (regs ?d, pc ?d) = x \<and> unspoilt env (?l\<lparr>cpu := ?d\<rparr>) \<and>
          G \<subseteq>\<^sub>m user_view env (?l\<lparr>cpu := ?d\<rparr>) p \<and> (\<forall>q. q \<noteq> p \<longrightarrow> user_view env (?l\<lparr>cpu := ?d\<rparr>) q = user_view env ?l q)"
        then show ?thesis
          using lv(1) by (intro finish) (simp_all del: isa_step.simps split del: if_split)
      next
        assume "?d = page_fault (cpu ?l) (flat_address (regs (cpu ?l)) a imm) \<and>
          \<not> permitted (cpu ?l) (flat_address (regs (cpu ?l)) a imm, ToStore)"
        then show ?thesis
          by (intro fault [OF _ a]) (simp_all del: isa_step.simps)
      qed
    next
      case free
      have d: "\<not> idle_load i"
        using free by (cases i) simp_all
      note m = isa_memory_free [OF free refl refl, of ?c]
      have "same_pages (k\<lparr>cpu := ?c\<rparr>) (k\<lparr>cpu := ?d\<rparr>)"
        by (rule same_pages_cpu) (simp add: d m(1))
      then show ?thesis
        using d m(2,3) lu(5,6) still by simp
    next
      case ecall
      then show ?thesis
        using f by simp
    qed
  qed
qed

end
