(* ===== verification/VirtualMachines.thy ===== *)
theory VirtualMachines
  imports FlatMemory
begin

text \<open>
  What the kernel makes of the one processor and the small memory: a processor of its own for every
  thread and a flat memory of its own for every process.  A round of \<^verbatim>\<open>RV32UMOS::start\<close> is an
  instruction of the current thread's machine, or the service of a page fault, which no machine notices;
  preemption and the tick counter are not seen either.
\<close>

section \<open>The machines of a kernel\<close>

record Machines =
  contexts :: "nat \<Rightarrow> RegFile \<times> Addr"
  memories :: "nat \<Rightarrow> Addr \<rightharpoonup> Byte"

definition thread_context :: "'w Kernel \<Rightarrow> nat \<Rightarrow> RegFile \<times> Addr" where
  "thread_context k i =
     (if currentThreadIndex k \<noteq> -1 \<and> runner k = i then (regs (cpu k), pc (cpu k))
      else (t_regs (allThreads k ! i), t_pc (allThreads k ! i)))"

definition mirrors :: "'w Env \<Rightarrow> Machines \<Rightarrow> 'w Kernel \<Rightarrow> bool" where
  "mirrors env M k \<longleftrightarrow>
     (\<forall>i < length (allThreads k). contexts M i = thread_context k i) \<and>
     (\<forall>p < length (processList k). memories M p \<subseteq>\<^sub>m user_view env k p)"

text \<open>Thread \<^verbatim>\<open>t\<close> of process \<^verbatim>\<open>p\<close> executes the instruction its memory holds at its program counter.\<close>

definition flat_turn :: "instr \<Rightarrow> nat \<Rightarrow> nat \<Rightarrow> Machines \<Rightarrow> Machines option" where
  "flat_turn i t p M =
     (let a = snd (contexts M t); F = memories M p in
      if page_offset a + 4 > 4096 \<or> flat_read F a 4 \<noteq> Some (word_bytes 4 (encode i)) then None
      else case flat_step i (contexts M t) F of
        None \<Rightarrow> None
      | Some (x, G) \<Rightarrow> Some (M\<lparr>contexts := (contexts M)(t := x), memories := (memories M)(p := G)\<rparr>))"

lemma flat_turnE:
  assumes "flat_turn i t p M = Some M'" "contexts M t = (rs, a)"
  obtains x G where "page_offset a + 4 \<le> 4096" "flat_read (memories M p) a 4 = Some (word_bytes 4 (encode i))"
    "flat_step i (rs, a) (memories M p) = Some (x, G)"
    "M' = M\<lparr>contexts := (contexts M)(t := x), memories := (memories M)(p := G)\<rparr>"
  using assms by (auto simp: flat_turn_def Let_def split: if_splits option.splits)

text \<open>The scheduler is not seen.\<close>

lemma mirrors_same:
  assumes "same_pages k l" "allThreads l = allThreads k" "currentThreadIndex l = currentThreadIndex k" "runner l = runner k"
    and "regs (cpu l) = regs (cpu k)" "pc (cpu l) = pc (cpu k)"
  shows "mirrors env M l = mirrors env M k"
proof -
  have "thread_context l = thread_context k"
    using assms(2-6) by (simp add: thread_context_def fun_eq_iff)
  moreover have "length (processList l) = length (processList k)"
    using assms(1) by (simp add: same_pages_def)
  ultimately show ?thesis
    using same_pages_view(1) [OF assms(1)] assms(2) by (simp add: mirrors_def)
qed

lemma switched_context:
  assumes "sched_ok k" "j < length (activeThreads k)" "i < length (allThreads k)"
    and "currentThreadIndex k \<noteq> -1 \<Longrightarrow> t_state (allThreads k ! runner k) \<noteq> TERMINATED"
  shows "thread_context (switched j k) i = thread_context k i"
proof -
  let ?n = "activeThreads k ! j"
  have l: "length (parked k) = length (allThreads k)" "?n < length (allThreads k)"
    using sched_ok_at [OF assms(1,2)] by (simp_all add: parked_def Let_def)
  have p: "(t_regs (parked k ! i), t_pc (parked k ! i)) = thread_context k i"
    using assms(3,4) by (auto simp: parked_def thread_context_def runner_def Let_def leave_def nth_list_update)
  have s: "allThreads (switched j k) = (parked k)[?n := (parked k ! ?n)\<lparr>t_state := RUNNING\<rparr>]"
    "regs (cpu (switched j k)) = t_regs (parked k ! ?n)" "pc (cpu (switched j k)) = t_pc (parked k ! ?n)"
    "runner (switched j k) = ?n" "currentThreadIndex (switched j k) \<noteq> -1"
    by (simp_all add: switched_def Let_def runner_def)
  show ?thesis
  proof (cases "i = ?n")
    case True
    then show ?thesis
      using s p by (simp add: thread_context_def [of "switched j k"])
  next
    case False
    then show ?thesis
      using s p l by (simp add: thread_context_def [of "switched j k"])
  qed
qed

lemma switched_same_pages: "same_pages k (switched j k)"
proof -
  have "page_table (switched j k) = page_table k" "k_mem (switched j k) = k_mem k" "stored_page (switched j k) = stored_page k"
    "processList (switched j k) = processList k"
    by (simp_all add: switched_def Let_def page_table_def k_mem_def stored_page_def block_def fun_eq_iff)
  then show ?thesis
    by (simp add: same_pages_def saved_def resident_def page_data_def frame_bytes_def fun_eq_iff split: option.split)
qed

text \<open>What preemption leaves of a kernel whose current thread runs.\<close>

definition at_work :: "'w Kernel \<Rightarrow> bool" where
  "at_work k \<longleftrightarrow> currentThreadIndex k \<noteq> -1 \<and> t_state (allThreads k ! runner k) = RUNNING"

definition owners :: "'w Kernel \<Rightarrow> nat list" where
  "owners k = map parent (allThreads k)"

definition unseen :: "'w Env \<Rightarrow> 'w Kernel \<Rightarrow> 'w Kernel \<Rightarrow> bool" where
  "unseen env k l \<longleftrightarrow> switches k l \<and> same_pages k l \<and> (\<forall>M. mirrors env M k \<longrightarrow> mirrors env M l) \<and>
     at_work l \<and> owners l = owners k"

lemma switched_at_work:
  assumes "sched_ok k" "j < length (activeThreads k)"
  shows "at_work (switched j k)" "owners (switched j k) = owners k"
proof -
  have "runner (switched j k) = activeThreads k ! j" "length (parked k) = length (allThreads k)"
    by (simp_all add: runner_def parked_def Let_def)
  then show "at_work (switched j k)"
    using sched_ok_at [OF assms] by (simp add: at_work_def) (simp add: switched_def Let_def)
  show "owners (switched j k) = owners k"
    unfolding owners_def by (rule nth_equalityI) (simp_all add: parents_switched)
qed

lemma quantum_unseen:
  assumes ok: "safe k" and t: "at_work k"
  shows "post (\<lambda>_. False) (\<lambda>_. unseen env k) (quantum_over n) k"
proof -
  note s = tasks_parts(1) [OF safe_parts(1) [OF ok]]
  have self: "unseen env k k"
    using switches_refl [OF ok] t by (simp add: unseen_def same_pages_refl)
  have sw: "unseen env k (switched j k)" if "j < length (activeThreads k)" for j
  proof -
    have "thread_context (switched j k) i = thread_context k i" if "i < length (allThreads k)" for i
      using switched_context [OF s \<open>j < length (activeThreads k)\<close> that] t by (simp add: at_work_def)
    then have "mirrors env M k \<longrightarrow> mirrors env M (switched j k)" for M
      using same_pages_view(1) [OF switched_same_pages, of _ k env j] by (simp add: mirrors_def)
    then show ?thesis
      using switched_switches [OF ok that] switched_same_pages switched_at_work [OF s that] by (simp add: unseen_def)
  qed
  have "post (\<lambda>_. False) (\<lambda>_. unseen env k) preempt k"
  proof (cases "\<forall>j < length (activeThreads k). t_state (at k j) \<noteq> READY")
    case True
    then show ?thesis
      using preempt_idle [OF s] self by (simp add: post_def)
  next
    case False
    then obtain i where i: "i < length (activeThreads k)" "t_state (at k i) = READY"
      by auto
    then obtain d where d: "cyclic_next k d"
      using some_ready s by blast
    let ?j = "after (length (activeThreads k)) (currentThreadIndex k) d"
    have "activeThreads k \<noteq> []"
      using i(1) by auto
    then show ?thesis
      using preempt_switches [OF s _ d refl] self sw [of ?j] after_less by (auto simp: post_def)
  qed
  then show ?thesis
    using self by (simp add: quantum_over_def post_ret)
qed

section \<open>Up to the service of a fault\<close>

text \<open>The steps of a round that no machine notices.\<close>

definition alike :: "'w Kernel \<Rightarrow> 'w Kernel \<Rightarrow> bool" where
  "alike k l \<longleftrightarrow> near k l \<and> same_pages k l \<and> allThreads l = allThreads k \<and> activeThreads l = activeThreads k \<and>
     currentThreadIndex l = currentThreadIndex k \<and> regs (cpu l) = regs (cpu k) \<and> pc (cpu l) = pc (cpu k) \<and>
     (\<forall>p < length (processList k). threads (processList l ! p) = threads (processList k ! p) \<and>
        programBreak (processList l ! p) = programBreak (processList k ! p))"

lemma alike_trans: "alike k l \<Longrightarrow> alike l m \<Longrightarrow> alike k m"
  using near_trans [of k l m] same_pages_trans [of k l m] by (simp add: alike_def) (simp add: same_pages_def)

lemma alike_parts:
  assumes "alike k l"
  shows "near k l" "same_pages k l" "runner l = runner k" "home l = home k" "mirrors env M l = mirrors env M k"
proof -
  show n: "near k l" and s: "same_pages k l"
    using assms by (simp_all add: alike_def)
  show r: "runner l = runner k" and "home l = home k"
    using assms by (simp_all add: alike_def runner_def home_def)
  show "mirrors env M l = mirrors env M k"
    using assms r by (intro mirrors_same [OF s]) (simp_all add: alike_def)
qed

lemma swapped_out_iff: "swapped_out k p v \<longleftrightarrow> saved k p v \<and> \<not> resident k p v"
  by (auto simp: swapped_out_def saved_def resident_def split: option.split)

lemma alike_source:
  assumes "alike k l" "p < length (processList k)"
  shows "source_of l p a = source_of k p a"
proof -
  have "swapped_out l p (drop_bit 12 a) = swapped_out k p (drop_bit 12 a)" "resident l = resident k"
    "stack_region l p a = stack_region k p a" "segments (processList l ! p) = segments (processList k ! p)"
    "programBreak (processList l ! p) = programBreak (processList k ! p)"
    using assms by (simp_all add: swapped_out_iff stack_region_def alike_def same_pages_def)
  then show ?thesis
    by (simp only: source_of_def Let_def)
qed

lemma alike_cpu:
  assumes "safe k" "drift (cpu k) c" "same_pages k (k\<lparr>cpu := c\<rparr>)" "regs c = regs (cpu k)" "pc c = pc (cpu k)"
  shows "alike k (k\<lparr>cpu := c\<rparr>)"
  using near_cpu [OF assms(1,2)] assms(3-5) by (simp add: alike_def with_cpu_def)

lemma nth_update_same: "f x = f (xs ! i) \<Longrightarrow> f (xs[i := x] ! q) = f (xs ! q)"
  by (cases "i < length xs"; cases "q = i") (simp_all add: not_less list_update_beyond)

lemma counted_alike:
  assumes r: "ready k"
  shows "alike k (counted (home k) k)"
proof -
  let ?p = "home k"
  let ?x = "(processList k ! ?p)\<lparr>instructionsExecuted := instructionsExecuted (processList k ! ?p) + 1\<rparr>"
  note ok = ready_parts(1) [OF r] and p = ready_current(2) [OF r]
  have n: "near k (put_process ?p ?x k)"
    using near_process [OF ok p, of ?x] process_is_ok [OF ok p] by (simp add: process_ok_def)
  then have "near (put_process ?p ?x k) (counted ?p k)"
    using near_stats [OF near_safe [OF n], of "incInstructions (stats k)"] by (simp add: counted_def)
  then have "near k (counted ?p k)"
    using near_trans [OF n] by simp
  moreover have "page_table (counted ?p k) = page_table k" "k_mem (counted ?p k) = k_mem k" "stored_page (counted ?p k) = stored_page k"
    by (simp_all add: counted_def put_process_def page_table_def k_mem_def stored_page_def block_def fun_eq_iff)
  then have "saved (counted ?p k) = saved k" "resident (counted ?p k) = resident k" "page_data (counted ?p k) = page_data k"
    by (simp_all add: saved_def resident_def page_data_def frame_bytes_def fun_eq_iff split: option.split)
  moreover have "processList (counted ?p k) = (processList k)[?p := ?x]"
    by (simp add: counted_def put_process_def)
  then have "segments (processList (counted ?p k) ! q) = segments (processList k ! q)"
    "p_name (processList (counted ?p k) ! q) = p_name (processList k ! q)" "threads (processList (counted ?p k) ! q) = threads (processList k ! q)"
    "programBreak (processList (counted ?p k) ! q) = programBreak (processList k ! q)" "length (processList (counted ?p k)) = length (processList k)" for q
    using nth_update_same [of segments ?x "processList k" ?p q] nth_update_same [of p_name ?x "processList k" ?p q]
      nth_update_same [of threads ?x "processList k" ?p q] nth_update_same [of programBreak ?x "processList k" ?p q]
    by simp_all
  ultimately show ?thesis
    by (simp add: alike_def same_pages_def) (simp add: counted_def put_process_def)
qed

section \<open>The service of a fault\<close>

definition paged_in :: "'w Env \<Rightarrow> Machines \<Rightarrow> nat \<Rightarrow> Addr \<Rightarrow> 'w Kernel \<Rightarrow> 'w Kernel \<Rightarrow> bool" where
  "paged_in env M p a k l \<longleftrightarrow> near k l \<and> allThreads l = allThreads k \<and> currentThreadIndex l = currentThreadIndex k \<and>
     runner l = runner k \<and> processList l = processList k \<and> unspoilt env l \<and> mirrors env M l \<and>
     \<not> resident k p (vpn_of a) \<and> resident l p (vpn_of a)"

definition ended :: "nat \<Rightarrow> 'w Kernel \<Rightarrow> 'w Kernel \<Rightarrow> bool" where
  "ended p k l \<longleftrightarrow> p < length (processList k) \<and> active (processList k ! p) \<and> \<not> active (processList l ! p)"

lemma ended_lost: "ended p k l \<Longrightarrow> lost k l"
  by (auto simp: ended_def lost_def)

lemma near_ended: "near k l \<Longrightarrow> ended p l n \<Longrightarrow> ended p k n"
proof -
  assume "near k l" "ended p l n"
  then have "map active (processList l) = map active (processList k)"
    by (simp add: near_def same_processes_def)
  then show "ended p k n"
    using \<open>ended p l n\<close> unfolding ended_def by (metis length_map nth_map)
qed

lemma ended_switches: "ended p k l \<Longrightarrow> switches l n \<Longrightarrow> ended p k n"
  by (simp add: ended_def switches_def)

lemma killed_is_ended:
  assumes r: "ready k" "fine k" shows "post (\<lambda>_. False) (\<lambda>_. ended (home k) k) (kill_current env why) k"
proof -
  note c = ready_current [OF r(1)] and ok = ready_parts(1) [OF r(1)]
  note s = tasks_parts [OF safe_parts(1) [OF ok]] and m = memory_parts [OF safe_parts(2) [OF ok]]
  have "length (frameTable (pmm k)) = 16"
    using r(2) vm_inv_parts(1) [of k None] by (simp add: fine_def pmm_ok_def)
  moreover have "\<forall>i \<in> set (threads (processList k ! home k)). i < length (allThreads k)"
    using process_is_ok [OF ok c(2)] by (simp add: process_ok_def)
  moreover have "\<forall>i \<in> set (waiters k (int (home k))). i < length (allThreads k)"
    using s(7) by blast
  ultimately obtain n where n: "terminate env (int (home k)) (-1) k = Inr (True, n)" "\<not> active (processList n ! home k)"
    using terminate_run [OF c(2,8), of env "-1"] r(2) m(3) c(2) by (fastforce simp: ends_def)
  have "ended (home k) k n"
    unfolding ended_def using c(2,8) r(2) n(2) by blast
  then show ?thesis
    using n(1) kill_pid(1) [OF r(1)]
    by (simp add: kill_current_def killProcess_def bind_known c(5)) (simp add: post_def bind_run ret_run)
qed

lemma fault_paged_in:
  assumes r: "ready k" "fine k" and l: "plain_layout (processList k ! home k)" and M: "unspoilt env k" "mirrors env M k"
  shows "post only_swap_full (\<lambda>_ l. paged_in env M (home k) a k l \<or> ended (home k) k l \<and> source_of k (home k) a = None) (handlePageFault env a) k"
proof -
  note ok = ready_parts [OF r(1)] and c = ready_current [OF r(1)]
  have vm: "vm_ok k" "threads_ok k"
    using r(2) serves_parts(5) [OF safe_serves(1) [OF ok(1,3)]] by (simp_all add: fine_def)
  note served = post_conj [OF fault_serviced [OF vm c(5,2)] page_fault_near [OF ok(1,3)]]
  have good: "paged_in env M (home k) a k n"
    if n: "near k n" "keeps (home k) (drop_bit 12 a) k n" and s: "source_of k (home k) a = Some src"
      and src: "resident n (home k) (drop_bit 12 a)" "src = FromSwap \<longrightarrow> saved n (home k) (drop_bit 12 a)"
        "promised env k (home k) (drop_bit 12 a) src bs" "page_data n (home k) (drop_bit 12 a) = Some bs"
    for n src bs
  proof -
    have v: "unspoilt env n" "sees_on env k n"
      using serviced_view [OF M(1) c(2) l s] n(2) src by (simp_all add: vpn_of_def)
    note u = keeps_user [OF n(2)] and m = keeps_machine(4,5) [OF n(2)]
    have "thread_context n = thread_context k" "runner n = runner k"
      using u m by (simp_all add: thread_context_def runner_def fun_eq_iff)
    moreover have "memories M q \<subseteq>\<^sub>m user_view env n q" if "q < length (processList k)" for q
      using M(2) v(2) that map_le_trans unfolding mirrors_def sees_on_def by blast
    ultimately have "mirrors env M n"
      using M(2) u(3,4) by (simp add: mirrors_def)
    moreover have "\<not> resident k (home k) (drop_bit 12 a)"
      using s by (auto simp: source_of_def Let_def split: if_splits)
    ultimately show ?thesis
      using n(1) u m v(1) src(1) \<open>runner n = runner k\<close> by (simp add: paged_in_def vpn_of_def)
  qed
  show ?thesis
    unfolding handlePageFault_def post_bind
  proof (rule post_mono [OF served])
    fix b n
    assume n: "(vm_ok n \<and> keeps (home k) (drop_bit 12 a) k n \<and> (case source_of k (home k) a of None \<Rightarrow> \<not> b
       | Some src \<Rightarrow> b \<and> resident n (home k) (drop_bit 12 a) \<and> (src = FromSwap \<longrightarrow> saved n (home k) (drop_bit 12 a)) \<and>
           (\<exists>bs. promised env k (home k) (drop_bit 12 a) src bs \<and> page_data n (home k) (drop_bit 12 a) = Some bs))) \<and> near k n"
    show "post only_swap_full (\<lambda>_ l. paged_in env M (home k) a k l \<or> ended (home k) k l \<and> source_of k (home k) a = None)
      (if \<not> b then kill_current env ''KERNEL PANIC: Failed to kill process after Segfault!'' else ret ()) n"
    proof (cases "source_of k (home k) a")
      case None
      have h: "home n = home k"
        using keeps_user [of "home k" "drop_bit 12 a" k n] keeps_machine(4,5) [of "home k" "drop_bit 12 a" k n] n
        by (simp add: home_def runner_def)
      have "ready n" "fine n"
        using ready_near [OF r(1)] r(2) n by (auto simp: near_def)
      then have "post (\<lambda>_. False) (\<lambda>_. ended (home n) n) (kill_current env ''KERNEL PANIC: Failed to kill process after Segfault!'') n"
        by (rule killed_is_ended)
      then have "post only_swap_full (\<lambda>_ l. paged_in env M (home k) a k l \<or> ended (home k) k l \<and> source_of k (home k) a = None)
          (kill_current env ''KERNEL PANIC: Failed to kill process after Segfault!'') n"
        by (rule post_mono) (use None n near_ended h in auto)
      then show ?thesis
        using None n by simp
    next
      case (Some src)
      then have "b" "paged_in env M (home k) a k n"
        using n good [of n src] by auto
      then show ?thesis
        by (simp add: post_ret)
    qed
  qed simp
qed

section \<open>A round\<close>

text \<open>What a round of user code leads to, as seen by the machines: their next state, the same state with a
  page more in memory, or the end of the process; the latter two only after an access that the page table in
  force does not permit, the last only when nothing can supply the page of that same access.\<close>

definition layouts_ok :: "'w Kernel \<Rightarrow> bool" where
  "layouts_ok k \<longleftrightarrow> (\<forall>pr \<in> set (processList k). plain_layout pr)"

definition seen_as :: "'w Env \<Rightarrow> Machines \<Rightarrow> 'w Kernel \<Rightarrow> bool" where
  "seen_as env M k \<longleftrightarrow> unspoilt env k \<and> layouts_ok k \<and> mirrors env M k"

definition faulted_in :: "'w Kernel \<Rightarrow> 'w Kernel \<Rightarrow> (Addr \<times> purpose) list \<Rightarrow> bool" where
  "faulted_in k l as \<longleftrightarrow> (\<exists>y \<in> set as. \<not> permitted (cpu k) y \<and>
     \<not> resident k (home k) (vpn_of (fst y)) \<and> resident l (home k) (vpn_of (fst y)))"

definition refused_in :: "'w Kernel \<Rightarrow> 'w Kernel \<Rightarrow> (Addr \<times> purpose) list \<Rightarrow> bool" where
  "refused_in k l as \<longleftrightarrow> ended (home k) k l \<and> (\<exists>y \<in> set as. \<not> permitted (cpu k) y \<and> source_of k (home k) (fst y) = None)"

lemma layouts_same: "same_pages k l \<Longrightarrow> layouts_ok l = layouts_ok k"
  unfolding layouts_ok_def by (rule same_pages_view(3))

lemma seen_as_alike:
  assumes "alike k l" shows "seen_as env M l = seen_as env M k"
  using alike_parts(5) [OF assms] same_pages_view(2) [OF alike_parts(2) [OF assms]] layouts_same [OF alike_parts(2) [OF assms]]
  by (simp add: seen_as_def)

lemma executed_mirrors:
  assumes M: "mirrors env M k" and t: "currentThreadIndex k \<noteq> -1" "runner k < length (allThreads k)"
    and e: "executed env p x G k c"
  shows "mirrors env (M\<lparr>contexts := (contexts M)(runner k := x), memories := (memories M)(p := G)\<rparr>) (k\<lparr>cpu := c\<lparr>pc := pc c + 4\<rparr>\<rparr>)"
proof -
  let ?k = "k\<lparr>cpu := c\<lparr>pc := pc c + 4\<rparr>\<rparr>"
  have s: "same_pages (k\<lparr>cpu := c\<rparr>) ?k"
    by (rule same_pages_cpu) simp
  have "user_view env ?k q = user_view env (k\<lparr>cpu := c\<rparr>) q" if "q < length (processList k)" for q
    using same_pages_view(1) [OF s] that by simp
  moreover have "thread_context ?k i = (if i = runner k then x else thread_context k i)" for i
    using e t(1) by (auto simp: thread_context_def runner_def executed_def)
  ultimately show ?thesis
    using M e by (auto simp: mirrors_def executed_def)
qed

lemma home_table:
  assumes "ready k" shows "currentTable (mmu (cpu k)) = Some (home k)"
proof -
  have "table_in_force k"
    using tasks_parts(3) [OF safe_parts(1) [OF ready_parts(1) [OF assms]]] .
  then show ?thesis
    using ready_parts(3) [OF assms] by (simp add: table_in_force_def home_def runner_def at_def)
qed

definition half_done :: "'w Env \<Rightarrow> Machines \<Rightarrow> Machines \<Rightarrow> (Addr \<times> purpose) list \<Rightarrow> 'w Kernel \<Rightarrow> 'w Kernel \<Rightarrow> bool" where
  "half_done env M M' as k l \<longleftrightarrow> near k l \<and> allThreads l = allThreads k \<and> currentThreadIndex l = currentThreadIndex k \<and>
     runner l = runner k \<and> (seen_as env M' l \<or> seen_as env M l \<and> faulted_in k l as)"

lemma step_returns:
  assumes r: "ready k" and s: "step (cpu k) = Inr ((), c)"
  shows "on_cpu step k = Inr ((), k\<lparr>cpu := c\<rparr>)" "drift (cpu k) c"
proof -
  have "sound_step (cpu k) c"
    using sound_machine_step [OF ready_cpu [OF r] ready_parts(2) [OF r]] s by (simp add: post_def)
  then show "drift (cpu k) c"
    by (auto simp: sound_step_def drift_def)
  show "on_cpu step k = Inr ((), k\<lparr>cpu := c\<rparr>)"
    using s by (simp add: on_cpu_run)
qed

lemma on_cpu_pc: "on_cpu cpu_advancePC (k\<lparr>cpu := c\<rparr>) = Inr ((), k\<lparr>cpu := c\<lparr>pc := pc c + 4\<rparr>\<rparr>)"
  by (simp add: on_cpu_run cpu_advancePC_def modify_run)

lemma on_cpu_has: "on_cpu cpu_hasTrap (k\<lparr>cpu := c\<rparr>) = Inr (trap_type (trap c) \<noteq> NoTrap, k\<lparr>cpu := c\<rparr>)"
  by (simp add: on_cpu_run hasTrap_run)

lemma executed_half:
  assumes r: "ready k" and S: "seen_as env M k" and e: "executed env (home k) x G k c" and d: "drift (cpu k) c"
  shows "half_done env M (M\<lparr>contexts := (contexts M)(runner k := x), memories := (memories M)(home k := G)\<rparr>) as k
    (k\<lparr>cpu := c\<lparr>pc := pc c + 4\<rparr>\<rparr>)"
proof -
  let ?l = "k\<lparr>cpu := c\<lparr>pc := pc c + 4\<rparr>\<rparr>"
  have "cpu_ok c"
    using d by (simp add: drift_def)
  then have "drift (cpu k) (c\<lparr>pc := pc c + 4\<rparr>)"
    using drift_trans [OF d] drift_plain(1) by blast
  from near_cpu [OF ready_parts(1) [OF r] this] have n: "near k ?l"
    by (simp add: with_cpu_def)
  have s: "same_pages (k\<lparr>cpu := c\<rparr>) ?l"
    by (rule same_pages_cpu) simp
  have "unspoilt env ?l"
    using e same_pages_view(2) [OF s] by (simp add: executed_def)
  moreover have "layouts_ok ?l"
    using S by (simp add: seen_as_def layouts_ok_def)
  moreover have "mirrors env (M\<lparr>contexts := (contexts M)(runner k := x), memories := (memories M)(home k := G)\<rparr>) ?l"
    using S by (intro executed_mirrors [OF _ ready_parts(3) [OF r] ready_current(1) [OF r] e]) (simp add: seen_as_def)
  ultimately show ?thesis
    using n by (simp add: half_done_def seen_as_def runner_def)
qed

lemma faulted_half:
  assumes r: "ready k" "fine k" and S: "seen_as env M k" and f: "faulted k a c" and d: "drift (cpu k) c"
    and a: "(a, w) \<in> set as" "\<not> permitted (cpu k) (a, w)"
  shows "post only_swap_full (\<lambda>_ l. half_done env M M' as k l \<or> refused_in k l as)
    (bind (gets (\<lambda>k. trap (cpu k))) (\<lambda>tr. andthen (on_cpu cpu_clearTrap) (andthen (handle_trap env tr) (ret True)))) (k\<lparr>cpu := c\<rparr>)"
proof -
  let ?l = "k\<lparr>cpu := c\<lparr>trap := no_trap\<rparr>\<rparr>"
  have ok: "cpu_ok c"
    using d by (simp add: drift_def)
  have "drift (cpu k) (c\<lparr>trap := no_trap\<rparr>)"
    using drift_trans [OF d drift_plain(2) [OF ok]] .
  moreover have "same_pages (k\<lparr>cpu := c\<rparr>) ?l"
    by (rule same_pages_cpu) simp
  then have "same_pages k ?l"
    using f same_pages_trans unfolding faulted_def by blast
  ultimately have al: "alike k ?l"
    using f by (intro alike_cpu [OF ready_parts(1) [OF r(1)]]) (simp_all add: faulted_def)
  have h: "home ?l = home k" "runner ?l = runner k"
    using alike_parts(3,4) [OF al] by simp_all
  have r': "ready ?l" "fine ?l"
    using ready_near [OF r(1) alike_parts(1) [OF al]] r(2) alike_parts(1) [OF al] by (simp_all add: near_def)
  have S': "seen_as env M ?l"
    using S seen_as_alike [OF al] by simp
  then have pl: "plain_layout (processList ?l ! home ?l)"
    using ready_current(2) [OF r'(1)] by (simp add: seen_as_def layouts_ok_def)
  have "post only_swap_full (\<lambda>_ n. paged_in env M (home ?l) a ?l n \<or> ended (home ?l) ?l n \<and> source_of ?l (home ?l) a = None) (handlePageFault env a) ?l"
    using S' by (intro fault_paged_in [OF r' pl]) (simp_all add: seen_as_def)
  then have p: "post only_swap_full (\<lambda>_ n. half_done env M M' as k n \<or> refused_in k n as) (handlePageFault env a) ?l"
  proof (rule post_mono)
    fix u n
    assume "paged_in env M (home ?l) a ?l n \<or> ended (home ?l) ?l n \<and> source_of ?l (home ?l) a = None"
    then show "half_done env M M' as k n \<or> refused_in k n as"
    proof
      assume p: "paged_in env M (home ?l) a ?l n"
      have "resident ?l = resident k"
        using alike_parts(2) [OF al] by (simp add: same_pages_def)
      then have "faulted_in k n as"
        using p a unfolding faulted_in_def paged_in_def h by force
      moreover have "near k n"
        using p near_trans [OF alike_parts(1) [OF al]] by (simp add: paged_in_def)
      moreover have "seen_as env M n"
        using p S' by (simp add: paged_in_def seen_as_def layouts_ok_def)
      ultimately show ?thesis
        using p h by (simp add: half_done_def paged_in_def)
    next
      assume "ended (home ?l) ?l n \<and> source_of ?l (home ?l) a = None"
      then show ?thesis
        using alike_source [OF al ready_current(2) [OF r(1)], of a] near_ended [OF alike_parts(1) [OF al]] a unfolding refused_in_def h by force
    qed
  qed simp
  have "trap c = \<lparr>trap_type = PageFaultTrap, trap_value = a\<rparr>"
    using f by (simp add: faulted_def)
  then show ?thesis
    using post_then_ret [OF p, of True] trap_cleared(1) [of "k\<lparr>cpu := c\<rparr>"]
    by (simp add: post_bind [of _ _ "gets _"] post_gets) (simp add: post_def handle_trap_def andthen_run)
qed

lemma first_half_seen:
  assumes r: "ready k" "fine k" and S: "seen_as env M k" and f: "flat_turn i (runner k) (home k) M = Some M'"
  shows "post only_swap_full
    (\<lambda>_ l. half_done env M M' (accesses_of i (contexts M (runner k))) k l \<or> refused_in k l (accesses_of i (contexts M (runner k))))
    (first_half env (home k)) k"
proof -
  let ?k = "counted (home k) k" and ?as = "accesses_of i (contexts M (runner k))"
  have al: "alike k ?k"
    by (rule counted_alike [OF r(1)])
  note n = alike_parts(1) [OF al] and h = alike_parts(3,4) [OF al]
  have r': "ready ?k" "fine ?k"
    using ready_near [OF r(1) n] r(2) n by (simp_all add: near_def)
  have S': "seen_as env M ?k"
    using S seen_as_alike [OF al] by simp
  have M: "contexts M (runner k) = (regs (cpu ?k), pc (cpu ?k))"
    using S' ready_current(1) [OF r'(1)] ready_parts(3) [OF r'(1)] unfolding h
    by (simp add: seen_as_def mirrors_def thread_context_def h)
  obtain x G where t: "page_offset (pc (cpu ?k)) + 4 \<le> 4096" "flat_read (memories M (home k)) (pc (cpu ?k)) 4 = Some (word_bytes 4 (encode i))"
    "flat_step i (regs (cpu ?k), pc (cpu ?k)) (memories M (home k)) = Some (x, G)"
    "M' = M\<lparr>contexts := (contexts M)(runner k := x), memories := (memories M)(home k := G)\<rparr>"
    using f M by (rule flat_turnE)
  have seen: "memories M (home ?k) \<subseteq>\<^sub>m user_view env ?k (home ?k)" "unspoilt env ?k"
    using S' ready_current(2) [OF r'(1)] by (simp_all add: seen_as_def mirrors_def)
  have vm: "vm_ok ?k"
    using r'(2) by (simp add: fine_def)
  obtain c where c: "step (cpu ?k) = Inr ((), c)"
    "executed env (home ?k) x G ?k c \<or> (\<exists>y \<in> set ?as. \<not> permitted (cpu ?k) y \<and> faulted ?k (fst y) c)"
    using flat_instruction [OF vm ready_cpu [OF r'(1)] ready_parts(2) [OF r'(1)] home_table [OF r'(1)] ready_current(2) [OF r'(1)]
        seen(2,1), of i x G] t(1-3) M h by auto
  note s = step_returns [OF r'(1) c(1)]
  let ?Q = "\<lambda>_ l. half_done env M M' ?as ?k l \<or> refused_in ?k l ?as"
  let ?m = "andthen (on_cpu step) (bind (on_cpu cpu_hasTrap) (\<lambda>trapped.
     if trapped then bind (gets (\<lambda>k. trap (cpu k))) (\<lambda>tr. andthen (on_cpu cpu_clearTrap) (andthen (handle_trap env tr) (ret True)))
     else andthen (on_cpu cpu_advancePC) (ret False)))"
  have "post only_swap_full ?Q ?m ?k"
    using c(2)
  proof
    assume e: "executed env (home ?k) x G ?k c"
    then have "?m ?k = Inr (False, ?k\<lparr>cpu := c\<lparr>pc := pc c + 4\<rparr>\<rparr>)"
      using s(1) by (simp add: andthen_run bind_run on_cpu_has on_cpu_pc ret_run executed_def)
    then show ?thesis
      using executed_half [OF r'(1) S' e s(2)] t(4) h by (simp add: post_def)
  next
    assume "\<exists>y \<in> set ?as. \<not> permitted (cpu ?k) y \<and> faulted ?k (fst y) c"
    then obtain a w where a: "(a, w) \<in> set ?as" "faulted ?k a c" "\<not> permitted (cpu ?k) (a, w)"
      by auto
    then have "?m ?k = bind (gets (\<lambda>k. trap (cpu k))) (\<lambda>tr. andthen (on_cpu cpu_clearTrap) (andthen (handle_trap env tr) (ret True)))
        (?k\<lparr>cpu := c\<rparr>)"
      using s(1) by (simp add: andthen_run bind_run on_cpu_has faulted_def)
    then show ?thesis
      using faulted_half [OF r' S' a(2) s(2) a(1,3), of M'] by (simp add: post_def)
  qed
  then have "post only_swap_full (\<lambda>_ l. half_done env M M' ?as k l \<or> refused_in k l ?as) ?m ?k"
  proof (rule post_mono)
    fix u l
    assume "half_done env M M' ?as ?k l \<or> refused_in ?k l ?as"
    moreover have "resident ?k = resident k" "cpu ?k = cpu k"
      using alike_parts(2) [OF al] by (simp_all add: same_pages_def counted_def put_process_def)
    moreover have "near ?k l \<Longrightarrow> near k l"
      using near_trans [OF n] .
    moreover have "allThreads ?k = allThreads k" "currentThreadIndex ?k = currentThreadIndex k"
      using al by (simp_all add: alike_def)
    ultimately show "half_done env M M' ?as k l \<or> refused_in k l ?as"
      using alike_source [OF al ready_current(2) [OF r(1)]] near_ended [OF n] unfolding half_done_def faulted_in_def refused_in_def h by auto
  qed simp
  moreover have "first_half env (home k) k = ?m ?k"
    unfolding first_half_def by (rule counted_run [OF ready_current(2) [OF r(1)]])
  ultimately show ?thesis
    by (simp add: post_def)
qed

lemma seen_as_unseen:
  assumes "unseen env l n" "seen_as env M l" shows "seen_as env M n"
proof -
  have s: "same_pages l n"
    using assms(1) by (simp add: unseen_def)
  show ?thesis
    using assms same_pages_view(2) [OF s] layouts_same [OF s] by (simp add: unseen_def seen_as_def)
qed

lemma half_then_quantum:
  assumes h: "half_done env M M' as k l" and q: "unseen env l n"
  shows "\<not> lost k n \<and> at_work n \<and> owners n = owners k \<and> (seen_as env M' n \<or> seen_as env M n \<and> faulted_in k n as)"
proof -
  have "same_processes k l" "processList n = processList l"
    using h q by (simp_all add: half_done_def near_def unseen_def switches_def)
  then have "map active (processList n) = map active (processList k)"
    by (simp add: same_processes_def)
  then have "\<not> lost k n"
    unfolding lost_def by (metis length_map nth_map)
  moreover have "faulted_in k n as" if "faulted_in k l as"
    using that q by (auto simp: faulted_in_def unseen_def same_pages_def)
  moreover have "at_work n \<and> owners n = owners k"
    using h q by (simp add: half_done_def unseen_def owners_def)
  ultimately show ?thesis
    using h seen_as_unseen [OF q] by (auto simp: half_done_def)
qed

lemma run_instruction_seen:
  fixes k :: "'w Kernel"
  assumes r: "ready k" "fine k" and run: "at_work k" and env: "env_ok env"
    and S: "seen_as env M k" and f: "flat_turn i (runner k) (home k) M = Some M'"
  defines "as \<equiv> accesses_of i (contexts M (runner k))"
  shows "post only_swap_full (\<lambda>_ n. \<not> lost k n \<and> at_work n \<and> owners n = owners k \<and> (seen_as env M' n \<or> seen_as env M n \<and> faulted_in k n as) \<or> refused_in k n as)
    (run_instruction env ticks) k"
proof -
  note c = ready_current [OF r(1)]
  let ?Q = "\<lambda>n. \<not> lost k n \<and> at_work n \<and> owners n = owners k \<and> (seen_as env M' n \<or> seen_as env M n \<and> faulted_in k n as) \<or> refused_in k n as"
  have "post only_swap_full (\<lambda>_. ?Q) (second_half (runner k) (ticks + 1) b) l"
    if l: "good k l" "half_done env M M' as k l \<or> refused_in k l as" for b l
    using l(2)
  proof
    assume h: "half_done env M M' as k l"
    then have t: "allThreads l = allThreads k" "currentThreadIndex l \<noteq> -1" "runner l = runner k" "safe l"
      using ready_parts(3) [OF r(1)] by (simp_all add: half_done_def near_def)
    have q: "post (\<lambda>_. False) (\<lambda>_. unseen env l) (quantum_over (ticks + 1)) l"
      using run t by (intro quantum_unseen) (simp_all add: at_work_def)
    then have q': "post only_swap_full (\<lambda>_. ?Q) (quantum_over (ticks + 1)) l"
      by (rule post_mono) (use half_then_quantum [OF h] in auto)
    have "the_thread (runner k) l = Inr (allThreads k ! runner k, l)"
      using c(1) t(1) by (simp add: the_thread_def)
    then show ?thesis
      using run post_then_ret [OF q'] by (simp add: second_half_def bind_known at_work_def)
  next
    assume ref: "refused_in k l as"
    have s: "safe l" "runner k < length (allThreads l)"
      using l onward_threads(1) [of k l] c(1) by (auto simp: good_def)
    have "the_thread (runner k) l = Inr (allThreads l ! runner k, l)"
      using s(2) by (simp add: the_thread_def)
    then have "post only_swap_full (\<lambda>_. switches l) (second_half (runner k) (ticks + 1) b) l"
      by (simp add: second_half_def bind_known switches_ret [OF preempt_safe [OF s(1)]] switches_ret [OF quantum_safe [OF s(1)]])
    then show ?thesis
      by (rule post_mono) (use ref ended_switches in \<open>auto simp: refused_in_def\<close>)
  qed
  moreover have "post only_swap_full (\<lambda>_ l. good k l \<and> (half_done env M M' as k l \<or> refused_in k l as)) (first_half env (home k)) k"
    using first_half_good [OF r(1) env] first_half_seen [OF r S f] by (auto simp: post_def as_def split: sum.splits)
  ultimately have "post only_swap_full (\<lambda>_. ?Q) (bind (first_half env (home k)) (second_half (runner k) (ticks + 1))) k"
    unfolding post_bind by (auto elim!: post_mono)
  then show ?thesis
    by (simp add: run_instruction_halves bind_known c(3,4))
qed

theorem turn_seen:
  fixes k :: "'w Kernel"
  assumes u: "undisturbed env k" and env: "env_ok env" and S: "seen_as env M k"
    and work: "at_work k"
    and f: "flat_turn i (runner k) (home k) M = Some M'"
  defines "as \<equiv> accesses_of i (contexts M (runner k))"
  shows "case turn env ticks k of Inl e \<Rightarrow> e = KernelPanic ''Swap Full!''
    | Inr (_, n) \<Rightarrow> undisturbed env n \<and> \<not> lost k n \<and> at_work n \<and> owners n = owners k \<and>
        (seen_as env M' n \<or> seen_as env M n \<and> faulted_in k n as) \<or> refused_in k n as"
proof -
  have run: "currentThreadIndex k \<noteq> -1" "t_state (allThreads k ! runner k) = RUNNING"
    using work by (simp_all add: at_work_def)
  have k: "safe k" "vmEnabled (mmu (cpu k))" "fine k"
    using undisturbed_fine [OF u env] by simp_all
  have r: "ready k"
    using k run(1) by (simp add: ready_def)
  note c = ready_current [OF r]
  note s = tasks_parts(1) [OF safe_parts(1) [OF k(1)]]
  obtain j where "currentThreadIndex k = int j" "j < length (activeThreads k)"
    using sched_ok_at_current [OF s run(1)] by blast
  then have "runner k \<in> set (activeThreads k)"
    by (simp add: runner_def)
  moreover have "t_state (allThreads k ! runner k) \<noteq> TERMINATED"
    using run(2) by simp
  ultimately have "\<not> (\<forall>i \<in> set (activeThreads k). t_state (allThreads k ! i) = TERMINATED)"
    by blast
  then have "checkAllTerminated k = Inr (False, k)"
    using checkAllTerminated_eq [OF s] by simp
  moreover have "no_running_thread k = Inr (False, k)"
    using c run by (simp add: no_running_thread_def bind_run gets_run ret_run)
  ultimately have t: "turn env ticks k = bind (run_instruction env ticks) (\<lambda>t. ret (True, t)) k"
    by (simp add: turn_def bind_run)
  show ?thesis
  proof (cases "run_instruction env ticks k")
    case (Inl e)
    then show ?thesis
      using run_instruction_seen [OF r k(3) work env S f, of ticks] t by (simp add: post_def bind_run)
  next
    case (Inr y)
    then obtain x n where n: "run_instruction env ticks k = Inr (x, n)"
      by (cases y) simp
    then have tn: "turn env ticks k = Inr ((True, x), n)"
      using t by (simp add: bind_run ret_run)
    then have "\<not> lost k n \<Longrightarrow> undisturbed env n"
      using undisturbed.round [OF u] by blast
    then show ?thesis
      using run_instruction_seen [OF r k(3) work env S f, of ticks] n tn by (auto simp: post_def as_def)
  qed
qed

end
