(* ===== verification/FlatRuns.thy ===== *)
theory FlatRuns
  imports VirtualMachines
begin

text \<open>
  Whole runs of user code: from the kernel \<^verbatim>\<open>main\<close> hands to \<^verbatim>\<open>start\<close>, whose processes see the
  images of their files, through any number of rounds, each of which is a move of the machines of
  theory VirtualMachines or none.
\<close>

section \<open>The start\<close>

definition no_pages :: "'w Kernel \<Rightarrow> bool" where
  "no_pages k \<longleftrightarrow> (\<forall>p. page_table k p = Map.empty)"

definition maps_nothing :: "('w Kernel, 'a) prog \<Rightarrow> bool" where
  "maps_nothing m \<longleftrightarrow> (\<forall>k x l. no_pages k \<longrightarrow> m k = Inr (x, l) \<longrightarrow> no_pages l)"

lemma maps_nothing_bind [intro]:
  assumes "maps_nothing m" "\<And>x. maps_nothing (n x)" shows "maps_nothing (bind m n)"
  unfolding maps_nothing_def
proof (intro allI impI)
  fix k x l
  assume k: "no_pages k" "bind m n k = Inr (x, l)"
  then obtain y j where "m k = Inr (y, j)" "n y j = Inr (x, l)"
    by (auto simp: bind_run split: sum.splits)
  then show "no_pages l"
    using assms k(1) unfolding maps_nothing_def by metis
qed

lemma maps_nothing_cases [intro]:
  "maps_nothing m \<Longrightarrow> (\<And>y. maps_nothing (n y)) \<Longrightarrow> maps_nothing (case z of None \<Rightarrow> m | Some y \<Rightarrow> n y)"
  "(b \<Longrightarrow> maps_nothing m) \<Longrightarrow> (\<not> b \<Longrightarrow> maps_nothing n') \<Longrightarrow> maps_nothing (if b then m else n')"
  by (cases z, simp_all)

lemma maps_nothing_then [intro]: "maps_nothing m \<Longrightarrow> maps_nothing n \<Longrightarrow> maps_nothing (andthen m n)"
  unfolding andthen_def by blast

lemma maps_nothing_plain [intro]:
  "maps_nothing (ret x)" "maps_nothing (fail e)" "maps_nothing (gets f)"
  by (simp_all add: maps_nothing_def ret_run fail_run gets_run)

lemma maps_nothing_each [intro]: "(\<And>x. maps_nothing (f x)) \<Longrightarrow> maps_nothing (for_each xs f)"
  by (induction xs) (auto simp: for_each_Nil for_each_Cons)

lemma maps_nothing_steps [intro]:
  "maps_nothing (the_process p)" "maps_nothing (upd_process p g)" "maps_nothing (upd_thread i h)" "maps_nothing (the_thread i)"
  "maps_nothing (modify (set_page_table p Map.empty))" "maps_nothing (on_pmm m)" "maps_nothing (Thread_new a b c d)"
  "maps_nothing (modify (\<lambda>k. k\<lparr>allThreads := f1 k\<rparr>))" "maps_nothing (modify (\<lambda>k. k\<lparr>activeThreads := f2 k\<rparr>))"
  by (auto simp: maps_nothing_def modify_run the_process_def the_thread_def upd_process_def upd_thread_def Thread_new_def
      on_pmm_def zoom_run no_pages_def page_table_def set_page_table_def fun_eq_iff split: sum.splits if_splits)

lemma maps_nothing_thread: "maps_nothing (write_thread_reg i r v)"
  unfolding write_thread_reg_def
  by (rule maps_nothing_bind, rule maps_nothing_steps)
    (use maps_nothing_steps(3) in \<open>auto simp: maps_nothing_def split: sum.splits\<close>)

lemmas maps_nothing_intros =
  maps_nothing_bind maps_nothing_then maps_nothing_each maps_nothing_cases maps_nothing_plain maps_nothing_steps maps_nothing_thread

lemma maps_nothing_parts:
  "maps_nothing (wipeMemory env p)" "maps_nothing (recycle env p f)" "maps_nothing (read_header p bs off)"
  "maps_nothing (createThread p e arg)" "maps_nothing (setState i st)"
proof -
  show w: "maps_nothing (wipeMemory env p)"
    unfolding wipeMemory_def Let_def by (intro maps_nothing_intros)
  show "maps_nothing (recycle env p f)"
    unfolding recycle_def using w by blast
  show "maps_nothing (read_header p bs off)"
    unfolding read_header_def by auto
  show "maps_nothing (createThread p e arg)"
    unfolding createThread_def Let_def by (intro maps_nothing_intros)
  show "maps_nothing (setState i st)"
    unfolding setState_def by blast
qed

lemma maps_nothing_load: "maps_nothing (loadApplication env f)"
proof -
  have "maps_nothing (loadELF env f)"
    unfolding loadELF_def
    by (intro maps_nothing_intros maps_nothing_parts)
  then show ?thesis
    unfolding loadApplication_def createProcess_def by blast
qed

lemma installed_no_pages:
  assumes "installed env k" shows "no_pages k"
  using assms
proof induction
  case (boot st w k)
  then show ?case
    by (auto simp: init_eq no_pages_def booted_def reset_machine_def MMU_new_def page_table_def)
next
  case (load k f b k')
  then show ?case
    using maps_nothing_load [of env f] by (auto simp: maps_nothing_def)
qed

text \<open>The machines of a kernel that has mapped no page yet: every process sees the image of its file and a
  heap of zeros.\<close>

definition fresh_machines :: "'w Env \<Rightarrow> 'w Kernel \<Rightarrow> Machines" where
  "fresh_machines env k = \<lparr>contexts = thread_context k, memories = (\<lambda>p. initial_byte env (processList k ! p))\<rparr>"

lemma no_pages_seen:
  assumes "no_pages k" "layouts_ok k" shows "seen_as env (fresh_machines env k) k"
proof -
  have "\<not> saved k p v" "\<not> resident k p v" for p v
    using assms(1) by (simp_all add: no_pages_def saved_def resident_def)
  then show ?thesis
    using assms(2) by (simp add: seen_as_def unspoilt_def mirrors_def fresh_machines_def user_view_def map_le_def)
qed

lemma set_off_no_pages:
  assumes s: "safe k" and n: "no_pages k" and o: "set_off k = Inr (x, l)"
  shows "no_pages l \<and> processList l = processList k"
proof -
  have p: "post (\<lambda>_. True) (\<lambda>_ m. page_table m = page_table l \<and> processList m = processList l) preempt l" if "safe l" for l :: "'a Kernel"
  proof (cases "\<forall>j < length (activeThreads l). t_state (at l j) \<noteq> READY")
    case True
    then show ?thesis
      using preempt_idle [OF tasks_parts(1) [OF safe_parts(1) [OF that]]] by (simp add: post_def)
  next
    case False
    note so = tasks_parts(1) [OF safe_parts(1) [OF that]]
    obtain i where i: "i < length (activeThreads l)" "t_state (at l i) = READY"
      using False by auto
    then obtain d where d: "cyclic_next l d"
      using some_ready so by blast
    have "activeThreads l \<noteq> []"
      using i(1) by auto
    then show ?thesis
      using preempt_switches [OF so _ d refl] by (simp add: post_def)
  qed
  have "preempt (paged k) = Inr (x, l)"
    using o by (simp add: set_off_def andthen_run enable_run)
  then have "page_table l = page_table (paged k)" "processList l = processList (paged k)"
    using p [OF paged_safe(1) [OF s]] by (simp_all add: post_def)
  moreover have "page_table (paged k) = page_table k" "processList (paged k) = processList k"
    by (simp_all add: paged_def with_cpu_def page_table_def fun_eq_iff)
  ultimately show ?thesis
    using n by (simp add: no_pages_def)
qed

section \<open>Runs\<close>

text \<open>A move of the machines: some thread executes an instruction on the memory of its process.  The machines
  hold up a kernel when the machine of its current thread has no move: the next instruction is a system call,
  leaves a page, reads bytes nobody has defined, or is none.\<close>

definition machine_move :: "nat list \<Rightarrow> Machines \<Rightarrow> Machines \<Rightarrow> bool" where
  "machine_move ps M M' \<longleftrightarrow> (\<exists>t < length ps. \<exists>i. flat_turn i t (ps ! t) M = Some M')"

definition held_up :: "Machines \<Rightarrow> 'w Kernel \<Rightarrow> bool" where
  "held_up M k \<longleftrightarrow> (\<forall>i. flat_turn i (runner k) (home k) M = None)"

text \<open>Rounds in which no process ends.\<close>

inductive user_run :: "'w Env \<Rightarrow> 'w Kernel \<Rightarrow> 'w Kernel \<Rightarrow> bool" for env k where
  start: "user_run env k k"
| round: "user_run env k l \<Longrightarrow> turn env ticks l = Inr (y, n) \<Longrightarrow> \<not> lost l n \<Longrightarrow> user_run env k n"

lemma owner_of_runner:
  assumes "undisturbed env k" "env_ok env" "at_work k"
  shows "runner k < length (owners k)" "owners k ! runner k = home k"
proof -
  have "ready k"
    using undisturbed_fine [OF assms(1,2)] assms(3) by (simp add: ready_def at_work_def)
  then show "runner k < length (owners k)" "owners k ! runner k = home k"
    using ready_current(1) [of k] by (simp_all add: owners_def home_def)
qed

definition on_course :: "'w Env \<Rightarrow> 'w Kernel \<Rightarrow> nat list \<Rightarrow> Machines \<Rightarrow> bool" where
  "on_course env k ps M \<longleftrightarrow> undisturbed env k \<and> at_work k \<and> owners k = ps \<and> seen_as env M k"

lemma round_seen:
  assumes o: "on_course env k ps M" and env: "env_ok env" and m: "\<not> held_up M k"
    and t: "turn env ticks k = Inr (y, n)" "\<not> lost k n"
  shows "on_course env n ps M \<or> (\<exists>M'. machine_move ps M M' \<and> on_course env n ps M')"
proof -
  obtain i M' where f: "flat_turn i (runner k) (home k) M = Some M'"
    using m by (auto simp: held_up_def)
  have k: "undisturbed env k" "at_work k" "seen_as env M k" "owners k = ps"
    using o by (simp_all add: on_course_def)
  have "machine_move ps M M'"
    using f owner_of_runner [OF k(1) env k(2)] k(4) unfolding machine_move_def by metis
  then show ?thesis
    using turn_seen [OF k(1) env k(3,2) f, of ticks] t k(4) ended_lost by (auto simp: refused_in_def on_course_def)
qed

text \<open>The run is one of the machines up to its end, or up to a kernel of the run at which they hold it up.\<close>

theorem run_seen:
  assumes "user_run env k n" "on_course env k ps M" "env_ok env"
  shows "\<exists>M'. (machine_move ps)\<^sup>*\<^sup>* M M' \<and>
    (on_course env n ps M' \<or> (\<exists>m. user_run env k m \<and> user_run env m n \<and> on_course env m ps M' \<and> held_up M' m))"
  using assms(1)
proof induction
  case start
  then show ?case
    using assms(2) by blast
next
  case (round l ticks y n)
  then obtain M' where M': "(machine_move ps)\<^sup>*\<^sup>* M M'"
    "on_course env l ps M' \<or> (\<exists>m. user_run env k m \<and> user_run env m l \<and> on_course env m ps M' \<and> held_up M' m)"
    by blast
  have on: "user_run env m n" if "user_run env m l" for m
    using user_run.round [OF that round.hyps(2,3)] .
  consider "on_course env l ps M'" "held_up M' l" | "on_course env l ps M'" "\<not> held_up M' l"
    | m where "user_run env k m" "user_run env m l" "on_course env m ps M'" "held_up M' m"
    using M'(2) by blast
  then show ?case
  proof cases
    case 1
    then show ?thesis
      using M'(1) round.hyps(1) on [OF user_run.start] by blast
  next
    case 2
    then show ?thesis
      using round_seen [OF 2(1) assms(3) 2(2) round.hyps(2,3)] M'(1) by (meson rtranclp.rtrancl_into_rtrancl)
  next
    case 3
    then show ?thesis
      using M'(1) on by blast
  qed
qed

text \<open>From the start.\<close>

lemma start_on_course:
  assumes i: "installed env k" and o: "set_off k = Inr (x, l)" "at_work l" and l: "layouts_ok k"
  shows "on_course env l (owners l) (fresh_machines env l)"
proof -
  have n: "no_pages l" "processList l = processList k"
    using set_off_no_pages [OF conjunct1 [OF installed_fine [OF i]] installed_no_pages [OF i] o(1)] by simp_all
  then have "layouts_ok l"
    using l by (simp add: layouts_ok_def)
  then show ?thesis
    using no_pages_seen [OF n(1)] undisturbed.set_off [OF i o(1)] o(2) by (simp add: on_course_def)
qed

end
