(* ===== verification/Flat_Properties.thy ===== *)
theory Flat_Properties
  imports FlatRuns Run_Properties
begin

text \<open>
  Virtual memory and scheduling, from the program's point of view: the refinement of theories FlatMemory,
  VirtualMachines and FlatRuns, with the run of a small program that loops.
\<close>

section \<open>A program that loops\<close>

text \<open>The file of theory Process_Properties with three instructions behind its headers: count in a register,
  store the count below the stack pointer, jump back.\<close>

definition loop_elf :: "Byte list" where
  "loop_elf =
     elf_magic @ replicate 20 0 @ [84, 16, 0, 0] @ [52, 0, 0, 0] @ replicate 12 0 @ [1, 0] @ replicate 6 0 @
     [1, 0, 0, 0] @ [0, 0, 0, 0] @ [0, 16, 0, 0] @ [0, 0, 0, 0] @ [96, 0, 0, 0] @ [96, 0, 0, 0] @ [5, 0, 0, 0] @ [0, 16, 0, 0] @
     [0x93, 0x82, 0x12, 0x00] @ [0x23, 0x2E, 0x51, 0xFE] @ [0x6F, 0xF0, 0x9F, 0xFF]"

abbreviation "count_up \<equiv> OpImm I_ADDI 5 5 1"
abbreviation "store_count \<equiv> Store S_SW 2 5 (-4)"
abbreviation "jump_back \<equiv> Jal 0 (-4)"

definition loop_env :: "unit Env" where
  "loop_env = demo_env\<lparr>host_file := (\<lambda>n. Some loop_elf)\<rparr>"

lemma loop_words:
  "length loop_elf = 96" "le32 loop_elf 24 = 4180" "le32 loop_elf 28 = 52" "le16 loop_elf 44 = 1" "le32 loop_elf 52 = 1"
  "segment_of loop_elf 52 = \<lparr>seg_vaddr = 4096, seg_memSize = 96, seg_fileSize = 96, seg_fileOffset = 0, seg_flags = 5\<rparr>"
  by (simp_all add: loop_elf_def elf_magic_def le32_def le16_def segment_of_def)

lemma loop_file: "elf_like loop_elf" "headers_inside loop_elf" "executable_at (loadable loop_elf) (le32 loop_elf 24)"
  by (simp_all add: elf_like_def headers_inside_def header_at_def loadable_def executable_at_def loop_words)
    (simp add: loop_elf_def elf_magic_def)

lemma loop_env_ok: "env_ok loop_env"
  by (auto simp: env_ok_def loop_env_def demo_env_def)

definition loop_kernel :: "unit Kernel" where
  "loop_kernel = launched 0 ''loop'' loop_elf (booted Stats_new ())"

definition loop_running :: "unit Kernel" where
  "loop_running = switched 0 (paged loop_kernel)"

lemma loop_installed: "installed loop_env loop_kernel"
  using loop_file unfolding loop_kernel_def by (intro first_installed) (simp_all add: loop_env_def)

lemma loop_simps:
  "activeThreads loop_kernel = [0]" "length (allThreads loop_kernel) = 1" "currentThreadIndex loop_kernel = -1"
  "t_state (allThreads loop_kernel ! 0) = READY" "parent (allThreads loop_kernel ! 0) = 0" "t_pc (allThreads loop_kernel ! 0) = 4180"
  by (simp_all add: loop_kernel_def launched_def Let_def booted_def loop_words)

lemma loop_sets_off: "set_off loop_kernel = Inr ((), loop_running)"
  using first_sets_off [OF loop_installed] by (simp add: loop_simps loop_running_def)

lemma loop_facts:
  "at_work loop_running" "runner loop_running = 0" "home loop_running = 0" "owners loop_running = [0]"
  "layouts_ok loop_kernel" "processList loop_running = processList loop_kernel" "pc (cpu loop_running) = 4180"
  "segments (processList loop_kernel ! 0) = [segment_of loop_elf 52]" "p_name (processList loop_kernel ! 0) = ''loop''"
proof -
  let ?k = "paged loop_kernel"
  have k: "activeThreads ?k = [0]" "currentThreadIndex ?k = -1" "allThreads ?k = allThreads loop_kernel"
    "processList ?k = processList loop_kernel"
    by (simp_all add: paged_def with_cpu_def loop_simps)
  have "safe ?k"
    using installed_fine [OF loop_installed] paged_safe(1) by blast
  then have s: "sched_ok ?k"
    using tasks_parts(1) safe_parts(1) by blast
  show w: "at_work loop_running" and o: "owners loop_running = [0]"
    using switched_at_work [OF s, of 0] k loop_simps(2,5)
    by (simp_all add: loop_running_def owners_def list_eq_iff_nth_eq)
  show r: "runner loop_running = 0"
    using k by (simp add: runner_def loop_running_def)
  show "home loop_running = 0"
    using o r by (auto simp: home_def owners_def)
  show "processList loop_running = processList loop_kernel"
    using k by (simp add: loop_running_def)
  show "pc (cpu loop_running) = 4180"
    using k loop_simps(6) by (simp add: loop_running_def switched_def Let_def parked_def)
  have p: "processList loop_kernel = (processList (booted Stats_new ()))[0 := processList loop_kernel ! 0]"
    "segments (processList loop_kernel ! 0) = [segment_of loop_elf 52]" "p_name (processList loop_kernel ! 0) = ''loop''"
    by (simp_all add: loop_kernel_def launched_def Let_def booted_def manager_new renewed_def loadable_def header_at_def loop_words)
  then show "segments (processList loop_kernel ! 0) = [segment_of loop_elf 52]" "p_name (processList loop_kernel ! 0) = ''loop''"
    by simp_all
  have "plain_layout (processList loop_kernel ! 0)"
    by (simp add: plain_layout_def p(2) loop_words layout_defs)
  moreover have "plain_layout (PCB_new i n)" for i n
    by (simp add: plain_layout_def PCB_new_def)
  then have "\<forall>pr \<in> set (processList (booted Stats_new ())). plain_layout pr"
    by (simp add: booted_def ProcessManager_new_def)
  ultimately show "layouts_ok loop_kernel"
    unfolding layouts_ok_def by (subst p(1)) (auto dest!: set_update_subset_insert [THEN subsetD])
qed

text \<open>Its machines: one thread, at one of the three instructions, which the memory holds.\<close>

abbreviation loop_machines :: Machines where
  "loop_machines \<equiv> fresh_machines loop_env loop_running"

lemma loop_bytes:
  "word_bytes 4 (encode count_up) = [0x93, 0x82, 0x12, 0x00]" "word_bytes 4 (encode store_count) = [0x23, 0x2E, 0x51, 0xFE]"
  "word_bytes 4 (encode jump_back) = [0x6F, 0xF0, 0x9F, 0xFF]"
  by (simp_all add: word_bytes_def upt_conv_Cons enc_defs at_bit_def)

definition looping :: "Machines \<Rightarrow> bool" where
  "looping M \<longleftrightarrow> (case contexts M 0 of (rs, p) \<Rightarrow> rs ! 2 = STACK_TOP \<and> length rs = 32 \<and> (p = 4180 \<or> p = 4184 \<or> p = 4188)) \<and>
     flat_read (memories M 0) 4180 4 = Some (word_bytes 4 (encode count_up)) \<and>
     flat_read (memories M 0) 4184 4 = Some (word_bytes 4 (encode store_count)) \<and>
     flat_read (memories M 0) 4188 4 = Some (word_bytes 4 (encode jump_back))"

lemma loop_code: "looping loop_machines"
proof -
  have b: "memories loop_machines 0 (4180 + of_nat i) = Some (loop_elf ! (84 + i))" if "i < 12" for i
  proof -
    have u: "unat (4180 + of_nat i :: Addr) = 4180 + i"
      using that by (simp add: unat_word_ariths unat_of_nat)
    then have "\<not> STACK_REGION_BOTTOM \<le> (4180 + of_nat i :: Addr)"
      using that by (simp add: layout_defs word_le_nat_alt)
    moreover have "(4180 + i) div 4096 = 1"
      using that by simp
    ultimately show ?thesis
      using that u by (simp add: fresh_machines_def initial_byte_def loop_facts loop_words covers_page_def first_page_def end_page_def
          file_byte_def loop_env_def)
  qed
  have "flat_read (memories loop_machines 0) (4180 + of_nat d) 4 = Some (take 4 (drop (84 + d) loop_elf))" if "d + 4 \<le> 12" for d
  proof -
    have "memories loop_machines 0 (4180 + of_nat d + of_nat i) = Some (loop_elf ! (84 + d + i))" if "i < 4" for i
      using b [of "d + i"] that \<open>d + 4 \<le> 12\<close> by (simp add: add.assoc)
    then show ?thesis
      using that loop_words(1) by (auto simp: flat_read_def intro!: nth_equalityI)
  qed
  from this [of 0] this [of 4] this [of 8] have "flat_read (memories loop_machines 0) 4180 4 = Some (word_bytes 4 (encode count_up))"
     "flat_read (memories loop_machines 0) 4184 4 = Some (word_bytes 4 (encode store_count))"
     "flat_read (memories loop_machines 0) 4188 4 = Some (word_bytes 4 (encode jump_back))"
    unfolding loop_bytes by (simp_all add: loop_elf_def elf_magic_def)
  moreover have "contexts loop_machines 0 = (regs (cpu loop_running), 4180)"
    using loop_facts(1) by (simp add: fresh_machines_def thread_context_def loop_facts at_work_def)
  moreover have "regs (cpu loop_running) = RegFile_new[2 := STACK_TOP, 10 := 0]"
    by (simp add: loop_running_def switched_def Let_def parked_def paged_def with_cpu_def loop_kernel_def launched_def booted_def)
  ultimately show ?thesis
    by (simp add: looping_def RegFile_new_def)
qed

lemma loop_word:
  assumes "flat_read F a 4 = Some (word_bytes 4 (encode i))" "flat_read F a 4 = Some (word_bytes 4 (encode j))"
  shows "i = j"
  using assms bytes_of_word [of "encode i"] bytes_of_word [of "encode j"] by (metis encode_inject option.inject)

lemma loop_write:
  "flat_read (flat_write F (STACK_TOP - 4) (word_bytes 4 v)) a 4 = flat_read F a 4" if "a = 4180 \<or> a = 4184 \<or> a = 4188"
proof -
  have "flat_write F (STACK_TOP - 4) (word_bytes 4 v) (a + of_nat i) = F (a + of_nat i)" if "i < 4" for i
  proof -
    have "i = 0 \<or> i = 1 \<or> i = 2 \<or> i = 3"
      using that by auto
    then show ?thesis
      using \<open>a = 4180 \<or> a = 4184 \<or> a = 4188\<close> by (elim disjE) (simp_all add: flat_write_def layout_defs)
  qed
  then show ?thesis
    by (simp add: flat_read_def cong: map_cong)
qed

lemma loop_step:
  assumes "rs ! 2 = STACK_TOP" "length rs = 32"
  shows "flat_step count_up (rs, p) F = Some ((rs[5 := rs ! 5 + 1], p + 4), F)"
    "flat_step store_count (rs, p) F = Some ((rs, p + 4), flat_write F (STACK_TOP - 4) (word_bytes 4 (rs ! 5)))"
    "flat_step jump_back (rs, p) F = Some ((rs, p - 8), F)"
proof -
  show "flat_step count_up (rs, p) F = Some ((rs[5 := rs ! 5 + 1], p + 4), F)"
    using assms by (simp add: isa_set_def set_reg_def next_pc_def bare_def rf_set_def reg_val_def)
  show "flat_step store_count (rs, p) F = Some ((rs, p + 4), flat_write F (STACK_TOP - 4) (word_bytes 4 (rs ! 5)))"
    using assms by (simp add: flat_address_def page_offset_def layout_defs)
  show "flat_step jump_back (rs, p) F = Some ((rs, p - 8), F)"
    using assms by (simp add: isa_set_def set_reg_def goto_def bare_def rf_set_def reg_val_def)
qed

lemma loop_moves:
  assumes "looping M"
  shows "\<exists>i M'. flat_turn i 0 0 M = Some M'" "flat_turn i 0 0 M = Some M' \<Longrightarrow> looping M'"
proof -
  obtain rs p where c: "contexts M 0 = (rs, p)" "rs ! 2 = STACK_TOP" "length rs = 32" "p = 4180 \<or> p = 4184 \<or> p = 4188"
    using assms by (auto simp: looping_def split: prod.splits)
  have m: "flat_read (memories M 0) 4180 4 = Some (word_bytes 4 (encode count_up))"
    "flat_read (memories M 0) 4184 4 = Some (word_bytes 4 (encode store_count))"
    "flat_read (memories M 0) 4188 4 = Some (word_bytes 4 (encode jump_back))"
    using assms by (simp_all add: looping_def)
  note nx = loop_step [OF c(2,3), of p "memories M 0"]
  have o: "\<not> 4096 < page_offset p + 4"
    using c(4) by (auto simp: page_offset_def)
  show "\<exists>i M'. flat_turn i 0 0 M = Some M'"
    using c(4)
  proof (elim disjE)
    assume "p = 4180" then show ?thesis
      using m(1) nx(1) o c(1) by (intro exI [of _ count_up]) (simp add: flat_turn_def Let_def del: encode.simps flat_step.simps)
  next
    assume "p = 4184" then show ?thesis
      using m(2) nx(2) o c(1) by (intro exI [of _ store_count]) (simp add: flat_turn_def Let_def del: encode.simps flat_step.simps)
  next
    assume "p = 4188" then show ?thesis
      using m(3) nx(3) o c(1) by (intro exI [of _ jump_back]) (simp add: flat_turn_def Let_def del: encode.simps flat_step.simps)
  qed
  show "looping M'" if tn: "flat_turn i 0 0 M = Some M'"
  proof -
    obtain x G where t: "flat_read (memories M 0) p 4 = Some (word_bytes 4 (encode i))"
      "flat_step i (rs, p) (memories M 0) = Some (x, G)"
      "M' = M\<lparr>contexts := (contexts M)(0 := x), memories := (memories M)(0 := G)\<rparr>"
      using flat_turnE [OF tn c(1)] by metis
    show ?thesis
      using c(4)
    proof (elim disjE)
      assume p: "p = 4180"
      then have "i = count_up"
        using loop_word t(1) m(1) by blast
      then show ?thesis
        using t(2,3) nx(1) m c(2,3) p by (auto simp: looping_def simp del: encode.simps flat_step.simps)
    next
      assume p: "p = 4184"
      then have "i = store_count"
        using loop_word t(1) m(2) by blast
      then show ?thesis
        using t(2,3) nx(2) m c(2,3) p by (auto simp: looping_def loop_write simp del: encode.simps flat_step.simps)
    next
      assume p: "p = 4188"
      then have "i = jump_back"
        using loop_word t(1) m(3) by blast
      then show ?thesis
        using t(2,3) nx(3) m c(2,3) p by (auto simp: looping_def simp del: encode.simps flat_step.simps)
    qed
  qed
qed



section \<open>Rounds\<close>



section \<open>Runs\<close>

text \<open>C2: From the start of the simulator on, programs run as on machines of their own, when the loadable
  segments of every process start at page boundaries, do not overlap and end below the heap: the kernel with
  the loaded applications presents itself as machines whose memories hold the images of the files, as the
  program headers place them, and zeros in the heap; and after any number of rounds in which no process
  ends it presents itself as machines reached from these by instructions, unless the run has passed through
  a kernel that presented itself as these machines and whose current thread then could not go on by itself: at
  a system call, an access across a page boundary, a read of stack nobody has written, or at no instruction
  at all.\<close>

theorem runs_refine_flat_machines:
  assumes "installed env k" "env_ok env" "layouts_ok k" "set_off k = Inr (x, l)" "at_work l"
    and "user_run env l n"
  shows "\<exists>M. (machine_move (owners l))\<^sup>*\<^sup>* (fresh_machines env l) M \<and>
    (seen_as env M n \<or> (\<exists>m. user_run env l m \<and> user_run env m n \<and> seen_as env M m \<and> at_work m \<and> owners m = owners l \<and>
       runner m < length (owners l) \<and> home m = owners l ! runner m \<and> held_up M m))"
proof -
  obtain M where M: "(machine_move (owners l))\<^sup>*\<^sup>* (fresh_machines env l) M"
    "on_course env n (owners l) M \<or> (\<exists>m. user_run env l m \<and> user_run env m n \<and> on_course env m (owners l) M \<and> held_up M m)"
    using run_seen [OF assms(6) start_on_course [OF assms(1,4,5,3)] assms(2)] by blast
  have "runner m < length (owners l) \<and> home m = owners l ! runner m" if "on_course env m (owners l) M" for m
    using that owner_of_runner [of env m] assms(2) by (auto simp: on_course_def)
  then show ?thesis
    using M unfolding on_course_def by blast
qed

text \<open>The small program is never held up: all of its run is a run of its machines.\<close>

theorem runs_refine_flat_machines_witness:
  "{n. user_run loop_env loop_running n} \<subseteq> {n. \<exists>M. (machine_move [0])\<^sup>*\<^sup>* loop_machines M \<and> looping M \<and> seen_as loop_env M n}"
proof
  fix n assume "n \<in> {n. user_run loop_env loop_running n}"
  then obtain M where M: "(machine_move [0])\<^sup>*\<^sup>* loop_machines M" "seen_as loop_env M n \<or>
     (\<exists>m. runner m < 1 \<and> home m = [0] ! runner m \<and> held_up M (m :: unit Kernel))"
    using runs_refine_flat_machines [OF loop_installed loop_env_ok loop_facts(5) loop_sets_off loop_facts(1), of n]
    unfolding loop_facts(4) by auto
  from M(1) have l: "looping M"
  proof induction
    case base
    show ?case
      by (rule loop_code)
  next
    case (step y z)
    then show ?case
      using loop_moves(2) by (auto simp: machine_move_def)
  qed
  have "\<not> held_up M m" if "runner m < 1" "home m = [0] ! runner m" for m :: "unit Kernel"
    using that loop_moves(1) [OF l] by (simp add: held_up_def)
  then show "n \<in> {n. \<exists>M. (machine_move [0])\<^sup>*\<^sup>* loop_machines M \<and> looping M \<and> seen_as loop_env M n}"
    using M l by blast
qed

end
