(* ===== verification/Spec2Isabelle.thy ===== *)
theory Spec2Isabelle
  imports Machine_Properties Storage_Properties Kernel_Properties Process_Properties Call_Properties Run_Properties Program_Properties Flat_Properties
begin

text \<open>
  A verification library for rv32umos, a simulator of a 32-bit RISC-V machine (RV32IM) together
  with a small operating system: processes and threads, demand paging with swapping, a round
  robin scheduler, mutexes, a file system on an in-memory disk and fifteen system calls.

  The parts and how they interact.  \<^verbatim>\<open>RV32UMOS::start\<close> runs one instruction of
  the current thread at a time on the processor (\<^verbatim>\<open>rv32vm\<close>).  A trap, a system
  call or a page fault, goes to the kernel (\<^verbatim>\<open>kernel/Kernel.cpp\<close>); a page fault
  is served by the virtual memory manager from the swap area, as a new stack page, from the
  program's file or as a new heap page, evicting another page when no frame is free; a fault that
  none of them serves kills the process.  Every 100 instructions, or when the current thread
  cannot go on, the scheduler picks the next ready thread of the list and switches context and
  page table.

  How the code is modelled.  A C++ method is a function from a state to a fault or to a result
  and a new state (theory Prelude: \<^verbatim>\<open>ret\<close>, \<^verbatim>\<open>bind\<close>,
  \<^verbatim>\<open>for_each\<close>, and the judgement \<^verbatim>\<open>post\<close>).  Faults are
  failed assertions, the exits on illegal instructions, kernel panics, and behaviour C++ leaves
  undefined.  Machine integers are words of their width.  A pointer to a thread or process is its
  index in the list of all threads or processes; the page table a process owns is the table of
  that index in the MMU.  The host (console input and output, the contents of the host's files)
  and the iteration order of the standard library's hash maps are the parameter
  \<^verbatim>\<open>Env\<close> of the definitions that use them; that order is taken to depend on the contents of the map
  only.

  The theories, by the code they model:

  \<^item> Prelude: \<^verbatim>\<open>common/Common.hpp\<close> (types and layout constants) and the
    state-and-fault calculus with its collections \<^verbatim>\<open>run\<close> and \<^verbatim>\<open>wp\<close>.
  \<^item> Decoder, RegFile, Memory, MMU, Cpu, Executor, MachineStep: \<^verbatim>\<open>rv32vm\<close>, from
    the field extractors to \<^verbatim>\<open>Machine::step\<close>; one definition for each
    \<^verbatim>\<open>Executor\<close> method.
  \<^item> Disk, Files, Swap: \<^verbatim>\<open>disk\<close>, \<^verbatim>\<open>filesystem\<close>,
    \<^verbatim>\<open>memory/SwapManager\<close> and \<^verbatim>\<open>common/Stats.hpp\<close>.
  \<^item> Frames, Replacement: \<^verbatim>\<open>memory/PhysicalMemoryManager\<close> and
    \<^verbatim>\<open>memory/PageReplacementPolicy\<close>.
  \<^item> SyscallDefinition, KernelState: \<^verbatim>\<open>syscall/SyscallDefinition.hpp\<close>, the data
    of threads, mutexes, processes and segments, and the start-up of \<^verbatim>\<open>Kernel\<close>.
  \<^item> Scheduling, Processes, VirtualMemory, Loading, Syscalls, MainLoop:
    \<^verbatim>\<open>scheduler\<close>, \<^verbatim>\<open>process\<close>, \<^verbatim>\<open>sync\<close>,
    \<^verbatim>\<open>memory/VirtualMemoryManager\<close>, \<^verbatim>\<open>process/Loader\<close>,
    \<^verbatim>\<open>syscall/SyscallHandler\<close>, \<^verbatim>\<open>kernel/Kernel.cpp\<close> and
    \<^verbatim>\<open>RV32UMOS.cpp\<close>.
  \<^item> CommandLine: \<^verbatim>\<open>main.cpp\<close> and \<^verbatim>\<open>common/Logger.hpp\<close>.
  \<^item> CounterTest: the counter test \<^verbatim>\<open>user/programs/test10.c\<close> as a step relation whose lock and unlock
    calls are the kernel's; the client of the locale \<^verbatim>\<open>thread_lock\<close>, which extends \<^verbatim>\<open>lock\<close>.
  \<^item> GraphTest, HeapTest, on CMemory (32-bit variables in the memory of a C program): the graph traversal of
    \<^verbatim>\<open>user/programs/test2.c\<close>, a partial function proved to return and to be right on every graph laid
    out in memory; the heap test \<^verbatim>\<open>test13.c\<close> and the paging test \<^verbatim>\<open>test12.c\<close>, programs over a memory
    of their own that make their calls to the kernel: \<^verbatim>\<open>kernel_wp\<close> says that the calls are answered, what
    the console is given and how the program ends, on every kernel that leaves the process its heap break
    and its descriptors (the memory itself is the subject of FlatRuns, on machine programs); the factorial
    of \<^verbatim>\<open>test1.c\<close>.
  \<^item> UserLibrary: the C library of user programs, \<^verbatim>\<open>user/lib\<close>.  A C function is a function
    from the memory of the program to the tree of the system calls it makes; the numbers of the
    calls in \<^verbatim>\<open>user/lib/syscall.h\<close> are those of \<^verbatim>\<open>syscall/SyscallDefinition.hpp\<close>.

  The theories that carry the proofs:

  \<^item> Encoding, ISA, Alu, Refinement: an encoder of RV32IM, a reference step on decoded
    instructions written from the manual, and the proof that the machine's step on an encoded instruction is
    that step, but for loads into register 0 (\<^verbatim>\<open>idle_load\<close>).
  \<^item> Safety, Access: what any instruction may change, precise page faults, stores and loads
    through the page table, the words the machine refuses, compared with the manual's listing of masks and
    patterns (\<^verbatim>\<open>rv32im_listing\<close>).
  \<^item> Paging, PageFaults, Images, Isolation: the invariant \<^verbatim>\<open>vm_inv\<close> that ties
    page tables, frame table, replacement queue and swap area together; eviction, frame
    allocation and each way to serve a page fault keep it and the contents of every page that
    cannot be rebuilt; \<^verbatim>\<open>source_of\<close> and \<^verbatim>\<open>promised\<close> specify
    the handler; an instruction keeps the invariant and other processes' pages.
  \<^item> Locks, Resources, Lifecycle, Dispatch, Launch: mutual exclusion, heap break, descriptors,
    the plan of the stacks, ending and reusing processes, joining, system calls, the end of the
    main loop, loading.
  \<^item> UserMemory, FileCalls: user memory as a function from addresses to bytes, what the kernel
    reads from it and leaves in it, and the calls open, read, write and close end to end.
  \<^item> UserCalls: the C library on the kernel: allocation, integers on the console, strings, lines.
  \<^item> Demo, Boot: concrete machines and kernels for the witnesses; the start-up state meets
    every invariant.
  \<^item> Wellformed, FrameSafety, CallSafety, SyscallSafety, RunSafety: whole runs.
    \<^verbatim>\<open>safe\<close> (indices, registers, memory, page tables, free list, files inside their bounds) is kept
    by the service of page faults, by every system call, by ending, reusing and loading processes,
    by preemption, by a round of the main loop and so by \<^verbatim>\<open>start\<close>, from any state
    \<^verbatim>\<open>RV32UMOS_init\<close> and \<^verbatim>\<open>loadApplication\<close> produce (\<^verbatim>\<open>installed\<close>);
    \<^verbatim>\<open>fine\<close>, with the invariant of theory Paging, is kept until a process ends.  What a round may fail
    with is listed by \<^verbatim>\<open>round_fault\<close>: the fault of the instruction itself, the full swap area, the
    system calls of \<^verbatim>\<open>call_stop\<close>, and the panic for a thread that outlived its process.
  \<^item> FlatMemory, VirtualMachines, FlatRuns: the kernel as a virtual machine monitor.
    \<^verbatim>\<open>user_view\<close> is the memory a program sees, a partial map from addresses to bytes: what the
    kernel holds of a page that must be kept, else the image of the file or a heap of zeros;
    \<^verbatim>\<open>unspoilt\<close> says that a page in memory which need not be kept equals its image.  The service of a
    fault keeps every view (\<^verbatim>\<open>serviced_view\<close>), an instruction changes it by the bytes it stores
    (\<^verbatim>\<open>flat_instruction\<close>), a context switch keeps every thread's registers
    (\<^verbatim>\<open>switched_context\<close>); so a round, and any run of rounds, of user code is an execution of the
    flat machines \<^verbatim>\<open>flat_step\<close> and \<^verbatim>\<open>flat_turn\<close> define, with stuttering for faults of accesses the page
    table did not permit (\<^verbatim>\<open>faulted_in\<close>), and a process is ended only for an access that nothing permits
    (\<^verbatim>\<open>refused_in\<close>).  The segments
    are assumed to lie as \<^verbatim>\<open>scripts/linker.ld\<close> puts them (\<^verbatim>\<open>plain_layout\<close>).
  \<^item> Machine_Properties, Storage_Properties, Kernel_Properties, Process_Properties,
    Call_Properties, Run_Properties, Program_Properties, Flat_Properties: the properties, each with a run on a concrete state.

  The interfaces are locales, interpreted on the code's definitions: the register file
  (\<^verbatim>\<open>registers\<close>), byte-addressed memory, a block device, a page store
  (\<^verbatim>\<open>page_store\<close>, for the swap area), a frame allocator and a replacement
  policy (theories Frames and Replacement), and a lock (\<^verbatim>\<open>lock\<close> and
  \<^verbatim>\<open>thread_lock\<close>, for every mutex of every process).

  Bounds and fuel.  The main loop may run for ever; \<^verbatim>\<open>loop\<close> takes a bound on its
  iterations and returns nothing when it is used up, and the theorem about its end gives a result
  for every bound above zero.  \<^verbatim>\<open>strlen\<close> of the C library does not return on memory without
  a zero byte, and is a partial function, proved to return otherwise; so is the graph traversal, proved to
  return on graphs whose lists of edges end.  Every other loop is a
  structural recursion or has a measure (the copy loops of file handles, \<^verbatim>\<open>putstr\<close>,
  \<^verbatim>\<open>putint\<close>).  The constants (64 KiB of memory, hence 16 frames; 4096 disk blocks, the last 2048 for swapping;
  five threads to a process) are those of \<^verbatim>\<open>common/Common.hpp\<close>.

  What the proofs showed about the code, beyond what it promises: an access that crosses a page
  end reaches the next physical frame (so isolation holds but for three bytes); frames are
  released twice when a slot is used again after its process ended, so the invariant of memory is
  lost there; a dead process's waiting threads come back to life; exit codes survive the reuse of
  a slot; the first page of a segment that is not page aligned is lost; the file system hands out
  swap blocks; the read and write calls lose the bytes of buffer pages that are not in memory; a load into
  register 0 makes no access; jumps never raise an alignment exception; EBREAK is refused, and some words
  that RV32IM does not define run as JALR or ECALL; the loader uses an uninitialised header of a file that
  is cut before the end of its program headers (\<^verbatim>\<open>cut_elf\<close>).

  Not modelled: the kernel's log calls, printing and saving statistics, the service
  registry and the abstract device classes (their objects are the fields of the kernel record),
  destructors, the web build of the console, the functions nothing calls
  (\<^verbatim>\<open>Memory::loadBinary\<close>, \<^verbatim>\<open>Stats::reset\<close>), the compilation of the C
  library to machine code, and the other test programs under \<^verbatim>\<open>src/user/programs\<close>,
  sequences of library calls and messages; C expressions that overflow a signed integer or dereference the
  null pointer are \<^verbatim>\<open>None\<close> or \<^verbatim>\<open>Undefined\<close>.  The memory invariant of theory Paging is
  proved of runs in which no process has ended, and only \<^verbatim>\<open>safe\<close> of the others, because terminate
  and recycle break it.  The theorems about runs assume of the host only that a read of the console returns
  at most what was asked for (\<^verbatim>\<open>env_ok\<close>).  In the counter test the end of a worker is its change of state;
  the exit code it leaves and the thread that joins it are the subject of theory Lifecycle.
\<close>

end
